(* ===== verification/Prelude.thy ===== *)
theory Prelude
  imports Complex_Main "HOL-Library.Multiset"
begin

text \<open>
  Shared vocabulary of the development: Go's 64-bit integers and its truncating division, points in
  time and durations, maps with an explicit iteration order, the sum-typed results of fallible
  calls, and the two hand-written sorting loops of the code (the bubble sort of
  \<^verbatim>\<open>inference/cache.go\<close> and the exchange sort of \<^verbatim>\<open>authz/acl.go\<close>) with their correctness,
  proved once over an abstract swap test.
\<close>

named_theorems gomap \<open>lookups and domains of the map operations of the code\<close>
named_theorems i64_simps \<open>64-bit arithmetic that does not wrap\<close>

section \<open>Go integers\<close>

text \<open>
  Go's \<^verbatim>\<open>int\<close> and \<^verbatim>\<open>int64\<close> are modelled as \<^typ>\<open>int\<close>; where a sum or product can
  overflow and the result decides something, the two's complement wrap-around is written out with
  \<open>i64\<close>. Division truncates towards zero (\<open>go_div\<close>).
\<close>

definition i64 :: "int \<Rightarrow> int" where
  "i64 x = (x + 2 ^ 63) mod 2 ^ 64 - 2 ^ 63"

definition in_i64 :: "int \<Rightarrow> bool" where
  "in_i64 x \<longleftrightarrow> - (2 ^ 63) \<le> x \<and> x < 2 ^ 63"

definition go_div :: "int \<Rightarrow> int \<Rightarrow> int" where
  "go_div a b = sgn a * sgn b * (\<bar>a\<bar> div \<bar>b\<bar>)"

definition go_mod :: "int \<Rightarrow> int \<Rightarrow> int" where
  "go_mod a b = a - b * go_div a b"

lemma i64_id [i64_simps]: "in_i64 x \<Longrightarrow> i64 x = x"
  by (simp add: i64_def in_i64_def)

lemma i64_in_range [simp, intro]: "in_i64 (i64 x)"
proof -
  have "(x + 2 ^ 63) mod 2 ^ 64 < (2 ^ 64 :: int)" by simp
  moreover have "0 \<le> (x + 2 ^ 63) mod (2 ^ 64 :: int)" by simp
  ultimately show ?thesis by (simp add: i64_def in_i64_def)
qed

lemma i64_bounds: "- (2 ^ 63) \<le> i64 x" "i64 x < 2 ^ 63"
  using i64_in_range [of x] by (simp_all add: in_i64_def)

lemma i64_small [i64_simps]: "0 \<le> x \<Longrightarrow> x < 2 ^ 63 \<Longrightarrow> i64 x = x"
  by (rule i64_id) (simp add: in_i64_def)

lemma i64_le: "- (2 ^ 63) \<le> x \<Longrightarrow> i64 x \<le> x"
  using zmod_le_nonneg_dividend [of "x + 2 ^ 63" "2 ^ 64"] by (simp add: i64_def)

lemma i64_overflow: "2 ^ 63 \<le> x \<Longrightarrow> x < 2 ^ 64 \<Longrightarrow> i64 x = x - 2 ^ 64"
  unfolding i64_def
  by (subst minus_mod_self2 [symmetric], subst mod_pos_pos_trivial) auto

lemma go_div_nonneg: "0 \<le> a \<Longrightarrow> 0 \<le> b \<Longrightarrow> go_div a b = a div b"
  by (cases "a = 0"; cases "b = 0") (auto simp: go_div_def)

lemma go_div_lt: "0 \<le> a \<Longrightarrow> a < b \<Longrightarrow> go_div a b = 0"
  by (simp add: go_div_nonneg)

section \<open>Time\<close>

text \<open>
  A \<^verbatim>\<open>time.Time\<close> is its number of nanoseconds since the Unix epoch, a \<^verbatim>\<open>time.Duration\<close> an int64
  number of nanoseconds; the clock reading \<^verbatim>\<open>time.Now()\<close> is an argument \<open>now\<close> of every operation
  that takes one. \<^verbatim>\<open>Sub\<close> saturates at the ends of the int64 range, as the library's does.
  \<open>time_zero\<close> is the zero \<^verbatim>\<open>Time\<close> (1 January of year 1), the one \<^verbatim>\<open>IsZero\<close> recognises.
\<close>

type_synonym time = int
type_synonym duration = int

definition time_sub :: "time \<Rightarrow> time \<Rightarrow> duration" where
  "time_sub a b = max (- (2 ^ 63)) (min (2 ^ 63 - 1) (a - b))"

definition time_zero :: time where
  "time_zero = - 62135596800 * 10 ^ 9"

abbreviation second :: duration where "second \<equiv> 10 ^ 9"
abbreviation minute :: duration where "minute \<equiv> 60 * 10 ^ 9"
abbreviation hour :: duration where "hour \<equiv> 3600 * 10 ^ 9"

lemma time_sub_ge_iff: "0 \<le> d \<Longrightarrow> in_i64 d \<Longrightarrow> d \<le> time_sub a b \<longleftrightarrow> d \<le> a - b"
  by (auto simp: time_sub_def in_i64_def)

lemma time_sub_gt_iff: "0 \<le> d \<Longrightarrow> d < 2 ^ 63 - 1 \<Longrightarrow> d < time_sub a b \<longleftrightarrow> d < a - b"
  by (auto simp: time_sub_def)

lemma time_sub_nonneg: "b \<le> a \<Longrightarrow> 0 \<le> time_sub a b"
  by (simp add: time_sub_def)

lemma time_sub_exact: "0 \<le> a - b \<Longrightarrow> a - b < 2 ^ 63 \<Longrightarrow> time_sub a b = a - b"
  by (simp add: time_sub_def)

lemma time_sub_in_i64: "in_i64 (time_sub a b)"
  by (auto simp: time_sub_def in_i64_def)

section \<open>Maps with an iteration order\<close>

text \<open>
  A Go map is a partial function with finitely many keys. \<^verbatim>\<open>range\<close> visits the keys in an order the
  runtime picks anew each time, so an operation that ranges over a map takes that order as an
  argument \<open>ks\<close>, and its theorems hold for every \<open>ks\<close> with \<open>iterates ks m\<close>.
\<close>

definition iterates :: "'k list \<Rightarrow> ('k \<rightharpoonup> 'v) \<Rightarrow> bool" where
  "iterates ks m \<longleftrightarrow> distinct ks \<and> set ks = dom m"

definition map_values :: "'k list \<Rightarrow> ('k \<rightharpoonup> 'v) \<Rightarrow> 'v list" where
  "map_values ks m = map (\<lambda>k. the (m k)) ks"

definition del_keys :: "'k list \<Rightarrow> ('k \<rightharpoonup> 'v) \<Rightarrow> ('k \<rightharpoonup> 'v)" where
  "del_keys ks m = fold (\<lambda>k m. m(k := None)) ks m"

lemma iterates_distinct [dest]: "iterates ks m \<Longrightarrow> distinct ks"
  by (simp add: iterates_def)

lemma iterates_set [gomap]: "iterates ks m \<Longrightarrow> set ks = dom m"
  by (simp add: iterates_def)

lemma iterates_finite: "iterates ks m \<Longrightarrow> finite (dom m)"
  by (metis iterates_set finite_set)

lemma iterates_length: "iterates ks m \<Longrightarrow> length ks = card (dom m)"
  by (metis iterates_def distinct_card)

lemma iterates_exists: "finite (dom m) \<Longrightarrow> \<exists>ks. iterates ks m"
  by (metis iterates_def finite_distinct_list)

lemma in_map_values: "iterates ks m \<Longrightarrow> v \<in> set (map_values ks m) \<longleftrightarrow> (\<exists>k. m k = Some v)"
  by (force simp: map_values_def iterates_def dom_def image_iff)

lemma del_keys_Nil [simp]: "del_keys [] m = m"
  by (simp add: del_keys_def)

lemma del_keys_Cons [simp]: "del_keys (k # ks) m = del_keys ks (m(k := None))"
  by (simp add: del_keys_def)

lemma del_keys_apply [gomap]: "del_keys ks m k = (if k \<in> set ks then None else m k)"
  by (induction ks arbitrary: m) auto

lemma dom_del_keys [gomap]: "dom (del_keys ks m) = dom m - set ks"
  by (auto simp: dom_def del_keys_apply)

lemma sum_over_iteration:
  "iterates ks m \<Longrightarrow> sum_list (map f ks) = (\<Sum>k\<in>dom m. f k :: 'a :: comm_monoid_add)"
  by (metis iterates_def sum_list_distinct_conv_sum_set)

text \<open>
  An operation that ranges over a map twice, or after it has deleted keys, meets the remaining keys
  in an order of its own: \<open>visit ks m\<close> are the bindings of \<open>m\<close> in the order \<open>ks\<close>, which need only list
  every key once (\<open>covers\<close>), so that one order serves the map and all its restrictions.
\<close>

definition covers :: "'k list \<Rightarrow> ('k \<rightharpoonup> 'v) \<Rightarrow> bool" where
  "covers ks m \<longleftrightarrow> distinct ks \<and> dom m \<subseteq> set ks"

definition visit :: "'k list \<Rightarrow> ('k \<rightharpoonup> 'v) \<Rightarrow> ('k \<times> 'v) list" where
  "visit ks m = List.map_filter (\<lambda>k. map_option (Pair k) (m k)) ks"

lemma visit_Nil [simp]: "visit [] m = []"
  by (simp add: visit_def)

lemma visit_Cons [simp]:
  "visit (k # ks) m = (case m k of None \<Rightarrow> visit ks m | Some v \<Rightarrow> (k, v) # visit ks m)"
  by (simp add: visit_def List.map_filter_def split: option.split)

lemma covers_finite: "covers ks m \<Longrightarrow> finite (dom m)"
  by (auto simp: covers_def intro: finite_subset)

lemma covers_mono: "covers ks m \<Longrightarrow> dom m' \<subseteq> dom m \<Longrightarrow> covers ks m'"
  by (auto simp: covers_def)

lemma iterates_covers: "iterates ks m \<Longrightarrow> covers ks m"
  by (simp add: covers_def iterates_def)

lemma set_visit: "set (visit ks m) = {(k, v). k \<in> set ks \<and> m k = Some v}"
  by (induction ks) (auto split: option.splits)

lemma in_visit [gomap]: "covers ks m \<Longrightarrow> (k, v) \<in> set (visit ks m) \<longleftrightarrow> m k = Some v"
  by (auto simp: set_visit covers_def)

lemma visit_keys: "map fst (visit ks m) = filter (\<lambda>k. k \<in> dom m) ks"
  by (induction ks) (auto split: option.splits)

lemma visit_keys_dom: "covers ks m \<Longrightarrow> distinct (map fst (visit ks m)) \<and> fst ` set (visit ks m) = dom m"
  by (auto simp: visit_keys covers_def set_visit image_iff dom_def)

lemma distinct_visit: "covers ks m \<Longrightarrow> distinct (visit ks m)"
  by (meson visit_keys_dom distinct_map)

lemma length_visit: "covers ks m \<Longrightarrow> length (visit ks m) = card (dom m)"
  by (metis visit_keys_dom distinct_card length_map set_map)

lemma sum_list_visit:
  assumes "covers ks m"
  shows "sum_list (map (\<lambda>(k, v). f k v) (visit ks m)) = (\<Sum>k\<in>dom m. f k (the (m k)) :: 'a :: comm_monoid_add)"
proof -
  have "map (\<lambda>(k, v). f k v) (visit ks m) = map (\<lambda>k. f k (the (m k))) (map fst (visit ks m))"
    by (auto simp: set_visit)
  with visit_keys_dom [OF assms] show ?thesis
    by (metis sum_list_distinct_conv_sum_set list.set_map)
qed

text \<open>Totals over a map's values (bytes held, units in use), under insertion and deletion.\<close>

definition total_of :: "('v \<Rightarrow> int) \<Rightarrow> ('k \<rightharpoonup> 'v) \<Rightarrow> int" where
  "total_of f m = (\<Sum>k\<in>dom m. f (the (m k)))"

lemma total_of_empty [simp]: "total_of f Map.empty = 0"
  by (simp add: total_of_def)

lemma total_of_del:
  assumes "finite (dom m)"
  shows "total_of f (m(k := None)) = total_of f m - (case m k of None \<Rightarrow> 0 | Some v \<Rightarrow> f v)"
proof (cases "m k")
  case None
  then show ?thesis by (simp add: fun_upd_idem)
next
  case (Some v)
  have "total_of f (m(k := None)) = (\<Sum>j\<in>dom m - {k}. f (the (m j)))"
    unfolding total_of_def by (rule sum.cong) auto
  moreover have "total_of f m = f v + (\<Sum>j\<in>dom m - {k}. f (the (m j)))"
    unfolding total_of_def using sum.remove [OF assms, of k "\<lambda>j. f (the (m j))"] Some by (auto simp: domIff)
  ultimately show ?thesis using Some by simp
qed

lemma total_of_upd:
  assumes "finite (dom m)"
  shows "total_of f (m(k \<mapsto> v)) = total_of f m - (case m k of None \<Rightarrow> 0 | Some w \<Rightarrow> f w) + f v"
proof -
  have "total_of f (m(k \<mapsto> v)) = f v + (\<Sum>j\<in>dom m - {k}. f (the ((m(k \<mapsto> v)) j)))"
    unfolding total_of_def
    using sum.remove [of "insert k (dom m)" k "\<lambda>j. f (the ((m(k \<mapsto> v)) j))"] assms by simp
  also have "(\<Sum>j\<in>dom m - {k}. f (the ((m(k \<mapsto> v)) j))) = total_of f (m(k := None))"
    unfolding total_of_def by (rule sum.cong) auto
  finally show ?thesis by (simp only: total_of_del [OF assms])
qed

lemma total_of_nonneg: "(\<And>k v. m k = Some v \<Longrightarrow> 0 \<le> f v) \<Longrightarrow> 0 \<le> total_of f m"
  unfolding total_of_def by (rule sum_nonneg) auto

lemma total_of_ge:
  assumes "finite (dom m)" "\<And>k v. m k = Some v \<Longrightarrow> 0 \<le> f v" "m k = Some v"
  shows "f v \<le> total_of f m"
proof -
  have "0 \<le> total_of f (m(k := None))" using assms(2) by (intro total_of_nonneg) (auto split: if_splits)
  with assms show ?thesis by (simp add: total_of_del)
qed

lemma sum_list_visit_total: "covers ks m \<Longrightarrow> sum_list (map (\<lambda>(k, v). f v) (visit ks m)) = total_of f m"
  by (simp add: sum_list_visit total_of_def)

section \<open>Fallible results\<close>

text \<open>A Go call that returns a value and an error is a sum: \<open>Inl\<close> the error, \<open>Inr\<close> the value.\<close>

definition is_ok :: "'e + 'a \<Rightarrow> bool" where
  "is_ok r = (case r of Inl _ \<Rightarrow> False | Inr _ \<Rightarrow> True)"

lemma is_ok_simps [simp]: "is_ok (Inr x)" "\<not> is_ok (Inl e)"
  by (simp_all add: is_ok_def)

lemma is_ok_iff: "is_ok r \<longleftrightarrow> (\<exists>x. r = Inr x)"
  by (cases r) auto

lemma in_map_filter: "y \<in> set (List.map_filter f xs) \<longleftrightarrow> (\<exists>x\<in>set xs. f x = Some y)"
  by (force simp: List.map_filter_def image_iff)

section \<open>The bubble sort loop\<close>

text \<open>
  The loop
  \<^verbatim>\<open>for i < n-1 { for j < n-i-1 { if swap(e[j], e[j+1]) { e[j], e[j+1] = e[j+1], e[j] } } }\<close>:
  \<open>bubble_pass sw m\<close> is the inner loop with \<open>m\<close> comparisons, \<open>bubble_from\<close> the outer one with
  \<open>m = n - 1, n - 2, ..., 1\<close>.
\<close>

fun bubble_pass :: "('a \<Rightarrow> 'a \<Rightarrow> bool) \<Rightarrow> nat \<Rightarrow> 'a list \<Rightarrow> 'a list" where
  "bubble_pass sw (Suc m) (x # y # xs) =
     (if sw x y then y # bubble_pass sw m (x # xs) else x # bubble_pass sw m (y # xs))"
| "bubble_pass sw m xs = xs"

primrec bubble_from :: "('a \<Rightarrow> 'a \<Rightarrow> bool) \<Rightarrow> nat \<Rightarrow> 'a list \<Rightarrow> 'a list" where
  "bubble_from sw 0 xs = xs"
| "bubble_from sw (Suc m) xs = bubble_from sw m (bubble_pass sw (Suc m) xs)"

definition bubble_sort :: "('a \<Rightarrow> 'a \<Rightarrow> bool) \<Rightarrow> 'a list \<Rightarrow> 'a list" where
  "bubble_sort sw xs = bubble_from sw (length xs - 1) xs"

lemma mset_bubble_pass [simp]: "mset (bubble_pass sw m xs) = mset xs"
  by (induction sw m xs rule: bubble_pass.induct) auto

lemma length_bubble_pass [simp]: "length (bubble_pass sw m xs) = length xs"
  by (metis mset_bubble_pass size_mset)

lemma mset_bubble_from [simp]: "mset (bubble_from sw m xs) = mset xs"
  by (induction m arbitrary: xs) auto

lemma mset_bubble_sort [simp]: "mset (bubble_sort sw xs) = mset xs"
  by (simp add: bubble_sort_def)

lemma set_bubble_sort [simp]: "set (bubble_sort sw xs) = set xs"
  by (metis mset_bubble_sort set_mset_mset)

lemma length_bubble_sort [simp]: "length (bubble_sort sw xs) = length xs"
  by (metis mset_bubble_sort size_mset)

lemma distinct_bubble_sort [simp]: "distinct (bubble_sort sw xs) = distinct xs"
  by (metis mset_bubble_sort mset_eq_imp_distinct_iff)

section \<open>The exchange sort loop\<close>

text \<open>
  The loop
  \<^verbatim>\<open>for i < n { for j = i+1; j < n { if gt(r[j], r[i]) { r[i], r[j] = r[j], r[i] } } }\<close>:
  \<open>xchg\<close> is the inner loop, which carries \<open>r[i]\<close> along the rest of the slice.
\<close>

fun xchg :: "('a \<Rightarrow> 'a \<Rightarrow> bool) \<Rightarrow> 'a \<Rightarrow> 'a list \<Rightarrow> 'a \<times> 'a list" where
  "xchg gt x [] = (x, [])"
| "xchg gt x (y # ys) =
     (if gt y x then (case xchg gt y ys of (z, zs) \<Rightarrow> (z, x # zs))
      else (case xchg gt x ys of (z, zs) \<Rightarrow> (z, y # zs)))"

lemma mset_xchg: "xchg gt x ys = (z, zs) \<Longrightarrow> add_mset z (mset zs) = add_mset x (mset ys)"
  by (induction gt x ys arbitrary: z zs rule: xchg.induct)
    (auto split: if_splits prod.splits)

lemma length_xchg: "xchg gt x ys = (z, zs) \<Longrightarrow> length zs = length ys"
  by (induction gt x ys arbitrary: z zs rule: xchg.induct) (auto split: if_splits prod.splits)

function exchange_sort :: "('a \<Rightarrow> 'a \<Rightarrow> bool) \<Rightarrow> 'a list \<Rightarrow> 'a list" where
  "exchange_sort gt [] = []"
| "exchange_sort gt (x # xs) = (case xchg gt x xs of (z, zs) \<Rightarrow> z # exchange_sort gt zs)"
  by pat_completeness auto
termination
proof (relation "measure (\<lambda>(gt, xs). length xs)", goal_cases)
  case 1
  show ?case by simp
next
  case (2 gt x xs z zs)
  then show ?case by (auto dest: length_xchg [OF sym])
qed

lemma mset_exchange_sort [simp]: "mset (exchange_sort gt xs) = mset xs"
  by (induction gt xs rule: exchange_sort.induct) (auto dest: mset_xchg split: prod.splits)

lemma set_exchange_sort [simp]: "set (exchange_sort gt xs) = set xs"
  by (metis mset_exchange_sort set_mset_mset)

section \<open>Sorting correctness\<close>

text \<open>
  A swap test that is asymmetric and negatively transitive is the strict part of a total preorder;
  for such a test both loops leave no pair the test would swap.
\<close>

locale swap_test =
  fixes sw :: "'a \<Rightarrow> 'a \<Rightarrow> bool"
  assumes asym: "sw x y \<Longrightarrow> \<not> sw y x"
    and neg_trans: "\<not> sw x y \<Longrightarrow> \<not> sw y z \<Longrightarrow> \<not> sw x z"
begin

lemma pass_moves_last:
  assumes "length p = Suc m"
  shows "\<exists>q z. bubble_pass sw m (p @ s) = q @ z # s \<and> length q = m
    \<and> mset (q @ [z]) = mset p \<and> (\<forall>x\<in>set q. \<not> sw x z)"
  using assms
proof (induction m arbitrary: p)
  case 0
  then obtain x where "p = [x]" by (auto simp: length_Suc_conv)
  then show ?case by auto
next
  case (Suc m)
  then obtain x y p' where p: "p = x # y # p'" and len: "length p' = m"
    by (auto simp: length_Suc_conv)
  let ?a = "if sw x y then y else x" and ?b = "if sw x y then x else y"
  have ab: "\<not> sw ?a ?b" using asym by auto
  from len have "length (?b # p') = Suc m" by simp
  then obtain q z where q: "bubble_pass sw m ((?b # p') @ s) = q @ z # s" "length q = m"
      "mset (q @ [z]) = mset (?b # p')" "\<forall>x\<in>set q. \<not> sw x z"
    using Suc.IH by blast
  have "?b \<in> insert z (set q)"
    using arg_cong [OF q(3), of set_mset] by auto
  moreover have "\<not> sw z z" using asym [of z z] by blast
  ultimately have "\<not> sw ?b z" using q(4) by auto
  with ab have "\<not> sw ?a z" by (rule neg_trans)
  moreover have "bubble_pass sw (Suc m) (p @ s) = (?a # q) @ z # s"
    using q(1) p by auto
  moreover have "mset ((?a # q) @ [z]) = mset p"
    using q(3) p by (auto simp: add_mset_commute)
  ultimately show ?case using q(2,4) by (metis length_Cons set_ConsD)
qed

lemma bubble_from_sorted:
  assumes "length p = Suc m" "sorted_wrt (\<lambda>x y. \<not> sw x y) s" "\<forall>x\<in>set p. \<forall>y\<in>set s. \<not> sw x y"
  shows "sorted_wrt (\<lambda>x y. \<not> sw x y) (bubble_from sw m (p @ s))"
  using assms
proof (induction m arbitrary: p s)
  case 0
  then obtain x where "p = [x]" by (auto simp: length_Suc_conv)
  with 0 show ?case by simp
next
  case (Suc m)
  obtain q z where q: "bubble_pass sw (Suc m) (p @ s) = q @ z # s" "length q = Suc m"
      "mset (q @ [z]) = mset p" "\<forall>x\<in>set q. \<not> sw x z"
    using pass_moves_last [OF Suc.prems(1)] by blast
  have "set p = insert z (set q)" using arg_cong [OF q(3), of set_mset] by auto
  with Suc.prems q have "sorted_wrt (\<lambda>x y. \<not> sw x y) (bubble_from sw m (q @ z # s))"
    by (intro Suc.IH) auto
  with q(1) show ?case by simp
qed

lemma bubble_sort_sorted: "sorted_wrt (\<lambda>x y. \<not> sw x y) (bubble_sort sw xs)"
proof (cases xs)
  case (Cons x ys)
  then have "length xs = Suc (length xs - 1)" by simp
  from bubble_from_sorted [OF this, of "[]"] show ?thesis by (simp add: bubble_sort_def)
qed (simp add: bubble_sort_def)

lemma xchg_max:
  "xchg (\<lambda>a b. sw b a) x ys = (z, zs) \<Longrightarrow> \<not> sw z x \<and> (\<forall>y\<in>set zs. \<not> sw z y)"
proof (induction "\<lambda>a b. sw b a" x ys arbitrary: z zs rule: xchg.induct)
  case (1 x)
  then show ?case using asym by auto
next
  case (2 x y ys)
  show ?case
  proof (cases "sw x y")
    case True
    with 2 obtain zs' where "xchg (\<lambda>a b. sw b a) y ys = (z, zs')" "zs = x # zs'"
      by (auto split: prod.splits)
    with 2 True show ?thesis by (metis asym neg_trans set_ConsD)
  next
    case False
    with 2 obtain zs' where "xchg (\<lambda>a b. sw b a) x ys = (z, zs')" "zs = y # zs'"
      by (auto split: prod.splits)
    with 2 False show ?thesis by (metis neg_trans set_ConsD)
  qed
qed

lemma exchange_sort_sorted: "sorted_wrt (\<lambda>x y. \<not> sw x y) (exchange_sort (\<lambda>a b. sw b a) xs)"
  by (induction "\<lambda>a b. sw b a" xs rule: exchange_sort.induct)
    (auto split: prod.splits dest: xchg_max)

end

section \<open>Operations against a specification\<close>

text \<open>
  An operation takes a state and a call and gives the next state and an answer. \<open>run_ops\<close> collects
  the answers of a run. When a relation between the states of an implementation and of a
  specification is kept by every pair of steps, with equal answers, the two cannot be told apart
  from outside.
\<close>

fun run_ops :: "('s \<Rightarrow> 'call \<Rightarrow> 's \<times> 'answer) \<Rightarrow> 's \<Rightarrow> 'call list \<Rightarrow> 'answer list" where
  "run_ops step s [] = []"
| "run_ops step s (c # cs) = (case step s c of (s', a) \<Rightarrow> a # run_ops step s' cs)"

locale simulation =
  fixes impl :: "'s \<Rightarrow> 'call \<Rightarrow> 's \<times> 'answer" and spec :: "'a \<Rightarrow> 'call \<Rightarrow> 'a \<times> 'answer"
    and rel :: "'s \<Rightarrow> 'a \<Rightarrow> bool" and allowed :: "'call \<Rightarrow> bool"
  assumes step: "rel s a \<Longrightarrow> allowed c \<Longrightarrow> impl s c = (s', x) \<Longrightarrow> spec a c = (a', y) \<Longrightarrow> rel s' a' \<and> x = y"
begin

lemma same_answers:
  "rel s a \<Longrightarrow> \<forall>c\<in>set cs. allowed c \<Longrightarrow> run_ops impl s cs = run_ops spec a cs"
proof (induction cs arbitrary: s a)
  case (Cons c cs)
  obtain s' x a' y where st: "impl s c = (s', x)" "spec a c = (a', y)" by fastforce
  with step [OF Cons.prems(1) _ st] Cons.prems(2) have "rel s' a'" "x = y" by auto
  with Cons.IH Cons.prems(2) st show ?case by simp
qed simp

end

end
