(* ===== verification/Float64.thy ===== *)
theory Float64
  imports Prelude
begin

text \<open>
  Go's \<^verbatim>\<open>float64\<close>. A finite double is the rational number it denotes; each arithmetic operation of
  the code is the exact rational operation followed by \<open>fl\<close>, IEEE-754 rounding to nearest, ties to
  even, with a 53-bit significand. Not modelled: overflow to infinity, underflow below the normal
  range and the signed zero; the quantities of the code that are floats (token counts, rates,
  percentages, byte counts) stay far inside the normal range. Go may fuse \<open>x * y + z\<close> into one rounding
  on architectures that have the instruction; the model rounds both operations, as amd64 does.
\<close>

section \<open>Rounding\<close>

definition rne :: "rat \<Rightarrow> int" where
  "rne x = (let f = \<lfloor>x\<rfloor>; r = x - of_int f in
     if r < 1 / 2 then f else if 1 / 2 < r then f + 1 else if even f then f else f + 1)"

function ilog2 :: "int \<Rightarrow> nat" where
  "ilog2 n = (if n < 2 then 0 else Suc (ilog2 (n div 2)))"
  by pat_completeness auto
termination
  by (relation "measure nat") auto

declare ilog2.simps [simp del]

definition fexp :: "rat \<Rightarrow> int" where
  "fexp x = (case quotient_of \<bar>x\<bar> of (n, d) \<Rightarrow>
     let e = int (ilog2 n) - int (ilog2 d) in
     if 2 powi e \<le> \<bar>x\<bar> then e else e - 1)"

definition fl :: "rat \<Rightarrow> rat" where
  "fl x = (if x = 0 then 0
     else let u = 2 powi (fexp x - 52) in of_int (rne (x / u)) * u)"

text \<open>Conversion of a float to an integer truncates towards zero.\<close>

definition f_trunc :: "rat \<Rightarrow> int" where
  "f_trunc x = (if 0 \<le> x then \<lfloor>x\<rfloor> else \<lceil>x\<rceil>)"

text \<open>\<^verbatim>\<open>Duration.Seconds()\<close>: whole seconds plus the rest divided by 1e9.\<close>

definition f_seconds :: "int \<Rightarrow> rat" where
  "f_seconds d = fl (fl (of_int (go_div d second)) + fl (fl (of_int (go_mod d second)) / 10 ^ 9))"

section \<open>What the clients rely on\<close>

locale rounding =
  fixes rd :: "rat \<Rightarrow> rat"
  assumes mono: "x \<le> y \<Longrightarrow> rd x \<le> rd y"
    and idem: "rd (rd x) = rd x"
    and zero: "rd 0 = 0"
begin

lemma nonneg: "0 \<le> x \<Longrightarrow> 0 \<le> rd x"
  using mono [of 0 x] by (simp add: zero)

lemma below_representable: "x \<le> y \<Longrightarrow> rd y = y \<Longrightarrow> rd x \<le> y"
  using mono [of x y] by simp

lemma above_representable: "x \<le> y \<Longrightarrow> rd x = x \<Longrightarrow> x \<le> rd y"
  using mono [of x y] by simp

end

section \<open>Rounding to nearest satisfies it\<close>

lemma rne_of_int [simp]: "rne (of_int k) = k"
  by (simp add: rne_def)

lemma rne_bounds: "\<lfloor>x\<rfloor> \<le> rne x \<and> rne x \<le> \<lceil>x\<rceil>"
proof -
  have "x - of_int \<lfloor>x\<rfloor> \<noteq> 0 \<Longrightarrow> \<lceil>x\<rceil> = \<lfloor>x\<rfloor> + 1"
    by (simp add: ceiling_altdef)
  then show ?thesis
    by (auto simp: rne_def Let_def floor_le_ceiling)
qed

lemma rne_mono: "x \<le> y \<Longrightarrow> rne x \<le> rne y"
proof -
  assume xy: "x \<le> y"
  show ?thesis
  proof (cases "\<lfloor>x\<rfloor> = \<lfloor>y\<rfloor>")
    case True
    with xy show ?thesis by (auto simp: rne_def Let_def)
  next
    case False
    with floor_mono [OF xy] have "\<lfloor>x\<rfloor> + 1 \<le> \<lfloor>y\<rfloor>" by simp
    moreover have "\<lceil>x\<rceil> \<le> \<lfloor>x\<rfloor> + 1" by (simp add: ceiling_altdef)
    ultimately show ?thesis using rne_bounds [of x] rne_bounds [of y] by linarith
  qed
qed

lemma rne_neg: "rne (- x) = - rne x"
proof (cases "x = of_int \<lfloor>x\<rfloor>")
  case True
  then show ?thesis by (metis of_int_minus rne_of_int)
next
  case False
  then have fm: "\<lfloor>- x\<rfloor> = - \<lfloor>x\<rfloor> - 1"
    by (simp add: floor_minus ceiling_altdef)
  have "- x - of_int (- \<lfloor>x\<rfloor> - 1) = 1 - (x - of_int \<lfloor>x\<rfloor>)" by simp
  then show ?thesis unfolding rne_def Let_def fm by auto
qed

lemma ilog2_bounds: "0 < n \<Longrightarrow> 2 ^ ilog2 n \<le> n \<and> n < 2 ^ Suc (ilog2 n)"
proof (induction n rule: ilog2.induct)
  case (1 n)
  show ?case
  proof (cases "n < 2")
    case True
    with 1 show ?thesis by (subst (1 2) ilog2.simps) auto
  next
    case False
    then have "0 < n div 2" by auto
    with 1 False have "2 ^ ilog2 (n div 2) \<le> n div 2" "n div 2 < 2 ^ Suc (ilog2 (n div 2))"
      by auto
    then show ?thesis using False by (subst (1 2) ilog2.simps) auto
  qed
qed

lemma ilog2_powi:
  assumes "0 < n"
  shows "2 powi int (ilog2 n) \<le> (of_int n :: rat)" "(of_int n :: rat) < 2 powi (int (ilog2 n) + 1)"
proof -
  have "(of_int (2 ^ ilog2 n) :: rat) \<le> of_int n"
    using ilog2_bounds [OF assms] by (simp only: of_int_le_iff)
  then show "2 powi int (ilog2 n) \<le> (of_int n :: rat)" by simp
  have "(of_int n :: rat) < of_int (2 ^ Suc (ilog2 n))"
    using ilog2_bounds [OF assms] by (simp only: of_int_less_iff)
  then show "(of_int n :: rat) < 2 powi (int (ilog2 n) + 1)"
    by (simp add: power_int_add)
qed

lemma fexp_bounds:
  assumes "x \<noteq> 0"
  shows "2 powi fexp x \<le> \<bar>x\<bar>" "\<bar>x\<bar> < 2 powi (fexp x + 1)"
proof -
  obtain n d where q: "quotient_of \<bar>x\<bar> = (n, d)" by (cases "quotient_of \<bar>x\<bar>")
  from q have d: "0 < d" by (rule quotient_of_denom_pos)
  from q have x: "\<bar>x\<bar> = of_int n / of_int d" by (rule quotient_of_div)
  from assms have "0 < \<bar>x\<bar>" by simp
  with x d have n: "0 < n" by (simp add: zero_less_divide_iff)
  define a where "a = int (ilog2 n)"
  define b where "b = int (ilog2 d)"
  have N: "2 powi a \<le> (of_int n :: rat)" "(of_int n :: rat) < 2 powi (a + 1)"
    using ilog2_powi [OF n] by (simp_all add: a_def)
  have D: "2 powi b \<le> (of_int d :: rat)" "(of_int d :: rat) < 2 powi (b + 1)"
    using ilog2_powi [OF d] by (simp_all add: b_def)
  have dp: "(0::rat) < of_int d" using d by simp
  have "2 powi (a - b - 1) * of_int d \<le> (2::rat) powi (a - b - 1) * 2 powi (b + 1)"
    using D(2) by (intro mult_left_mono) auto
  also have "\<dots> = 2 powi a" by (simp flip: power_int_add)
  also have "\<dots> \<le> of_int n" by (rule N)
  finally have lo: "2 powi (a - b - 1) \<le> \<bar>x\<bar>" using dp by (simp add: x pos_le_divide_eq)
  have "of_int n < (2::rat) powi (a + 1)" by (rule N)
  also have "\<dots> = 2 powi (a - b + 1) * 2 powi b" by (simp flip: power_int_add)
  also have "\<dots> \<le> 2 powi (a - b + 1) * of_int d" using D(1) by (intro mult_left_mono) auto
  finally have hi: "\<bar>x\<bar> < 2 powi (a - b + 1)" using dp by (simp add: x pos_divide_less_eq)
  have e: "fexp x = (if 2 powi (a - b) \<le> \<bar>x\<bar> then a - b else a - b - 1)"
    by (simp add: fexp_def q a_def b_def Let_def)
  show "2 powi fexp x \<le> \<bar>x\<bar>" using lo by (simp add: e)
  show "\<bar>x\<bar> < 2 powi (fexp x + 1)" using hi by (auto simp: e)
qed

lemma powi2_strict: "(2::rat) powi a < 2 powi b \<longleftrightarrow> a < b"
  using power_int_strict_increasing [of a b "2::rat"] power_int_increasing [of b a "2::rat"]
  by (cases "a < b") auto

lemma fexp_unique:
  assumes "2 powi e \<le> \<bar>x\<bar>" "\<bar>x\<bar> < 2 powi (e + 1)"
  shows "fexp x = e"
proof -
  have "x \<noteq> 0"
  proof
    assume "x = 0"
    moreover have "(0::rat) < 2 powi e" by simp
    ultimately show False using assms(1) by linarith
  qed
  note b = fexp_bounds [OF this]
  from b(1) assms(2) have "(2::rat) powi fexp x < 2 powi (e + 1)" by linarith
  moreover from b(2) assms(1) have "(2::rat) powi e < 2 powi (fexp x + 1)" by linarith
  ultimately show ?thesis by (simp add: powi2_strict)
qed

lemma fl_0 [simp]: "fl 0 = 0"
  by (simp add: fl_def)

lemma fexp_neg [simp]: "fexp (- x) = fexp x"
  by (simp add: fexp_def)

lemma fl_neg: "fl (- x) = - fl x"
  by (simp add: fl_def Let_def rne_neg)

text \<open>An integer multiple of the unit in the last place below the next binade is kept as it is.\<close>

lemma fl_exact:
  assumes "x = of_int k * 2 powi (e - 52)" "2 powi e \<le> \<bar>x\<bar>" "\<bar>x\<bar> < 2 powi (e + 1)"
  shows "fl x = x"
proof -
  from assms(2,3) have "fexp x = e" by (rule fexp_unique)
  moreover have "x / 2 powi (e - 52) = of_int k" by (simp add: assms(1))
  ultimately show ?thesis by (simp add: fl_def Let_def assms(1) [symmetric])
qed

lemma fl_pow2: "fl (2 powi e) = 2 powi e"
proof (rule fl_exact [where k = "2 ^ 52" and e = e])
  have "(2::rat) powi e = 2 powi 52 * 2 powi (e - 52)" by (simp flip: power_int_add del: power_int_numeral)
  then show "(2::rat) powi e = of_int (2 ^ 52) * 2 powi (e - 52)" by simp
  show "\<bar>(2::rat) powi e\<bar> < 2 powi (e + 1)" by (simp add: powi2_strict)
qed simp

lemma fl_in_binade:
  assumes "0 < x"
  shows "2 powi fexp x \<le> fl x" "fl x \<le> 2 powi (fexp x + 1)"
proof -
  let ?u = "2 powi (fexp x - 52) :: rat"
  have u: "0 < ?u" by simp
  have fl: "fl x = of_int (rne (x / ?u)) * ?u" using assms by (simp add: fl_def Let_def)
  note b = fexp_bounds [of x]
  have p: "(2::rat) powi fexp x = 2 ^ 52 * ?u" "(2::rat) powi (fexp x + 1) = 2 ^ 53 * ?u"
    by (simp_all add: power_int_diff power_int_add)
  from b(1) assms p(1) u have "of_int (2 ^ 52) \<le> x / ?u" by (simp add: pos_le_divide_eq)
  from rne_mono [OF this] have "2 ^ 52 \<le> rne (x / ?u)" by (simp only: rne_of_int)
  then have "(of_int (2 ^ 52) :: rat) \<le> of_int (rne (x / ?u))" by (simp only: of_int_le_iff)
  then show "2 powi fexp x \<le> fl x" using u by (simp add: fl p(1))
  from b(2) assms p(2) u have "x / ?u \<le> of_int (2 ^ 53)" by (simp add: pos_divide_le_eq)
  from rne_mono [OF this] have "rne (x / ?u) \<le> 2 ^ 53" by (simp only: rne_of_int)
  then have "of_int (rne (x / ?u)) \<le> (of_int (2 ^ 53) :: rat)" by (simp only: of_int_le_iff)
  then show "fl x \<le> 2 powi (fexp x + 1)" using u by (simp add: fl p(2))
qed

lemma fl_nonneg: "0 \<le> x \<Longrightarrow> 0 \<le> fl x"
  using fl_in_binade(1) [of x] by (cases "x = 0") (auto intro: order_trans [rotated])

lemma fl_mono_pos: "0 < x \<Longrightarrow> x \<le> y \<Longrightarrow> fl x \<le> fl y"
proof -
  assume x: "0 < x" and xy: "x \<le> y"
  then have y: "0 < y" by simp
  note bx = fexp_bounds [of x] and by' = fexp_bounds [of y]
  have "(2::rat) powi fexp x < 2 powi (fexp y + 1)"
    using bx(1) by'(2) x y xy by linarith
  then have le: "fexp x \<le> fexp y" by (simp add: powi2_strict)
  show ?thesis
  proof (cases "fexp x = fexp y")
    case True
    have "x / 2 powi (fexp y - 52) \<le> y / 2 powi (fexp y - 52)"
      using xy by (simp add: divide_right_mono)
    from rne_mono [OF this] show ?thesis
      using x y True by (simp add: fl_def Let_def mult_right_mono)
  next
    case False
    have "fl x \<le> 2 powi (fexp x + 1)" using x by (rule fl_in_binade)
    also have "\<dots> \<le> 2 powi fexp y" using False le by (intro power_int_increasing) auto
    also have "\<dots> \<le> fl y" using y by (rule fl_in_binade)
    finally show ?thesis .
  qed
qed

lemma fl_mono: "x \<le> y \<Longrightarrow> fl x \<le> fl y"
proof -
  assume xy: "x \<le> y"
  consider "0 < x" | "x \<le> 0" "0 \<le> y" | "y < 0" by linarith
  then show ?thesis
  proof cases
    case 1
    then show ?thesis using xy by (rule fl_mono_pos)
  next
    case 2
    have "0 \<le> fl (- x)" using 2(1) by (intro fl_nonneg) simp
    moreover have "0 \<le> fl y" using 2(2) by (rule fl_nonneg)
    ultimately show ?thesis by (simp add: fl_neg)
  next
    case 3
    have "fl (- y) \<le> fl (- x)" using xy 3 by (intro fl_mono_pos) auto
    then show ?thesis by (simp add: fl_neg)
  qed
qed

lemma fl_idem_pos: "0 < x \<Longrightarrow> fl (fl x) = fl x"
proof -
  assume x: "0 < x"
  let ?e = "fexp x"
  show ?thesis
  proof (cases "fl x = 2 powi (?e + 1)")
    case True
    show ?thesis unfolding True by (rule fl_pow2)
  next
    case False
    have 1: "0 < fl x" using fl_in_binade(1) [OF x] by (rule less_le_trans [rotated]) simp
    show ?thesis
    proof (rule fl_exact [where e = ?e])
      show "fl x = of_int (rne (x / 2 powi (?e - 52))) * 2 powi (?e - 52)"
        using x by (simp add: fl_def Let_def)
      show "2 powi ?e \<le> \<bar>fl x\<bar>" using fl_in_binade(1) [OF x] 1 by simp
      show "\<bar>fl x\<bar> < 2 powi (?e + 1)" using fl_in_binade(2) [OF x] False 1 by simp
    qed
  qed
qed

lemma fl_idem: "fl (fl x) = fl x"
proof (cases "x < 0")
  case True
  then have "fl (fl (- x)) = fl (- x)" by (intro fl_idem_pos) simp
  then show ?thesis by (simp add: fl_neg)
next
  case False
  then show ?thesis by (cases "x = 0") (auto intro: fl_idem_pos)
qed

lemma fl_of_int: "\<bar>k\<bar> \<le> 2 ^ 53 \<Longrightarrow> fl (of_int k) = of_int k"
proof -
  assume k: "\<bar>k\<bar> \<le> 2 ^ 53"
  show ?thesis
  proof (cases "k = 0 \<or> \<bar>k\<bar> = 2 ^ 53")
    case True
    have "fl (of_int (2 ^ 53)) = of_int (2 ^ 53)" using fl_pow2 [of 53] by simp
    moreover from this have "fl (of_int (- (2 ^ 53))) = of_int (- (2 ^ 53))"
      by (simp add: fl_neg)
    moreover from True have "k = 0 \<or> k = 2 ^ 53 \<or> k = - (2 ^ 53)" by auto
    ultimately show ?thesis by (metis fl_0 of_int_0)
  next
    case False
    let ?x = "of_int k :: rat" and ?e = "fexp (of_int k)"
    have x: "?x \<noteq> 0" using False by simp
    note b = fexp_bounds [OF x]
    have "\<bar>k\<bar> < 2 ^ 53" using k False by simp
    then have "\<bar>?x\<bar> < of_int (2 ^ 53)" by (simp only: of_int_less_iff flip: of_int_abs)
    then have "\<bar>?x\<bar> < 2 powi 53" by simp
    with b(1) have "(2::rat) powi ?e < 2 powi 53" by linarith
    then have e: "?e \<le> 52" by (simp only: powi2_strict)
    have "?x = of_int (k * 2 ^ nat (52 - ?e)) * 2 powi (?e - 52)"
    proof -
      have "(2::rat) ^ nat (52 - ?e) = 2 powi (52 - ?e)" using e by (simp add: power_int_def)
      moreover have "(2::rat) powi (52 - ?e) * 2 powi (?e - 52) = 1"
        by (simp flip: power_int_add)
      ultimately show ?thesis by (simp add: mult.assoc)
    qed
    then show ?thesis using b by (rule fl_exact)
  qed
qed

lemma fl_numeral: "numeral k \<le> (2 ^ 53 :: int) \<Longrightarrow> fl (numeral k) = numeral k"
  using fl_of_int [of "numeral k"] by simp

lemma fl_one [simp]: "fl 1 = 1"
  using fl_of_int [of 1] by simp

interpretation f64: rounding fl
  by unfold_locales (auto simp: fl_mono fl_idem)

end
