(* ===== verification/RateLimiter.thy ===== *)
theory RateLimiter
  imports Float64
begin

text \<open>
  The rate limiters of \<^verbatim>\<open>security/rate_limiter.go\<close>: the token bucket, the fixed and the sliding
  window, the leaky bucket, the universal limiter that dispatches to one of them, the middleware
  that calls a limiter through the \<^verbatim>\<open>RateLimiter\<close> interface, and the service of named limiters. Every
  method runs under the lock of its object, so one method call is one step; the clock reading is the
  argument \<open>now\<close>. A run-time panic (nil dereference, integer division by zero) is an \<open>Inl\<close> result.
\<close>

datatype go_panic = NilDeref | DivideByZero

datatype rate_limit_error = ErrRateLimitExceeded | ErrInvalidRateLimit | ErrRateLimiterNotFound

record rate_limit_config =
  requests_per_second :: rat
  burst_size :: int
  window_duration :: duration

record rate_limit_info =
  ri_key :: string
  ri_limit :: int
  ri_remaining :: int
  ri_reset_at :: time
  ri_retry_after :: duration
  ri_window_start :: time
  ri_total_requests :: int

definition fresh_info :: "string \<Rightarrow> int \<Rightarrow> int \<Rightarrow> rate_limit_info" where
  "fresh_info key limit remaining =
     \<lparr>ri_key = key, ri_limit = limit, ri_remaining = remaining, ri_reset_at = time_zero,
      ri_retry_after = 0, ri_window_start = time_zero, ri_total_requests = 0\<rparr>"

section \<open>Token bucket\<close>

record token_bucket =
  tb_rate :: rat
  tb_burst :: int
  tb_tokens :: rat
  tb_last_update :: time

definition new_token_bucket :: "time \<Rightarrow> rat \<Rightarrow> int \<Rightarrow> token_bucket" where
  "new_token_bucket now rate burst =
     \<lparr>tb_rate = rate, tb_burst = burst, tb_tokens = fl (of_int burst), tb_last_update = now\<rparr>"

definition tb_refilled :: "time \<Rightarrow> token_bucket \<Rightarrow> rat" where
  "tb_refilled now tb =
     (let elapsed = f_seconds (time_sub now (tb_last_update tb));
          tokens = fl (tb_tokens tb + fl (elapsed * tb_rate tb))
      in if fl (of_int (tb_burst tb)) < tokens then fl (of_int (tb_burst tb)) else tokens)"

definition tb_allow_n :: "time \<Rightarrow> int \<Rightarrow> token_bucket \<Rightarrow> token_bucket \<times> bool" where
  "tb_allow_n now n tb =
     (let tokens = tb_refilled now tb;
          tb = tb\<lparr>tb_last_update := now, tb_tokens := tokens\<rparr>
      in if fl (of_int n) \<le> tokens
         then (tb\<lparr>tb_tokens := fl (tokens - fl (of_int n))\<rparr>, True)
         else (tb, False))"

definition tb_allow :: "time \<Rightarrow> token_bucket \<Rightarrow> token_bucket \<times> bool" where
  "tb_allow now tb = tb_allow_n now 1 tb"

definition tb_get_tokens :: "time \<Rightarrow> token_bucket \<Rightarrow> rat" where
  "tb_get_tokens now tb = tb_refilled now tb"

text \<open>
  \<^verbatim>\<open>WaitN\<close> polls until it is admitted or the context is done. Its environment is the list of polls:
  the clock at the poll, and whether the \<^verbatim>\<open>select\<close> after a refused poll takes the \<^verbatim>\<open>ctx.Done\<close> branch.
  \<open>None\<close>: the polls ran out and the call is still waiting; \<open>Some True\<close>: it returned nil;
  \<open>Some False\<close>: it returned the context's error.
\<close>

fun tb_wait_n :: "(time \<times> bool) list \<Rightarrow> int \<Rightarrow> token_bucket \<Rightarrow> token_bucket \<times> bool option" where
  "tb_wait_n [] n tb = (tb, None)"
| "tb_wait_n ((now, ctx_done) # polls) n tb =
     (case tb_allow_n now n tb of
        (tb', True) \<Rightarrow> (tb', Some True)
      | (tb', False) \<Rightarrow> if ctx_done then (tb', Some False) else tb_wait_n polls n tb')"

section \<open>Fixed window\<close>

record fixed_window =
  fw_count :: int
  fw_start_time :: time

record fixed_window_limiter =
  fwl_windows :: "string \<rightharpoonup> fixed_window"
  fwl_window_size :: duration
  fwl_limit :: int

definition new_fixed_window_limiter :: "int \<Rightarrow> duration \<Rightarrow> fixed_window_limiter" where
  "new_fixed_window_limiter limit window_size =
     \<lparr>fwl_windows = Map.empty, fwl_window_size = window_size, fwl_limit = limit\<rparr>"

definition fwl_allow_n :: "time \<Rightarrow> string \<Rightarrow> int \<Rightarrow> fixed_window_limiter
    \<Rightarrow> fixed_window_limiter \<times> bool" where
  "fwl_allow_n now key n rl =
     (let fresh = (rl\<lparr>fwl_windows := (fwl_windows rl)(key \<mapsto> \<lparr>fw_count = n, fw_start_time = now\<rparr>)\<rparr>,
                   n \<le> fwl_limit rl)
      in case fwl_windows rl key of
           None \<Rightarrow> fresh
         | Some window \<Rightarrow>
             if fwl_window_size rl \<le> time_sub now (fw_start_time window) then fresh
             else if fwl_limit rl < i64 (fw_count window + n) then (rl, False)
             else (rl\<lparr>fwl_windows := (fwl_windows rl)(key \<mapsto>
                     window\<lparr>fw_count := i64 (fw_count window + n)\<rparr>)\<rparr>, True))"

definition fwl_get_info :: "time \<Rightarrow> string \<Rightarrow> fixed_window_limiter \<Rightarrow> rate_limit_info" where
  "fwl_get_info now key rl =
     (case fwl_windows rl key of
        None \<Rightarrow> fresh_info key (fwl_limit rl) (fwl_limit rl)
      | Some window \<Rightarrow>
          if fwl_window_size rl \<le> time_sub now (fw_start_time window)
          then fresh_info key (fwl_limit rl) (fwl_limit rl)
          else let remaining = i64 (fwl_limit rl - fw_count window);
                   remaining = (if remaining < 0 then 0 else remaining)
               in (fresh_info key (fwl_limit rl) remaining)
                    \<lparr>ri_window_start := fw_start_time window,
                     ri_reset_at := fw_start_time window + fwl_window_size rl,
                     ri_total_requests := fw_count window\<rparr>)"

definition fwl_reset :: "string \<Rightarrow> fixed_window_limiter \<Rightarrow> fixed_window_limiter" where
  "fwl_reset key rl = rl\<lparr>fwl_windows := (fwl_windows rl)(key := None)\<rparr>"

definition fwl_cleanup :: "time \<Rightarrow> fixed_window_limiter \<Rightarrow> fixed_window_limiter" where
  "fwl_cleanup now rl =
     rl\<lparr>fwl_windows := (\<lambda>key. case fwl_windows rl key of
          None \<Rightarrow> None
        | Some window \<Rightarrow>
            if fwl_window_size rl \<le> time_sub now (fw_start_time window) then None
            else Some window)\<rparr>"

section \<open>Sliding window\<close>

record sliding_window_limiter =
  swl_windows :: "string \<rightharpoonup> time list"
  swl_window_size :: duration
  swl_limit :: int

definition new_sliding_window_limiter :: "int \<Rightarrow> duration \<Rightarrow> sliding_window_limiter" where
  "new_sliding_window_limiter limit window_size =
     \<lparr>swl_windows = Map.empty, swl_window_size = window_size, swl_limit = limit\<rparr>"

definition swl_timestamps :: "sliding_window_limiter \<Rightarrow> string \<Rightarrow> time list" where
  "swl_timestamps rl key = (case swl_windows rl key of None \<Rightarrow> [] | Some ts \<Rightarrow> ts)"

definition swl_allow_n :: "time \<Rightarrow> string \<Rightarrow> int \<Rightarrow> sliding_window_limiter
    \<Rightarrow> sliding_window_limiter \<times> bool" where
  "swl_allow_n now key n rl =
     (let window_start = now + i64 (- swl_window_size rl);
          valid = filter (\<lambda>ts. window_start < ts) (swl_timestamps rl key)
      in if swl_limit rl < i64 (int (length valid) + n)
         then (rl\<lparr>swl_windows := (swl_windows rl)(key \<mapsto> valid)\<rparr>, False)
         else (rl\<lparr>swl_windows := (swl_windows rl)(key \<mapsto> valid @ replicate (nat n) now)\<rparr>, True))"

definition swl_get_info :: "time \<Rightarrow> string \<Rightarrow> sliding_window_limiter \<Rightarrow> rate_limit_info" where
  "swl_get_info now key rl =
     (case swl_windows rl key of
        None \<Rightarrow> fresh_info key (swl_limit rl) (swl_limit rl)
      | Some timestamps \<Rightarrow>
          let window_start = now + i64 (- swl_window_size rl);
              count = int (length (filter (\<lambda>ts. window_start < ts) timestamps));
              remaining = i64 (swl_limit rl - count);
              remaining = (if remaining < 0 then 0 else remaining)
          in (fresh_info key (swl_limit rl) remaining)
               \<lparr>ri_window_start := window_start, ri_reset_at := now + swl_window_size rl,
                ri_total_requests := count\<rparr>)"

definition swl_reset :: "string \<Rightarrow> sliding_window_limiter \<Rightarrow> sliding_window_limiter" where
  "swl_reset key rl = rl\<lparr>swl_windows := (swl_windows rl)(key := None)\<rparr>"

section \<open>Leaky bucket\<close>

record leaky_bucket =
  lb_capacity :: int
  lb_available :: int
  lb_rate :: duration
  lb_last_leak :: time

definition new_leaky_bucket :: "time \<Rightarrow> int \<Rightarrow> duration \<Rightarrow> leaky_bucket" where
  "new_leaky_bucket now capacity rate =
     \<lparr>lb_capacity = capacity, lb_available = capacity, lb_rate = rate, lb_last_leak = now\<rparr>"

definition lb_allow_n :: "time \<Rightarrow> int \<Rightarrow> leaky_bucket \<Rightarrow> go_panic + leaky_bucket \<times> bool" where
  "lb_allow_n now n lb =
     (let elapsed = time_sub now (lb_last_leak lb)
      in if lb_rate lb = 0 then Inl DivideByZero
         else let available = i64 (lb_available lb + go_div elapsed (lb_rate lb));
                  available = (if lb_capacity lb < available then lb_capacity lb else available);
                  lb = lb\<lparr>lb_available := available, lb_last_leak := now\<rparr>
              in if n \<le> available then Inr (lb\<lparr>lb_available := i64 (available - n)\<rparr>, True)
                 else Inr (lb, False))"

definition lb_allow :: "time \<Rightarrow> leaky_bucket \<Rightarrow> go_panic + leaky_bucket \<times> bool" where
  "lb_allow now lb = lb_allow_n now 1 lb"

section \<open>Universal limiter\<close>

text \<open>
  \<^verbatim>\<open>RateLimiterType\<close> is a string type; \<open>RLOther\<close> stands for any string but the four constants. A nil
  map or pointer field is \<open>None\<close>.
\<close>

datatype limiter_type =
  RLTokenBucket | RLFixedWindow | RLSlidingWindow | RLLeakyBucket | RLOther string

record universal_limiter =
  ul_typ :: limiter_type
  ul_token_bucket :: "(string \<rightharpoonup> token_bucket) option"
  ul_fixed_window :: "fixed_window_limiter option"
  ul_sliding_window :: "sliding_window_limiter option"
  ul_leaky_bucket :: "(string \<rightharpoonup> leaky_bucket) option"
  ul_config :: rate_limit_config

definition new_universal_limiter :: "limiter_type \<Rightarrow> rate_limit_config option
    \<Rightarrow> rate_limit_error + universal_limiter" where
  "new_universal_limiter typ config =
     (case config of
        None \<Rightarrow> Inl ErrInvalidRateLimit
      | Some c \<Rightarrow>
          let rl = \<lparr>ul_typ = typ, ul_token_bucket = None, ul_fixed_window = None,
                    ul_sliding_window = None, ul_leaky_bucket = None, ul_config = c\<rparr>
          in case typ of
               RLTokenBucket \<Rightarrow> Inr (rl\<lparr>ul_token_bucket := Some Map.empty\<rparr>)
             | RLFixedWindow \<Rightarrow> Inr (rl\<lparr>ul_fixed_window :=
                 Some (new_fixed_window_limiter (burst_size c) (window_duration c))\<rparr>)
             | RLSlidingWindow \<Rightarrow> Inr (rl\<lparr>ul_sliding_window :=
                 Some (new_sliding_window_limiter (burst_size c) (window_duration c))\<rparr>)
             | RLLeakyBucket \<Rightarrow> Inr (rl\<lparr>ul_leaky_bucket := Some Map.empty\<rparr>)
             | RLOther _ \<Rightarrow> Inl ErrInvalidRateLimit)"

definition ul_allow_n :: "time \<Rightarrow> string \<Rightarrow> int \<Rightarrow> universal_limiter
    \<Rightarrow> go_panic + universal_limiter \<times> bool" where
  "ul_allow_n now key n rl =
     (case ul_typ rl of
        RLTokenBucket \<Rightarrow>
          (case ul_token_bucket rl of
             None \<Rightarrow> Inl NilDeref
           | Some m \<Rightarrow>
               let tb = (case m key of
                           None \<Rightarrow> new_token_bucket now (requests_per_second (ul_config rl))
                                     (burst_size (ul_config rl))
                         | Some tb \<Rightarrow> tb);
                   (tb', ok) = tb_allow_n now n tb
               in Inr (rl\<lparr>ul_token_bucket := Some (m(key \<mapsto> tb'))\<rparr>, ok))
      | RLFixedWindow \<Rightarrow>
          (case ul_fixed_window rl of
             None \<Rightarrow> Inl NilDeref
           | Some fw \<Rightarrow> let (fw', ok) = fwl_allow_n now key n fw
                        in Inr (rl\<lparr>ul_fixed_window := Some fw'\<rparr>, ok))
      | RLSlidingWindow \<Rightarrow>
          (case ul_sliding_window rl of
             None \<Rightarrow> Inl NilDeref
           | Some sw \<Rightarrow> let (sw', ok) = swl_allow_n now key n sw
                        in Inr (rl\<lparr>ul_sliding_window := Some sw'\<rparr>, ok))
      | RLLeakyBucket \<Rightarrow>
          (case ul_leaky_bucket rl of
             None \<Rightarrow> Inl NilDeref
           | Some m \<Rightarrow>
               let per = f_trunc (requests_per_second (ul_config rl));
                   lb = (case m key of
                           None \<Rightarrow> if per = 0 then Inl DivideByZero
                             else Inr (new_leaky_bucket now (burst_size (ul_config rl)) (go_div second per))
                         | Some lb \<Rightarrow> Inr lb)
               in case lb of
                    Inl p \<Rightarrow> Inl p
                  | Inr lb \<Rightarrow>
                      (case lb_allow_n now n lb of
                         Inl p \<Rightarrow> Inl p
                       | Inr (lb', ok) \<Rightarrow> Inr (rl\<lparr>ul_leaky_bucket := Some (m(key \<mapsto> lb'))\<rparr>, ok)))
      | RLOther _ \<Rightarrow> Inr (rl, False))"

definition ul_get_info :: "time \<Rightarrow> string \<Rightarrow> universal_limiter \<Rightarrow> go_panic + rate_limit_info" where
  "ul_get_info now key rl =
     (case ul_typ rl of
        RLTokenBucket \<Rightarrow>
          (case Option.bind (ul_token_bucket rl) (\<lambda>m. m key) of
             None \<Rightarrow> Inr (fresh_info key (burst_size (ul_config rl)) (burst_size (ul_config rl)))
           | Some tb \<Rightarrow> Inr (fresh_info key (burst_size (ul_config rl))
                                (f_trunc (tb_get_tokens now tb))))
      | RLFixedWindow \<Rightarrow>
          (case ul_fixed_window rl of
             None \<Rightarrow> Inl NilDeref
           | Some fw \<Rightarrow> Inr (fwl_get_info now key fw))
      | RLSlidingWindow \<Rightarrow>
          (case ul_sliding_window rl of
             None \<Rightarrow> Inl NilDeref
           | Some sw \<Rightarrow> Inr (swl_get_info now key sw))
      | _ \<Rightarrow> Inr (fresh_info key (burst_size (ul_config rl)) 0))"

definition ul_reset :: "string \<Rightarrow> universal_limiter \<Rightarrow> go_panic + universal_limiter" where
  "ul_reset key rl =
     (case ul_typ rl of
        RLTokenBucket \<Rightarrow>
          Inr (rl\<lparr>ul_token_bucket := map_option (\<lambda>m. m(key := None)) (ul_token_bucket rl)\<rparr>)
      | RLFixedWindow \<Rightarrow>
          (case ul_fixed_window rl of
             None \<Rightarrow> Inl NilDeref
           | Some fw \<Rightarrow> Inr (rl\<lparr>ul_fixed_window := Some (fwl_reset key fw)\<rparr>))
      | RLSlidingWindow \<Rightarrow>
          (case ul_sliding_window rl of
             None \<Rightarrow> Inl NilDeref
           | Some sw \<Rightarrow> Inr (rl\<lparr>ul_sliding_window := Some (swl_reset key sw)\<rparr>))
      | RLLeakyBucket \<Rightarrow>
          Inr (rl\<lparr>ul_leaky_bucket := map_option (\<lambda>m. m(key := None)) (ul_leaky_bucket rl)\<rparr>)
      | RLOther _ \<Rightarrow> Inr rl)"

section \<open>Middleware\<close>

text \<open>
  The Go interface \<^verbatim>\<open>RateLimiter\<close> as a record of its methods; \<^verbatim>\<open>Check\<close> calls a limiter through it. The
  result of \<^verbatim>\<open>Check\<close> is the new limiter state, the information returned, the error (if any) and the
  call made to the \<^verbatim>\<open>LimitHandler\<close> (if any).
\<close>

record 's limiter_ops =
  op_allow_n :: "time \<Rightarrow> string \<Rightarrow> int \<Rightarrow> 's \<Rightarrow> go_panic + 's \<times> bool"
  op_get_info :: "time \<Rightarrow> string \<Rightarrow> 's \<Rightarrow> go_panic + rate_limit_info"
  op_reset :: "string \<Rightarrow> 's \<Rightarrow> go_panic + 's"

definition universal_ops :: "universal_limiter limiter_ops" where
  "universal_ops = \<lparr>op_allow_n = ul_allow_n, op_get_info = ul_get_info, op_reset = ul_reset\<rparr>"

record 's check_result =
  cr_state :: 's
  cr_info :: rate_limit_info
  cr_error :: "rate_limit_error option"
  cr_handled :: "(string \<times> rate_limit_info) option"

definition middleware_check :: "'s limiter_ops \<Rightarrow> bool \<Rightarrow> time \<Rightarrow> string \<Rightarrow> 's
    \<Rightarrow> go_panic + 's check_result" where
  "middleware_check ops has_handler now ctx_key s =
     (let key = (if ctx_key = [] then ''default'' else ctx_key)
      in case op_allow_n ops now key 1 s of
           Inl p \<Rightarrow> Inl p
         | Inr (s', allowed) \<Rightarrow>
             (case op_get_info ops now key s' of
                Inl p \<Rightarrow> Inl p
              | Inr info \<Rightarrow>
                  if \<not> allowed
                  then Inr \<lparr>cr_state = s', cr_info = info, cr_error = Some ErrRateLimitExceeded,
                            cr_handled = (if has_handler then Some (key, info) else None)\<rparr>
                  else Inr \<lparr>cr_state = s', cr_info = info, cr_error = None, cr_handled = None\<rparr>))"

text \<open>
  The key functions. A context is the partial map of its string values; a value of another type
  fails the code's type assertion and is absent here.
\<close>

definition default_key_func :: "(string \<rightharpoonup> string) \<Rightarrow> string" where
  "default_key_func ctx = (case ctx ''client_ip'' of Some ip \<Rightarrow> ip | None \<Rightarrow> ''unknown'')"

definition composite_value :: "(string \<rightharpoonup> string) \<Rightarrow> string \<Rightarrow> string" where
  "composite_value ctx key =
     (let k = (if key = ''ip'' then ''client_ip'' else if key = ''user_id'' then ''user_id''
               else if key = ''api_key'' then ''api_key'' else key)
      in case ctx k of Some v \<Rightarrow> v | None \<Rightarrow> [])"

definition composite_key_func :: "string list \<Rightarrow> (string \<rightharpoonup> string) \<Rightarrow> string" where
  "composite_key_func keys ctx =
     fold (\<lambda>key result. let val = composite_value ctx key in
        if val \<noteq> [] then (if result \<noteq> [] then result @ '':'' @ val else val) else result) keys []"

section \<open>Service of named limiters\<close>

record rate_limit_service =
  rls_limiters :: "string \<rightharpoonup> universal_limiter"
  rls_configs :: "string \<rightharpoonup> rate_limit_config"

definition new_rate_limit_service :: rate_limit_service where
  "new_rate_limit_service = \<lparr>rls_limiters = Map.empty, rls_configs = Map.empty\<rparr>"

definition rls_register_limiter :: "string \<Rightarrow> rate_limit_config option \<Rightarrow> rate_limit_service
    \<Rightarrow> rate_limit_error + rate_limit_service" where
  "rls_register_limiter name config s =
     (case config of
        None \<Rightarrow> Inl ErrInvalidRateLimit
      | Some c \<Rightarrow>
          if burst_size c \<le> 0 then Inl ErrInvalidRateLimit
          else (case new_universal_limiter RLSlidingWindow (Some c) of
                  Inl e \<Rightarrow> Inl e
                | Inr limiter \<Rightarrow>
                    Inr (s\<lparr>rls_limiters := (rls_limiters s)(name \<mapsto> limiter),
                           rls_configs := (rls_configs s)(name \<mapsto> c)\<rparr>)))"

definition rls_allow_n :: "time \<Rightarrow> string \<Rightarrow> string \<Rightarrow> int \<Rightarrow> rate_limit_service
    \<Rightarrow> go_panic + rate_limit_service \<times> bool" where
  "rls_allow_n now name key n s =
     (case rls_limiters s name of
        None \<Rightarrow> Inr (s, True)
      | Some limiter \<Rightarrow>
          (case ul_allow_n now key n limiter of
             Inl p \<Rightarrow> Inl p
           | Inr (limiter', ok) \<Rightarrow>
               Inr (s\<lparr>rls_limiters := (rls_limiters s)(name \<mapsto> limiter')\<rparr>, ok)))"

definition rls_get_info :: "time \<Rightarrow> string \<Rightarrow> string \<Rightarrow> rate_limit_service
    \<Rightarrow> go_panic + rate_limit_error + rate_limit_info" where
  "rls_get_info now name key s =
     (case rls_limiters s name of
        None \<Rightarrow> Inr (Inl ErrRateLimiterNotFound)
      | Some limiter \<Rightarrow> map_sum id Inr (ul_get_info now key limiter))"

definition rls_reset :: "string \<Rightarrow> string \<Rightarrow> rate_limit_service
    \<Rightarrow> go_panic + rate_limit_error + rate_limit_service" where
  "rls_reset name key s =
     (case rls_limiters s name of
        None \<Rightarrow> Inr (Inl ErrRateLimiterNotFound)
      | Some limiter \<Rightarrow>
          map_sum id (\<lambda>l. Inr (s\<lparr>rls_limiters := (rls_limiters s)(name \<mapsto> l)\<rparr>)) (ul_reset key limiter))"

definition rls_remove_limiter :: "string \<Rightarrow> rate_limit_service \<Rightarrow> rate_limit_service" where
  "rls_remove_limiter name s =
     s\<lparr>rls_limiters := (rls_limiters s)(name := None), rls_configs := (rls_configs s)(name := None)\<rparr>"

text \<open>One tick of \<^verbatim>\<open>CleanupRoutine\<close>.\<close>

definition rls_cleanup_tick :: "time \<Rightarrow> rate_limit_service \<Rightarrow> rate_limit_service" where
  "rls_cleanup_tick now s =
     s\<lparr>rls_limiters := (\<lambda>name. map_option
        (\<lambda>ul. ul\<lparr>ul_fixed_window := map_option (fwl_cleanup now) (ul_fixed_window ul)\<rparr>)
        (rls_limiters s name))\<rparr>"

text \<open>The presets.\<close>

definition strict_rate_limit :: rate_limit_config where
  "strict_rate_limit = \<lparr>requests_per_second = 10, burst_size = 20, window_duration = second\<rparr>"

definition standard_rate_limit :: rate_limit_config where
  "standard_rate_limit = \<lparr>requests_per_second = 100, burst_size = 200, window_duration = second\<rparr>"

definition relaxed_rate_limit :: rate_limit_config where
  "relaxed_rate_limit = \<lparr>requests_per_second = 1000, burst_size = 2000, window_duration = second\<rparr>"

definition api_rate_limit :: rate_limit_config where
  "api_rate_limit = \<lparr>requests_per_second = 1, burst_size = 60, window_duration = minute\<rparr>"

definition auth_rate_limit :: rate_limit_config where
  "auth_rate_limit = \<lparr>requests_per_second = fl (1 / 10), burst_size = 5, window_duration = minute\<rparr>"


section \<open>Runs\<close>

text \<open>
  A run feeds a limiter a list of requests (clock reading, key, number of units) and collects the
  answers; \<open>grants\<close> lists, for one key, the time of every unit that was admitted.
\<close>

type_synonym request = "time \<times> string \<times> int"

fun run_requests :: "(time \<Rightarrow> string \<Rightarrow> int \<Rightarrow> 's \<Rightarrow> 's \<times> bool) \<Rightarrow> request list \<Rightarrow> 's \<Rightarrow> 's \<times> bool list" where
  "run_requests allow [] s = (s, [])"
| "run_requests allow ((now, key, n) # rs) s =
     (case allow now key n s of
        (s', ok) \<Rightarrow> (case run_requests allow rs s' of (s'', oks) \<Rightarrow> (s'', ok # oks)))"

fun grants :: "string \<Rightarrow> request list \<Rightarrow> bool list \<Rightarrow> time list" where
  "grants key ((now, k, n) # rs) (ok # oks) =
     (if ok \<and> k = key then replicate (nat n) now else []) @ grants key rs oks"
| "grants key _ _ = []"

definition paced_from :: "time \<Rightarrow> request list \<Rightarrow> bool" where
  "paced_from t rs \<longleftrightarrow> sorted (t # map fst rs)"

definition units_ok :: "int \<Rightarrow> request list \<Rightarrow> bool" where
  "units_ok limit rs \<longleftrightarrow> 0 \<le> limit \<and> limit < 2 ^ 62 \<and> (\<forall>(now, key, n)\<in>set rs. 0 \<le> n \<and> n < 2 ^ 62)"

lemma units_ok_limit: "units_ok limit rs \<Longrightarrow> 0 \<le> limit \<and> limit < 2 ^ 62"
  by (simp add: units_ok_def)

lemma paced_from_Cons [simp]: "paced_from t ((now, r) # rs) \<longleftrightarrow> t \<le> now \<and> paced_from now rs"
  by (auto simp: paced_from_def)

lemma units_ok_Cons [simp]:
  "units_ok limit ((now, key, n) # rs) \<longleftrightarrow> 0 \<le> n \<and> n < 2 ^ 62 \<and> units_ok limit rs"
  by (auto simp: units_ok_def)

section \<open>The sliding window never admits more than its limit\<close>

definition in_window :: "duration \<Rightarrow> time \<Rightarrow> time list \<Rightarrow> time list" where
  "in_window w t ts = filter (\<lambda>x. t - w < x \<and> x \<le> t) ts"

text \<open>
  The invariant between a limiter and the units \<open>adm\<close> it has admitted for \<open>key\<close> up to time \<open>t\<close>: what
  it stores for the key is the admitted units younger than a window at some earlier clock reading,
  and no window holds more than the limit.
\<close>

definition swl_tracks :: "sliding_window_limiter \<Rightarrow> string \<Rightarrow> time list \<Rightarrow> time \<Rightarrow> bool" where
  "swl_tracks rl key adm t \<longleftrightarrow>
     (\<forall>x\<in>set adm. x \<le> t)
   \<and> (\<exists>l \<le> t. swl_timestamps rl key = filter (\<lambda>x. l - swl_window_size rl < x) adm)
   \<and> (\<forall>u. int (length (in_window (swl_window_size rl) u adm)) \<le> swl_limit rl)"

lemma filter_length_le: "(\<And>x. x \<in> set xs \<Longrightarrow> P x \<Longrightarrow> Q x) \<Longrightarrow> length (filter P xs) \<le> length (filter Q xs)"
  by (induction xs) auto

lemma swl_allow_n_params:
  "swl_allow_n now key n rl = (rl', ok) \<Longrightarrow>
     swl_window_size rl' = swl_window_size rl \<and> swl_limit rl' = swl_limit rl"
  by (auto simp: swl_allow_n_def Let_def split: if_splits)

lemma swl_allow_n_other:
  "swl_allow_n now key n rl = (rl', ok) \<Longrightarrow> k \<noteq> key \<Longrightarrow> swl_windows rl' k = swl_windows rl k"
  by (auto simp: swl_allow_n_def Let_def split: if_splits)

lemma swl_timestamps_upd [simp]:
  "swl_timestamps (rl\<lparr>swl_windows := m(key \<mapsto> ts)\<rparr>) key = ts"
  by (simp add: swl_timestamps_def)

lemma windows_extend:
  assumes "int (length (in_window w u adm)) \<le> m" "int (length (filter (\<lambda>x. now - w < x) adm)) + n \<le> m" "0 \<le> n"
  shows "int (length (in_window w u (adm @ replicate (nat n) now))) \<le> m"
proof (cases "now \<le> u")
  case True
  have "length (in_window w u adm) \<le> length (filter (\<lambda>x. now - w < x) adm)"
    unfolding in_window_def using True by (intro filter_length_le) auto
  moreover have "length (in_window w u (replicate (nat n) now)) \<le> nat n"
    unfolding in_window_def using length_filter_le [of _ "replicate (nat n) now"] by simp
  ultimately show ?thesis using assms(2,3) by (simp add: in_window_def)
next
  case False
  then have "in_window w u (replicate (nat n) now) = []" by (simp add: in_window_def filter_empty_conv)
  with assms(1) show ?thesis by (simp add: in_window_def)
qed

lemma swl_tracks_step:
  assumes tr: "swl_tracks rl key adm t" and now: "t \<le> now"
    and w: "0 < swl_window_size rl" "swl_window_size rl < 2 ^ 63"
    and n: "0 \<le> n" "n < 2 ^ 62" "swl_limit rl < 2 ^ 62"
    and step: "swl_allow_n now k n rl = (rl', ok)"
  shows "swl_tracks rl' key (adm @ (if ok \<and> k = key then replicate (nat n) now else [])) now"
proof (cases "k = key")
  case False
  then have "swl_timestamps rl' key = swl_timestamps rl key"
    using swl_allow_n_other [OF step, of key] by (simp add: swl_timestamps_def)
  moreover from tr now have "\<forall>x\<in>set adm. x \<le> now" by (auto simp: swl_tracks_def)
  moreover from tr now obtain l where "l \<le> now"
      "swl_timestamps rl key = filter (\<lambda>x. l - swl_window_size rl < x) adm"
    by (auto simp: swl_tracks_def intro: order_trans)
  ultimately show ?thesis
    using tr False swl_allow_n_params [OF step] by (auto simp: swl_tracks_def)
next
  case True
  let ?w = "swl_window_size rl" and ?fresh = "filter (\<lambda>x. now - swl_window_size rl < x)"
  from tr obtain l where l: "l \<le> t" "swl_timestamps rl key = filter (\<lambda>x. l - ?w < x) adm"
    by (auto simp: swl_tracks_def)
  have pruned: "?fresh (swl_timestamps rl key) = ?fresh adm"
    using l now by (auto intro!: filter_cong simp: l(2))
  have le: "\<forall>x\<in>set adm. x \<le> now" using tr now by (auto simp: swl_tracks_def)
  have bound: "int (length (in_window ?w u adm)) \<le> swl_limit rl" for u
    using tr by (simp add: swl_tracks_def)
  have fresh_len: "int (length (?fresh adm)) \<le> swl_limit rl"
  proof -
    have "?fresh adm = in_window ?w now adm"
      using le by (auto simp: in_window_def intro!: filter_cong)
    with bound [of now] show ?thesis by simp
  qed
  have i: "i64 (- ?w) = - ?w" using w by (intro i64_id) (simp add: in_i64_def)
  have sum: "i64 (int (length (?fresh adm)) + n) = int (length (?fresh adm)) + n"
    using n fresh_len by (intro i64_small) auto
  have eq: "swl_allow_n now key n rl =
      (if swl_limit rl < int (length (?fresh adm)) + n
       then (rl\<lparr>swl_windows := (swl_windows rl)(key \<mapsto> ?fresh adm)\<rparr>, False)
       else (rl\<lparr>swl_windows := (swl_windows rl)(key \<mapsto> ?fresh adm @ replicate (nat n) now)\<rparr>, True))"
    by (simp add: swl_allow_n_def i pruned sum Let_def)
  show ?thesis
  proof (cases "swl_limit rl < int (length (?fresh adm)) + n")
    case over: True
    then have "\<not> ok" "swl_timestamps rl' key = ?fresh adm" "swl_window_size rl' = ?w"
        "swl_limit rl' = swl_limit rl"
      using step True eq by auto
    with le bound show ?thesis by (auto simp: swl_tracks_def)
  next
    case room: False
    let ?new = "replicate (nat n) now"
    have st: "ok" "swl_timestamps rl' key = ?fresh adm @ ?new" "swl_window_size rl' = ?w"
        "swl_limit rl' = swl_limit rl"
      using step True eq room by auto
    have "?fresh adm @ ?new = filter (\<lambda>x. now - ?w < x) (adm @ ?new)"
      using w by auto
    moreover have "int (length (in_window ?w u (adm @ ?new))) \<le> swl_limit rl" for u
      using windows_extend [OF bound] room n(1) by simp
    moreover have "\<forall>x\<in>set (adm @ ?new). x \<le> now" using le by auto
    ultimately show ?thesis
      unfolding swl_tracks_def st(3,4) by (simp add: st True exI [of _ now])
  qed
qed

lemma swl_tracks_run:
  assumes "swl_tracks rl key adm t" "paced_from t rs" "units_ok (swl_limit rl) rs"
    "0 < swl_window_size rl" "swl_window_size rl < 2 ^ 63"
    "run_requests swl_allow_n rs rl = (rl', oks)"
  shows "\<exists>t'. swl_tracks rl' key (adm @ grants key rs oks) t'
    \<and> swl_window_size rl' = swl_window_size rl \<and> swl_limit rl' = swl_limit rl"
  using assms
proof (induction rs arbitrary: rl adm t oks)
  case Nil
  then show ?case by auto
next
  case (Cons r rs)
  obtain now k n where r: "r = (now, k, n)" by (cases r)
  obtain rl1 ok where st: "swl_allow_n now k n rl = (rl1, ok)"
    by (cases "swl_allow_n now k n rl")
  with Cons.prems(6) r obtain oks1 where
    run: "run_requests swl_allow_n rs rl1 = (rl', oks1)" and oks: "oks = ok # oks1"
    by (auto split: prod.splits)
  note p = swl_allow_n_params [OF st]
  from Cons.prems r st have "swl_tracks rl1 key
      (adm @ (if ok \<and> k = key then replicate (nat n) now else [])) now"
    by (intro swl_tracks_step) (auto dest: units_ok_limit)
  from Cons.IH [OF this _ _ _ _ run] Cons.prems p r show ?case by (simp add: oks)
qed

section \<open>The fixed window admits at most twice its limit\<close>

text \<open>
  The invariant for one key: the units admitted since the current window opened are within the
  limit and within its count, so are those of the window before it that still reach into an
  interval of the window's length, and every such interval holds at most twice the limit.
\<close>

definition in_interval :: "duration \<Rightarrow> time \<Rightarrow> time list \<Rightarrow> time list" where
  "in_interval w u ts = filter (\<lambda>x. u \<le> x \<and> x < u + w) ts"

definition fwl_tracks :: "fixed_window_limiter \<Rightarrow> string \<Rightarrow> time list \<Rightarrow> time \<Rightarrow> bool" where
  "fwl_tracks rl key adm t \<longleftrightarrow>
     (\<forall>u. int (length (in_interval (fwl_window_size rl) u adm)) \<le> 2 * fwl_limit rl)
   \<and> (case fwl_windows rl key of
        None \<Rightarrow> adm = []
      | Some win \<Rightarrow>
          fw_start_time win \<le> t \<and> 0 \<le> fw_count win \<and> fw_count win < 2 ^ 62
        \<and> (\<forall>x\<in>set adm. x < fw_start_time win + fwl_window_size rl)
        \<and> int (length (filter (\<lambda>x. fw_start_time win \<le> x) adm)) \<le> min (fw_count win) (fwl_limit rl)
        \<and> int (length (filter (\<lambda>x. fw_start_time win - fwl_window_size rl < x
                                    \<and> x < fw_start_time win) adm)) \<le> fwl_limit rl)"

lemma fwl_allow_n_params:
  "fwl_allow_n now key n rl = (rl', ok) \<Longrightarrow>
     fwl_window_size rl' = fwl_window_size rl \<and> fwl_limit rl' = fwl_limit rl"
  by (auto simp: fwl_allow_n_def Let_def split: if_splits option.splits)

lemma fwl_allow_n_other:
  "fwl_allow_n now key n rl = (rl', ok) \<Longrightarrow> k \<noteq> key \<Longrightarrow> fwl_windows rl' k = fwl_windows rl k"
  by (auto simp: fwl_allow_n_def Let_def split: if_splits option.splits)

lemma length_filter_disjoint:
  "(\<And>x. x \<in> set xs \<Longrightarrow> P x \<Longrightarrow> Q x \<or> R x) \<Longrightarrow>
     length (filter P xs) \<le> length (filter Q xs) + length (filter R xs)"
  by (induction xs) fastforce+

text \<open>An interval that ends after the window opened: what it holds is split at the opening.\<close>

lemma interval_split:
  assumes "int (length (filter (\<lambda>x. s \<le> x) adm)) \<le> m"
    and "int (length (filter (\<lambda>x. s - w < x \<and> x < s) adm)) \<le> m" and "s < u + w"
  shows "int (length (in_interval w u adm)) \<le> 2 * m"
proof -
  have "length (in_interval w u adm)
      \<le> length (filter (\<lambda>x. s \<le> x) adm) + length (filter (\<lambda>x. s - w < x \<and> x < s) adm)"
    unfolding in_interval_def using assms(3) by (intro length_filter_disjoint) auto
  with assms show ?thesis by linarith
qed

lemma intervals_extend:
  assumes "int (length (filter (\<lambda>x. s \<le> x) adm')) \<le> m" "int (length (filter (\<lambda>x. s - w < x \<and> x < s) adm')) \<le> m"
    and "int (length (in_interval w u adm)) \<le> 2 * m" "u + w \<le> s \<Longrightarrow> in_interval w u adm' = in_interval w u adm"
  shows "int (length (in_interval w u adm')) \<le> 2 * m"
proof (cases "s < u + w")
  case True
  with assms(1,2) show ?thesis by (rule interval_split)
next
  case False
  with assms(3,4) show ?thesis by simp
qed

text \<open>A request that opens a window, and one that is counted in the current one.\<close>

lemma fwl_tracks_opened:
  assumes tr: "fwl_tracks rl key adm t" and n: "0 \<le> n" "n < 2 ^ 62" "0 \<le> fwl_limit rl" and w: "0 < fwl_window_size rl"
    and exp: "\<And>win. fwl_windows rl key = Some win \<Longrightarrow> fw_start_time win + fwl_window_size rl \<le> now"
    and st: "fwl_windows rl' key = Some \<lparr>fw_count = n, fw_start_time = now\<rparr>"
      "fwl_window_size rl' = fwl_window_size rl" "fwl_limit rl' = fwl_limit rl"
  shows "fwl_tracks rl' key (adm @ (if n \<le> fwl_limit rl then replicate (nat n) now else [])) now"
proof -
  let ?w = "fwl_window_size rl" and ?m = "fwl_limit rl"
  let ?adm = "adm @ (if n \<le> ?m then replicate (nat n) now else [])"
  have old: "\<forall>x\<in>set adm. x < now"
    using tr exp by (fastforce simp: fwl_tracks_def split: option.splits)
  have "int (length (filter (\<lambda>x. now - ?w < x \<and> x < now) adm)) \<le> ?m"
  proof (cases "fwl_windows rl key")
    case None
    with tr n show ?thesis by (simp add: fwl_tracks_def)
  next
    case (Some win)
    then have "length (filter (\<lambda>x. now - ?w < x \<and> x < now) adm) \<le> length (filter (\<lambda>x. fw_start_time win \<le> x) adm)"
      using exp by (intro filter_length_le) force
    with Some tr show ?thesis by (simp add: fwl_tracks_def)
  qed
  then have c: "int (length (filter (\<lambda>x. now - ?w < x \<and> x < now) ?adm)) \<le> ?m" by simp
  have "filter (\<lambda>x. now \<le> x) adm = []" using old by (auto simp: filter_empty_conv)
  then have a: "int (length (filter (\<lambda>x. now \<le> x) ?adm)) \<le> min n ?m" using n by auto
  then have "int (length (filter (\<lambda>x. now \<le> x) ?adm)) \<le> ?m" by simp
  moreover have "int (length (in_interval ?w u adm)) \<le> 2 * ?m" for u using tr by (simp add: fwl_tracks_def)
  moreover have "u + ?w \<le> now \<Longrightarrow> in_interval ?w u ?adm = in_interval ?w u adm" for u by (simp add: in_interval_def)
  ultimately have "int (length (in_interval ?w u ?adm)) \<le> 2 * ?m" for u using intervals_extend [OF _ c] by blast
  with a c old w n show ?thesis by (auto simp: fwl_tracks_def st)
qed

lemma fwl_tracks_counted:
  assumes tr: "fwl_tracks rl key adm t" and n: "0 \<le> n" and now: "t \<le> now"
    and win: "fwl_windows rl key = Some win" "now < fw_start_time win + fwl_window_size rl"
    and room: "fw_count win + n \<le> fwl_limit rl" "fwl_limit rl < 2 ^ 62"
    and st: "fwl_windows rl' key = Some (win\<lparr>fw_count := fw_count win + n\<rparr>)"
      "fwl_window_size rl' = fwl_window_size rl" "fwl_limit rl' = fwl_limit rl"
  shows "fwl_tracks rl' key (adm @ replicate (nat n) now) now"
proof -
  let ?w = "fwl_window_size rl" and ?m = "fwl_limit rl" and ?s = "fw_start_time win"
  let ?adm = "adm @ replicate (nat n) now"
  from tr win have inv: "?s \<le> t" "0 \<le> fw_count win" "\<forall>x\<in>set adm. x < ?s + ?w"
      "int (length (filter (\<lambda>x. ?s \<le> x) adm)) \<le> min (fw_count win) ?m"
      "int (length (filter (\<lambda>x. ?s - ?w < x \<and> x < ?s) adm)) \<le> ?m"
    by (auto simp: fwl_tracks_def)
  have a: "int (length (filter (\<lambda>x. ?s \<le> x) ?adm)) \<le> min (fw_count win + n) ?m"
    using inv n now room by auto
  then have "int (length (filter (\<lambda>x. ?s \<le> x) ?adm)) \<le> ?m" by simp
  moreover have c: "int (length (filter (\<lambda>x. ?s - ?w < x \<and> x < ?s) ?adm)) \<le> ?m"
    using inv now by simp
  moreover have "int (length (in_interval ?w u adm)) \<le> 2 * ?m" for u using tr by (simp add: fwl_tracks_def)
  moreover have "u + ?w \<le> ?s \<Longrightarrow> in_interval ?w u ?adm = in_interval ?w u adm" for u
    using inv now by (auto simp: in_interval_def filter_empty_conv)
  ultimately have "int (length (in_interval ?w u ?adm)) \<le> 2 * ?m" for u using intervals_extend by blast
  with a c inv win now n room show ?thesis by (auto simp: fwl_tracks_def st)
qed

lemma fwl_tracks_step:
  assumes tr: "fwl_tracks rl key adm t" and now: "t \<le> now"
    and w: "0 < fwl_window_size rl" "fwl_window_size rl < 2 ^ 63"
    and n: "0 \<le> n" "n < 2 ^ 62" "0 \<le> fwl_limit rl" "fwl_limit rl < 2 ^ 62"
    and step: "fwl_allow_n now k n rl = (rl', ok)"
  shows "fwl_tracks rl' key (adm @ (if ok \<and> k = key then replicate (nat n) now else [])) now"
proof (cases "k = key")
  case False
  then have "fwl_windows rl' key = fwl_windows rl key"
    using fwl_allow_n_other [OF step, of key] by simp
  with tr now False fwl_allow_n_params [OF step] show ?thesis
    by (auto simp: fwl_tracks_def split: option.splits)
next
  case True
  let ?w = "fwl_window_size rl" and ?m = "fwl_limit rl"
  have ge: "?w \<le> time_sub now s \<longleftrightarrow> s + ?w \<le> now" for s
    using w by (subst time_sub_ge_iff) (auto simp: in_i64_def)
  show ?thesis
  proof (cases "\<exists>win. fwl_windows rl key = Some win \<and> now < fw_start_time win + ?w")
    case False
    then have exp: "\<And>win. fwl_windows rl key = Some win \<Longrightarrow> fw_start_time win + ?w \<le> now" by force
    then have "fwl_windows rl' key = Some \<lparr>fw_count = n, fw_start_time = now\<rparr>" "ok \<longleftrightarrow> n \<le> ?m"
      using step True by (auto simp: fwl_allow_n_def Let_def ge split: option.splits)
    with fwl_tracks_opened [OF tr n(1-3) w(1) exp] fwl_allow_n_params [OF step] True show ?thesis by simp
  next
    case live: True
    then obtain win where win: "fwl_windows rl key = Some win" "now < fw_start_time win + ?w" by blast
    with tr have c: "0 \<le> fw_count win" "fw_count win < 2 ^ 62" by (auto simp: fwl_tracks_def)
    then have sum: "i64 (fw_count win + n) = fw_count win + n" using n by (intro i64_small) auto
    show ?thesis
    proof (cases "?m < fw_count win + n")
      case over: True
      then have "\<not> ok" "rl' = rl" using step True win by (auto simp: fwl_allow_n_def ge sum)
      with tr win now show ?thesis by (auto simp: fwl_tracks_def)
    next
      case False
      then have "fwl_windows rl' key = Some (win\<lparr>fw_count := fw_count win + n\<rparr>)" "ok" "fw_count win + n \<le> ?m"
        using step True win by (auto simp: fwl_allow_n_def ge sum)
      with fwl_tracks_counted [OF tr n(1) now win _ n(4)] fwl_allow_n_params [OF step] True show ?thesis by simp
    qed
  qed
qed

lemma fwl_tracks_run:
  assumes "fwl_tracks rl key adm t" "paced_from t rs" "units_ok (fwl_limit rl) rs"
    "0 < fwl_window_size rl" "fwl_window_size rl < 2 ^ 63"
    "run_requests fwl_allow_n rs rl = (rl', oks)"
  shows "\<exists>t'. fwl_tracks rl' key (adm @ grants key rs oks) t'
    \<and> fwl_window_size rl' = fwl_window_size rl \<and> fwl_limit rl' = fwl_limit rl"
  using assms
proof (induction rs arbitrary: rl adm t oks)
  case Nil
  then show ?case by auto
next
  case (Cons r rs)
  obtain now k n where r: "r = (now, k, n)" by (cases r)
  obtain rl1 ok where st: "fwl_allow_n now k n rl = (rl1, ok)"
    by (cases "fwl_allow_n now k n rl")
  with Cons.prems(6) r obtain oks1 where
    run: "run_requests fwl_allow_n rs rl1 = (rl', oks1)" and oks: "oks = ok # oks1"
    by (auto split: prod.splits)
  note p = fwl_allow_n_params [OF st]
  from Cons.prems r st have "fwl_tracks rl1 key
      (adm @ (if ok \<and> k = key then replicate (nat n) now else [])) now"
    by (intro fwl_tracks_step) (auto dest: units_ok_limit)
  from Cons.IH [OF this _ _ _ _ run] Cons.prems p r show ?case by (simp add: oks)
qed

section \<open>The token bucket stays within its burst\<close>

definition tb_inv :: "token_bucket \<Rightarrow> bool" where
  "tb_inv tb \<longleftrightarrow> 0 \<le> tb_rate tb \<and> 0 \<le> tb_tokens tb \<and> tb_tokens tb \<le> fl (of_int (tb_burst tb))
     \<and> fl (tb_tokens tb) = tb_tokens tb"

lemma f_seconds_nonneg: "0 \<le> d \<Longrightarrow> 0 \<le> f_seconds d"
  by (auto simp: f_seconds_def go_div_nonneg go_mod_def minus_mult_div_eq_mod
      intro!: f64.nonneg add_nonneg_nonneg divide_nonneg_nonneg)

lemma tb_refilled_bounds:
  assumes "tb_inv tb" "tb_last_update tb \<le> now"
  shows "0 \<le> tb_refilled now tb" "tb_refilled now tb \<le> fl (of_int (tb_burst tb))"
    "fl (tb_refilled now tb) = tb_refilled now tb" "tb_tokens tb \<le> tb_refilled now tb"
proof -
  have e: "0 \<le> f_seconds (time_sub now (tb_last_update tb))"
    using assms(2) by (intro f_seconds_nonneg time_sub_nonneg)
  with assms(1) have grow: "0 \<le> fl (f_seconds (time_sub now (tb_last_update tb)) * tb_rate tb)"
    by (intro f64.nonneg mult_nonneg_nonneg) (auto simp: tb_inv_def)
  have rep: "tb_tokens tb \<le> fl (tb_tokens tb
      + fl (f_seconds (time_sub now (tb_last_update tb)) * tb_rate tb))"
    using assms(1) grow by (intro f64.above_representable) (auto simp: tb_inv_def)
  show "tb_tokens tb \<le> tb_refilled now tb"
    using rep assms(1) by (auto simp: tb_refilled_def tb_inv_def Let_def)
  with assms(1) show "0 \<le> tb_refilled now tb" by (auto simp: tb_inv_def)
  show "tb_refilled now tb \<le> fl (of_int (tb_burst tb))" "fl (tb_refilled now tb) = tb_refilled now tb"
    by (auto simp: tb_refilled_def Let_def f64.idem)
qed

lemma tb_allow_n_inv:
  assumes "tb_inv tb" "tb_last_update tb \<le> now" "0 \<le> n" "tb_allow_n now n tb = (tb', ok)"
  shows "tb_inv tb' \<and> tb_last_update tb' = now \<and> tb_burst tb' = tb_burst tb"
proof -
  note b = tb_refilled_bounds [OF assms(1,2)]
  have "0 \<le> fl (of_int n)" using assms(3) by (intro f64.nonneg) simp
  then have "tb_refilled now tb - fl (of_int n) \<le> tb_refilled now tb" by simp
  then have "fl (tb_refilled now tb - fl (of_int n)) \<le> tb_refilled now tb"
    using b(3) by (rule f64.below_representable)
  with b assms show ?thesis
    by (auto simp: tb_allow_n_def tb_inv_def Let_def f64.idem intro!: f64.nonneg split: if_splits)
qed

lemma tb_new_inv: "0 \<le> rate \<Longrightarrow> 0 \<le> burst \<Longrightarrow> tb_inv (new_token_bucket now rate burst)"
  by (simp add: tb_inv_def new_token_bucket_def f64.idem f64.nonneg)

fun tb_run :: "(time \<times> int) list \<Rightarrow> token_bucket \<Rightarrow> token_bucket" where
  "tb_run [] tb = tb"
| "tb_run ((now, n) # rs) tb = tb_run rs (fst (tb_allow_n now n tb))"

lemma tb_run_inv:
  "tb_inv tb \<Longrightarrow> sorted (tb_last_update tb # map fst rs) \<Longrightarrow> \<forall>(now, n)\<in>set rs. 0 \<le> n \<Longrightarrow>
     tb_inv (tb_run rs tb) \<and> tb_burst (tb_run rs tb) = tb_burst tb"
proof (induction rs arbitrary: tb)
  case Nil
  then show ?case by simp
next
  case (Cons r rs)
  obtain now n where r: "r = (now, n)" by (cases r)
  obtain tb' ok where st: "tb_allow_n now n tb = (tb', ok)" by (cases "tb_allow_n now n tb")
  from Cons.prems r have "tb_last_update tb \<le> now" "0 \<le> n" by auto
  from tb_allow_n_inv [OF Cons.prems(1) this st] Cons r st show ?case by auto
qed

lemma tb_refuses_over_burst:
  "fl (of_int (tb_burst tb)) < fl (of_int n) \<Longrightarrow>
     \<not> snd (tb_allow_n now n tb) \<and> tb_burst (fst (tb_allow_n now n tb)) = tb_burst tb"
  by (auto simp: tb_allow_n_def tb_refilled_def Let_def)

text \<open>C36: the token bucket, rounding included. Starting from a new bucket with a non-negative rate and
  burst, whatever non-negative numbers of tokens are asked for at non-decreasing times, the tokens
  left are never negative and never more than the burst.\<close>

theorem token_bucket_bounded:
  assumes "0 \<le> rate" "0 \<le> burst" "sorted (now # map fst rs)" "\<forall>(t, n)\<in>set rs. 0 \<le> n"
  shows "0 \<le> tb_tokens (tb_run rs (new_token_bucket now rate burst))
    \<and> tb_tokens (tb_run rs (new_token_bucket now rate burst)) \<le> fl (of_int burst)"
  using tb_run_inv [OF tb_new_inv [OF assms(1,2)], of now rs] assms(3,4)
  by (auto simp: new_token_bucket_def tb_inv_def)

theorem token_bucket_bounded_witness:
  "0 \<le> tb_tokens (tb_run [(5, 2), (8, 4)] (new_token_bucket 1 10 20))
    \<and> tb_tokens (tb_run [(5, 2), (8, 4)] (new_token_bucket 1 10 20)) \<le> fl (of_int 20)"
  by (rule token_bucket_bounded) auto

text \<open>A wait for more tokens than the burst never returns success, however often the bucket is
  polled and whatever the clock shows; it ends only when its context is done.\<close>

theorem token_wait_over_burst_never_succeeds:
  assumes "fl (of_int (tb_burst tb)) < fl (of_int n)"
  shows "snd (tb_wait_n polls n tb) \<noteq> Some True"
  using assms
proof (induction polls n tb rule: tb_wait_n.induct)
  case (1 n tb)
  then show ?case by simp
next
  case (2 now ctx_done polls n tb)
  obtain tb' ok where st: "tb_allow_n now n tb = (tb', ok)" by (cases "tb_allow_n now n tb")
  with tb_refuses_over_burst [OF 2(2), of now] 2 show ?case by auto
qed

theorem token_wait_over_burst_never_succeeds_witness:
  "snd (tb_wait_n [(3, False), (9, True)] 21 (new_token_bucket 1 10 20)) \<noteq> Some True"
  by (rule token_wait_over_burst_never_succeeds)
    (simp add: new_token_bucket_def fl_numeral)

section \<open>The leaky bucket\<close>

text \<open>
  \<^verbatim>\<open>AllowN\<close> sets \<^verbatim>\<open>lastLeak\<close> to the current time even when no whole period has passed, so the part of
  a period that had passed is lost.
\<close>

lemma lb_allow_n_no_leak:
  assumes "0 < lb_rate lb" "lb_last_leak lb \<le> now" "now - lb_last_leak lb < lb_rate lb"
    "lb_rate lb < 2 ^ 63" "lb_available lb = 0" "0 \<le> lb_capacity lb" "0 < n"
  shows "lb_allow_n now n lb = Inr (lb\<lparr>lb_last_leak := now\<rparr>, False)"
proof -
  have "time_sub now (lb_last_leak lb) = now - lb_last_leak lb"
    using assms by (intro time_sub_exact) auto
  with assms have "go_div (time_sub now (lb_last_leak lb)) (lb_rate lb) = 0"
    by (simp add: go_div_lt)
  with assms show ?thesis by (simp add: lb_allow_n_def Let_def i64_small)
qed

lemma lb_allow_after_period:
  assumes "0 < lb_rate lb" "lb_rate lb \<le> now - lb_last_leak lb" "now - lb_last_leak lb < 2 ^ 62"
    "0 \<le> lb_available lb" "lb_available lb \<le> lb_capacity lb" "1 \<le> lb_capacity lb"
    "lb_capacity lb < 2 ^ 62"
  shows "\<exists>lb'. lb_allow now lb = Inr (lb', True)"
proof -
  have e: "time_sub now (lb_last_leak lb) = now - lb_last_leak lb"
    using assms by (intro time_sub_exact) auto
  have d: "go_div (now - lb_last_leak lb) (lb_rate lb) = (now - lb_last_leak lb) div lb_rate lb"
    using assms by (intro go_div_nonneg) auto
  have "lb_rate lb div lb_rate lb \<le> (now - lb_last_leak lb) div lb_rate lb"
    using assms by (intro zdiv_mono1) auto
  then have one: "1 \<le> (now - lb_last_leak lb) div lb_rate lb" using assms by simp
  have "(now - lb_last_leak lb) div lb_rate lb \<le> now - lb_last_leak lb"
    using assms by (intro int_div_le_self) auto
  then have "i64 (lb_available lb + (now - lb_last_leak lb) div lb_rate lb)
      = lb_available lb + (now - lb_last_leak lb) div lb_rate lb"
    using assms one by (intro i64_small) auto
  with assms one show ?thesis by (simp add: lb_allow_def lb_allow_n_def Let_def e d)
qed

fun lb_poll :: "time list \<Rightarrow> leaky_bucket \<Rightarrow> go_panic + leaky_bucket \<times> bool list" where
  "lb_poll [] lb = Inr (lb, [])"
| "lb_poll (now # ts) lb =
     (case lb_allow now lb of
        Inl p \<Rightarrow> Inl p
      | Inr (lb', ok) \<Rightarrow> map_sum id (\<lambda>(lb'', oks). (lb'', ok # oks)) (lb_poll ts lb'))"

fun gaps_below :: "duration \<Rightarrow> time \<Rightarrow> time list \<Rightarrow> bool" where
  "gaps_below d t [] = True"
| "gaps_below d t (now # ts) = (t \<le> now \<and> now - t < d \<and> gaps_below d now ts)"

text \<open>A caller that polls an empty leaky bucket more often than once per period is refused for ever:
  every answer is no, and the bucket is still empty, however long the run lasts in total. (A single
  gap of a whole period gets a yes: \<open>lb_allow_after_period\<close>.)\<close>

theorem leaky_bucket_starves:
  assumes "lb_available lb = 0" "0 < lb_rate lb" "lb_rate lb < 2 ^ 63" "0 \<le> lb_capacity lb"
    "gaps_below (lb_rate lb) (lb_last_leak lb) ts"
  shows "\<exists>lb'. lb_poll ts lb = Inr (lb', replicate (length ts) False) \<and> lb_available lb' = 0"
  using assms
proof (induction ts arbitrary: lb)
  case Nil
  then show ?case by simp
next
  case (Cons now ts)
  then have st: "lb_allow now lb = Inr (lb\<lparr>lb_last_leak := now\<rparr>, False)"
    by (simp add: lb_allow_def lb_allow_n_no_leak)
  have "\<exists>lb'. lb_poll ts (lb\<lparr>lb_last_leak := now\<rparr>) = Inr (lb', replicate (length ts) False)
      \<and> lb_available lb' = 0"
    using Cons.prems by (intro Cons.IH) auto
  with st show ?case by auto
qed

theorem leaky_bucket_starves_witness:
  "\<exists>lb'. lb_poll [60, 120, 180, 240]
       \<lparr>lb_capacity = 5, lb_available = 0, lb_rate = 100, lb_last_leak = 0\<rparr>
     = Inr (lb', replicate (length [60, 120, 180, 240 :: int]) False) \<and> lb_available lb' = 0"
  by (rule leaky_bucket_starves) auto

text \<open>The preset for login attempts (a tenth of a request per second) with the leaky-bucket
  type: creating the limiter succeeds, and its first request divides by zero, because the period
  per request is computed with the rate truncated to a whole number.\<close>

theorem auth_preset_leaky_bucket_panics:
  "\<exists>rl. new_universal_limiter RLLeakyBucket (Some auth_rate_limit) = Inr rl
     \<and> ul_allow_n now key n rl = Inl DivideByZero"
proof -
  have "f_trunc (fl (1 / 10)) = 0" by code_simp
  then show ?thesis
    by (simp add: new_universal_limiter_def ul_allow_n_def auth_rate_limit_def Let_def)
qed

section \<open>The limiter interface and its client\<close>

text \<open>
  What the middleware relies on: in a good state the three methods return, they keep the state good
  and the limit unchanged, a request for one key leaves the report on every other key alone, and a
  reset key reports the full limit.
\<close>

locale rate_limiter =
  fixes ops :: "'s limiter_ops" and good :: "'s \<Rightarrow> bool" and limit :: "'s \<Rightarrow> int"
  assumes allow_returns: "good s \<Longrightarrow> \<exists>s' ok. op_allow_n ops now key n s = Inr (s', ok)"
    and allow_good: "good s \<Longrightarrow> op_allow_n ops now key n s = Inr (s', ok) \<Longrightarrow>
      good s' \<and> limit s' = limit s"
    and info_returns: "good s \<Longrightarrow> \<exists>info. op_get_info ops now key s = Inr info"
    and info_other: "good s \<Longrightarrow> op_allow_n ops now key n s = Inr (s', ok) \<Longrightarrow> key' \<noteq> key \<Longrightarrow>
      op_get_info ops t key' s' = op_get_info ops t key' s"
    and reset_fresh: "good s \<Longrightarrow> \<exists>s'. op_reset ops key s = Inr s' \<and> good s'
      \<and> op_get_info ops now key s' = Inr (fresh_info key (limit s) (limit s))"
begin

lemma check_returns:
  assumes "good s"
  shows "\<exists>r. middleware_check ops h now ctx_key s = Inr r \<and> good (cr_state r)"
proof -
  let ?key = "if ctx_key = [] then ''default'' else ctx_key"
  obtain s' ok where a: "op_allow_n ops now ?key 1 s = Inr (s', ok)"
    using allow_returns [OF assms] by blast
  then have g: "good s'" using allow_good [OF assms] by blast
  then obtain info where "op_get_info ops now ?key s' = Inr info"
    using info_returns by blast
  with a g show ?thesis by (simp add: middleware_check_def Let_def)
qed

lemma check_decides:
  assumes "middleware_check ops h now ctx_key s = Inr r"
    and "op_allow_n ops now (if ctx_key = [] then ''default'' else ctx_key) 1 s = Inr (s', ok)"
  shows "cr_state r = s' \<and> (cr_error r = None \<longleftrightarrow> ok) \<and> (cr_handled r \<noteq> None \<longleftrightarrow> \<not> ok \<and> h)"
  using assms by (auto simp: middleware_check_def Let_def split: sum.splits if_splits)

lemma check_isolated:
  assumes "good s" "middleware_check ops h now ctx_key s = Inr r"
    and "key' \<noteq> (if ctx_key = [] then ''default'' else ctx_key)"
  shows "op_get_info ops t key' (cr_state r) = op_get_info ops t key' s"
proof -
  obtain s' ok where a:
    "op_allow_n ops now (if ctx_key = [] then ''default'' else ctx_key) 1 s = Inr (s', ok)"
    using allow_returns [OF assms(1)] by blast
  from check_decides [OF assms(2) a] info_other [OF assms(1) a assms(3)] show ?thesis by simp
qed

end

text \<open>
  The universal limiter provides this for the token bucket and the two windows. (The leaky bucket
  is left out: its \<^verbatim>\<open>AllowN\<close> can panic, and \<^verbatim>\<open>GetInfo\<close> has no case for it and reports no units
  remaining.)
\<close>

definition ul_good :: "universal_limiter \<Rightarrow> bool" where
  "ul_good rl \<longleftrightarrow> in_i64 (burst_size (ul_config rl)) \<and>
     (case ul_typ rl of
        RLTokenBucket \<Rightarrow> ul_token_bucket rl \<noteq> None
      | RLFixedWindow \<Rightarrow>
          (\<exists>fw. ul_fixed_window rl = Some fw \<and> fwl_limit fw = burst_size (ul_config rl))
      | RLSlidingWindow \<Rightarrow>
          (\<exists>sw. ul_sliding_window rl = Some sw \<and> swl_limit sw = burst_size (ul_config rl))
      | _ \<Rightarrow> False)"

lemma new_universal_limiter_good:
  "new_universal_limiter typ (Some c) = Inr rl \<Longrightarrow> typ \<noteq> RLLeakyBucket \<Longrightarrow> in_i64 (burst_size c) \<Longrightarrow>
     ul_good rl"
  by (auto simp: new_universal_limiter_def ul_good_def Let_def new_fixed_window_limiter_def
      new_sliding_window_limiter_def split: limiter_type.splits)

lemma ul_good_cases [consumes 1, case_names TokenBucket FixedWindow SlidingWindow]:
  assumes "ul_good rl"
  obtains m where "ul_typ rl = RLTokenBucket" "ul_token_bucket rl = Some m"
  | fw where "ul_typ rl = RLFixedWindow" "ul_fixed_window rl = Some fw"
      "fwl_limit fw = burst_size (ul_config rl)"
  | sw where "ul_typ rl = RLSlidingWindow" "ul_sliding_window rl = Some sw"
      "swl_limit sw = burst_size (ul_config rl)"
  using assms by (auto simp: ul_good_def split: limiter_type.splits)

lemma ul_allow_n_step:
  assumes "ul_good s" "ul_allow_n now key n s = Inr (s', ok)"
  shows "ul_good s' \<and> ul_config s' = ul_config s
    \<and> (key' \<noteq> key \<longrightarrow> ul_get_info t key' s' = ul_get_info t key' s)"
  using assms(1)
proof (cases rule: ul_good_cases)
  case (TokenBucket m)
  with assms show ?thesis
    by (auto simp: ul_allow_n_def ul_good_def ul_get_info_def Let_def split: prod.splits option.splits)
next
  case (FixedWindow fw)
  obtain fw' b where st: "fwl_allow_n now key n fw = (fw', b)" by fastforce
  with FixedWindow assms(2) have "s' = s\<lparr>ul_fixed_window := Some fw'\<rparr>"
    by (simp add: ul_allow_n_def)
  with FixedWindow assms(1) fwl_allow_n_params [OF st] fwl_allow_n_other [OF st, of key']
  show ?thesis by (simp add: ul_good_def ul_get_info_def fwl_get_info_def split: option.split)
next
  case (SlidingWindow sw)
  obtain sw' b where st: "swl_allow_n now key n sw = (sw', b)" by fastforce
  with SlidingWindow assms(2) have "s' = s\<lparr>ul_sliding_window := Some sw'\<rparr>"
    by (simp add: ul_allow_n_def)
  with SlidingWindow assms(1) swl_allow_n_params [OF st] swl_allow_n_other [OF st, of key']
  show ?thesis by (simp add: ul_good_def ul_get_info_def swl_get_info_def split: option.split)
qed

lemma ul_allow_n_returns:
  assumes "ul_good s" shows "\<exists>s' ok. ul_allow_n now key n s = Inr (s', ok)"
  using assms by (cases rule: ul_good_cases) (simp_all add: ul_allow_n_def Let_def split: prod.splits)

lemma ul_get_info_returns:
  assumes "ul_good s" shows "\<exists>info. ul_get_info now key s = Inr info"
  using assms by (cases rule: ul_good_cases) (simp_all add: ul_get_info_def split: option.splits)

lemma ul_reset_fresh:
  assumes "ul_good s"
  shows "\<exists>s'. ul_reset key s = Inr s' \<and> ul_good s' \<and> ul_get_info now key s' =
    Inr (fresh_info key (burst_size (ul_config s)) (burst_size (ul_config s)))"
  using assms
  by (cases rule: ul_good_cases)
    (use assms in \<open>simp_all add: ul_reset_def ul_good_def ul_get_info_def fwl_reset_def swl_reset_def
      fwl_get_info_def swl_get_info_def\<close>)

interpretation ul: rate_limiter universal_ops ul_good "\<lambda>rl. burst_size (ul_config rl)"
  by unfold_locales
    (simp_all add: universal_ops_def ul_allow_n_returns ul_get_info_returns ul_reset_fresh ul_allow_n_step)

text \<open>The middleware over the universal limiter. For every limiter that \<^verbatim>\<open>NewUniversalRateLimiter\<close>
  builds for a type other than the leaky bucket, a check returns; it reports an error exactly when
  the limiter refused the unit, calls the handler exactly when it refused and there is one, and does
  not touch what the limiter reports for any other key.\<close>

theorem middleware_check_correct:
  assumes "new_universal_limiter typ (Some c) = Inr rl" "typ \<noteq> RLLeakyBucket" "in_i64 (burst_size c)"
  defines "key \<equiv> \<lambda>ctx_key. if ctx_key = [] then ''default'' else ctx_key"
  shows "\<exists>r s' ok. middleware_check universal_ops h now ctx_key rl = Inr r
    \<and> ul_allow_n now (key ctx_key) 1 rl = Inr (s', ok) \<and> cr_state r = s'
    \<and> cr_error r = (if ok then None else Some ErrRateLimitExceeded)
    \<and> (cr_handled r \<noteq> None \<longleftrightarrow> \<not> ok \<and> h)
    \<and> (\<forall>k. k \<noteq> key ctx_key \<longrightarrow> ul_get_info t k s' = ul_get_info t k rl)"
proof -
  have g: "ul_good rl" using assms(1-3) by (rule new_universal_limiter_good)
  obtain r where r: "middleware_check universal_ops h now ctx_key rl = Inr r"
    using ul.check_returns [OF g] by blast
  obtain s' ok where a: "ul_allow_n now (key ctx_key) 1 rl = Inr (s', ok)"
    using ul.allow_returns [OF g, of now "key ctx_key" 1] by (auto simp: universal_ops_def)
  then have "op_allow_n universal_ops now (if ctx_key = [] then ''default'' else ctx_key) 1 rl
      = Inr (s', ok)"
    by (simp add: universal_ops_def key_def)
  from ul.check_decides [OF r this] ul.check_isolated [OF g r]
  have "cr_state r = s' \<and> (cr_error r = None \<longleftrightarrow> ok) \<and> (cr_handled r \<noteq> None \<longleftrightarrow> \<not> ok \<and> h)"
    "\<forall>k. k \<noteq> key ctx_key \<longrightarrow> ul_get_info t k s' = ul_get_info t k rl"
    by (auto simp: universal_ops_def key_def)
  moreover have "cr_error r = None \<or> cr_error r = Some ErrRateLimitExceeded"
    using r by (auto simp: middleware_check_def Let_def split: sum.splits if_splits)
  ultimately show ?thesis using r a by auto
qed

theorem middleware_check_correct_witness:
  "\<exists>rl r s' ok. new_universal_limiter RLSlidingWindow (Some strict_rate_limit) = Inr rl
    \<and> middleware_check universal_ops True 7 [] rl = Inr r
    \<and> ul_allow_n 7 ''default'' 1 rl = Inr (s', ok) \<and> cr_state r = s'"
proof -
  obtain rl where rl: "new_universal_limiter RLSlidingWindow (Some strict_rate_limit) = Inr rl"
    by (simp add: new_universal_limiter_def Let_def)
  from middleware_check_correct [OF rl, of True 7 "[]" 0] show ?thesis
    using rl by (auto simp: strict_rate_limit_def in_i64_def)
qed

text \<open>C1: the sliding window. Over any run of requests at non-decreasing times, with non-negative unit
  counts, a new sliding-window limiter never admits more than its limit for one key within any span
  of one window: for every time \<open>u\<close>, the units admitted in \<open>(u - window, u]\<close> are at most \<open>limit\<close>.\<close>

theorem sliding_window_limit:
  assumes "0 < w" "w < 2 ^ 63" "units_ok limit rs" "sorted (map fst rs)"
    and "run_requests swl_allow_n rs (new_sliding_window_limiter limit w) = (rl, oks)"
  shows "int (length (in_window w u (grants key rs oks))) \<le> limit"
proof (cases rs)
  case Nil
  with assms show ?thesis by (auto simp: in_window_def dest: units_ok_limit)
next
  case (Cons r rs')
  let ?new = "new_sliding_window_limiter limit w"
  have "swl_tracks ?new key [] (fst r)"
    using units_ok_limit [OF assms(3)]
    by (auto simp: swl_tracks_def new_sliding_window_limiter_def swl_timestamps_def in_window_def)
  moreover have "paced_from (fst r) rs" using assms(4) Cons by (simp add: paced_from_def)
  moreover have "swl_limit ?new = limit" "swl_window_size ?new = w"
    by (simp_all add: new_sliding_window_limiter_def)
  ultimately obtain t' where "swl_tracks rl key ([] @ grants key rs oks) t'"
      "swl_window_size rl = w" "swl_limit rl = limit"
    using swl_tracks_run [OF _ _ _ _ _ assms(5)] assms by metis
  then show ?thesis by (simp add: swl_tracks_def)
qed

theorem sliding_window_limit_witness:
  "int (length (in_window 10 12 (grants ''k'' [(1, ''k'', 2), (12, ''k'', 1)] [True, True]))) \<le> 2"
proof -
  have "run_requests swl_allow_n [(1, ''k'', 2), (12, ''k'', 1)] (new_sliding_window_limiter 2 10)
      = (fst (run_requests swl_allow_n [(1, ''k'', 2), (12, ''k'', 1)] (new_sliding_window_limiter 2 10)),
         [True, True])"
    by (simp add: swl_allow_n_def new_sliding_window_limiter_def swl_timestamps_def i64_simps
        i64_id in_i64_def numeral_2_eq_2)
  from sliding_window_limit [OF _ _ _ _ this, where key = "''k''" and u = 12] show ?thesis
    by (simp add: units_ok_def del: grants.simps)
qed

text \<open>C4: the fixed window. Under the same conditions a new fixed-window limiter admits at most twice
  its limit for one key within any span of one window length (two adjacent windows can meet in the
  span), for every start \<open>u\<close> of the span.\<close>

theorem fixed_window_limit:
  assumes "0 < w" "w < 2 ^ 63" "units_ok limit rs" "sorted (map fst rs)"
    and "run_requests fwl_allow_n rs (new_fixed_window_limiter limit w) = (rl, oks)"
  shows "int (length (in_interval w u (grants key rs oks))) \<le> 2 * limit"
proof (cases rs)
  case Nil
  with assms show ?thesis by (auto simp: in_interval_def dest: units_ok_limit)
next
  case (Cons r rs')
  let ?new = "new_fixed_window_limiter limit w"
  have "fwl_tracks ?new key [] (fst r)"
    using units_ok_limit [OF assms(3)]
    by (auto simp: fwl_tracks_def new_fixed_window_limiter_def in_interval_def)
  moreover have "paced_from (fst r) rs" using assms(4) Cons by (simp add: paced_from_def)
  moreover have "fwl_limit ?new = limit" "fwl_window_size ?new = w"
    by (simp_all add: new_fixed_window_limiter_def)
  ultimately obtain t' where "fwl_tracks rl key ([] @ grants key rs oks) t'"
      "fwl_window_size rl = w" "fwl_limit rl = limit"
    using fwl_tracks_run [OF _ _ _ _ _ assms(5)] assms by metis
  then show ?thesis by (simp add: fwl_tracks_def)
qed

text \<open>The witness attains the bound: four units of limit two within one window length.\<close>

theorem fixed_window_limit_witness:
  "int (length (in_interval 10 9 (grants ''k'' [(0, ''k'', 1), (9, ''k'', 1), (10, ''k'', 2)]
      [True, True, True]))) \<le> 2 * 2"
proof -
  let ?rs = "[(0, ''k'', 1), (9, ''k'', 1), (10, ''k'', 2)] :: request list"
  have "run_requests fwl_allow_n ?rs (new_fixed_window_limiter 2 10)
      = (fst (run_requests fwl_allow_n ?rs (new_fixed_window_limiter 2 10)), [True, True, True])"
    by (simp add: fwl_allow_n_def new_fixed_window_limiter_def i64_simps time_sub_def)
  from fixed_window_limit [OF _ _ _ _ this, where key = "''k''" and u = 9] show ?thesis
    by (simp add: units_ok_def del: grants.simps)
qed

end
