(* ===== verification/InferenceTypes.thy ===== *)
theory InferenceTypes
  imports Float64
begin

text \<open>
  The data types of the package \<^verbatim>\<open>inference\<close> that its components share (\<^verbatim>\<open>types.go\<close>) and its error
  values (\<^verbatim>\<open>errors.go\<close>). Fields no modelled operation reads are left out of the records: the
  \<^verbatim>\<open>Metadata\<close> maps of requests and responses, the token probabilities and alternatives, the request's
  context (the operations that use it take its outcome as an argument), and of an error its
  \<^verbatim>\<open>Details\<close>, \<^verbatim>\<open>Metadata\<close> and \<^verbatim>\<open>Timestamp\<close>.
\<close>

section \<open>Errors\<close>

datatype error_code =
  ErrModelNotFound | ErrModelAlreadyLoaded | ErrModelLoadFailed | ErrModelUnloadFailed
    | ErrModelFormatUnsupported | ErrModelCorrupted | ErrModelPathInvalid
    | ErrModelConfigInvalid | ErrInstanceNotFound | ErrInstanceAlreadyExists
    | ErrInstanceNotReady | ErrInstanceFailed | ErrInstanceTimeout | ErrInstanceBusy
    | ErrInstanceStopped | ErrMaxInstancesReached | ErrInferenceFailed | ErrInferenceTimeout
    | ErrInferenceCancelled | ErrRequestQueueFull | ErrRequestInvalid | ErrPromptTooLong
    | ErrTokenLimitExceeded | ErrContextLengthExceeded | ErrGenerationFailed
    | ErrStreamingFailed | ErrInsufficientMemory | ErrInsufficientGPUMemory | ErrNoAvailableGPU
    | ErrGPUAllocationFailed | ErrCPUAllocationFailed | ErrResourceExhausted
    | ErrResourceQuotaExceeded | ErrBatchNotFound | ErrBatchCreationFailed
    | ErrBatchExecutionFailed | ErrBatchTimeout | ErrBatchCancelled | ErrBatchSizeExceeded
    | ErrBatchInvalid | ErrCacheMiss | ErrCacheFull | ErrCacheDisabled | ErrCacheCorrupted
    | ErrSchedulerNotReady | ErrSchedulerOverloaded | ErrNoAvailableInstance
    | ErrSchedulingFailed | ErrPriorityInvalid | ErrRuntimeNotInitialized | ErrRuntimeError
    | ErrRuntimeCrash | ErrRuntimeTimeout | ErrRuntimeUnsupported | ErrConfigNotFound
    | ErrConfigInvalid | ErrConfigLoadFailed | ErrConfigSaveFailed | ErrInternal
    | ErrNotImplemented | ErrServiceUnavailable | ErrMaintenanceMode

text \<open>
  A Go \<^verbatim>\<open>error\<close>: an \<^verbatim>\<open>*InferenceError\<close> with its code, message, model, instance and request ids,
  retryable flag and cause; an error wrapped by \<^verbatim>\<open>fmt.Errorf\<close> with \<^verbatim>\<open>%w\<close>; or any other error.
\<close>

datatype go_error =
  InferenceError (err_code: error_code) (err_message: string) (err_model_id: string)
    (err_instance_id: string) (err_request_id: string) (err_retryable: bool)
    (err_cause: "go_error option")
| WrappedError string go_error
| PlainError string

definition is_retryable_code :: "error_code \<Rightarrow> bool" where
  "is_retryable_code code \<longleftrightarrow>
     code \<in> {ErrInstanceBusy, ErrInstanceTimeout, ErrInferenceTimeout, ErrRequestQueueFull,
       ErrNoAvailableGPU, ErrNoAvailableInstance, ErrSchedulerOverloaded, ErrResourceExhausted,
       ErrRuntimeTimeout, ErrServiceUnavailable}"

definition new_error :: "error_code \<Rightarrow> string \<Rightarrow> go_error" where
  "new_error code message = InferenceError code message [] [] [] (is_retryable_code code) None"

definition wrap_error :: "error_code \<Rightarrow> string \<Rightarrow> go_error \<Rightarrow> go_error" where
  "wrap_error code message cause =
     InferenceError code message [] [] [] (is_retryable_code code) (Some cause)"

fun with_model_id :: "string \<Rightarrow> go_error \<Rightarrow> go_error" where
  "with_model_id m (InferenceError c msg _ i r b k) = InferenceError c msg m i r b k"
| "with_model_id m e = e"

fun with_instance_id :: "string \<Rightarrow> go_error \<Rightarrow> go_error" where
  "with_instance_id i (InferenceError c msg m _ r b k) = InferenceError c msg m i r b k"
| "with_instance_id i e = e"

fun with_request_id :: "string \<Rightarrow> go_error \<Rightarrow> go_error" where
  "with_request_id r (InferenceError c msg m i _ b k) = InferenceError c msg m i r b k"
| "with_request_id r e = e"

fun with_retryable :: "bool \<Rightarrow> go_error \<Rightarrow> go_error" where
  "with_retryable b (InferenceError c msg m i r _ k) = InferenceError c msg m i r b k"
| "with_retryable b e = e"

text \<open>\<^verbatim>\<open>errors.As\<close> with an \<^verbatim>\<open>*InferenceError\<close> target: the first one of the chain.\<close>

fun as_inference_error :: "go_error \<Rightarrow> go_error option" where
  "as_inference_error (InferenceError c msg m i r b k) = Some (InferenceError c msg m i r b k)"
| "as_inference_error (WrappedError _ e) = as_inference_error e"
| "as_inference_error (PlainError _) = None"

definition has_code :: "error_code set \<Rightarrow> go_error \<Rightarrow> bool" where
  "has_code codes e = (case as_inference_error e of None \<Rightarrow> False | Some ie \<Rightarrow> err_code ie \<in> codes)"

definition is_model_error :: "go_error \<Rightarrow> bool" where
  "is_model_error = has_code {ErrModelNotFound, ErrModelLoadFailed, ErrModelFormatUnsupported,
     ErrModelCorrupted, ErrModelPathInvalid, ErrModelConfigInvalid}"

definition is_instance_error :: "go_error \<Rightarrow> bool" where
  "is_instance_error = has_code {ErrInstanceNotFound, ErrInstanceNotReady, ErrInstanceFailed,
     ErrInstanceTimeout, ErrInstanceBusy, ErrMaxInstancesReached}"

definition is_resource_error :: "go_error \<Rightarrow> bool" where
  "is_resource_error = has_code {ErrInsufficientMemory, ErrInsufficientGPUMemory, ErrNoAvailableGPU,
     ErrGPUAllocationFailed, ErrCPUAllocationFailed, ErrResourceExhausted}"

definition is_retryable :: "go_error \<Rightarrow> bool" where
  "is_retryable e = (case as_inference_error e of None \<Rightarrow> False | Some ie \<Rightarrow> err_retryable ie)"

definition get_error_code :: "go_error \<Rightarrow> error_code" where
  "get_error_code e = (case as_inference_error e of None \<Rightarrow> ErrInternal | Some ie \<Rightarrow> err_code ie)"

text \<open>The constructors the modelled components use.\<close>

definition err_instance_not_found :: "string \<Rightarrow> go_error" where
  "err_instance_not_found instance_id =
     with_instance_id instance_id (new_error ErrInstanceNotFound ''Instance not found'')"

definition err_instance_not_ready :: "string \<Rightarrow> go_error" where
  "err_instance_not_ready instance_id =
     with_retryable True (with_instance_id instance_id
       (new_error ErrInstanceNotReady ''Instance is not ready''))"

definition err_inference_failed :: "string \<Rightarrow> go_error \<Rightarrow> go_error" where
  "err_inference_failed request_id cause =
     with_retryable False (with_request_id request_id
       (wrap_error ErrInferenceFailed ''Inference execution failed'' cause))"

definition err_inference_timeout :: "string \<Rightarrow> go_error" where
  "err_inference_timeout request_id =
     with_retryable True (with_request_id request_id
       (new_error ErrInferenceTimeout ''Inference request timed out''))"

definition err_request_queue_full :: "string \<Rightarrow> go_error" where
  "err_request_queue_full instance_id =
     with_retryable True (with_instance_id instance_id
       (new_error ErrRequestQueueFull ''Request queue is full''))"

definition err_token_limit_exceeded :: go_error where
  "err_token_limit_exceeded = new_error ErrTokenLimitExceeded ''Token limit exceeded''"

definition err_insufficient_memory :: go_error where
  "err_insufficient_memory =
     with_retryable True (new_error ErrInsufficientMemory ''Insufficient memory'')"

definition err_insufficient_gpu_memory :: go_error where
  "err_insufficient_gpu_memory =
     with_retryable True (new_error ErrInsufficientGPUMemory ''Insufficient GPU memory'')"

definition err_no_available_gpu :: go_error where
  "err_no_available_gpu =
     with_retryable True (new_error ErrNoAvailableGPU ''No available GPU devices'')"

definition err_cache_miss :: go_error where
  "err_cache_miss = new_error ErrCacheMiss ''Cache miss''"

definition err_cache_full :: go_error where
  "err_cache_full = new_error ErrCacheFull ''Cache is full''"

definition err_no_available_instance :: "string \<Rightarrow> go_error" where
  "err_no_available_instance model_id =
     with_retryable True (with_model_id model_id
       (new_error ErrNoAvailableInstance ''No available instance''))"

definition err_batch_not_found :: go_error where
  "err_batch_not_found = new_error ErrBatchNotFound ''Batch not found''"

definition err_batch_size_exceeded :: go_error where
  "err_batch_size_exceeded = new_error ErrBatchSizeExceeded ''Batch size exceeds maximum''"

lemmas error_constructors = new_error_def wrap_error_def is_retryable_code_def
  err_instance_not_found_def err_instance_not_ready_def err_inference_failed_def
  err_inference_timeout_def err_request_queue_full_def err_token_limit_exceeded_def
  err_insufficient_memory_def err_insufficient_gpu_memory_def err_no_available_gpu_def
  err_cache_miss_def err_cache_full_def err_no_available_instance_def err_batch_not_found_def
  err_batch_size_exceeded_def

section \<open>Requests, responses and instances\<close>

datatype instance_state =
  StateLoading | StateActive | StateIdle | StateBusy | StateUnloading | StateStopped | StateError
| StateRestarting | StateOther string

datatype inference_mode = ModeSync | ModeStreaming | ModeBatch | ModeOther string

datatype device_type = DeviceCPU | DeviceGPU | DeviceOther string

definition PriorityLow :: int where "PriorityLow = 1"
definition PriorityNormal :: int where "PriorityNormal = 5"
definition PriorityHigh :: int where "PriorityHigh = 10"
definition PriorityCritical :: int where "PriorityCritical = 15"

record chat_message =
  cm_role :: string
  cm_content :: string
  cm_name :: string

record inference_request =
  rq_id :: string
  rq_model_id :: string
  rq_mode :: inference_mode
  rq_priority :: int
  rq_prompt :: string
  rq_messages :: "chat_message list"
  rq_stream :: bool
  rq_max_tokens :: int
  rq_temperature :: rat
  rq_top_p :: rat
  rq_top_k :: int
  rq_stop :: "string list"
  rq_frequency_penalty :: rat
  rq_presence_penalty :: rat
  rq_user :: string
  rq_created_at :: time
  rq_timeout :: duration

record inference_response =
  rs_id :: string
  rs_request_id :: string
  rs_model_id :: string
  rs_instance_id :: string
  rs_content :: string
  rs_finish_reason :: string
  rs_input_tokens :: int
  rs_output_tokens :: int
  rs_total_tokens :: int
  rs_latency :: duration
  rs_created_at :: time

record instance_config =
  ic_model_id :: string
  ic_context_length :: int
  ic_max_tokens :: int
  ic_device :: device_type
  ic_device_id :: int
  ic_gpu_layers :: int
  ic_threads :: int
  ic_batch_size :: int
  ic_max_queue_size :: int
  ic_timeout :: duration

record resource_allocation =
  ra_instance_id :: string
  ra_device_type :: device_type
  ra_device_id :: int
  ra_cpu_threads :: int
  ra_memory_bytes :: int
  ra_gpu_memory_bytes :: int
  ra_gpu_layers :: int
  ra_allocated_at :: time

record gpu_info =
  gpu_id :: int
  gpu_memory_total :: int
  gpu_memory_used :: int
  gpu_memory_free :: int
  gpu_utilization :: int

section \<open>Batches\<close>

text \<open>
  A batch error keeps the error code of the failed request (the source also stores the message text).
  A time that may be nil is an option.
\<close>

datatype batch_status =
  BatchPending | BatchRunning | BatchComplete | BatchPartial | BatchFailed | BatchCancelled

record batch_result =
  br_index :: int
  br_request_id :: string
  br_success :: bool
  br_response :: "inference_response option"
  br_error :: "error_code option"
  br_duration :: duration

definition empty_result :: batch_result where
  "empty_result = \<lparr>br_index = 0, br_request_id = [], br_success = False, br_response = None,
     br_error = None, br_duration = 0\<rparr>"

record batch_request =
  bq_id :: string
  bq_model_id :: string
  bq_requests :: "inference_request list"
  bq_priority :: int
  bq_created_at :: time
  bq_started_at :: "time option"
  bq_completed_at :: "time option"
  bq_status :: batch_status
  bq_progress :: rat

record batch_response =
  bs_batch_id :: string
  bs_model_id :: string
  bs_status :: batch_status
  bs_results :: "batch_result list"
  bs_total :: int
  bs_succeeded :: int
  bs_failed :: int
  bs_duration :: duration
  bs_created_at :: time
  bs_completed_at :: "time option"

section \<open>Examples\<close>

text \<open>A request and a response for the examples.\<close>

definition sample_request :: "string \<Rightarrow> inference_request" where
  "sample_request req_id =
     \<lparr>rq_id = req_id, rq_model_id = ''m'', rq_mode = ModeSync, rq_priority = 5, rq_prompt = ''hi'',
      rq_messages = [], rq_stream = False, rq_max_tokens = 16, rq_temperature = 1, rq_top_p = 1,
      rq_top_k = 40, rq_stop = [], rq_frequency_penalty = 0, rq_presence_penalty = 0, rq_user = [],
      rq_created_at = 0, rq_timeout = second\<rparr>"

definition sample_response :: "string \<Rightarrow> inference_response" where
  "sample_response req_id =
     \<lparr>rs_id = ''r'', rs_request_id = req_id, rs_model_id = ''m'', rs_instance_id = ''i'',
      rs_content = ''ok'', rs_finish_reason = ''stop'', rs_input_tokens = 1, rs_output_tokens = 1,
      rs_total_tokens = 2, rs_latency = 3, rs_created_at = 0\<rparr>"

end
