(* ===== verification/Cache.thy ===== *)
theory Cache
  imports InferenceTypes
begin

text \<open>
  The inference cache of \<^verbatim>\<open>inference/cache.go\<close>: lookup, insertion with eviction, deletion, expiry,
  invalidation, warm-up, and the background evictor. The key of a request is the hex SHA-256 of the
  JSON of its sampling fields; JSON and SHA-256 are library code, so the composition is a parameter
  \<open>digest\<close> of the operations (\<open>Inl\<close> is a marshalling error). An operation that ranges over the
  entries takes the order \<open>ks\<close> it meets them in (two orders where it ranges twice), and one clock
  reading \<open>now\<close> stands for the readings of one call. The statistics fields \<^verbatim>\<open>AverageLatency\<close> and
  \<^verbatim>\<open>MemoryUsage\<close> are never touched by the code and left out.
\<close>

section \<open>State\<close>

datatype meta_value = MetaString string | MetaTime time

record cache_entry =
  ce_key :: string
  ce_request_hash :: string
  ce_response :: inference_response
  ce_created_at :: time
  ce_expires_at :: time
  ce_hit_count :: int
  ce_size :: int
  ce_metadata :: "string \<rightharpoonup> meta_value"

record cache_config =
  cc_enabled :: bool
  cc_max_size_bytes :: int
  cc_default_ttl :: duration
  cc_max_entries :: int
  cc_eviction_policy :: string
  cc_eviction_interval :: duration
  cc_enable_warmup :: bool
  cc_hash_algorithm :: string

record cache_stats =
  cs_total_requests :: int
  cs_hits :: int
  cs_misses :: int
  cs_hit_rate :: rat
  cs_evictions :: int
  cs_expirations :: int
  cs_total_size :: int
  cs_entry_count :: int
  cs_last_eviction :: time
  cs_last_cleanup :: time
  cs_updated_at :: time

record cache_evictor =
  ev_policy :: string
  ev_interval :: duration
  ev_running :: bool

record inference_cache =
  ca_entries :: "string \<rightharpoonup> cache_entry"
  ca_config :: cache_config
  ca_stats :: cache_stats
  ca_evictor :: "cache_evictor option"
  ca_enabled :: bool

definition default_cache_config :: cache_config where
  "default_cache_config =
     \<lparr>cc_enabled = True, cc_max_size_bytes = 1024 * 1024 * 1024, cc_default_ttl = hour,
      cc_max_entries = 10000, cc_eviction_policy = ''lru'', cc_eviction_interval = 5 * minute,
      cc_enable_warmup = False, cc_hash_algorithm = ''sha256''\<rparr>"

definition new_cache_evictor :: "string \<Rightarrow> duration \<Rightarrow> cache_evictor" where
  "new_cache_evictor policy interval = \<lparr>ev_policy = policy, ev_interval = interval, ev_running = False\<rparr>"

definition evictor_start :: "cache_evictor \<Rightarrow> cache_evictor" where
  "evictor_start e = (if ev_running e then e else e\<lparr>ev_running := True\<rparr>)"


definition new_inference_cache :: "time \<Rightarrow> cache_config option \<Rightarrow> inference_cache" where
  "new_inference_cache now config =
     (let config = (case config of None \<Rightarrow> default_cache_config | Some c \<Rightarrow> c)
      in \<lparr>ca_entries = Map.empty, ca_config = config,
          ca_stats = \<lparr>cs_total_requests = 0, cs_hits = 0, cs_misses = 0, cs_hit_rate = 0,
            cs_evictions = 0, cs_expirations = 0, cs_total_size = 0, cs_entry_count = 0,
            cs_last_eviction = time_zero, cs_last_cleanup = time_zero, cs_updated_at = now\<rparr>,
          ca_evictor = (if cc_enabled config \<and> 0 < cc_eviction_interval config
            then Some (evictor_start (new_cache_evictor (cc_eviction_policy config)
                   (cc_eviction_interval config)))
            else None),
          ca_enabled = cc_enabled config\<rparr>)"

section \<open>Keys and sizes\<close>

record key_data =
  kd_model_id :: string
  kd_prompt :: string
  kd_max_tokens :: int
  kd_temperature :: rat
  kd_top_p :: rat
  kd_top_k :: int
  kd_stop :: "string list"
  kd_frequency_penalty :: rat
  kd_presence_penalty :: rat
  kd_messages :: "chat_message list option"

definition key_data_of :: "inference_request \<Rightarrow> key_data" where
  "key_data_of req =
     \<lparr>kd_model_id = rq_model_id req, kd_prompt = rq_prompt req, kd_max_tokens = rq_max_tokens req,
      kd_temperature = rq_temperature req, kd_top_p = rq_top_p req, kd_top_k = rq_top_k req,
      kd_stop = rq_stop req, kd_frequency_penalty = rq_frequency_penalty req,
      kd_presence_penalty = rq_presence_penalty req,
      kd_messages = (if rq_messages req = [] then None else Some (rq_messages req))\<rparr>"

type_synonym digest = "key_data \<Rightarrow> go_error + string"

definition generate_key :: "digest \<Rightarrow> inference_request \<Rightarrow> go_error + string" where
  "generate_key digest req = digest (key_data_of req)"

definition estimate_entry_size :: "inference_request \<Rightarrow> inference_response \<Rightarrow> int" where
  "estimate_entry_size req resp =
     i64 (int (length (rq_prompt req)) + int (length (rq_messages req)) * 100 + 500
       + int (length (rs_content resp)) + rs_total_tokens resp * 10 + 500)"

section \<open>Eviction order\<close>

definition last_accessed_time :: "cache_entry \<Rightarrow> time" where
  "last_accessed_time e =
     (case ce_metadata e ''last_accessed'' of Some (MetaTime t) \<Rightarrow> t | _ \<Rightarrow> ce_created_at e)"

definition sort_by_last_accessed :: "cache_entry list \<Rightarrow> cache_entry list" where
  "sort_by_last_accessed = bubble_sort (\<lambda>a b. last_accessed_time a < last_accessed_time b)"

definition sort_by_hit_count :: "cache_entry list \<Rightarrow> cache_entry list" where
  "sort_by_hit_count = bubble_sort (\<lambda>a b. ce_hit_count a > ce_hit_count b)"

definition sort_by_creation_time :: "cache_entry list \<Rightarrow> cache_entry list" where
  "sort_by_creation_time = bubble_sort (\<lambda>a b. ce_created_at a > ce_created_at b)"

definition sorted_entries :: "string list \<Rightarrow> inference_cache \<Rightarrow> cache_entry list" where
  "sorted_entries ks c =
     (let entries = map snd (visit ks (ca_entries c))
      in if cc_eviction_policy (ca_config c) = ''lru'' then sort_by_last_accessed entries
         else if cc_eviction_policy (ca_config c) = ''lfu'' then sort_by_hit_count entries
         else if cc_eviction_policy (ca_config c) = ''fifo'' then sort_by_creation_time entries
         else sort_by_last_accessed entries)"

section \<open>Eviction\<close>

definition evict_entry :: "cache_entry \<Rightarrow> inference_cache \<Rightarrow> inference_cache" where
  "evict_entry e c =
     c\<lparr>ca_entries := (ca_entries c)(ce_key e := None),
       ca_stats := (ca_stats c)\<lparr>cs_total_size := cs_total_size (ca_stats c) - ce_size e,
                                cs_evictions := cs_evictions (ca_stats c) + 1\<rparr>\<rparr>"

fun evict_loop :: "int \<Rightarrow> int \<Rightarrow> cache_entry list \<Rightarrow> inference_cache \<Rightarrow> inference_cache" where
  "evict_loop wanted evicted [] c = c"
| "evict_loop wanted evicted (e # es) c =
     (if wanted \<le> evicted then c else evict_loop wanted (evicted + 1) es (evict_entry e c))"

definition evict :: "string list \<Rightarrow> int \<Rightarrow> inference_cache \<Rightarrow> inference_cache \<times> go_error option" where
  "evict ks wanted c =
     (if wanted \<le> 0 then (c, None) else (evict_loop wanted 0 (sorted_entries ks c) c, None))"

fun free_loop :: "int \<Rightarrow> int \<Rightarrow> cache_entry list \<Rightarrow> inference_cache \<Rightarrow> inference_cache" where
  "free_loop required freed [] c = c"
| "free_loop required freed (e # es) c =
     (if required \<le> freed then c else free_loop required (freed + ce_size e) es (evict_entry e c))"

definition evict_to_free :: "string list \<Rightarrow> int \<Rightarrow> inference_cache
    \<Rightarrow> inference_cache \<times> go_error option" where
  "evict_to_free ks required c = (free_loop required 0 (sorted_entries ks c) c, None)"

definition current_size :: "string list \<Rightarrow> inference_cache \<Rightarrow> int" where
  "current_size ks c = sum_list (map (\<lambda>(k, e). ce_size e) (visit ks (ca_entries c)))"

definition ensure_capacity :: "string list \<Rightarrow> string list \<Rightarrow> int \<Rightarrow> inference_cache
    \<Rightarrow> inference_cache \<times> go_error option" where
  "ensure_capacity ks ks' required c =
     (let (c, err) = (if cc_max_entries (ca_config c) \<le> int (length (visit ks (ca_entries c)))
                      then evict ks 1 c else (c, None))
      in case err of
           Some e \<Rightarrow> (c, Some e)
         | None \<Rightarrow>
             let size = current_size ks' c; limit = cc_max_size_bytes (ca_config c)
             in if limit < size + required
                then (case evict_to_free ks' (size + required - limit) c of
                        (c, Some _) \<Rightarrow> (c, Some err_cache_full)
                      | (c, None) \<Rightarrow> (c, None))
                else (c, None))"

section \<open>Operations\<close>

definition record_hit :: "time \<Rightarrow> inference_cache \<Rightarrow> inference_cache" where
  "record_hit now c = c\<lparr>ca_stats := (ca_stats c)\<lparr>cs_hits := cs_hits (ca_stats c) + 1,
     cs_updated_at := now\<rparr>\<rparr>"

definition record_miss :: "time \<Rightarrow> inference_cache \<Rightarrow> inference_cache" where
  "record_miss now c = c\<lparr>ca_stats := (ca_stats c)\<lparr>cs_misses := cs_misses (ca_stats c) + 1,
     cs_updated_at := now\<rparr>\<rparr>"

text \<open>What \<^verbatim>\<open>Get\<close> does under the lock it takes after the lookup: drop an expired entry, or note the access.\<close>

definition cache_expire :: "string \<Rightarrow> inference_cache \<Rightarrow> inference_cache" where
  "cache_expire key c = c\<lparr>ca_entries := (ca_entries c)(key := None)\<rparr>"

definition cache_touch :: "time \<Rightarrow> string \<Rightarrow> inference_cache \<Rightarrow> inference_cache" where
  "cache_touch now key c = c\<lparr>ca_entries := (ca_entries c)(key := map_option (\<lambda>e.
     e\<lparr>ce_hit_count := ce_hit_count e + 1, ce_metadata := (ce_metadata e)(''last_accessed'' \<mapsto> MetaTime now)\<rparr>)
     (ca_entries c key))\<rparr>"

definition cache_get :: "digest \<Rightarrow> time \<Rightarrow> inference_request \<Rightarrow> inference_cache
    \<Rightarrow> inference_cache \<times> (go_error + inference_response)" where
  "cache_get digest now req c =
     (if \<not> ca_enabled c then (c, Inl err_cache_miss)
      else case generate_key digest req of
        Inl e \<Rightarrow> (c, Inl e)
      | Inr key \<Rightarrow>
          let entry = ca_entries c key;
              c = c\<lparr>ca_stats := (ca_stats c)\<lparr>cs_total_requests := cs_total_requests (ca_stats c) + 1\<rparr>\<rparr>
          in case entry of
               None \<Rightarrow> (record_miss now c, Inl err_cache_miss)
             | Some e \<Rightarrow>
                 if ce_expires_at e < now
                 then let c = record_miss now (cache_expire key c)
                      in (c\<lparr>ca_stats := (ca_stats c)\<lparr>cs_expirations := cs_expirations (ca_stats c) + 1\<rparr>\<rparr>,
                          Inl err_cache_miss)
                 else (record_hit now (cache_touch now key c), Inr (ce_response e)))"

definition new_entry :: "time \<Rightarrow> string \<Rightarrow> int \<Rightarrow> duration \<Rightarrow> inference_request \<Rightarrow> inference_response
    \<Rightarrow> cache_entry" where
  "new_entry now key bytes ttl req resp =
     \<lparr>ce_key = key, ce_request_hash = key, ce_response = resp, ce_created_at = now,
      ce_expires_at = now + ttl, ce_hit_count = 0, ce_size = bytes,
      ce_metadata = [''model_id'' \<mapsto> MetaString (rq_model_id req),
                     ''request_id'' \<mapsto> MetaString (rq_id req), ''last_accessed'' \<mapsto> MetaTime now]\<rparr>"

text \<open>
  \<^verbatim>\<open>Set\<close> releases the lock between making room and storing the entry: \<open>set_prepare\<close> is its first part, which
  ends the call with its error or gives the key and the size, and \<open>set_store\<close> the second.
\<close>

definition set_prepare :: "digest \<Rightarrow> string list \<Rightarrow> string list \<Rightarrow> inference_request \<Rightarrow> inference_response \<Rightarrow> inference_cache
    \<Rightarrow> inference_cache \<times> (go_error option + string \<times> int)" where
  "set_prepare digest ks ks' req resp c =
     (if \<not> ca_enabled c then (c, Inl None)
      else case generate_key digest req of
        Inl e \<Rightarrow> (c, Inl (Some e))
      | Inr key \<Rightarrow>
          let bytes = estimate_entry_size req resp
          in case ensure_capacity ks ks' bytes c of
               (c, Some e) \<Rightarrow> (c, Inl (Some e))
             | (c, None) \<Rightarrow> (c, Inr (key, bytes)))"

definition set_store :: "time \<Rightarrow> string list \<Rightarrow> string \<Rightarrow> int \<Rightarrow> inference_request \<Rightarrow> inference_response \<Rightarrow> inference_cache
    \<Rightarrow> inference_cache" where
  "set_store now ks key bytes req resp c =
     (let entry = new_entry now key bytes (cc_default_ttl (ca_config c)) req resp;
          c = c\<lparr>ca_entries := (ca_entries c)(key \<mapsto> entry)\<rparr>
      in c\<lparr>ca_stats := (ca_stats c)
                        \<lparr>cs_entry_count := int (length (visit ks (ca_entries c))),
                         cs_total_size := cs_total_size (ca_stats c) + bytes,
                         cs_updated_at := now\<rparr>\<rparr>)"

definition cache_set :: "digest \<Rightarrow> string list \<Rightarrow> string list \<Rightarrow> time \<Rightarrow> inference_request
    \<Rightarrow> inference_response \<Rightarrow> inference_cache \<Rightarrow> inference_cache \<times> go_error option" where
  "cache_set digest ks ks' now req resp c =
     (case set_prepare digest ks ks' req resp c of
        (c, Inl e) \<Rightarrow> (c, e)
      | (c, Inr (key, bytes)) \<Rightarrow> (set_store now ks key bytes req resp c, None))"



definition cache_get_stats :: "string list \<Rightarrow> inference_cache \<Rightarrow> cache_stats" where
  "cache_get_stats ks c =
     (let stats = ca_stats c;
          stats = (if 0 < cs_total_requests stats
            then stats\<lparr>cs_hit_rate := fl (fl (of_int (cs_hits stats)) / fl (of_int (cs_total_requests stats)))\<rparr>
            else stats)
      in stats\<lparr>cs_entry_count := int (length (visit ks (ca_entries c)))\<rparr>)"

definition cache_get_entry :: "string \<Rightarrow> inference_cache \<Rightarrow> go_error + cache_entry" where
  "cache_get_entry key c =
     (case ca_entries c key of None \<Rightarrow> Inl err_cache_miss | Some e \<Rightarrow> Inr e)"

definition cache_list_entries :: "int \<Rightarrow> string list \<Rightarrow> inference_cache \<Rightarrow> cache_entry list" where
  "cache_list_entries limit ks c =
     (let entries = map snd (visit ks (ca_entries c))
      in if 0 < limit then take (nat limit) entries else entries)"


text \<open>
  \<^verbatim>\<open>Invalidate\<close> and \<^verbatim>\<open>Cleanup\<close> collect the keys of the entries they select, then delete them one by
  one; \<open>drop_keys\<close> is the second loop, with the statistics update \<open>upd\<close> of the operation.
\<close>

fun drop_keys :: "(cache_entry \<Rightarrow> cache_stats \<Rightarrow> cache_stats) \<Rightarrow> string list \<Rightarrow> inference_cache
    \<Rightarrow> inference_cache" where
  "drop_keys upd [] c = c"
| "drop_keys upd (k # ks) c =
     drop_keys upd ks
       (c\<lparr>ca_stats := (case ca_entries c k of None \<Rightarrow> ca_stats c | Some e \<Rightarrow> upd e (ca_stats c)),
          ca_entries := (ca_entries c)(k := None)\<rparr>)"


definition cache_cleanup :: "time \<Rightarrow> string list \<Rightarrow> inference_cache \<Rightarrow> inference_cache" where
  "cache_cleanup now ks c =
     (let to_delete = map fst (filter (\<lambda>(k, e). ce_expires_at e < now) (visit ks (ca_entries c)));
          c = drop_keys (\<lambda>e st. st\<lparr>cs_total_size := cs_total_size st - ce_size e,
                                   cs_expirations := cs_expirations st + 1\<rparr>) to_delete c
      in if to_delete \<noteq> [] then c\<lparr>ca_stats := (ca_stats c)\<lparr>cs_last_cleanup := now\<rparr>\<rparr> else c)"

text \<open>
  \<^verbatim>\<open>Warmup\<close>: each request comes with the result the executor function gives for it. The counters
  of the log message are left out.
\<close>

fun warmup_loop :: "digest \<Rightarrow> string list \<Rightarrow> time
    \<Rightarrow> (inference_request \<times> (go_error + inference_response)) list \<Rightarrow> inference_cache \<Rightarrow> inference_cache" where
  "warmup_loop digest ks now [] c = c"
| "warmup_loop digest ks now ((req, outcome) # reqs) c =
     (case generate_key digest req of
        Inl e \<Rightarrow> warmup_loop digest ks now reqs c
      | Inr key \<Rightarrow>
          if ca_entries c key \<noteq> None then warmup_loop digest ks now reqs c
          else case outcome of
                 Inl e \<Rightarrow> warmup_loop digest ks now reqs c
               | Inr resp \<Rightarrow>
                   warmup_loop digest ks now reqs (fst (cache_set digest ks ks now req resp c)))"

definition cache_warmup :: "digest \<Rightarrow> string list \<Rightarrow> time
    \<Rightarrow> (inference_request \<times> (go_error + inference_response)) list \<Rightarrow> inference_cache
    \<Rightarrow> inference_cache \<times> go_error option" where
  "cache_warmup digest ks now reqs c =
     (if \<not> cc_enable_warmup (ca_config c)
      then (c, Some (new_error ErrCacheDisabled ''Cache warmup is disabled''))
      else (warmup_loop digest ks now reqs c, None))"


definition run_eviction :: "time \<Rightarrow> string list \<Rightarrow> inference_cache \<Rightarrow> inference_cache" where
  "run_eviction now ks c =
     (let c = cache_cleanup now ks c;
          stats = cache_get_stats ks c
      in if f_trunc (fl (fl (of_int (cc_max_size_bytes (ca_config c))) * fl (9 / 10))) < cs_total_size stats
         then let to_evict = f_trunc (fl (fl (of_int (cs_entry_count stats)) * fl (1 / 10)))
              in if 0 < to_evict
                 then let c = fst (evict ks to_evict c)
                      in c\<lparr>ca_stats := (ca_stats c)\<lparr>cs_last_eviction := now\<rparr>\<rparr>
                 else c
         else c)"

section \<open>Sorting and eviction\<close>

text \<open>The three swap tests satisfy the contract of the bubble sort, in the direction each is written.\<close>

interpretation by_access: swap_test "\<lambda>a b. last_accessed_time a < last_accessed_time b"
  by unfold_locales auto

interpretation by_hits: swap_test "\<lambda>a b. ce_hit_count a > ce_hit_count b"
  by unfold_locales auto

interpretation by_creation: swap_test "\<lambda>a b. ce_created_at a > ce_created_at b"
  by unfold_locales auto

definition cache_wf :: "inference_cache \<Rightarrow> bool" where
  "cache_wf c \<longleftrightarrow> finite (dom (ca_entries c))
     \<and> (\<forall>k e. ca_entries c k = Some e \<longrightarrow> ce_key e = k \<and> 0 \<le> ce_size e)"

definition bytes_held :: "inference_cache \<Rightarrow> int" where
  "bytes_held c = total_of ce_size (ca_entries c)"

lemma mset_sorted_entries: "mset (sorted_entries ks c) = mset (map snd (visit ks (ca_entries c)))"
  by (simp add: sorted_entries_def sort_by_last_accessed_def sort_by_hit_count_def
      sort_by_creation_time_def Let_def)

lemma entry_keys_visit: "cache_wf c \<Longrightarrow> map ce_key (map snd (visit ks (ca_entries c))) = map fst (visit ks (ca_entries c))"
  by (auto simp: cache_wf_def set_visit)

lemma sorted_entries_facts:
  assumes "cache_wf c" "covers ks (ca_entries c)"
  shows "distinct (map ce_key (sorted_entries ks c))"
    and "e \<in> set (sorted_entries ks c) \<longleftrightarrow> ca_entries c (ce_key e) = Some e"
    and "length (sorted_entries ks c) = card (dom (ca_entries c))"
    and "set (map ce_key (sorted_entries ks c)) = dom (ca_entries c)"
proof -
  have m: "mset (map ce_key (sorted_entries ks c)) = mset (map fst (visit ks (ca_entries c)))"
    using mset_sorted_entries [of ks c] entry_keys_visit [OF assms(1), of ks]
    by (metis mset_map)
  then show "distinct (map ce_key (sorted_entries ks c))"
    using visit_keys_dom [OF assms(2)] by (metis mset_eq_imp_distinct_iff)
  show "length (sorted_entries ks c) = card (dom (ca_entries c))"
    using length_visit [OF assms(2)] mset_sorted_entries [of ks c]
    by (metis size_mset length_map)
  have "set (sorted_entries ks c) = set (map snd (visit ks (ca_entries c)))"
    using mset_sorted_entries by (metis set_mset_mset)
  then have "e \<in> set (sorted_entries ks c) \<longleftrightarrow> (\<exists>k. (k, e) \<in> set (visit ks (ca_entries c)))"
    by force
  then have "e \<in> set (sorted_entries ks c) \<longleftrightarrow> (\<exists>k. ca_entries c k = Some e)"
    by (simp add: in_visit [OF assms(2)])
  then show "e \<in> set (sorted_entries ks c) \<longleftrightarrow> ca_entries c (ce_key e) = Some e"
    using assms(1) by (metis cache_wf_def)
  show "set (map ce_key (sorted_entries ks c)) = dom (ca_entries c)"
    using m visit_keys_dom [OF assms(2)] by (metis set_mset_mset list.set_map)
qed

lemma evict_entry_simps [simp]:
  "ca_entries (evict_entry e c) = (ca_entries c)(ce_key e := None)"
  "ca_config (evict_entry e c) = ca_config c" "ca_enabled (evict_entry e c) = ca_enabled c"
  "cs_total_size (ca_stats (evict_entry e c)) = cs_total_size (ca_stats c) - ce_size e"
  by (simp_all add: evict_entry_def)

lemma evict_loop_frame [simp]:
  "ca_config (evict_loop n k es c) = ca_config c" "ca_enabled (evict_loop n k es c) = ca_enabled c"
  by (induction n k es c rule: evict_loop.induct) auto

lemma free_loop_frame [simp]:
  "ca_config (free_loop n k es c) = ca_config c" "ca_enabled (free_loop n k es c) = ca_enabled c"
  by (induction n k es c rule: free_loop.induct) auto

lemma evict_loop_entries:
  "ca_entries (evict_loop n k es c) = del_keys (map ce_key (take (nat (n - k)) es)) (ca_entries c)"
proof (induction n k es c rule: evict_loop.induct)
  case (2 n k e es c)
  show ?case
  proof (cases "n \<le> k")
    case False
    then have "nat (n - k) = Suc (nat (n - (k + 1)))" by simp
    with 2 False show ?thesis by (simp del: fun_upd_apply)
  qed simp
qed simp

lemma free_loop_entries:
  "\<exists>m \<le> length es. ca_entries (free_loop r f es c) = del_keys (map ce_key (take m es)) (ca_entries c)
     \<and> (m = length es \<or> r \<le> f + sum_list (map ce_size (take m es)))"
proof (induction r f es c rule: free_loop.induct)
  case (2 r f e es c)
  show ?case
  proof (cases "r \<le> f")
    case False
    with 2 obtain m where "m \<le> length es"
      "ca_entries (free_loop r (f + ce_size e) es (evict_entry e c))
        = del_keys (map ce_key (take m es)) ((ca_entries c)(ce_key e := None))"
      "m = length es \<or> r \<le> f + ce_size e + sum_list (map ce_size (take m es))"
      unfolding evict_entry_simps by blast
    with False show ?thesis
      by (intro exI [of _ "Suc m"]) (simp add: add.assoc del: fun_upd_apply)
  qed (auto intro: exI [of _ 0])
qed simp

lemma total_of_del_entries:
  assumes "finite (dom m)" "distinct (map ce_key es)" "\<forall>e\<in>set es. m (ce_key e) = Some e"
  shows "total_of ce_size (del_keys (map ce_key es) m) = total_of ce_size m - sum_list (map ce_size es)"
  using assms
proof (induction es arbitrary: m)
  case (Cons e es)
  have "total_of ce_size (del_keys (map ce_key es) (m(ce_key e := None)))
      = total_of ce_size (m(ce_key e := None)) - sum_list (map ce_size es)"
  proof (rule Cons.IH)
    show "finite (dom (m(ce_key e := None)))" "distinct (map ce_key es)"
      using Cons.prems(1,2) by simp_all
    show "\<forall>e'\<in>set es. (m(ce_key e := None)) (ce_key e') = Some e'"
    proof
      fix e' assume "e' \<in> set es"
      then have "ce_key e' \<noteq> ce_key e" "m (ce_key e') = Some e'"
        using Cons.prems(2,3) by (auto simp: image_iff)
      then show "(m(ce_key e := None)) (ce_key e') = Some e'" by simp
    qed
  qed
  moreover have "total_of ce_size (m(ce_key e := None)) = total_of ce_size m - ce_size e"
    using total_of_del [OF Cons.prems(1)] Cons.prems(3) by simp
  ultimately show ?case by simp
qed simp

lemma cache_wf_del_keys:
  "cache_wf c \<Longrightarrow> ca_entries c' = del_keys ks (ca_entries c) \<Longrightarrow> cache_wf c'"
  by (auto simp: cache_wf_def del_keys_apply dom_del_keys split: if_splits)

text \<open>
  Evicting a prefix of the sorted entries: what is gone is exactly the prefix, what stays the rest.
\<close>

lemma evict_prefix:
  assumes "cache_wf c" "covers ks (ca_entries c)"
    and "ca_entries c' = del_keys (map ce_key (take m (sorted_entries ks c))) (ca_entries c)"
  shows "cache_wf c'"
    and "ca_entries c k = Some e \<Longrightarrow> ca_entries c' k = None \<Longrightarrow> e \<in> set (take m (sorted_entries ks c))"
    and "ca_entries c' k = Some e \<Longrightarrow> e \<in> set (drop m (sorted_entries ks c))"
    and "card (dom (ca_entries c')) = card (dom (ca_entries c)) - m"
    and "bytes_held c' = bytes_held c - sum_list (map ce_size (take m (sorted_entries ks c)))"
proof -
  let ?es = "sorted_entries ks c"
  note facts = sorted_entries_facts [OF assms(1,2)]
  show "cache_wf c'" by (rule cache_wf_del_keys [OF assms(1,3)])
  have key: "k = ce_key e" if "ca_entries c k = Some e" for k e
    using that assms(1) by (auto simp: cache_wf_def)
  have mem: "e \<in> set ?es" if "ca_entries c k = Some e" for k e
  proof -
    from that key [OF that] have "ca_entries c (ce_key e) = Some e" by simp
    with facts(2) show ?thesis by blast
  qed
  have dk: "distinct (map ce_key (take m ?es))"
    using facts(1) by (metis take_map distinct_take)
  show "e \<in> set (take m ?es)" if "ca_entries c k = Some e" "ca_entries c' k = None"
  proof -
    from that assms(3) obtain e' where "e' \<in> set (take m ?es)" "ce_key e' = k"
      by (auto simp: del_keys_apply split: if_splits)
    with facts(2) that show ?thesis by (metis in_set_takeD option.inject)
  qed
  show "e \<in> set (drop m ?es)" if "ca_entries c' k = Some e"
  proof -
    from that assms(3) have "ca_entries c k = Some e" "k \<notin> ce_key ` set (take m ?es)"
      by (auto simp: del_keys_apply split: if_splits)
    then have "e \<in> set ?es" "e \<notin> set (take m ?es)" using mem key by (metis, blast)
    moreover have "set ?es = set (take m ?es) \<union> set (drop m ?es)"
      by (metis append_take_drop_id set_append)
    ultimately show ?thesis by blast
  qed
  have "dom (ca_entries c') = dom (ca_entries c) - set (map ce_key (take m ?es))"
    using assms(3) by (simp add: dom_del_keys)
  moreover have "set (map ce_key (take m ?es)) \<subseteq> dom (ca_entries c)"
    using facts(4) image_mono [OF set_take_subset [of m ?es], of ce_key] by simp
  moreover have "card (set (map ce_key (take m ?es))) = min (card (dom (ca_entries c))) m"
    using distinct_card [OF dk] facts(3) by simp
  ultimately show "card (dom (ca_entries c')) = card (dom (ca_entries c)) - m"
    by (simp add: card_Diff_subset)
  have "\<forall>e\<in>set (take m ?es). ca_entries c (ce_key e) = Some e"
    using facts(2) by (meson in_set_takeD)
  with assms dk show "bytes_held c' = bytes_held c - sum_list (map ce_size (take m ?es))"
    by (simp add: bytes_held_def total_of_del_entries cache_wf_def)
qed

lemma sorted_wrt_take_drop:
  "sorted_wrt P xs \<Longrightarrow> x \<in> set (take m xs) \<Longrightarrow> y \<in> set (drop m xs) \<Longrightarrow> P x y"
  by (metis append_take_drop_id sorted_wrt_append)

lemma evict_entries:
  "evict ks n c = (c', err) \<Longrightarrow> ca_entries c' =
     del_keys (map ce_key (take (nat n) (sorted_entries ks c))) (ca_entries c)
   \<and> ca_config c' = ca_config c \<and> ca_enabled c' = ca_enabled c \<and> err = None"
  by (auto simp: evict_def evict_loop_entries split: if_splits)

text \<open>The eviction policies \<^verbatim>\<open>fifo\<close> and \<^verbatim>\<open>lfu\<close>. Evicting \<open>n\<close> entries of a well-formed cache removes
  exactly \<open>n\<close> of them (all, if there are fewer), and each evicted entry was created no later (under
  \<^verbatim>\<open>fifo\<close>), or hit no more often (under \<^verbatim>\<open>lfu\<close>), than every entry that stays.\<close>

theorem eviction_follows_policy:
  assumes "cache_wf c" "covers ks (ca_entries c)" "evict ks n c = (c', err)"
    and "cc_eviction_policy (ca_config c) \<in> {''fifo'', ''lfu''}"
  shows "card (dom (ca_entries c')) = card (dom (ca_entries c)) - nat n
    \<and> (\<forall>k e k' e'. ca_entries c k = Some e \<longrightarrow> ca_entries c' k = None \<longrightarrow> ca_entries c' k' = Some e' \<longrightarrow>
        (if cc_eviction_policy (ca_config c) = ''fifo'' then ce_created_at e \<le> ce_created_at e'
         else ce_hit_count e \<le> ce_hit_count e'))"
proof -
  let ?le = "\<lambda>e e'. if cc_eviction_policy (ca_config c) = ''fifo'' then ce_created_at e \<le> ce_created_at e'
         else ce_hit_count e \<le> ce_hit_count e'"
  have "ca_entries c' = del_keys (map ce_key (take (nat n) (sorted_entries ks c))) (ca_entries c)"
    using evict_entries [OF assms(3)] by simp
  note p = evict_prefix [OF assms(1,2) this]
  have sorted: "sorted_wrt ?le (sorted_entries ks c)"
  proof (cases "cc_eviction_policy (ca_config c) = ''fifo''")
    case True
    then show ?thesis
      using by_creation.bubble_sort_sorted [of "map snd (visit ks (ca_entries c))"]
      by (simp add: sorted_entries_def sort_by_creation_time_def not_less)
  next
    case False
    with assms(4) show ?thesis
      using by_hits.bubble_sort_sorted [of "map snd (visit ks (ca_entries c))"]
      by (simp add: sorted_entries_def sort_by_hit_count_def not_less)
  qed
  show ?thesis
  proof (intro conjI allI impI)
    show "card (dom (ca_entries c')) = card (dom (ca_entries c)) - nat n" by (rule p(4))
    fix k e k' e'
    assume "ca_entries c k = Some e" "ca_entries c' k = None" "ca_entries c' k' = Some e'"
    then show "?le e e'" using sorted_wrt_take_drop [OF sorted p(2) p(3)] by blast
  qed
qed

text \<open>The policy \<^verbatim>\<open>lru\<close>, which is also the default: the code sorts by last access with the newest
  first, so each entry it evicts was used no earlier than every entry that stays.\<close>

theorem lru_evicts_most_recently_used:
  assumes "cache_wf c" "covers ks (ca_entries c)" "evict ks n c = (c', err)"
    and "cc_eviction_policy (ca_config c) \<notin> {''lfu'', ''fifo''}"
    and "ca_entries c k = Some e" "ca_entries c' k = None" "ca_entries c' k' = Some e'"
  shows "last_accessed_time e' \<le> last_accessed_time e"
proof -
  have "ca_entries c' = del_keys (map ce_key (take (nat n) (sorted_entries ks c))) (ca_entries c)"
    using evict_entries [OF assms(3)] by simp
  note p = evict_prefix [OF assms(1,2) this]
  have "sorted_wrt (\<lambda>a b. \<not> last_accessed_time a < last_accessed_time b) (sorted_entries ks c)"
    using assms(4) by_access.bubble_sort_sorted
    by (simp add: sorted_entries_def sort_by_last_accessed_def Let_def)
  from sorted_wrt_take_drop [OF this p(2) [OF assms(5,6)] p(3) [OF assms(7)]] show ?thesis by simp
qed

section \<open>Capacity\<close>

lemma evict_loop_wf: "cache_wf c \<Longrightarrow> cache_wf (evict_loop n k es c)"
  by (rule cache_wf_del_keys [OF _ evict_loop_entries])

lemma current_size_eq: "covers ks (ca_entries c) \<Longrightarrow> current_size ks c = bytes_held c"
  by (simp add: current_size_def bytes_held_def sum_list_visit_total)

text \<open>
  After \<^verbatim>\<open>ensureCapacity\<close> there is room: an entry less than before, or than the maximum, and enough bytes; for a
  response larger than the whole cache it empties the cache. It never reports an error.
\<close>

lemma ensure_capacity_room:
  assumes wf: "cache_wf c" and ks: "covers ks (ca_entries c)" "covers ks' (ca_entries c)"
    and res: "ensure_capacity ks ks' required c = (c', err)" and req: "0 \<le> required"
  shows "err = None \<and> cache_wf c' \<and> ca_config c' = ca_config c \<and> ca_enabled c' = ca_enabled c
    \<and> dom (ca_entries c') \<subseteq> dom (ca_entries c)
    \<and> (0 < cc_max_entries (ca_config c) \<longrightarrow>
        int (card (dom (ca_entries c'))) + 1 \<le> max (int (card (dom (ca_entries c)))) (cc_max_entries (ca_config c)))
    \<and> bytes_held c' + required \<le> max (cc_max_size_bytes (ca_config c)) required"
proof -
  let ?max = "cc_max_entries (ca_config c)" and ?limit = "cc_max_size_bytes (ca_config c)"
  define c1 where "c1 = (if ?max \<le> int (length (visit ks (ca_entries c))) then fst (evict ks 1 c) else c)"
  have ev: "ca_entries (fst (evict ks 1 c)) = del_keys (map ce_key (take 1 (sorted_entries ks c))) (ca_entries c)
      \<and> ca_config (fst (evict ks 1 c)) = ca_config c \<and> ca_enabled (fst (evict ks 1 c)) = ca_enabled c
      \<and> snd (evict ks 1 c) = None"
    using evict_entries [of ks 1 c "fst (evict ks 1 c)" "snd (evict ks 1 c)"] by simp
  note p1 = evict_prefix [OF wf ks(1) conjunct1 [OF ev]]
  have c1: "cache_wf c1" "ca_config c1 = ca_config c" "ca_enabled c1 = ca_enabled c"
      "dom (ca_entries c1) \<subseteq> dom (ca_entries c)"
    using p1(1) ev wf by (auto simp: c1_def dom_del_keys)
  have room1: "int (card (dom (ca_entries c1))) + 1 \<le> max (int (card (dom (ca_entries c)))) ?max" if "0 < ?max"
    using that p1(4) by (auto simp: c1_def length_visit [OF ks(1)])
  have ks1: "covers ks' (ca_entries c1)" using ks(2) c1(4) by (rule covers_mono)
  define c2 where "c2 = free_loop (bytes_held c1 + required - ?limit) 0 (sorted_entries ks' c1) c1"
  obtain m where m: "ca_entries c2 = del_keys (map ce_key (take m (sorted_entries ks' c1))) (ca_entries c1)"
      "m = length (sorted_entries ks' c1)
       \<or> bytes_held c1 + required - ?limit \<le> sum_list (map ce_size (take m (sorted_entries ks' c1)))"
    using free_loop_entries [where r = "bytes_held c1 + required - ?limit" and f = 0
        and es = "sorted_entries ks' c1" and c = c1]
    unfolding c2_def by auto
  note p2 = evict_prefix [OF c1(1) ks1 m(1)]
  have c2: "cache_wf c2" "ca_config c2 = ca_config c" "ca_enabled c2 = ca_enabled c"
      "dom (ca_entries c2) \<subseteq> dom (ca_entries c1)" "card (dom (ca_entries c2)) \<le> card (dom (ca_entries c1))"
    using p2(1,4) c1(2,3) m(1) by (auto simp: c2_def dom_del_keys)
  have bytes2: "bytes_held c2 + required \<le> max ?limit required"
    using m(2)
  proof
    assume "m = length (sorted_entries ks' c1)"
    then have "dom (ca_entries c2) = {}"
      using m(1) sorted_entries_facts(4) [OF c1(1) ks1] by (simp add: dom_del_keys)
    then have "bytes_held c2 = 0" by (simp add: bytes_held_def total_of_def)
    then show ?thesis by simp
  qed (use p2(5) in simp)
  have "(if ?max \<le> int (length (visit ks (ca_entries c))) then evict ks 1 c else (c, None)) = (c1, None)"
    using ev by (simp add: c1_def prod_eq_iff)
  then have "ensure_capacity ks ks' required c
      = (if ?limit < bytes_held c1 + required then (c2, None) else (c1, None))"
    by (simp add: ensure_capacity_def Let_def current_size_eq [OF ks1] c1(2) evict_to_free_def c2_def)
  with res have "(c', err) = (if ?limit < bytes_held c1 + required then (c2, None) else (c1, None))"
    by simp
  then show ?thesis
    using c1 c2 room1 bytes2 order_trans [OF c2(4) c1(4)] by (auto simp del: domIff split: if_splits)
qed

text \<open>What \<^verbatim>\<open>Set\<close> does once there is room: the entry is stored and its size added to the total.\<close>

lemma cache_set_result:
  assumes "cache_wf c" "covers ks (ca_entries c)" "covers ks' (ca_entries c)" "ca_enabled c"
    and "generate_key digest req = Inr key" "0 \<le> estimate_entry_size req resp"
    and "cache_set digest ks ks' now req resp c = (c', err)"
  obtains c1 where "ensure_capacity ks ks' (estimate_entry_size req resp) c = (c1, None)" "err = None"
    "ca_entries c' = (ca_entries c1)(key \<mapsto> new_entry now key (estimate_entry_size req resp)
        (cc_default_ttl (ca_config c)) req resp)"
    "ca_config c' = ca_config c" "ca_enabled c'"
    "cs_total_size (ca_stats c') = cs_total_size (ca_stats c1) + estimate_entry_size req resp"
proof -
  obtain c1 e where ec: "ensure_capacity ks ks' (estimate_entry_size req resp) c = (c1, e)"
    by fastforce
  from ensure_capacity_room [OF assms(1-3) ec assms(6)] have "e = None" "ca_config c1 = ca_config c"
      "ca_enabled c1 = ca_enabled c" by auto
  with assms ec show thesis by (intro that [of c1]) (auto simp: cache_set_def set_prepare_def set_store_def Let_def)
qed

lemma new_entry_simps [simp]:
  "ce_key (new_entry now key n ttl req resp) = key" "ce_size (new_entry now key n ttl req resp) = n"
  "ce_expires_at (new_entry now key n ttl req resp) = now + ttl"
  "ce_response (new_entry now key n ttl req resp) = resp"
  by (simp_all add: new_entry_def)

text \<open>An operation that keeps or shrinks what is stored keeps what is held within its bounds.\<close>

definition shrinks :: "inference_cache \<Rightarrow> inference_cache \<Rightarrow> bool" where
  "shrinks c c' \<longleftrightarrow> ca_config c' = ca_config c \<and> (\<forall>k e'. ca_entries c' k = Some e' \<longrightarrow>
      (\<exists>e. ca_entries c k = Some e \<and> ce_key e' = ce_key e \<and> ce_size e' = ce_size e))"


lemma shrinks_refl [simp]: "shrinks c c"
  by (simp add: shrinks_def)

lemma shrinks_trans: "shrinks c c' \<Longrightarrow> shrinks c' c'' \<Longrightarrow> shrinks c c''"
  by (fastforce simp: shrinks_def)

lemma shrinks_stats [simp]: "shrinks c (c'\<lparr>ca_stats := st\<rparr>) = shrinks c c'"
  by (simp add: shrinks_def)





lemma drop_keys_entries [simp]:
  "ca_entries (drop_keys upd ks c) = del_keys ks (ca_entries c)"
  "ca_config (drop_keys upd ks c) = ca_config c"
  by (induction ks arbitrary: c) (simp_all del: fun_upd_apply)





















section \<open>Lookup after insertion, and the size counter\<close>

text \<open>Lookup after insertion. If \<^verbatim>\<open>Set\<close> runs on an enabled cache with a computable key, it reports no
  error, and a \<^verbatim>\<open>Get\<close> of any request with the same key, until the entry's time to live is over,
  returns the stored response.\<close>

theorem set_then_get:
  assumes "cache_wf c" "covers ks (ca_entries c)" "covers ks' (ca_entries c)" "ca_enabled c"
    and "generate_key digest req = Inr key" "generate_key digest req' = Inr key"
    and "0 \<le> estimate_entry_size req resp" "now' \<le> now + cc_default_ttl (ca_config c)"
    and "cache_set digest ks ks' now req resp c = (c', err)"
  shows "err = None \<and> snd (cache_get digest now' req' c') = Inr resp"
proof (rule cache_set_result [OF assms(1-5,7,9)])
  fix c1
  assume "err = None" and
    "ca_entries c' = (ca_entries c1)(key \<mapsto> new_entry now key (estimate_entry_size req resp)
       (cc_default_ttl (ca_config c)) req resp)" and "ca_enabled c'"
  then show ?thesis using assms(6,8) by (simp add: cache_get_def Let_def)
qed

text \<open>The size counter. When \<^verbatim>\<open>Set\<close> stores over a live entry without having to evict, the counter
  \<^verbatim>\<open>TotalSize\<close> drifts away from the bytes held by the size of the entry it replaced.\<close>

theorem set_over_entry_drifts:
  assumes "cache_wf c" "covers ks (ca_entries c)" "covers ks' (ca_entries c)" "ca_enabled c"
    and "generate_key digest req = Inr key" "ca_entries c key = Some old"
    and "0 \<le> estimate_entry_size req resp"
    and "int (card (dom (ca_entries c))) < cc_max_entries (ca_config c)"
      "bytes_held c + estimate_entry_size req resp \<le> cc_max_size_bytes (ca_config c)"
    and "cache_set digest ks ks' now req resp c = (c', err)"
  shows "cs_total_size (ca_stats c') - bytes_held c'
    = cs_total_size (ca_stats c) - bytes_held c + ce_size old"
proof -
  let ?n = "estimate_entry_size req resp"
  have "ensure_capacity ks ks' ?n c = (c, None)"
    using assms(8,9) by (simp add: ensure_capacity_def length_visit [OF assms(2)]
        current_size_eq [OF assms(3)] Let_def)
  then have st: "ca_entries c' = (ca_entries c)(key \<mapsto> new_entry now key ?n
       (cc_default_ttl (ca_config c)) req resp)" "cs_total_size (ca_stats c') = cs_total_size (ca_stats c) + ?n"
    using cache_set_result [OF assms(1-5,7,10)] by (metis prod.inject)+
  have "finite (dom (ca_entries c))" using assms(1) by (simp add: cache_wf_def)
  from total_of_upd [OF this] assms(6) have "bytes_held c' = bytes_held c - ce_size old + ?n"
    by (simp add: bytes_held_def st(1))
  with st(2) show ?thesis by simp
qed

section \<open>Witnesses\<close>

text \<open>A cache with two entries: \<^verbatim>\<open>a\<close>, the older one, was used last and hit more often.\<close>

definition sample_entry :: "string \<Rightarrow> time \<Rightarrow> time \<Rightarrow> int \<Rightarrow> cache_entry" where
  "sample_entry key created accessed hits =
     \<lparr>ce_key = key, ce_request_hash = key, ce_response = sample_response key,
      ce_created_at = created, ce_expires_at = created + hour, ce_hit_count = hits, ce_size = 1000,
      ce_metadata = [''model_id'' \<mapsto> MetaString ''m'', ''last_accessed'' \<mapsto> MetaTime accessed]\<rparr>"

definition sample_cache :: "string \<Rightarrow> inference_cache" where
  "sample_cache policy =
     (new_inference_cache 0 (Some (default_cache_config\<lparr>cc_eviction_policy := policy\<rparr>)))
       \<lparr>ca_entries := [''a'' \<mapsto> sample_entry ''a'' 1 9 3, ''b'' \<mapsto> sample_entry ''b'' 2 5 1]\<rparr>"

lemma sample_cache_facts:
  "ca_entries (sample_cache policy) = [''a'' \<mapsto> sample_entry ''a'' 1 9 3, ''b'' \<mapsto> sample_entry ''b'' 2 5 1]"
  "ca_config (sample_cache policy) = default_cache_config\<lparr>cc_eviction_policy := policy\<rparr>"
  "ca_enabled (sample_cache policy)" "cache_wf (sample_cache policy)"
  "covers [''a'', ''b''] (ca_entries (sample_cache policy))"
  by (auto simp: sample_cache_def new_inference_cache_def default_cache_config_def cache_wf_def covers_def
      sample_entry_def split: if_splits)

lemma sample_sorted:
  "sorted_entries [''a'', ''b''] (sample_cache ''lru'') = [sample_entry ''a'' 1 9 3, sample_entry ''b'' 2 5 1]"
  "sorted_entries [''a'', ''b''] (sample_cache ''fifo'') = [sample_entry ''a'' 1 9 3, sample_entry ''b'' 2 5 1]"
  "sorted_entries [''a'', ''b''] (sample_cache ''lfu'') = [sample_entry ''b'' 2 5 1, sample_entry ''a'' 1 9 3]"
  by (simp_all add: sorted_entries_def sample_cache_facts sort_by_last_accessed_def
      sort_by_creation_time_def sort_by_hit_count_def bubble_sort_def last_accessed_time_def
      sample_entry_def default_cache_config_def)

theorem eviction_follows_policy_witness:
  "card (dom (ca_entries (fst (evict [''a'', ''b''] 1 (sample_cache ''lfu''))))) = 1
   \<and> ca_entries (fst (evict [''a'', ''b''] 1 (sample_cache ''lfu''))) ''b'' = None
   \<and> ce_hit_count (sample_entry ''b'' 2 5 1) \<le> ce_hit_count (sample_entry ''a'' 1 9 3)"
proof -
  let ?c = "sample_cache ''lfu''"
  have p: "cc_eviction_policy (ca_config ?c) \<in> {''fifo'', ''lfu''}"
    by (simp add: sample_cache_facts)
  have "ca_entries (fst (evict [''a'', ''b''] 1 ?c)) ''b'' = None"
    "ca_entries (fst (evict [''a'', ''b''] 1 ?c)) ''a'' = Some (sample_entry ''a'' 1 9 3)"
    "ca_entries ?c ''b'' = Some (sample_entry ''b'' 2 5 1)"
    by (simp_all add: evict_def evict_loop_entries sample_sorted sample_cache_facts)
      (simp_all add: sample_entry_def)
  moreover note t = eviction_follows_policy [OF sample_cache_facts(4,5) prod.collapse [symmetric] p,
      where n = 1]
  moreover have "card (dom (ca_entries ?c)) = 2" by (simp add: sample_cache_facts)
  moreover have "cc_eviction_policy (ca_config ?c) \<noteq> ''fifo''" by (simp add: sample_cache_facts)
  ultimately show ?thesis by fastforce
qed

theorem lru_evicts_most_recently_used_witness:
  "last_accessed_time (sample_entry ''b'' 2 5 1) \<le> last_accessed_time (sample_entry ''a'' 1 9 3)
   \<and> ca_entries (fst (evict [''a'', ''b''] 1 (sample_cache ''lru''))) ''a'' = None"
proof -
  let ?c = "sample_cache ''lru''"
  have p: "cc_eviction_policy (ca_config ?c) \<notin> {''lfu'', ''fifo''}"
    by (simp add: sample_cache_facts)
  have e: "ca_entries (fst (evict [''a'', ''b''] 1 ?c)) ''a'' = None"
    "ca_entries (fst (evict [''a'', ''b''] 1 ?c)) ''b'' = Some (sample_entry ''b'' 2 5 1)"
    "ca_entries ?c ''a'' = Some (sample_entry ''a'' 1 9 3)"
    by (simp_all add: evict_def evict_loop_entries sample_sorted sample_cache_facts)
      (simp_all add: sample_entry_def)
  from lru_evicts_most_recently_used [OF sample_cache_facts(4,5) prod.collapse [symmetric] p e(3,1,2)] e
  show ?thesis by simp
qed

definition sample_digest :: digest where
  "sample_digest kd = Inr (kd_model_id kd)"

lemma sample_key: "generate_key sample_digest (sample_request i) = Inr ''m''"
  by (simp add: generate_key_def sample_digest_def key_data_of_def sample_request_def)

lemma sample_size: "estimate_entry_size (sample_request i) (sample_response j) = 1024"
  by (simp add: estimate_entry_size_def sample_request_def sample_response_def i64_small)




theorem set_then_get_witness:
  "snd (cache_get sample_digest 9 (sample_request ''2'') (fst (cache_set sample_digest [''a'', ''b'']
      [''a'', ''b''] 7 (sample_request ''1'') (sample_response ''1'') (sample_cache ''lru''))))
   = Inr (sample_response ''1'')"
  using set_then_get [OF sample_cache_facts(4,5,5,3) sample_key sample_key _ _ prod.collapse [symmetric],
      where resp = "sample_response ''1''" and now = 7 and now' = 9]
  by (simp add: sample_size sample_cache_facts default_cache_config_def)

theorem set_over_entry_drifts_witness:
  "(let result = fst (cache_set (\<lambda>_. Inr ''a'') [''a'', ''b''] [''a'', ''b''] 7 (sample_request ''1'')
      (sample_response ''1'') (sample_cache ''lru''))
    in cs_total_size (ca_stats result) - bytes_held result
    = cs_total_size (ca_stats (sample_cache ''lru'')) - bytes_held (sample_cache ''lru'') + 1000)"
proof -
  have g: "generate_key (\<lambda>_. Inr ''a'') (sample_request ''1'') = Inr ''a''"
    by (simp add: generate_key_def)
  have e: "ca_entries (sample_cache ''lru'') ''a'' = Some (sample_entry ''a'' 1 9 3)"
    by (simp add: sample_cache_facts)
  have "bytes_held (sample_cache ''lru'') = 2000"
    by (simp add: bytes_held_def sample_cache_facts total_of_def sample_entry_def)
  then show ?thesis
    using set_over_entry_drifts [OF sample_cache_facts(4,5,5,3) g e _ _ _ prod.collapse [symmetric],
        where resp = "sample_response ''1''" and now = 7]
    by (simp add: Let_def sample_size sample_cache_facts default_cache_config_def sample_entry_def)
qed

end
