(* ===== verification/Memory.thy ===== *)
theory Memory
  imports InferenceTypes
begin

text \<open>
  The host memory manager of \<^verbatim>\<open>inference/memory.go\<close>: direct and pooled allocations, the reservation
  counter the scheduler uses, statistics, defragmentation, garbage-collection ticks. Identifiers that
  \<^verbatim>\<open>generateID\<close> builds from the clock are arguments. A mutex of Go is not re-entrant: a call that
  locks a mutex its caller already holds never returns, which is the value \<open>None\<close> of \<open>with_lock\<close>.
\<close>

section \<open>State\<close>

record memory_config =
  mc_total_memory_bytes :: int
  mc_max_memory_usage :: rat
  mc_reserved_memory_bytes :: int
  mc_pool_size_bytes :: int
  mc_enable_pooling :: bool
  mc_gc_interval :: duration
  mc_gc_threshold :: rat
  mc_enable_optimization :: bool

record memory_block =
  mb_id :: string
  mb_size :: int
  mb_in_use :: bool
  mb_allocated_at :: time

record memory_pool =
  mp_id :: string
  mp_size :: int
  mp_used :: int
  mp_available :: int
  mp_blocks :: "memory_block list"
  mp_created_at :: time

record memory_allocation =
  ma_id :: string
  ma_instance_id :: string
  ma_size :: int
  ma_pool_id :: string
  ma_allocated_at :: time

record memory_stats =
  ms_total_memory :: int
  ms_used_memory :: int
  ms_free_memory :: int
  ms_reserved_memory :: int
  ms_available_memory :: int
  ms_usage_percent :: rat
  ms_pool_count :: int
  ms_active_allocations :: int
  ms_total_allocations :: int
  ms_total_frees :: int
  ms_gc_runs :: int
  ms_last_gc_run :: time
  ms_peak_usage :: int
  ms_updated_at :: time

record memory_manager =
  mm_total_memory :: int
  mm_used_memory :: int
  mm_reserved_memory :: int
  mm_pools :: "string \<rightharpoonup> memory_pool"
  mm_allocations :: "string \<rightharpoonup> memory_allocation"
  mm_config :: memory_config
  mm_stats :: memory_stats

definition new_memory_manager :: "time \<Rightarrow> int \<Rightarrow> memory_manager" where
  "new_memory_manager now sys_mem =
     (let config = \<lparr>mc_total_memory_bytes = i64 sys_mem, mc_max_memory_usage = fl (8 / 10),
            mc_reserved_memory_bytes = 512 * 1024 * 1024, mc_pool_size_bytes = 256 * 1024 * 1024,
            mc_enable_pooling = True, mc_gc_interval = 30 * second, mc_gc_threshold = 3 / 4,
            mc_enable_optimization = True\<rparr>
      in \<lparr>mm_total_memory = mc_total_memory_bytes config, mm_used_memory = 0,
          mm_reserved_memory = mc_reserved_memory_bytes config, mm_pools = Map.empty,
          mm_allocations = Map.empty, mm_config = config,
          mm_stats = \<lparr>ms_total_memory = mc_total_memory_bytes config, ms_used_memory = 0,
            ms_free_memory = 0, ms_reserved_memory = mc_reserved_memory_bytes config,
            ms_available_memory = 0, ms_usage_percent = 0, ms_pool_count = 0,
            ms_active_allocations = 0, ms_total_allocations = 0, ms_total_frees = 0, ms_gc_runs = 0,
            ms_last_gc_run = time_zero, ms_peak_usage = 0, ms_updated_at = now\<rparr>\<rparr>)"

definition max_usable :: "memory_manager \<Rightarrow> int" where
  "max_usable mm = f_trunc (fl (fl (of_int (mm_total_memory mm)) * mc_max_memory_usage (mm_config mm)))"

definition available_memory :: "memory_manager \<Rightarrow> int" where
  "available_memory mm =
     (let available = max_usable mm - mm_used_memory mm - mm_reserved_memory mm
      in if available < 0 then 0 else available)"

text \<open>\<^verbatim>\<open>updateStats\<close>; \<open>ks\<close> lists the allocations, whose number it records.\<close>

definition update_stats :: "string list \<Rightarrow> time \<Rightarrow> memory_manager \<Rightarrow> memory_manager" where
  "update_stats ks now mm =
     (let st = mm_stats mm; used = mm_used_memory mm; total = mm_total_memory mm
      in mm\<lparr>mm_stats := st\<lparr>ms_used_memory := used, ms_free_memory := total - used,
           ms_available_memory := available_memory mm,
           ms_usage_percent := (if 0 < total
             then fl (fl (fl (of_int used) / fl (of_int total)) * 100) else ms_usage_percent st),
           ms_peak_usage := (if ms_peak_usage st < used then used else ms_peak_usage st),
           ms_active_allocations := int (length (visit ks (mm_allocations mm))),
           ms_total_allocations := ms_total_allocations st + 1, ms_updated_at := now\<rparr>\<rparr>)"

section \<open>Allocation and release\<close>

text \<open>
  \<^verbatim>\<open>findOrCreateBlock\<close> followed by the marking of the block in \<^verbatim>\<open>allocateFromPool\<close>: the first free
  block that is large enough, or else a new one at the end of the slice. The result is the pool and
  the size of the block taken.
\<close>

fun take_free_block :: "time \<Rightarrow> int \<Rightarrow> memory_block list \<Rightarrow> (memory_block list \<times> int) option" where
  "take_free_block now bytes [] = None"
| "take_free_block now bytes (b # bs) =
     (if \<not> mb_in_use b \<and> bytes \<le> mb_size b
      then Some (b\<lparr>mb_in_use := True, mb_allocated_at := now\<rparr> # bs, mb_size b)
      else map_option (\<lambda>(bs', n). (b # bs', n)) (take_free_block now bytes bs))"

definition pool_allocate :: "time \<Rightarrow> string \<Rightarrow> int \<Rightarrow> memory_pool \<Rightarrow> (memory_pool \<times> int) option" where
  "pool_allocate now blk_id bytes pool =
     (if bytes \<le> mp_available pool
      then let (blocks, n) = (case take_free_block now bytes (mp_blocks pool) of
                 Some r \<Rightarrow> r
               | None \<Rightarrow> (mp_blocks pool @ [\<lparr>mb_id = blk_id, mb_size = bytes, mb_in_use = True,
                                            mb_allocated_at = now\<rparr>], bytes))
           in Some (pool\<lparr>mp_blocks := blocks, mp_used := mp_used pool + n,
                         mp_available := mp_available pool - n\<rparr>, n)
      else None)"

fun allocate_from_pools :: "time \<Rightarrow> string \<Rightarrow> int \<Rightarrow> (string \<times> memory_pool) list
    \<Rightarrow> (string \<times> memory_pool \<times> int) option" where
  "allocate_from_pools now blk_id bytes [] = None"
| "allocate_from_pools now blk_id bytes ((k, pool) # pools) =
     (case pool_allocate now blk_id bytes pool of
        Some (pool', n) \<Rightarrow> Some (k, pool', n)
      | None \<Rightarrow> allocate_from_pools now blk_id bytes pools)"

definition mm_allocate :: "string list \<Rightarrow> string list \<Rightarrow> time \<Rightarrow> string \<Rightarrow> string \<Rightarrow> string \<Rightarrow> int
    \<Rightarrow> memory_manager \<Rightarrow> memory_manager \<times> (go_error + memory_allocation)" where
  "mm_allocate ks pks now mem_id blk_id instance_id bytes mm =
     (if available_memory mm < bytes then (mm, Inl err_insufficient_memory)
      else
        let pooled = (if mc_enable_pooling (mm_config mm)
              then allocate_from_pools now blk_id bytes (visit pks (mm_pools mm)) else None);
            (mm, allocation) = (case pooled of
                Some (k, pool, n) \<Rightarrow>
                  (mm\<lparr>mm_pools := (mm_pools mm)(k \<mapsto> pool)\<rparr>,
                   \<lparr>ma_id = mem_id, ma_instance_id = instance_id, ma_size = n, ma_pool_id = mp_id pool,
                    ma_allocated_at = now\<rparr>)
              | None \<Rightarrow>
                  (mm, \<lparr>ma_id = mem_id, ma_instance_id = instance_id, ma_size = bytes, ma_pool_id = [],
                        ma_allocated_at = now\<rparr>));
            mm = mm\<lparr>mm_allocations := (mm_allocations mm)(mem_id \<mapsto> allocation),
                    mm_used_memory := mm_used_memory mm + bytes\<rparr>
        in (update_stats ks now mm, Inr allocation))"

fun release_block :: "int \<Rightarrow> memory_block list \<Rightarrow> memory_block list option" where
  "release_block bytes [] = None"
| "release_block bytes (b # bs) =
     (if mb_in_use b \<and> mb_size b = bytes then Some (b\<lparr>mb_in_use := False\<rparr> # bs)
      else map_option ((#) b) (release_block bytes bs))"

definition pool_release :: "int \<Rightarrow> memory_pool \<Rightarrow> memory_pool" where
  "pool_release bytes pool =
     (case release_block bytes (mp_blocks pool) of
        None \<Rightarrow> pool
      | Some blocks \<Rightarrow> pool\<lparr>mp_blocks := blocks, mp_used := mp_used pool - bytes,
                            mp_available := mp_available pool + bytes\<rparr>)"

definition mm_release :: "string list \<Rightarrow> time \<Rightarrow> string \<Rightarrow> memory_manager
    \<Rightarrow> memory_manager \<times> go_error option" where
  "mm_release ks now alloc_id mm =
     (case mm_allocations mm alloc_id of
        None \<Rightarrow> (mm, Some (PlainError (''allocation '' @ alloc_id @ '' not found'')))
      | Some a \<Rightarrow>
          let mm = (if ma_pool_id a \<noteq> []
                then (case mm_pools mm (ma_pool_id a) of
                        None \<Rightarrow> mm
                      | Some pool \<Rightarrow>
                          mm\<lparr>mm_pools := (mm_pools mm)(ma_pool_id a \<mapsto> pool_release (ma_size a) pool)\<rparr>)
                else mm);
              mm = mm\<lparr>mm_used_memory := mm_used_memory mm - ma_size a,
                      mm_allocations := (mm_allocations mm)(alloc_id := None),
                      mm_stats := (mm_stats mm)\<lparr>ms_total_frees := ms_total_frees (mm_stats mm) + 1\<rparr>\<rparr>
          in (update_stats ks now mm, None))"

section \<open>Pools\<close>

definition mm_create_pool :: "string list \<Rightarrow> time \<Rightarrow> string \<Rightarrow> int \<Rightarrow> memory_manager
    \<Rightarrow> memory_manager \<times> (go_error + memory_pool)" where
  "mm_create_pool ks now pool_id bytes mm =
     (if mm_pools mm pool_id \<noteq> None then (mm, Inl (PlainError (''pool '' @ pool_id @ '' already exists'')))
      else if available_memory mm < bytes then (mm, Inl err_insufficient_memory)
      else let pool = \<lparr>mp_id = pool_id, mp_size = bytes, mp_used = 0, mp_available = bytes,
                       mp_blocks = [], mp_created_at = now\<rparr>;
               mm = mm\<lparr>mm_pools := (mm_pools mm)(pool_id \<mapsto> pool),
                       mm_used_memory := mm_used_memory mm + bytes,
                       mm_stats := (mm_stats mm)\<lparr>ms_pool_count := ms_pool_count (mm_stats mm) + 1\<rparr>\<rparr>
           in (update_stats ks now mm, Inr pool))"

definition mm_destroy_pool :: "string list \<Rightarrow> time \<Rightarrow> string \<Rightarrow> memory_manager
    \<Rightarrow> memory_manager \<times> go_error option" where
  "mm_destroy_pool ks now pool_id mm =
     (case mm_pools mm pool_id of
        None \<Rightarrow> (mm, Some (PlainError (''pool '' @ pool_id @ '' not found'')))
      | Some pool \<Rightarrow>
          if \<exists>b\<in>set (mp_blocks pool). mb_in_use b
          then (mm, Some (PlainError (''pool '' @ pool_id @ '' has in-use blocks'')))
          else let mm = mm\<lparr>mm_used_memory := mm_used_memory mm - mp_size pool,
                           mm_pools := (mm_pools mm)(pool_id := None),
                           mm_stats := (mm_stats mm)\<lparr>ms_pool_count := ms_pool_count (mm_stats mm) - 1\<rparr>\<rparr>
               in (update_stats ks now mm, None))"

definition defragment_pool :: "memory_pool \<Rightarrow> memory_pool" where
  "defragment_pool pool =
     pool\<lparr>mp_blocks := filter mb_in_use (mp_blocks pool), mp_available := mp_size pool - mp_used pool\<rparr>"

definition mm_optimize :: "string list \<Rightarrow> time \<Rightarrow> memory_manager \<Rightarrow> memory_manager" where
  "mm_optimize ks now mm =
     update_stats ks now (mm\<lparr>mm_pools := (\<lambda>k. map_option defragment_pool (mm_pools mm k))\<rparr>)"

section \<open>Reservations, limits and reports\<close>

definition mm_reserve_memory :: "string list \<Rightarrow> time \<Rightarrow> int \<Rightarrow> memory_manager
    \<Rightarrow> memory_manager \<times> go_error option" where
  "mm_reserve_memory ks now bytes mm =
     (if available_memory mm < bytes then (mm, Some err_insufficient_memory)
      else (update_stats ks now (mm\<lparr>mm_reserved_memory := mm_reserved_memory mm + bytes\<rparr>), None))"

definition mm_release_memory :: "string list \<Rightarrow> time \<Rightarrow> int \<Rightarrow> memory_manager \<Rightarrow> memory_manager" where
  "mm_release_memory ks now bytes mm =
     (let reserved = mm_reserved_memory mm - bytes
      in update_stats ks now (mm\<lparr>mm_reserved_memory := (if reserved < 0 then 0 else reserved)\<rparr>))"

definition mm_get_usage :: "memory_manager \<Rightarrow> rat" where
  "mm_get_usage mm =
     (if mm_total_memory mm = 0 then 0
      else fl (fl (of_int (mm_used_memory mm)) / fl (of_int (mm_total_memory mm))))"

definition mm_usage_percent :: "memory_manager \<Rightarrow> rat" where
  "mm_usage_percent mm =
     (if mm_total_memory mm = 0 then 0
      else fl (fl (fl (of_int (mm_used_memory mm)) / fl (of_int (mm_total_memory mm))) * 100))"

text \<open>One tick of the collector (total memory is not 0; the division would give NaN or infinity).\<close>

definition mm_run_gc :: "time \<Rightarrow> memory_manager \<Rightarrow> memory_manager" where
  "mm_run_gc now mm =
     (if mc_gc_threshold (mm_config mm)
           \<le> fl (fl (of_int (mm_used_memory mm)) / fl (of_int (mm_total_memory mm)))
      then mm\<lparr>mm_stats := (mm_stats mm)\<lparr>ms_gc_runs := ms_gc_runs (mm_stats mm) + 1,
                                          ms_last_gc_run := now\<rparr>\<rparr>
      else mm)"

definition mm_set_max_usage :: "rat \<Rightarrow> memory_manager \<Rightarrow> memory_manager \<times> go_error option" where
  "mm_set_max_usage max_usage mm =
     (if max_usage < 0 \<or> 1 < max_usage
      then (mm, Some (PlainError ''max usage must be between 0 and 1''))
      else (mm\<lparr>mm_config := (mm_config mm)\<lparr>mc_max_memory_usage := max_usage\<rparr>\<rparr>, None))"

definition mm_set_gc_threshold :: "rat \<Rightarrow> memory_manager \<Rightarrow> memory_manager \<times> go_error option" where
  "mm_set_gc_threshold threshold mm =
     (if threshold < 0 \<or> 1 < threshold
      then (mm, Some (PlainError ''threshold must be between 0 and 1''))
      else (mm\<lparr>mm_config := (mm_config mm)\<lparr>mc_gc_threshold := threshold\<rparr>\<rparr>, None))"

definition mm_list_allocations :: "string list \<Rightarrow> memory_manager \<Rightarrow> memory_allocation list" where
  "mm_list_allocations ks mm = map snd (visit ks (mm_allocations mm))"

definition mm_list_pools :: "string list \<Rightarrow> memory_manager \<Rightarrow> memory_pool list" where
  "mm_list_pools ks mm = map snd (visit ks (mm_pools mm))"

definition mm_instance_memory :: "string list \<Rightarrow> string \<Rightarrow> memory_manager \<Rightarrow> int" where
  "mm_instance_memory ks instance_id mm =
     sum_list (map (\<lambda>(k, a). ma_size a)
       (filter (\<lambda>(k, a). ma_instance_id a = instance_id) (visit ks (mm_allocations mm))))"

section \<open>Calls under the lock\<close>

text \<open>
  \<^verbatim>\<open>ReleaseInstanceMemory\<close> and \<^verbatim>\<open>Shutdown\<close> hold the manager's mutex while they call methods that lock
  it again.
\<close>

definition with_lock :: "bool \<Rightarrow> 'a \<Rightarrow> 'a option" where
  "with_lock held result = (if held then None else Some result)"

fun release_each :: "bool \<Rightarrow> string list \<Rightarrow> time \<Rightarrow> string list \<Rightarrow> memory_manager \<Rightarrow> memory_manager option" where
  "release_each held ks now [] mm = Some mm"
| "release_each held ks now (a # as) mm =
     (case with_lock held (fst (mm_release ks now a mm)) of
        None \<Rightarrow> None
      | Some mm' \<Rightarrow> release_each held ks now as mm')"

fun destroy_each :: "bool \<Rightarrow> string list \<Rightarrow> time \<Rightarrow> string list \<Rightarrow> memory_manager \<Rightarrow> memory_manager option" where
  "destroy_each held ks now [] mm = Some mm"
| "destroy_each held ks now (p # ps) mm =
     (case with_lock held (fst (mm_destroy_pool ks now p mm)) of
        None \<Rightarrow> None
      | Some mm' \<Rightarrow> destroy_each held ks now ps mm')"

definition mm_release_instance_memory :: "string list \<Rightarrow> time \<Rightarrow> string \<Rightarrow> memory_manager
    \<Rightarrow> memory_manager option" where
  "mm_release_instance_memory ks now instance_id mm =
     (let to_release = map fst (filter (\<lambda>(k, a). ma_instance_id a = instance_id)
            (visit ks (mm_allocations mm)))
      in release_each True ks now to_release mm)"

definition mm_shutdown :: "string list \<Rightarrow> string list \<Rightarrow> time \<Rightarrow> memory_manager \<Rightarrow> memory_manager option" where
  "mm_shutdown ks pks now mm =
     Option.bind (release_each True ks now (map fst (visit ks (mm_allocations mm))) mm)
       (\<lambda>mm. destroy_each True ks now (map fst (visit pks (mm_pools mm))) mm)"

section \<open>Pool accounting\<close>

definition in_use_bytes :: "memory_block list \<Rightarrow> int" where
  "in_use_bytes bs = sum_list (map mb_size (filter mb_in_use bs))"

definition pool_ok :: "memory_pool \<Rightarrow> bool" where
  "pool_ok pool \<longleftrightarrow> mp_used pool = in_use_bytes (mp_blocks pool)
     \<and> mp_available pool = mp_size pool - mp_used pool"

lemma in_use_bytes_simps [simp]:
  "in_use_bytes [] = 0"
  "in_use_bytes (b # bs) = (if mb_in_use b then mb_size b else 0) + in_use_bytes bs"
  "in_use_bytes (bs @ cs) = in_use_bytes bs + in_use_bytes cs"
  by (simp_all add: in_use_bytes_def)

lemma take_free_block_bytes:
  "take_free_block now bytes bs = Some (bs', n) \<Longrightarrow> in_use_bytes bs' = in_use_bytes bs + n \<and> bytes \<le> n"
  by (induction bs arbitrary: bs') (auto split: if_splits)

lemma release_block_bytes:
  "release_block bytes bs = Some bs' \<Longrightarrow> in_use_bytes bs' = in_use_bytes bs - bytes"
  by (induction bs arbitrary: bs') (auto split: if_splits)

lemma pool_allocate_ok:
  "pool_ok pool \<Longrightarrow> pool_allocate now blk_id bytes pool = Some (pool', n) \<Longrightarrow>
     pool_ok pool' \<and> mp_used pool' = mp_used pool + n \<and> bytes \<le> n \<and> mp_size pool' = mp_size pool"
  by (auto simp: pool_allocate_def pool_ok_def Let_def dest: take_free_block_bytes
      split: if_splits option.splits prod.splits)

lemma pool_release_ok: "pool_ok pool \<Longrightarrow> pool_ok (pool_release bytes pool) \<and> mp_size (pool_release bytes pool) = mp_size pool"
  by (auto simp: pool_release_def pool_ok_def dest: release_block_bytes split: option.splits)

lemma defragment_pool_ok: "pool_ok pool \<Longrightarrow> pool_ok (defragment_pool pool) \<and> mp_size (defragment_pool pool) = mp_size pool"
  by (simp add: defragment_pool_def pool_ok_def in_use_bytes_def)

definition pools_ok :: "memory_manager \<Rightarrow> bool" where
  "pools_ok mm \<longleftrightarrow> (\<forall>k pool. mm_pools mm k = Some pool \<longrightarrow> mp_id pool = k \<and> pool_ok pool)"

lemma update_stats_simps [simp]:
  "mm_pools (update_stats ks now mm) = mm_pools mm"
  "mm_allocations (update_stats ks now mm) = mm_allocations mm"
  "mm_used_memory (update_stats ks now mm) = mm_used_memory mm"
  "mm_reserved_memory (update_stats ks now mm) = mm_reserved_memory mm"
  "mm_total_memory (update_stats ks now mm) = mm_total_memory mm"
  "mm_config (update_stats ks now mm) = mm_config mm"
  by (simp_all add: update_stats_def Let_def)

lemma allocate_from_pools_result:
  "allocate_from_pools now blk_id bytes ps = Some (k, pool', n) \<Longrightarrow>
     \<exists>pool. (k, pool) \<in> set ps \<and> pool_allocate now blk_id bytes pool = Some (pool', n)"
  by (induction ps) (auto split: option.splits)

lemma pool_allocate_id: "pool_allocate now blk_id bytes pool = Some (pool', n) \<Longrightarrow> mp_id pool' = mp_id pool"
  by (auto simp: pool_allocate_def Let_def split: if_splits prod.splits)

text \<open>
  The operations that change a manager, each a step; sizes are not negative and new allocation ids are fresh.
  \<^verbatim>\<open>ReleaseInstanceMemory\<close> and \<^verbatim>\<open>Shutdown\<close> are steps when they return.
\<close>

inductive memory_step :: "memory_manager \<Rightarrow> memory_manager \<Rightarrow> bool" where
  ms_allocate: "0 \<le> bytes \<Longrightarrow> mm_allocations mm mem_id = None \<Longrightarrow>
    mm_allocate ks pks now mem_id blk_id instance_id bytes mm = (mm', res) \<Longrightarrow> memory_step mm mm'"
| ms_release: "mm_release ks now alloc_id mm = (mm', err) \<Longrightarrow> memory_step mm mm'"
| ms_create_pool: "0 \<le> bytes \<Longrightarrow> mm_create_pool ks now pool_id bytes mm = (mm', res') \<Longrightarrow> memory_step mm mm'"
| ms_destroy_pool: "mm_destroy_pool ks now pool_id mm = (mm', err) \<Longrightarrow> memory_step mm mm'"
| ms_optimize: "memory_step mm (mm_optimize ks now mm)"
| ms_reserve: "0 \<le> bytes \<Longrightarrow> mm_reserve_memory ks now bytes mm = (mm', err) \<Longrightarrow> memory_step mm mm'"
| ms_release_reserved: "0 \<le> bytes \<Longrightarrow> memory_step mm (mm_release_memory ks now bytes mm)"
| ms_run_gc: "memory_step mm (mm_run_gc now mm)"
| ms_max_usage: "mm_set_max_usage max_usage mm = (mm', err) \<Longrightarrow> memory_step mm mm'"
| ms_gc_threshold: "mm_set_gc_threshold threshold mm = (mm', err) \<Longrightarrow> memory_step mm mm'"
| ms_release_instance: "mm_release_instance_memory ks now instance_id mm = Some mm' \<Longrightarrow> memory_step mm mm'"
| ms_shutdown: "mm_shutdown ks pks now mm = Some mm' \<Longrightarrow> memory_step mm mm'"

lemma locked_calls_return_unchanged:
  "release_each True ks now xs mm = Some mm' \<Longrightarrow> mm' = mm"
  "destroy_each True ks now ps mm = Some mm' \<Longrightarrow> mm' = mm"
  "mm_release_instance_memory ks now instance_id mm = Some mm' \<Longrightarrow> mm' = mm"
  "mm_shutdown ks pks now mm = Some mm' \<Longrightarrow> mm' = mm"
proof -
  have r: "release_each True ks now xs mm = Some mm' \<Longrightarrow> mm' = mm"
    and d: "destroy_each True ks now ps mm = Some mm' \<Longrightarrow> mm' = mm" for xs ps mm mm'
    by (cases xs; simp add: with_lock_def) (cases ps; simp add: with_lock_def)
  show "release_each True ks now xs mm = Some mm' \<Longrightarrow> mm' = mm"
    "destroy_each True ks now ps mm = Some mm' \<Longrightarrow> mm' = mm"
    "mm_release_instance_memory ks now instance_id mm = Some mm' \<Longrightarrow> mm' = mm"
    "mm_shutdown ks pks now mm = Some mm' \<Longrightarrow> mm' = mm"
    using r d by (auto simp: mm_release_instance_memory_def mm_shutdown_def Let_def split: Option.bind_splits) metis
qed

lemmas limit_calls = mm_set_max_usage_def mm_set_gc_threshold_def

lemma mm_allocate_cases:
  assumes "mm_allocate ks pks now mem_id blk_id instance_id bytes mm = (mm', res)"
  obtains (refused) "mm' = mm" "available_memory mm < bytes" "res = Inl err_insufficient_memory"
  | (pooled) k pool pool' n where "bytes \<le> available_memory mm" "mm_pools mm k = Some pool"
      "pool_allocate now blk_id bytes pool = Some (pool', n)"
      "mm_pools mm' = (mm_pools mm)(k \<mapsto> pool')" "mm_used_memory mm' = mm_used_memory mm + bytes"
      "mm_allocations mm' = (mm_allocations mm)(mem_id \<mapsto> \<lparr>ma_id = mem_id,
         ma_instance_id = instance_id, ma_size = n, ma_pool_id = mp_id pool', ma_allocated_at = now\<rparr>)"
      "mm_reserved_memory mm' = mm_reserved_memory mm" "max_usable mm' = max_usable mm"
  | (direct) "bytes \<le> available_memory mm" "mm_pools mm' = mm_pools mm"
      "mm_used_memory mm' = mm_used_memory mm + bytes"
      "mm_allocations mm' = (mm_allocations mm)(mem_id \<mapsto> \<lparr>ma_id = mem_id,
         ma_instance_id = instance_id, ma_size = bytes, ma_pool_id = [], ma_allocated_at = now\<rparr>)"
      "mm_reserved_memory mm' = mm_reserved_memory mm" "max_usable mm' = max_usable mm"
proof (cases "available_memory mm < bytes")
  case True
  with assms show ?thesis by (intro refused) (auto simp: mm_allocate_def)
next
  case False
  let ?pooled = "if mc_enable_pooling (mm_config mm)
      then allocate_from_pools now blk_id bytes (visit pks (mm_pools mm)) else None"
  show ?thesis
  proof (cases ?pooled)
    case None
    with assms False show ?thesis
      by (intro direct) (auto simp: mm_allocate_def Let_def max_usable_def)
  next
    case (Some r)
    then obtain k pool' n where r: "r = (k, pool', n)" by (cases r)
    with Some obtain pool where "mm_pools mm k = Some pool"
        "pool_allocate now blk_id bytes pool = Some (pool', n)"
      by (auto simp: set_visit dest!: allocate_from_pools_result split: if_splits)
    with assms False Some r show ?thesis
      by (intro pooled [of k pool pool' n]) (auto simp: mm_allocate_def Let_def max_usable_def)
  qed
qed

lemma pools_ok_step: "memory_step mm mm' \<Longrightarrow> pools_ok mm \<Longrightarrow> pools_ok mm'"
proof (induction rule: memory_step.induct)
  case (ms_allocate bytes mm mem_id ks pks now blk_id instance_id mm' res)
  from ms_allocate(3) show ?case
  proof (cases rule: mm_allocate_cases)
    case (pooled k pool pool' n)
    with ms_allocate(4) show ?thesis
      using pool_allocate_ok [OF _ pooled(3)] pool_allocate_id [OF pooled(3)] by (auto simp: pools_ok_def)
  qed (use ms_allocate(4) in \<open>auto simp: pools_ok_def\<close>)
next
  case (ms_release ks now alloc_id mm mm' err)
  then show ?case
    by (auto simp: mm_release_def pools_ok_def Let_def pool_release_ok pool_release_def
        split: option.splits if_splits)
      (simp_all add: pool_ok_def release_block_bytes)
next
  case (ms_create_pool bytes ks now pool_id mm mm' res')
  then show ?case by (auto simp: mm_create_pool_def pools_ok_def pool_ok_def Let_def split: if_splits)
next
  case (ms_destroy_pool ks now pool_id mm mm' err)
  then show ?case by (auto simp: mm_destroy_pool_def pools_ok_def Let_def split: option.splits if_splits)
next
  case (ms_optimize mm ks now)
  then show ?case by (auto simp: mm_optimize_def pools_ok_def defragment_pool_ok) (simp add: defragment_pool_def)
qed (auto simp: mm_reserve_memory_def mm_release_memory_def mm_run_gc_def pools_ok_def Let_def limit_calls
    split: if_splits dest!: locked_calls_return_unchanged(3,4))

text \<open>Pool accounting. From a manager without pools, after any sequence of operations every pool's
  \<^verbatim>\<open>Used\<close> is the total size of its blocks in use and \<^verbatim>\<open>Available\<close> is its size less that.\<close>

theorem pool_accounting:
  assumes "memory_step\<^sup>*\<^sup>* mm mm'" "mm_pools mm = Map.empty" "mm_pools mm' k = Some pool"
  shows "mp_used pool = in_use_bytes (mp_blocks pool) \<and> mp_available pool = mp_size pool - mp_used pool"
proof -
  from assms(1) have "pools_ok mm'"
    by (induction rule: rtranclp_induct) (auto simp: pools_ok_def assms(2) dest: pools_ok_step [unfolded pools_ok_def])
  with assms(3) show ?thesis by (auto simp: pools_ok_def pool_ok_def)
qed

section \<open>Memory is not overcommitted\<close>

abbreviation committed :: "memory_manager \<Rightarrow> int" where
  "committed mm \<equiv> mm_used_memory mm + mm_reserved_memory mm"

definition sizes_ok :: "memory_manager \<Rightarrow> bool" where
  "sizes_ok mm \<longleftrightarrow> 0 \<le> mm_reserved_memory mm \<and> (\<forall>k a. mm_allocations mm k = Some a \<longrightarrow> 0 \<le> ma_size a)
     \<and> (\<forall>k pool. mm_pools mm k = Some pool \<longrightarrow> 0 \<le> mp_size pool)"

lemma available_memory_ge: "bytes \<le> available_memory mm \<Longrightarrow> 0 \<le> bytes \<Longrightarrow>
    bytes = 0 \<or> committed mm + bytes \<le> max_usable mm"
  by (auto simp: available_memory_def Let_def split: if_splits)

lemma max_usable_update_stats [simp]: "max_usable (update_stats ks now mm) = max_usable mm"
  by (simp add: max_usable_def)

lemma pool_sizes [simp]:
  "mp_size (pool_release bytes pool) = mp_size pool"
  "mp_size (defragment_pool pool) = mp_size pool"
  by (simp_all add: pool_release_def defragment_pool_def split: option.split)

lemma pool_allocate_size:
  "pool_allocate now blk_id bytes pool = Some (pool', n) \<Longrightarrow> mp_size pool' = mp_size pool \<and> bytes \<le> n"
  by (auto simp: pool_allocate_def Let_def dest: take_free_block_bytes split: if_splits option.splits prod.splits)

lemma memory_step_committed:
  assumes "memory_step mm mm'" "sizes_ok mm"
  shows "sizes_ok mm' \<and> (committed mm' \<le> committed mm \<or> committed mm' \<le> max_usable mm')"
  using assms
proof (cases rule: memory_step.cases)
  case (ms_allocate bytes mem_id ks pks now blk_id instance_id res)
  from ms_allocate(3) show ?thesis
  proof (cases rule: mm_allocate_cases)
    case (pooled k pool pool' n)
    with assms(2) ms_allocate(1) available_memory_ge [of bytes mm] pool_allocate_size [OF pooled(3)] show ?thesis
      by (auto simp: sizes_ok_def)
  next
    case direct
    with assms(2) ms_allocate(1) available_memory_ge [of bytes mm] show ?thesis by (auto simp: sizes_ok_def)
  qed (use assms(2) in simp)
next
  case (ms_release ks now alloc_id err)
  with assms(2) show ?thesis
    by (cases "mm_allocations mm alloc_id") (auto simp: mm_release_def Let_def sizes_ok_def split: option.splits if_splits)
next
  case (ms_create_pool bytes ks now pool_id res)
  with assms(2) available_memory_ge [of bytes mm] show ?thesis
    by (auto simp: mm_create_pool_def Let_def sizes_ok_def max_usable_def split: if_splits)
next
  case (ms_destroy_pool ks now pool_id err)
  with assms(2) show ?thesis
    by (auto simp: mm_destroy_pool_def Let_def sizes_ok_def split: option.splits if_splits)
next
  case (ms_optimize ks now)
  with assms(2) show ?thesis by (auto simp: mm_optimize_def sizes_ok_def)
next
  case (ms_reserve bytes ks now err)
  with assms(2) available_memory_ge [of bytes mm] show ?thesis
    by (auto simp: mm_reserve_memory_def sizes_ok_def max_usable_def split: if_splits)
next
  case (ms_release_reserved bytes ks now)
  with assms(2) show ?thesis by (auto simp: mm_release_memory_def sizes_ok_def Let_def)
qed (auto simp: mm_run_gc_def limit_calls sizes_ok_def split: if_splits dest!: locked_calls_return_unchanged(3,4))

text \<open>Without pools the used memory is the total of the live allocations.\<close>

definition direct_inv :: "memory_manager \<Rightarrow> bool" where
  "direct_inv mm \<longleftrightarrow> mm_pools mm = Map.empty \<and> finite (dom (mm_allocations mm))
     \<and> (\<forall>k a. mm_allocations mm k = Some a \<longrightarrow> ma_pool_id a = [])
     \<and> mm_used_memory mm = total_of ma_size (mm_allocations mm)"

lemma direct_inv_update_stats [simp]: "direct_inv (update_stats ks now mm) = direct_inv mm"
  by (simp add: direct_inv_def)

lemma direct_inv_allocate:
  assumes "direct_inv mm" "mm_allocations mm mem_id = None"
    and "mm_allocate ks pks now mem_id blk_id instance_id bytes mm = (mm', res)"
  shows "direct_inv mm'"
  using assms(3)
proof (cases rule: mm_allocate_cases)
  case (pooled k pool pool' n)
  with assms(1) show ?thesis by (simp add: direct_inv_def)
next
  case direct
  have "total_of ma_size (mm_allocations mm') = total_of ma_size (mm_allocations mm) + bytes"
    using assms(1,2) unfolding direct(4) by (subst total_of_upd) (simp_all add: direct_inv_def)
  with assms direct show ?thesis by (auto simp: direct_inv_def)
qed (use assms(1) in auto)

lemma direct_inv_release:
  assumes "direct_inv mm" "mm_release ks now alloc_id mm = (mm', err)"
  shows "direct_inv mm'"
proof (cases "mm_allocations mm alloc_id")
  case None
  with assms show ?thesis by (simp add: mm_release_def)
next
  case (Some a)
  with assms(1) have a: "ma_pool_id a = []" by (auto simp: direct_inv_def)
  have "total_of ma_size ((mm_allocations mm)(alloc_id := None))
      = total_of ma_size (mm_allocations mm) - ma_size a"
    using assms(1) Some by (subst total_of_del) (simp_all add: direct_inv_def)
  with assms Some a show ?thesis
    by (auto simp: mm_release_def Let_def direct_inv_def split: if_splits)
qed

lemma direct_inv_step:
  assumes "memory_step mm mm'" "mm_pools mm' = Map.empty" "direct_inv mm"
  shows "direct_inv mm'"
  using assms
proof (cases rule: memory_step.cases)
  case (ms_allocate bytes mem_id ks pks now blk_id instance_id res)
  from direct_inv_allocate [OF assms(3) ms_allocate(2,3)] show ?thesis .
next
  case (ms_release ks now alloc_id err)
  from direct_inv_release [OF assms(3) ms_release] show ?thesis .
next
  case (ms_create_pool bytes ks now pool_id res)
  with assms(2,3) have "mm' = mm" by (auto simp: mm_create_pool_def Let_def split: if_splits)
  with assms(3) show ?thesis by simp
next
  case (ms_destroy_pool ks now pool_id err)
  with assms(3) have "mm' = mm" by (auto simp: mm_destroy_pool_def direct_inv_def)
  with assms(3) show ?thesis by simp
qed (auto simp: mm_optimize_def mm_reserve_memory_def mm_release_memory_def mm_run_gc_def limit_calls direct_inv_def Let_def
    split: if_splits dest!: locked_calls_return_unchanged(3,4))

text \<open>C40: memory is not overcommitted. Take any run of a new manager's operations, pools and changes of the maximum
  usage included, with sizes that are not negative and fresh ids. An operation that makes used plus reserved memory grow
  leaves it within the usable maximum set at that moment, so that used plus reserved memory stays within the highest
  usable maximum set during the run, or within the 512 MiB that a new manager reserves whatever its maximum is. As
  long as no pool is created, used memory is exactly the total of the live allocations.\<close>

theorem memory_never_overcommitted:
  assumes "(\<lambda>mm mm'. memory_step mm mm' \<and> max_usable mm' \<le> highest)\<^sup>*\<^sup>* (new_memory_manager now sys_mem) mm"
  shows "mm_used_memory mm + mm_reserved_memory mm \<le> max (512 * 1024 * 1024) highest
    \<and> (\<forall>mm'. memory_step mm mm' \<longrightarrow> mm_used_memory mm' + mm_reserved_memory mm' \<le> mm_used_memory mm + mm_reserved_memory mm
        \<or> mm_used_memory mm' + mm_reserved_memory mm' \<le> max_usable mm')
    \<and> ((\<lambda>mm mm'. memory_step mm mm' \<and> mm_pools mm' = Map.empty)\<^sup>*\<^sup>* (new_memory_manager now sys_mem) mm
        \<longrightarrow> mm_used_memory mm = total_of ma_size (mm_allocations mm))"
proof -
  let ?new = "new_memory_manager now sys_mem"
  from assms have inv: "sizes_ok mm \<and> committed mm \<le> max (512 * 1024 * 1024) highest"
  proof (induction rule: rtranclp_induct)
    case base
    show ?case by (simp add: new_memory_manager_def sizes_ok_def Let_def)
  next
    case (step mm mm')
    with memory_step_committed [of mm mm'] show ?case by auto
  qed
  have "direct_inv mm" if "(\<lambda>mm mm'. memory_step mm mm' \<and> mm_pools mm' = Map.empty)\<^sup>*\<^sup>* ?new mm"
    using that
  proof (induction rule: rtranclp_induct)
    case base
    show ?case by (simp add: new_memory_manager_def direct_inv_def Let_def)
  qed (use direct_inv_step in blast)
  with inv memory_step_committed show ?thesis by (auto simp: direct_inv_def)
qed

section \<open>Reservations\<close>

text \<open>
  The contract the scheduler relies on when it reserves memory: a reservation is granted exactly
  when it fits, takes exactly its size from what is available, and releasing it gives it back.
\<close>

fun reserve_run :: "(int \<Rightarrow> 's \<Rightarrow> 's \<times> go_error option) \<Rightarrow> int list \<Rightarrow> 's \<Rightarrow> 's \<times> int list" where
  "reserve_run reserve [] s = (s, [])"
| "reserve_run reserve (n # ns) s =
     (case reserve n s of
        (s', None) \<Rightarrow> (case reserve_run reserve ns s' of (s'', granted) \<Rightarrow> (s'', n # granted))
      | (s', Some _) \<Rightarrow> reserve_run reserve ns s')"

locale reservoir =
  fixes avail :: "'s \<Rightarrow> int" and reserve :: "int \<Rightarrow> 's \<Rightarrow> 's \<times> go_error option"
    and release :: "int \<Rightarrow> 's \<Rightarrow> 's" and good :: "'s \<Rightarrow> bool"
  assumes avail_nonneg: "good s \<Longrightarrow> 0 \<le> avail s"
    and reserve_granted: "good s \<Longrightarrow> 0 \<le> n \<Longrightarrow> n \<le> avail s \<Longrightarrow>
      \<exists>s'. reserve n s = (s', None) \<and> good s' \<and> avail s' = avail s - n"
    and reserve_refused: "good s \<Longrightarrow> avail s < n \<Longrightarrow> \<exists>e. reserve n s = (s, Some e)"
    and release_restores: "good s \<Longrightarrow> 0 \<le> n \<Longrightarrow> reserve n s = (s', None) \<Longrightarrow>
      good (release n s') \<and> avail (release n s') = avail s"
begin

lemma reserve_run_balance:
  assumes "good s" "\<forall>n\<in>set ns. 0 \<le> n" "reserve_run reserve ns s = (s', granted)"
  shows "good s' \<and> sum_list granted + avail s' = avail s"
  using assms
proof (induction ns arbitrary: s granted)
  case (Cons n ns)
  show ?case
  proof (cases "n \<le> avail s")
    case True
    with Cons.prems reserve_granted obtain s1 where s1: "reserve n s = (s1, None)" "good s1"
        "avail s1 = avail s - n" by (metis list.set_intros(1))
    with Cons.prems obtain g where "reserve_run reserve ns s1 = (s', g)" "granted = n # g"
      by (auto split: prod.splits)
    with Cons.IH [OF s1(2)] Cons.prems s1 show ?thesis by simp
  next
    case False
    with Cons.prems reserve_refused [of s n] obtain e where "reserve n s = (s, Some e)" by force
    with Cons.IH [OF Cons.prems(1)] Cons.prems show ?thesis by simp
  qed
qed simp

lemma reserve_run_bounded:
  assumes "good s" "\<forall>n\<in>set ns. 0 \<le> n" "reserve_run reserve ns s = (s', granted)"
  shows "sum_list granted \<le> avail s"
  using reserve_run_balance [OF assms] avail_nonneg by fastforce

lemma reserve_release:
  assumes "good s" "0 \<le> n" "n \<le> avail s"
  shows "avail (release n (fst (reserve n s))) = avail s"
  using reserve_granted [OF assms] release_restores [OF assms(1,2)] by auto

end

definition memory_good :: "memory_manager \<Rightarrow> bool" where
  "memory_good mm \<longleftrightarrow> 0 \<le> mm_reserved_memory mm
     \<and> mm_used_memory mm + mm_reserved_memory mm \<le> max_usable mm"

lemma available_memory_good:
  "memory_good mm \<Longrightarrow> available_memory mm = max_usable mm - mm_used_memory mm - mm_reserved_memory mm"
  by (simp add: memory_good_def available_memory_def Let_def)

interpretation host: reservoir available_memory "mm_reserve_memory ks now" "mm_release_memory ks now" memory_good
proof unfold_locales
  fix s n s'
  assume g: "memory_good s"
  show "0 \<le> available_memory s" by (simp add: available_memory_def Let_def)
  show "\<exists>s'. mm_reserve_memory ks now n s = (s', None) \<and> memory_good s'
      \<and> available_memory s' = available_memory s - n" if "0 \<le> n" "n \<le> available_memory s"
    using that g available_memory_good [OF g]
    by (auto simp: mm_reserve_memory_def memory_good_def available_memory_def Let_def max_usable_def)
  show "\<exists>e. mm_reserve_memory ks now n s = (s, Some e)" if "available_memory s < n"
    using that by (simp add: mm_reserve_memory_def)
  show "memory_good (mm_release_memory ks now n s')
      \<and> available_memory (mm_release_memory ks now n s') = available_memory s"
    if "0 \<le> n" "mm_reserve_memory ks now n s = (s', None)"
    using that g
    by (auto simp: mm_reserve_memory_def mm_release_memory_def memory_good_def available_memory_def Let_def
        max_usable_def split: if_splits)
qed

text \<open>Reservations. Whatever list of non-negative amounts is reserved one after the other from a state
  within the limit, the amounts granted never exceed in total what was available at the start, and
  what remains available is exactly the rest.\<close>

theorem reservations_bounded:
  assumes "memory_good mm" "\<forall>n\<in>set ns. 0 \<le> n"
    and "reserve_run (mm_reserve_memory ks now) ns mm = (mm', granted)"
  shows "sum_list granted \<le> available_memory mm
    \<and> available_memory mm' = available_memory mm - sum_list granted"
  using host.reserve_run_bounded [OF assms] host.reserve_run_balance [OF assms] by simp

section \<open>What goes wrong\<close>

text \<open>The manager takes as total memory what the Go runtime has obtained from the system
  (\<^verbatim>\<open>MemStats.Sys\<close>). Where that is at most 512 MiB, a new manager refuses every positive allocation
  and every positive reservation, since it also sets 512 MiB aside.\<close>

theorem new_manager_refuses_all:
  assumes "0 \<le> sys_mem" "sys_mem \<le> 512 * 1024 * 1024" "0 < bytes"
  shows "mm_allocate ks pks t mem_id blk_id instance_id bytes (new_memory_manager now sys_mem)
      = (new_memory_manager now sys_mem, Inl err_insufficient_memory)
    \<and> mm_reserve_memory ks t bytes (new_memory_manager now sys_mem)
      = (new_memory_manager now sys_mem, Some err_insufficient_memory)"
proof -
  have i: "i64 sys_mem = sys_mem" using assms by (intro i64_small) auto
  have f: "fl (of_int sys_mem) = of_int sys_mem" using assms by (intro fl_of_int) auto
  have p8: "0 \<le> fl (8 / 10)" "fl (8 / 10) \<le> 1"
    using fl_mono [of "8 / 10" 1] by (auto intro: fl_nonneg)
  have s: "0 \<le> (of_int sys_mem :: rat)" "(of_int sys_mem :: rat) \<le> 536870912"
    using assms by (simp_all add: of_int_le_iff [of sys_mem 536870912, where 'a = rat, simplified])
  have "of_int sys_mem * fl (8 / 10) \<le> 536870912 * (1 :: rat)"
    using s p8 by (intro mult_mono) auto
  then have "fl (of_int sys_mem * fl (8 / 10)) \<le> 536870912"
    using fl_mono [of "of_int sys_mem * fl (8 / 10)" 536870912] by (simp add: fl_numeral)
  moreover have "0 \<le> fl (of_int sys_mem * fl (8 / 10))"
    using s p8 by (intro fl_nonneg mult_nonneg_nonneg) auto
  ultimately have "f_trunc (fl (of_int sys_mem * fl (8 / 10))) \<le> 536870912"
    by (simp add: f_trunc_def floor_le_iff)
  then have "available_memory (new_memory_manager now sys_mem) = 0"
    by (simp add: available_memory_def max_usable_def new_memory_manager_def Let_def i f)
  with assms(3) show ?thesis by (simp add: mm_allocate_def mm_reserve_memory_def)
qed

text \<open>\<^verbatim>\<open>ReleaseInstanceMemory\<close> calls \<^verbatim>\<open>Release\<close> with the mutex held: it returns only when the
  instance has no allocation at all.\<close>

theorem release_instance_memory_deadlocks:
  assumes "covers ks (mm_allocations mm)"
  shows "mm_release_instance_memory ks now instance_id mm = None
    \<longleftrightarrow> (\<exists>k a. mm_allocations mm k = Some a \<and> ma_instance_id a = instance_id)"
proof -
  have "release_each True ks now xs mm = None \<longleftrightarrow> xs \<noteq> []" for xs
    by (cases xs) (simp_all add: with_lock_def)
  moreover have "map fst (filter (\<lambda>(k, a). ma_instance_id a = instance_id) (visit ks (mm_allocations mm))) \<noteq> []
      \<longleftrightarrow> (\<exists>k a. (k, a) \<in> set (visit ks (mm_allocations mm)) \<and> ma_instance_id a = instance_id)"
    by (simp add: filter_empty_conv) blast
  ultimately show ?thesis
    by (simp add: mm_release_instance_memory_def Let_def in_visit [OF assms])
qed

text \<open>A pool hands out more than its size. After a block of 4 and one of 8 of a pool of 10 have been
  taken in turn, the freed block of 4 is taken for a request of 2: 12 bytes are in use and -2 are
  available.\<close>

theorem pool_hands_out_more_than_its_size:
  "\<exists>p1 p2 p3 p4.
     pool_allocate t ''b1'' 4 \<lparr>mp_id = ''p'', mp_size = 10, mp_used = 0, mp_available = 10,
       mp_blocks = [], mp_created_at = t\<rparr> = Some (p1, 4)
   \<and> pool_release 4 p1 = p2 \<and> pool_allocate t ''b2'' 8 p2 = Some (p3, 8)
   \<and> pool_allocate t ''b3'' 2 p3 = Some (p4, 4) \<and> mp_used p4 = 12 \<and> mp_available p4 = - 2"
  by (simp add: pool_allocate_def pool_release_def)

text \<open>Allocate, then release. Releasing an allocation right away brings the used memory back by the
  size of the block that was taken, which for a pooled block can exceed the amount the allocation
  added: the difference is lost from the count.\<close>

theorem release_after_allocate:
  assumes "mm_allocate ks pks now mem_id blk_id instance_id bytes mm = (mm1, Inr a)"
    and "mm_release ks' now' mem_id mm1 = (mm2, err)"
  shows "err = None \<and> mm_used_memory mm2 = mm_used_memory mm + (bytes - ma_size a)
    \<and> mm_allocations mm2 = (mm_allocations mm)(mem_id := None)
    \<and> (mc_enable_pooling (mm_config mm) \<or> ma_size a = bytes)"
proof -
  have a: "mm_allocations mm1 mem_id = Some a" "mm_used_memory mm1 = mm_used_memory mm + bytes"
    "mm_allocations mm1 = (mm_allocations mm)(mem_id \<mapsto> a)"
    "mc_enable_pooling (mm_config mm) \<or> ma_size a = bytes"
    using assms(1) by (auto simp: mm_allocate_def Let_def split: if_splits option.splits)
  with assms(2) show ?thesis by (auto simp: mm_release_def Let_def split: option.splits if_splits)
qed

section \<open>Witnesses\<close>

definition sample_memory :: memory_manager where
  "sample_memory = (new_memory_manager 0 1000)
     \<lparr>mm_reserved_memory := 100, mm_config := (mm_config (new_memory_manager 0 1000))
        \<lparr>mc_max_memory_usage := 1 / 2\<rparr>\<rparr>"

lemma sample_memory_facts:
  "mm_pools sample_memory = Map.empty" "mm_allocations sample_memory = Map.empty"
  "mm_used_memory sample_memory = 0" "mm_reserved_memory sample_memory = 100"
  "max_usable sample_memory = 500" "mc_enable_pooling (mm_config sample_memory)"
proof -
  have "fl 500 = 500" "fl 1000 = 1000" by (simp_all add: fl_numeral)
  then show "max_usable sample_memory = 500"
    by (simp add: max_usable_def sample_memory_def new_memory_manager_def Let_def i64_small f_trunc_def)
qed (simp_all add: sample_memory_def new_memory_manager_def Let_def)

lemma sample_memory_available: "available_memory sample_memory = 400"
  by (simp add: available_memory_def sample_memory_facts)

definition sample_pooled :: memory_manager where
  "sample_pooled = fst (mm_create_pool [] 1 ''p'' 50 sample_memory)"

theorem pool_accounting_witness:
  "\<exists>mm' pool. memory_step\<^sup>*\<^sup>* sample_memory mm' \<and> mm_pools mm' ''p'' = Some pool
    \<and> mp_used pool = in_use_bytes (mp_blocks pool) \<and> mp_available pool = 50 - mp_used pool"
proof -
  have p: "mm_pools sample_pooled ''p'' = Some \<lparr>mp_id = ''p'', mp_size = 50, mp_used = 0,
      mp_available = 50, mp_blocks = [], mp_created_at = 1\<rparr>"
    by (simp add: sample_pooled_def mm_create_pool_def sample_memory_facts sample_memory_available Let_def)
  have "memory_step sample_memory sample_pooled"
    unfolding sample_pooled_def
    by (rule ms_create_pool [of 50 "[]" 1 "''p''" sample_memory _
          "snd (mm_create_pool [] 1 ''p'' 50 sample_memory)"]) simp_all
  then have run: "memory_step\<^sup>*\<^sup>* sample_memory sample_pooled" by (rule r_into_rtranclp)
  from pool_accounting [OF run sample_memory_facts(1) p] run p show ?thesis by auto
qed

definition sample_new :: memory_manager where
  "sample_new = new_memory_manager 0 2000000000"

lemma sample_new_available: "30 \<le> available_memory sample_new"
proof -
  have f: "fl 2000000000 = 2000000000" by (simp add: fl_numeral)
  have "fl (1 / 2) = 1 / 2" using fl_pow2 [of "- 1"] by (simp add: power_int_minus)
  then have "(1 / 2 :: rat) \<le> fl (8 / 10)" using fl_mono [of "1 / 2" "8 / 10"] by simp
  then have "fl (1000000000 :: rat) \<le> fl (2000000000 * fl (8 / 10))" by (intro fl_mono) simp
  then show ?thesis
    by (simp add: available_memory_def max_usable_def sample_new_def new_memory_manager_def Let_def i64_small f f_trunc_def
        fl_numeral le_floor_iff)
qed

theorem memory_never_overcommitted_witness:
  "\<exists>(mm :: memory_manager) highest. mm_used_memory mm = 30 \<and> mm_used_memory mm = total_of ma_size (mm_allocations mm)
    \<and> mm_used_memory mm + mm_reserved_memory mm \<le> max (512 * 1024 * 1024) highest"
proof -
  let ?mm = "fst (mm_allocate [] [] 1 ''a'' ''b'' ''i'' 30 sample_new)"
  have st: "memory_step sample_new ?mm"
    by (rule ms_allocate [of 30 sample_new "''a''" "[]" "[]" 1 "''b''" "''i''" _
          "snd (mm_allocate [] [] 1 ''a'' ''b'' ''i'' 30 sample_new)"])
      (simp_all add: sample_new_def new_memory_manager_def Let_def)
  have facts: "mm_pools ?mm = Map.empty" "mm_used_memory ?mm = 30"
    using sample_new_available by (simp_all add: mm_allocate_def sample_new_def new_memory_manager_def Let_def)
  have run: "(\<lambda>mm mm'. memory_step mm mm' \<and> max_usable mm' \<le> max_usable ?mm)\<^sup>*\<^sup>* (new_memory_manager 0 2000000000) ?mm"
    using st unfolding sample_new_def [symmetric] by (intro r_into_rtranclp) simp
  have direct: "(\<lambda>mm mm'. memory_step mm mm' \<and> mm_pools mm' = Map.empty)\<^sup>*\<^sup>* (new_memory_manager 0 2000000000) ?mm"
    using st facts unfolding sample_new_def [symmetric] by (intro r_into_rtranclp) simp
  note all = memory_never_overcommitted [OF run]
  have "mm_used_memory ?mm = total_of ma_size (mm_allocations ?mm)"
    by (rule mp [OF conjunct2 [OF conjunct2 [OF all]] direct])
  from facts(2) this conjunct1 [OF all] show ?thesis
    by (intro exI [where x = ?mm] exI [where x = "max_usable ?mm"] conjI)
qed

theorem reservations_bounded_witness:
  "sum_list (snd (reserve_run (mm_reserve_memory [] 1) [300, 200, 100] sample_memory)) \<le> 400"
  using reservations_bounded [of sample_memory "[300, 200, 100]" "[]" 1, OF _ _ prod.collapse [symmetric]]
  by (simp add: memory_good_def sample_memory_facts sample_memory_available)

theorem new_manager_refuses_all_witness:
  "mm_reserve_memory [] 5 1 (new_memory_manager 0 70000000)
     = (new_memory_manager 0 70000000, Some err_insufficient_memory)"
  using new_manager_refuses_all [of 70000000 1] by simp

theorem release_instance_memory_deadlocks_witness:
  "mm_release_instance_memory [''a''] 2 ''i''
     (fst (mm_allocate [] [] 1 ''a'' ''b'' ''i'' 30 sample_memory)) = None"
proof -
  let ?mm = "fst (mm_allocate [] [] 1 ''a'' ''b'' ''i'' 30 sample_memory)"
  have a: "mm_allocations ?mm = [''a'' \<mapsto> \<lparr>ma_id = ''a'', ma_instance_id = ''i'', ma_size = 30,
      ma_pool_id = [], ma_allocated_at = 1\<rparr>]"
    by (simp add: mm_allocate_def sample_memory_facts sample_memory_available Let_def)
  then have "covers [''a''] (mm_allocations ?mm)" by (simp add: covers_def)
  from release_instance_memory_deadlocks [OF this] a show ?thesis by simp
qed

theorem release_after_allocate_witness:
  "\<exists>mm1 a. mm_allocate [] [] 1 ''a'' ''b'' ''i'' 30 sample_memory = (mm1, Inr a)
    \<and> mm_used_memory (fst (mm_release [] 2 ''a'' mm1)) = 30 - ma_size a"
proof -
  obtain mm1 a where al: "mm_allocate [] [] 1 ''a'' ''b'' ''i'' 30 sample_memory = (mm1, Inr a)"
    by (simp add: mm_allocate_def sample_memory_facts sample_memory_available Let_def)
  from release_after_allocate [OF al prod.collapse [symmetric], of "[]" 2] al show ?thesis
    by (simp add: sample_memory_facts)
qed

end
