(* ===== verification/Gpu.thy ===== *)
theory Gpu
  imports InferenceTypes
begin

text \<open>
  The GPU manager of \<^verbatim>\<open>inference/gpu.go\<close>: the device table, tracked allocations
  (\<^verbatim>\<open>AllocateGPU\<close>/\<^verbatim>\<open>ReleaseGPU\<close>), the untracked reservations the scheduler uses
  (\<^verbatim>\<open>ReserveGPUMemory\<close>/\<^verbatim>\<open>ReleaseGPUMemory\<close>), selection of the best device and the reports. Device
  detection is a placeholder in the source that finds no device; the table is filled by
  \<^verbatim>\<open>UpdateGPUInfo\<close>. Floating-point products and sums are rounded one by one, as on amd64.
\<close>

section \<open>State\<close>

record gpu_manager_config =
  gc_enable_monitoring :: bool
  gc_monitor_interval :: duration
  gc_memory_buffer :: int
  gc_max_utilization :: rat
  gc_enable_gpu_layers :: bool
  gc_default_gpu_layers :: int

record gpu_manager =
  gm_devices :: "int \<rightharpoonup> gpu_info"
  gm_allocations :: "int \<rightharpoonup> resource_allocation list"
  gm_config :: gpu_manager_config

definition default_gpu_config :: gpu_manager_config where
  "default_gpu_config =
     \<lparr>gc_enable_monitoring = True, gc_monitor_interval = 5 * second,
      gc_memory_buffer = 500 * 1024 * 1024, gc_max_utilization = fl (9 / 10),
      gc_enable_gpu_layers = True, gc_default_gpu_layers = - 1\<rparr>"

definition detect_nvidia_gpus :: "gpu_info list" where
  "detect_nvidia_gpus = []"

definition detect_gpus :: "gpu_manager \<Rightarrow> gpu_manager" where
  "detect_gpus gm =
     gm\<lparr>gm_devices := fold (\<lambda>gpu m. m(gpu_id gpu \<mapsto> gpu)) detect_nvidia_gpus (gm_devices gm)\<rparr>"

definition new_gpu_manager :: "gpu_manager_config option \<Rightarrow> gpu_manager" where
  "new_gpu_manager config =
     detect_gpus \<lparr>gm_devices = Map.empty, gm_allocations = Map.empty,
       gm_config = (case config of None \<Rightarrow> default_gpu_config | Some c \<Rightarrow> c)\<rparr>"

section \<open>Available memory\<close>

definition device_allocations :: "int \<Rightarrow> gpu_manager \<Rightarrow> resource_allocation list" where
  "device_allocations device_id gm =
     (case gm_allocations gm device_id of None \<Rightarrow> [] | Some as \<Rightarrow> as)"

definition allocated_bytes :: "resource_allocation list \<Rightarrow> int" where
  "allocated_bytes as = sum_list (map ra_gpu_memory_bytes as)"

definition gpu_available :: "gpu_manager \<Rightarrow> gpu_info \<Rightarrow> int" where
  "gpu_available gm gpu =
     (let available = gpu_memory_total gpu - allocated_bytes (device_allocations (gpu_id gpu) gm)
            - gc_memory_buffer (gm_config gm)
      in if available < 0 then 0 else available)"

definition utilization_limit :: "gpu_manager \<Rightarrow> int" where
  "utilization_limit gm = f_trunc (fl (gc_max_utilization (gm_config gm) * 100))"

section \<open>Devices\<close>

definition get_device :: "int \<Rightarrow> gpu_manager \<Rightarrow> go_error + gpu_info" where
  "get_device device_id gm =
     (case gm_devices gm device_id of
        None \<Rightarrow> Inl (PlainError ''GPU device not found'')
      | Some gpu \<Rightarrow> Inr gpu)"

definition gpu_info_list :: "int list \<Rightarrow> gpu_manager \<Rightarrow> gpu_info list" where
  "gpu_info_list ks gm = map snd (visit ks (gm_devices gm))"

definition available_devices :: "int list \<Rightarrow> int \<Rightarrow> gpu_manager \<Rightarrow> gpu_info list" where
  "available_devices ks required gm =
     filter (\<lambda>gpu. required \<le> gpu_available gm gpu) (gpu_info_list ks gm)"

definition update_gpu_info :: "int \<Rightarrow> gpu_info \<Rightarrow> gpu_manager \<Rightarrow> gpu_manager" where
  "update_gpu_info device_id info gm = gm\<lparr>gm_devices := (gm_devices gm)(device_id \<mapsto> info)\<rparr>"

definition has_gpu_available :: "int list \<Rightarrow> gpu_manager \<Rightarrow> bool" where
  "has_gpu_available ks gm \<longleftrightarrow> 0 < length (visit ks (gm_devices gm))"

definition gpu_count :: "int list \<Rightarrow> gpu_manager \<Rightarrow> int" where
  "gpu_count ks gm = int (length (visit ks (gm_devices gm)))"

section \<open>Allocation and reservation\<close>

definition allocate_gpu :: "time \<Rightarrow> int \<Rightarrow> resource_allocation \<Rightarrow> gpu_manager
    \<Rightarrow> gpu_manager \<times> (go_error + resource_allocation)" where
  "allocate_gpu now device_id allocation gm =
     (case gm_devices gm device_id of
        None \<Rightarrow> (gm, Inl err_no_available_gpu)
      | Some gpu \<Rightarrow>
          if gpu_available gm gpu < ra_gpu_memory_bytes allocation
          then (gm, Inl err_insufficient_gpu_memory)
          else if utilization_limit gm < gpu_utilization gpu
          then (gm, Inl (with_retryable True (new_error ErrGPUAllocationFailed ''GPU utilization too high'')))
          else let allocation = allocation\<lparr>ra_device_id := device_id, ra_device_type := DeviceGPU,
                                           ra_allocated_at := now\<rparr>
               in (gm\<lparr>gm_allocations := (gm_allocations gm)(device_id \<mapsto>
                          device_allocations device_id gm @ [allocation]),
                      gm_devices := (gm_devices gm)(device_id \<mapsto>
                          gpu\<lparr>gpu_memory_used := gpu_memory_used gpu + ra_gpu_memory_bytes allocation\<rparr>)\<rparr>,
                   Inr allocation))"

text \<open>The memory-used counter of a device, less some bytes, but at least 0.\<close>

definition give_back :: "int \<Rightarrow> gpu_info \<Rightarrow> gpu_info" where
  "give_back bytes gpu =
     (let used = gpu_memory_used gpu - bytes
      in gpu\<lparr>gpu_memory_used := (if used < 0 then 0 else used)\<rparr>)"

fun remove_first :: "('a \<Rightarrow> bool) \<Rightarrow> 'a list \<Rightarrow> 'a list option" where
  "remove_first P [] = None"
| "remove_first P (x # xs) = (if P x then Some xs else map_option ((#) x) (remove_first P xs))"

definition release_gpu :: "resource_allocation \<Rightarrow> gpu_manager \<Rightarrow> gpu_manager" where
  "release_gpu allocation gm =
     (if ra_device_type allocation \<noteq> DeviceGPU then gm
      else case gm_allocations gm (ra_device_id allocation) of
        None \<Rightarrow> gm
      | Some as \<Rightarrow>
          (case remove_first (\<lambda>a. ra_instance_id a = ra_instance_id allocation) as of
             None \<Rightarrow> gm
           | Some as' \<Rightarrow>
               gm\<lparr>gm_allocations := (gm_allocations gm)(ra_device_id allocation \<mapsto> as'),
                  gm_devices := (gm_devices gm)(ra_device_id allocation :=
                    map_option (give_back (ra_gpu_memory_bytes allocation))
                      (gm_devices gm (ra_device_id allocation)))\<rparr>))"

definition reserve_gpu_memory :: "int \<Rightarrow> int \<Rightarrow> gpu_manager \<Rightarrow> gpu_manager \<times> go_error option" where
  "reserve_gpu_memory device_id bytes gm =
     (case gm_devices gm device_id of
        None \<Rightarrow> (gm, Some (PlainError ''GPU device not found''))
      | Some gpu \<Rightarrow>
          if gpu_available gm gpu < bytes then (gm, Some err_insufficient_gpu_memory)
          else (gm\<lparr>gm_devices := (gm_devices gm)(device_id \<mapsto>
                     gpu\<lparr>gpu_memory_used := gpu_memory_used gpu + bytes\<rparr>)\<rparr>, None))"

definition release_gpu_memory :: "int \<Rightarrow> int \<Rightarrow> gpu_manager \<Rightarrow> gpu_manager" where
  "release_gpu_memory device_id bytes gm =
     gm\<lparr>gm_devices := (gm_devices gm)(device_id := map_option (give_back bytes) (gm_devices gm device_id))\<rparr>"

section \<open>Selection of the best device\<close>

definition gpu_score :: "gpu_manager \<Rightarrow> gpu_info \<Rightarrow> rat" where
  "gpu_score gm gpu =
     (let memory_score = fl (fl (of_int (gpu_available gm gpu)) / fl (of_int (gpu_memory_total gpu)));
          utilization_score = fl (1 - fl (fl (of_int (gpu_utilization gpu)) / 100))
      in fl (fl (memory_score * fl (6 / 10)) + fl (utilization_score * fl (4 / 10))))"

definition gpu_eligible :: "gpu_manager \<Rightarrow> int \<Rightarrow> gpu_info \<Rightarrow> bool" where
  "gpu_eligible gm required gpu \<longleftrightarrow>
     required \<le> gpu_available gm gpu \<and> gpu_utilization gpu \<le> utilization_limit gm"

fun best_gpu_loop :: "gpu_manager \<Rightarrow> int \<Rightarrow> int \<times> rat \<Rightarrow> gpu_info list \<Rightarrow> int \<times> rat" where
  "best_gpu_loop gm required best [] = best"
| "best_gpu_loop gm required best (gpu # gpus) =
     (if \<not> gpu_eligible gm required gpu then best_gpu_loop gm required best gpus
      else if snd best < gpu_score gm gpu
      then best_gpu_loop gm required (gpu_id gpu, gpu_score gm gpu) gpus
      else best_gpu_loop gm required best gpus)"

definition select_best_gpu :: "int list \<Rightarrow> int \<Rightarrow> gpu_manager \<Rightarrow> go_error + int" where
  "select_best_gpu ks required gm =
     (let best = fst (best_gpu_loop gm required (- 1, - 1) (gpu_info_list ks gm))
      in if best = - 1 then Inl err_no_available_gpu else Inr best)"

section \<open>Reports\<close>

record gpu_usage_stats =
  gu_device_id :: int
  gu_memory_total :: int
  gu_memory_used :: int
  gu_memory_allocated :: int
  gu_memory_available :: int
  gu_utilization :: int
  gu_instance_count :: int
  gu_updated_at :: time

definition get_gpu_usage :: "time \<Rightarrow> int \<Rightarrow> gpu_manager \<Rightarrow> go_error + gpu_usage_stats" where
  "get_gpu_usage now device_id gm =
     (case gm_devices gm device_id of
        None \<Rightarrow> Inl (PlainError ''GPU device not found'')
      | Some gpu \<Rightarrow>
          let as = device_allocations device_id gm
          in Inr \<lparr>gu_device_id = device_id, gu_memory_total = gpu_memory_total gpu,
                  gu_memory_used = gpu_memory_used gpu, gu_memory_allocated = allocated_bytes as,
                  gu_memory_available = gpu_available gm gpu, gu_utilization = gpu_utilization gpu,
                  gu_instance_count = int (length as), gu_updated_at = now\<rparr>)"

definition average_gpu_usage :: "int list \<Rightarrow> gpu_manager \<Rightarrow> rat" where
  "average_gpu_usage ks gm =
     (let gpus = gpu_info_list ks gm
      in if gpus = [] then 0
         else fl (foldl (\<lambda>total gpu. fl (total + fl (of_int (gpu_utilization gpu)))) 0 gpus
                  / fl (of_int (int (length gpus)))))"

definition total_gpu_memory_used :: "int list \<Rightarrow> gpu_manager \<Rightarrow> int" where
  "total_gpu_memory_used ks gm = sum_list (map gpu_memory_used (gpu_info_list ks gm))"

definition total_gpu_memory :: "int list \<Rightarrow> gpu_manager \<Rightarrow> int" where
  "total_gpu_memory ks gm = sum_list (map gpu_memory_total (gpu_info_list ks gm))"

section \<open>Tracked allocations fit the device\<close>

text \<open>
  The invariant: a device is stored under its own id, and the allocations tracked for it leave the
  buffer free (if there are any). Zero and positive allocation sizes only.
\<close>

definition gpu_ok :: "gpu_manager \<Rightarrow> bool" where
  "gpu_ok gm \<longleftrightarrow>
     (\<forall>d gpu. gm_devices gm d = Some gpu \<longrightarrow> gpu_id gpu = d
        \<and> (device_allocations d gm = []
           \<or> allocated_bytes (device_allocations d gm) + gc_memory_buffer (gm_config gm) \<le> gpu_memory_total gpu))
   \<and> (\<forall>d. \<forall>a\<in>set (device_allocations d gm). 0 \<le> ra_gpu_memory_bytes a)"

inductive gpu_step :: "gpu_manager \<Rightarrow> gpu_manager \<Rightarrow> bool" where
  gs_allocate: "0 < ra_gpu_memory_bytes allocation \<Longrightarrow>
    allocate_gpu now device_id allocation gm = (gm', res) \<Longrightarrow> gpu_step gm gm'"
| gs_release: "gpu_step gm (release_gpu allocation gm)"
| gs_reserve: "reserve_gpu_memory device_id bytes gm = (gm', err) \<Longrightarrow> gpu_step gm gm'"
| gs_release_reserved: "gpu_step gm (release_gpu_memory device_id bytes gm)"
| gs_refresh: "gm_devices gm device_id = Some gpu \<Longrightarrow> gpu_id info = device_id \<Longrightarrow>
    gpu_memory_total info = gpu_memory_total gpu \<Longrightarrow> gpu_step gm (update_gpu_info device_id info gm)"

lemma allocated_bytes_simps [simp]:
  "allocated_bytes [] = 0" "allocated_bytes (a # as) = ra_gpu_memory_bytes a + allocated_bytes as"
  "allocated_bytes (as @ bs) = allocated_bytes as + allocated_bytes bs"
  by (simp_all add: allocated_bytes_def)

lemma device_allocations_frame [simp]:
  "device_allocations d (gm\<lparr>gm_devices := ds\<rparr>) = device_allocations d gm"
  "device_allocations d (gm\<lparr>gm_allocations := (gm_allocations gm)(e \<mapsto> as)\<rparr>)
     = (if d = e then as else device_allocations d gm)"
  by (simp_all add: device_allocations_def)

lemma remove_first_set: "remove_first P xs = Some ys \<Longrightarrow> set ys \<subseteq> set xs"
  by (induction xs arbitrary: ys) (auto split: if_splits)

lemma remove_first_bytes:
  "remove_first P as = Some bs \<Longrightarrow> \<forall>a\<in>set as. 0 \<le> ra_gpu_memory_bytes a \<Longrightarrow>
     allocated_bytes bs \<le> allocated_bytes as"
  by (induction as arbitrary: bs) (auto split: if_splits)

lemma give_back_simps [simp]:
  "gpu_id (give_back n gpu) = gpu_id gpu" "gpu_memory_total (give_back n gpu) = gpu_memory_total gpu"
  by (simp_all add: give_back_def Let_def)

lemma gpu_ok_devices:
  assumes "gpu_ok gm" "\<And>d gpu'. ds d = Some gpu' \<Longrightarrow> \<exists>gpu. gm_devices gm d = Some gpu
      \<and> gpu_id gpu' = gpu_id gpu \<and> gpu_memory_total gpu' = gpu_memory_total gpu"
  shows "gpu_ok (gm\<lparr>gm_devices := ds\<rparr>)"
  using assms unfolding gpu_ok_def by simp metis

lemma gpu_ok_allocate:
  assumes "gpu_ok gm" "0 < ra_gpu_memory_bytes allocation"
    and "allocate_gpu now device_id allocation gm = (gm', res)"
  shows "gpu_ok gm' \<and> gm_config gm' = gm_config gm"
proof (cases "\<exists>gpu. gm_devices gm device_id = Some gpu \<and> ra_gpu_memory_bytes allocation \<le> gpu_available gm gpu
    \<and> gpu_utilization gpu \<le> utilization_limit gm")
  case False
  with assms show ?thesis
    by (auto simp: allocate_gpu_def not_le not_less split: option.splits if_splits)
next
  case True
  then obtain gpu where gpu: "gm_devices gm device_id = Some gpu"
      "ra_gpu_memory_bytes allocation \<le> gpu_available gm gpu" "gpu_utilization gpu \<le> utilization_limit gm"
    by blast
  let ?new = "allocation\<lparr>ra_device_id := device_id, ra_device_type := DeviceGPU, ra_allocated_at := now\<rparr>"
  have id: "gpu_id gpu = device_id" using assms(1) gpu(1) by (simp add: gpu_ok_def)
  have fits: "allocated_bytes (device_allocations device_id gm) + ra_gpu_memory_bytes allocation
      + gc_memory_buffer (gm_config gm) \<le> gpu_memory_total gpu"
    using gpu(2) assms(2) by (auto simp: gpu_available_def id Let_def split: if_splits)
  let ?gm = "gm\<lparr>gm_allocations := (gm_allocations gm)(device_id \<mapsto> device_allocations device_id gm @ [?new])\<rparr>"
  have "gpu_ok ?gm"
    using assms(1,2) fits gpu(1) by (auto simp: gpu_ok_def)
  then have "gpu_ok (?gm\<lparr>gm_devices := (gm_devices gm)(device_id \<mapsto>
      gpu\<lparr>gpu_memory_used := gpu_memory_used gpu + ra_gpu_memory_bytes allocation\<rparr>)\<rparr>)"
    using gpu(1) by (intro gpu_ok_devices) (auto split: if_splits)
  with assms(3) gpu show ?thesis by (auto simp: allocate_gpu_def Let_def)
qed

lemma gpu_ok_release:
  assumes "gpu_ok gm"
  shows "gpu_ok (release_gpu allocation gm) \<and> gm_config (release_gpu allocation gm) = gm_config gm"
proof (cases "ra_device_type allocation = DeviceGPU \<and> (\<exists>as as'. gm_allocations gm (ra_device_id allocation) = Some as
    \<and> remove_first (\<lambda>a. ra_instance_id a = ra_instance_id allocation) as = Some as')")
  case False
  with assms show ?thesis by (auto simp: release_gpu_def split: option.split)
next
  case True
  let ?d = "ra_device_id allocation"
  from True obtain as as' where as: "gm_allocations gm ?d = Some as"
      "remove_first (\<lambda>a. ra_instance_id a = ra_instance_id allocation) as = Some as'" by blast
  have old: "device_allocations ?d gm = as" using as(1) by (simp add: device_allocations_def)
  have pos: "\<forall>a\<in>set as. 0 \<le> ra_gpu_memory_bytes a" using assms old by (auto simp: gpu_ok_def)
  let ?gm = "gm\<lparr>gm_allocations := (gm_allocations gm)(?d \<mapsto> as')\<rparr>"
  have "as \<noteq> []" using as(2) by auto
  then have "gpu_ok ?gm"
    using assms old remove_first_bytes [OF as(2) pos] remove_first_set [OF as(2)] pos
    by (fastforce simp: gpu_ok_def)
  then have "gpu_ok (?gm\<lparr>gm_devices := (gm_devices gm)(?d :=
      map_option (give_back (ra_gpu_memory_bytes allocation)) (gm_devices gm ?d))\<rparr>)"
    by (intro gpu_ok_devices) (auto split: if_splits)
  with True as show ?thesis by (simp add: release_gpu_def)
qed

lemma gpu_ok_step: "gpu_step gm gm' \<Longrightarrow> gpu_ok gm \<Longrightarrow> gpu_ok gm' \<and> gm_config gm' = gm_config gm"
proof (induction rule: gpu_step.induct)
  case (gs_allocate allocation now device_id gm gm' res)
  then show ?case by (intro gpu_ok_allocate) auto
next
  case (gs_release gm allocation)
  then show ?case by (rule gpu_ok_release)
next
  case (gs_reserve device_id bytes gm gm' err)
  then show ?case
    by (auto simp: reserve_gpu_memory_def split: option.splits if_splits intro!: gpu_ok_devices)
next
  case (gs_release_reserved gm device_id bytes)
  then show ?case
    by (auto simp: release_gpu_memory_def split: if_splits intro!: gpu_ok_devices)
next
  case (gs_refresh gm device_id gpu info)
  then have "gpu_id gpu = device_id" by (simp add: gpu_ok_def)
  with gs_refresh show ?case
    by (auto simp: update_gpu_info_def split: if_splits intro!: gpu_ok_devices)
qed

text \<open>Tracked GPU memory. From a manager whose devices are within their memory, after any sequence of
  allocations, releases, reservations and monitor refreshes that keep a device's size, the memory
  tracked on a device that has allocations, plus the configured buffer, fits the device.\<close>

theorem gpu_never_oversubscribed:
  assumes "gpu_step\<^sup>*\<^sup>* gm gm'" "gpu_ok gm" "gm_devices gm' d = Some gpu" "device_allocations d gm' \<noteq> []"
  shows "allocated_bytes (device_allocations d gm') + gc_memory_buffer (gm_config gm) \<le> gpu_memory_total gpu"
proof -
  from assms(1,2) have "gpu_ok gm' \<and> gm_config gm' = gm_config gm"
    by (induction rule: rtranclp_induct) (auto dest: gpu_ok_step)
  with assms(3,4) show ?thesis unfolding gpu_ok_def by metis
qed

section \<open>Reservations are not counted\<close>

text \<open>A run of reservations of the same size on one device.\<close>

primrec reserve_times :: "nat \<Rightarrow> int \<Rightarrow> int \<Rightarrow> gpu_manager \<Rightarrow> gpu_manager \<times> go_error option list" where
  "reserve_times 0 d bytes gm = (gm, [])"
| "reserve_times (Suc n) d bytes gm =
     (case reserve_gpu_memory d bytes gm of
        (gm', err) \<Rightarrow> (case reserve_times n d bytes gm' of (gm'', errs) \<Rightarrow> (gm'', err # errs)))"

text \<open>\<^verbatim>\<open>ReserveGPUMemory\<close> raises the device's memory-used counter, but what is available is computed
  from the tracked allocations only: a reservation that is granted once is granted any number of
  times in a row, however far that exceeds the device.\<close>

theorem gpu_reservations_unbounded:
  assumes "gm_devices gm d = Some gpu" "bytes \<le> gpu_available gm gpu"
  shows "\<exists>gm'. reserve_times n d bytes gm = (gm', replicate n None)
    \<and> map_option gpu_memory_used (gm_devices gm' d) = Some (gpu_memory_used gpu + int n * bytes)"
  using assms
proof (induction n arbitrary: gm gpu)
  case (Suc n)
  let ?gpu = "gpu\<lparr>gpu_memory_used := gpu_memory_used gpu + bytes\<rparr>"
  let ?gm = "gm\<lparr>gm_devices := (gm_devices gm)(d \<mapsto> ?gpu)\<rparr>"
  have r: "reserve_gpu_memory d bytes gm = (?gm, None)"
    using Suc.prems by (simp add: reserve_gpu_memory_def)
  have "gpu_available ?gm ?gpu = gpu_available gm gpu"
    by (simp add: gpu_available_def)
  with Suc.prems have "bytes \<le> gpu_available ?gm ?gpu" by simp
  from Suc.IH [OF _ this] obtain gm' where "reserve_times n d bytes ?gm = (gm', replicate n None)"
      "map_option gpu_memory_used (gm_devices gm' d) = Some (gpu_memory_used ?gpu + int n * bytes)"
    by auto
  with r show ?case by (auto simp: algebra_simps)
qed simp

section \<open>The selected device is the best eligible one\<close>

lemma best_gpu_loop_result:
  "snd best \<le> snd (best_gpu_loop gm required best gpus)
   \<and> (\<forall>g\<in>set gpus. gpu_eligible gm required g \<longrightarrow> gpu_score gm g \<le> snd (best_gpu_loop gm required best gpus))
   \<and> (best_gpu_loop gm required best gpus = best
      \<or> (\<exists>g\<in>set gpus. gpu_eligible gm required g
          \<and> best_gpu_loop gm required best gpus = (gpu_id g, gpu_score gm g)))"
proof (induction gm required best gpus rule: best_gpu_loop.induct)
  case (2 gm required best gpu gpus)
  consider (skip) "\<not> gpu_eligible gm required gpu"
    | (better) "gpu_eligible gm required gpu" "snd best < gpu_score gm gpu"
    | (worse) "gpu_eligible gm required gpu" "gpu_score gm gpu \<le> snd best"
    by linarith
  then show ?case
  proof cases
    case skip
    with 2(1) show ?thesis by auto
  next
    case better
    with 2(2) show ?thesis by auto
  next
    case worse
    with 2(3) show ?thesis by auto
  qed
qed simp

lemma gpu_score_nonneg:
  assumes "gpu_eligible gm required gpu" "gc_max_utilization (gm_config gm) \<le> 1" "0 < gpu_memory_total gpu"
  shows "0 \<le> gpu_score gm gpu"
proof -
  have "fl (gc_max_utilization (gm_config gm) * 100) \<le> 100"
    using fl_mono [of "gc_max_utilization (gm_config gm) * 100" 100] assms(2) by (simp add: fl_numeral)
  then have "utilization_limit gm \<le> 100"
    by (auto simp: utilization_limit_def f_trunc_def floor_le_iff ceiling_le_iff)
  with assms(1) have "gpu_utilization gpu \<le> 100" by (simp add: gpu_eligible_def)
  then have "(of_int (gpu_utilization gpu) :: rat) \<le> 100"
    using of_int_le_iff [of "gpu_utilization gpu" 100, where 'a = rat] by simp
  then have "fl (of_int (gpu_utilization gpu)) \<le> 100"
    using fl_mono [of "of_int (gpu_utilization gpu)" 100] by (simp add: fl_numeral)
  then have "fl (fl (of_int (gpu_utilization gpu)) / 100) \<le> 1"
    using fl_mono [of "fl (of_int (gpu_utilization gpu)) / 100" 1] by simp
  then have "0 \<le> fl (1 - fl (fl (of_int (gpu_utilization gpu)) / 100))"
    by (intro fl_nonneg) simp
  moreover have "0 \<le> gpu_available gm gpu" by (simp add: gpu_available_def Let_def)
  then have "0 \<le> fl (fl (of_int (gpu_available gm gpu)) / fl (of_int (gpu_memory_total gpu)))"
    using assms(3) by (intro fl_nonneg divide_nonneg_nonneg) auto
  ultimately show ?thesis
    unfolding gpu_score_def Let_def using fl_nonneg [of "6 / 10"] fl_nonneg [of "4 / 10"]
    by (intro fl_nonneg [of "_ + _"] add_nonneg_nonneg fl_nonneg [of "_ * _"] mult_nonneg_nonneg) auto
qed

text \<open>\<^verbatim>\<open>SelectBestGPU\<close>. For a table of devices with non-negative ids and positive sizes, and a maximal
  utilization of at most 1, in whatever order the table is visited: an error means no device is
  eligible (enough free memory and utilization within the limit), and a returned device is eligible
  and has the highest score of all eligible devices.\<close>

theorem select_best_gpu_correct:
  assumes "covers ks (gm_devices gm)" "gc_max_utilization (gm_config gm) \<le> 1"
    and "\<forall>d gpu. gm_devices gm d = Some gpu \<longrightarrow> gpu_id gpu = d \<and> 0 \<le> d \<and> 0 < gpu_memory_total gpu"
  shows "case select_best_gpu ks required gm of
      Inl _ \<Rightarrow> \<forall>d gpu. gm_devices gm d = Some gpu \<longrightarrow> \<not> gpu_eligible gm required gpu
    | Inr d \<Rightarrow> \<exists>gpu. gm_devices gm d = Some gpu \<and> gpu_eligible gm required gpu
        \<and> (\<forall>d' gpu'. gm_devices gm d' = Some gpu' \<longrightarrow> gpu_eligible gm required gpu' \<longrightarrow>
             gpu_score gm gpu' \<le> gpu_score gm gpu)"
proof -
  let ?gpus = "gpu_info_list ks gm"
  have mem: "g \<in> set ?gpus \<longleftrightarrow> (\<exists>d. gm_devices gm d = Some g)" for g
  proof -
    have "g \<in> set ?gpus \<longleftrightarrow> (\<exists>d. (d, g) \<in> set (visit ks (gm_devices gm)))"
      unfolding gpu_info_list_def by force
    then show ?thesis by (simp add: in_visit [OF assms(1)])
  qed
  let ?r = "best_gpu_loop gm required (- 1, - 1) ?gpus"
  note r = best_gpu_loop_result [of "(- 1, - 1)" gm required ?gpus]
  from r consider (none) "?r = (- 1, - 1)"
    | (some) g where "g \<in> set ?gpus" "gpu_eligible gm required g" "?r = (gpu_id g, gpu_score gm g)" by blast
  then show ?thesis
  proof cases
    case none
    have "\<not> gpu_eligible gm required g" if "gm_devices gm d = Some g" for d g
    proof
      assume e: "gpu_eligible gm required g"
      from that mem have "g \<in> set ?gpus" by blast
      with r none e have "gpu_score gm g \<le> - 1" by auto
      moreover have "0 \<le> gpu_score gm g" using gpu_score_nonneg [OF e assms(2)] assms(3) that by blast
      ultimately show False by simp
    qed
    with none show ?thesis by (auto simp: select_best_gpu_def)
  next
    case some
    from some(1) mem assms(3) have d: "gm_devices gm (gpu_id g) = Some g" "0 \<le> gpu_id g" by auto
    have "select_best_gpu ks required gm = Inr (gpu_id g)"
      using some d by (simp add: select_best_gpu_def)
    moreover have "\<forall>d' gpu'. gm_devices gm d' = Some gpu' \<longrightarrow> gpu_eligible gm required gpu' \<longrightarrow>
        gpu_score gm gpu' \<le> gpu_score gm g"
      using r some mem by auto
    ultimately show ?thesis using some d by auto
  qed
qed

section \<open>Witnesses\<close>

definition sample_gpu :: "int \<Rightarrow> gpu_info" where
  "sample_gpu d = \<lparr>gpu_id = d, gpu_memory_total = 1000, gpu_memory_used = 0, gpu_memory_free = 1000,
     gpu_utilization = 10\<rparr>"

definition sample_gpus :: gpu_manager where
  "sample_gpus = update_gpu_info 0 (sample_gpu 0)
     (new_gpu_manager (Some (default_gpu_config\<lparr>gc_memory_buffer := 100\<rparr>)))"

definition sample_allocation :: "string \<Rightarrow> resource_allocation" where
  "sample_allocation i = \<lparr>ra_instance_id = i, ra_device_type = DeviceGPU, ra_device_id = 0,
     ra_cpu_threads = 4, ra_memory_bytes = 50, ra_gpu_memory_bytes = 600, ra_gpu_layers = 1,
     ra_allocated_at = 0\<rparr>"

lemma utilization_limit_default:
  "gc_max_utilization (gm_config gm) = fl (9 / 10) \<Longrightarrow> utilization_limit gm = 90"
proof -
  have "f_trunc (fl (fl (9 / 10) * 100)) = 90" by code_simp
  then show "gc_max_utilization (gm_config gm) = fl (9 / 10) \<Longrightarrow> ?thesis"
    by (simp add: utilization_limit_def)
qed

lemma sample_gpus_facts:
  "gm_devices sample_gpus = [0 \<mapsto> sample_gpu 0]" "gm_allocations sample_gpus = Map.empty"
  "gm_config sample_gpus = default_gpu_config\<lparr>gc_memory_buffer := 100\<rparr>"
  "device_allocations d sample_gpus = []" "gpu_available sample_gpus (sample_gpu 0) = 900"
  "utilization_limit sample_gpus = 90"
  by (simp_all add: sample_gpus_def update_gpu_info_def new_gpu_manager_def detect_gpus_def
      detect_nvidia_gpus_def device_allocations_def gpu_available_def sample_gpu_def
      utilization_limit_default default_gpu_config_def)

theorem gpu_never_oversubscribed_witness:
  "allocated_bytes (device_allocations 0 (fst (allocate_gpu 1 0 (sample_allocation ''i'') sample_gpus))) + 100
    \<le> 1000"
proof -
  let ?gm = "fst (allocate_gpu 1 0 (sample_allocation ''i'') sample_gpus)"
  have "gpu_step sample_gpus ?gm"
    by (rule gs_allocate [of "sample_allocation ''i''" 1 0 _ _
          "snd (allocate_gpu 1 0 (sample_allocation ''i'') sample_gpus)"])
      (simp_all add: sample_allocation_def)
  then have run: "gpu_step\<^sup>*\<^sup>* sample_gpus ?gm" by (rule r_into_rtranclp)
  have ok: "gpu_ok sample_gpus" by (simp add: gpu_ok_def sample_gpus_facts) (simp add: sample_gpu_def)
  have "gm_devices ?gm 0 = Some (sample_gpu 0\<lparr>gpu_memory_used := 600\<rparr>)" "device_allocations 0 ?gm \<noteq> []"
    by (simp_all add: allocate_gpu_def sample_gpus_facts Let_def sample_allocation_def)
      (simp_all add: sample_gpu_def device_allocations_def)
  from gpu_never_oversubscribed [OF run ok this] show ?thesis
    by (simp add: sample_gpus_facts sample_gpu_def)
qed

theorem gpu_reservations_unbounded_witness:
  "\<exists>gm'. reserve_times 5 0 800 sample_gpus = (gm', replicate 5 None)
    \<and> map_option gpu_memory_used (gm_devices gm' 0) = Some 4000"
  using gpu_reservations_unbounded [of sample_gpus 0 "sample_gpu 0" 800 5]
  by (simp add: sample_gpus_facts) (simp add: sample_gpu_def)

theorem select_best_gpu_correct_witness:
  "select_best_gpu [0] 500 sample_gpus = Inr 0"
proof -
  have e: "gpu_eligible sample_gpus 500 (sample_gpu 0)"
    by (simp add: gpu_eligible_def sample_gpus_facts) (simp add: sample_gpu_def)
  have dev: "gm_devices sample_gpus d = Some gpu \<longleftrightarrow> d = 0 \<and> gpu = sample_gpu 0" for d gpu
    by (auto simp: sample_gpus_facts split: if_splits)
  have "gc_max_utilization (gm_config sample_gpus) \<le> 1"
    using fl_mono [of "9 / 10" 1] by (simp add: sample_gpus_facts default_gpu_config_def)
  moreover have "covers [0] (gm_devices sample_gpus)" by (simp add: sample_gpus_facts covers_def)
  ultimately have "case select_best_gpu [0] 500 sample_gpus of
      Inl _ \<Rightarrow> \<forall>d gpu. gm_devices sample_gpus d = Some gpu \<longrightarrow> \<not> gpu_eligible sample_gpus 500 gpu
    | Inr d \<Rightarrow> d = 0"
    using select_best_gpu_correct [of "[0]" sample_gpus 500]
    by (auto simp: dev sample_gpu_def split: sum.splits)
  with e show ?thesis by (auto simp: dev split: sum.splits)
qed

end
