(* ===== verification/Instance.thy ===== *)
theory Instance
  imports InferenceTypes
begin

text \<open>
  A loaded model instance, \<^verbatim>\<open>inference/instance.go\<close>: its state, its request channel (\<open>mi_requests\<close>,
  with the capacity it was made with), request processing and the running metrics. The model runtime
  is an interface in the source; the operations that call it take its methods as arguments:
  \<open>execute\<close> for \<^verbatim>\<open>Execute\<close>, \<open>stream\<close> for \<^verbatim>\<open>ExecuteStream\<close> (each chunk is its error, if any).
  \<^verbatim>\<open>processRequest\<close> is split at the call of the runtime into \<open>process_start\<close> and \<open>process_finish\<close>,
  because the lock is free in between.
\<close>

section \<open>State\<close>

record performance_metrics =
  pm_instance_id :: string
  pm_model_id :: string
  pm_request_count :: int
  pm_success_count :: int
  pm_error_count :: int
  pm_avg_latency :: duration
  pm_min_latency :: duration
  pm_max_latency :: duration
  pm_uptime :: duration
  pm_updated_at :: time

record model_instance =
  mi_id :: string
  mi_model_id :: string
  mi_config :: instance_config
  mi_state :: instance_state
  mi_loaded_at :: time
  mi_last_used :: time
  mi_has_runtime :: bool
  mi_metrics :: "performance_metrics option"
  mi_requests :: "inference_request list"
  mi_channel_capacity :: int
  mi_current_requests :: int
  mi_total_requests :: int
  mi_failed_requests :: int

definition is_ready :: "model_instance \<Rightarrow> bool" where
  "is_ready i = (case mi_state i of StateActive \<Rightarrow> True | StateIdle \<Rightarrow> True | StateBusy \<Rightarrow> True | _ \<Rightarrow> False)"

definition set_state :: "instance_state \<Rightarrow> model_instance \<Rightarrow> model_instance" where
  "set_state st i = i\<lparr>mi_state := st\<rparr>"

definition get_queue_size :: "model_instance \<Rightarrow> int" where
  "get_queue_size i = int (length (mi_requests i))"

definition get_capacity :: "model_instance \<Rightarrow> int" where
  "get_capacity i = ic_max_queue_size (mi_config i) - int (length (mi_requests i))"

definition update_last_used :: "time \<Rightarrow> model_instance \<Rightarrow> model_instance" where
  "update_last_used now i = i\<lparr>mi_last_used := now\<rparr>"

definition idle_duration :: "time \<Rightarrow> model_instance \<Rightarrow> duration" where
  "idle_duration now i = time_sub now (mi_last_used i)"

definition instance_uptime :: "time \<Rightarrow> model_instance \<Rightarrow> duration" where
  "instance_uptime now i = time_sub now (mi_loaded_at i)"

text \<open>\<^verbatim>\<open>GetMetrics\<close> dereferences the metrics pointer, which is nil before the first request.\<close>

definition get_metrics :: "time \<Rightarrow> model_instance \<Rightarrow> performance_metrics option" where
  "get_metrics now i = map_option (\<lambda>m. m\<lparr>pm_uptime := time_sub now (mi_loaded_at i)\<rparr>) (mi_metrics i)"

section \<open>Health\<close>

definition health_check :: "(model_instance \<Rightarrow> go_error option) \<Rightarrow> model_instance \<Rightarrow> go_error option" where
  "health_check runtime_check i =
     (case mi_state i of
        StateLoading \<Rightarrow> None | StateUnloading \<Rightarrow> None | StateStopped \<Rightarrow> None | StateError \<Rightarrow> None
      | StateRestarting \<Rightarrow> Some (PlainError ''instance in unknown state'')
      | StateOther _ \<Rightarrow> Some (PlainError ''instance in unknown state'')
      | _ \<Rightarrow>
          (case (if mi_has_runtime i then runtime_check i else None) of
             Some e \<Rightarrow> Some (WrappedError ''runtime health check failed'' e)
           | None \<Rightarrow>
               if go_div (ic_max_queue_size (mi_config i)) 2 < int (length (mi_requests i))
               then Some (PlainError ''request queue is backed up'') else None))"

section \<open>Queueing\<close>

definition instance_queue_request :: "time \<Rightarrow> inference_request \<Rightarrow> model_instance
    \<Rightarrow> model_instance \<times> inference_request \<times> go_error option" where
  "instance_queue_request now req i =
     (if mi_state i \<noteq> StateActive \<and> mi_state i \<noteq> StateIdle \<and> mi_state i \<noteq> StateBusy
      then (i, req, Some (err_instance_not_ready (mi_id i)))
      else if ic_max_queue_size (mi_config i) \<le> int (length (mi_requests i))
      then (i, req, Some (err_request_queue_full (mi_id i)))
      else
        let req = (if rq_timeout req = 0 then req\<lparr>rq_timeout := ic_timeout (mi_config i)\<rparr> else req);
            req = (if rq_created_at req = time_zero then req\<lparr>rq_created_at := now\<rparr> else req)
        in if int (length (mi_requests i)) < mi_channel_capacity i
           then (i\<lparr>mi_requests := mi_requests i @ [req]\<rparr>, req, None)
           else (i, req, Some (err_request_queue_full (mi_id i))))"

section \<open>Execution\<close>

definition instance_validate :: "model_instance \<Rightarrow> inference_request \<Rightarrow> go_error option" where
  "instance_validate i req =
     (if rq_prompt req = [] \<and> rq_messages req = []
      then Some (new_error ErrRequestInvalid ''Request must have either prompt or messages'')
      else if 0 < rq_max_tokens req \<and> ic_max_tokens (mi_config i) < rq_max_tokens req
      then Some err_token_limit_exceeded
      else None)"

definition execute_sync :: "(model_instance \<Rightarrow> inference_request \<Rightarrow> go_error + inference_response)
    \<Rightarrow> model_instance \<Rightarrow> inference_request \<Rightarrow> go_error + inference_response" where
  "execute_sync execute i req =
     (if \<not> mi_has_runtime i then Inl (new_error ErrRuntimeNotInitialized ''Runtime not initialized'')
      else case instance_validate i req of
        Some e \<Rightarrow> Inl e
      | None \<Rightarrow>
          (case execute i req of
             Inl e \<Rightarrow> Inl (err_inference_failed (rq_id req) e)
           | Inr resp \<Rightarrow> Inr (resp\<lparr>rs_instance_id := mi_id i, rs_request_id := rq_id req,
                                   rs_model_id := mi_model_id i\<rparr>)))"

fun drain_stream :: "go_error option list \<Rightarrow> go_error option" where
  "drain_stream [] = None"
| "drain_stream (Some e # _) = Some e"
| "drain_stream (None # chunks) = drain_stream chunks"

definition execute_streaming :: "(model_instance \<Rightarrow> inference_request \<Rightarrow> go_error + go_error option list)
    \<Rightarrow> model_instance \<Rightarrow> inference_request \<Rightarrow> go_error option" where
  "execute_streaming stream i req =
     (if \<not> mi_has_runtime i then Some (new_error ErrRuntimeNotInitialized ''Runtime not initialized'')
      else case instance_validate i req of
        Some e \<Rightarrow> Some e
      | None \<Rightarrow>
          (case stream i req of
             Inl e \<Rightarrow> Some (with_retryable False (with_request_id (rq_id req)
                        (wrap_error ErrStreamingFailed ''Streaming inference failed'' e)))
           | Inr chunks \<Rightarrow> drain_stream chunks))"

definition update_metrics :: "time \<Rightarrow> duration \<Rightarrow> bool \<Rightarrow> model_instance \<Rightarrow> model_instance" where
  "update_metrics now latency ok i =
     (let m = (case mi_metrics i of
            Some m \<Rightarrow> m
          | None \<Rightarrow> \<lparr>pm_instance_id = mi_id i, pm_model_id = mi_model_id i, pm_request_count = 0,
                     pm_success_count = 0, pm_error_count = 0, pm_avg_latency = 0,
                     pm_min_latency = latency, pm_max_latency = latency, pm_uptime = 0,
                     pm_updated_at = now\<rparr>);
          m = m\<lparr>pm_request_count := pm_request_count m + 1\<rparr>;
          m = (if ok then m\<lparr>pm_success_count := pm_success_count m + 1\<rparr>
               else m\<lparr>pm_error_count := pm_error_count m + 1\<rparr>);
          m = (if latency < pm_min_latency m then m\<lparr>pm_min_latency := latency\<rparr> else m);
          m = (if pm_max_latency m < latency then m\<lparr>pm_max_latency := latency\<rparr> else m);
          n = pm_request_count m;
          m = (if n = 1 then m\<lparr>pm_avg_latency := latency\<rparr>
               else m\<lparr>pm_avg_latency := go_div (i64 (i64 (pm_avg_latency m * (n - 1)) + latency)) n\<rparr>)
      in i\<lparr>mi_metrics := Some (m\<lparr>pm_updated_at := now\<rparr>)\<rparr>)"

definition process_start :: "time \<Rightarrow> model_instance \<Rightarrow> model_instance" where
  "process_start now i =
     i\<lparr>mi_state := StateBusy, mi_last_used := now, mi_current_requests := mi_current_requests i + 1,
       mi_total_requests := mi_total_requests i + 1\<rparr>"

definition process_finish :: "time \<Rightarrow> duration \<Rightarrow> bool \<Rightarrow> model_instance \<Rightarrow> model_instance" where
  "process_finish now latency ok i =
     (let i = update_metrics now latency ok i;
          i = (if ok then i else i\<lparr>mi_failed_requests := mi_failed_requests i + 1\<rparr>);
          i = i\<lparr>mi_current_requests := mi_current_requests i - 1\<rparr>
      in if mi_state i = StateBusy
         then i\<lparr>mi_state := (if 0 < length (mi_requests i) then StateActive else StateIdle)\<rparr>
         else i)"

definition run_mode :: "(model_instance \<Rightarrow> inference_request \<Rightarrow> go_error + inference_response)
    \<Rightarrow> (model_instance \<Rightarrow> inference_request \<Rightarrow> go_error + go_error option list)
    \<Rightarrow> model_instance \<Rightarrow> inference_request \<Rightarrow> go_error option" where
  "run_mode execute stream i req =
     (case rq_mode req of
        ModeStreaming \<Rightarrow> execute_streaming stream i req
      | _ \<Rightarrow> (case execute_sync execute i req of Inl e \<Rightarrow> Some e | Inr _ \<Rightarrow> None))"

text \<open>One pass of \<^verbatim>\<open>processRequests\<close>: take a request from the channel, start, run, finish.\<close>

definition instance_process_next :: "(model_instance \<Rightarrow> inference_request \<Rightarrow> go_error + inference_response)
    \<Rightarrow> (model_instance \<Rightarrow> inference_request \<Rightarrow> go_error + go_error option list)
    \<Rightarrow> time \<Rightarrow> duration \<Rightarrow> model_instance \<Rightarrow> model_instance" where
  "instance_process_next execute stream now latency i =
     (case mi_requests i of
        [] \<Rightarrow> i
      | req # rest \<Rightarrow>
          let i = process_start now (i\<lparr>mi_requests := rest\<rparr>);
              err = run_mode execute stream i req
          in process_finish (now + latency) latency (err = None) i)"

section \<open>Metrics\<close>

fun metrics_run :: "(time \<times> duration \<times> bool) list \<Rightarrow> model_instance \<Rightarrow> model_instance" where
  "metrics_run [] i = i"
| "metrics_run ((now, latency, ok) # rs) i = metrics_run rs (update_metrics now latency ok i)"

text \<open>
  After \<open>n\<close> requests with latencies in \<open>0..bound\<close>: the counts add up, and the average lies between the
  extremes. The running average multiplies by the count in 64 bits, so \<open>bound\<close> times the number of
  requests has to stay below the overflow.
\<close>

definition metrics_ok :: "duration \<Rightarrow> int \<Rightarrow> performance_metrics option \<Rightarrow> bool" where
  "metrics_ok bound n m = (case m of
      None \<Rightarrow> n = 0
    | Some m \<Rightarrow> 1 \<le> n \<and> pm_request_count m = n \<and> pm_success_count m + pm_error_count m = n
        \<and> 0 \<le> pm_min_latency m \<and> pm_min_latency m \<le> pm_avg_latency m
        \<and> pm_avg_latency m \<le> pm_max_latency m \<and> pm_max_latency m \<le> bound)"

lemma running_average_bounds:
  assumes "1 \<le> (n::int)" "lo \<le> avg" "avg \<le> hi" "lo \<le> x" "x \<le> hi" "0 \<le> lo"
  shows "lo \<le> (avg * n + x) div (n + 1)" "(avg * n + x) div (n + 1) \<le> hi"
proof -
  have "lo * n \<le> avg * n" "avg * n \<le> hi * n" using assms by (auto intro!: mult_right_mono)
  with assms(4,5) have le: "lo * (n + 1) \<le> avg * n + x" "avg * n + x \<le> hi * (n + 1)"
    unfolding distrib_left mult_1_right by linarith+
  from le show "lo \<le> (avg * n + x) div (n + 1)"
    using assms zdiv_mono1 [of "lo * (n + 1)" "avg * n + x" "n + 1"] by simp
  from le show "(avg * n + x) div (n + 1) \<le> hi"
    using assms zdiv_mono1 [of "avg * n + x" "hi * (n + 1)" "n + 1"] by simp
qed

lemma update_metrics_ok:
  assumes "metrics_ok bound n (mi_metrics i)" "0 \<le> n" "0 \<le> latency" "latency \<le> bound"
    and "bound * (n + 1) < 2 ^ 63"
  shows "metrics_ok bound (n + 1) (mi_metrics (update_metrics now latency ok i))"
proof (cases "mi_metrics i")
  case None
  with assms show ?thesis by (auto simp: metrics_ok_def update_metrics_def Let_def)
next
  case (Some m)
  with assms have m: "1 \<le> n" "pm_request_count m = n" "pm_success_count m + pm_error_count m = n"
      "0 \<le> pm_min_latency m" "pm_min_latency m \<le> pm_avg_latency m"
      "pm_avg_latency m \<le> pm_max_latency m" "pm_max_latency m \<le> bound"
    by (auto simp: metrics_ok_def)
  have avg: "0 \<le> pm_avg_latency m" "pm_avg_latency m \<le> bound" using m by linarith+
  have prod: "pm_avg_latency m * n \<le> bound * n" using avg m(1) by (intro mult_right_mono) auto
  have bound: "bound * n + bound < 2 ^ 63" using assms(5) by (simp add: algebra_simps)
  have nn: "0 \<le> pm_avg_latency m * n" using avg m(1) by simp
  have "i64 (pm_avg_latency m * n) = pm_avg_latency m * n"
    using nn prod bound assms(3,4) by (intro i64_small) linarith+
  moreover have "i64 (pm_avg_latency m * n + latency) = pm_avg_latency m * n + latency"
    using nn prod bound assms(3,4) by (intro i64_small) linarith+
  moreover have "go_div (pm_avg_latency m * n + latency) (n + 1) = (pm_avg_latency m * n + latency) div (n + 1)"
    using nn m(1) assms(3) by (intro go_div_nonneg) auto
  ultimately have "go_div (i64 (i64 (pm_avg_latency m * n) + latency)) (n + 1)
      = (pm_avg_latency m * n + latency) div (n + 1)" by simp
  moreover define lo where "lo = (if latency < pm_min_latency m then latency else pm_min_latency m)"
  moreover define hi where "hi = (if pm_max_latency m < latency then latency else pm_max_latency m)"
  moreover have "lo \<le> (pm_avg_latency m * n + latency) div (n + 1)"
    "(pm_avg_latency m * n + latency) div (n + 1) \<le> hi" "0 \<le> lo" "hi \<le> bound"
    using m assms(3,4) running_average_bounds [of n lo "pm_avg_latency m" hi latency]
    by (auto simp: lo_def hi_def split: if_splits)
  ultimately show ?thesis using m Some
    by (simp add: metrics_ok_def update_metrics_def Let_def split: if_splits)
qed

lemma metrics_run_ok:
  assumes "metrics_ok bound n (mi_metrics i)" "0 \<le> n" "\<forall>(now, latency, ok)\<in>set rs. 0 \<le> latency \<and> latency \<le> bound"
    and "0 \<le> bound" "bound * (n + int (length rs)) < 2 ^ 63"
  shows "metrics_ok bound (n + int (length rs)) (mi_metrics (metrics_run rs i))"
  using assms
proof (induction rs arbitrary: n i)
  case (Cons r rs)
  obtain now latency ok where r: "r = (now, latency, ok)" by (cases r)
  have "bound * (n + 1) \<le> bound * (n + int (length (r # rs)))" using Cons.prems(4) by (intro mult_left_mono) auto
  with Cons.prems r have "metrics_ok bound (n + 1) (mi_metrics (update_metrics now latency ok i))"
    by (intro update_metrics_ok) auto
  from Cons.IH [OF this] Cons.prems r show ?case by (simp add: ac_simps)
qed simp

text \<open>Request metrics. After a non-empty run of requests from a fresh instance, with latencies between
  0 and \<open>bound\<close> and few enough requests for the 64-bit product, the request count is the number of
  requests, successes and errors add up to it, and minimum, average and maximum are in order.\<close>

theorem metrics_consistent:
  assumes "mi_metrics i = None" "rs \<noteq> []" "0 \<le> bound" "bound * int (length rs) < 2 ^ 63"
    and "\<forall>(now, latency, ok)\<in>set rs. 0 \<le> latency \<and> latency \<le> bound"
  shows "\<exists>m. mi_metrics (metrics_run rs i) = Some m \<and> pm_request_count m = int (length rs)
    \<and> pm_success_count m + pm_error_count m = pm_request_count m
    \<and> pm_min_latency m \<le> pm_avg_latency m \<and> pm_avg_latency m \<le> pm_max_latency m"
  using metrics_run_ok [of bound 0 i rs] assms by (auto simp: metrics_ok_def split: option.splits)

section \<open>The request queue\<close>

definition queue_ok :: "model_instance \<Rightarrow> bool" where
  "queue_ok i \<longleftrightarrow> int (length (mi_requests i)) \<le> min (mi_channel_capacity i) (ic_max_queue_size (mi_config i))"

lemma queue_ok_enqueue:
  "queue_ok i \<Longrightarrow> instance_queue_request now req i = (i', req', err) \<Longrightarrow> queue_ok i'
     \<and> (err = None \<longleftrightarrow> is_ready i \<and> int (length (mi_requests i)) < mi_channel_capacity i
          \<and> int (length (mi_requests i)) < ic_max_queue_size (mi_config i))
     \<and> mi_requests i' = mi_requests i @ (if err = None then [req'] else [])"
  by (auto simp: queue_ok_def instance_queue_request_def is_ready_def Let_def
      split: if_splits instance_state.splits)

text \<open>Queueing at an instance. A request is accepted exactly when the instance is active, idle or busy
  and there is room both in the channel and under the configured maximum; it then goes to the end of
  the queue, which never exceeds either bound.\<close>

theorem instance_queue_bounded:
  assumes "queue_ok i" "instance_queue_request now req i = (i', req', err)"
  shows "(err = None \<longleftrightarrow> is_ready i \<and> int (length (mi_requests i)) < mi_channel_capacity i
          \<and> int (length (mi_requests i)) < ic_max_queue_size (mi_config i))
     \<and> mi_requests i' = mi_requests i @ (if err = None then [req'] else [])
     \<and> int (length (mi_requests i')) \<le> min (mi_channel_capacity i') (ic_max_queue_size (mi_config i'))"
  using queue_ok_enqueue [OF assms] unfolding queue_ok_def by blast

section \<open>Witnesses\<close>

definition sample_config :: instance_config where
  "sample_config = \<lparr>ic_model_id = ''m'', ic_context_length = 1000, ic_max_tokens = 100,
     ic_device = DeviceGPU, ic_device_id = 0, ic_gpu_layers = 1, ic_threads = 0, ic_batch_size = 1,
     ic_max_queue_size = 2, ic_timeout = second\<rparr>"

definition sample_instance :: "string \<Rightarrow> instance_state \<Rightarrow> model_instance" where
  "sample_instance i st = \<lparr>mi_id = i, mi_model_id = ''m'', mi_config = sample_config, mi_state = st,
     mi_loaded_at = 0, mi_last_used = 0, mi_has_runtime = True, mi_metrics = None, mi_requests = [],
     mi_channel_capacity = 2, mi_current_requests = 0, mi_total_requests = 0, mi_failed_requests = 0\<rparr>"

theorem metrics_consistent_witness:
  "\<exists>m. mi_metrics (metrics_run [(1, 10, True), (2, 30, False), (3, 25, True)] (sample_instance ''i'' StateIdle))
      = Some m \<and> pm_request_count m = 3 \<and> pm_min_latency m \<le> pm_avg_latency m"
  using metrics_consistent [of "sample_instance ''i'' StateIdle" "[(1, 10, True), (2, 30, False), (3, 25, True)]" 30]
  by (auto simp: sample_instance_def)

theorem instance_queue_bounded_witness:
  "fst (snd (instance_queue_request 5 (sample_request ''r'') (sample_instance ''i'' StateIdle))) = sample_request ''r''
   \<and> length (mi_requests (fst (instance_queue_request 5 (sample_request ''r'') (sample_instance ''i'' StateIdle)))) = 1"
proof -
  let ?r = "instance_queue_request 5 (sample_request ''r'') (sample_instance ''i'' StateIdle)"
  have "queue_ok (sample_instance ''i'' StateIdle)"
    by (simp add: queue_ok_def sample_instance_def sample_config_def)
  from instance_queue_bounded [OF this, of 5 "sample_request ''r''" "fst ?r" "fst (snd ?r)" "snd (snd ?r)"]
  have "snd (snd ?r) = None \<and> length (mi_requests (fst ?r)) = 1"
    by (auto simp: is_ready_def sample_instance_def sample_config_def)
  moreover have "fst (snd ?r) = sample_request ''r''"
    by (simp add: instance_queue_request_def sample_instance_def sample_config_def sample_request_def
        Let_def time_zero_def)
  ultimately show ?thesis by simp
qed

end
