(* ===== verification/Scheduler.thy ===== *)
theory Scheduler
  imports Memory Gpu Instance
begin

text \<open>
  The resource scheduler of \<^verbatim>\<open>inference/scheduler.go\<close>: it owns the GPU and memory managers, tracks
  the allocations it has made and a load counter per instance, keeps one queue of requests per
  priority, and counts in its statistics. Methods run under the scheduler's lock and are atomic
  steps. The allocation id that \<^verbatim>\<open>generateAllocationID\<close> builds from the clock is an argument.
  \<^verbatim>\<open>sort.Slice\<close> orders its slice but may exchange equal elements; it is an argument \<open>sort_slice\<close>
  constrained by \<open>slice_sorter\<close>. The load-balance figure of the statistics is left out: its square root
  is cut off in the source, and it does not type check there.
\<close>

section \<open>State\<close>

record scheduler_stats =
  ss_total_requests :: int
  ss_queued_requests :: int
  ss_processing_requests :: int
  ss_completed_requests :: int
  ss_failed_requests :: int
  ss_active_instances :: int
  ss_idle_instances :: int
  ss_updated_at :: time

record resource_scheduler =
  sc_gpu :: gpu_manager
  sc_mem :: memory_manager
  sc_allocations :: "string \<rightharpoonup> resource_allocation"
  sc_loads :: "string \<rightharpoonup> int"
  sc_queues :: "int \<rightharpoonup> inference_request list"
  sc_stats :: scheduler_stats

definition new_scheduler :: "time \<Rightarrow> gpu_manager \<Rightarrow> memory_manager \<Rightarrow> resource_scheduler" where
  "new_scheduler now gm mm =
     \<lparr>sc_gpu = gm, sc_mem = mm, sc_allocations = Map.empty, sc_loads = Map.empty,
      sc_queues = (\<lambda>p. if PriorityLow \<le> p \<and> p \<le> PriorityCritical then Some [] else None),
      sc_stats = \<lparr>ss_total_requests = 0, ss_queued_requests = 0, ss_processing_requests = 0,
        ss_completed_requests = 0, ss_failed_requests = 0, ss_active_instances = 0,
        ss_idle_instances = 0, ss_updated_at = now\<rparr>\<rparr>"

section \<open>Resources\<close>

definition estimate_memory_requirement :: "instance_config \<Rightarrow> int" where
  "estimate_memory_requirement config =
     i64 (1024 * 1024 * 1024 + ic_context_length config * 1024 + ic_batch_size config * 512 * 1024)"

definition estimate_gpu_memory_requirement :: "instance_config \<Rightarrow> int" where
  "estimate_gpu_memory_requirement config =
     i64 (ic_gpu_layers config * 100 * 1024 * 1024 + ic_context_length config * 2 * 1024)"

definition choose_gpu :: "int \<Rightarrow> int \<Rightarrow> gpu_info list \<Rightarrow> go_error + int" where
  "choose_gpu preferred required gpus =
     (if gpus = [] then Inl err_no_available_gpu
      else if 0 \<le> preferred \<and> preferred < int (length gpus)
              \<and> required \<le> gpu_memory_free (gpus ! nat preferred)
      then Inr preferred
      else case List.find (\<lambda>gpu. required \<le> gpu_memory_free gpu) gpus of
             Some gpu \<Rightarrow> Inr (gpu_id gpu)
           | None \<Rightarrow> Inl err_insufficient_gpu_memory)"

definition allocate_resources :: "int list \<Rightarrow> string list \<Rightarrow> time \<Rightarrow> string \<Rightarrow> instance_config
    \<Rightarrow> resource_scheduler \<Rightarrow> resource_scheduler \<times> (go_error + resource_allocation)" where
  "allocate_resources gks ks now alloc_id config s =
     (let required = estimate_memory_requirement config;
          gpu = ic_device config = DeviceGPU;
          required_gpu = (if gpu then estimate_gpu_memory_requirement config else 0)
      in if available_memory (sc_mem s) < required then (s, Inl err_insufficient_memory)
         else case (if gpu then choose_gpu (ic_device_id config) required_gpu (gpu_info_list gks (sc_gpu s))
                    else Inr 0) of
           Inl e \<Rightarrow> (s, Inl e)
         | Inr device_id \<Rightarrow>
             let allocation =
                   \<lparr>ra_instance_id = alloc_id, ra_device_type = ic_device config, ra_device_id = device_id,
                    ra_cpu_threads = (if ic_threads config = 0 then 4 else ic_threads config),
                    ra_memory_bytes = required, ra_gpu_memory_bytes = required_gpu,
                    ra_gpu_layers = ic_gpu_layers config, ra_allocated_at = now\<rparr>
             in (s\<lparr>sc_mem := fst (mm_reserve_memory ks now required (sc_mem s)),
                   sc_gpu := (if gpu then fst (reserve_gpu_memory device_id required_gpu (sc_gpu s))
                              else sc_gpu s),
                   sc_allocations := (sc_allocations s)(alloc_id \<mapsto> allocation),
                   sc_loads := (sc_loads s)(alloc_id \<mapsto> 0),
                   sc_stats := (sc_stats s)\<lparr>ss_active_instances := ss_active_instances (sc_stats s) + 1,
                                            ss_updated_at := now\<rparr>\<rparr>, Inr allocation))"

definition release_resources :: "string list \<Rightarrow> time \<Rightarrow> resource_allocation option
    \<Rightarrow> resource_scheduler \<Rightarrow> resource_scheduler" where
  "release_resources ks now allocation s =
     (case allocation of
        None \<Rightarrow> s
      | Some a \<Rightarrow>
          s\<lparr>sc_mem := mm_release_memory ks now (ra_memory_bytes a) (sc_mem s),
            sc_gpu := (if ra_device_type a = DeviceGPU
              then release_gpu_memory (ra_device_id a) (ra_gpu_memory_bytes a) (sc_gpu s) else sc_gpu s),
            sc_allocations := (sc_allocations s)(ra_instance_id a := None),
            sc_loads := (sc_loads s)(ra_instance_id a := None),
            sc_stats := (sc_stats s)\<lparr>ss_active_instances := ss_active_instances (sc_stats s) - 1,
                                     ss_updated_at := now\<rparr>\<rparr>)"

record resource_quota =
  rq_max_memory_bytes :: int
  rq_max_gpu_memory_bytes :: int
  rq_max_cpu_threads :: int
  rq_max_requests :: int

text \<open>\<^verbatim>\<open>SetResourceQuota\<close> changes the allocation object itself, which callers hold a pointer to.\<close>

definition set_resource_quota :: "string \<Rightarrow> resource_quota \<Rightarrow> resource_scheduler
    \<Rightarrow> resource_scheduler \<times> go_error option" where
  "set_resource_quota instance_id quota s =
     (case sc_allocations s instance_id of
        None \<Rightarrow> (s, Some (err_instance_not_found instance_id))
      | Some a \<Rightarrow>
          let a = (if 0 < rq_max_memory_bytes quota
                   then a\<lparr>ra_memory_bytes := min (ra_memory_bytes a) (rq_max_memory_bytes quota)\<rparr> else a);
              a = (if 0 < rq_max_gpu_memory_bytes quota \<and> ra_device_type a = DeviceGPU
                   then a\<lparr>ra_gpu_memory_bytes :=
                            min (ra_gpu_memory_bytes a) (rq_max_gpu_memory_bytes quota)\<rparr> else a)
          in (s\<lparr>sc_allocations := (sc_allocations s)(instance_id \<mapsto> a)\<rparr>, None))"

section \<open>Instances and their load\<close>

text \<open>An absent key of the load map reads as 0.\<close>

definition load_of :: "resource_scheduler \<Rightarrow> string \<Rightarrow> int" where
  "load_of s instance_id = (case sc_loads s instance_id of None \<Rightarrow> 0 | Some n \<Rightarrow> n)"

definition slice_sorter :: "(('a \<Rightarrow> int) \<Rightarrow> 'a list \<Rightarrow> 'a list) \<Rightarrow> bool" where
  "slice_sorter sort_slice \<longleftrightarrow>
     (\<forall>key xs. mset (sort_slice key xs) = mset xs \<and> sorted (map key (sort_slice key xs)))"

definition select_instance :: "((model_instance \<Rightarrow> int) \<Rightarrow> model_instance list \<Rightarrow> model_instance list)
    \<Rightarrow> string \<Rightarrow> model_instance list \<Rightarrow> resource_scheduler
    \<Rightarrow> resource_scheduler \<times> (go_error + model_instance)" where
  "select_instance sort_slice model_id instances s =
     (if instances = [] then (s, Inl (err_no_available_instance model_id))
      else let ready = filter is_ready instances
           in if ready = [] then (s, Inl (err_no_available_instance model_id))
              else let selected = hd (sort_slice (\<lambda>i. load_of s (mi_id i)) ready)
                   in (s\<lparr>sc_loads := (sc_loads s)(mi_id selected \<mapsto> load_of s (mi_id selected) + 1)\<rparr>,
                       Inr selected))"

definition count_busy_instances :: "string list \<Rightarrow> resource_scheduler \<Rightarrow> int" where
  "count_busy_instances ks s = int (length (filter (\<lambda>(k, load). 0 < load) (visit ks (sc_loads s))))"

definition get_scheduler_stats :: "string list \<Rightarrow> resource_scheduler \<Rightarrow> scheduler_stats" where
  "get_scheduler_stats ks s =
     (sc_stats s)\<lparr>ss_idle_instances := ss_active_instances (sc_stats s) - count_busy_instances ks s\<rparr>"

section \<open>Priority queues\<close>

definition sched_queue :: "resource_scheduler \<Rightarrow> int \<Rightarrow> inference_request list" where
  "sched_queue s p = (case sc_queues s p of None \<Rightarrow> [] | Some q \<Rightarrow> q)"

definition sched_queue_request :: "time \<Rightarrow> inference_request \<Rightarrow> resource_scheduler
    \<Rightarrow> resource_scheduler \<times> go_error option" where
  "sched_queue_request now req s =
     (if rq_priority req < PriorityLow \<or> PriorityCritical < rq_priority req
      then (s, Some (new_error ErrPriorityInvalid ''Invalid priority value''))
      else (s\<lparr>sc_queues := (sc_queues s)(rq_priority req \<mapsto> sched_queue s (rq_priority req) @ [req]),
              sc_stats := (sc_stats s)\<lparr>ss_total_requests := ss_total_requests (sc_stats s) + 1,
                                       ss_queued_requests := ss_queued_requests (sc_stats s) + 1,
                                       ss_updated_at := now\<rparr>\<rparr>, None))"

text \<open>The loop of \<^verbatim>\<open>GetNextRequest\<close> from a priority downwards to \<open>PriorityLow\<close>; \<open>take_request\<close> is its
  body for a queue that is not empty.\<close>

definition take_request :: "int \<Rightarrow> inference_request list \<Rightarrow> time \<Rightarrow> resource_scheduler \<Rightarrow> resource_scheduler" where
  "take_request p rest now s =
     s\<lparr>sc_queues := (sc_queues s)(p \<mapsto> rest),
       sc_stats := (sc_stats s)\<lparr>ss_queued_requests := ss_queued_requests (sc_stats s) - 1,
                                ss_processing_requests := ss_processing_requests (sc_stats s) + 1,
                                ss_updated_at := now\<rparr>\<rparr>"

function next_from :: "int \<Rightarrow> time \<Rightarrow> resource_scheduler \<Rightarrow> resource_scheduler \<times> inference_request option" where
  "next_from p now s =
     (if p < PriorityLow then (s, None)
      else case sched_queue s p of
        req # rest \<Rightarrow> (take_request p rest now s, Some req)
      | [] \<Rightarrow> next_from (p - 1) now s)"
  by pat_completeness auto
termination
  by (relation "measure (\<lambda>(p, now, s). nat p)") (auto simp: PriorityLow_def)

declare next_from.simps [simp del]

definition get_next_request :: "time \<Rightarrow> resource_scheduler \<Rightarrow> resource_scheduler \<times> inference_request option" where
  "get_next_request now s = next_from PriorityCritical now s"

text \<open>
  \<^verbatim>\<open>CompleteRequest\<close> lowers the load of the first instance with a positive load that the range over
  the map meets, whichever instance served the request.
\<close>

definition complete_request :: "string list \<Rightarrow> time \<Rightarrow> inference_request \<Rightarrow> go_error option
    \<Rightarrow> resource_scheduler \<Rightarrow> resource_scheduler" where
  "complete_request ks now req err s =
     (let s = (if rq_model_id req \<noteq> []
               then (case List.find (\<lambda>(k, load). 0 < load) (visit ks (sc_loads s)) of
                       None \<Rightarrow> s
                     | Some (k, load) \<Rightarrow> s\<lparr>sc_loads := (sc_loads s)(k \<mapsto> load - 1)\<rparr>)
               else s);
          st = sc_stats s
      in s\<lparr>sc_stats := st\<lparr>ss_processing_requests := ss_processing_requests st - 1,
                          ss_completed_requests := ss_completed_requests st + 1,
                          ss_failed_requests := (if err \<noteq> None then ss_failed_requests st + 1
                            else ss_failed_requests st),
                          ss_updated_at := now\<rparr>\<rparr>)"

definition total_queued_requests :: "int list \<Rightarrow> resource_scheduler \<Rightarrow> int" where
  "total_queued_requests pks s = sum_list (map (\<lambda>(p, q). int (length q)) (visit pks (sc_queues s)))"

text \<open>One tick of \<^verbatim>\<open>processPriorityQueues\<close>: the request it takes is dropped.\<close>

definition process_queues_tick :: "time \<Rightarrow> resource_scheduler \<Rightarrow> resource_scheduler" where
  "process_queues_tick now s = fst (get_next_request now s)"

record resource_usage =
  ru_cpu_usage :: rat
  ru_memory_used :: int
  ru_memory_total :: int
  ru_gpu_usage :: rat
  ru_gpu_memory_used :: int
  ru_gpu_memory_total :: int
  ru_active_instances :: int
  ru_queued_requests :: int
  ru_updated_at :: time

definition get_resource_usage :: "int list \<Rightarrow> string list \<Rightarrow> int list \<Rightarrow> time \<Rightarrow> resource_scheduler
    \<Rightarrow> resource_usage" where
  "get_resource_usage gks aks pks now s =
     \<lparr>ru_cpu_usage = 0, ru_memory_used = mm_used_memory (sc_mem s),
      ru_memory_total = mm_total_memory (sc_mem s), ru_gpu_usage = average_gpu_usage gks (sc_gpu s),
      ru_gpu_memory_used = total_gpu_memory_used gks (sc_gpu s),
      ru_gpu_memory_total = total_gpu_memory gks (sc_gpu s),
      ru_active_instances = int (length (visit aks (sc_allocations s))),
      ru_queued_requests = total_queued_requests pks s, ru_updated_at = now\<rparr>"

section \<open>The queues against one list in order of arrival\<close>

datatype queue_call = Submit time inference_request | Fetch time

datatype queue_answer = Submitted "go_error option" | Fetched "inference_request option"

definition sched_call :: "resource_scheduler \<Rightarrow> queue_call \<Rightarrow> resource_scheduler \<times> queue_answer" where
  "sched_call s c = (case c of
      Submit now req \<Rightarrow> (case sched_queue_request now req s of (s', err) \<Rightarrow> (s', Submitted err))
    | Fetch now \<Rightarrow> (case get_next_request now s of (s', r) \<Rightarrow> (s', Fetched r)))"

text \<open>
  The specification keeps one list of the waiting requests in order of arrival, and fetches the
  first of those with the highest priority.
\<close>

definition most_urgent :: "inference_request list \<Rightarrow> inference_request \<Rightarrow> bool" where
  "most_urgent q r \<longleftrightarrow> (\<forall>r'\<in>set q. rq_priority r' \<le> rq_priority r)"

definition spec_call :: "inference_request list \<Rightarrow> queue_call \<Rightarrow> inference_request list \<times> queue_answer" where
  "spec_call q c = (case c of
      Submit now req \<Rightarrow>
        if rq_priority req < PriorityLow \<or> PriorityCritical < rq_priority req
        then (q, Submitted (Some (new_error ErrPriorityInvalid ''Invalid priority value'')))
        else (q @ [req], Submitted None)
    | Fetch now \<Rightarrow>
        (case remove_first (most_urgent q) q of
           None \<Rightarrow> (q, Fetched None)
         | Some q' \<Rightarrow> (q', Fetched (List.find (most_urgent q) q))))"

definition queue_rel :: "resource_scheduler \<Rightarrow> inference_request list \<Rightarrow> bool" where
  "queue_rel s q \<longleftrightarrow> (\<forall>p. sched_queue s p = filter (\<lambda>r. rq_priority r = p) q)
     \<and> (\<forall>r\<in>set q. PriorityLow \<le> rq_priority r \<and> rq_priority r \<le> PriorityCritical)"

lemma sched_queue_upd [simp]:
  "sched_queue (s\<lparr>sc_queues := (sc_queues s)(p \<mapsto> q), sc_stats := st\<rparr>) p' = (if p' = p then q else sched_queue s p')"
  by (simp add: sched_queue_def)

lemma sched_queue_take [simp]:
  "sched_queue (take_request p rest now s) p' = (if p' = p then rest else sched_queue s p')"
  by (simp add: take_request_def)

lemma next_from_empty:
  "\<forall>p'. PriorityLow \<le> p' \<and> p' \<le> p \<longrightarrow> sched_queue s p' = [] \<Longrightarrow> next_from p now s = (s, None)"
  by (induction p now s rule: next_from.induct) (subst next_from.simps, auto)

lemma next_from_head:
  "sched_queue s p0 = req # rest \<Longrightarrow> PriorityLow \<le> p0 \<Longrightarrow> p0 \<le> p \<Longrightarrow>
   \<forall>p'. p0 < p' \<and> p' \<le> p \<longrightarrow> sched_queue s p' = [] \<Longrightarrow>
     next_from p now s = (take_request p0 rest now s, Some req)"
proof (induction p now s rule: next_from.induct)
  case (1 p now s)
  show ?case
  proof (cases "p = p0")
    case True
    with 1(2,3) show ?thesis by (subst next_from.simps) auto
  next
    case False
    with 1 have "sched_queue s p = []" "\<not> p < PriorityLow" by auto
    with 1 False show ?thesis by (subst next_from.simps) auto
  qed
qed

lemma filter_first:
  "filter P xs = x # rest \<Longrightarrow> List.find P xs = Some x \<and>
     (\<exists>ys. remove_first P xs = Some ys \<and> filter P ys = rest
       \<and> (\<forall>Q. (\<forall>y. P y \<longrightarrow> \<not> Q y) \<longrightarrow> filter Q ys = filter Q xs) \<and> set ys \<subseteq> set xs)"
  by (induction xs) (auto split: if_splits)

lemma remove_first_cong: "(\<And>x. x \<in> set xs \<Longrightarrow> P x = Q x) \<Longrightarrow> remove_first P xs = remove_first Q xs"
  by (induction xs) auto

lemma find_cong_set: "(\<And>x. x \<in> set xs \<Longrightarrow> P x = Q x) \<Longrightarrow> List.find P xs = List.find Q xs"
  by (induction xs) auto

lemma fetch_simulated:
  assumes rel: "queue_rel s q" and q: "q \<noteq> []"
  obtains s' q' r where "get_next_request now s = (s', Some r)" "queue_rel s' q'"
    "spec_call q (Fetch now) = (q', Fetched (Some r))"
proof -
  define top where "top = Max (rq_priority ` set q)"
  have "top \<in> rq_priority ` set q" unfolding top_def using q by (intro Max_in) auto
  then obtain r0 where r0: "r0 \<in> set q" "rq_priority r0 = top" by auto
  have max: "rq_priority r \<le> top" if "r \<in> set q" for r
    unfolding top_def using that by (intro Max_ge) auto
  have urgent: "most_urgent q r \<longleftrightarrow> rq_priority r = top" if "r \<in> set q" for r
    using that max r0 by (force simp: most_urgent_def)
  obtain r rest where f: "filter (\<lambda>r. rq_priority r = top) q = r # rest"
    using r0 by (cases "filter (\<lambda>r. rq_priority r = top) q") (auto simp: filter_empty_conv)
  have bounds: "PriorityLow \<le> top" "top \<le> PriorityCritical" using rel r0 by (auto simp: queue_rel_def)
  have empty: "sched_queue s p = []" if "top < p" for p
    using rel max that by (force simp: queue_rel_def filter_empty_conv)
  have head: "sched_queue s top = r # rest" using rel f by (simp add: queue_rel_def)
  from filter_first [OF f] obtain q' where q': "List.find (\<lambda>r. rq_priority r = top) q = Some r"
      "remove_first (\<lambda>r. rq_priority r = top) q = Some q'" "filter (\<lambda>r. rq_priority r = top) q' = rest"
      "\<And>p. p \<noteq> top \<Longrightarrow> filter (\<lambda>r. rq_priority r = p) q' = filter (\<lambda>r. rq_priority r = p) q"
      "set q' \<subseteq> set q" by fastforce
  let ?s = "fst (get_next_request now s)"
  have g: "get_next_request now s = (take_request top rest now s, Some r)"
    unfolding get_next_request_def by (rule next_from_head [OF head]) (use bounds empty in auto)
  have "queue_rel ?s q'"
    using rel q'(3-5) by (auto simp: queue_rel_def g)
  moreover have "remove_first (most_urgent q) q = Some q'" "List.find (most_urgent q) q = Some r"
    using q'(1,2) remove_first_cong [of q "most_urgent q" "\<lambda>r. rq_priority r = top"]
      find_cong_set [of q "most_urgent q" "\<lambda>r. rq_priority r = top"] urgent by auto
  ultimately show ?thesis using that [of ?s r q'] g by (simp add: spec_call_def)
qed

interpretation queues: simulation sched_call spec_call queue_rel "\<lambda>c. True"
proof unfold_locales
  fix s q c s' x q' y
  assume rel: "queue_rel s q" and st: "sched_call s c = (s', x)" "spec_call q c = (q', y)"
  show "queue_rel s' q' \<and> x = y"
  proof (cases c)
    case (Submit now req)
    with rel st show ?thesis
      by (auto simp: sched_call_def spec_call_def sched_queue_request_def queue_rel_def split: if_splits)
  next
    case (Fetch now)
    show ?thesis
    proof (cases "q = []")
      case True
      with rel have "get_next_request now s = (s, None)"
        unfolding get_next_request_def by (intro next_from_empty) (simp add: queue_rel_def)
      moreover have "spec_call q (Fetch now) = (q, Fetched None)"
        using True by (simp add: spec_call_def)
      ultimately show ?thesis using st rel Fetch by (simp add: sched_call_def)
    next
      case False
      obtain s1 q1 r where "get_next_request now s = (s1, Some r)" "queue_rel s1 q1"
          "spec_call q (Fetch now) = (q1, Fetched (Some r))"
        by (rule fetch_simulated [OF rel False])
      with st Fetch show ?thesis by (simp add: sched_call_def)
    qed
  qed
qed

text \<open>C39: the priority queues refine one list in order of arrival. In every run of submissions and fetches
  on a new scheduler, each answer (acceptance, refusal of a priority outside 1 to 15, the request
  fetched, or nothing to fetch) is the one of the specification, which always fetches the first
  waiting request of the highest priority.\<close>

theorem priority_queues_refine:
  "run_ops sched_call (new_scheduler t gm mm) calls = run_ops spec_call [] calls"
  by (rule queues.same_answers) (auto simp: queue_rel_def new_scheduler_def sched_queue_def)

section \<open>Host memory is reserved exactly for the tracked allocations\<close>

definition sched_ok :: "int \<Rightarrow> resource_scheduler \<Rightarrow> bool" where
  "sched_ok base s \<longleftrightarrow> 0 \<le> base \<and> finite (dom (sc_allocations s)) \<and> memory_good (sc_mem s)
     \<and> (\<forall>k a. sc_allocations s k = Some a \<longrightarrow> ra_instance_id a = k \<and> 0 \<le> ra_memory_bytes a)
     \<and> mm_reserved_memory (sc_mem s) = base + total_of ra_memory_bytes (sc_allocations s)"

text \<open>
  The operations that move resources: allocation with a fresh id and a non-negative estimate, and
  release of a tracked allocation; the others leave memory and allocations alone.
\<close>

inductive sched_step :: "resource_scheduler \<Rightarrow> resource_scheduler \<Rightarrow> bool" where
  sched_allocate: "sc_allocations s alloc_id = None \<Longrightarrow> 0 \<le> estimate_memory_requirement config \<Longrightarrow>
    allocate_resources gks ks now alloc_id config s = (s', res) \<Longrightarrow> sched_step s s'"
| sched_release: "sc_allocations s alloc_id = Some a \<Longrightarrow>
    sched_step s (release_resources ks now (Some a) s)"
| sched_select: "select_instance sort_slice model_id instances s = (s', sel) \<Longrightarrow> sched_step s s'"
| sched_submit: "sched_queue_request now req s = (s', err) \<Longrightarrow> sched_step s s'"
| sched_fetch: "get_next_request now s = (s', r) \<Longrightarrow> sched_step s s'"
| sched_complete: "sched_step s (complete_request ks now req err s)"

lemma take_request_frame [simp]:
  "sc_mem (take_request p rest now s) = sc_mem s" "sc_gpu (take_request p rest now s) = sc_gpu s"
  "sc_allocations (take_request p rest now s) = sc_allocations s"
  "sc_loads (take_request p rest now s) = sc_loads s"
  by (simp_all add: take_request_def)

lemma next_from_frame:
  "next_from p now s = (s', r) \<Longrightarrow> sc_mem s' = sc_mem s \<and> sc_allocations s' = sc_allocations s"
proof (induction p now s rule: next_from.induct)
  case (1 p now s)
  from 1(2) show ?case
    by (subst (asm) next_from.simps) (auto split: if_splits list.splits dest: 1(1))
qed

lemma complete_request_frame [simp]:
  "sc_mem (complete_request ks now req err s) = sc_mem s"
  "sc_allocations (complete_request ks now req err s) = sc_allocations s"
  by (simp_all add: complete_request_def Let_def split: option.split)

lemma sched_ok_cong:
  "sched_ok base s \<Longrightarrow> sc_mem s' = sc_mem s \<Longrightarrow> sc_allocations s' = sc_allocations s \<Longrightarrow> sched_ok base s'"
  by (simp add: sched_ok_def)

lemma reserve_reserved:
  assumes "memory_good mm" "bytes \<le> available_memory mm" "0 \<le> bytes"
  shows "memory_good (fst (mm_reserve_memory ks now bytes mm))
    \<and> mm_reserved_memory (fst (mm_reserve_memory ks now bytes mm)) = mm_reserved_memory mm + bytes
    \<and> max_usable (fst (mm_reserve_memory ks now bytes mm)) = max_usable mm"
  using assms available_memory_good [OF assms(1)]
  by (auto simp: mm_reserve_memory_def memory_good_def max_usable_def)

lemma sched_ok_allocate:
  assumes ok: "sched_ok base s" and fresh: "sc_allocations s alloc_id = None"
    and pos: "0 \<le> estimate_memory_requirement config"
    and res: "allocate_resources gks ks now alloc_id config s = (s', res)"
  shows "sched_ok base s' \<and> max_usable (sc_mem s') = max_usable (sc_mem s)"
proof (cases "s' = s")
  case False
  let ?n = "estimate_memory_requirement config"
  from res False obtain a where a: "?n \<le> available_memory (sc_mem s)"
      "sc_mem s' = fst (mm_reserve_memory ks now ?n (sc_mem s))"
      "sc_allocations s' = (sc_allocations s)(alloc_id \<mapsto> a)"
      "ra_memory_bytes a = ?n" "ra_instance_id a = alloc_id"
    by (auto simp: allocate_resources_def Let_def split: if_splits sum.splits)
  have good: "memory_good (sc_mem s)" and fin: "finite (dom (sc_allocations s))"
    using ok by (auto simp: sched_ok_def)
  have "total_of ra_memory_bytes (sc_allocations s') = total_of ra_memory_bytes (sc_allocations s) + ?n"
    unfolding a(3) using fresh a(4) by (subst total_of_upd [OF fin]) simp
  with reserve_reserved [OF good a(1) pos, of ks now] ok a pos show ?thesis
    by (auto simp: sched_ok_def)
qed (use ok in simp)

lemma sched_ok_release:
  assumes ok: "sched_ok base s" and a: "sc_allocations s alloc_id = Some a"
  shows "sched_ok base (release_resources ks now (Some a) s)
    \<and> max_usable (sc_mem (release_resources ks now (Some a) s)) = max_usable (sc_mem s)"
proof -
  have fin: "finite (dom (sc_allocations s))" and id: "ra_instance_id a = alloc_id" "0 \<le> ra_memory_bytes a"
    and base: "0 \<le> base" and good: "memory_good (sc_mem s)"
    and bal: "mm_reserved_memory (sc_mem s) = base + total_of ra_memory_bytes (sc_allocations s)"
    using ok a by (auto simp: sched_ok_def)
  have "total_of ra_memory_bytes ((sc_allocations s)(alloc_id := None))
      = total_of ra_memory_bytes (sc_allocations s) - ra_memory_bytes a"
    using a by (simp add: total_of_del [OF fin])
  moreover have "ra_memory_bytes a \<le> total_of ra_memory_bytes (sc_allocations s)"
    using ok a by (intro total_of_ge [OF fin]) (auto simp: sched_ok_def)
  ultimately show ?thesis using ok id base bal good
    by (auto simp: sched_ok_def release_resources_def mm_release_memory_def memory_good_def max_usable_def
        Let_def simp del: fun_upd_apply)
       (auto split: if_splits)
qed

lemma sched_ok_step:
  assumes "sched_step s s'" "sched_ok base s"
  shows "sched_ok base s' \<and> max_usable (sc_mem s') = max_usable (sc_mem s)"
  using assms
proof (cases rule: sched_step.cases)
  case (sched_allocate alloc_id config gks ks now res)
  from sched_ok_allocate [OF assms(2) sched_allocate] show ?thesis .
next
  case (sched_release alloc_id a ks now)
  from sched_ok_release [OF assms(2) sched_release(2)] sched_release(1) show ?thesis by blast
next
  case (sched_select sort_slice model_id instances sel)
  then have "sc_mem s' = sc_mem s \<and> sc_allocations s' = sc_allocations s"
    by (auto simp: select_instance_def Let_def split: if_splits)
  with assms(2) show ?thesis by (auto intro: sched_ok_cong)
next
  case (sched_submit now req err)
  then have "sc_mem s' = sc_mem s \<and> sc_allocations s' = sc_allocations s"
    by (auto simp: sched_queue_request_def split: if_splits)
  with assms(2) show ?thesis by (auto intro: sched_ok_cong)
next
  case (sched_fetch now r)
  then have "sc_mem s' = sc_mem s \<and> sc_allocations s' = sc_allocations s"
    unfolding get_next_request_def by (rule next_from_frame)
  with assms(2) show ?thesis by (auto intro: sched_ok_cong)
next
  case (sched_complete ks now req err)
  with assms(2) show ?thesis by (auto intro: sched_ok_cong)
qed

text \<open>Host memory. On a new scheduler over a memory manager within its limit, after any run of the
  scheduler's operations the memory reserved beyond the initial reservation is exactly the total of
  the tracked allocations, and used plus reserved memory stays within the usable maximum.\<close>

theorem scheduler_reserves_exactly:
  assumes "sched_step\<^sup>*\<^sup>* (new_scheduler t gm mm) s" "memory_good mm"
  shows "mm_reserved_memory (sc_mem s) = mm_reserved_memory mm + total_of ra_memory_bytes (sc_allocations s)
    \<and> mm_used_memory (sc_mem s) + mm_reserved_memory (sc_mem s) \<le> max_usable mm"
proof -
  have "sched_ok (mm_reserved_memory mm) s \<and> max_usable (sc_mem s) = max_usable mm"
    using assms(1)
  proof (induction rule: rtranclp_induct)
    case base
    with assms(2) show ?case by (simp add: sched_ok_def new_scheduler_def memory_good_def)
  next
    case (step y z)
    with sched_ok_step [OF step(2)] show ?case by auto
  qed
  then show ?thesis by (auto simp: sched_ok_def memory_good_def)
qed

section \<open>Selection and quotas\<close>

lemma select_instance_cases:
  assumes "slice_sorter sort_slice" "select_instance sort_slice model_id instances s = (s', res)"
  shows "case res of
      Inl e \<Rightarrow> s' = s \<and> e = err_no_available_instance model_id \<and> (\<forall>i\<in>set instances. \<not> is_ready i)
    | Inr i \<Rightarrow> i \<in> set instances \<and> is_ready i
        \<and> (\<forall>j\<in>set instances. is_ready j \<longrightarrow> load_of s (mi_id i) \<le> load_of s (mi_id j))
        \<and> s' = s\<lparr>sc_loads := (sc_loads s)(mi_id i \<mapsto> load_of s (mi_id i) + 1)\<rparr>"
proof (cases "filter is_ready instances")
  case Nil
  with assms(2) show ?thesis
    by (auto simp: select_instance_def filter_empty_conv split: if_splits)
next
  case (Cons i0 is0)
  let ?load = "\<lambda>i. load_of s (mi_id i)" and ?ready = "filter is_ready instances"
  let ?sorted = "sort_slice ?load ?ready"
  have m: "mset ?sorted = mset ?ready" and srt: "sorted (map ?load ?sorted)"
    using assms(1) by (auto simp: slice_sorter_def)
  then have "length ?sorted \<noteq> 0" using Cons by (metis size_mset length_0_conv list.distinct(1))
  then obtain i rest where ir: "?sorted = i # rest" by (cases ?sorted) auto
  have set: "set ?sorted = set ?ready" using m by (metis set_mset_mset)
  from ir srt have "\<forall>j\<in>set ?sorted. ?load i \<le> ?load j" by auto
  moreover have "i \<in> set ?ready" using set ir by auto
  ultimately have "i \<in> set instances \<and> is_ready i
      \<and> (\<forall>j\<in>set instances. is_ready j \<longrightarrow> ?load i \<le> ?load j)"
    unfolding set by simp
  moreover have "instances \<noteq> []" "?ready \<noteq> []" using Cons by auto
  then have "select_instance sort_slice model_id instances s
      = (s\<lparr>sc_loads := (sc_loads s)(mi_id i \<mapsto> ?load i + 1)\<rparr>, Inr i)"
    by (simp add: select_instance_def ir)
  ultimately show ?thesis using assms(2) by simp
qed

text \<open>\<^verbatim>\<open>SelectInstance\<close>, for every way \<^verbatim>\<open>sort.Slice\<close> can order equal elements: it reports an error
  exactly when no instance is ready; otherwise the instance it returns is one of the given ones, is
  ready, has the least load of all ready ones, and only its load counter changes, by one.\<close>

theorem select_instance_least_loaded:
  assumes "slice_sorter sort_slice" "select_instance sort_slice model_id instances s = (s', res)"
  shows "case res of
      Inl e \<Rightarrow> s' = s \<and> e = err_no_available_instance model_id \<and> (\<forall>i\<in>set instances. \<not> is_ready i)
    | Inr i \<Rightarrow> i \<in> set instances \<and> is_ready i
        \<and> (\<forall>j\<in>set instances. is_ready j \<longrightarrow> load_of s (mi_id i) \<le> load_of s (mi_id j))
        \<and> s' = s\<lparr>sc_loads := (sc_loads s)(mi_id i \<mapsto> load_of s (mi_id i) + 1)\<rparr>"
  using assms by (rule select_instance_cases)

text \<open>GPU choice. A successful allocation leaves unchanged what later allocations look at to choose a
  device (its free-memory figure, which nothing lowers), so the choice never takes account of what
  has been allocated before.\<close>

theorem gpu_choice_ignores_allocations:
  assumes "allocate_resources gks ks now alloc_id config s = (s', res)"
  shows "choose_gpu preferred required (gpu_info_list gks' (sc_gpu s'))
    = choose_gpu preferred required (gpu_info_list gks' (sc_gpu s))"
proof -
  have same: "choose_gpu preferred required gpus' = choose_gpu preferred required gpus"
    if "map gpu_memory_free gpus' = map gpu_memory_free gpus" "map gpu_id gpus' = map gpu_id gpus"
    for gpus gpus' :: "gpu_info list"
  proof -
    have len: "length gpus' = length gpus" using that(1) by (metis length_map)
    have find: "map_option gpu_id (List.find (\<lambda>g. required \<le> gpu_memory_free g) gpus')
        = map_option gpu_id (List.find (\<lambda>g. required \<le> gpu_memory_free g) gpus)"
      using that by (induction gpus' gpus rule: list_induct2') auto
    have nth: "gpu_memory_free (gpus' ! k) = gpu_memory_free (gpus ! k)" if "k < length gpus" for k
      using that len \<open>map gpu_memory_free gpus' = map gpu_memory_free gpus\<close> by (metis nth_map)
    have pref: "(0 \<le> preferred \<and> preferred < int (length gpus') \<and> required \<le> gpu_memory_free (gpus' ! nat preferred))
        \<longleftrightarrow> (0 \<le> preferred \<and> preferred < int (length gpus) \<and> required \<le> gpu_memory_free (gpus ! nat preferred))"
      using nth [of "nat preferred"] unfolding len by (cases "0 \<le> preferred \<and> preferred < int (length gpus)") auto
    have nil: "gpus' = [] \<longleftrightarrow> gpus = []" using len by (metis length_0_conv)
    show ?thesis
      unfolding choose_gpu_def pref nil using find
      by (cases "List.find (\<lambda>g. required \<le> gpu_memory_free g) gpus'";
          cases "List.find (\<lambda>g. required \<le> gpu_memory_free g) gpus") simp_all
  qed
  have dev: "map_option (\<lambda>g. (gpu_memory_free g, gpu_id g)) (gm_devices (sc_gpu s') d)
      = map_option (\<lambda>g. (gpu_memory_free g, gpu_id g)) (gm_devices (sc_gpu s) d)" for d
  proof -
    have "sc_gpu s' = sc_gpu s \<or> (\<exists>e n. sc_gpu s' = fst (reserve_gpu_memory e n (sc_gpu s)))"
    proof (cases "snd (allocate_resources gks ks now alloc_id config s)")
      case (Inl e)
      with assms have "s' = s"
        by (auto simp: allocate_resources_def Let_def split: if_splits sum.splits)
      then show ?thesis by simp
    next
      case (Inr a)
      with assms have "sc_gpu s' = (if ic_device config = DeviceGPU then fst (reserve_gpu_memory
          (ra_device_id a) (estimate_gpu_memory_requirement config) (sc_gpu s)) else sc_gpu s)"
        by (auto simp: allocate_resources_def Let_def split: if_splits sum.splits)
      then show ?thesis by metis
    qed
    then show ?thesis by (auto simp: reserve_gpu_memory_def split: option.splits)
  qed
  have "map (\<lambda>g. (gpu_memory_free g, gpu_id g)) (gpu_info_list gks' (sc_gpu s'))
      = map (\<lambda>g. (gpu_memory_free g, gpu_id g)) (gpu_info_list gks' (sc_gpu s))"
  proof (induction gks')
    case (Cons d ds)
    with dev [of d] show ?case
      by (cases "gm_devices (sc_gpu s') d"; cases "gm_devices (sc_gpu s) d")
        (simp_all add: gpu_info_list_def)
  qed (simp add: gpu_info_list_def)
  then have "map fst (map (\<lambda>g. (gpu_memory_free g, gpu_id g)) (gpu_info_list gks' (sc_gpu s')))
      = map fst (map (\<lambda>g. (gpu_memory_free g, gpu_id g)) (gpu_info_list gks' (sc_gpu s)))"
    "map snd (map (\<lambda>g. (gpu_memory_free g, gpu_id g)) (gpu_info_list gks' (sc_gpu s')))
      = map snd (map (\<lambda>g. (gpu_memory_free g, gpu_id g)) (gpu_info_list gks' (sc_gpu s)))"
    by simp_all
  then show ?thesis by (intro same) (simp_all add: comp_def)
qed

text \<open>Quotas. After \<^verbatim>\<open>SetResourceQuota\<close> lowers the memory of an allocation, releasing it gives back
  only the lowered amount: the rest stays reserved.\<close>

theorem quota_then_release_leaks:
  assumes "sched_ok base s" "sc_allocations s i = Some a"
    and "0 < rq_max_memory_bytes quota" "rq_max_memory_bytes quota \<le> ra_memory_bytes a"
    and "set_resource_quota i quota s = (s', err)" "sc_allocations s' i = Some a'"
    and "s'' = release_resources ks now (Some a') s'"
  shows "mm_reserved_memory (sc_mem s'') = base + total_of ra_memory_bytes (sc_allocations s'')
    + (ra_memory_bytes a - rq_max_memory_bytes quota)"
proof -
  have fin: "finite (dom (sc_allocations s))" and id: "ra_instance_id a = i" and base: "0 \<le> base"
    and bal: "mm_reserved_memory (sc_mem s) = base + total_of ra_memory_bytes (sc_allocations s)"
    using assms(1,2) by (auto simp: sched_ok_def)
  have a': "ra_memory_bytes a' = rq_max_memory_bytes quota" "ra_instance_id a' = i"
      "sc_allocations s' = (sc_allocations s)(i \<mapsto> a')" "sc_mem s' = sc_mem s"
    using assms(2-6) id by (auto simp: set_resource_quota_def Let_def split: if_splits)
  have "sc_allocations s'' = (sc_allocations s)(i := None)"
    using a' by (simp add: assms(7) release_resources_def)
  moreover have "total_of ra_memory_bytes ((sc_allocations s)(i := None))
      = total_of ra_memory_bytes (sc_allocations s) - ra_memory_bytes a"
    using assms(2) by (simp add: total_of_del [OF fin])
  moreover have "ra_memory_bytes a \<le> total_of ra_memory_bytes (sc_allocations s)"
    using assms(1,2) by (intro total_of_ge [OF fin]) (auto simp: sched_ok_def)
  ultimately show ?thesis using a' bal base assms(4)
    by (simp add: assms(7) release_resources_def mm_release_memory_def Let_def)
qed

section \<open>Witnesses\<close>

lemma sort_key_is_slice_sorter: "slice_sorter sort_key"
  by (simp add: slice_sorter_def)

definition sample_scheduler :: resource_scheduler where
  "sample_scheduler = new_scheduler 0 sample_gpus
     (sample_memory\<lparr>mm_total_memory := 10 * 1024 * 1024 * 1024\<rparr>)"

lemma sample_scheduler_memory:
  "memory_good (sc_mem sample_scheduler)" "available_memory (sc_mem sample_scheduler) = 5368709020"
proof -
  have "fl 10737418240 = 10737418240" "fl 5368709120 = 5368709120" by (simp_all add: fl_numeral)
  then have "max_usable (sc_mem sample_scheduler) = 5368709120"
    by (simp add: max_usable_def sample_scheduler_def new_scheduler_def sample_memory_def
        new_memory_manager_def Let_def f_trunc_def)
  then show "memory_good (sc_mem sample_scheduler)" "available_memory (sc_mem sample_scheduler) = 5368709020"
    by (simp_all add: memory_good_def available_memory_def sample_scheduler_def new_scheduler_def
        sample_memory_facts)
qed

definition small_config :: instance_config where
  "small_config = sample_config\<lparr>ic_context_length := 0, ic_batch_size := 0, ic_gpu_layers := 0\<rparr>"

lemma small_config_estimates:
  "estimate_memory_requirement small_config = 1073741824" "estimate_gpu_memory_requirement small_config = 0"
  "ic_device small_config = DeviceGPU" "ic_device_id small_config = 0"
  by (simp_all add: estimate_memory_requirement_def estimate_gpu_memory_requirement_def small_config_def
      sample_config_def i64_small)

lemma sample_allocates:
  "\<exists>a. snd (allocate_resources [0] [] 1 ''a'' small_config sample_scheduler) = Inr a
    \<and> ra_memory_bytes a = 1073741824"
proof -
  have "choose_gpu 0 0 (gpu_info_list [0] sample_gpus) = Inr 0"
    by (simp add: choose_gpu_def gpu_info_list_def sample_gpus_facts sample_gpu_def)
  moreover have "sc_gpu sample_scheduler = sample_gpus"
    by (simp add: sample_scheduler_def new_scheduler_def)
  ultimately show ?thesis
    by (simp add: allocate_resources_def small_config_estimates sample_scheduler_memory Let_def)
qed

theorem scheduler_reserves_exactly_witness:
  "\<exists>s. sched_step\<^sup>*\<^sup>* sample_scheduler s \<and> ss_active_instances (sc_stats s) = 1
    \<and> mm_reserved_memory (sc_mem s) = 100 + total_of ra_memory_bytes (sc_allocations s)"
proof -
  let ?r = "allocate_resources [0] [] 1 ''a'' small_config sample_scheduler"
  have "sched_step sample_scheduler (fst ?r)"
    by (rule sched_allocate [of _ "''a''" small_config "[0]" "[]" 1 _ "snd ?r"])
      (simp_all add: small_config_estimates sample_scheduler_def new_scheduler_def)
  then have run: "sched_step\<^sup>*\<^sup>* sample_scheduler (fst ?r)" by (rule r_into_rtranclp)
  have "ss_active_instances (sc_stats (fst ?r)) = 1"
    using sample_allocates
    by (auto simp: allocate_resources_def Let_def sample_scheduler_def new_scheduler_def
        split: if_splits sum.splits)
  moreover have "memory_good (sample_memory\<lparr>mm_total_memory := 10 * 1024 * 1024 * 1024\<rparr>)"
    using sample_scheduler_memory(1) by (simp add: sample_scheduler_def new_scheduler_def)
  from scheduler_reserves_exactly [OF run [unfolded sample_scheduler_def] this]
  have "mm_reserved_memory (sc_mem (fst ?r)) = 100 + total_of ra_memory_bytes (sc_allocations (fst ?r))"
    by (simp add: sample_memory_facts sample_scheduler_def)
  ultimately show ?thesis using run by blast
qed

theorem select_instance_least_loaded_witness:
  "\<exists>s' i. select_instance sort_key ''m'' [sample_instance ''a'' StateStopped, sample_instance ''b'' StateIdle,
      sample_instance ''c'' StateBusy] (sample_scheduler\<lparr>sc_loads := [''b'' \<mapsto> 3]\<rparr>) = (s', Inr i)
    \<and> load_of s' ''c'' = 1"
proof -
  let ?is = "[sample_instance ''a'' StateStopped, sample_instance ''b'' StateIdle, sample_instance ''c'' StateBusy]"
  let ?s = "sample_scheduler\<lparr>sc_loads := [''b'' \<mapsto> 3]\<rparr>"
  have ready: "is_ready (sample_instance i st) \<longleftrightarrow> st \<in> {StateActive, StateIdle, StateBusy}"
    "mi_id (sample_instance i st) = i" for i st
    by (auto simp: is_ready_def sample_instance_def split: instance_state.split)
  obtain s' res where r: "select_instance sort_key ''m'' ?is ?s = (s', res)" by fastforce
  from select_instance_least_loaded [OF sort_key_is_slice_sorter r] show ?thesis
    using r by (auto simp: ready load_of_def split: sum.splits)
qed

theorem gpu_choice_ignores_allocations_witness:
  "choose_gpu 0 900 (gpu_info_list [0]
      (sc_gpu (fst (allocate_resources [0] [] 1 ''a'' small_config sample_scheduler))))
    = choose_gpu 0 900 (gpu_info_list [0] (sc_gpu sample_scheduler))"
  by (rule gpu_choice_ignores_allocations [OF prod.collapse [symmetric]])

theorem quota_then_release_leaks_witness:
  "\<exists>s :: resource_scheduler. mm_reserved_memory (sc_mem s) = 100 + total_of ra_memory_bytes (sc_allocations s) + 1073741818"
proof -
  let ?r = "allocate_resources [0] [] 1 ''a'' small_config sample_scheduler"
  let ?quota = "\<lparr>rq_max_memory_bytes = 6, rq_max_gpu_memory_bytes = 0, rq_max_cpu_threads = 0,
      rq_max_requests = 0\<rparr>"
  have "sched_ok 100 sample_scheduler"
    using sample_scheduler_memory(1)
    by (simp add: sched_ok_def sample_scheduler_def new_scheduler_def sample_memory_facts)
  then have ok: "sched_ok 100 (fst ?r)"
    using sched_ok_allocate [of 100 sample_scheduler "''a''" small_config "[0]" "[]" 1 "fst ?r" "snd ?r"]
    by (simp add: small_config_estimates) (simp add: sample_scheduler_def new_scheduler_def)
  obtain a where a: "sc_allocations (fst ?r) ''a'' = Some a" "ra_memory_bytes a = 1073741824"
    using sample_allocates
    by (auto simp: allocate_resources_def Let_def split: if_splits sum.splits)
  let ?a' = "a\<lparr>ra_memory_bytes := 6\<rparr>"
  have q: "set_resource_quota ''a'' ?quota (fst ?r)
      = ((fst ?r)\<lparr>sc_allocations := (sc_allocations (fst ?r))(''a'' \<mapsto> ?a')\<rparr>, None)"
    using a by (simp add: set_resource_quota_def)
  have "sc_allocations ((fst ?r)\<lparr>sc_allocations := (sc_allocations (fst ?r))(''a'' \<mapsto> ?a')\<rparr>) ''a'' = Some ?a'"
    by simp
  from quota_then_release_leaks [OF ok a(1) _ _ q this refl, of "[]" 2] a(2) show ?thesis by auto
qed

end
