(* ===== verification/Executor.thy ===== *)
theory Executor
  imports Scheduler
begin

text \<open>
  The inference executor of \<^verbatim>\<open>inference/executor.go\<close>: it validates and tracks requests, hands them to
  its workers over a bounded channel (\<open>ex_queue\<close>, of a positive capacity), runs each on an instance
  with retries, and keeps statistics. The state holds the scheduler and the loader's table of instances
  (\<^verbatim>\<open>ListInstances\<close> of \<^verbatim>\<open>inference/loader.go\<close>), which the executor's operations change, and the calls
  of \<^verbatim>\<open>Execute\<close> that are blocked in its \<^verbatim>\<open>select\<close>, each with its response channel. The runtime an
  instance calls is an argument \<open>run\<close>, which may answer differently at each attempt; \<^verbatim>\<open>processRequest\<close>
  is one step, and steps of different goroutines interleave in any order.
\<close>

section \<open>State\<close>

record executor_config =
  xc_max_concurrent_requests :: int
  xc_default_timeout :: duration
  xc_max_queue_size :: int
  xc_retry_attempts :: int
  xc_retry_delay :: duration

definition default_executor_config :: executor_config where
  "default_executor_config =
     \<lparr>xc_max_concurrent_requests = 100, xc_default_timeout = 30 * second, xc_max_queue_size = 1000,
      xc_retry_attempts = 3, xc_retry_delay = 100 * 1000000\<rparr>"

record executor_stats =
  xs_total_requests :: int
  xs_active_requests :: int
  xs_queued_requests :: int
  xs_completed_requests :: int
  xs_failed_requests :: int
  xs_cancelled_requests :: int
  xs_avg_latency :: duration
  xs_total_latency :: duration
  xs_max_latency :: duration
  xs_min_latency :: duration
  xs_total_input_tokens :: int
  xs_total_output_tokens :: int
  xs_requests_per_second :: rat
  xs_last_request_time :: time
  xs_start_time :: time
  xs_updated_at :: time

record client_call =
  cc_request :: inference_request
  cc_response_chan :: "(go_error + inference_response) list"

record executor =
  ex_config :: executor_config
  ex_scheduler :: resource_scheduler
  ex_instances :: "string \<rightharpoonup> model_instance"
  ex_active :: "string \<rightharpoonup> inference_request"
  ex_queue :: "inference_request list"
  ex_calls :: "nat \<rightharpoonup> client_call"
  ex_stats :: executor_stats
  ex_running :: bool
  ex_stop_closed :: bool

definition new_executor :: "time \<Rightarrow> executor_config option \<Rightarrow> resource_scheduler
    \<Rightarrow> (string \<rightharpoonup> model_instance) \<Rightarrow> executor" where
  "new_executor now config sched instances =
     \<lparr>ex_config = (case config of None \<Rightarrow> default_executor_config | Some c \<Rightarrow> c),
      ex_scheduler = sched, ex_instances = instances, ex_active = Map.empty, ex_queue = [],
      ex_calls = Map.empty,
      ex_stats = \<lparr>xs_total_requests = 0, xs_active_requests = 0, xs_queued_requests = 0,
        xs_completed_requests = 0, xs_failed_requests = 0, xs_cancelled_requests = 0,
        xs_avg_latency = 0, xs_total_latency = 0, xs_max_latency = 0, xs_min_latency = 24 * 3600 * second,
        xs_total_input_tokens = 0, xs_total_output_tokens = 0, xs_requests_per_second = 0,
        xs_last_request_time = time_zero, xs_start_time = now, xs_updated_at = time_zero\<rparr>,
      ex_running = True, ex_stop_closed = False\<rparr>"

text \<open>\<^verbatim>\<open>Stop\<close> closes the stop channel, which panics (\<open>None\<close>) when it is closed already, after a restart.\<close>

definition executor_start :: "executor \<Rightarrow> executor" where
  "executor_start s = (if ex_running s then s else s\<lparr>ex_running := True\<rparr>)"

definition executor_stop :: "executor \<Rightarrow> executor option" where
  "executor_stop s =
     (if \<not> ex_running s then Some s
      else if ex_stop_closed s then None
      else Some (s\<lparr>ex_stop_closed := True, ex_running := False\<rparr>))"

section \<open>Requests\<close>

definition exec_validate_request :: "inference_request \<Rightarrow> go_error option" where
  "exec_validate_request req =
     (if rq_model_id req = [] then Some (new_error ErrRequestInvalid ''Model ID is required'')
      else if rq_prompt req = [] \<and> rq_messages req = []
      then Some (new_error ErrRequestInvalid ''Prompt or messages are required'')
      else if rq_max_tokens req < 0
      then Some (new_error ErrRequestInvalid ''Max tokens cannot be negative'')
      else None)"

definition set_request_defaults :: "time \<Rightarrow> executor_config \<Rightarrow> inference_request \<Rightarrow> inference_request" where
  "set_request_defaults now config req =
     (let req = (if rq_mode req = ModeOther [] then req\<lparr>rq_mode := ModeSync\<rparr> else req);
          req = (if rq_priority req = 0 then req\<lparr>rq_priority := PriorityNormal\<rparr> else req);
          req = (if rq_timeout req = 0 then req\<lparr>rq_timeout := xc_default_timeout config\<rparr> else req);
          req = (if rq_max_tokens req = 0 then req\<lparr>rq_max_tokens := 512\<rparr> else req)
      in if rq_created_at req = time_zero then req\<lparr>rq_created_at := now\<rparr> else req)"

definition track_request :: "time \<Rightarrow> inference_request \<Rightarrow> executor \<Rightarrow> executor" where
  "track_request now req s =
     s\<lparr>ex_active := (ex_active s)(rq_id req \<mapsto> req),
       ex_stats := (ex_stats s)\<lparr>xs_total_requests := xs_total_requests (ex_stats s) + 1,
         xs_active_requests := xs_active_requests (ex_stats s) + 1, xs_last_request_time := now\<rparr>\<rparr>"

definition untrack_request :: "string \<Rightarrow> executor \<Rightarrow> executor" where
  "untrack_request request_id s =
     s\<lparr>ex_active := (ex_active s)(request_id := None),
       ex_stats := (ex_stats s)\<lparr>xs_active_requests := xs_active_requests (ex_stats s) - 1\<rparr>\<rparr>"

definition update_stats_success :: "time \<Rightarrow> inference_response \<Rightarrow> executor \<Rightarrow> executor" where
  "update_stats_success now resp s =
     (let st = ex_stats s;
          completed = xs_completed_requests st + 1;
          latency = i64 (xs_total_latency st + rs_latency resp)
      in s\<lparr>ex_stats := st\<lparr>xs_completed_requests := completed,
            xs_total_input_tokens := xs_total_input_tokens st + rs_input_tokens resp,
            xs_total_output_tokens := xs_total_output_tokens st + rs_output_tokens resp,
            xs_total_latency := latency,
            xs_max_latency := max (xs_max_latency st) (rs_latency resp),
            xs_min_latency := min (xs_min_latency st) (rs_latency resp),
            xs_avg_latency := (if 0 < completed then go_div latency completed else xs_avg_latency st),
            xs_updated_at := now\<rparr>\<rparr>)"

definition update_stats_failed :: "time \<Rightarrow> executor \<Rightarrow> executor" where
  "update_stats_failed now s =
     s\<lparr>ex_stats := (ex_stats s)\<lparr>xs_failed_requests := xs_failed_requests (ex_stats s) + 1,
                                xs_updated_at := now\<rparr>\<rparr>"

definition update_stats_cancelled :: "time \<Rightarrow> executor \<Rightarrow> executor" where
  "update_stats_cancelled now s =
     s\<lparr>ex_stats := (ex_stats s)\<lparr>xs_cancelled_requests := xs_cancelled_requests (ex_stats s) + 1,
                                xs_updated_at := now\<rparr>\<rparr>"

definition update_requests_per_second :: "time \<Rightarrow> executor \<Rightarrow> executor" where
  "update_requests_per_second now s =
     (let st = ex_stats s; elapsed = f_seconds (time_sub now (xs_start_time st))
      in if 0 < elapsed
         then s\<lparr>ex_stats := st\<lparr>xs_requests_per_second := fl (fl (of_int (xs_completed_requests st)) / elapsed)\<rparr>\<rparr>
         else s)"

section \<open>The calls of a client\<close>

text \<open>
  The common start of \<^verbatim>\<open>Execute\<close> and \<^verbatim>\<open>ExecuteAsync\<close>: validate, fill in defaults and the id, track, and
  put on the queue, or untrack again when the queue is full. The result is the request as queued.
\<close>

definition submit_request :: "string \<Rightarrow> time \<Rightarrow> inference_request \<Rightarrow> executor
    \<Rightarrow> executor \<times> (go_error + inference_request)" where
  "submit_request uuid now req s =
     (case exec_validate_request req of
        Some e \<Rightarrow> (s, Inl e)
      | None \<Rightarrow>
          let req = set_request_defaults now (ex_config s) req;
              req = (if rq_id req = [] then req\<lparr>rq_id := uuid\<rparr> else req);
              s = track_request now req s
          in if int (length (ex_queue s)) < xc_max_queue_size (ex_config s)
             then (s\<lparr>ex_queue := ex_queue s @ [req]\<rparr>, Inr req)
             else (untrack_request (rq_id req) s,
                   Inl (with_retryable True (new_error ErrRequestQueueFull ''Request queue is full''))))"

definition execute_async :: "string \<Rightarrow> time \<Rightarrow> inference_request \<Rightarrow> executor \<Rightarrow> executor \<times> (go_error + string)" where
  "execute_async uuid now req s =
     (case submit_request uuid now req s of
        (s, Inl e) \<Rightarrow> (s, Inl e)
      | (s, Inr req) \<Rightarrow> (s, Inr (rq_id req)))"

text \<open>\<^verbatim>\<open>Execute\<close> up to its last \<^verbatim>\<open>select\<close>: it returns an error, or blocks (\<open>None\<close>) as call \<open>c\<close> with an
  empty response channel.\<close>

definition execute_begin :: "nat \<Rightarrow> string \<Rightarrow> time \<Rightarrow> inference_request \<Rightarrow> executor
    \<Rightarrow> executor \<times> go_error option" where
  "execute_begin c uuid now req s =
     (case submit_request uuid now req s of
        (s, Inl e) \<Rightarrow> (s, Some e)
      | (s, Inr req) \<Rightarrow>
          (s\<lparr>ex_calls := (ex_calls s)(c \<mapsto> \<lparr>cc_request = req, cc_response_chan = []\<rparr>)\<rparr>, None))"

text \<open>The cases of the \<^verbatim>\<open>select\<close>. A case that is not ready does not run (\<open>None\<close>).\<close>

datatype wake_up = ResponseReady | ContextDone | TimerFired

definition execute_end :: "nat \<Rightarrow> wake_up \<Rightarrow> time \<Rightarrow> executor
    \<Rightarrow> (executor \<times> (go_error + inference_response)) option" where
  "execute_end c w now s =
     (case ex_calls s c of
        None \<Rightarrow> None
      | Some call \<Rightarrow>
          let req = cc_request call;
              s = untrack_request (rq_id req) (s\<lparr>ex_calls := (ex_calls s)(c := None)\<rparr>)
          in case w of
               ResponseReady \<Rightarrow>
                 (case cc_response_chan call of
                    [] \<Rightarrow> None
                  | Inl e # _ \<Rightarrow> Some (update_stats_failed now s, Inl e)
                  | Inr resp # _ \<Rightarrow> Some (update_stats_success now resp s, Inr resp))
             | ContextDone \<Rightarrow>
                 Some (update_stats_cancelled now s, Inl (with_request_id (rq_id req)
                   (new_error ErrInferenceCancelled ''Request cancelled by client'')))
             | TimerFired \<Rightarrow>
                 Some (update_stats_failed now s, Inl (err_inference_timeout (rq_id req))))"

record request_status =
  qs_request_id :: string
  qs_model_id :: string
  qs_status :: string
  qs_created_at :: time

definition get_request_status :: "string \<Rightarrow> executor \<Rightarrow> go_error + request_status" where
  "get_request_status request_id s =
     (case ex_active s request_id of
        None \<Rightarrow> Inl (with_request_id request_id (new_error ErrRequestInvalid ''Request not found''))
      | Some req \<Rightarrow> Inr \<lparr>qs_request_id = request_id, qs_model_id = rq_model_id req,
                         qs_status = ''processing'', qs_created_at = rq_created_at req\<rparr>)"

definition cancel_request :: "string \<Rightarrow> executor \<Rightarrow> executor \<times> go_error option" where
  "cancel_request request_id s =
     (case ex_active s request_id of
        None \<Rightarrow> (s, Some (with_request_id request_id (new_error ErrRequestInvalid ''Request not found'')))
      | Some req \<Rightarrow>
          (s\<lparr>ex_active := (ex_active s)(request_id := None),
             ex_stats := (ex_stats s)\<lparr>xs_cancelled_requests := xs_cancelled_requests (ex_stats s) + 1\<rparr>\<rparr>, None))"

definition get_executor_stats :: "executor \<Rightarrow> executor_stats" where
  "get_executor_stats s = (ex_stats s)\<lparr>xs_queued_requests := int (length (ex_queue s))\<rparr>"

definition get_active_requests :: "string list \<Rightarrow> executor \<Rightarrow> inference_request list" where
  "get_active_requests ks s = map snd (visit ks (ex_active s))"

section \<open>Processing a request\<close>

text \<open>\<^verbatim>\<open>ListInstances\<close> with a filter, whose empty fields select everything.\<close>

record list_filter =
  lf_model_id :: string
  lf_state :: "instance_state option"
  lf_device :: "device_type option"

definition list_instances :: "string list \<Rightarrow> list_filter option \<Rightarrow> (string \<rightharpoonup> model_instance)
    \<Rightarrow> model_instance list" where
  "list_instances ks flt table =
     filter (\<lambda>i. case flt of
         None \<Rightarrow> True
       | Some f \<Rightarrow> (lf_model_id f = [] \<or> mi_model_id i = lf_model_id f)
           \<and> (case lf_state f of None \<Rightarrow> True | Some st \<Rightarrow> mi_state i = st)
           \<and> (case lf_device f of None \<Rightarrow> True | Some d \<Rightarrow> ic_device (mi_config i) = d))
       (map snd (visit ks table))"

definition execute_on_instance :: "(model_instance \<Rightarrow> inference_request \<Rightarrow> go_error + inference_response)
    \<Rightarrow> time \<Rightarrow> inference_request \<Rightarrow> model_instance
    \<Rightarrow> model_instance \<times> inference_request \<times> (go_error + inference_response)" where
  "execute_on_instance execute now req i =
     (if \<not> is_ready i then (i, req, Inl (err_instance_not_ready (mi_id i)))
      else case instance_queue_request now req i of
        (i, req, Some e) \<Rightarrow> (i, req, Inl e)
      | (i, req, None) \<Rightarrow>
          (i, req, if rq_mode req = ModeStreaming
                   then Inl (new_error ErrNotImplemented ''Streaming mode not yet implemented'')
                   else execute_sync execute i req))"

text \<open>The instances a slice of pointers points to now.\<close>

definition instances_at :: "string list \<Rightarrow> executor \<Rightarrow> model_instance list" where
  "instances_at ids s = List.map_filter (ex_instances s) ids"

definition put_instance :: "model_instance \<Rightarrow> executor \<Rightarrow> executor" where
  "put_instance i s = s\<lparr>ex_instances := (ex_instances s)(mi_id i \<mapsto> i)\<rparr>"

text \<open>
  The retry loop, from \<open>attempt\<close> on. It returns the last attempt and the value of \<^verbatim>\<open>err\<close> and \<^verbatim>\<open>resp\<close> after the
  loop: an error, a response, or neither (\<open>Inr None\<close>), which is also the start value \<open>res\<close>.
\<close>

function retry_loop :: "(int \<Rightarrow> model_instance \<Rightarrow> inference_request \<Rightarrow> go_error + inference_response)
    \<Rightarrow> ((model_instance \<Rightarrow> int) \<Rightarrow> model_instance list \<Rightarrow> model_instance list) \<Rightarrow> string list \<Rightarrow> time \<Rightarrow> int
    \<Rightarrow> int \<Rightarrow> inference_request \<Rightarrow> model_instance \<Rightarrow> go_error + inference_response option \<Rightarrow> executor
    \<Rightarrow> executor \<times> inference_request \<times> int \<times> (go_error + inference_response option)" where
  "retry_loop run sorter ids now limit attempt req i res s =
     (if limit < attempt then (s, req, attempt, res)
      else case execute_on_instance (run attempt) now req i of
        (i, req, Inr resp) \<Rightarrow> (put_instance i s, req, attempt, Inr (Some resp))
      | (i, req, Inl e) \<Rightarrow>
          let s = put_instance i s
          in if \<not> is_retryable e then (s, req, attempt, Inl e)
             else if attempt < limit
             then (case select_instance sorter (rq_model_id req) (instances_at ids s) (ex_scheduler s) of
                     (sched, Inl e) \<Rightarrow> (s\<lparr>ex_scheduler := sched\<rparr>, req, attempt, Inl e)
                   | (sched, Inr i) \<Rightarrow> retry_loop run sorter ids now limit (attempt + 1) req i (Inr None)
                                        (s\<lparr>ex_scheduler := sched\<rparr>))
             else retry_loop run sorter ids now limit (attempt + 1) req i (Inl e) s)"
  by pat_completeness auto
termination
  by (relation "measure (\<lambda>(run, sorter, ids, now, limit, attempt, req, i, res, s). nat (limit + 1 - attempt))") auto

declare retry_loop.simps [simp del]

definition handle_request_error :: "string list \<Rightarrow> time \<Rightarrow> inference_request \<Rightarrow> go_error \<Rightarrow> executor \<Rightarrow> executor" where
  "handle_request_error lks now req e s =
     untrack_request (rq_id req) (s\<lparr>ex_scheduler := complete_request lks now req (Some e) (ex_scheduler s)\<rparr>)"

text \<open>A processed request ends with an error, with a response, or with a panic: without an error the
  response is dereferenced.\<close>

datatype request_outcome = Failed go_error | Completed inference_response | Panicked

definition process_request :: "(int \<Rightarrow> model_instance \<Rightarrow> inference_request \<Rightarrow> go_error + inference_response)
    \<Rightarrow> ((model_instance \<Rightarrow> int) \<Rightarrow> model_instance list \<Rightarrow> model_instance list) \<Rightarrow> string list \<Rightarrow> string list
    \<Rightarrow> time \<Rightarrow> duration \<Rightarrow> inference_request \<Rightarrow> executor \<Rightarrow> executor \<times> request_outcome" where
  "process_request run sorter ks lks now latency req s =
     (let instances = list_instances ks
            (Some \<lparr>lf_model_id = rq_model_id req, lf_state = None, lf_device = None\<rparr>) (ex_instances s);
          fail = (\<lambda>req e s. (handle_request_error lks now req e s, Failed e))
      in if instances = [] then fail req (err_no_available_instance (rq_model_id req)) s
         else case select_instance sorter (rq_model_id req) instances (ex_scheduler s) of
           (sched, Inl e) \<Rightarrow> fail req e (s\<lparr>ex_scheduler := sched\<rparr>)
         | (sched, Inr i) \<Rightarrow>
             (case retry_loop run sorter (map mi_id instances) now (xc_retry_attempts (ex_config s)) 0 req i
                     (Inr None) (s\<lparr>ex_scheduler := sched\<rparr>) of
                (s, req, _, Inl e) \<Rightarrow> fail req e s
              | (s, req, _, Inr None) \<Rightarrow> (s, Panicked)
              | (s, req, _, Inr (Some resp)) \<Rightarrow>
                  (s\<lparr>ex_scheduler := complete_request lks now req None (ex_scheduler s)\<rparr>,
                   Completed (resp\<lparr>rs_latency := latency\<rparr>))))"

text \<open>A worker takes the head of the queue and processes it.\<close>

definition worker_step :: "(int \<Rightarrow> model_instance \<Rightarrow> inference_request \<Rightarrow> go_error + inference_response)
    \<Rightarrow> ((model_instance \<Rightarrow> int) \<Rightarrow> model_instance list \<Rightarrow> model_instance list) \<Rightarrow> string list \<Rightarrow> string list
    \<Rightarrow> time \<Rightarrow> duration \<Rightarrow> executor \<Rightarrow> (executor \<times> request_outcome) option" where
  "worker_step run sorter ks lks now latency s =
     (case ex_queue s of
        [] \<Rightarrow> None
      | req # rest \<Rightarrow> Some (process_request run sorter ks lks now latency req (s\<lparr>ex_queue := rest\<rparr>)))"

section \<open>Shutdown\<close>

text \<open>
  \<^verbatim>\<open>Shutdown\<close> stops the executor and then waits for its events in the order they occur: a tick of the
  ticker (with the counter of active requests it reads), the end of the context, or the timeout. The
  error of the timeout carries the counter in its message. \<open>None\<close> is to wait on.
\<close>

datatype shutdown_event = ShutdownTick int | ShutdownTimeout int | ShutdownContextDone go_error

fun shutdown_wait :: "shutdown_event list \<Rightarrow> go_error option option" where
  "shutdown_wait [] = None"
| "shutdown_wait (ShutdownTick active # es) = (if active = 0 then Some None else shutdown_wait es)"
| "shutdown_wait (ShutdownTimeout active # es) = Some (Some (PlainError ''shutdown timeout''))"
| "shutdown_wait (ShutdownContextDone e # es) = Some (Some e)"

definition executor_shutdown :: "shutdown_event list \<Rightarrow> executor \<Rightarrow> (executor \<times> go_error option option) option" where
  "executor_shutdown events s = map_option (\<lambda>s. (s, shutdown_wait events)) (executor_stop s)"

section \<open>The executor as a state machine\<close>

inductive executor_step :: "executor \<Rightarrow> executor \<Rightarrow> bool" where
  begin_call: "ex_calls s c = None \<Longrightarrow> execute_begin c uuid now req s = (s', err) \<Longrightarrow> executor_step s s'"
| end_call: "execute_end c w now s = Some (s', res) \<Longrightarrow> executor_step s s'"
| async_call: "execute_async uuid now req s = (s', answer) \<Longrightarrow> executor_step s s'"
| cancel: "cancel_request request_id s = (s', err) \<Longrightarrow> executor_step s s'"
| work: "worker_step run sorter ks lks now latency s = Some (s', outcome) \<Longrightarrow> outcome \<noteq> Panicked
    \<Longrightarrow> executor_step s s'"
| instance_work: "ex_instances s i = Some inst
    \<Longrightarrow> executor_step s (s\<lparr>ex_instances :=
          (ex_instances s)(i \<mapsto> instance_process_next execute stream now latency inst)\<rparr>)"
| collect: "executor_step s (update_requests_per_second now s)"
| restart: "executor_step s (executor_start s)"
| stop: "executor_stop s = Some s' \<Longrightarrow> executor_step s s'"

text \<open>What processing a request leaves alone until its outcome is known.\<close>

definition call_view :: "executor \<Rightarrow> executor_config \<times> inference_request list \<times> (nat \<rightharpoonup> client_call) \<times> int" where
  "call_view s = (ex_config s, ex_queue s, ex_calls s, xs_completed_requests (ex_stats s))"

lemma put_instance_fields [simp]:
  "ex_active (put_instance i s) = ex_active s" "ex_stats (put_instance i s) = ex_stats s"
  "ex_scheduler (put_instance i s) = ex_scheduler s" "call_view (put_instance i s) = call_view s"
  "call_view (s\<lparr>ex_scheduler := sched\<rparr>) = call_view s"
  by (simp_all add: put_instance_def call_view_def)

lemma retry_loop_preserves:
  assumes exec: "\<And>s attempt req i i' req' r. P s
      \<Longrightarrow> execute_on_instance (run attempt) now req i = (i', req', r) \<Longrightarrow> P (put_instance i' s)"
    and sched: "\<And>s sched. P s \<Longrightarrow> P (s\<lparr>ex_scheduler := sched\<rparr>)"
  shows "retry_loop run sorter ids now limit attempt req i res s = (s', req', n, res') \<Longrightarrow> P s \<Longrightarrow> P s'"
proof (induction k \<equiv> "nat (limit + 1 - attempt)" arbitrary: attempt req i res s)
  case 0
  then have "limit < attempt" by simp
  with 0 show ?case by (simp add: retry_loop.simps)
next
  case (Suc k)
  then have att: "\<not> limit < attempt" "k = nat (limit + 1 - (attempt + 1))" by auto
  obtain i1 req1 r where ex: "execute_on_instance (run attempt) now req i = (i1, req1, r)"
    by (metis prod_cases3)
  have P1: "P (put_instance i1 s)" by (rule exec [OF Suc.prems(2) ex])
  from Suc.prems(1) show ?case
    by (subst (asm) retry_loop.simps)
      (auto simp: att(1) ex Let_def P1 sched split: if_splits prod.splits sum.splits
        dest: Suc.hyps(1) [OF att(2)])
qed

lemma retry_loop_frame:
  "retry_loop run sorter ids now limit attempt req i res s = (s', req', n, res')
    \<Longrightarrow> call_view s' = call_view s \<and> ex_active s' = ex_active s \<and> ex_stats s' = ex_stats s"
  by (rule retry_loop_preserves [where P = "\<lambda>s'. call_view s' = call_view s \<and> ex_active s' = ex_active s
    \<and> ex_stats s' = ex_stats s"]) simp_all

lemma process_request_view:
  "process_request run sorter ks lks now latency req s = (s', out) \<Longrightarrow> call_view s' = call_view s"
  by (auto simp: process_request_def Let_def handle_request_error_def untrack_request_def call_view_def
      split: if_splits prod.splits sum.splits option.splits
      dest!: retry_loop_frame [unfolded call_view_def])

definition no_answers :: "executor \<Rightarrow> bool" where
  "no_answers s \<longleftrightarrow> (\<forall>c call. ex_calls s c = Some call \<longrightarrow> cc_response_chan call = [])
     \<and> int (length (ex_queue s)) \<le> xc_max_queue_size (ex_config s) \<and> xs_completed_requests (ex_stats s) = 0"

lemma no_answers_view: "call_view s' = call_view s \<Longrightarrow> no_answers s \<Longrightarrow> no_answers s'"
  by (simp add: no_answers_def call_view_def)

lemma no_answers_submit:
  "submit_request uuid now req s = (s', r) \<Longrightarrow> no_answers s \<Longrightarrow> no_answers s'"
  by (auto simp: submit_request_def no_answers_def track_request_def untrack_request_def Let_def
      split: option.splits if_splits)

lemma no_answers_begin:
  "execute_begin c uuid now req s = (s', err) \<Longrightarrow> no_answers s \<Longrightarrow> no_answers s'"
  by (auto simp: execute_begin_def no_answers_def split: prod.splits sum.splits if_splits
      dest!: no_answers_submit [unfolded no_answers_def])

lemma execute_end_cases:
  assumes "execute_end c w now s = Some (s', res)" "no_answers s"
  obtains call e where "ex_calls s c = Some call" "res = Inl e"
    "e = with_request_id (rq_id (cc_request call))
           (new_error ErrInferenceCancelled ''Request cancelled by client'')
      \<or> e = err_inference_timeout (rq_id (cc_request call))"
    "ex_calls s' = (ex_calls s)(c := None)" "ex_queue s' = ex_queue s" "ex_config s' = ex_config s"
    "xs_completed_requests (ex_stats s') = xs_completed_requests (ex_stats s)"
  using assms
  by (auto simp: execute_end_def no_answers_def Let_def untrack_request_def update_stats_failed_def
      update_stats_cancelled_def split: option.splits wake_up.splits)

lemma no_answers_end:
  assumes "execute_end c w now s = Some (s', res)" "no_answers s"
  shows "no_answers s'"
  by (rule execute_end_cases [OF assms]) (use assms(2) in \<open>auto simp: no_answers_def\<close>)

lemma no_answers_step: "executor_step s s' \<Longrightarrow> no_answers s \<Longrightarrow> no_answers s'"
proof (induction rule: executor_step.induct)
  case (begin_call s c uuid now req s' err)
  then show ?case by (blast intro: no_answers_begin)
next
  case (end_call c w now s s' res)
  then show ?case by (blast intro: no_answers_end)
next
  case (async_call uuid now req s s' answer)
  then show ?case
    by (auto simp: execute_async_def split: prod.splits sum.splits dest: no_answers_submit)
next
  case (cancel request_id s s' err)
  then show ?case by (auto simp: cancel_request_def no_answers_def split: option.splits)
next
  case (work run sorter ks lks now latency s s' outcome)
  then obtain req rest where q: "ex_queue s = req # rest"
      and p: "process_request run sorter ks lks now latency req (s\<lparr>ex_queue := rest\<rparr>) = (s', outcome)"
    by (auto simp: worker_step_def split: list.splits)
  have "no_answers (s\<lparr>ex_queue := rest\<rparr>)" using work(3) q by (simp add: no_answers_def)
  with process_request_view [OF p] show ?case by (rule no_answers_view)
next
  case (collect s now)
  then show ?case by (simp add: update_requests_per_second_def no_answers_def Let_def)
next
  case (restart s)
  then show ?case by (simp add: executor_start_def no_answers_def)
next
  case (stop s s')
  then show ?case by (auto simp: executor_stop_def no_answers_def split: if_splits)
qed (simp add: no_answers_def)

lemma no_answers_reachable:
  assumes "executor_step\<^sup>*\<^sup>* (new_executor now0 config sched instances) s"
    and "0 \<le> xc_max_queue_size (ex_config (new_executor now0 config sched instances))"
  shows "no_answers s"
  using assms(1)
proof (induction rule: rtranclp_induct)
  case base
  with assms(2) show ?case by (simp add: no_answers_def new_executor_def)
qed (blast intro: no_answers_step)

text \<open>C6: \<^verbatim>\<open>Execute\<close> never returns a response. In every state that clients, workers and instances can
  reach from a new executor, each call of \<^verbatim>\<open>Execute\<close> that returns from its \<^verbatim>\<open>select\<close> returns the
  cancellation or the timeout error, no request has ever been counted as completed, and the request
  queue holds at most its configured size.\<close>

theorem execute_never_answers:
  assumes "executor_step\<^sup>*\<^sup>* (new_executor now0 config sched instances) s"
    and "0 \<le> xc_max_queue_size (ex_config (new_executor now0 config sched instances))"
  shows "(\<forall>c w now. case execute_end c w now s of
        None \<Rightarrow> True
      | Some (s', Inr resp) \<Rightarrow> False
      | Some (s', Inl e) \<Rightarrow> get_error_code e \<in> {ErrInferenceCancelled, ErrInferenceTimeout})
    \<and> xs_completed_requests (get_executor_stats s) = 0
    \<and> int (length (ex_queue s)) \<le> xc_max_queue_size (ex_config s)"
proof -
  have inv: "no_answers s" by (rule no_answers_reachable [OF assms])
  have "case execute_end c w now s of
        None \<Rightarrow> True
      | Some (s', Inr resp) \<Rightarrow> False
      | Some (s', Inl e) \<Rightarrow> get_error_code e \<in> {ErrInferenceCancelled, ErrInferenceTimeout}" for c w now
    by (auto split: option.splits sum.splits elim!: execute_end_cases [OF _ inv]
        simp: get_error_code_def error_constructors)
  with inv show ?thesis by (simp add: no_answers_def get_executor_stats_def)
qed

section \<open>Retries\<close>

text \<open>
  At attempt \<open>a\<close> some ready instance answered with a retryable error; the loader stores an instance
  under its id.
\<close>

definition keyed :: "executor \<Rightarrow> bool" where
  "keyed s \<longleftrightarrow> (\<forall>k i. ex_instances s k = Some i \<longrightarrow> mi_id i = k)"

lemma keyed_put [simp]: "keyed s \<Longrightarrow> keyed (put_instance i s)"
  and keyed_scheduler [simp]: "keyed (s\<lparr>ex_scheduler := sched\<rparr>) = keyed s"
  by (simp_all add: keyed_def put_instance_def)

lemma instance_queue_request_keeps:
  "instance_queue_request now req i = (i', req', err)
    \<Longrightarrow> mi_id i' = mi_id i \<and> mi_state i' = mi_state i \<and> rq_id req' = rq_id req
      \<and> rq_model_id req' = rq_model_id req \<and> (err = None \<longrightarrow> req' \<in> set (mi_requests i'))"
  by (auto simp: instance_queue_request_def Let_def split: if_splits)

lemma execute_on_instance_keeps:
  "execute_on_instance execute now req i = (i', req', r)
    \<Longrightarrow> mi_id i' = mi_id i \<and> mi_state i' = mi_state i \<and> rq_id req' = rq_id req
      \<and> rq_model_id req' = rq_model_id req
      \<and> (\<forall>resp. r = Inr resp \<longrightarrow> req' \<in> set (mi_requests i') \<and> execute_sync execute i' req' = Inr resp)"
  by (auto simp: execute_on_instance_def split: if_splits prod.splits option.splits
      dest!: instance_queue_request_keeps)

lemma in_instances_at: "i \<in> set (instances_at ids s) \<longleftrightarrow> (\<exists>k\<in>set ids. ex_instances s k = Some i)"
  by (auto simp: instances_at_def List.map_filter_def image_iff)

text \<open>A served request was executed on an instance that still has it in its own queue.\<close>

definition served_and_queued :: "(int \<Rightarrow> model_instance \<Rightarrow> inference_request \<Rightarrow> go_error + inference_response)
    \<Rightarrow> int \<Rightarrow> string \<Rightarrow> inference_response \<Rightarrow> executor \<Rightarrow> bool" where
  "served_and_queued run n request_id resp s \<longleftrightarrow> (\<exists>i req. ex_instances s (mi_id i) = Some i
     \<and> execute_sync (run n) i req = Inr resp \<and> req \<in> set (mi_requests i) \<and> rq_id req = request_id)"

text \<open>
  The attempts one after the other: \<open>retried \<dots> n req' i' s'\<close> says that the attempts before \<open>n\<close> failed with retryable
  errors, each on the instance the scheduler had selected for it, and that \<open>req'\<close> goes to \<open>i'\<close> next.
\<close>

inductive retried :: "(int \<Rightarrow> model_instance \<Rightarrow> inference_request \<Rightarrow> go_error + inference_response)
    \<Rightarrow> ((model_instance \<Rightarrow> int) \<Rightarrow> model_instance list \<Rightarrow> model_instance list) \<Rightarrow> string list \<Rightarrow> time
    \<Rightarrow> inference_request \<Rightarrow> model_instance \<Rightarrow> executor \<Rightarrow> int \<Rightarrow> inference_request \<Rightarrow> model_instance \<Rightarrow> executor \<Rightarrow> bool"
  for run sorter ids now req i s where
  first: "retried run sorter ids now req i s 0 req i s"
| again: "retried run sorter ids now req i s n req' i' s' \<Longrightarrow> execute_on_instance (run n) now req' i' = (i1, req1, Inl e)
    \<Longrightarrow> is_retryable e
    \<Longrightarrow> select_instance sorter (rq_model_id req1) (instances_at ids (put_instance i1 s')) (ex_scheduler s') = (sched, Inr j)
    \<Longrightarrow> retried run sorter ids now req i s (n + 1) req1 j ((put_instance i1 s')\<lparr>ex_scheduler := sched\<rparr>)"

lemma put_instance_scheduler [simp]: "ex_scheduler (put_instance i s) = ex_scheduler s"
  by (simp add: put_instance_def)

lemma retried_keeps: "retried run sorter ids now req i s n req' i' s'
    \<Longrightarrow> rq_id req' = rq_id req \<and> rq_model_id req' = rq_model_id req \<and> 0 \<le> n"
  by (induction rule: retried.induct) (auto dest!: execute_on_instance_keeps)

text \<open>How the loop ends: with the outcome of the last attempt, a success, a permanent error or the limit.\<close>

definition last_attempt :: "(int \<Rightarrow> model_instance \<Rightarrow> inference_request \<Rightarrow> go_error + inference_response)
    \<Rightarrow> ((model_instance \<Rightarrow> int) \<Rightarrow> model_instance list \<Rightarrow> model_instance list) \<Rightarrow> string list \<Rightarrow> time
    \<Rightarrow> inference_request \<Rightarrow> model_instance \<Rightarrow> executor \<Rightarrow> int \<Rightarrow> go_error + inference_response \<Rightarrow> inference_request \<Rightarrow> executor \<Rightarrow> bool" where
  "last_attempt run sorter ids now req i s n r req' s' \<longleftrightarrow> (\<exists>reqn j sn j'. retried run sorter ids now req i s n reqn j sn
     \<and> is_ready j \<and> execute_on_instance (run n) now reqn j = (j', req', r) \<and> s' = put_instance j' sn)"

definition retries_end :: "(int \<Rightarrow> model_instance \<Rightarrow> inference_request \<Rightarrow> go_error + inference_response)
    \<Rightarrow> ((model_instance \<Rightarrow> int) \<Rightarrow> model_instance list \<Rightarrow> model_instance list) \<Rightarrow> string list \<Rightarrow> time \<Rightarrow> int
    \<Rightarrow> inference_request \<Rightarrow> model_instance \<Rightarrow> executor \<Rightarrow> executor \<times> inference_request \<times> int \<times> (go_error + inference_response option) \<Rightarrow> bool" where
  "retries_end run sorter ids now limit req i s = (\<lambda>(s', req', _, res).
     \<exists>n r. 0 \<le> n \<and> n \<le> limit \<and> last_attempt run sorter ids now req i s n r req' s'
       \<and> (case r of Inl e \<Rightarrow> res = Inl e \<and> (\<not> is_retryable e \<or> n = limit) | Inr resp \<Rightarrow> res = Inr (Some resp)))"

lemma last_attempt_served:
  assumes "last_attempt run sorter ids now req i s n (Inr resp) req' s'"
  shows "served_and_queued run n (rq_id req) resp s'"
proof -
  from assms obtain reqn j sn j' where a: "retried run sorter ids now req i s n reqn j sn"
      "execute_on_instance (run n) now reqn j = (j', req', Inr resp)" "s' = put_instance j' sn"
    by (auto simp: last_attempt_def)
  have "ex_instances s' (mi_id j') = Some j'"
    by (simp add: a(3) put_instance_def)
  then show ?thesis
    using execute_on_instance_keeps [OF a(2)] retried_keeps [OF a(1)] unfolding served_and_queued_def by metis
qed

lemma last_attempt_id: "last_attempt run sorter ids now req i s n r req' s' \<Longrightarrow> rq_id req' = rq_id req"
  by (auto simp: last_attempt_def dest!: execute_on_instance_keeps retried_keeps)

lemma reselect_instance:
  assumes "slice_sorter sorter" "keyed s" "is_ready i" "mi_id i \<in> set ids"
  shows "\<exists>sched j. select_instance sorter m (instances_at ids (put_instance i s)) (ex_scheduler (put_instance i s)) = (sched, Inr j)
    \<and> is_ready j \<and> mi_id j \<in> set ids"
proof -
  let ?s = "put_instance i s"
  have i: "i \<in> set (instances_at ids ?s)" using assms(4) by (auto simp: in_instances_at put_instance_def)
  obtain sched sel where sel: "select_instance sorter m (instances_at ids ?s) (ex_scheduler ?s) = (sched, sel)" by fastforce
  from select_instance_cases [OF assms(1) sel] i assms(3)
  obtain j where j: "sel = Inr j" "j \<in> set (instances_at ids ?s)" "is_ready j" by (auto split: sum.splits)
  moreover have "keyed ?s" using assms(2) by simp
  ultimately have "mi_id j \<in> set ids" by (auto simp: in_instances_at keyed_def)
  with sel j show ?thesis by blast
qed

lemma retry_loop_result:
  assumes "slice_sorter sorter" "attempt \<le> limit" "is_ready i" "mi_id i \<in> set ids" "keyed s"
    and "retried run sorter ids now req0 i0 s0 attempt req i s"
  shows "retries_end run sorter ids now limit req0 i0 s0 (retry_loop run sorter ids now limit attempt req i res s)"
  using assms(2-)
proof (induction k \<equiv> "nat (limit - attempt)" arbitrary: attempt req i res s rule: less_induct)
  case (less attempt req i res s)
  obtain i1 req1 r where ex: "execute_on_instance (run attempt) now req i = (i1, req1, r)"
    by (metis prod_cases3)
  have nonneg: "0 \<le> attempt" using retried_keeps [OF less(6)] by simp
  have end_here: "last_attempt run sorter ids now req0 i0 s0 attempt r req1 (put_instance i1 s)"
    unfolding last_attempt_def using less(6,3) ex by blast
  have stop: "retries_end run sorter ids now limit req0 i0 s0 (put_instance i1 s, req1, k, res')"
    if "case r of Inl e \<Rightarrow> res' = Inl e \<and> (\<not> is_retryable e \<or> attempt = limit) | Inr resp \<Rightarrow> res' = Inr (Some resp)" for k res'
    unfolding retries_end_def using end_here nonneg less(2) that by auto
  show ?case
  proof (cases "\<exists>e. r = Inl e \<and> is_retryable e \<and> attempt < limit")
    case False
    then show ?thesis
      using ex less(2) stop
      by (subst retry_loop.simps, cases r)
        (auto simp: Let_def retry_loop.simps [of run sorter ids now limit "limit + 1"])
  next
    case True
    then obtain e where e: "r = Inl e" "is_retryable e" "attempt < limit" by blast
    have "is_ready i1" "mi_id i1 \<in> set ids"
      using execute_on_instance_keeps [OF ex] less(3,4) by (simp_all add: is_ready_def)
    from reselect_instance [OF assms(1) less(5) this] obtain sched j where j: "is_ready j" "mi_id j \<in> set ids"
      "select_instance sorter (rq_model_id req1) (instances_at ids (put_instance i1 s)) (ex_scheduler (put_instance i1 s)) = (sched, Inr j)"
      by blast
    have "retried run sorter ids now req0 i0 s0 (attempt + 1) req1 j ((put_instance i1 s)\<lparr>ex_scheduler := sched\<rparr>)"
      by (rule retried.again [OF less(6) ex [unfolded e(1)] e(2)]) (use j(3) in simp)
    with less(1) [of "attempt + 1" j _ req1 "Inr None"] j(1,2) e(3) less(5)
    have "retries_end run sorter ids now limit req0 i0 s0
        (retry_loop run sorter ids now limit (attempt + 1) req1 j (Inr None) ((put_instance i1 s)\<lparr>ex_scheduler := sched\<rparr>))"
      by simp
    then show ?thesis
      using ex e j(3) less(2) by (subst retry_loop.simps) (simp add: Let_def)
  qed
qed

text \<open>Processing a request fails for want of an instance, or runs the loop from a ready one.\<close>

definition instances_of :: "string list \<Rightarrow> inference_request \<Rightarrow> executor \<Rightarrow> model_instance list" where
  "instances_of ks req s = list_instances ks (Some \<lparr>lf_model_id = rq_model_id req, lf_state = None, lf_device = None\<rparr>) (ex_instances s)"

lemma process_request_cases:
  assumes "slice_sorter sorter" "process_request run sorter ks lks now latency req s = (s', outcome)"
  obtains (unavailable) t where "\<forall>i\<in>set (instances_of ks req s). \<not> is_ready i"
      "s' = handle_request_error lks now req (err_no_available_instance (rq_model_id req)) t"
      "outcome = Failed (err_no_available_instance (rq_model_id req))" "ex_active t = ex_active s" "ex_stats t = ex_stats s"
  | (looped) i sched t req' n res where "is_ready i" "i \<in> set (instances_of ks req s)"
      "select_instance sorter (rq_model_id req) (instances_of ks req s) (ex_scheduler s) = (sched, Inr i)"
      "retry_loop run sorter (map mi_id (instances_of ks req s)) now (xc_retry_attempts (ex_config s)) 0 req i (Inr None)
         (s\<lparr>ex_scheduler := sched\<rparr>) = (t, req', n, res)"
      "(s', outcome) = (case res of
          Inl e \<Rightarrow> (handle_request_error lks now req' e t, Failed e)
        | Inr None \<Rightarrow> (t, Panicked)
        | Inr (Some resp) \<Rightarrow> (t\<lparr>ex_scheduler := complete_request lks now req' None (ex_scheduler t)\<rparr>,
            Completed (resp\<lparr>rs_latency := latency\<rparr>)))"
proof -
  obtain sched sel where sel: "select_instance sorter (rq_model_id req) (instances_of ks req s) (ex_scheduler s) = (sched, sel)"
    by fastforce
  note cases = select_instance_cases [OF assms(1) sel]
  show thesis
  proof (cases "instances_of ks req s = [] \<or> \<not> is_ok sel")
    case True
    with assms(2) sel cases show thesis
      by (intro unavailable [of "if instances_of ks req s = [] then s else s\<lparr>ex_scheduler := sched\<rparr>"])
        (auto simp: process_request_def instances_of_def [symmetric] Let_def split: if_splits sum.splits prod.splits)
  next
    case False
    then obtain i where i: "sel = Inr i" by (auto simp: is_ok_iff)
    obtain t req' n res where loop: "retry_loop run sorter (map mi_id (instances_of ks req s)) now (xc_retry_attempts (ex_config s)) 0 req i
        (Inr None) (s\<lparr>ex_scheduler := sched\<rparr>) = (t, req', n, res)" by (metis prod_cases4)
    show thesis
      by (rule looped [OF _ _ _ loop])
        (use cases i False assms(2) sel loop in \<open>auto simp: process_request_def instances_of_def [symmetric] Let_def
          split: sum.splits option.splits\<close>)
  qed
qed

text \<open>C7: retries. Processing a request ends in one of three ways. It panics only when the configured number
  of retries is negative. Otherwise the attempts are made in turn, each on the ready instance the scheduler selects for
  it, as long as they fail with retryable errors. It completes with the response of the first attempt that
  succeeds, which is one of those the configuration allows; the request then still sits in the queue of the
  instance that has just executed it, and stays in the table of active requests. It fails when no instance of the
  model is ready, or with the error of an attempt that is not retryable or was the last one allowed; the
  request is then untracked.\<close>

theorem process_request_outcomes:
  assumes "slice_sorter sorter" "keyed s" "process_request run sorter ks lks now latency req s = (s', outcome)"
  shows "case outcome of
      Panicked \<Rightarrow> xc_retry_attempts (ex_config s) < 0
    | Completed resp \<Rightarrow> ex_active s' = ex_active s \<and> ex_stats s' = ex_stats s
        \<and> (\<exists>sched i n resp' req' t. select_instance sorter (rq_model_id req) (instances_of ks req s) (ex_scheduler s) = (sched, Inr i)
             \<and> 0 \<le> n \<and> n \<le> xc_retry_attempts (ex_config s)
             \<and> last_attempt run sorter (map mi_id (instances_of ks req s)) now req i (s\<lparr>ex_scheduler := sched\<rparr>) n (Inr resp') req' t
             \<and> served_and_queued run n (rq_id req) resp' s' \<and> resp = resp'\<lparr>rs_latency := latency\<rparr>)
    | Failed e \<Rightarrow> ex_active s' = (ex_active s)(rq_id req := None)
        \<and> xs_active_requests (ex_stats s') = xs_active_requests (ex_stats s) - 1
        \<and> (e = err_no_available_instance (rq_model_id req) \<and> (\<forall>i\<in>set (instances_of ks req s). \<not> is_ready i)
           \<or> (\<exists>sched i n req' t. select_instance sorter (rq_model_id req) (instances_of ks req s) (ex_scheduler s) = (sched, Inr i)
               \<and> 0 \<le> n \<and> n \<le> xc_retry_attempts (ex_config s)
               \<and> last_attempt run sorter (map mi_id (instances_of ks req s)) now req i (s\<lparr>ex_scheduler := sched\<rparr>) n (Inl e) req' t
               \<and> (\<not> is_retryable e \<or> n = xc_retry_attempts (ex_config s))))"
  using assms(1,3)
proof (cases rule: process_request_cases)
  case (unavailable t)
  then show ?thesis by (simp add: handle_request_error_def untrack_request_def)
next
  case (looped i sched t req' n res)
  let ?limit = "xc_retry_attempts (ex_config s)"
  note frame = retry_loop_frame [OF looped(4)]
  show ?thesis
  proof (cases "0 \<le> ?limit")
    case False
    then have "res = Inr None" using looped(4) by (simp add: retry_loop.simps)
    with False looped(5) show ?thesis by simp
  next
    case True
    have "retries_end run sorter (map mi_id (instances_of ks req s)) now ?limit req i (s\<lparr>ex_scheduler := sched\<rparr>) (t, req', n, res)"
      unfolding looped(4) [symmetric]
      by (rule retry_loop_result [OF assms(1) True looped(1)]) (use looped(2) assms(2) retried.first in auto)
    then obtain k r where k: "0 \<le> k" "k \<le> ?limit"
        "last_attempt run sorter (map mi_id (instances_of ks req s)) now req i (s\<lparr>ex_scheduler := sched\<rparr>) k r req' t"
        "case r of Inl e \<Rightarrow> res = Inl e \<and> (\<not> is_retryable e \<or> k = ?limit) | Inr resp \<Rightarrow> res = Inr (Some resp)"
      by (auto simp: retries_end_def)
    show ?thesis
    proof (cases r)
      case (Inl err)
      with k looped(3,5) last_attempt_id [OF k(3)] frame show ?thesis
        by (auto simp: handle_request_error_def untrack_request_def)
    next
      case (Inr resp)
      with k looped(5) have out: "outcome = Completed (resp\<lparr>rs_latency := latency\<rparr>)"
          "s' = t\<lparr>ex_scheduler := complete_request lks now req' None (ex_scheduler t)\<rparr>" by simp_all
      have "served_and_queued run k (rq_id req) resp s'"
        using last_attempt_served [OF k(3) [unfolded Inr]] out(2) by (simp add: served_and_queued_def)
      with out frame looped(3) k Inr show ?thesis by auto
    qed
  qed
qed

section \<open>Batches of the executor\<close>

text \<open>
  \<^verbatim>\<open>ExecuteBatch\<close> runs one goroutine per request, each of which stores its result under its index and
  counts it while it holds the lock. \<open>outs\<close> is the list of these critical sections in the order they
  run: the index, the time the request took, and what \<^verbatim>\<open>Execute\<close> returned.
\<close>

definition outcome_result :: "int \<Rightarrow> string \<Rightarrow> duration \<Rightarrow> go_error + inference_response \<Rightarrow> batch_result" where
  "outcome_result index request_id dur r =
     \<lparr>br_index = index, br_request_id = request_id, br_success = is_ok r,
      br_response = (case r of Inl e \<Rightarrow> None | Inr resp \<Rightarrow> Some resp),
      br_error = (case r of Inl e \<Rightarrow> Some (get_error_code e) | Inr resp \<Rightarrow> None), br_duration = dur\<rparr>"

definition record_result :: "nat \<Rightarrow> batch_result \<Rightarrow> batch_response \<Rightarrow> batch_response" where
  "record_result k result resp =
     (let resp = resp\<lparr>bs_results := (bs_results resp)[k := result]\<rparr>
      in if br_success result then resp\<lparr>bs_succeeded := bs_succeeded resp + 1\<rparr>
         else resp\<lparr>bs_failed := bs_failed resp + 1\<rparr>)"

definition final_status :: "batch_response \<Rightarrow> batch_status" where
  "final_status resp =
     (if bs_failed resp = 0 then BatchComplete
      else if bs_succeeded resp = 0 then BatchFailed else BatchPartial)"

fun record_outcomes :: "inference_request list \<Rightarrow> (nat \<times> duration \<times> (go_error + inference_response)) list
    \<Rightarrow> batch_response \<Rightarrow> batch_response" where
  "record_outcomes reqs [] resp = resp"
| "record_outcomes reqs ((k, dur, r) # outs) resp =
     record_outcomes reqs outs (record_result k (outcome_result (int k) (rq_id (reqs ! k)) dur r) resp)"

definition execute_batch :: "time \<Rightarrow> time \<Rightarrow> batch_request
    \<Rightarrow> (nat \<times> duration \<times> (go_error + inference_response)) list \<Rightarrow> go_error + batch_response" where
  "execute_batch now finished batch outs =
     (if bq_requests batch = []
      then Inl (new_error ErrBatchInvalid ''Batch request must contain at least one request'')
      else
        let total = length (bq_requests batch);
            resp = \<lparr>bs_batch_id = bq_id batch, bs_model_id = bq_model_id batch, bs_status = BatchRunning,
              bs_results = replicate total empty_result, bs_total = int total, bs_succeeded = 0,
              bs_failed = 0, bs_duration = 0, bs_created_at = now, bs_completed_at = None\<rparr>;
            resp = record_outcomes (bq_requests batch) outs resp
        in Inr (resp\<lparr>bs_duration := time_sub finished now, bs_completed_at := Some finished,
                     bs_status := final_status resp\<rparr>))"

lemma record_result_fields [simp]:
  "bs_results (record_result k res resp) = (bs_results resp)[k := res]"
  "bs_total (record_result k res resp) = bs_total resp"
  "bs_status (record_result k res resp) = bs_status resp"
  "bs_succeeded (record_result k res resp) = bs_succeeded resp + (if br_success res then 1 else 0)"
  "bs_failed (record_result k res resp) = bs_failed resp + (if br_success res then 0 else 1)"
  by (simp_all add: record_result_def Let_def)

lemma outcome_success [simp]: "br_success (outcome_result k req_id dur r) = is_ok r"
  by (simp add: outcome_result_def)

lemma record_outcomes_counts:
  "bs_total (record_outcomes reqs outs resp) = bs_total resp
   \<and> length (bs_results (record_outcomes reqs outs resp)) = length (bs_results resp)
   \<and> bs_succeeded (record_outcomes reqs outs resp)
       = bs_succeeded resp + int (length (filter (\<lambda>(k, dur, r). is_ok r) outs))
   \<and> bs_failed (record_outcomes reqs outs resp)
       = bs_failed resp + int (length (filter (\<lambda>(k, dur, r). \<not> is_ok r) outs))"
  by (induction outs arbitrary: resp) auto

lemma record_outcomes_untouched:
  "k \<notin> fst ` set outs \<Longrightarrow> bs_results (record_outcomes reqs outs resp) ! k = bs_results resp ! k"
  by (induction outs arbitrary: resp) auto

lemma record_outcomes_results:
  "distinct (map fst outs) \<Longrightarrow> (k, dur, r) \<in> set outs \<Longrightarrow> k < length (bs_results resp)
    \<Longrightarrow> bs_results (record_outcomes reqs outs resp) ! k = outcome_result (int k) (rq_id (reqs ! k)) dur r"
proof (induction outs arbitrary: resp)
  case (Cons d ds)
  obtain k' dur' r' where d: "d = (k', dur', r')" by (metis prod_cases3)
  let ?resp = "record_result k' (outcome_result (int k') (rq_id (reqs ! k')) dur' r') resp"
  show ?case
  proof (cases "(k, dur, r) \<in> set ds")
    case True
    with Cons d show ?thesis by simp
  next
    case False
    with Cons.prems d have k: "k' = k" "dur' = dur" "r' = r" "k \<notin> fst ` set ds" by auto
    with record_outcomes_untouched [OF k(4), of reqs ?resp] Cons.prems(3) d show ?thesis by simp
  qed
qed simp

text \<open>\<^verbatim>\<open>ExecuteBatch\<close> over a non-empty batch, in whatever order its requests finish: every request's
  result is stored under its index, successes and failures are counted and add up to the number of
  requests, and the status is complete, failed or partial exactly when all, none or some succeeded.\<close>

theorem execute_batch_correct:
  assumes "bq_requests batch \<noteq> []" "distinct (map fst outs)" "set (map fst outs) = {..<length (bq_requests batch)}"
  shows "\<exists>resp. execute_batch now finished batch outs = Inr resp
    \<and> bs_total resp = int (length (bq_requests batch)) \<and> bs_succeeded resp + bs_failed resp = bs_total resp
    \<and> (\<forall>(k, dur, r)\<in>set outs. bs_results resp ! k = outcome_result (int k) (rq_id (bq_requests batch ! k)) dur r)
    \<and> bs_status resp = (if \<forall>(k, dur, r)\<in>set outs. is_ok r then BatchComplete
        else if \<forall>(k, dur, r)\<in>set outs. \<not> is_ok r then BatchFailed else BatchPartial)"
proof -
  let ?reqs = "bq_requests batch"
  define resp where "resp = \<lparr>bs_batch_id = bq_id batch, bs_model_id = bq_model_id batch, bs_status = BatchRunning,
      bs_results = replicate (length ?reqs) empty_result, bs_total = int (length ?reqs), bs_succeeded = 0,
      bs_failed = 0, bs_duration = 0, bs_created_at = now, bs_completed_at = None\<rparr>"
  let ?out = "record_outcomes ?reqs outs resp"
  have "length outs = length ?reqs"
    using distinct_card [OF assms(2)] assms(3) by simp
  moreover have "length (filter (\<lambda>(k, dur, r). is_ok r) outs) + length (filter (\<lambda>(k, dur, r). \<not> is_ok r) outs)
      = length outs"
    using sum_length_filter_compl [of "\<lambda>(k, dur, r). is_ok r" outs]
    by (simp add: case_prod_unfold)
  ultimately have total: "bs_total ?out = int (length ?reqs)" "bs_succeeded ?out + bs_failed ?out = bs_total ?out"
    using record_outcomes_counts [of ?reqs outs resp] by (auto simp: resp_def)
  have results: "\<forall>(k, dur, r)\<in>set outs. bs_results ?out ! k = outcome_result (int k) (rq_id (?reqs ! k)) dur r"
  proof clarify
    fix k dur r assume k: "(k, dur, r) \<in> set outs"
    then have "k \<in> set (map fst outs)" by force
    then have "k < length (bs_results resp)" using assms(3) by (auto simp: resp_def)
    with record_outcomes_results [OF assms(2) k] show "bs_results ?out ! k = outcome_result (int k) (rq_id (?reqs ! k)) dur r"
      by blast
  qed
  have "(bs_failed ?out = 0) = (\<forall>(k, dur, r)\<in>set outs. is_ok r)"
    "(bs_succeeded ?out = 0) = (\<forall>(k, dur, r)\<in>set outs. \<not> is_ok r)"
    using record_outcomes_counts [of ?reqs outs resp] by (auto simp: resp_def filter_empty_conv)
  then have "final_status ?out = (if \<forall>(k, dur, r)\<in>set outs. is_ok r then BatchComplete
        else if \<forall>(k, dur, r)\<in>set outs. \<not> is_ok r then BatchFailed else BatchPartial)"
    by (simp add: final_status_def)
  moreover have "execute_batch now finished batch outs = Inr (?out\<lparr>bs_duration := time_sub finished now,
      bs_completed_at := Some finished, bs_status := final_status ?out\<rparr>)"
    using assms(1) by (simp add: execute_batch_def resp_def Let_def)
  ultimately show ?thesis using total results by simp
qed

section \<open>Witnesses\<close>

definition sample_executor :: executor where
  "sample_executor = new_executor 0 None sample_scheduler [''i'' \<mapsto> sample_instance ''i'' StateIdle]"

theorem execute_never_answers_witness:
  "\<exists>s s' e. executor_step\<^sup>*\<^sup>* sample_executor s \<and> length (ex_queue s) = 1
    \<and> execute_end 7 TimerFired 5 s = Some (s', Inl e) \<and> get_error_code e \<in> {ErrInferenceCancelled, ErrInferenceTimeout}"
proof -
  let ?r = "execute_begin 7 ''u'' 1 (sample_request ''r'') sample_executor"
  have ok: "0 \<le> xc_max_queue_size (ex_config sample_executor)"
    by (simp add: sample_executor_def new_executor_def default_executor_config_def)
  have "executor_step sample_executor (fst ?r)"
    by (rule begin_call [of _ 7 "''u''" 1 "sample_request ''r''" _ "snd ?r"])
      (simp_all add: sample_executor_def new_executor_def)
  then have run: "executor_step\<^sup>*\<^sup>* sample_executor (fst ?r)" by (rule r_into_rtranclp)
  have queued: "length (ex_queue (fst ?r)) = 1" "\<exists>call. ex_calls (fst ?r) 7 = Some call"
    by (simp_all add: execute_begin_def submit_request_def exec_validate_request_def Let_def
        track_request_def sample_executor_def new_executor_def default_executor_config_def
        set_request_defaults_def sample_request_def)
  then obtain s' res where fin: "execute_end 7 TimerFired 5 (fst ?r) = Some (s', res)"
    by (auto simp: execute_end_def Let_def)
  have "case execute_end 7 TimerFired 5 (fst ?r) of
        None \<Rightarrow> True
      | Some (s', Inr resp) \<Rightarrow> False
      | Some (s', Inl e) \<Rightarrow> get_error_code e \<in> {ErrInferenceCancelled, ErrInferenceTimeout}"
    using execute_never_answers [OF run [unfolded sample_executor_def] ok [unfolded sample_executor_def]]
    unfolding sample_executor_def by blast
  with fin run queued show ?thesis by (auto split: sum.splits)
qed

theorem process_request_outcomes_witness:
  "\<exists>s e. process_request (\<lambda>a i req. Inl (PlainError ''down'')) sort_key [''i''] [''i''] 5 1
      (sample_request ''r'') sample_executor = (s, Failed e) \<and> xs_active_requests (ex_stats s) = -1"
proof -
  let ?run = "\<lambda>a i req. Inl (PlainError ''down'')"
  let ?r = "process_request ?run sort_key [''i''] [''i''] 5 1 (sample_request ''r'') sample_executor"
  have "keyed sample_executor"
    by (simp add: keyed_def sample_executor_def new_executor_def sample_instance_def)
  from process_request_outcomes [OF sort_key_is_slice_sorter this prod.collapse [symmetric],
      where run = ?run and ks = "[''i'']" and lks = "[''i'']" and now = 5 and latency = 1
        and req = "sample_request ''r''"]
  have "case snd ?r of Panicked \<Rightarrow> False | Completed resp \<Rightarrow> False | Failed e \<Rightarrow> xs_active_requests (ex_stats (fst ?r)) = -1"
    by (auto simp: sample_executor_def new_executor_def default_executor_config_def served_and_queued_def
        execute_sync_def split: request_outcome.splits option.splits if_splits)
  then show ?thesis by (cases ?r) (auto split: request_outcome.splits)
qed

theorem execute_batch_correct_witness:
  "\<exists>resp. execute_batch 0 9 \<lparr>bq_id = ''b'', bq_model_id = ''m'', bq_requests = [sample_request ''p'', sample_request ''q''],
      bq_priority = 5, bq_created_at = 0, bq_started_at = None, bq_completed_at = None,
      bq_status = BatchPending, bq_progress = 0\<rparr>
      [(1, 4, Inr (sample_response ''q'')), (0, 6, Inl (PlainError ''down''))] = Inr resp
    \<and> bs_status resp = BatchPartial \<and> br_request_id (bs_results resp ! 0) = ''p''"
  using execute_batch_correct [of "\<lparr>bq_id = ''b'', bq_model_id = ''m'',
      bq_requests = [sample_request ''p'', sample_request ''q''],
      bq_priority = 5, bq_created_at = 0, bq_started_at = None, bq_completed_at = None,
      bq_status = BatchPending, bq_progress = 0\<rparr>"
      "[(1, 4, Inr (sample_response ''q'')), (0, 6, Inl (PlainError ''down''))]" 0 9]
  by (force simp: outcome_result_def sample_request_def)

end
