(* ===== verification/Acl.thy ===== *)
theory Acl
  imports Prelude
begin

text \<open>
  Access control lists, \<^verbatim>\<open>authz/acl.go\<close>: the in-memory store with its index from principals to lists,
  and the service above it, which grants, denies, revokes, inherits and checks. A principal type is a
  string; the constant \<^verbatim>\<open>PrincipalTypeRole\<close> is declared nowhere in the package and is an argument
  \<open>role_type\<close>. The id of a new entry, which the source takes from the clock, is an argument. Following
  the inheritance of a list may not end, so that collecting entries is a partial function.
\<close>

section \<open>State\<close>

datatype acl_error = ErrACLNotFound | ErrACLAlreadyExists | ErrACEAlreadyExists | ErrACENotFound
  | ACLWrapped string acl_error

datatype access_type = AccessTypeAllow | AccessTypeDeny | AccessTypeOther string

record ace =
  ae_id :: string
  ae_principal :: string
  ae_principal_type :: string
  ae_resource :: string
  ae_resource_type :: string
  ae_permissions :: "string list"
  ae_access :: access_type
  ae_priority :: int
  ae_inherited :: bool
  ae_created_at :: time
  ae_created_by :: string
  ae_expires_at :: "time option"

record acl =
  al_resource_id :: string
  al_resource_type :: string
  al_entries :: "ace list"
  al_inherit_from :: string
  al_created_at :: time
  al_updated_at :: time

text \<open>A \<^verbatim>\<open>map[string]struct{}\<close> is a map to the unit type.\<close>

record acl_store =
  as_acls :: "string \<rightharpoonup> acl"
  as_by_principal :: "string \<rightharpoonup> (string \<rightharpoonup> unit)"

definition new_acl_store :: acl_store where
  "new_acl_store = \<lparr>as_acls = Map.empty, as_by_principal = Map.empty\<rparr>"

section \<open>The store\<close>

definition acl_key :: "string \<Rightarrow> string \<Rightarrow> string" where
  "acl_key resource_id resource_type = resource_type @ '':'' @ resource_id"

definition store_create_acl :: "time \<Rightarrow> acl \<Rightarrow> acl_store \<Rightarrow> acl_store \<times> acl_error option" where
  "store_create_acl now acl s =
     (let key = acl_key (al_resource_id acl) (al_resource_type acl)
      in if as_acls s key \<noteq> None then (s, Some ErrACLAlreadyExists)
         else (s\<lparr>as_acls := (as_acls s)(key \<mapsto> acl\<lparr>al_created_at := now, al_updated_at := now\<rparr>)\<rparr>, None))"

definition store_get_acl :: "string \<Rightarrow> string \<Rightarrow> acl_store \<Rightarrow> acl_error + acl" where
  "store_get_acl resource_id resource_type s =
     (case as_acls s (acl_key resource_id resource_type) of
        None \<Rightarrow> Inl ErrACLNotFound | Some acl \<Rightarrow> Inr acl)"

definition store_update_acl :: "time \<Rightarrow> acl \<Rightarrow> acl_store \<Rightarrow> acl_store \<times> acl_error option" where
  "store_update_acl now acl s =
     (let key = acl_key (al_resource_id acl) (al_resource_type acl)
      in if as_acls s key = None then (s, Some ErrACLNotFound)
         else (s\<lparr>as_acls := (as_acls s)(key \<mapsto> acl\<lparr>al_updated_at := now\<rparr>)\<rparr>, None))"

definition store_delete_acl :: "string \<Rightarrow> string \<Rightarrow> acl_store \<Rightarrow> acl_store" where
  "store_delete_acl resource_id resource_type s =
     s\<lparr>as_acls := (as_acls s)(acl_key resource_id resource_type := None)\<rparr>"

definition principal_key :: "string \<Rightarrow> string \<Rightarrow> string" where
  "principal_key principal_type who = principal_type @ '':'' @ who"

definition index_ace :: "ace \<Rightarrow> string \<Rightarrow> acl_store \<Rightarrow> acl_store" where
  "index_ace ace key s =
     (let pk = principal_key (ae_principal_type ace) (ae_principal ace);
          keys = (case as_by_principal s pk of None \<Rightarrow> Map.empty | Some keys \<Rightarrow> keys)
      in s\<lparr>as_by_principal := (as_by_principal s)(pk \<mapsto> keys(key \<mapsto> ()))\<rparr>)"

definition store_add_ace :: "time \<Rightarrow> string \<Rightarrow> string \<Rightarrow> ace \<Rightarrow> acl_store \<Rightarrow> acl_store \<times> acl_error option" where
  "store_add_ace now resource_id resource_type ace s =
     (let key = acl_key resource_id resource_type
      in case as_acls s key of
           None \<Rightarrow> (s, Some ErrACLNotFound)
         | Some acl \<Rightarrow>
             if \<exists>existing\<in>set (al_entries acl). ae_id existing = ae_id ace
             then (s, Some ErrACEAlreadyExists)
             else (index_ace ace key (s\<lparr>as_acls := (as_acls s)(key \<mapsto>
                     acl\<lparr>al_entries := al_entries acl @ [ace], al_updated_at := now\<rparr>)\<rparr>), None))"

fun replace_ace :: "ace \<Rightarrow> ace list \<Rightarrow> ace list option" where
  "replace_ace ace [] = None"
| "replace_ace ace (x # xs) =
     (if ae_id x = ae_id ace then Some (ace # xs) else map_option ((#) x) (replace_ace ace xs))"

fun remove_ace :: "string \<Rightarrow> ace list \<Rightarrow> ace list option" where
  "remove_ace ace_id [] = None"
| "remove_ace ace_id (x # xs) =
     (if ae_id x = ace_id then Some xs else map_option ((#) x) (remove_ace ace_id xs))"

definition store_edit_entries :: "(ace list \<Rightarrow> ace list option) \<Rightarrow> time \<Rightarrow> string \<Rightarrow> string
    \<Rightarrow> acl_store \<Rightarrow> acl_store \<times> acl_error option" where
  "store_edit_entries edit now resource_id resource_type s =
     (let key = acl_key resource_id resource_type
      in case as_acls s key of
           None \<Rightarrow> (s, Some ErrACLNotFound)
         | Some acl \<Rightarrow>
             (case edit (al_entries acl) of
                None \<Rightarrow> (s, Some ErrACENotFound)
              | Some entries \<Rightarrow> (s\<lparr>as_acls := (as_acls s)(key \<mapsto>
                  acl\<lparr>al_entries := entries, al_updated_at := now\<rparr>)\<rparr>, None)))"

definition store_update_ace :: "time \<Rightarrow> string \<Rightarrow> string \<Rightarrow> ace \<Rightarrow> acl_store \<Rightarrow> acl_store \<times> acl_error option" where
  "store_update_ace now resource_id resource_type ace =
     store_edit_entries (replace_ace ace) now resource_id resource_type"

definition store_remove_ace :: "time \<Rightarrow> string \<Rightarrow> string \<Rightarrow> string \<Rightarrow> acl_store \<Rightarrow> acl_store \<times> acl_error option" where
  "store_remove_ace now resource_id resource_type ace_id =
     store_edit_entries (remove_ace ace_id) now resource_id resource_type"

text \<open>The ranges over maps take the iteration order \<open>ks\<close>.\<close>

definition acls_by_principal :: "string list \<Rightarrow> string \<Rightarrow> string \<Rightarrow> acl_store \<Rightarrow> acl list" where
  "acls_by_principal ks who principal_type s =
     (case as_by_principal s (principal_key principal_type who) of
        None \<Rightarrow> []
      | Some keys \<Rightarrow> List.map_filter (as_acls s) (map fst (visit ks keys)))"

definition acls_by_resource :: "string list \<Rightarrow> string \<Rightarrow> acl_store \<Rightarrow> acl list" where
  "acls_by_resource ks resource_type s =
     filter (\<lambda>acl. al_resource_type acl = resource_type) (map snd (visit ks (as_acls s)))"

section \<open>The service\<close>

definition create_acl :: "time \<Rightarrow> string \<Rightarrow> string \<Rightarrow> string \<Rightarrow> acl_store \<Rightarrow> acl_store \<times> (acl_error + acl)" where
  "create_acl now resource_id resource_type inherit_from s =
     (let acl = \<lparr>al_resource_id = resource_id, al_resource_type = resource_type, al_entries = [],
                 al_inherit_from = inherit_from, al_created_at = now, al_updated_at = now\<rparr>
      in case store_create_acl now acl s of
           (s, Some e) \<Rightarrow> (s, Inl (ACLWrapped ''failed to create ACL'' e))
         | (s, None) \<Rightarrow> (s, Inr acl))"

record grant_request =
  gr_resource_id :: string
  gr_resource_type :: string
  gr_principal :: string
  gr_principal_type :: string
  gr_permissions :: "string list"
  gr_priority :: int
  gr_created_by :: string
  gr_expires_at :: "time option"

text \<open>\<^verbatim>\<open>GrantAccess\<close> and \<^verbatim>\<open>DenyAccess\<close> differ in the access type and in the text of one error.\<close>

definition enter_access :: "access_type \<Rightarrow> string \<Rightarrow> string \<Rightarrow> time \<Rightarrow> grant_request \<Rightarrow> acl_store
    \<Rightarrow> acl_store \<times> (acl_error + ace)" where
  "enter_access access failure ace_id now req s =
     (case (case store_get_acl (gr_resource_id req) (gr_resource_type req) s of
              Inr acl \<Rightarrow> (s, Inr acl)
            | Inl ErrACLNotFound \<Rightarrow> create_acl now (gr_resource_id req) (gr_resource_type req) [] s
            | Inl e \<Rightarrow> (s, Inl e)) of
        (s, Inl e) \<Rightarrow> (s, Inl e)
      | (s, Inr acl) \<Rightarrow>
          let ace = \<lparr>ae_id = ace_id, ae_principal = gr_principal req,
                ae_principal_type = gr_principal_type req, ae_resource = gr_resource_id req,
                ae_resource_type = gr_resource_type req, ae_permissions = gr_permissions req,
                ae_access = access, ae_priority = gr_priority req, ae_inherited = False,
                ae_created_at = now, ae_created_by = gr_created_by req, ae_expires_at = gr_expires_at req\<rparr>
          in case store_add_ace now (al_resource_id acl) (al_resource_type acl) ace s of
               (s, Some e) \<Rightarrow> (s, Inl (ACLWrapped failure e))
             | (s, None) \<Rightarrow> (s, Inr ace))"

definition grant_access :: "string \<Rightarrow> time \<Rightarrow> grant_request \<Rightarrow> acl_store \<Rightarrow> acl_store \<times> (acl_error + ace)" where
  "grant_access = enter_access AccessTypeAllow ''failed to grant access''"

definition deny_access :: "string \<Rightarrow> time \<Rightarrow> grant_request \<Rightarrow> acl_store \<Rightarrow> acl_store \<times> (acl_error + ace)" where
  "deny_access = enter_access AccessTypeDeny ''failed to deny access''"

definition revoke_access :: "time \<Rightarrow> string \<Rightarrow> string \<Rightarrow> string \<Rightarrow> acl_store \<Rightarrow> acl_store \<times> acl_error option" where
  "revoke_access now resource_id resource_type ace_id = store_remove_ace now resource_id resource_type ace_id"

definition set_inheritance :: "time \<Rightarrow> string \<Rightarrow> string \<Rightarrow> string \<Rightarrow> acl_store \<Rightarrow> acl_store \<times> acl_error option" where
  "set_inheritance now resource_id resource_type inherit_from s =
     (case store_get_acl resource_id resource_type s of
        Inl e \<Rightarrow> (s, Some e)
      | Inr acl \<Rightarrow> store_update_acl now (acl\<lparr>al_inherit_from := inherit_from\<rparr>)
          (s\<lparr>as_acls := (as_acls s)(acl_key resource_id resource_type \<mapsto> acl\<lparr>al_inherit_from := inherit_from\<rparr>)\<rparr>))"

record acl_entry_summary =
  sm_ace :: ace
  sm_resource_id :: string
  sm_resource_type :: string

definition get_principal_access :: "string list \<Rightarrow> string \<Rightarrow> string \<Rightarrow> acl_store \<Rightarrow> acl_entry_summary list" where
  "get_principal_access ks who principal_type s =
     concat (map (\<lambda>acl. map (\<lambda>ace. \<lparr>sm_ace = ace, sm_resource_id = al_resource_id acl,
                                sm_resource_type = al_resource_type acl\<rparr>)
                (filter (\<lambda>ace. ae_principal ace = who \<and> ae_principal_type ace = principal_type)
                  (al_entries acl)))
       (acls_by_principal ks who principal_type s))"

section \<open>Checking access\<close>

definition match_wildcard :: "string \<Rightarrow> string \<Rightarrow> bool" where
  "match_wildcard pattern permission \<longleftrightarrow>
     pattern = ''*''
     \<or> (0 < length pattern \<and> pattern ! (length pattern - 1) = CHR ''*''
        \<and> (let pre = take (length pattern - 1) pattern
           in length pre \<le> length permission \<and> take (length pre) permission = pre))"

definition ace_matches_permission :: "ace \<Rightarrow> string \<Rightarrow> bool" where
  "ace_matches_permission ace permission \<longleftrightarrow>
     (\<exists>p\<in>set (ae_permissions ace). p = ''*'' \<or> p = permission \<or> match_wildcard p permission)"

definition ace_matches_principal :: "string \<Rightarrow> ace \<Rightarrow> string \<Rightarrow> string \<Rightarrow> string list \<Rightarrow> bool" where
  "ace_matches_principal role_type ace who principal_type roles \<longleftrightarrow>
     (ae_principal ace = who \<and> ae_principal_type ace = principal_type)
     \<or> (ae_principal_type ace = role_type \<and> ae_principal ace \<in> set roles)"

definition mark_inherited :: "ace \<Rightarrow> ace" where
  "mark_inherited ace = ace\<lparr>ae_inherited := True\<rparr>"

text \<open>The recursion of \<^verbatim>\<open>collectACEs\<close> up the chain of parents; \<open>None\<close> is a recursion that never ends.\<close>

partial_function (option) collect_aces :: "acl_store \<Rightarrow> acl \<Rightarrow> ace list option" where
  "collect_aces s acl =
     (if al_inherit_from acl = [] then Some (al_entries acl)
      else case store_get_acl (al_inherit_from acl) (al_resource_type acl) s of
             Inl e \<Rightarrow> Some (al_entries acl)
           | Inr parent \<Rightarrow> Option.bind (collect_aces s parent)
               (\<lambda>parent_aces. Some (al_entries acl @ map mark_inherited parent_aces)))"

declare collect_aces.simps [code]

definition sort_aces_by_priority :: "ace list \<Rightarrow> ace list" where
  "sort_aces_by_priority = exchange_sort (\<lambda>a b. ae_priority b < ae_priority a)"

record check_access_request =
  cr_resource_id :: string
  cr_resource_type :: string
  cr_principal :: string
  cr_principal_type :: string
  cr_permission :: string
  cr_roles :: "string list"

record access_decision =
  ad_allowed :: bool
  ad_reason :: string
  ad_matched_ace :: "ace option"

definition ace_applies :: "string \<Rightarrow> time \<Rightarrow> check_access_request \<Rightarrow> ace \<Rightarrow> bool" where
  "ace_applies role_type now req ace \<longleftrightarrow>
     \<not> (case ae_expires_at ace of None \<Rightarrow> False | Some expires \<Rightarrow> expires < now)
     \<and> ace_matches_principal role_type ace (cr_principal req) (cr_principal_type req) (cr_roles req)
     \<and> ace_matches_permission ace (cr_permission req)"

fun decide :: "string \<Rightarrow> time \<Rightarrow> check_access_request \<Rightarrow> ace list \<Rightarrow> access_decision" where
  "decide role_type now req [] =
     \<lparr>ad_allowed = False, ad_reason = ''no matching ACE found'', ad_matched_ace = None\<rparr>"
| "decide role_type now req (ace # aces) =
     (if \<not> ace_applies role_type now req ace then decide role_type now req aces
      else if ae_access ace = AccessTypeDeny
      then \<lparr>ad_allowed = False, ad_reason = ''explicit deny'', ad_matched_ace = Some ace\<rparr>
      else \<lparr>ad_allowed = True, ad_reason = ''explicit allow'', ad_matched_ace = Some ace\<rparr>)"

definition check_access :: "string \<Rightarrow> time \<Rightarrow> check_access_request \<Rightarrow> acl_store \<Rightarrow> access_decision option" where
  "check_access role_type now req s =
     (case store_get_acl (cr_resource_id req) (cr_resource_type req) s of
        Inl e \<Rightarrow> Some \<lparr>ad_allowed = False, ad_reason = ''no ACL found for resource'', ad_matched_ace = None\<rparr>
      | Inr acl \<Rightarrow> map_option (\<lambda>aces. decide role_type now req (sort_aces_by_priority aces)) (collect_aces s acl))"

section \<open>The decision\<close>

interpretation by_priority: swap_test "\<lambda>a b. ae_priority a < ae_priority b"
  by unfold_locales auto

lemma sort_aces_by_priority_correct:
  "mset (sort_aces_by_priority aces) = mset aces"
  "sorted_wrt (\<lambda>a b. ae_priority b \<le> ae_priority a) (sort_aces_by_priority aces)"
  using by_priority.exchange_sort_sorted [of aces]
  by (simp_all add: sort_aces_by_priority_def not_less)

lemma decide_first:
  assumes "sorted_wrt (\<lambda>a b. ae_priority b \<le> ae_priority a) aces"
  shows "case ad_matched_ace (decide role_type now req aces) of
      None \<Rightarrow> \<not> ad_allowed (decide role_type now req aces) \<and> (\<forall>a\<in>set aces. \<not> ace_applies role_type now req a)
    | Some a \<Rightarrow> a \<in> set aces \<and> ace_applies role_type now req a
        \<and> (\<forall>b\<in>set aces. ace_applies role_type now req b \<longrightarrow> ae_priority b \<le> ae_priority a)
        \<and> ad_allowed (decide role_type now req aces) = (ae_access a \<noteq> AccessTypeDeny)"
  using assms by (induction aces) (auto split: option.splits)

text \<open>C12: access decisions. When the list of the resource exists and its entries can be collected, access
  is decided by an entry that applies (not expired, for the principal or one of its roles, and for the
  permission) and has the highest priority of all that apply, inherited ones included; it is denied
  when that entry denies, or when no entry applies.\<close>

theorem check_access_decides:
  assumes "store_get_acl (cr_resource_id req) (cr_resource_type req) s = Inr acl"
    and "collect_aces s acl = Some aces" "check_access role_type now req s = Some d"
  shows "case ad_matched_ace d of
      None \<Rightarrow> \<not> ad_allowed d \<and> (\<forall>a\<in>set aces. \<not> ace_applies role_type now req a)
    | Some a \<Rightarrow> a \<in> set aces \<and> ace_applies role_type now req a
        \<and> (\<forall>b\<in>set aces. ace_applies role_type now req b \<longrightarrow> ae_priority b \<le> ae_priority a)
        \<and> ad_allowed d = (ae_access a \<noteq> AccessTypeDeny)"
proof -
  have "d = decide role_type now req (sort_aces_by_priority aces)"
    using assms by (simp add: check_access_def)
  moreover have "set (sort_aces_by_priority aces) = set aces"
    using sort_aces_by_priority_correct(1) by (metis set_mset_mset)
  ultimately show ?thesis
    using decide_first [OF sort_aces_by_priority_correct(2) [of aces], of role_type now req]
    by (cases "ad_matched_ace d") auto
qed

section \<open>Inheritance\<close>

text \<open>
  The list a list inherits from, the \<open>n\<close>-th ancestor, and the entries of the ancestors from the
  nearest to the farthest.
\<close>

definition parent_acl :: "acl_store \<Rightarrow> acl \<Rightarrow> acl option" where
  "parent_acl s acl =
     (if al_inherit_from acl = [] then None
      else case store_get_acl (al_inherit_from acl) (al_resource_type acl) s of
             Inl e \<Rightarrow> None | Inr parent \<Rightarrow> Some parent)"

primrec ancestor :: "acl_store \<Rightarrow> nat \<Rightarrow> acl \<Rightarrow> acl option" where
  "ancestor s 0 acl = Some acl"
| "ancestor s (Suc n) acl = Option.bind (parent_acl s acl) (ancestor s n)"

primrec ancestor_entries :: "acl_store \<Rightarrow> nat \<Rightarrow> acl \<Rightarrow> ace list" where
  "ancestor_entries s 0 acl = []"
| "ancestor_entries s (Suc n) acl = (case parent_acl s acl of
     None \<Rightarrow> [] | Some parent \<Rightarrow> al_entries parent @ ancestor_entries s n parent)"

lemma collect_aces_unfold:
  "collect_aces s acl = (case parent_acl s acl of
     None \<Rightarrow> Some (al_entries acl)
   | Some parent \<Rightarrow> map_option (\<lambda>aces. al_entries acl @ map mark_inherited aces) (collect_aces s parent))"
  by (subst collect_aces.simps)
    (auto simp: parent_acl_def map_option_case Option.bind_def split: sum.splits option.splits)

lemma mark_inherited_twice [simp]: "mark_inherited (mark_inherited a) = mark_inherited a"
  by (simp add: mark_inherited_def)

lemma collect_aces_ends:
  "ancestor s n acl = None \<Longrightarrow>
    collect_aces s acl = Some (al_entries acl @ map mark_inherited (ancestor_entries s n acl))"
proof (induction n arbitrary: acl)
  case (Suc n)
  show ?case
  proof (cases "parent_acl s acl")
    case None
    then show ?thesis by (simp add: collect_aces_unfold [of s acl])
  next
    case (Some parent)
    with Suc show ?thesis by (simp add: collect_aces_unfold [of s acl] comp_def)
  qed
qed simp

lemma collect_aces_chain: "collect_aces s acl = Some aces \<Longrightarrow> \<exists>n. ancestor s n acl = None"
proof (rule collect_aces.raw_induct [where P = "\<lambda>s acl aces. \<exists>n. ancestor s n acl = None", rotated])
  fix collect and s :: acl_store and acl :: acl and aces :: "ace list"
  assume IH: "\<And>(s :: acl_store) (acl :: acl) aces. collect s acl = Some aces \<Longrightarrow> \<exists>n. ancestor s n acl = None"
    and eq: "(if al_inherit_from acl = [] then Some (al_entries acl)
      else case store_get_acl (al_inherit_from acl) (al_resource_type acl) s of
             Inl e \<Rightarrow> Some (al_entries acl)
           | Inr parent \<Rightarrow> Option.bind (collect s parent)
               (\<lambda>parent_aces. Some (al_entries acl @ map mark_inherited parent_aces))) = Some aces"
  show "\<exists>n. ancestor s n acl = None"
  proof (cases "parent_acl s acl")
    case None
    then have "ancestor s (Suc 0) acl = None" by simp
    then show ?thesis ..
  next
    case (Some parent)
    with eq obtain aces' where "collect s parent = Some aces'"
      by (auto simp: parent_acl_def bind_eq_Some_conv split: if_splits sum.splits)
    then obtain n where "ancestor s n parent = None" using IH by blast
    with Some have "ancestor s (Suc n) acl = None" by simp
    then show ?thesis ..
  qed
qed

text \<open>C13: following the inheritance. Collecting the entries of a list ends exactly when the chain of its
  ancestors does, and then yields its own entries followed by those of its ancestors, nearest first,
  marked as inherited. On a cyclic chain the recursion never returns.\<close>

theorem collect_aces_terminates:
  "(collect_aces s acl = Some aces) = (\<exists>n. ancestor s n acl = None
     \<and> aces = al_entries acl @ map mark_inherited (ancestor_entries s n acl))"
proof
  assume collected: "collect_aces s acl = Some aces"
  then obtain n where "ancestor s n acl = None" by (blast dest: collect_aces_chain)
  with collect_aces_ends [OF this] collected show "\<exists>n. ancestor s n acl = None
     \<and> aces = al_entries acl @ map mark_inherited (ancestor_entries s n acl)" by auto
qed (auto dest: collect_aces_ends)

section \<open>The principal index\<close>

inductive acl_step :: "acl_store \<Rightarrow> acl_store \<Rightarrow> bool" where
  create: "create_acl now resource_id resource_type inherit_from s = (s', r) \<Longrightarrow> acl_step s s'"
| delete: "acl_step s (store_delete_acl resource_id resource_type s)"
| grant: "grant_access ace_id now req s = (s', granted) \<Longrightarrow> acl_step s s'"
| deny: "deny_access ace_id now req s = (s', denied) \<Longrightarrow> acl_step s s'"
| revoke: "revoke_access now resource_id resource_type ace_id s = (s', err) \<Longrightarrow> acl_step s s'"
| inherit: "set_inheritance now resource_id resource_type inherit_from s = (s', err) \<Longrightarrow> acl_step s s'"

text \<open>
  A list is stored under its own key with distinct entry ids, and the index knows, for each of its
  entries, that the entry's principal has an entry in it.
\<close>

definition indexed :: "(string \<rightharpoonup> (string \<rightharpoonup> unit)) \<Rightarrow> string \<Rightarrow> ace \<Rightarrow> bool" where
  "indexed index k a = (case index (principal_key (ae_principal_type a) (ae_principal a)) of
     None \<Rightarrow> False | Some keys \<Rightarrow> keys k = Some ())"

definition acl_ok :: "(string \<rightharpoonup> (string \<rightharpoonup> unit)) \<Rightarrow> string \<Rightarrow> acl \<Rightarrow> bool" where
  "acl_ok index k acl \<longleftrightarrow> k = acl_key (al_resource_id acl) (al_resource_type acl)
     \<and> distinct (map ae_id (al_entries acl)) \<and> (\<forall>a\<in>set (al_entries acl). indexed index k a)"

definition store_ok :: "acl_store \<Rightarrow> bool" where
  "store_ok s \<longleftrightarrow> (\<forall>k acl. as_acls s k = Some acl \<longrightarrow> acl_ok (as_by_principal s) k acl)"

lemma store_ok_put:
  "store_ok s \<Longrightarrow> acl_ok (as_by_principal s) k acl \<Longrightarrow> store_ok (s\<lparr>as_acls := (as_acls s)(k \<mapsto> acl)\<rparr>)"
  by (simp add: store_ok_def)

lemma store_ok_get: "store_ok s \<Longrightarrow> as_acls s k = Some acl \<Longrightarrow> acl_ok (as_by_principal s) k acl"
  by (simp add: store_ok_def)

lemma indexed_index_ace:
  "indexed (as_by_principal (index_ace a key s)) k b
     \<longleftrightarrow> indexed (as_by_principal s) k b
       \<or> (k = key \<and> principal_key (ae_principal_type b) (ae_principal b)
                    = principal_key (ae_principal_type a) (ae_principal a))"
  by (auto simp: indexed_def index_ace_def Let_def split: option.splits)

lemma as_acls_index_ace [simp]: "as_acls (index_ace a key s) = as_acls s"
  by (simp add: index_ace_def Let_def)

lemma store_ok_index: "store_ok s \<Longrightarrow> store_ok (index_ace a key s)"
  by (auto simp: store_ok_def acl_ok_def indexed_index_ace)

lemma store_ok_create: "create_acl now rid rtype inh s = (s', r) \<Longrightarrow> store_ok s \<Longrightarrow> store_ok s'"
  by (auto simp: create_acl_def store_create_acl_def Let_def store_ok_put acl_ok_def
      split: if_splits)

lemma create_acl_Inr:
  "create_acl now rid rtype inh s = (s', Inr acl) \<Longrightarrow> al_resource_id acl = rid \<and> al_resource_type acl = rtype"
  by (auto simp: create_acl_def store_create_acl_def Let_def split: if_splits)

lemma store_ok_add:
  assumes "store_add_ace now rid rtype a s = (s', err)" "store_ok s"
  shows "store_ok s'"
proof (cases "as_acls s (acl_key rid rtype)")
  case None
  with assms show ?thesis by (simp add: store_add_ace_def)
next
  case (Some acl)
  let ?key = "acl_key rid rtype"
  let ?new = "acl\<lparr>al_entries := al_entries acl @ [a], al_updated_at := now\<rparr>"
  show ?thesis
  proof (cases "\<exists>e\<in>set (al_entries acl). ae_id e = ae_id a")
    case True
    with assms Some show ?thesis by (simp add: store_add_ace_def)
  next
    case False
    from False assms(1) Some have "s' = index_ace a ?key (s\<lparr>as_acls := (as_acls s)(?key \<mapsto> ?new)\<rparr>)"
      by (auto simp: store_add_ace_def Let_def)
    also have "\<dots> = (index_ace a ?key s)\<lparr>as_acls := (as_acls (index_ace a ?key s))(?key \<mapsto> ?new)\<rparr>"
      by (simp add: index_ace_def Let_def)
    finally have s': "s' = \<dots>" .
    have "acl_ok (as_by_principal s) ?key acl" using assms(2) Some by (rule store_ok_get)
    with False have "acl_ok (as_by_principal (index_ace a ?key s)) ?key ?new"
      by (auto simp: acl_ok_def indexed_index_ace)
    then show ?thesis unfolding s' by (intro store_ok_put store_ok_index assms(2))
  qed
qed

lemma store_ok_enter: "enter_access access failure ace_id now req s = (s', r) \<Longrightarrow> store_ok s \<Longrightarrow> store_ok s'"
  by (auto simp: enter_access_def Let_def
      split: prod.splits sum.splits option.splits acl_error.splits
      dest: store_ok_create store_ok_add)

lemma remove_ace_sub:
  "remove_ace i xs = Some ys \<Longrightarrow> set ys \<subseteq> set xs \<and> (distinct (map ae_id xs) \<longrightarrow> distinct (map ae_id ys))"
  by (induction xs arbitrary: ys) (fastforce split: if_splits)+

lemma store_ok_revoke: "revoke_access now rid rtype i s = (s', err) \<Longrightarrow> store_ok s \<Longrightarrow> store_ok s'"
proof -
  assume r: "revoke_access now rid rtype i s = (s', err)" and ok: "store_ok s"
  have "acl_ok (as_by_principal s) (acl_key rid rtype) (acl\<lparr>al_entries := entries, al_updated_at := now\<rparr>)"
    if "as_acls s (acl_key rid rtype) = Some acl" "remove_ace i (al_entries acl) = Some entries" for acl entries
  proof -
    have "acl_ok (as_by_principal s) (acl_key rid rtype) acl" using ok that(1) by (rule store_ok_get)
    then show ?thesis using remove_ace_sub [OF that(2)] by (auto simp: acl_ok_def)
  qed
  with r ok show ?thesis
    by (auto simp: revoke_access_def store_remove_ace_def store_edit_entries_def Let_def
        split: option.splits intro: store_ok_put)
qed

lemma store_ok_inherit: "set_inheritance now rid rtype inh s = (s', err) \<Longrightarrow> store_ok s \<Longrightarrow> store_ok s'"
proof -
  assume r: "set_inheritance now rid rtype inh s = (s', err)" and ok: "store_ok s"
  show ?thesis
  proof (cases "as_acls s (acl_key rid rtype)")
    case None
    with r ok show ?thesis by (simp add: set_inheritance_def store_get_acl_def)
  next
    case (Some acl)
    have acl: "acl_ok (as_by_principal s) (acl_key rid rtype) acl" using ok Some by (rule store_ok_get)
    then have key: "acl_key (al_resource_id acl) (al_resource_type acl) = acl_key rid rtype"
      by (simp add: acl_ok_def)
    with r Some have "s' = s\<lparr>as_acls := (as_acls s)(acl_key rid rtype \<mapsto>
        acl\<lparr>al_inherit_from := inh, al_updated_at := now\<rparr>)\<rparr>"
      by (auto simp: set_inheritance_def store_get_acl_def store_update_acl_def Let_def)
    with acl ok show ?thesis by (auto simp: acl_ok_def intro!: store_ok_put)
  qed
qed

lemma store_ok_step: "acl_step s s' \<Longrightarrow> store_ok s \<Longrightarrow> store_ok s'"
proof (induction rule: acl_step.induct)
  case (delete s rid rtype)
  then show ?case by (simp add: store_delete_acl_def store_ok_def)
qed (auto simp: grant_access_def deny_access_def
    intro: store_ok_create store_ok_enter store_ok_revoke store_ok_inherit)

text \<open>C15: the principal index. In every state the service reaches from an empty store,
  \<^verbatim>\<open>GetPrincipalAccess\<close>, which looks only at the lists in the index, reports exactly the entries of that
  principal in all lists of the store; entry ids are distinct within a list.\<close>

theorem principal_access_complete:
  assumes "acl_step\<^sup>*\<^sup>* new_acl_store s"
    and "\<forall>keys. as_by_principal s (principal_key ptype who) = Some keys \<longrightarrow> covers ks keys"
  shows "set (get_principal_access ks who ptype s)
      = {\<lparr>sm_ace = a, sm_resource_id = al_resource_id acl, sm_resource_type = al_resource_type acl\<rparr> | a acl.
          acl \<in> ran (as_acls s) \<and> a \<in> set (al_entries acl) \<and> ae_principal a = who \<and> ae_principal_type a = ptype}
    \<and> (\<forall>acl\<in>ran (as_acls s). distinct (map ae_id (al_entries acl)))"
proof -
  have ok: "store_ok s" using assms(1)
  proof (induction rule: rtranclp_induct)
    case base
    show ?case by (simp add: store_ok_def new_acl_store_def)
  qed (rule store_ok_step)
  have acls: "acl \<in> set (acls_by_principal ks who ptype s)"
    if "acl \<in> ran (as_acls s)" "a \<in> set (al_entries acl)" "ae_principal a = who" "ae_principal_type a = ptype" for acl a
  proof -
    obtain k where k: "as_acls s k = Some acl" using \<open>acl \<in> ran (as_acls s)\<close> by (auto simp: ran_def)
    with ok have "acl_ok (as_by_principal s) k acl" by (rule store_ok_get)
    with that obtain keys where keys: "as_by_principal s (principal_key ptype who) = Some keys" "keys k = Some ()"
      by (auto simp: acl_ok_def indexed_def split: option.splits)
    with assms(2) have "(k, ()) \<in> set (visit ks keys)" by (simp add: in_visit)
    then have "k \<in> fst ` set (visit ks keys)" by force
    with keys k show ?thesis
      by (auto simp: acls_by_principal_def List.map_filter_def image_iff intro!: bexI [of _ k])
  qed
  have "acl \<in> ran (as_acls s)" if "acl \<in> set (acls_by_principal ks who ptype s)" for acl
    using that by (auto simp: acls_by_principal_def List.map_filter_def ran_def split: option.splits)
  with acls have "set (get_principal_access ks who ptype s)
      = {\<lparr>sm_ace = a, sm_resource_id = al_resource_id acl, sm_resource_type = al_resource_type acl\<rparr> | a acl.
          acl \<in> ran (as_acls s) \<and> a \<in> set (al_entries acl) \<and> ae_principal a = who \<and> ae_principal_type a = ptype}"
    unfolding get_principal_access_def by auto blast+
  moreover have "\<forall>acl\<in>ran (as_acls s). distinct (map ae_id (al_entries acl))"
    using ok by (auto simp: store_ok_def acl_ok_def ran_def)
  ultimately show ?thesis by blast
qed

section \<open>Witnesses\<close>

definition sample_grant :: "string \<Rightarrow> string list \<Rightarrow> int \<Rightarrow> grant_request" where
  "sample_grant who perms priority = \<lparr>gr_resource_id = ''m1'', gr_resource_type = ''model'', gr_principal = who,
     gr_principal_type = ''user'', gr_permissions = perms, gr_priority = priority, gr_created_by = ''root'',
     gr_expires_at = None\<rparr>"

definition sample_acls :: acl_store where
  "sample_acls = fst (deny_access ''e2'' 2 (sample_grant ''ann'' [''read:secret''] 9)
     (fst (grant_access ''e1'' 1 (sample_grant ''ann'' [''read:*''] 1) new_acl_store)))"

lemma sample_acls_reached: "acl_step\<^sup>*\<^sup>* new_acl_store sample_acls"
proof -
  have "acl_step new_acl_store (fst (grant_access ''e1'' 1 (sample_grant ''ann'' [''read:*''] 1) new_acl_store))"
    by (rule grant [OF prod.collapse [symmetric]])
  then have "acl_step\<^sup>*\<^sup>* new_acl_store (fst (grant_access ''e1'' 1 (sample_grant ''ann'' [''read:*''] 1) new_acl_store))"
    by (rule r_into_rtranclp)
  moreover have "acl_step (fst (grant_access ''e1'' 1 (sample_grant ''ann'' [''read:*''] 1) new_acl_store)) sample_acls"
    unfolding sample_acls_def by (rule deny [OF prod.collapse [symmetric]])
  ultimately show ?thesis by (rule rtranclp.rtrancl_into_rtrancl)
qed

definition sample_ace :: "string \<Rightarrow> string list \<Rightarrow> access_type \<Rightarrow> int \<Rightarrow> time \<Rightarrow> ace" where
  "sample_ace i perms access priority t = \<lparr>ae_id = i, ae_principal = ''ann'', ae_principal_type = ''user'',
     ae_resource = ''m1'', ae_resource_type = ''model'', ae_permissions = perms, ae_access = access,
     ae_priority = priority, ae_inherited = False, ae_created_at = t, ae_created_by = ''root'', ae_expires_at = None\<rparr>"

definition sample_acl :: acl where
  "sample_acl = \<lparr>al_resource_id = ''m1'', al_resource_type = ''model'',
     al_entries = [sample_ace ''e1'' [''read:*''] AccessTypeAllow 1 1, sample_ace ''e2'' [''read:secret''] AccessTypeDeny 9 2],
     al_inherit_from = [], al_created_at = 1, al_updated_at = 2\<rparr>"

lemma sample_acls_state:
  "as_acls sample_acls = [''model:m1'' \<mapsto> sample_acl]"
  "as_by_principal sample_acls = [''user:ann'' \<mapsto> [''model:m1'' \<mapsto> ()]]"
  by (simp_all add: sample_acls_def deny_access_def grant_access_def enter_access_def store_get_acl_def
      create_acl_def store_create_acl_def store_add_ace_def Let_def acl_key_def sample_grant_def
      new_acl_store_def index_ace_def principal_key_def sample_acl_def sample_ace_def)

theorem check_access_decides_witness:
  "\<exists>d a. check_access ''role'' 5 \<lparr>cr_resource_id = ''m1'', cr_resource_type = ''model'', cr_principal = ''ann'',
      cr_principal_type = ''user'', cr_permission = ''read:secret'', cr_roles = []\<rparr> sample_acls = Some d
    \<and> ad_matched_ace d = Some a \<and> ae_id a = ''e2'' \<and> \<not> ad_allowed d"
proof -
  let ?req = "\<lparr>cr_resource_id = ''m1'', cr_resource_type = ''model'', cr_principal = ''ann'',
      cr_principal_type = ''user'', cr_permission = ''read:secret'', cr_roles = []\<rparr>"
  have acl: "store_get_acl (cr_resource_id ?req) (cr_resource_type ?req) sample_acls = Inr sample_acl"
    by (simp add: store_get_acl_def acl_key_def sample_acls_state)
  have collected: "collect_aces sample_acls sample_acl = Some (al_entries sample_acl)"
    by (simp add: collect_aces.simps [of _ sample_acl]) (simp add: sample_acl_def)
  obtain d where d: "check_access ''role'' 5 ?req sample_acls = Some d"
    using acl collected by (simp add: check_access_def)
  from check_access_decides [OF acl collected d] d show ?thesis
    by (auto simp: sample_acl_def sample_ace_def ace_applies_def ace_matches_principal_def
        ace_matches_permission_def match_wildcard_def split: option.splits)
qed

theorem principal_access_complete_witness:
  "set (map (\<lambda>sm. ae_id (sm_ace sm)) (get_principal_access [''model:m1''] ''ann'' ''user'' sample_acls)) = {''e1'', ''e2''}"
proof -
  have "\<forall>keys. as_by_principal sample_acls (principal_key ''user'' ''ann'') = Some keys \<longrightarrow> covers [''model:m1''] keys"
    by (simp add: sample_acls_state principal_key_def covers_def)
  from principal_access_complete [OF sample_acls_reached this]
  have set: "set (get_principal_access [''model:m1''] ''ann'' ''user'' sample_acls)
      = (\<lambda>a. \<lparr>sm_ace = a, sm_resource_id = ''m1'', sm_resource_type = ''model''\<rparr>) ` set (al_entries sample_acl)"
    by (auto simp: sample_acls_state sample_acl_def sample_ace_def)
  have "(\<lambda>sm. ae_id (sm_ace sm)) ` set (get_principal_access [''model:m1''] ''ann'' ''user'' sample_acls) = {''e1'', ''e2''}"
    unfolding set image_image by (simp add: sample_acl_def sample_ace_def)
  then show ?thesis by simp
qed

end
