(* ===== verification/Rbac.thy ===== *)
theory Rbac
  imports Prelude
begin

text \<open>
  Role-based access control, \<^verbatim>\<open>authz/rbac.go\<close>. The repositories of roles and permissions are interfaces
  without an implementation in the source: their operations are arguments, \<open>get_role\<close> and \<open>get_perm\<close>
  for the lookups (\<open>None\<close> for an error), and a record of functions on an arbitrary repository state
  where the manager changes it. The recursions over the role hierarchy carry a depth in the source and
  stop when it exceeds \<^verbatim>\<open>MaxRoleInheritanceDepth\<close>; here they carry the number of levels left.
\<close>

section \<open>Data\<close>

record permission =
  pe_id :: string
  pe_name :: string
  pe_resource :: string
  pe_action :: string
  pe_scope :: string
  pe_created_at :: time

record role =
  ro_id :: string
  ro_name :: string
  ro_permissions :: "string list"
  ro_parents :: "string list"
  ro_is_system :: bool
  ro_is_default :: bool
  ro_priority :: int
  ro_created_at :: time
  ro_updated_at :: time

record role_assignment =
  ra_user_id :: string
  ra_role_id :: string
  ra_granted_by :: string
  ra_granted_at :: time
  ra_expires_at :: "time option"

definition assignment_expired :: "time \<Rightarrow> role_assignment \<Rightarrow> bool" where
  "assignment_expired now ra = (case ra_expires_at ra of None \<Rightarrow> False | Some expires \<Rightarrow> expires < now)"

record rbac_config =
  rc_enable_caching :: bool
  rc_cache_ttl :: duration
  rc_max_role_inheritance_depth :: int

definition default_rbac_config :: rbac_config where
  "default_rbac_config =
     \<lparr>rc_enable_caching = True, rc_cache_ttl = 300 * second, rc_max_role_inheritance_depth = 10\<rparr>"

datatype rbac_error = ErrRoleNotFound | ErrRoleExists | ErrInvalidRole | ErrInvalidPermission
  | ErrCircularInheritance | ErrPermissionMissing string | ErrParentMissing string | ErrDepthExceeded
  | ErrSystemRole | ErrRepository string

text \<open>A loop that returns at the first error.\<close>

fun each :: "('a \<Rightarrow> 's \<Rightarrow> 'e + 's) \<Rightarrow> 'a list \<Rightarrow> 's \<Rightarrow> 'e + 's" where
  "each f [] s = Inr s"
| "each f (x # xs) s = (case f x s of Inl e \<Rightarrow> Inl e | Inr s \<Rightarrow> each f xs s)"

section \<open>The role hierarchy\<close>

primrec check_circular_inheritance :: "(string \<Rightarrow> role option) \<Rightarrow> string \<Rightarrow> nat \<Rightarrow> string list \<Rightarrow> string set
    \<Rightarrow> rbac_error + string set" where
  "check_circular_inheritance get_role role_id 0 parents visited = Inl ErrDepthExceeded"
| "check_circular_inheritance get_role role_id (Suc levels) parents visited =
     each (\<lambda>parent_id visited.
         if parent_id = role_id then Inl ErrCircularInheritance
         else if parent_id \<in> visited then Inr visited
         else case get_role parent_id of
           None \<Rightarrow> Inl (ErrParentMissing parent_id)
         | Some parent \<Rightarrow> check_circular_inheritance get_role role_id levels (ro_parents parent)
                           (insert parent_id visited))
       parents visited"

definition levels_of :: "rbac_config \<Rightarrow> nat" where
  "levels_of config = nat (rc_max_role_inheritance_depth config + 1)"

definition validate_inheritance :: "(string \<Rightarrow> role option) \<Rightarrow> rbac_config \<Rightarrow> role \<Rightarrow> rbac_error option" where
  "validate_inheritance get_role config role =
     (if ro_parents role = [] then None
      else case check_circular_inheritance get_role (ro_id role) (levels_of config) (ro_parents role) {} of
             Inl e \<Rightarrow> Some e | Inr visited \<Rightarrow> None)"

primrec collect_permission_ids :: "(string \<Rightarrow> role option) \<Rightarrow> nat \<Rightarrow> role \<Rightarrow> string set \<Rightarrow> string set" where
  "collect_permission_ids get_role 0 role ids = ids"
| "collect_permission_ids get_role (Suc levels) role ids =
     fold (\<lambda>parent_id ids. case get_role parent_id of
             None \<Rightarrow> ids
           | Some parent \<Rightarrow> collect_permission_ids get_role levels parent ids)
       (ro_parents role) (ids \<union> set (ro_permissions role))"

text \<open>
  \<^verbatim>\<open>hasRoleInherited\<close> has no depth; it stops at visited roles. \<open>fuel\<close> bounds the recursion, \<open>None\<close> is
  running out of it; the result is whether the role was found and the roles visited since. \<open>seek\<close> is
  a loop that returns at the first success.
\<close>

fun seek :: "('a \<Rightarrow> 's \<Rightarrow> (bool \<times> 's) option) \<Rightarrow> 'a list \<Rightarrow> 's \<Rightarrow> (bool \<times> 's) option" where
  "seek f [] s = Some (False, s)"
| "seek f (x # xs) s = (case f x s of
     None \<Rightarrow> None | Some (True, s) \<Rightarrow> Some (True, s) | Some (False, s) \<Rightarrow> seek f xs s)"

primrec has_role_inherited :: "(string \<Rightarrow> role option) \<Rightarrow> string \<Rightarrow> nat \<Rightarrow> role \<Rightarrow> string set
    \<Rightarrow> (bool \<times> string set) option" where
  "has_role_inherited get_role target 0 role visited = None"
| "has_role_inherited get_role target (Suc fuel) role visited =
     (if ro_id role \<in> visited then Some (False, visited)
      else seek (\<lambda>parent_id visited. case get_role parent_id of
              None \<Rightarrow> Some (False, visited)
            | Some parent \<Rightarrow> if ro_name parent = target then Some (True, visited)
                             else has_role_inherited get_role target fuel parent visited)
            (ro_parents role) (insert (ro_id role) visited))"

section \<open>The manager\<close>

record 'r rbac_repository =
  rp_get_role :: "'r \<Rightarrow> string \<Rightarrow> role option"
  rp_get_role_by_name :: "'r \<Rightarrow> string \<Rightarrow> role option"
  rp_create_role :: "role \<Rightarrow> 'r \<Rightarrow> 'r \<times> rbac_error option"
  rp_update_role :: "role \<Rightarrow> 'r \<Rightarrow> 'r \<times> rbac_error option"
  rp_delete_role :: "string \<Rightarrow> 'r \<Rightarrow> 'r \<times> rbac_error option"
  rp_assign_role :: "role_assignment \<Rightarrow> 'r \<Rightarrow> 'r \<times> rbac_error option"
  rp_revoke_role :: "string \<Rightarrow> string \<Rightarrow> 'r \<Rightarrow> 'r \<times> rbac_error option"
  rp_user_roles :: "'r \<Rightarrow> string \<Rightarrow> rbac_error + role_assignment list"
  rp_get_permission :: "'r \<Rightarrow> string \<Rightarrow> permission option"
  rp_create_permission :: "permission \<Rightarrow> 'r \<Rightarrow> 'r \<times> rbac_error option"

text \<open>The manager holds its configuration and the permission cache, besides the repository state.\<close>

record 'r rbac_manager =
  rb_config :: rbac_config
  rb_repo :: 'r
  rb_cache :: "string \<rightharpoonup> permission list \<times> time"

definition new_rbac_manager :: "rbac_config option \<Rightarrow> 'r \<Rightarrow> 'r rbac_manager" where
  "new_rbac_manager config repo =
     \<lparr>rb_config = (case config of None \<Rightarrow> default_rbac_config | Some c \<Rightarrow> c), rb_repo = repo,
      rb_cache = Map.empty\<rparr>"

definition missing_permission :: "'r rbac_repository \<Rightarrow> 'r \<Rightarrow> string list \<Rightarrow> rbac_error option" where
  "missing_permission R repo perm_ids =
     map_option ErrPermissionMissing (List.find (\<lambda>i. rp_get_permission R repo i = None) perm_ids)"

definition with_repo :: "'r rbac_manager \<Rightarrow> 'r \<times> rbac_error option \<Rightarrow> 'r rbac_manager \<times> rbac_error option" where
  "with_repo m r = (case r of (repo, err) \<Rightarrow> (m\<lparr>rb_repo := repo\<rparr>, err))"

definition create_role :: "'r rbac_repository \<Rightarrow> time \<Rightarrow> role \<Rightarrow> 'r rbac_manager
    \<Rightarrow> 'r rbac_manager \<times> rbac_error option" where
  "create_role R now role m =
     (if ro_name role = [] then (m, Some ErrInvalidRole)
      else if rp_get_role_by_name R (rb_repo m) (ro_name role) \<noteq> None then (m, Some ErrRoleExists)
      else case missing_permission R (rb_repo m) (ro_permissions role) of
        Some e \<Rightarrow> (m, Some e)
      | None \<Rightarrow>
          (case validate_inheritance (rp_get_role R (rb_repo m)) (rb_config m) role of
             Some e \<Rightarrow> (m, Some e)
           | None \<Rightarrow> with_repo m (rp_create_role R
                      (role\<lparr>ro_created_at := now, ro_updated_at := now\<rparr>) (rb_repo m))))"

definition update_role :: "'r rbac_repository \<Rightarrow> time \<Rightarrow> role \<Rightarrow> 'r rbac_manager
    \<Rightarrow> 'r rbac_manager \<times> rbac_error option" where
  "update_role R now role m =
     (case rp_get_role R (rb_repo m) (ro_id role) of
        None \<Rightarrow> (m, Some ErrRoleNotFound)
      | Some existing \<Rightarrow>
          if ro_is_system existing then (m, Some ErrSystemRole)
          else case missing_permission R (rb_repo m) (ro_permissions role) of
            Some e \<Rightarrow> (m, Some e)
          | None \<Rightarrow>
              (case validate_inheritance (rp_get_role R (rb_repo m)) (rb_config m) role of
                 Some e \<Rightarrow> (m, Some e)
               | None \<Rightarrow> with_repo m (rp_update_role R
                   (role\<lparr>ro_updated_at := now, ro_created_at := ro_created_at existing\<rparr>) (rb_repo m))))"

definition delete_role :: "'r rbac_repository \<Rightarrow> string \<Rightarrow> 'r rbac_manager \<Rightarrow> 'r rbac_manager \<times> rbac_error option" where
  "delete_role R i m =
     (case rp_get_role R (rb_repo m) i of
        None \<Rightarrow> (m, Some ErrRoleNotFound)
      | Some role \<Rightarrow> if ro_is_system role then (m, Some ErrSystemRole)
                     else with_repo m (rp_delete_role R i (rb_repo m)))"

definition invalidate_cache :: "string \<Rightarrow> 'r rbac_manager \<Rightarrow> 'r rbac_manager" where
  "invalidate_cache user_id m = m\<lparr>rb_cache := (rb_cache m)(user_id := None)\<rparr>"

definition assign_role :: "'r rbac_repository \<Rightarrow> time \<Rightarrow> string \<Rightarrow> string \<Rightarrow> string \<Rightarrow> time option
    \<Rightarrow> 'r rbac_manager \<Rightarrow> 'r rbac_manager \<times> rbac_error option" where
  "assign_role R now user_id role_id granted_by expires m =
     (case rp_get_role R (rb_repo m) role_id of
        None \<Rightarrow> (m, Some ErrRoleNotFound)
      | Some _ \<Rightarrow> with_repo (invalidate_cache user_id m) (rp_assign_role R
          \<lparr>ra_user_id = user_id, ra_role_id = role_id, ra_granted_by = granted_by, ra_granted_at = now,
           ra_expires_at = expires\<rparr> (rb_repo m)))"

definition revoke_role :: "'r rbac_repository \<Rightarrow> string \<Rightarrow> string \<Rightarrow> 'r rbac_manager
    \<Rightarrow> 'r rbac_manager \<times> rbac_error option" where
  "revoke_role R user_id role_id m =
     with_repo (invalidate_cache user_id m) (rp_revoke_role R user_id role_id (rb_repo m))"

definition get_user_roles :: "'r rbac_repository \<Rightarrow> time \<Rightarrow> string \<Rightarrow> 'r \<Rightarrow> rbac_error + role list" where
  "get_user_roles R now user_id repo =
     (case rp_user_roles R repo user_id of
        Inl e \<Rightarrow> Inl e
      | Inr assignments \<Rightarrow> Inr (List.map_filter (rp_get_role R repo)
          (map ra_role_id (filter (\<lambda>ra. \<not> assignment_expired now ra) assignments))))"

text \<open>The permission cache. An expired entry is removed when it is found.\<close>

definition get_from_cache :: "time \<Rightarrow> string \<Rightarrow> 'r rbac_manager \<Rightarrow> 'r rbac_manager \<times> permission list option" where
  "get_from_cache now user_id m =
     (case rb_cache m user_id of
        None \<Rightarrow> (m, None)
      | Some (permissions, expires) \<Rightarrow>
          if expires < now then (invalidate_cache user_id m, None) else (m, Some permissions))"

definition add_to_cache :: "time \<Rightarrow> string \<Rightarrow> permission list \<Rightarrow> 'r rbac_manager \<Rightarrow> 'r rbac_manager" where
  "add_to_cache now user_id permissions m =
     m\<lparr>rb_cache := (rb_cache m)(user_id \<mapsto> (permissions, now + rc_cache_ttl (rb_config m)))\<rparr>"

text \<open>The set of permission ids is ranged over in the order \<open>ks\<close>.\<close>

definition user_permissions :: "'r rbac_repository \<Rightarrow> rbac_config \<Rightarrow> string list \<Rightarrow> role list \<Rightarrow> 'r \<Rightarrow> permission list" where
  "user_permissions R config ks roles repo =
     (let ids = fold (collect_permission_ids (rp_get_role R repo) (levels_of config)) roles {}
      in List.map_filter (rp_get_permission R repo) (filter (\<lambda>i. i \<in> ids) ks))"

definition get_all_user_permissions :: "'r rbac_repository \<Rightarrow> string list \<Rightarrow> time \<Rightarrow> string \<Rightarrow> 'r rbac_manager
    \<Rightarrow> 'r rbac_manager \<times> (rbac_error + permission list)" where
  "get_all_user_permissions R ks now user_id m =
     (case (if rc_enable_caching (rb_config m) then get_from_cache now user_id m else (m, None)) of
        (m, Some permissions) \<Rightarrow> (m, Inr permissions)
      | (m, None) \<Rightarrow>
          (case get_user_roles R now user_id (rb_repo m) of
             Inl e \<Rightarrow> (m, Inl e)
           | Inr roles \<Rightarrow>
               let permissions = user_permissions R (rb_config m) ks roles (rb_repo m)
               in (if rc_enable_caching (rb_config m) then add_to_cache now user_id permissions m else m,
                   Inr permissions)))"

definition scope_level :: "string \<Rightarrow> int option" where
  "scope_level scope = map_of [(''global'', 4), (''organization'', 3), (''team'', 2), (''own'', 1)] scope"

definition scope_matches :: "string \<Rightarrow> string \<Rightarrow> bool" where
  "scope_matches perm_scope required_scope =
     (case (scope_level perm_scope, scope_level required_scope) of
        (Some perm_level, Some req_level) \<Rightarrow> req_level \<le> perm_level
      | _ \<Rightarrow> perm_scope = required_scope)"

definition permission_covers :: "string \<Rightarrow> string \<Rightarrow> string \<Rightarrow> permission \<Rightarrow> bool" where
  "permission_covers resource action scope perm \<longleftrightarrow>
     (pe_resource perm = resource \<and> pe_action perm = action \<and> scope_matches (pe_scope perm) scope)
     \<or> (pe_resource perm = resource \<and> pe_action perm = ''admin'')
     \<or> (pe_resource perm = resource \<and> pe_action perm = action \<and> pe_scope perm = ''global'')"

definition has_permission :: "'r rbac_repository \<Rightarrow> string list \<Rightarrow> time \<Rightarrow> string \<Rightarrow> string \<Rightarrow> string \<Rightarrow> string
    \<Rightarrow> 'r rbac_manager \<Rightarrow> 'r rbac_manager \<times> (rbac_error + bool)" where
  "has_permission R ks now user_id resource action scope m =
     (case get_all_user_permissions R ks now user_id m of
        (m, Inl e) \<Rightarrow> (m, Inl e)
      | (m, Inr permissions) \<Rightarrow> (m, Inr (\<exists>perm\<in>set permissions. permission_covers resource action scope perm)))"

record permission_check =
  pk_resource :: string
  pk_action :: string
  pk_scope :: string

fun has_any_permission :: "'r rbac_repository \<Rightarrow> string list \<Rightarrow> time \<Rightarrow> string \<Rightarrow> permission_check list
    \<Rightarrow> 'r rbac_manager \<Rightarrow> 'r rbac_manager \<times> (rbac_error + bool)" where
  "has_any_permission R ks now user_id [] m = (m, Inr False)"
| "has_any_permission R ks now user_id (c # cs) m =
     (case has_permission R ks now user_id (pk_resource c) (pk_action c) (pk_scope c) m of
        (m, Inr False) \<Rightarrow> has_any_permission R ks now user_id cs m
      | (m, r) \<Rightarrow> (m, r))"

fun has_all_permissions :: "'r rbac_repository \<Rightarrow> string list \<Rightarrow> time \<Rightarrow> string \<Rightarrow> permission_check list
    \<Rightarrow> 'r rbac_manager \<Rightarrow> 'r rbac_manager \<times> (rbac_error + bool)" where
  "has_all_permissions R ks now user_id [] m = (m, Inr True)"
| "has_all_permissions R ks now user_id (c # cs) m =
     (case has_permission R ks now user_id (pk_resource c) (pk_action c) (pk_scope c) m of
        (m, Inr True) \<Rightarrow> has_all_permissions R ks now user_id cs m
      | (m, r) \<Rightarrow> (m, r))"

definition has_role :: "'r rbac_repository \<Rightarrow> nat \<Rightarrow> time \<Rightarrow> string \<Rightarrow> string \<Rightarrow> 'r \<Rightarrow> (rbac_error + bool) option" where
  "has_role R fuel now user_id role_name repo =
     (case get_user_roles R now user_id repo of
        Inl e \<Rightarrow> Some (Inl e)
      | Inr roles \<Rightarrow> map_option (\<lambda>(found, u). Inr found)
          (seek (\<lambda>role u. if ro_name role = role_name then Some (True, u)
                 else map_option (\<lambda>(found, visited). (found, u))
                        (has_role_inherited (rp_get_role R repo) role_name fuel role {}))
             roles ()))"

definition create_permission :: "'r rbac_repository \<Rightarrow> time \<Rightarrow> permission \<Rightarrow> 'r rbac_manager
    \<Rightarrow> 'r rbac_manager \<times> rbac_error option" where
  "create_permission R now perm m =
     (if pe_name perm = [] \<or> pe_resource perm = [] \<or> pe_action perm = [] then (m, Some ErrInvalidPermission)
      else with_repo m (rp_create_permission R (perm\<lparr>pe_created_at := now\<rparr>) (rb_repo m)))"

section \<open>The default roles\<close>

definition system_role :: "time \<Rightarrow> string \<Rightarrow> string \<Rightarrow> string list \<Rightarrow> string list \<Rightarrow> bool \<Rightarrow> int \<Rightarrow> role" where
  "system_role now i name perms parents is_default priority =
     \<lparr>ro_id = i, ro_name = name, ro_permissions = perms, ro_parents = parents, ro_is_system = True,
      ro_is_default = is_default, ro_priority = priority, ro_created_at = now, ro_updated_at = now\<rparr>"

definition default_roles :: "time \<Rightarrow> role list" where
  "default_roles now =
     [system_role now ''role-admin'' ''admin'' [''perm-admin-all''] [] False 100,
      system_role now ''role-user'' ''user'' [''perm-inference-read'', ''perm-models-read''] [] True 1,
      system_role now ''role-developer'' ''developer'' [''perm-inference-all'', ''perm-models-all''] [''role-user''] False 50,
      system_role now ''role-viewer'' ''viewer'' [''perm-inference-read'', ''perm-models-read'', ''perm-audit-read''] []
        False 10]"

definition mk_permission :: "time \<Rightarrow> string \<Rightarrow> string \<Rightarrow> string \<Rightarrow> string \<Rightarrow> string \<Rightarrow> permission" where
  "mk_permission now i name resource action scope = \<lparr>pe_id = i, pe_name = name, pe_resource = resource,
     pe_action = action, pe_scope = scope, pe_created_at = now\<rparr>"

definition default_permissions :: "time \<Rightarrow> permission list" where
  "default_permissions now =
     [mk_permission now ''perm-admin-all'' ''admin.all'' ''*'' ''*'' ''global'',
      mk_permission now ''perm-inference-read'' ''inference.read'' ''inference'' ''read'' ''own'',
      mk_permission now ''perm-inference-write'' ''inference.write'' ''inference'' ''write'' ''own'',
      mk_permission now ''perm-inference-all'' ''inference.all'' ''inference'' ''*'' ''team'',
      mk_permission now ''perm-models-read'' ''models.read'' ''models'' ''read'' ''own'',
      mk_permission now ''perm-models-write'' ''models.write'' ''models'' ''write'' ''own'',
      mk_permission now ''perm-models-all'' ''models.all'' ''models'' ''*'' ''team'',
      mk_permission now ''perm-users-read'' ''users.read'' ''users'' ''read'' ''team'',
      mk_permission now ''perm-users-write'' ''users.write'' ''users'' ''write'' ''team'',
      mk_permission now ''perm-users-all'' ''users.all'' ''users'' ''*'' ''organization'',
      mk_permission now ''perm-audit-read'' ''audit.read'' ''audit'' ''read'' ''team'',
      mk_permission now ''perm-apikeys-read'' ''apikeys.read'' ''apikeys'' ''read'' ''own'',
      mk_permission now ''perm-apikeys-write'' ''apikeys.write'' ''apikeys'' ''write'' ''own'',
      mk_permission now ''perm-billing-read'' ''billing.read'' ''billing'' ''read'' ''own'',
      mk_permission now ''perm-billing-write'' ''billing.write'' ''billing'' ''write'' ''own'']"

text \<open>\<^verbatim>\<open>InitializeDefaultRolesAndPermissions\<close>: create what is missing, stop at the first error.\<close>

definition create_if_missing :: "('r \<Rightarrow> 'a \<Rightarrow> bool) \<Rightarrow> ('a \<Rightarrow> 'r \<Rightarrow> 'r \<times> rbac_error option) \<Rightarrow> 'a
    \<Rightarrow> 'r \<times> rbac_error option \<Rightarrow> 'r \<times> rbac_error option" where
  "create_if_missing exists create x r = (case r of
     (repo, Some e) \<Rightarrow> (repo, Some e)
   | (repo, None) \<Rightarrow> if exists repo x then (repo, None) else create x repo)"

definition initialize_defaults :: "'r rbac_repository \<Rightarrow> time \<Rightarrow> time \<Rightarrow> 'r rbac_manager \<Rightarrow> 'r rbac_manager \<times> rbac_error option" where
  "initialize_defaults R now1 now2 m = with_repo m
     (fold (create_if_missing (\<lambda>repo role. rp_get_role R repo (ro_id role) \<noteq> None) (rp_create_role R)) (default_roles now2)
       (fold (create_if_missing (\<lambda>repo p. rp_get_permission R repo (pe_id p) \<noteq> None) (rp_create_permission R))
          (default_permissions now1) (rb_repo m, None)))"

section \<open>The role hierarchy stays acyclic\<close>

definition parent_edges :: "(string \<Rightarrow> role option) \<Rightarrow> (string \<times> string) set" where
  "parent_edges get_role = {(i, p). \<exists>role. get_role i = Some role \<and> p \<in> set (ro_parents role)}"

text \<open>What \<open>checkCircularInheritance\<close> establishes about the roles it has visited.\<close>

definition explored :: "(string \<Rightarrow> role option) \<Rightarrow> string \<Rightarrow> string set \<Rightarrow> string set \<Rightarrow> bool" where
  "explored get_role role_id old visited \<longleftrightarrow> old \<subseteq> visited \<and> role_id \<notin> visited - old
     \<and> (\<forall>i\<in>visited - old. \<exists>role. get_role i = Some role \<and> set (ro_parents role) \<subseteq> visited)"

lemma explored_refl: "explored get_role role_id v v"
  by (simp add: explored_def)

lemma explored_trans:
  "explored get_role role_id u v \<Longrightarrow> explored get_role role_id v w \<Longrightarrow> explored get_role role_id u w"
  unfolding explored_def by (intro conjI ballI) (blast, blast, metis DiffD1 DiffD2 DiffI subset_trans)

lemma each_explored:
  assumes "\<And>x u v. x \<in> set xs \<Longrightarrow> f x u = Inr v \<Longrightarrow> explored get_role role_id u v \<and> x \<in> v"
  shows "each f xs u = Inr v \<Longrightarrow> explored get_role role_id u v \<and> set xs \<subseteq> v"
  using assms
proof (induction xs arbitrary: u)
  case Nil
  then show ?case by (simp add: explored_refl)
next
  case (Cons x xs)
  from Cons.prems(1) obtain w where w: "f x u = Inr w" "each f xs w = Inr v" by (auto split: sum.splits)
  have uw: "explored get_role role_id u w" "x \<in> w" using Cons.prems(2) [OF _ w(1)] by auto
  have wv: "explored get_role role_id w v" "set xs \<subseteq> v" using Cons.IH [OF w(2)] Cons.prems(2) by auto
  have "explored get_role role_id u v" using uw(1) wv(1) by (rule explored_trans)
  moreover have "w \<subseteq> v" using wv(1) by (simp add: explored_def)
  ultimately show ?case using uw wv by auto
qed

lemma check_circular_explored:
  "check_circular_inheritance get_role role_id levels parents u = Inr v
    \<Longrightarrow> explored get_role role_id u v \<and> set parents \<subseteq> v"
proof (induction levels arbitrary: parents u v)
  case (Suc levels)
  show ?case
  proof (rule each_explored)
    fix x u v
    assume step: "(if x = role_id then Inl ErrCircularInheritance else if x \<in> u then Inr u
         else case get_role x of None \<Rightarrow> Inl (ErrParentMissing x)
         | Some parent \<Rightarrow> check_circular_inheritance get_role role_id levels (ro_parents parent) (insert x u)) = Inr v"
    show "explored get_role role_id u v \<and> x \<in> v"
    proof (cases "x \<in> u")
      case True
      with step show ?thesis by (auto simp: explored_refl split: if_splits)
    next
      case False
      with step obtain parent where p: "x \<noteq> role_id" "get_role x = Some parent"
          "check_circular_inheritance get_role role_id levels (ro_parents parent) (insert x u) = Inr v"
        by (auto split: if_splits option.splits)
      with Suc.IH [OF p(3)] False show ?thesis by (auto simp: explored_def)
    qed
  qed (use Suc.prems in simp)
qed simp

definition acyclic_roles :: "(string \<Rightarrow> role option) \<Rightarrow> bool" where
  "acyclic_roles get_role \<longleftrightarrow> acyclic (parent_edges get_role)"

lemma acyclic_put:
  assumes acyc: "acyclic_roles get_role" and ok: "validate_inheritance get_role config role = None"
    and same: "ro_id role' = ro_id role" "ro_parents role' = ro_parents role"
  shows "acyclic_roles (get_role(ro_id role \<mapsto> role'))"
proof -
  let ?id = "ro_id role" and ?E = "parent_edges get_role"
  define E' where "E' = parent_edges (get_role(ro_id role \<mapsto> role'))"
  obtain v where v: "explored get_role ?id {} v" "set (ro_parents role) \<subseteq> v"
  proof (cases "ro_parents role = []")
    case True
    with that show ?thesis by (auto simp: explored_def)
  next
    case False
    with ok obtain v where
      "check_circular_inheritance get_role ?id (levels_of config) (ro_parents role) {} = Inr v"
      by (auto simp: validate_inheritance_def split: sum.splits)
    then show ?thesis using that check_circular_explored by blast
  qed
  have closed: "y \<in> v" if "(?id, y) \<in> E'\<^sup>+" for y
    using that
  proof (induction rule: trancl_induct)
    case (base y)
    with v(2) same show ?case by (auto simp: E'_def parent_edges_def)
  next
    case (step y z)
    with v(1) show ?case by (fastforce simp: E'_def parent_edges_def explored_def split: if_splits)
  qed
  have no_loop: "(?id, ?id) \<notin> E'\<^sup>+" using closed v(1) by (auto simp: explored_def)
  have old: "(x, y) \<in> ?E" if "(x, y) \<in> E'" "x \<noteq> ?id" for x y
    using that by (simp add: E'_def parent_edges_def)
  have path: "(x, y) \<in> ?E\<^sup>+ \<or> (x, ?id) \<in> E'\<^sup>* \<and> (?id, y) \<in> E'\<^sup>+" if "(x, y) \<in> E'\<^sup>+" for x y
    using that
  proof (induction rule: trancl_induct)
    case (base y)
    with old show ?case by (cases "x = ?id") auto
  next
    case (step y z)
    show ?case
    proof (cases "y = ?id")
      case True
      with step(1,2) show ?thesis by (auto intro: trancl_into_rtrancl)
    next
      case False
      with step old show ?thesis by (auto intro: trancl_into_trancl)
    qed
  qed
  have "(x, x) \<notin> E'\<^sup>+" for x
  proof
    assume "(x, x) \<in> E'\<^sup>+"
    moreover have "(x, x) \<notin> ?E\<^sup>+" using acyc by (simp add: acyclic_roles_def acyclic_def)
    ultimately have "(x, ?id) \<in> E'\<^sup>*" "(?id, x) \<in> E'\<^sup>+" using path by blast+
    then have "(?id, ?id) \<in> E'\<^sup>+" by (rule trancl_rtrancl_trancl [rotated])
    with no_loop show False ..
  qed
  then show ?thesis by (simp add: acyclic_roles_def acyclic_def E'_def)
qed

text \<open>
  What the manager relies on in a repository: creating or updating a role makes it the role of its id,
  deleting makes it unknown, nothing else touches the roles, and neither does a failed operation.
\<close>

definition stores_roles :: "'r rbac_repository \<Rightarrow> bool" where
  "stores_roles R \<longleftrightarrow>
     (\<forall>role repo. rp_get_role R (fst (rp_create_role R role repo))
        = (if snd (rp_create_role R role repo) = None then (rp_get_role R repo)(ro_id role \<mapsto> role)
           else rp_get_role R repo))
   \<and> (\<forall>role repo. rp_get_role R (fst (rp_update_role R role repo))
        = (if snd (rp_update_role R role repo) = None then (rp_get_role R repo)(ro_id role \<mapsto> role)
           else rp_get_role R repo))
   \<and> (\<forall>i repo. rp_get_role R (fst (rp_delete_role R i repo))
        = (if snd (rp_delete_role R i repo) = None then (rp_get_role R repo)(i := None) else rp_get_role R repo))
   \<and> (\<forall>a repo. rp_get_role R (fst (rp_assign_role R a repo)) = rp_get_role R repo)
   \<and> (\<forall>u i repo. rp_get_role R (fst (rp_revoke_role R u i repo)) = rp_get_role R repo)
   \<and> (\<forall>p repo. rp_get_role R (fst (rp_create_permission R p repo)) = rp_get_role R repo)"

text \<open>
  The calls of the manager, one after the other. The ids of the default roles are reserved: no role is created
  under one of them except by \<^verbatim>\<open>InitializeDefaultRolesAndPermissions\<close>, which does not validate what it creates.
\<close>

definition reserved_ids :: "string set" where
  "reserved_ids = ro_id ` set (default_roles 0)"

inductive rbac_step :: "'r rbac_repository \<Rightarrow> 'r rbac_manager \<Rightarrow> 'r rbac_manager \<Rightarrow> bool" for R where
  create: "ro_id role \<notin> reserved_ids \<Longrightarrow> create_role R now role m = (m', err) \<Longrightarrow> rbac_step R m m'"
| update: "update_role R now role m = (m', err) \<Longrightarrow> rbac_step R m m'"
| delete: "delete_role R i m = (m', err) \<Longrightarrow> rbac_step R m m'"
| assign: "assign_role R now user_id i granted_by expires m = (m', err) \<Longrightarrow> rbac_step R m m'"
| revoke: "revoke_role R user_id i m = (m', err) \<Longrightarrow> rbac_step R m m'"
| query: "has_permission R ks now user_id resource action scope m = (m', answer) \<Longrightarrow> rbac_step R m m'"
| new_permission: "create_permission R now perm m = (m', err) \<Longrightarrow> rbac_step R m m'"
| initialize: "initialize_defaults R now1 now2 m = (m', err) \<Longrightarrow> rbac_step R m m'"

lemma with_repo_repo: "with_repo m r = (m', err) \<Longrightarrow> rb_repo m' = fst r \<and> snd r = err"
  by (auto simp: with_repo_def split: prod.splits)

lemma has_permission_repo:
  "has_permission R ks now user_id resource action scope m = (m', answer)
    \<Longrightarrow> rb_repo m' = rb_repo m \<and> rb_config m' = rb_config m"
  by (auto simp: has_permission_def get_all_user_permissions_def get_from_cache_def invalidate_cache_def
      add_to_cache_def Let_def split: prod.splits sum.splits option.splits if_splits)

lemma acyclic_delete: "acyclic_roles g \<Longrightarrow> acyclic_roles (g(i := None))"
  unfolding acyclic_roles_def
  by (erule acyclic_subset) (auto simp: parent_edges_def split: if_splits)

text \<open>Creating or updating a role validates its inheritance and stores it, or changes no role.\<close>

definition puts_role :: "'r rbac_repository \<Rightarrow> role \<Rightarrow> 'r rbac_manager \<Rightarrow> 'r rbac_manager \<Rightarrow> bool" where
  "puts_role R role m m' \<longleftrightarrow> rp_get_role R (rb_repo m') = rp_get_role R (rb_repo m)
     \<or> validate_inheritance (rp_get_role R (rb_repo m)) (rb_config m) role = None
       \<and> (\<exists>role'. ro_id role' = ro_id role \<and> ro_parents role' = ro_parents role
            \<and> rp_get_role R (rb_repo m') = (rp_get_role R (rb_repo m))(ro_id role \<mapsto> role'))"

lemma create_role_puts:
  assumes "stores_roles R" "create_role R now role m = (m', err)"
  shows "puts_role R role m m'"
proof (cases "m' = m")
  case False
  let ?role = "role\<lparr>ro_created_at := now, ro_updated_at := now\<rparr>"
  from False assms(2) have valid: "validate_inheritance (rp_get_role R (rb_repo m)) (rb_config m) role = None"
    and "with_repo m (rp_create_role R ?role (rb_repo m)) = (m', err)"
    by (auto simp: create_role_def split: if_splits option.splits)
  then have "rb_repo m' = fst (rp_create_role R ?role (rb_repo m))" by (blast dest: with_repo_repo)
  with assms(1) have "rp_get_role R (rb_repo m') = (rp_get_role R (rb_repo m))(ro_id ?role \<mapsto> ?role)
      \<or> rp_get_role R (rb_repo m') = rp_get_role R (rb_repo m)"
    by (auto simp: stores_roles_def)
  then show ?thesis unfolding puts_role_def using valid by (auto intro: exI [of _ ?role])
qed (simp add: puts_role_def)

lemma update_role_puts:
  assumes "stores_roles R" "update_role R now role m = (m', err)"
  shows "m' = m \<or> puts_role R role m m' \<and> (\<exists>old. rp_get_role R (rb_repo m) (ro_id role) = Some old \<and> \<not> ro_is_system old)"
proof (cases "m' = m")
  case False
  from False assms(2) obtain existing where
    get: "rp_get_role R (rb_repo m) (ro_id role) = Some existing"
    by (auto simp: update_role_def split: option.splits)
  define role' where "role' = role\<lparr>ro_updated_at := now, ro_created_at := ro_created_at existing\<rparr>"
  from False assms(2) get have sys: "\<not> ro_is_system existing"
    and valid: "validate_inheritance (rp_get_role R (rb_repo m)) (rb_config m) role = None"
    and "with_repo m (rp_update_role R role' (rb_repo m)) = (m', err)"
    by (auto simp: update_role_def role'_def split: if_splits option.splits)
  then have "rb_repo m' = fst (rp_update_role R role' (rb_repo m))" by (blast dest: with_repo_repo)
  with assms(1) have "rp_get_role R (rb_repo m') = (rp_get_role R (rb_repo m))(ro_id role' \<mapsto> role')
      \<or> rp_get_role R (rb_repo m') = rp_get_role R (rb_repo m)"
    by (auto simp: stores_roles_def)
  then have "puts_role R role m m'" unfolding puts_role_def using valid by (auto simp: role'_def intro: exI [of _ role'])
  with get sys show ?thesis by blast
qed simp

lemma acyclic_puts: "puts_role R role m m' \<Longrightarrow> acyclic_roles (rp_get_role R (rb_repo m)) \<Longrightarrow> acyclic_roles (rp_get_role R (rb_repo m'))"
  unfolding puts_role_def by (auto intro: acyclic_put)

text \<open>The one default role that has a parent inherits from \<^verbatim>\<open>role-user\<close>, which has none and which nobody can change.\<close>

definition user_role_kept :: "(string \<Rightarrow> role option) \<Rightarrow> bool" where
  "user_role_kept g \<longleftrightarrow> (\<forall>role. g ''role-user'' = Some role \<longrightarrow> ro_is_system role \<and> ro_parents role = [])"

definition default_shape :: "role \<Rightarrow> bool" where
  "default_shape role \<longleftrightarrow> set (ro_parents role) \<subseteq> {''role-user''}
     \<and> (ro_id role = ''role-user'' \<longrightarrow> ro_is_system role \<and> ro_parents role = [])"

lemma default_roles_shape: "role \<in> set (default_roles now) \<Longrightarrow> default_shape role"
  by (auto simp: default_roles_def system_role_def default_shape_def)

lemma user_role_reserved: "''role-user'' \<in> reserved_ids"
  by (simp add: reserved_ids_def default_roles_def system_role_def)

lemma acyclic_default:
  assumes "acyclic_roles g" "user_role_kept g" "default_shape role"
  shows "acyclic_roles (g(ro_id role \<mapsto> role)) \<and> user_role_kept (g(ro_id role \<mapsto> role))"
proof -
  let ?E = "parent_edges g" and ?E' = "parent_edges (g(ro_id role \<mapsto> role))"
  have sink: "(''role-user'', y) \<notin> ?E" for y
    using assms(2) by (auto simp: parent_edges_def user_role_kept_def)
  have "acyclic ?E'"
  proof (cases "ro_id role = ''role-user''")
    case True
    then have "?E' \<subseteq> ?E" using assms(3) by (auto simp: parent_edges_def default_shape_def split: if_splits)
    then show ?thesis using assms(1) acyclic_subset unfolding acyclic_roles_def by blast
  next
    case False
    have "(''role-user'', ro_id role) \<notin> ?E\<^sup>*"
      using False sink by (metis converse_rtranclE)
    then have "acyclic (insert (ro_id role, ''role-user'') ?E)"
      using assms(1) by (simp add: acyclic_insert acyclic_roles_def)
    moreover have "?E' \<subseteq> insert (ro_id role, ''role-user'') ?E"
      using assms(3) by (fastforce simp: parent_edges_def default_shape_def split: if_splits)
    ultimately show ?thesis by (rule acyclic_subset)
  qed
  then show ?thesis
    using assms(2,3) by (auto simp: acyclic_roles_def user_role_kept_def default_shape_def)
qed

lemma create_defaults_acyclic:
  assumes "stores_roles R" "acyclic_roles (rp_get_role R (fst r))" "user_role_kept (rp_get_role R (fst r))"
    "\<And>role. role \<in> set roles \<Longrightarrow> default_shape role"
  defines "r' \<equiv> fold (create_if_missing (\<lambda>repo role. rp_get_role R repo (ro_id role) \<noteq> None) (rp_create_role R)) roles r"
  shows "acyclic_roles (rp_get_role R (fst r')) \<and> user_role_kept (rp_get_role R (fst r'))"
  using assms(2-4) unfolding r'_def
proof (induction roles arbitrary: r)
  case (Cons role roles)
  let ?r = "create_if_missing (\<lambda>repo role. rp_get_role R repo (ro_id role) \<noteq> None) (rp_create_role R) role r"
  have "rp_get_role R (fst ?r) \<in> {rp_get_role R (fst r), (rp_get_role R (fst r))(ro_id role \<mapsto> role)}"
    using assms(1) by (cases r; cases "snd r") (auto simp: create_if_missing_def stores_roles_def)
  then have "acyclic_roles (rp_get_role R (fst ?r)) \<and> user_role_kept (rp_get_role R (fst ?r))"
    using acyclic_default [OF Cons.prems(1,2)] Cons.prems by auto
  then show ?case using Cons.IH [of ?r] Cons.prems(3) by simp
qed simp

lemma create_permissions_roles:
  assumes "stores_roles R"
  shows "rp_get_role R (fst (fold (create_if_missing f (rp_create_permission R)) ps r)) = rp_get_role R (fst r)"
proof (induction ps arbitrary: r)
  case (Cons p ps)
  have "rp_get_role R (fst (create_if_missing f (rp_create_permission R) p r)) = rp_get_role R (fst r)"
    using assms by (cases r; cases "snd r") (auto simp: create_if_missing_def stores_roles_def)
  with Cons show ?case by simp
qed simp

lemma acyclic_initialize:
  assumes "stores_roles R" "initialize_defaults R now1 now2 m = (m', err)"
    "acyclic_roles (rp_get_role R (rb_repo m))" "user_role_kept (rp_get_role R (rb_repo m))"
  shows "acyclic_roles (rp_get_role R (rb_repo m')) \<and> user_role_kept (rp_get_role R (rb_repo m'))"
proof -
  let ?perms = "fold (create_if_missing (\<lambda>repo (perm :: permission). rp_get_permission R repo (pe_id perm) \<noteq> None)
      (rp_create_permission R)) (default_permissions now1) (rb_repo m, None)"
  let ?roles = "fold (create_if_missing (\<lambda>repo (role :: role). rp_get_role R repo (ro_id role) \<noteq> None)
      (rp_create_role R)) (default_roles now2) ?perms"
  have "rp_get_role R (fst ?perms) = rp_get_role R (rb_repo m)"
    using create_permissions_roles [OF assms(1)] by (simp only: fst_conv)
  then have "acyclic_roles (rp_get_role R (fst ?roles)) \<and> user_role_kept (rp_get_role R (fst ?roles))"
    using create_defaults_acyclic [OF assms(1), of ?perms "default_roles now2"] assms(3,4) default_roles_shape
    by (simp only:)
  moreover have "rb_repo m' = fst ?roles"
    using assms(2) unfolding initialize_defaults_def by (blast dest: with_repo_repo)
  ultimately show ?thesis by (simp only:)
qed

lemma user_role_puts:
  "puts_role R role m m' \<Longrightarrow> ro_id role \<noteq> ''role-user'' \<Longrightarrow> user_role_kept (rp_get_role R (rb_repo m))
    \<Longrightarrow> user_role_kept (rp_get_role R (rb_repo m'))"
  by (auto simp: puts_role_def user_role_kept_def)

definition hierarchy_ok :: "'r rbac_repository \<Rightarrow> 'r rbac_manager \<Rightarrow> bool" where
  "hierarchy_ok R m \<longleftrightarrow> acyclic_roles (rp_get_role R (rb_repo m)) \<and> user_role_kept (rp_get_role R (rb_repo m))"

lemma hierarchy_same: "rp_get_role R (rb_repo m') = rp_get_role R (rb_repo m) \<Longrightarrow> hierarchy_ok R m \<Longrightarrow> hierarchy_ok R m'"
  by (simp add: hierarchy_ok_def)

lemma rbac_step_hierarchy:
  assumes "stores_roles R" "rbac_step R m m'" "hierarchy_ok R m"
  shows "hierarchy_ok R m'"
  using assms(2)
proof (cases rule: rbac_step.cases)
  case (create role now err)
  then have "ro_id role \<noteq> ''role-user''" using user_role_reserved by metis
  then show ?thesis
    using create_role_puts [OF assms(1) create(2)] assms(3) acyclic_puts user_role_puts unfolding hierarchy_ok_def by blast
next
  case (update now role err)
  show ?thesis
  proof (cases "m' = m")
    case False
    with update_role_puts [OF assms(1) update] obtain old where
      put: "puts_role R role m m'" and old: "rp_get_role R (rb_repo m) (ro_id role) = Some old" "\<not> ro_is_system old"
      by blast
    from old assms(3) have "ro_id role \<noteq> ''role-user''" by (auto simp: hierarchy_ok_def user_role_kept_def)
    with put assms(3) acyclic_puts user_role_puts show ?thesis unfolding hierarchy_ok_def by blast
  qed (use assms(3) in simp)
next
  case (delete i err)
  then have "m' = m \<or> rb_repo m' = fst (rp_delete_role R i (rb_repo m))"
    by (auto simp: delete_role_def split: if_splits option.splits dest!: with_repo_repo)
  moreover have "rp_get_role R (fst (rp_delete_role R i (rb_repo m)))
      \<in> {rp_get_role R (rb_repo m), (rp_get_role R (rb_repo m))(i := None)}"
    using assms(1) by (simp add: stores_roles_def)
  ultimately have "rp_get_role R (rb_repo m') \<in> {rp_get_role R (rb_repo m), (rp_get_role R (rb_repo m))(i := None)}"
    by auto
  then show ?thesis
    using assms(3) acyclic_delete [of "rp_get_role R (rb_repo m)" i]
    by (auto simp: hierarchy_ok_def user_role_kept_def split: if_splits)
next
  case (assign now user_id i granted_by expires err)
  then have "rp_get_role R (rb_repo m') = rp_get_role R (rb_repo m)"
    using assms(1) by (auto simp: assign_role_def stores_roles_def invalidate_cache_def split: option.splits dest!: with_repo_repo)
  then show ?thesis using assms(3) by (rule hierarchy_same)
next
  case (revoke user_id i err)
  then have "rp_get_role R (rb_repo m') = rp_get_role R (rb_repo m)"
    using assms(1) by (auto simp: revoke_role_def stores_roles_def invalidate_cache_def dest!: with_repo_repo)
  then show ?thesis using assms(3) by (rule hierarchy_same)
next
  case (new_permission now perm err)
  then have "rp_get_role R (rb_repo m') = rp_get_role R (rb_repo m)"
    using assms(1) by (auto simp: create_permission_def stores_roles_def split: if_splits dest!: with_repo_repo)
  then show ?thesis using assms(3) by (rule hierarchy_same)
next
  case (query ks now user_id resource action scope answer)
  then show ?thesis using assms(3) by (auto simp: hierarchy_ok_def dest!: has_permission_repo)
next
  case (initialize now1 now2 err)
  then show ?thesis using acyclic_initialize [OF assms(1)] assms(3) by (auto simp: hierarchy_ok_def)
qed

text \<open>C16: no cycles of roles. Take a repository that stores the roles it is given, with an acyclic hierarchy in which
  \<^verbatim>\<open>role-user\<close>, if it exists, is the system role without parents. Every run of the manager's calls, one after the other,
  the initialization of the default roles included, keeps the hierarchy of roles acyclic, as long as no client
  creates a role under the id of a default role: the initialization does not validate the roles it creates.\<close>

theorem role_hierarchy_acyclic:
  assumes "stores_roles R" "acyclic_roles (rp_get_role R (rb_repo m))" "user_role_kept (rp_get_role R (rb_repo m))"
    and "(rbac_step R)\<^sup>*\<^sup>* m m'"
  shows "acyclic_roles (rp_get_role R (rb_repo m'))"
proof -
  have "hierarchy_ok R m'"
    using assms(4)
  proof (induction rule: rtranclp_induct)
    case base
    show ?case using assms(2,3) by (simp add: hierarchy_ok_def)
  qed (rule rbac_step_hierarchy [OF assms(1)])
  then show ?thesis by (simp add: hierarchy_ok_def)
qed

section \<open>Permissions of a user\<close>

definition parent_role :: "(string \<Rightarrow> role option) \<Rightarrow> role \<Rightarrow> role \<Rightarrow> bool" where
  "parent_role get_role r q \<longleftrightarrow> (\<exists>p\<in>set (ro_parents r). get_role p = Some q)"

definition inherited_within :: "(string \<Rightarrow> role option) \<Rightarrow> nat \<Rightarrow> role \<Rightarrow> string set" where
  "inherited_within get_role levels role =
     {i. \<exists>k q. k < levels \<and> (parent_role get_role ^^ k) role q \<and> i \<in> set (ro_permissions q)}"

lemma fold_union:
  "(\<And>x ids. x \<in> set xs \<Longrightarrow> f x ids = ids \<union> g x) \<Longrightarrow> fold f xs ids = ids \<union> (\<Union>x\<in>set xs. g x)"
  by (induction xs arbitrary: ids) auto

lemma inherited_within_Suc:
  "inherited_within get_role (Suc n) role = set (ro_permissions role)
     \<union> (\<Union>p\<in>set (ro_parents role). case get_role p of None \<Rightarrow> {} | Some q \<Rightarrow> inherited_within get_role n q)"
  (is "?L = ?R")
proof (intro equalityI subsetI)
  fix i assume "i \<in> ?L"
  then obtain k q where kq: "k < Suc n" "(parent_role get_role ^^ k) role q" "i \<in> set (ro_permissions q)"
    by (auto simp: inherited_within_def)
  show "i \<in> ?R"
  proof (cases k)
    case 0
    with kq show ?thesis by simp
  next
    case (Suc j)
    with kq(2) obtain p where "parent_role get_role role p" "(parent_role get_role ^^ j) p q"
      by (metis relpowp_Suc_D2)
    then obtain pid where pid: "pid \<in> set (ro_parents role)" "get_role pid = Some p"
      by (auto simp: parent_role_def)
    have "i \<in> inherited_within get_role n p"
      using kq(1,3) Suc \<open>(parent_role get_role ^^ j) p q\<close> by (auto simp: inherited_within_def)
    with pid show ?thesis by (intro UnI2 UN_I [of pid]) simp_all
  qed
next
  fix i assume "i \<in> ?R"
  then consider "i \<in> set (ro_permissions role)"
    | p q where "p \<in> set (ro_parents role)" "get_role p = Some q" "i \<in> inherited_within get_role n q"
    by (auto split: option.splits)
  then show "i \<in> ?L"
  proof cases
    case 1
    then show ?thesis by (auto simp: inherited_within_def intro!: exI [of _ 0])
  next
    case 2
    then obtain k q' where k: "k < n" "(parent_role get_role ^^ k) q q'" "i \<in> set (ro_permissions q')"
      by (auto simp: inherited_within_def)
    have "parent_role get_role role q" using 2 by (auto simp: parent_role_def)
    with k(2) have "(parent_role get_role ^^ Suc k) role q'" by (metis relpowp_Suc_I2)
    with k(1,3) show ?thesis unfolding inherited_within_def using Suc_mono by blast
  qed
qed

lemma collect_permission_ids_spec:
  "collect_permission_ids get_role n role ids = ids \<union> inherited_within get_role n role"
proof (induction n arbitrary: role ids)
  case 0
  show ?case by (simp add: inherited_within_def)
next
  case (Suc n)
  have "collect_permission_ids get_role (Suc n) role ids = ids \<union> set (ro_permissions role)
      \<union> (\<Union>p\<in>set (ro_parents role). case get_role p of None \<Rightarrow> {} | Some q \<Rightarrow> inherited_within get_role n q)"
    unfolding collect_permission_ids.simps
    by (rule fold_union) (auto simp: Suc split: option.splits)
  then show ?case by (simp add: inherited_within_Suc Un_assoc)
qed

definition role_permission_ids :: "'r rbac_repository \<Rightarrow> rbac_config \<Rightarrow> role list \<Rightarrow> 'r \<Rightarrow> string set" where
  "role_permission_ids R config roles repo =
     (\<Union>role\<in>set roles. inherited_within (rp_get_role R repo) (levels_of config) role)"

lemma user_permissions_spec:
  assumes "role_permission_ids R config roles repo \<subseteq> set ks"
  shows "set (user_permissions R config ks roles repo)
    = {perm. \<exists>i\<in>role_permission_ids R config roles repo. rp_get_permission R repo i = Some perm}"
proof -
  have "fold (collect_permission_ids (rp_get_role R repo) (levels_of config)) roles {}
      = role_permission_ids R config roles repo"
    using fold_union [of roles "collect_permission_ids (rp_get_role R repo) (levels_of config)"
        "inherited_within (rp_get_role R repo) (levels_of config)" "{}"]
    by (simp add: collect_permission_ids_spec role_permission_ids_def)
  with assms show ?thesis
    by (auto simp: user_permissions_def List.map_filter_def image_iff) force
qed

lemma has_permission_uncached:
  assumes "rb_cache m user_id = None" "get_user_roles R now user_id (rb_repo m) = Inr roles"
    and "role_permission_ids R (rb_config m) roles (rb_repo m) \<subseteq> set ks"
  shows "snd (has_permission R ks now user_id resource action scope m)
    = Inr (\<exists>i\<in>role_permission_ids R (rb_config m) roles (rb_repo m). \<exists>perm.
        rp_get_permission R (rb_repo m) i = Some perm \<and> permission_covers resource action scope perm)"
  using user_permissions_spec [OF assms(3)] assms(1,2)
  by (auto simp: has_permission_def get_all_user_permissions_def get_from_cache_def Let_def)

text \<open>C17: \<^verbatim>\<open>HasPermission\<close> without a cached result is true exactly when some role that is assigned to the user
  and has not expired, or an ancestor of it within the configured depth, names a permission of the
  repository that covers the request.\<close>

theorem has_permission_correct:
  assumes "rb_cache m user_id = None" "rp_user_roles R (rb_repo m) user_id = Inr assignments"
    and "\<forall>a\<in>set assignments. \<forall>role. rp_get_role R (rb_repo m) (ra_role_id a) = Some role \<longrightarrow>
          inherited_within (rp_get_role R (rb_repo m)) (levels_of (rb_config m)) role \<subseteq> set ks"
  shows "snd (has_permission R ks now user_id resource action scope m)
    = Inr (\<exists>a\<in>set assignments. \<not> assignment_expired now a \<and> (\<exists>role k ancestor i perm.
        rp_get_role R (rb_repo m) (ra_role_id a) = Some role \<and> k < levels_of (rb_config m)
        \<and> (parent_role (rp_get_role R (rb_repo m)) ^^ k) role ancestor \<and> i \<in> set (ro_permissions ancestor)
        \<and> rp_get_permission R (rb_repo m) i = Some perm \<and> permission_covers resource action scope perm))"
proof -
  define roles where "roles = List.map_filter (rp_get_role R (rb_repo m))
      (map ra_role_id (filter (\<lambda>a. \<not> assignment_expired now a) assignments))"
  have get: "get_user_roles R now user_id (rb_repo m) = Inr roles"
    using assms(2) by (simp add: get_user_roles_def roles_def)
  have in_roles: "role \<in> set roles \<longleftrightarrow> (\<exists>a\<in>set assignments. \<not> assignment_expired now a
      \<and> rp_get_role R (rb_repo m) (ra_role_id a) = Some role)" for role
    by (auto simp: roles_def List.map_filter_def image_iff)
  have "role_permission_ids R (rb_config m) roles (rb_repo m) \<subseteq> set ks"
    using assms(3) in_roles by (fastforce simp: role_permission_ids_def)
  from has_permission_uncached [OF assms(1) get this] show ?thesis
    by (fastforce simp: role_permission_ids_def inherited_within_def in_roles)
qed

section \<open>Roles of a user\<close>

text \<open>The parents of a visited role are visited, and none of them has the name looked for.\<close>

definition expanded :: "(string \<Rightarrow> role option) \<Rightarrow> string \<Rightarrow> string set \<Rightarrow> string list \<Rightarrow> bool" where
  "expanded get_role target v ps \<longleftrightarrow>
     (\<forall>p\<in>set ps. \<forall>q. get_role p = Some q \<longrightarrow> ro_name q \<noteq> target \<and> p \<in> v)"

definition closed_from :: "(string \<Rightarrow> role option) \<Rightarrow> string \<Rightarrow> string set \<Rightarrow> string set \<Rightarrow> bool" where
  "closed_from get_role target u v \<longleftrightarrow> u \<subseteq> v
     \<and> (\<forall>i\<in>v - u. \<forall>r. get_role i = Some r \<longrightarrow> expanded get_role target v (ro_parents r))"

lemma expanded_mono: "expanded g t v ps \<Longrightarrow> v \<subseteq> w \<Longrightarrow> expanded g t w ps"
  by (auto simp: expanded_def)

lemma closed_from_trans: "closed_from g t u v \<Longrightarrow> closed_from g t v w \<Longrightarrow> closed_from g t u w"
  unfolding closed_from_def by (meson DiffI DiffD1 DiffD2 expanded_mono subset_trans)

lemma seek_parents:
  assumes step: "\<And>p q u. p \<in> set ps \<Longrightarrow> g p = Some q \<Longrightarrow> base \<subseteq> u \<Longrightarrow> ro_name q \<noteq> target \<Longrightarrow>
      \<exists>b v. f q u = Some (b, v) \<and> u \<subseteq> v \<and> (b \<longrightarrow> found q) \<and> (\<not> b \<longrightarrow> p \<in> v \<and> closed_from g target u v)"
  shows "base \<subseteq> u \<Longrightarrow> \<exists>b v. seek (\<lambda>p u. case g p of None \<Rightarrow> Some (False, u)
        | Some q \<Rightarrow> if ro_name q = target then Some (True, u) else f q u) ps u = Some (b, v) \<and> u \<subseteq> v
    \<and> (b \<longrightarrow> (\<exists>p\<in>set ps. \<exists>q. g p = Some q \<and> (ro_name q = target \<or> found q)))
    \<and> (\<not> b \<longrightarrow> expanded g target v ps \<and> closed_from g target u v)"
  using step
proof (induction ps arbitrary: u)
  case Nil
  show ?case by (auto simp: expanded_def closed_from_def)
next
  case (Cons p ps)
  have tail: "\<exists>b v. seek (\<lambda>p u. case g p of None \<Rightarrow> Some (False, u)
        | Some q \<Rightarrow> if ro_name q = target then Some (True, u) else f q u) ps w = Some (b, v) \<and> w \<subseteq> v
    \<and> (b \<longrightarrow> (\<exists>p\<in>set ps. \<exists>q. g p = Some q \<and> (ro_name q = target \<or> found q)))
    \<and> (\<not> b \<longrightarrow> expanded g target v ps \<and> closed_from g target w v)" if "base \<subseteq> w" for w
    by (rule Cons.IH [OF that]) (rule Cons.prems(2), auto)
  show ?case
  proof (cases "g p")
    case None
    with tail [OF Cons.prems(1)] show ?thesis by (auto simp: expanded_def)
  next
    case (Some q)
    show ?thesis
    proof (cases "ro_name q = target")
      case True
      with Some show ?thesis by auto
    next
      case False
      with Some Cons.prems obtain b w where w: "f q u = Some (b, w)" "u \<subseteq> w" "b \<longrightarrow> found q"
          "\<not> b \<longrightarrow> p \<in> w \<and> closed_from g target u w"
        by (meson list.set_intros(1))
      show ?thesis
      proof (cases b)
        case True
        with w False Some show ?thesis by auto
      next
        case not_found: False
        from w(2) Cons.prems(1) have "base \<subseteq> w" by auto
        from tail [OF this] obtain b' v where v: "seek (\<lambda>p u. case g p of None \<Rightarrow> Some (False, u)
              | Some q \<Rightarrow> if ro_name q = target then Some (True, u) else f q u) ps w = Some (b', v)" "w \<subseteq> v"
            "b' \<longrightarrow> (\<exists>p\<in>set ps. \<exists>q. g p = Some q \<and> (ro_name q = target \<or> found q))"
            "\<not> b' \<longrightarrow> expanded g target v ps \<and> closed_from g target w v"
          by blast
        have "\<not> b' \<longrightarrow> expanded g target v (p # ps) \<and> closed_from g target u v"
          using v w not_found False Some by (auto simp: expanded_def intro: closed_from_trans)
        with v w not_found False Some show ?thesis by auto
      qed
    qed
  qed
qed

lemma has_role_inherited_spec:
  assumes keyed: "\<forall>i r. g i = Some r \<longrightarrow> ro_id r = i" and fin: "finite (dom g)"
  shows "g (ro_id role) = Some role \<Longrightarrow> card (dom g - visited) < fuel \<Longrightarrow>
    \<exists>b v. has_role_inherited g target fuel role visited = Some (b, v) \<and> visited \<subseteq> v
      \<and> (b \<longrightarrow> (\<exists>q. (parent_role g)\<^sup>+\<^sup>+ role q \<and> ro_name q = target))
      \<and> (\<not> b \<longrightarrow> ro_id role \<in> v \<and> closed_from g target visited v)"
proof (induction fuel arbitrary: role visited)
  case (Suc fuel)
  show ?case
  proof (cases "ro_id role \<in> visited")
    case True
    then show ?thesis by (auto simp: closed_from_def)
  next
    case False
    let ?base = "insert (ro_id role) visited"
    have "dom g - ?base \<subset> dom g - visited" using False Suc.prems(1) by auto
    then have card: "card (dom g - u) < fuel" if "?base \<subseteq> u" for u
      using that Suc.prems(2) fin
      by (meson Diff_mono finite_Diff less_Suc_eq_le order.strict_trans2 psubset_card_mono subset_refl
          subset_psubset_trans)
    have unf: "has_role_inherited g target (Suc fuel) role visited = seek (\<lambda>p u. case g p of None \<Rightarrow> Some (False, u)
          | Some q \<Rightarrow> if ro_name q = target then Some (True, u) else has_role_inherited g target fuel q u)
          (ro_parents role) ?base"
      using False by simp
    have "\<exists>b v. has_role_inherited g target (Suc fuel) role visited = Some (b, v) \<and> ?base \<subseteq> v
      \<and> (b \<longrightarrow> (\<exists>p\<in>set (ro_parents role). \<exists>q. g p = Some q
            \<and> (ro_name q = target \<or> (\<exists>q'. (parent_role g)\<^sup>+\<^sup>+ q q' \<and> ro_name q' = target))))
      \<and> (\<not> b \<longrightarrow> expanded g target v (ro_parents role) \<and> closed_from g target ?base v)"
      unfolding unf
    proof (rule seek_parents [OF _ subset_refl])
      fix p q u assume q: "g p = Some q" "?base \<subseteq> u"
      with keyed have "ro_id q = p" by auto
      with Suc.IH [of q u] q card show "\<exists>b v. has_role_inherited g target fuel q u = Some (b, v) \<and> u \<subseteq> v
          \<and> (b \<longrightarrow> (\<exists>q'. (parent_role g)\<^sup>+\<^sup>+ q q' \<and> ro_name q' = target))
          \<and> (\<not> b \<longrightarrow> p \<in> v \<and> closed_from g target u v)" by simp
    qed
    then obtain b v where v: "has_role_inherited g target (Suc fuel) role visited = Some (b, v)" "?base \<subseteq> v"
        "b \<longrightarrow> (\<exists>p\<in>set (ro_parents role). \<exists>q. g p = Some q
            \<and> (ro_name q = target \<or> (\<exists>q'. (parent_role g)\<^sup>+\<^sup>+ q q' \<and> ro_name q' = target)))"
        "\<not> b \<longrightarrow> expanded g target v (ro_parents role) \<and> closed_from g target ?base v"
      by blast
    have "b \<longrightarrow> (\<exists>q. (parent_role g)\<^sup>+\<^sup>+ role q \<and> ro_name q = target)"
      using v(3) by (metis parent_role_def tranclp.r_into_trancl tranclp_into_tranclp2)
    moreover have "\<not> b \<longrightarrow> closed_from g target visited v"
      using v(2,4) Suc.prems(1) by (auto simp: closed_from_def)
    ultimately show ?thesis using v(1,2) by blast
  qed
qed simp

lemma closed_from_step:
  assumes "closed_from g target {} v" "ro_id r \<in> v" "g (ro_id r) = Some r" "parent_role g r q"
    and keyed: "\<forall>i r. g i = Some r \<longrightarrow> ro_id r = i"
  shows "ro_name q \<noteq> target \<and> ro_id q \<in> v \<and> g (ro_id q) = Some q"
proof -
  obtain p where p: "p \<in> set (ro_parents r)" "g p = Some q" using assms(4) by (auto simp: parent_role_def)
  have "expanded g target v (ro_parents r)" using assms(1-3) by (auto simp: closed_from_def)
  with p have "ro_name q \<noteq> target \<and> p \<in> v" by (simp add: expanded_def)
  moreover have "ro_id q = p" using keyed p(2) by simp
  ultimately show ?thesis using p(2) by simp
qed

lemma closed_from_reach:
  assumes "closed_from g target {} v" "ro_id role \<in> v" "g (ro_id role) = Some role" "(parent_role g)\<^sup>+\<^sup>+ role q"
    and keyed: "\<forall>i r. g i = Some r \<longrightarrow> ro_id r = i"
  shows "ro_name q \<noteq> target \<and> ro_id q \<in> v \<and> g (ro_id q) = Some q"
  using assms(4)
proof (induction rule: tranclp_induct)
  case (base q)
  show ?case by (rule closed_from_step [OF assms(1-3) base keyed])
next
  case (step q q')
  then show ?case using closed_from_step [OF assms(1) _ _ step(2) keyed] by blast
qed

text \<open>C18: \<^verbatim>\<open>HasRole\<close>, over a finite repository that keeps each role under its id: with as many levels as there
  are roles and one more the search ends, cyclic hierarchies included, and it is true exactly when
  some unexpired role of the user, or one of its ancestors at any distance, has the name.\<close>

theorem has_role_correct:
  assumes "\<forall>i r. rp_get_role R repo i = Some r \<longrightarrow> ro_id r = i" "finite (dom (rp_get_role R repo))"
    and "card (dom (rp_get_role R repo)) < fuel" "get_user_roles R now user_id repo = Inr roles"
  shows "has_role R fuel now user_id role_name repo
    = Some (Inr (\<exists>role\<in>set roles. \<exists>q. (parent_role (rp_get_role R repo))\<^sup>*\<^sup>* role q \<and> ro_name q = role_name))"
proof -
  let ?g = "rp_get_role R repo"
  have stored: "?g (ro_id role) = Some role" if "role \<in> set roles" for role
    using that assms(1,4)
    by (auto simp: get_user_roles_def List.map_filter_def split: sum.splits)
  have one: "\<exists>v. has_role_inherited ?g role_name fuel role {}
      = Some (\<exists>q. (parent_role ?g)\<^sup>+\<^sup>+ role q \<and> ro_name q = role_name, v)" if "role \<in> set roles" for role
  proof -
    have "card (dom ?g - {}) < fuel" using assms(3) by simp
    from has_role_inherited_spec [OF assms(1,2) stored [OF that] this, of role_name] obtain b v where
      v: "has_role_inherited ?g role_name fuel role {} = Some (b, v)"
        "b \<longrightarrow> (\<exists>q. (parent_role ?g)\<^sup>+\<^sup>+ role q \<and> ro_name q = role_name)"
        "\<not> b \<longrightarrow> ro_id role \<in> v \<and> closed_from ?g role_name {} v"
      by blast
    have "b \<longleftrightarrow> (\<exists>q. (parent_role ?g)\<^sup>+\<^sup>+ role q \<and> ro_name q = role_name)"
      using v(2,3) closed_from_reach [of ?g role_name v role] stored [OF that] assms(1) by blast
    with v(1) show ?thesis by auto
  qed
  have "seek (\<lambda>role u. if ro_name role = role_name then Some (True, u)
        else map_option (\<lambda>(found, visited). (found, u)) (has_role_inherited ?g role_name fuel role {})) roles' u
      = Some (\<exists>role\<in>set roles'. \<exists>q. (parent_role ?g)\<^sup>*\<^sup>* role q \<and> ro_name q = role_name, u)"
    if "set roles' \<subseteq> set roles" for roles' and u :: unit
    using that
  proof (induction roles')
    case (Cons role roles')
    then obtain v where v: "has_role_inherited ?g role_name fuel role {}
        = Some (\<exists>q. (parent_role ?g)\<^sup>+\<^sup>+ role q \<and> ro_name q = role_name, v)" using one by auto
    have star: "(\<exists>q. (parent_role ?g)\<^sup>*\<^sup>* role q \<and> ro_name q = role_name)
        \<longleftrightarrow> ro_name role = role_name \<or> (\<exists>q. (parent_role ?g)\<^sup>+\<^sup>+ role q \<and> ro_name q = role_name)"
      by (metis rtranclpD rtranclp.rtrancl_refl tranclp_into_rtranclp)
    show ?case
      using Cons star v by (auto split: option.splits bool.splits)
  qed simp
  then show ?thesis using assms(4) by (simp add: has_role_def)
qed

section \<open>What the default roles permit\<close>

lemma user_roles_ran:
  "get_user_roles R now user_id repo = Inr roles \<Longrightarrow> role \<in> set roles \<Longrightarrow> role \<in> ran (rp_get_role R repo)"
  by (auto simp: get_user_roles_def in_map_filter split: sum.splits intro: ranI)

lemma inherited_within_ran:
  assumes "i \<in> inherited_within g n role" "role \<in> ran g"
  shows "\<exists>q\<in>ran g. i \<in> set (ro_permissions q)"
proof -
  obtain k q where kq: "(parent_role g ^^ k) role q" "i \<in> set (ro_permissions q)"
    using assms(1) by (auto simp: inherited_within_def)
  have "q \<in> ran g"
  proof (cases k)
    case 0
    with kq assms(2) show ?thesis by simp
  next
    case (Suc j)
    with kq(1) obtain p where "parent_role g p q" by auto
    then show ?thesis by (auto simp: parent_role_def ran_def)
  qed
  with kq(2) show ?thesis ..
qed

text \<open>The default roles. With the default roles and permissions, no user, whatever default roles are
  assigned to it, the administrator included, has a permission for a named resource and an action
  other than reading: the wildcards in the default permissions are compared as plain text.\<close>

theorem default_roles_only_read:
  assumes "rb_cache m user_id = None" "get_user_roles R now user_id (rb_repo m) = Inr roles"
    and "rp_get_role R (rb_repo m) = map_of (map (\<lambda>role. (ro_id role, role)) (default_roles t1))"
    and "rp_get_permission R (rb_repo m) = map_of (map (\<lambda>perm. (pe_id perm, perm)) (default_permissions t2))"
    and "role_permission_ids R (rb_config m) roles (rb_repo m) \<subseteq> set ks"
    and "resource \<noteq> ''*''" "action \<notin> {''read'', ''*''}"
  shows "snd (has_permission R ks now user_id resource action scope m) = Inr False"
proof -
  let ?g = "rp_get_role R (rb_repo m)"
  have ran: "ran ?g \<subseteq> set (default_roles t1)"
    unfolding assms(3) by (auto simp: ran_def dest!: map_of_SomeD)
  have "\<not> permission_covers resource action scope perm"
    if ids: "i \<in> role_permission_ids R (rb_config m) roles (rb_repo m)"
      and perm: "rp_get_permission R (rb_repo m) i = Some perm" for i perm
  proof -
    obtain role where "role \<in> set roles" "i \<in> inherited_within ?g (levels_of (rb_config m)) role"
      using ids by (auto simp: role_permission_ids_def)
    moreover from this assms(2) have "role \<in> ran ?g" by (blast intro: user_roles_ran)
    ultimately obtain q where "q \<in> set (default_roles t1)" "i \<in> set (ro_permissions q)"
      using inherited_within_ran ran by blast
    then have "i \<in> {''perm-admin-all'', ''perm-inference-read'', ''perm-models-read'', ''perm-inference-all'',
        ''perm-models-all'', ''perm-audit-read''}"
      by (auto simp: default_roles_def system_role_def)
    then have "pe_resource perm = ''*'' \<or> pe_action perm = ''read'' \<or> pe_action perm = ''*''"
      using perm unfolding assms(4) by (auto simp: default_permissions_def mk_permission_def)
    then show ?thesis using assms(6,7) by (auto simp: permission_covers_def)
  qed
  with has_permission_uncached [OF assms(1,2,5), of resource action scope] show ?thesis by auto
qed

section \<open>Witnesses\<close>

text \<open>A repository that keeps roles in a map, with fixed permissions and one assignment for every user.\<close>

definition sample_repository :: "(string \<rightharpoonup> role) rbac_repository" where
  "sample_repository = \<lparr>rp_get_role = (\<lambda>g. g), rp_get_role_by_name = (\<lambda>g name. None),
     rp_create_role = (\<lambda>role g. (g(ro_id role \<mapsto> role), None)), rp_update_role = (\<lambda>role g. (g(ro_id role \<mapsto> role), None)),
     rp_delete_role = (\<lambda>i g. (g(i := None), None)), rp_assign_role = (\<lambda>a g. (g, None)),
     rp_revoke_role = (\<lambda>u i g. (g, None)),
     rp_user_roles = (\<lambda>g u. Inr [\<lparr>ra_user_id = u, ra_role_id = ''role-developer'', ra_granted_by = ''root'',
        ra_granted_at = 0, ra_expires_at = None\<rparr>]),
     rp_get_permission = (\<lambda>g. map_of (map (\<lambda>perm. (pe_id perm, perm)) (default_permissions 0))),
     rp_create_permission = (\<lambda>p g. (g, None))\<rparr>"

definition sample_rbac :: "(string \<rightharpoonup> role) rbac_manager" where
  "sample_rbac = new_rbac_manager None (map_of (map (\<lambda>role. (ro_id role, role)) (default_roles 0)))"

lemma sample_rbac_facts:
  "rb_cache sample_rbac u = None" "rp_get_role sample_repository = (\<lambda>g. g)"
  "rb_repo sample_rbac = map_of (map (\<lambda>role. (ro_id role, role)) (default_roles 0))"
  "rb_config sample_rbac = default_rbac_config"
  by (simp_all add: sample_rbac_def new_rbac_manager_def sample_repository_def)

lemma sample_roles:
  "get_user_roles sample_repository 5 ''ann'' (rb_repo sample_rbac)
    = Inr [system_role 0 ''role-developer'' ''developer'' [''perm-inference-all'', ''perm-models-all''] [''role-user''] False 50]"
  by (simp add: get_user_roles_def sample_repository_def sample_rbac_facts default_roles_def system_role_def
      assignment_expired_def List.map_filter_def)

lemma sample_developer:
  "rb_repo sample_rbac ''role-developer'' = Some (system_role 0 ''role-developer'' ''developer''
     [''perm-inference-all'', ''perm-models-all''] [''role-user''] False 50)"
  by (simp add: sample_rbac_facts default_roles_def system_role_def)

lemma sample_inherited_sub:
  assumes "role \<in> ran (rb_repo sample_rbac)"
  shows "inherited_within (rb_repo sample_rbac) n role \<subseteq> set (map pe_id (default_permissions 0))"
proof
  fix i assume "i \<in> inherited_within (rb_repo sample_rbac) n role"
  from inherited_within_ran [OF this assms] show "i \<in> set (map pe_id (default_permissions 0))"
    by (auto simp: sample_rbac_facts default_roles_def system_role_def default_permissions_def mk_permission_def
        ran_def split: if_splits)
qed

theorem role_hierarchy_acyclic_witness:
  "acyclic_roles (rb_repo (fst (update_role sample_repository 7 (\<lparr>ro_id = ''x'', ro_name = ''x'', ro_permissions = [],
      ro_parents = [''x''], ro_is_system = False, ro_is_default = False, ro_priority = 1, ro_created_at = 0,
      ro_updated_at = 0\<rparr>) (new_rbac_manager None [''x'' \<mapsto> \<lparr>ro_id = ''x'', ro_name = ''x'', ro_permissions = [],
      ro_parents = [], ro_is_system = False, ro_is_default = False, ro_priority = 1, ro_created_at = 0,
      ro_updated_at = 0\<rparr>]))))"
proof -
  let ?role = "\<lambda>ps. \<lparr>ro_id = ''x'', ro_name = ''x'', ro_permissions = [],
      ro_parents = ps, ro_is_system = False, ro_is_default = False, ro_priority = 1, ro_created_at = 0,
      ro_updated_at = 0\<rparr>"
  let ?m = "new_rbac_manager None [''x'' \<mapsto> ?role []]"
  have stores: "stores_roles sample_repository" by (simp add: stores_roles_def sample_repository_def)
  have "parent_edges [''x'' \<mapsto> ?role []] = {}" by (auto simp: parent_edges_def split: if_splits)
  then have acyc: "acyclic_roles (rp_get_role sample_repository (rb_repo ?m))"
    by (simp add: acyclic_roles_def acyclic_def sample_repository_def new_rbac_manager_def)
  have "rbac_step sample_repository ?m (fst (update_role sample_repository 7 (?role [''x'']) ?m))"
    by (rule update [OF prod.collapse [symmetric]])
  from role_hierarchy_acyclic [OF stores acyc _ r_into_rtranclp, OF _ this] show ?thesis
    by (simp add: sample_rbac_facts(2) user_role_kept_def new_rbac_manager_def)
qed

text \<open>
  What the reservation of the ids is for. A client's role with the id \<^verbatim>\<open>role-user\<close> may name a parent that has since been
  deleted; when that is \<^verbatim>\<open>role-developer\<close>, the initialization closes a cycle.
\<close>

lemma sample_initialize:
  "rb_repo (fst (initialize_defaults sample_repository n1 n2 m))
    = fold (\<lambda>role g. if g (ro_id role) = None then g(ro_id role \<mapsto> role) else g) (default_roles n2) (rb_repo m)"
proof -
  have perms: "fold (create_if_missing (\<lambda>repo p. rp_get_permission sample_repository repo (pe_id p) \<noteq> None)
      (rp_create_permission sample_repository)) ps (g, None) = (g, None)" for ps g
    by (induction ps) (simp_all add: create_if_missing_def sample_repository_def)
  have roles: "fold (create_if_missing (\<lambda>repo role. rp_get_role sample_repository repo (ro_id role) \<noteq> None)
      (rp_create_role sample_repository)) rs (g, None)
      = (fold (\<lambda>role g. if g (ro_id role) = None then g(ro_id role \<mapsto> role) else g) rs g, None)" for rs g
    by (induction rs arbitrary: g) (simp_all add: create_if_missing_def sample_repository_def)
  show ?thesis unfolding initialize_defaults_def perms roles by (simp add: with_repo_def)
qed

theorem initialization_makes_cycle:
  "\<exists>m. acyclic_roles (rp_get_role sample_repository (rb_repo m))
    \<and> \<not> acyclic_roles (rp_get_role sample_repository (rb_repo (fst (initialize_defaults sample_repository 1 1 m))))"
proof -
  define mine where "mine = \<lparr>ro_id = ''role-user'', ro_name = ''mine'', ro_permissions = [], ro_parents = [''role-developer''],
    ro_is_system = False, ro_is_default = False, ro_priority = 1, ro_created_at = 0, ro_updated_at = 0\<rparr>"
  define m where "m = new_rbac_manager None [''role-user'' \<mapsto> mine]"
  have repo: "rb_repo m = [''role-user'' \<mapsto> mine]" by (simp add: m_def new_rbac_manager_def)
  have "parent_edges [''role-user'' \<mapsto> mine] = {(''role-user'', ''role-developer'')}"
    by (auto simp: parent_edges_def mine_def split: if_splits)
  then have before: "acyclic_roles (rp_get_role sample_repository (rb_repo m))"
    unfolding acyclic_roles_def sample_rbac_facts(2) repo
    by (simp only: acyclic_insert) (simp add: wf_acyclic)
  let ?g = "rb_repo (fst (initialize_defaults sample_repository 1 1 m))"
  have g: "?g ''role-user'' = Some mine"
    "?g ''role-developer'' = Some (system_role 1 ''role-developer'' ''developer''
       [''perm-inference-all'', ''perm-models-all''] [''role-user''] False 50)"
    unfolding sample_initialize repo by (simp_all add: default_roles_def system_role_def)
  then have "(''role-user'', ''role-developer'') \<in> parent_edges ?g" "(''role-developer'', ''role-user'') \<in> parent_edges ?g"
    by (simp_all add: parent_edges_def mine_def system_role_def)
  then have "(''role-user'', ''role-user'') \<in> (parent_edges ?g)\<^sup>+" by (rule trancl_into_trancl [OF r_into_trancl])
  then have "\<not> acyclic_roles (rp_get_role sample_repository ?g)"
    unfolding acyclic_roles_def acyclic_def sample_rbac_facts(2) by blast
  with before show ?thesis by blast
qed

theorem has_permission_correct_witness:
  "snd (has_permission sample_repository (map pe_id (default_permissions 0)) 5 ''ann'' ''inference'' ''read'' ''own'' sample_rbac)
    = Inr True"
proof -
  let ?a = "\<lparr>ra_user_id = ''ann'', ra_role_id = ''role-developer'', ra_granted_by = ''root'', ra_granted_at = 0,
      ra_expires_at = None\<rparr>"
  let ?dev = "system_role 0 ''role-developer'' ''developer'' [''perm-inference-all'', ''perm-models-all''] [''role-user''] False 50"
  let ?user = "system_role 0 ''role-user'' ''user'' [''perm-inference-read'', ''perm-models-read''] [] True 1"
  let ?perm = "mk_permission 0 ''perm-inference-read'' ''inference.read'' ''inference'' ''read'' ''own''"
  have roles: "rp_user_roles sample_repository (rb_repo sample_rbac) ''ann'' = Inr [?a]"
    by (simp add: sample_repository_def)
  have sub: "\<forall>a\<in>set [?a]. \<forall>role. rp_get_role sample_repository (rb_repo sample_rbac) (ra_role_id a) = Some role \<longrightarrow>
      inherited_within (rp_get_role sample_repository (rb_repo sample_rbac)) (levels_of (rb_config sample_rbac)) role
        \<subseteq> set (map pe_id (default_permissions 0))"
    unfolding sample_rbac_facts(2) using sample_inherited_sub by (auto simp: ran_def)
  have dev: "rb_repo sample_rbac ''role-developer'' = Some ?dev" and user: "rb_repo sample_rbac ''role-user'' = Some ?user"
    by (simp_all add: sample_rbac_facts default_roles_def system_role_def)
  have "parent_role (rb_repo sample_rbac) ?dev ?user"
    unfolding parent_role_def using user by (intro bexI [of _ "''role-user''"]) (simp_all add: system_role_def)
  then have "(parent_role (rb_repo sample_rbac) ^^ 1) ?dev ?user" by (simp only: relpowp_1)
  moreover have "rp_get_permission sample_repository (rb_repo sample_rbac) ''perm-inference-read'' = Some ?perm"
    by (simp add: sample_repository_def default_permissions_def mk_permission_def)
  moreover have "permission_covers ''inference'' ''read'' ''own'' ?perm"
    by (simp add: permission_covers_def mk_permission_def scope_matches_def scope_level_def)
  moreover have "1 < levels_of (rb_config sample_rbac)"
    by (simp add: sample_rbac_facts levels_of_def default_rbac_config_def)
  moreover have "''perm-inference-read'' \<in> set (ro_permissions ?user)" by (simp add: system_role_def)
  moreover have "\<not> assignment_expired 5 ?a" "ra_role_id ?a = ''role-developer''" by (simp_all add: assignment_expired_def)
  ultimately show ?thesis
    unfolding has_permission_correct [OF sample_rbac_facts(1) roles sub] sample_rbac_facts(2)
    using dev by (simp only: list.set simp_thms bex_simps sum.inject) metis
qed

theorem has_role_correct_witness:
  "has_role sample_repository 9 5 ''ann'' ''user'' (rb_repo sample_rbac) = Some (Inr True)"
proof -
  have keyed: "\<forall>i r. rp_get_role sample_repository (rb_repo sample_rbac) i = Some r \<longrightarrow> ro_id r = i"
    by (auto simp: sample_rbac_facts default_roles_def system_role_def split: if_splits)
  have dom: "dom (rp_get_role sample_repository (rb_repo sample_rbac))
      = {''role-admin'', ''role-user'', ''role-developer'', ''role-viewer''}"
    by (auto simp: sample_rbac_facts default_roles_def system_role_def)
  have fin: "finite (dom (rp_get_role sample_repository (rb_repo sample_rbac)))"
    and card: "card (dom (rp_get_role sample_repository (rb_repo sample_rbac))) < 9"
    unfolding dom by simp_all
  have "parent_role (rb_repo sample_rbac) (system_role 0 ''role-developer'' ''developer''
      [''perm-inference-all'', ''perm-models-all''] [''role-user''] False 50)
      (system_role 0 ''role-user'' ''user'' [''perm-inference-read'', ''perm-models-read''] [] True 1)"
    by (simp add: parent_role_def sample_rbac_facts default_roles_def system_role_def)
  then have "\<exists>q. (parent_role (rb_repo sample_rbac))\<^sup>*\<^sup>* (system_role 0 ''role-developer'' ''developer''
      [''perm-inference-all'', ''perm-models-all''] [''role-user''] False 50) q \<and> ro_name q = ''user''"
    by (intro exI conjI, rule r_into_rtranclp) (simp_all add: system_role_def)
  with has_role_correct [OF keyed fin card sample_roles, of "''user''"] show ?thesis
    by (simp add: sample_rbac_facts(2))
qed

theorem default_roles_only_read_witness:
  "snd (has_permission sample_repository (map pe_id (default_permissions 0)) 5 ''ann'' ''inference'' ''write'' ''own'' sample_rbac)
    = Inr False"
proof (rule default_roles_only_read [OF sample_rbac_facts(1) sample_roles, of 0 0])
  show "role_permission_ids sample_repository (rb_config sample_rbac)
      [system_role 0 ''role-developer'' ''developer'' [''perm-inference-all'', ''perm-models-all''] [''role-user''] False 50]
      (rb_repo sample_rbac) \<subseteq> set (map pe_id (default_permissions 0))"
    unfolding role_permission_ids_def sample_rbac_facts(2)
    using sample_inherited_sub ranI [of "rb_repo sample_rbac", OF sample_developer] by simp
qed (simp_all add: sample_repository_def sample_rbac_facts)

end
