(* ===== verification/Sessions.thy ===== *)
theory Sessions
  imports Prelude
begin

text \<open>
  User sessions, \<^verbatim>\<open>auth/session.go\<close>: the store interface with its in-memory implementation, which keeps
  an index from users to their sessions, and the manager above it. The manager's operations take the
  store's operations as an argument, a record of functions, as the code takes the interface; the
  locale \<open>session_backend\<close> states what they rely on. The random session id is an argument (\<open>None\<close> when
  the source of randomness fails), and so are \<^verbatim>\<open>url.QueryUnescape\<close> and the parts of an HTTP request that
  are read. The free-form attributes of a session are left out.
\<close>

section \<open>Sessions\<close>

datatype session_error = ErrSessionNotFound | ErrSessionExpired | ErrSessionInvalid
  | ErrSessionID | ErrCookie | ErrSessionStoreFailed session_error | ErrSessionRefresh session_error

record session =
  se_id :: string
  se_user_id :: string
  se_email :: string
  se_username :: string
  se_roles :: "string list"
  se_permissions :: "string list"
  se_created_at :: time
  se_updated_at :: time
  se_expires_at :: time
  se_last_activity :: time
  se_ip_address :: string
  se_user_agent :: string
  se_is_mfa :: bool
  se_provider :: string

definition is_expired :: "time \<Rightarrow> session \<Rightarrow> bool" where
  "is_expired now s \<longleftrightarrow> se_expires_at s < now"

definition is_inactive :: "time \<Rightarrow> duration \<Rightarrow> session \<Rightarrow> bool" where
  "is_inactive now max_inactive s \<longleftrightarrow> max_inactive < time_sub now (se_last_activity s)"

definition touch :: "time \<Rightarrow> session \<Rightarrow> session" where
  "touch now s = s\<lparr>se_last_activity := now, se_updated_at := now\<rparr>"

definition session_has_role :: "string \<Rightarrow> session \<Rightarrow> bool" where
  "session_has_role role s \<longleftrightarrow> (\<exists>r\<in>set (se_roles s). r = role)"

definition session_has_permission :: "string \<Rightarrow> session \<Rightarrow> bool" where
  "session_has_permission permission s \<longleftrightarrow> (\<exists>p\<in>set (se_permissions s). p = permission)"

datatype same_site = SameSiteDefault | SameSiteLax | SameSiteStrict | SameSiteNone

record session_config =
  sn_cookie_name :: string
  sn_cookie_domain :: string
  sn_cookie_path :: string
  sn_cookie_secure :: bool
  sn_cookie_http_only :: bool
  sn_cookie_same_site :: same_site
  sn_session_duration :: duration
  sn_max_inactive_duration :: duration
  sn_refresh_threshold :: duration
  sn_enable_session_binding :: bool

definition default_session_config :: session_config where
  "default_session_config =
     \<lparr>sn_cookie_name = ''session_id'', sn_cookie_domain = [], sn_cookie_path = ''/'', sn_cookie_secure = True,
      sn_cookie_http_only = True, sn_cookie_same_site = SameSiteLax,
      sn_session_duration = 24 * 3600 * second, sn_max_inactive_duration = 30 * 60 * second,
      sn_refresh_threshold = 3600 * second, sn_enable_session_binding = True\<rparr>"

section \<open>The in-memory store\<close>

record memory_session_store =
  ms_sessions :: "string \<rightharpoonup> session"
  ms_by_user :: "string \<rightharpoonup> string set"

definition new_session_store :: memory_session_store where
  "new_session_store = \<lparr>ms_sessions = Map.empty, ms_by_user = Map.empty\<rparr>"

definition ms_get :: "time \<Rightarrow> string \<Rightarrow> memory_session_store \<Rightarrow> session_error + session" where
  "ms_get now sid s =
     (case ms_sessions s sid of
        None \<Rightarrow> Inl ErrSessionNotFound
      | Some x \<Rightarrow> if is_expired now x then Inl ErrSessionExpired else Inr x)"

definition ms_set :: "session \<Rightarrow> memory_session_store \<Rightarrow> memory_session_store" where
  "ms_set x s =
     (let ids = (case ms_by_user s (se_user_id x) of None \<Rightarrow> {} | Some ids \<Rightarrow> ids)
      in s\<lparr>ms_sessions := (ms_sessions s)(se_id x \<mapsto> x),
           ms_by_user := (ms_by_user s)(se_user_id x \<mapsto> insert (se_id x) ids)\<rparr>)"

definition unindex :: "string \<Rightarrow> string \<Rightarrow> (string \<rightharpoonup> string set) \<Rightarrow> (string \<rightharpoonup> string set)" where
  "unindex user sid index =
     (case index user of
        None \<Rightarrow> index
      | Some ids \<Rightarrow> if ids - {sid} = {} then index(user := None) else index(user \<mapsto> ids - {sid}))"

definition ms_delete :: "string \<Rightarrow> memory_session_store \<Rightarrow> memory_session_store" where
  "ms_delete sid s =
     (case ms_sessions s sid of
        None \<Rightarrow> s
      | Some x \<Rightarrow> s\<lparr>ms_sessions := (ms_sessions s)(sid := None),
                    ms_by_user := unindex (se_user_id x) sid (ms_by_user s)\<rparr>)"

definition ms_delete_by_user :: "string \<Rightarrow> memory_session_store \<Rightarrow> memory_session_store" where
  "ms_delete_by_user user s =
     (case ms_by_user s user of
        None \<Rightarrow> s
      | Some ids \<Rightarrow> s\<lparr>ms_sessions := (\<lambda>sid. if sid \<in> ids then None else ms_sessions s sid),
                      ms_by_user := (ms_by_user s)(user := None)\<rparr>)"

definition ms_exists :: "time \<Rightarrow> string \<Rightarrow> memory_session_store \<Rightarrow> bool" where
  "ms_exists now sid s = (case ms_sessions s sid of None \<Rightarrow> False | Some x \<Rightarrow> \<not> is_expired now x)"

definition ms_count :: "string list \<Rightarrow> time \<Rightarrow> memory_session_store \<Rightarrow> int" where
  "ms_count ks now s = int (length (filter (\<lambda>(sid, x). \<not> is_expired now x) (visit ks (ms_sessions s))))"

text \<open>\<^verbatim>\<open>Cleanup\<close> ranges over the sessions in the order \<open>ks\<close> and deletes the expired ones on the way.\<close>

fun cleanup_loop :: "time \<Rightarrow> string list \<Rightarrow> memory_session_store \<Rightarrow> memory_session_store" where
  "cleanup_loop now [] s = s"
| "cleanup_loop now (sid # ks) s = cleanup_loop now ks
     (case ms_sessions s sid of
        None \<Rightarrow> s
      | Some x \<Rightarrow> if se_expires_at x < now
          then s\<lparr>ms_sessions := (ms_sessions s)(sid := None),
                 ms_by_user := unindex (se_user_id x) sid (ms_by_user s)\<rparr>
          else s)"

definition ms_cleanup :: "string list \<Rightarrow> time \<Rightarrow> memory_session_store \<Rightarrow> memory_session_store" where
  "ms_cleanup ks now s = cleanup_loop now ks s"

section \<open>The manager\<close>

record 's session_store_ops =
  so_get :: "time \<Rightarrow> string \<Rightarrow> 's \<Rightarrow> session_error + session"
  so_set :: "session \<Rightarrow> 's \<Rightarrow> 's \<times> session_error option"
  so_delete :: "string \<Rightarrow> 's \<Rightarrow> 's \<times> session_error option"
  so_delete_by_user :: "string \<Rightarrow> 's \<Rightarrow> 's \<times> session_error option"
  so_cleanup :: "string list \<Rightarrow> time \<Rightarrow> 's \<Rightarrow> 's \<times> session_error option"

definition memory_ops :: "memory_session_store session_store_ops" where
  "memory_ops = \<lparr>so_get = ms_get, so_set = (\<lambda>x s. (ms_set x s, None)), so_delete = (\<lambda>sid s. (ms_delete sid s, None)),
     so_delete_by_user = (\<lambda>user s. (ms_delete_by_user user s, None)),
     so_cleanup = (\<lambda>ks now s. (ms_cleanup ks now s, None))\<rparr>"

definition create_session :: "'s session_store_ops \<Rightarrow> session_config \<Rightarrow> time \<Rightarrow> string option \<Rightarrow> string \<Rightarrow> string
    \<Rightarrow> string \<Rightarrow> (session \<Rightarrow> session) list \<Rightarrow> 's \<Rightarrow> 's \<times> (session_error + session)" where
  "create_session st config now sid user_id email username opts s =
     (case sid of
        None \<Rightarrow> (s, Inl ErrSessionID)
      | Some sid \<Rightarrow>
          let x = \<lparr>se_id = sid, se_user_id = user_id, se_email = email, se_username = username, se_roles = [],
                se_permissions = [], se_created_at = now, se_updated_at = now,
                se_expires_at = now + sn_session_duration config, se_last_activity = now, se_ip_address = [],
                se_user_agent = [], se_is_mfa = False, se_provider = ''local''\<rparr>;
              x = fold (\<lambda>opt x. opt x) opts x
          in case so_set st x s of
               (s, Some e) \<Rightarrow> (s, Inl (ErrSessionStoreFailed e))
             | (s, None) \<Rightarrow> (s, Inr x))"

definition get_session :: "'s session_store_ops \<Rightarrow> session_config \<Rightarrow> time \<Rightarrow> string \<Rightarrow> 's
    \<Rightarrow> 's \<times> (session_error + session)" where
  "get_session st config now sid s =
     (case so_get st now sid s of
        Inl e \<Rightarrow> (s, Inl e)
      | Inr x \<Rightarrow>
          if is_expired now x then (fst (so_delete st sid s), Inl ErrSessionExpired)
          else if 0 < sn_max_inactive_duration config \<and> is_inactive now (sn_max_inactive_duration config) x
          then (fst (so_delete st sid s), Inl ErrSessionExpired)
          else (s, Inr x))"

definition validate_session :: "'s session_store_ops \<Rightarrow> session_config \<Rightarrow> time \<Rightarrow> string \<Rightarrow> 's
    \<Rightarrow> 's \<times> (session_error + session)" where
  "validate_session st config now sid s =
     (case get_session st config now sid s of
        (s, Inl e) \<Rightarrow> (s, Inl e)
      | (s, Inr x) \<Rightarrow>
          let x = touch now x;
              x = (if time_sub (se_expires_at x) now < sn_refresh_threshold config
                   then x\<lparr>se_expires_at := now + sn_session_duration config\<rparr> else x)
          in case so_set st x s of
               (s, Some e) \<Rightarrow> (s, Inl (ErrSessionRefresh e))
             | (s, None) \<Rightarrow> (s, Inr x))"

definition destroy_session :: "'s session_store_ops \<Rightarrow> string \<Rightarrow> 's \<Rightarrow> 's \<times> session_error option" where
  "destroy_session st sid = so_delete st sid"

definition destroy_user_sessions :: "'s session_store_ops \<Rightarrow> string \<Rightarrow> 's \<Rightarrow> 's \<times> session_error option" where
  "destroy_user_sessions st user_id = so_delete_by_user st user_id"

definition update_session :: "'s session_store_ops \<Rightarrow> time \<Rightarrow> session \<Rightarrow> 's \<Rightarrow> 's \<times> session_error option" where
  "update_session st now x = so_set st (x\<lparr>se_updated_at := now\<rparr>)"

text \<open>Options of \<^verbatim>\<open>CreateSession\<close>.\<close>

definition with_roles :: "string list \<Rightarrow> session \<Rightarrow> session" where
  "with_roles roles x = x\<lparr>se_roles := roles\<rparr>"

definition with_permissions :: "string list \<Rightarrow> session \<Rightarrow> session" where
  "with_permissions permissions x = x\<lparr>se_permissions := permissions\<rparr>"

definition with_provider :: "string \<Rightarrow> session \<Rightarrow> session" where
  "with_provider provider x = x\<lparr>se_provider := provider\<rparr>"

definition with_mfa :: "bool \<Rightarrow> session \<Rightarrow> session" where
  "with_mfa enabled x = x\<lparr>se_is_mfa := enabled\<rparr>"

definition with_expiration :: "time \<Rightarrow> session \<Rightarrow> session" where
  "with_expiration expires x = x\<lparr>se_expires_at := expires\<rparr>"

section \<open>Requests and cookies\<close>

definition is_blank :: "char \<Rightarrow> bool" where
  "is_blank c \<longleftrightarrow> c = CHR '' '' \<or> c = CHR 0x09"

text \<open>\<^verbatim>\<open>trimSpace\<close> moves two indices inwards past blanks.\<close>

definition trim_space :: "string \<Rightarrow> string" where
  "trim_space s = rev (dropWhile is_blank (rev (dropWhile is_blank s)))"

text \<open>The loop of \<^verbatim>\<open>splitIPs\<close> at index \<open>i\<close> with the start of the current piece and the list so far.\<close>

definition append_ip :: "string \<Rightarrow> string list \<Rightarrow> string list" where
  "append_ip piece ips = (let ip = trim_space piece in if ip \<noteq> [] then ips @ [ip] else ips)"

function split_loop :: "string \<Rightarrow> nat \<Rightarrow> nat \<Rightarrow> string list \<Rightarrow> nat \<times> string list" where
  "split_loop s i start ips =
     (if length s \<le> i then (start, ips)
      else if s ! i = CHR '','' then split_loop s (i + 1) (i + 1) (append_ip (take (i - start) (drop start s)) ips)
      else split_loop s (i + 1) start ips)"
  by pat_completeness auto
termination
  by (relation "measure (\<lambda>(s, i, start, ips). length s - i)") auto

declare split_loop.simps [simp del]

definition split_ips :: "string \<Rightarrow> string list" where
  "split_ips s = (case split_loop s 0 0 [] of
     (start, ips) \<Rightarrow> if start < length s then append_ip (drop start s) ips else ips)"

record http_request =
  hr_forwarded_for :: string
  hr_real_ip :: string
  hr_remote_addr :: string
  hr_user_agent :: string
  hr_cookie :: "string \<Rightarrow> string option"

definition get_client_ip :: "http_request \<Rightarrow> string" where
  "get_client_ip r =
     (let ips = (if hr_forwarded_for r \<noteq> [] then split_ips (hr_forwarded_for r) else [])
      in if ips \<noteq> [] then ips ! 0
         else if hr_real_ip r \<noteq> [] then hr_real_ip r
         else hr_remote_addr r)"

definition with_request_info :: "http_request \<Rightarrow> session \<Rightarrow> session" where
  "with_request_info r x = x\<lparr>se_ip_address := get_client_ip r, se_user_agent := hr_user_agent r\<rparr>"

definition session_id_from_request :: "(string \<Rightarrow> string option) \<Rightarrow> session_config \<Rightarrow> http_request
    \<Rightarrow> session_error + string" where
  "session_id_from_request unescape config r =
     (case hr_cookie r (sn_cookie_name config) of
        None \<Rightarrow> Inl ErrSessionNotFound
      | Some value \<Rightarrow> (case unescape value of None \<Rightarrow> Inl ErrSessionInvalid | Some sid \<Rightarrow> Inr sid))"

definition session_from_request :: "'s session_store_ops \<Rightarrow> (string \<Rightarrow> string option) \<Rightarrow> session_config \<Rightarrow> time
    \<Rightarrow> http_request \<Rightarrow> 's \<Rightarrow> 's \<times> (session_error + session)" where
  "session_from_request st unescape config now r s =
     (case session_id_from_request unescape config r of
        Inl e \<Rightarrow> (s, Inl e)
      | Inr sid \<Rightarrow>
          (case get_session st config now sid s of
             (s, Inl e) \<Rightarrow> (s, Inl e)
           | (s, Inr x) \<Rightarrow>
               if sn_enable_session_binding config \<and> se_ip_address x \<noteq> [] \<and> se_ip_address x \<noteq> get_client_ip r
               then (s, Inl ErrSessionInvalid) else (s, Inr x)))"

record cookie =
  ck_name :: string
  ck_value :: string
  ck_domain :: string
  ck_path :: string
  ck_secure :: bool
  ck_http_only :: bool
  ck_same_site :: same_site
  ck_expires :: "time option"
  ck_max_age :: int

definition session_cookie :: "session_config \<Rightarrow> string \<Rightarrow> time option \<Rightarrow> int \<Rightarrow> cookie" where
  "session_cookie config value expires max_age =
     \<lparr>ck_name = sn_cookie_name config, ck_value = value, ck_domain = sn_cookie_domain config,
      ck_path = sn_cookie_path config, ck_secure = sn_cookie_secure config,
      ck_http_only = sn_cookie_http_only config, ck_same_site = sn_cookie_same_site config,
      ck_expires = expires, ck_max_age = max_age\<rparr>"

definition set_session_cookie :: "session_config \<Rightarrow> time \<Rightarrow> string \<Rightarrow> cookie" where
  "set_session_cookie config now sid = session_cookie config sid (Some (now + sn_session_duration config)) 0"

definition clear_session_cookie :: "session_config \<Rightarrow> cookie" where
  "clear_session_cookie config = session_cookie config [] None (- 1)"

section \<open>What the manager relies on\<close>

text \<open>
  \<open>sessions\<close> is the content of a store as a map, \<open>good\<close> its invariant. A failing operation leaves
  the content alone; deleting by user removes at least that user's sessions and adds none.
\<close>

locale session_backend =
  fixes st :: "'s session_store_ops" and sessions :: "'s \<Rightarrow> string \<rightharpoonup> session" and good :: "'s \<Rightarrow> bool"
  assumes keyed: "good s \<Longrightarrow> sessions s sid = Some x \<Longrightarrow> se_id x = sid"
    and lookup: "good s \<Longrightarrow> so_get st now sid s = (case sessions s sid of
        None \<Rightarrow> Inl ErrSessionNotFound | Some x \<Rightarrow> if is_expired now x then Inl ErrSessionExpired else Inr x)"
    and store: "good s \<Longrightarrow> so_set st x s = (s', err) \<Longrightarrow> good s'
        \<and> sessions s' = (if err = None then (sessions s)(se_id x \<mapsto> x) else sessions s)"
    and remove: "good s \<Longrightarrow> so_delete st sid s = (s', err) \<Longrightarrow> good s'
        \<and> sessions s' = (if err = None then (sessions s)(sid := None) else sessions s)"
    and remove_user: "good s \<Longrightarrow> so_delete_by_user st user s = (s', err) \<Longrightarrow> good s'
        \<and> sessions s' \<subseteq>\<^sub>m sessions s \<and> (err = None \<longrightarrow> (\<forall>x\<in>ran (sessions s'). se_user_id x \<noteq> user))"
    and purge: "good s \<Longrightarrow> so_cleanup st ks now s = (s', err) \<Longrightarrow> good s' \<and> sessions s' \<subseteq>\<^sub>m sessions s"
begin

lemma got_session:
  assumes "good s" "get_session st config now sid s = (s', Inr x)"
  shows "s' = s \<and> sessions s sid = Some x \<and> se_id x = sid \<and> \<not> is_expired now x
    \<and> \<not> (0 < sn_max_inactive_duration config \<and> is_inactive now (sn_max_inactive_duration config) x)"
  using assms keyed [OF assms(1), of sid]
  by (auto simp: get_session_def lookup split: option.splits if_splits)

lemma gets_session:
  assumes "good s" "sessions s sid = Some x" "\<not> is_expired now x"
    and "\<not> (0 < sn_max_inactive_duration config \<and> is_inactive now (sn_max_inactive_duration config) x)"
  shows "get_session st config now sid s = (s, Inr x)"
  using assms by (auto simp: get_session_def lookup)

lemma get_session_good: "good s \<Longrightarrow> get_session st config now sid s = (s', r) \<Longrightarrow> good s'"
  using remove [of s sid "fst (so_delete st sid s)" "snd (so_delete st sid s)"]
  by (auto simp: get_session_def split: sum.splits if_splits)

lemma create_session_good: "good s \<Longrightarrow> create_session st config now sid u e n opts s = (s', r) \<Longrightarrow> good s'"
  by (auto simp: create_session_def Let_def split: option.splits prod.splits dest: store)

lemma validate_session_good: "good s \<Longrightarrow> validate_session st config now sid s = (s', r) \<Longrightarrow> good s'"
proof -
  assume good: "good s" and v: "validate_session st config now sid s = (s', r)"
  obtain s1 r1 where g: "get_session st config now sid s = (s1, r1)" by fastforce
  with good have "good s1" by (rule get_session_good)
  moreover from this have "good (fst (so_set st x s1))" for x
    using store [of s1 x "fst (so_set st x s1)" "snd (so_set st x s1)"] by simp
  ultimately show ?thesis using v g
    by (auto simp: validate_session_def Let_def split: sum.splits prod.splits option.splits dest: fstI)
qed

lemma created_session:
  assumes "good s" "create_session st config now (Some sid) user email name [] s = (s', Inr x)"
  shows "good s' \<and> sessions s' sid = Some x \<and> se_id x = sid \<and> se_user_id x = user
    \<and> se_last_activity x = now \<and> se_expires_at x = now + sn_session_duration config"
proof -
  have "so_set st x s = (s', None) \<and> se_id x = sid \<and> se_user_id x = user
      \<and> se_last_activity x = now \<and> se_expires_at x = now + sn_session_duration config"
  proof -
    define x0 where "x0 = \<lparr>se_id = sid, se_user_id = user, se_email = email, se_username = name, se_roles = [],
        se_permissions = [], se_created_at = now, se_updated_at = now,
        se_expires_at = now + sn_session_duration config, se_last_activity = now, se_ip_address = [],
        se_user_agent = [], se_is_mfa = False, se_provider = ''local''\<rparr>"
    obtain s1 e where set: "so_set st x0 s = (s1, e)" by fastforce
    with assms(2) have "e = None" "s1 = s'" "x = x0"
      by (cases e; simp add: create_session_def x0_def [symmetric])+
    with set show ?thesis by (simp add: x0_def)
  qed
  moreover from this have "good s' \<and> sessions s' = (sessions s)(se_id x \<mapsto> x)"
    using store [OF assms(1), of x s' None] by simp
  ultimately show ?thesis by simp
qed

end

section \<open>The in-memory store provides it\<close>

text \<open>Every session is stored under its id, and the index knows it under its user.\<close>

definition indexed_user :: "(string \<rightharpoonup> string set) \<Rightarrow> string \<Rightarrow> string \<Rightarrow> bool" where
  "indexed_user index user sid = (case index user of None \<Rightarrow> False | Some ids \<Rightarrow> sid \<in> ids)"

definition ms_good :: "memory_session_store \<Rightarrow> bool" where
  "ms_good s \<longleftrightarrow> (\<forall>sid x. ms_sessions s sid = Some x \<longrightarrow> se_id x = sid \<and> indexed_user (ms_by_user s) (se_user_id x) sid)"

lemma indexed_unindex:
  "sid' \<noteq> sid \<Longrightarrow> indexed_user (unindex user sid index) u sid' = indexed_user index u sid'"
  by (auto simp: indexed_user_def unindex_def split: option.splits)

lemma indexed_insert:
  "indexed_user (index(user \<mapsto> insert sid (case index user of None \<Rightarrow> {} | Some ids \<Rightarrow> ids))) u i
    \<longleftrightarrow> (u = user \<and> i = sid) \<or> indexed_user index u i"
  by (auto simp: indexed_user_def split: option.splits)

lemma ms_good_set: "ms_good s \<Longrightarrow> ms_good (ms_set x s)"
  unfolding ms_good_def ms_set_def Let_def by (auto simp: indexed_insert simp del: fun_upd_apply)
    (auto split: if_splits)

lemma ms_sessions_delete: "ms_sessions (ms_delete sid s) = (ms_sessions s)(sid := None)"
  by (auto simp: ms_delete_def split: option.splits)

lemma ms_good_drop:
  "ms_good s \<Longrightarrow> ms_good (s\<lparr>ms_sessions := (ms_sessions s)(sid := None), ms_by_user := unindex user sid (ms_by_user s)\<rparr>)"
  by (simp add: ms_good_def indexed_unindex)

lemma ms_good_delete: "ms_good s \<Longrightarrow> ms_good (ms_delete sid s)"
  unfolding ms_delete_def by (cases "ms_sessions s sid") (simp_all only: option.case ms_good_drop)

lemma ms_good_delete_by_user:
  "ms_good s \<Longrightarrow> ms_good (ms_delete_by_user user s)
    \<and> (\<forall>x\<in>ran (ms_sessions (ms_delete_by_user user s)). se_user_id x \<noteq> user)"
  by (fastforce simp: ms_good_def ms_delete_by_user_def indexed_user_def ran_def split: option.splits if_splits)

lemma cleanup_loop_good:
  "ms_good s \<Longrightarrow> ms_good (cleanup_loop now ks s) \<and> ms_sessions (cleanup_loop now ks s) \<subseteq>\<^sub>m ms_sessions s"
proof (induction ks arbitrary: s)
  case (Cons sid ks)
  define s1 where "s1 = (case ms_sessions s sid of None \<Rightarrow> s
    | Some x \<Rightarrow> if se_expires_at x < now
        then s\<lparr>ms_sessions := (ms_sessions s)(sid := None), ms_by_user := unindex (se_user_id x) sid (ms_by_user s)\<rparr>
        else s)"
  have "ms_good s1" unfolding s1_def using Cons.prems ms_good_drop by (auto split: option.splits)
  moreover have "ms_sessions s1 \<subseteq>\<^sub>m ms_sessions s"
    by (auto simp: s1_def map_le_def split: option.splits)
  ultimately show ?case using Cons.IH [of s1] unfolding cleanup_loop.simps s1_def [symmetric]
    by (blast intro: map_le_trans)
qed simp

interpretation mem: session_backend memory_ops ms_sessions ms_good
proof unfold_locales
  fix s s' :: memory_session_store and x sid user ks now err
  assume good: "ms_good s"
  show "so_set memory_ops x s = (s', err) \<Longrightarrow> ms_good s'
      \<and> ms_sessions s' = (if err = None then (ms_sessions s)(se_id x \<mapsto> x) else ms_sessions s)"
    using ms_good_set [OF good] by (auto simp: memory_ops_def ms_set_def Let_def)
  show "so_delete memory_ops sid s = (s', err) \<Longrightarrow> ms_good s'
      \<and> ms_sessions s' = (if err = None then (ms_sessions s)(sid := None) else ms_sessions s)"
    using ms_good_delete [OF good, of sid] by (auto simp: memory_ops_def ms_sessions_delete)
  show "so_delete_by_user memory_ops user s = (s', err) \<Longrightarrow> ms_good s' \<and> ms_sessions s' \<subseteq>\<^sub>m ms_sessions s
      \<and> (err = None \<longrightarrow> (\<forall>x\<in>ran (ms_sessions s'). se_user_id x \<noteq> user))"
    using ms_good_delete_by_user [OF good]
    by (auto simp: memory_ops_def map_le_def) (auto simp: ms_delete_by_user_def split: option.splits if_splits)
  show "so_cleanup memory_ops ks now s = (s', err) \<Longrightarrow> ms_good s' \<and> ms_sessions s' \<subseteq>\<^sub>m ms_sessions s"
    using cleanup_loop_good [OF good] by (auto simp: memory_ops_def ms_cleanup_def)
qed (auto simp: memory_ops_def ms_get_def ms_good_def split: option.splits)

section \<open>Runs of the manager\<close>

inductive session_step :: "'s session_store_ops \<Rightarrow> session_config \<Rightarrow> 's \<Rightarrow> 's \<Rightarrow> bool" for st config where
  create: "create_session st config now sid user_id email name opts s = (s', r) \<Longrightarrow> session_step st config s s'"
| get: "get_session st config now sid s = (s', r) \<Longrightarrow> session_step st config s s'"
| validate: "validate_session st config now sid s = (s', r) \<Longrightarrow> session_step st config s s'"
| destroy: "destroy_session st sid s = (s', err) \<Longrightarrow> session_step st config s s'"
| destroy_user: "destroy_user_sessions st user s = (s', err) \<Longrightarrow> session_step st config s s'"
| update: "update_session st now x s = (s', err) \<Longrightarrow> session_step st config s s'"
| clean: "so_cleanup st ks now s = (s', err) \<Longrightarrow> session_step st config s s'"

context session_backend
begin

lemma step_good: "session_step st config s s' \<Longrightarrow> good s \<Longrightarrow> good s'"
  by (induction rule: session_step.induct)
    (auto simp: destroy_session_def destroy_user_sessions_def update_session_def
      dest: create_session_good get_session_good validate_session_good store remove remove_user purge)

lemma run_good: "(session_step st config)\<^sup>*\<^sup>* s s' \<Longrightarrow> good s \<Longrightarrow> good s'"
  by (induction rule: rtranclp_induct) (auto intro: step_good)

lemma destroyed_user:
  assumes "good s" "destroy_user_sessions st user s = (s', None)" "get_session st config now sid s' = (s'', Inr x)"
  shows "se_user_id x \<noteq> user"
proof -
  have r: "good s'" "\<forall>x\<in>ran (sessions s'). se_user_id x \<noteq> user"
    using remove_user [OF assms(1), of user s' None] assms(2) by (auto simp: destroy_user_sessions_def)
  from got_session [OF r(1) assms(3)] have "x \<in> ran (sessions s')" by (auto intro: ranI)
  with r(2) show ?thesis by blast
qed

end

lemma new_store_good: "ms_good new_session_store"
  by (simp add: ms_good_def new_session_store_def)

text \<open>C19: sessions end. In every state the manager reaches over a new in-memory store, a session that
  \<^verbatim>\<open>GetSession\<close> returns is the one stored under the given id, has not expired and, where a limit is
  configured, has not been idle for longer than it; and once \<^verbatim>\<open>DestroyUserSessions\<close> has run for a user,
  no session of that user is returned.\<close>

theorem sessions_end:
  assumes "(session_step memory_ops config)\<^sup>*\<^sup>* new_session_store s"
  shows "(case get_session memory_ops config now sid s of
        (s', Inl e) \<Rightarrow> True
      | (s', Inr x) \<Rightarrow> s' = s \<and> ms_sessions s sid = Some x \<and> se_id x = sid \<and> now \<le> se_expires_at x
          \<and> (sn_max_inactive_duration config \<le> 0 \<or> \<not> is_inactive now (sn_max_inactive_duration config) x))
    \<and> (case get_session memory_ops config now sid (fst (destroy_user_sessions memory_ops user s)) of
        (s', Inl e) \<Rightarrow> True | (s', Inr x) \<Rightarrow> se_user_id x \<noteq> user)"
proof -
  have good: "ms_good s" using assms new_store_good by (rule mem.run_good)
  have "destroy_user_sessions memory_ops user s = (fst (destroy_user_sessions memory_ops user s), None)"
    by (simp add: destroy_user_sessions_def memory_ops_def)
  from mem.destroyed_user [OF good this] mem.got_session [OF good] show ?thesis
    by (auto simp: is_expired_def not_less split: prod.splits sum.splits)
qed

context session_backend
begin

lemma create_then_validate:
  assumes "good s" "create_session st config now (Some sid) user email name [] s = (s1, Inr x)"
    and "now \<le> later" "later \<le> now + sn_session_duration config"
    and "0 < sn_max_inactive_duration config" "sn_max_inactive_duration config < 2 ^ 63 - 1"
    and "later - now \<le> sn_max_inactive_duration config"
    and "validate_session st config later sid s1 = (s2, r)" "\<forall>x s. snd (so_set st x s) = None"
  shows "\<exists>y. r = Inr y \<and> sessions s2 sid = Some y \<and> se_user_id y = user \<and> se_last_activity y = later
    \<and> se_expires_at y = (if time_sub (now + sn_session_duration config) later < sn_refresh_threshold config
        then later + sn_session_duration config else now + sn_session_duration config)"
proof -
  have c: "good s1" "sessions s1 sid = Some x" "se_id x = sid" "se_user_id x = user"
      "se_last_activity x = now" "se_expires_at x = now + sn_session_duration config"
    using created_session [OF assms(1,2)] by auto
  define y where "y = (let x = touch later x in if time_sub (se_expires_at x) later < sn_refresh_threshold config
      then x\<lparr>se_expires_at := later + sn_session_duration config\<rparr> else x)"
  have "\<not> is_inactive later (sn_max_inactive_duration config) x"
    using assms(5-7) c(5) time_sub_gt_iff [of "sn_max_inactive_duration config" later now]
    by (simp add: is_inactive_def)
  with c(2,6) assms(4) have "get_session st config later sid s1 = (s1, Inr x)"
    by (intro gets_session c(1)) (simp_all add: is_expired_def)
  moreover obtain s3 where set: "so_set st y s1 = (s3, None)" using assms(9) by (metis prod.collapse)
  ultimately have "s2 = s3" "r = Inr y" using assms(8) by (simp_all add: validate_session_def y_def Let_def)
  moreover have "sessions s3 = (sessions s1)(se_id y \<mapsto> y)" using store [OF c(1) set] by simp
  moreover have "se_id y = sid" "se_user_id y = user" "se_last_activity y = later"
    "se_expires_at y = (if time_sub (now + sn_session_duration config) later < sn_refresh_threshold config
        then later + sn_session_duration config else now + sn_session_duration config)"
    using c by (simp_all add: y_def Let_def touch_def)
  ultimately show ?thesis by simp
qed

end

text \<open>C20: a session lives on while it is used. After \<^verbatim>\<open>CreateSession\<close> in any reachable state, validating the
  session before it expires and within the permitted idle time returns it, for its user, with the
  activity time set to now; its expiry is moved to a full session length from now if less than the
  refresh threshold is left, and kept otherwise.\<close>

theorem session_stays_alive:
  assumes "(session_step memory_ops config)\<^sup>*\<^sup>* new_session_store s"
    and "create_session memory_ops config now (Some sid) user email name [] s = (s1, Inr x)"
    and "now \<le> later" "later \<le> now + sn_session_duration config"
    and "0 < sn_max_inactive_duration config" "sn_max_inactive_duration config < 2 ^ 63 - 1"
    and "later - now \<le> sn_max_inactive_duration config"
  shows "\<exists>s2 y. validate_session memory_ops config later sid s1 = (s2, Inr y) \<and> ms_sessions s2 sid = Some y
    \<and> se_user_id y = user \<and> se_last_activity y = later
    \<and> se_expires_at y = (if time_sub (now + sn_session_duration config) later < sn_refresh_threshold config
        then later + sn_session_duration config else now + sn_session_duration config)"
proof -
  have good: "ms_good s" using assms(1) new_store_good by (rule mem.run_good)
  obtain s2 r where v: "validate_session memory_ops config later sid s1 = (s2, r)" by fastforce
  have "\<forall>x s. snd (so_set memory_ops x s) = None" by (simp add: memory_ops_def)
  from mem.create_then_validate [OF good assms(2-7) v this] v show ?thesis by auto
qed

section \<open>Splitting the forwarded addresses\<close>

fun split_on :: "'a \<Rightarrow> 'a list \<Rightarrow> 'a list list" where
  "split_on c [] = [[]]"
| "split_on c (x # xs) = (if x = c then [] # split_on c xs
     else (case split_on c xs of [] \<Rightarrow> [[x]] | p # ps \<Rightarrow> (x # p) # ps))"

lemma split_on_nonempty: "split_on c xs \<noteq> []"
  by (cases xs) (auto split: list.splits)

lemma split_on_append: "c \<notin> set p \<Longrightarrow> split_on c (p @ c # xs) = p # split_on c xs"
  by (induction p) auto

lemma split_on_last: "c \<notin> set p \<Longrightarrow> split_on c p = [p]"
  by (induction p) auto

definition kept_pieces :: "string \<Rightarrow> string list" where
  "kept_pieces s = filter (\<lambda>p. p \<noteq> []) (map trim_space (split_on (CHR '','') s))"

lemma kept_pieces_append:
  "CHR '','' \<notin> set p \<Longrightarrow> kept_pieces (p @ CHR '','' # q) = filter (\<lambda>p. p \<noteq> []) [trim_space p] @ kept_pieces q"
  by (simp add: kept_pieces_def split_on_append)

lemma append_ip_spec: "append_ip p ips = ips @ filter (\<lambda>p. p \<noteq> []) [trim_space p]"
  by (simp add: append_ip_def Let_def)

lemma split_loop_spec:
  "start \<le> i \<Longrightarrow> i \<le> length s \<Longrightarrow> CHR '','' \<notin> set (take (i - start) (drop start s)) \<Longrightarrow>
    (case split_loop s i start ips of (start, ips) \<Rightarrow>
       if start < length s then append_ip (drop start s) ips else ips) = ips @ kept_pieces (drop start s)"
proof (induction s i start ips rule: split_loop.induct)
  case (1 s i start ips)
  show ?case
  proof (cases "length s \<le> i")
    case True
    with 1(4) 1(5) have "CHR '','' \<notin> set (drop start s)" by simp
    then have "kept_pieces (drop start s) = filter (\<lambda>p. p \<noteq> []) [trim_space (drop start s)]"
      by (simp add: kept_pieces_def split_on_last)
    moreover have "trim_space [] = []" by (simp add: trim_space_def)
    ultimately show ?thesis using True
      by (auto simp: split_loop.simps [of s i] append_ip_spec)
  next
    case False
    have step: "take (i + 1 - start) (drop start s) = take (i - start) (drop start s) @ [s ! i]"
      using False 1(3) by (simp add: Suc_diff_le take_Suc_conv_app_nth)
    show ?thesis
    proof (cases "s ! i = CHR '',''")
      case True
      have "drop start s = take (i - start) (drop start s) @ drop (i - start) (drop start s)"
        by (simp only: append_take_drop_id)
      also have "drop (i - start) (drop start s) = s ! i # drop (i + 1) s"
        using False 1(3) by (simp add: Cons_nth_drop_Suc)
      finally have "drop start s = take (i - start) (drop start s) @ CHR '','' # drop (i + 1) s"
        using True by simp
      then have "kept_pieces (drop start s)
          = filter (\<lambda>p. p \<noteq> []) [trim_space (take (i - start) (drop start s))] @ kept_pieces (drop (i + 1) s)"
        using kept_pieces_append [OF 1(5), of "drop (i + 1) s"] arg_cong [of _ _ kept_pieces] by metis
      moreover have "(case split_loop s (i + 1) (i + 1) (append_ip (take (i - start) (drop start s)) ips) of
          (start, ips) \<Rightarrow> if start < length s then append_ip (drop start s) ips else ips)
          = append_ip (take (i - start) (drop start s)) ips @ kept_pieces (drop (i + 1) s)"
        using 1(1) [OF False True] False by simp
      ultimately show ?thesis
        using True False by (simp add: split_loop.simps [of s i] append_ip_spec)
    next
      case other: False
      have "CHR '','' \<notin> set (take (i + 1 - start) (drop start s))" using step other 1(5) by auto
      with 1(2) [OF False other] 1(3) False other show ?thesis by (simp add: split_loop.simps [of s i])
    qed
  qed
qed

text \<open>The index loop of \<^verbatim>\<open>splitIPs\<close> computes what splitting the header at its commas, trimming every piece
  and dropping the empty ones gives.\<close>

theorem split_ips_correct:
  "split_ips s = filter (\<lambda>p. p \<noteq> []) (map trim_space (split_on (CHR '','') s))"
  using split_loop_spec [of 0 0 s "[]"] by (simp add: split_ips_def kept_pieces_def)

section \<open>Witnesses\<close>

definition sample_store :: memory_session_store where
  "sample_store = fst (create_session memory_ops default_session_config 100 (Some ''s1'') ''ann'' ''a@x'' ''ann'' []
     new_session_store)"

lemma sample_store_reached: "(session_step memory_ops default_session_config)\<^sup>*\<^sup>* new_session_store sample_store"
  unfolding sample_store_def by (rule r_into_rtranclp, rule session_step.create [OF prod.collapse [symmetric]])

theorem sessions_end_witness:
  "\<exists>x. ms_sessions sample_store ''s1'' = Some x
    \<and> get_session memory_ops default_session_config 200 ''s1'' sample_store = (sample_store, Inr x)
    \<and> (\<forall>s' y. get_session memory_ops default_session_config 200 ''s1''
          (fst (destroy_user_sessions memory_ops ''ann'' sample_store)) = (s', Inr y) \<longrightarrow> se_user_id y \<noteq> ''ann'')"
proof -
  obtain x where x: "ms_sessions sample_store ''s1'' = Some x" "se_expires_at x = 100 + 24 * 3600 * second"
      "se_last_activity x = 100"
    by (simp add: sample_store_def create_session_def memory_ops_def ms_set_def default_session_config_def
        new_session_store_def Let_def)
  then have "get_session memory_ops default_session_config 200 ''s1'' sample_store = (sample_store, Inr x)"
    by (simp add: get_session_def memory_ops_def ms_get_def is_expired_def is_inactive_def
        default_session_config_def time_sub_def)
  moreover have "\<forall>s' y. get_session memory_ops default_session_config 200 ''s1''
          (fst (destroy_user_sessions memory_ops ''ann'' sample_store)) = (s', Inr y) \<longrightarrow> se_user_id y \<noteq> ''ann''"
    using sessions_end [OF sample_store_reached, where now = 200 and sid = "''s1''" and user = "''ann''"] by (auto split: prod.splits sum.splits)
  ultimately show ?thesis using x(1) by blast
qed

theorem session_stays_alive_witness:
  "\<exists>s2 y. validate_session memory_ops default_session_config 500 ''s1'' sample_store = (s2, Inr y)
    \<and> se_last_activity y = 500"
proof -
  obtain x where c: "create_session memory_ops default_session_config 100 (Some ''s1'') ''ann'' ''a@x'' ''ann'' []
      new_session_store = (sample_store, Inr x)"
    by (simp add: sample_store_def create_session_def memory_ops_def Let_def)
  from session_stays_alive [OF rtranclp.rtrancl_refl c, where later = 500] show ?thesis
    by (simp add: default_session_config_def) blast
qed

end
