(* ===== verification/Failover.thy ===== *)
theory Failover
  imports Prelude
begin

text \<open>
  The failover manager of \<^verbatim>\<open>ha/failover.go\<close>: the nodes of a cluster, which of them is active, and the
  events of its failovers. \<^verbatim>\<open>activeNode\<close> points to an entry of the table of nodes and is kept as that
  entry's id. Every method holds the manager's lock and is an atomic step. The text of errors, the event
  ids built from the clock and the metadata of nodes are left out; health scores come from the health
  checker, an argument. Apart from the manager, the rolling updates of \<^verbatim>\<open>ha/updates.go\<close> (not modelled
  otherwise) set the state of the nodes they are given, with \<^verbatim>\<open>SetState\<close> and without the manager's lock: the steps
  below have these writes too, between the operations of the manager.
\<close>

section \<open>State\<close>

datatype failover_state = StateActive | StateStandby | StateFailingOver | StateFailed | StateRecovering
  | StateUnknown

datatype failover_policy = PolicyAutomatic | PolicyManual | PolicyQuorumBased | PolicyOther string

record node =
  nd_id :: string
  nd_name :: string
  nd_address :: string
  nd_port :: int
  nd_state :: failover_state
  nd_priority :: int
  nd_region :: string
  nd_zone :: string
  nd_last_heartbeat :: time
  nd_health_score :: int

record failover_config =
  fc_policy :: failover_policy
  fc_heartbeat_interval :: duration
  fc_heartbeat_timeout :: duration
  fc_failover_timeout :: duration
  fc_recovery_timeout :: duration
  fc_quorum_size :: int
  fc_auto_failover_enabled :: bool
  fc_max_failover_attempts :: int
  fc_health_check_interval :: duration

definition default_failover_config :: failover_config where
  "default_failover_config =
     \<lparr>fc_policy = PolicyAutomatic, fc_heartbeat_interval = 5 * second, fc_heartbeat_timeout = 15 * second,
      fc_failover_timeout = 30 * second, fc_recovery_timeout = 60 * second, fc_quorum_size = 3,
      fc_auto_failover_enabled = True, fc_max_failover_attempts = 3, fc_health_check_interval = 10 * second\<rparr>"

record failover_event =
  fe_timestamp :: time
  fe_from_node :: string
  fe_to_node :: string
  fe_reason :: string
  fe_success :: bool
  fe_duration :: duration
  fe_policy :: failover_policy

datatype ha_error = ErrNilNode | ErrNodeExists string | ErrNodeNotFound string | ErrNoStandby
  | ErrManualPolicy | ErrNoQuorum | ErrRemoval ha_error | ErrNotStandby string | ErrScoreTooLow string int

record failover_manager =
  fm_config :: failover_config
  fm_nodes :: "string \<rightharpoonup> node"
  fm_active :: "string option"
  fm_events :: "failover_event list"
  fm_channel :: "failover_event list"

definition new_failover_manager :: "failover_config option \<Rightarrow> failover_manager" where
  "new_failover_manager config =
     \<lparr>fm_config = (case config of None \<Rightarrow> default_failover_config | Some c \<Rightarrow> c), fm_nodes = Map.empty,
      fm_active = None, fm_events = [], fm_channel = []\<rparr>"

definition set_node_state :: "string \<Rightarrow> failover_state \<Rightarrow> failover_manager \<Rightarrow> failover_manager" where
  "set_node_state i st s =
     s\<lparr>fm_nodes := (fm_nodes s)(i := map_option (\<lambda>n. n\<lparr>nd_state := st\<rparr>) (fm_nodes s i))\<rparr>"

definition update_heartbeat :: "time \<Rightarrow> string \<Rightarrow> failover_manager \<Rightarrow> failover_manager" where
  "update_heartbeat now i s =
     s\<lparr>fm_nodes := (fm_nodes s)(i := map_option (\<lambda>n. n\<lparr>nd_last_heartbeat := now\<rparr>) (fm_nodes s i))\<rparr>"

section \<open>Nodes\<close>

definition active_node :: "failover_manager \<Rightarrow> node option" where
  "active_node s = Option.bind (fm_active s) (fm_nodes s)"

definition add_node :: "node option \<Rightarrow> failover_manager \<Rightarrow> failover_manager \<times> ha_error option" where
  "add_node new s =
     (case new of
        None \<Rightarrow> (s, Some ErrNilNode)
      | Some n \<Rightarrow>
          if fm_nodes s (nd_id n) \<noteq> None then (s, Some (ErrNodeExists (nd_id n)))
          else
            let s1 = s\<lparr>fm_nodes := (fm_nodes s)(nd_id n \<mapsto> n)\<rparr>
            in case active_node s1 of
                 None \<Rightarrow> (set_node_state (nd_id n) StateActive (s1\<lparr>fm_active := Some (nd_id n)\<rparr>), None)
               | Some a \<Rightarrow>
                   if nd_priority a < nd_priority n
                   then (set_node_state (nd_id n) StateActive
                          (set_node_state (nd_id a) StateStandby s1)\<lparr>fm_active := Some (nd_id n)\<rparr>, None)
                   else (set_node_state (nd_id n) StateStandby s1, None))"

text \<open>The loop of \<^verbatim>\<open>selectFailoverCandidate\<close> over the nodes in iteration order.\<close>

fun candidate_loop :: "node list \<Rightarrow> int \<Rightarrow> node option \<Rightarrow> node option" where
  "candidate_loop [] highest candidate = candidate"
| "candidate_loop (n # ns) highest candidate =
     (if nd_state n = StateStandby \<and> 70 \<le> nd_health_score n \<and> highest < nd_priority n
      then candidate_loop ns (nd_priority n) (Some n)
      else candidate_loop ns highest candidate)"

definition select_failover_candidate :: "string list \<Rightarrow> failover_manager \<Rightarrow> node option" where
  "select_failover_candidate ks s = candidate_loop (map snd (visit ks (fm_nodes s))) (- 1) None"

definition check_quorum :: "string list \<Rightarrow> failover_manager \<Rightarrow> bool" where
  "check_quorum ks s \<longleftrightarrow> fc_quorum_size (fm_config s)
     \<le> int (length (filter (\<lambda>(i, n). 70 \<le> nd_health_score n) (visit ks (fm_nodes s))))"

definition perform_failover :: "string list \<Rightarrow> time \<Rightarrow> duration \<Rightarrow> string \<Rightarrow> string \<Rightarrow> failover_manager
    \<Rightarrow> failover_manager \<times> ha_error option" where
  "perform_failover ks now dur from_id reason s =
     (case select_failover_candidate ks s of
        None \<Rightarrow> (s, Some ErrNoStandby)
      | Some candidate \<Rightarrow>
          let event = \<lparr>fe_timestamp = now, fe_from_node = from_id, fe_to_node = nd_id candidate,
                fe_reason = reason, fe_success = False, fe_duration = dur, fe_policy = fc_policy (fm_config s)\<rparr>
          in if fc_policy (fm_config s) = PolicyManual
             then (s\<lparr>fm_events := fm_events s @ [event]\<rparr>, Some ErrManualPolicy)
             else if fc_policy (fm_config s) = PolicyQuorumBased \<and> \<not> check_quorum ks s
             then (s\<lparr>fm_events := fm_events s @ [event]\<rparr>, Some ErrNoQuorum)
             else
               let s1 = (case fm_active s of None \<Rightarrow> s | Some a \<Rightarrow> set_node_state a StateStandby s);
                   s2 = (set_node_state (nd_id candidate) StateActive s1)\<lparr>fm_active := Some (nd_id candidate)\<rparr>;
                   s3 = set_node_state from_id StateFailed s2;
                   event = event\<lparr>fe_success := True\<rparr>
               in (s3\<lparr>fm_events := fm_events s3 @ [event],
                      fm_channel := (if length (fm_channel s3) < 100 then fm_channel s3 @ [event]
                                     else fm_channel s3)\<rparr>, None))"

definition remove_node :: "string list \<Rightarrow> time \<Rightarrow> duration \<Rightarrow> string \<Rightarrow> failover_manager
    \<Rightarrow> failover_manager \<times> ha_error option" where
  "remove_node ks now dur i s =
     (case fm_nodes s i of
        None \<Rightarrow> (s, Some (ErrNodeNotFound i))
      | Some n \<Rightarrow>
          (case (if fm_active s = Some i then perform_failover ks now dur i ''node removed'' s else (s, None)) of
             (s, Some e) \<Rightarrow> (s, Some (ErrRemoval e))
           | (s, None) \<Rightarrow> (s\<lparr>fm_nodes := (fm_nodes s)(i := None)\<rparr>, None)))"

text \<open>
  The sweep of \<^verbatim>\<open>checkNodesHealth\<close>: \<open>ks\<close> is its iteration order, \<open>inner\<close> gives the order of the ranges
  of a failover it triggers. \<open>checker\<close> is the health checker, if one is set.
\<close>

definition check_node_heartbeat :: "string list \<Rightarrow> time \<Rightarrow> duration \<Rightarrow> node \<Rightarrow> failover_manager \<Rightarrow> failover_manager" where
  "check_node_heartbeat inner now dur n s =
     (if fc_heartbeat_timeout (fm_config s) < time_sub now (nd_last_heartbeat n)
      then if nd_state n = StateActive then fst (perform_failover inner now dur (nd_id n) ''heartbeat timeout'' s)
           else set_node_state (nd_id n) StateFailed s
      else s)"

definition check_node_score :: "(string \<Rightarrow> int) option \<Rightarrow> string list \<Rightarrow> time \<Rightarrow> duration \<Rightarrow> string \<Rightarrow> failover_manager
    \<Rightarrow> failover_manager" where
  "check_node_score checker inner now dur i s =
     (case checker of
        None \<Rightarrow> s
      | Some score \<Rightarrow>
          let s = s\<lparr>fm_nodes := (fm_nodes s)(i := map_option (\<lambda>n. n\<lparr>nd_health_score := score i\<rparr>) (fm_nodes s i))\<rparr>
          in if score i < 50 \<and> (case fm_nodes s i of None \<Rightarrow> False | Some n \<Rightarrow> nd_state n = StateActive)
             then fst (perform_failover inner now dur i ''low health score'' s) else s)"

fun check_nodes_health :: "(string \<Rightarrow> int) option \<Rightarrow> (string \<Rightarrow> string list) \<Rightarrow> time \<Rightarrow> duration \<Rightarrow> string list
    \<Rightarrow> failover_manager \<Rightarrow> failover_manager" where
  "check_nodes_health checker inner now dur [] s = s"
| "check_nodes_health checker inner now dur (i # ks) s = check_nodes_health checker inner now dur ks
     (case fm_nodes s i of
        None \<Rightarrow> s
      | Some n \<Rightarrow> check_node_score checker (inner i) now dur i (check_node_heartbeat (inner i) now dur n s))"

definition perform_manual_failover :: "time \<Rightarrow> string \<Rightarrow> string \<Rightarrow> failover_manager
    \<Rightarrow> failover_manager \<times> ha_error option" where
  "perform_manual_failover now to_id reason s =
     (case fm_nodes s to_id of
        None \<Rightarrow> (s, Some (ErrNodeNotFound to_id))
      | Some target \<Rightarrow>
          if nd_state target \<noteq> StateStandby then (s, Some (ErrNotStandby to_id))
          else if nd_health_score target < 70 then (s, Some (ErrScoreTooLow to_id (nd_health_score target)))
          else
            let from_id = (case fm_active s of None \<Rightarrow> [] | Some a \<Rightarrow> a);
                s1 = (case fm_active s of None \<Rightarrow> s | Some a \<Rightarrow> set_node_state a StateStandby s);
                s2 = (set_node_state to_id StateActive s1)\<lparr>fm_active := Some to_id\<rparr>
            in (s2\<lparr>fm_events := fm_events s2 @ [\<lparr>fe_timestamp = now, fe_from_node = from_id, fe_to_node = to_id,
                    fe_reason = reason, fe_success = True, fe_duration = 0, fe_policy = PolicyManual\<rparr>]\<rparr>, None))"

record failover_stats =
  fs_total :: int
  fs_successful :: int
  fs_failed :: int
  fs_avg_duration :: duration
  fs_nodes :: int
  fs_active_node :: string

text \<open>\<^verbatim>\<open>GetFailoverStats\<close> dereferences the active node, which panics (\<open>None\<close>) before a node is added.\<close>

definition get_failover_stats :: "failover_manager \<Rightarrow> failover_stats option" where
  "get_failover_stats s =
     (let total = length (fm_events s); good = length (filter fe_success (fm_events s));
          sum = foldl (\<lambda>d e. i64 (d + fe_duration e)) 0 (fm_events s)
      in map_option (\<lambda>a. \<lparr>fs_total = int total, fs_successful = int good, fs_failed = int (total - good),
             fs_avg_duration = (if 0 < total then go_div sum (int total) else sum),
             fs_nodes = int (card (dom (fm_nodes s))), fs_active_node = a\<rparr>) (fm_active s))"

section \<open>One active node\<close>

text \<open>
  \<open>U\<close> are the ids of the nodes that rolling updates may write to: \<^verbatim>\<open>updateNode\<close> sets the state to recovering and,
  later, to active. Both writes are steps of their own.
\<close>

inductive failover_step :: "string set \<Rightarrow> failover_manager \<Rightarrow> failover_manager \<Rightarrow> bool" for U where
  add: "add_node new s = (s', err) \<Longrightarrow> failover_step U s s'"
| remove: "remove_node ks now dur i s = (s', err) \<Longrightarrow> failover_step U s s'"
| heartbeat: "failover_step U s (update_heartbeat now i s)"
| sweep: "failover_step U s (check_nodes_health checker inner now dur ks s)"
| manual: "perform_manual_failover now to_id reason s = (s', err) \<Longrightarrow> failover_step U s s'"
| consume: "fm_channel s = e # rest \<Longrightarrow> failover_step U s (s\<lparr>fm_channel := rest\<rparr>)"
| update: "i \<in> U \<Longrightarrow> st \<in> {StateRecovering, StateActive} \<Longrightarrow> failover_step U s (set_node_state i st s)"

definition node_ok :: "string set \<Rightarrow> string option \<Rightarrow> string \<Rightarrow> node \<Rightarrow> bool" where
  "node_ok U active i n \<longleftrightarrow> nd_id n = i
     \<and> (if active = Some i then nd_state n \<noteq> StateStandby \<and> (nd_state n = StateActive \<or> i \<in> U)
        else nd_state n = StateActive \<longrightarrow> i \<in> U)"

definition cluster_ok :: "string set \<Rightarrow> failover_manager \<Rightarrow> bool" where
  "cluster_ok U s \<longleftrightarrow> (\<forall>i n. fm_nodes s i = Some n \<longrightarrow> node_ok U (fm_active s) i n)
     \<and> (\<forall>i. fm_active s = Some i \<longrightarrow> fm_nodes s i \<noteq> None) \<and> (fm_active s = None \<longrightarrow> fm_nodes s = Map.empty)"

lemma cluster_ok_change:
  assumes "cluster_ok U s" "\<And>n. fm_nodes s i = Some n \<Longrightarrow> node_ok U (fm_active s) i n \<Longrightarrow> node_ok U (fm_active s) i (f n)"
  shows "cluster_ok U (s\<lparr>fm_nodes := (fm_nodes s)(i := map_option f (fm_nodes s i))\<rparr>)"
  using assms unfolding cluster_ok_def by (auto simp: fun_eq_iff)

lemma set_node_state_fields [simp]:
  "fm_active (set_node_state i st s) = fm_active s" "fm_config (set_node_state i st s) = fm_config s"
  "fm_events (set_node_state i st s) = fm_events s" "fm_channel (set_node_state i st s) = fm_channel s"
  "fm_nodes (set_node_state i st s) j
     = (if j = i then map_option (\<lambda>n. n\<lparr>nd_state := st\<rparr>) (fm_nodes s i) else fm_nodes s j)"
  by (simp_all add: set_node_state_def)

lemma cluster_ok_irrelevant [simp]:
  "cluster_ok U (s\<lparr>fm_events := es\<rparr>) = cluster_ok U s" "cluster_ok U (s\<lparr>fm_channel := c\<rparr>) = cluster_ok U s"
  "cluster_ok U (s\<lparr>fm_events := es, fm_channel := c\<rparr>) = cluster_ok U s"
  by (simp_all add: cluster_ok_def)

lemma candidate_loop_result:
  "candidate_loop ns highest c = r \<Longrightarrow>
    (r = c \<and> (\<forall>n\<in>set ns. nd_state n = StateStandby \<and> 70 \<le> nd_health_score n \<longrightarrow> nd_priority n \<le> highest))
    \<or> (\<exists>m. r = Some m \<and> m \<in> set ns \<and> nd_state m = StateStandby \<and> 70 \<le> nd_health_score m \<and> highest < nd_priority m
        \<and> (\<forall>n\<in>set ns. nd_state n = StateStandby \<and> 70 \<le> nd_health_score n \<longrightarrow> nd_priority n \<le> nd_priority m))"
proof (induction ns arbitrary: highest c)
  case (Cons n ns)
  show ?case
  proof (cases "nd_state n = StateStandby \<and> 70 \<le> nd_health_score n \<and> highest < nd_priority n")
    case True
    with Cons.prems have "candidate_loop ns (nd_priority n) (Some n) = r" by simp
    from Cons.IH [OF this] True show ?thesis by fastforce
  next
    case False
    with Cons.prems have "candidate_loop ns highest c = r" by simp
    from Cons.IH [OF this] False show ?thesis by fastforce
  qed
qed simp

lemma cluster_ok_id: "cluster_ok U s \<Longrightarrow> fm_nodes s i = Some n \<Longrightarrow> nd_id n = i"
  by (simp add: cluster_ok_def node_ok_def)

lemma cluster_ok_active:
  "cluster_ok U s \<Longrightarrow> fm_nodes s i = Some n \<Longrightarrow> fm_active s = Some i
    \<Longrightarrow> nd_state n \<noteq> StateStandby \<and> (nd_state n = StateActive \<or> i \<in> U)"
  unfolding cluster_ok_def node_ok_def by (auto split: if_splits)

lemma candidate_spec:
  assumes "select_failover_candidate ks s = Some m" "cluster_ok U s"
  shows "fm_nodes s (nd_id m) = Some m \<and> nd_state m = StateStandby \<and> fm_active s \<noteq> Some (nd_id m)"
proof -
  from candidate_loop_result [OF assms(1) [unfolded select_failover_candidate_def]]
  have "m \<in> snd ` set (visit ks (fm_nodes s))" and st: "nd_state m = StateStandby" by auto
  then obtain i where i: "fm_nodes s i = Some m" by (auto simp: set_visit)
  have "nd_id m = i" using assms(2) i by (rule cluster_ok_id)
  with i st cluster_ok_active [OF assms(2) i] show ?thesis by auto
qed

text \<open>
  Making a standby node active: the active node becomes standby, and the node \<open>k'\<close>, if there is one, failed.
\<close>

lemma cluster_ok_switch:
  assumes "cluster_ok U s" "fm_nodes s i = Some n" "k' \<noteq> Some i" "fm_active s \<noteq> Some i"
    and "\<And>j. fm_nodes s' j = (if j = i then Some (n\<lparr>nd_state := StateActive\<rparr>)
        else if Some j = k' then map_option (\<lambda>n. n\<lparr>nd_state := StateFailed\<rparr>) (fm_nodes s j)
        else if fm_active s = Some j then map_option (\<lambda>n. n\<lparr>nd_state := StateStandby\<rparr>) (fm_nodes s j) else fm_nodes s j)"
    and "fm_active s' = Some i"
  shows "cluster_ok U s'"
proof -
  have "nd_id n = i" using cluster_ok_id [OF assms(1,2)] .
  moreover have "nd_id m = j \<and> (fm_active s \<noteq> Some j \<longrightarrow> nd_state m = StateActive \<longrightarrow> j \<in> U)" if "fm_nodes s j = Some m" for j m
    using assms(1) that unfolding cluster_ok_def node_ok_def by (auto split: if_splits)
  ultimately show ?thesis
    unfolding cluster_ok_def node_ok_def using assms(2-) by (auto split: if_splits)
qed

lemma perform_failover_ok:
  assumes "perform_failover ks now dur i reason s = (s', err)" "cluster_ok U s"
    and "fm_nodes s i = Some n" "nd_state n \<noteq> StateStandby"
  shows "cluster_ok U s' \<and> dom (fm_nodes s') = dom (fm_nodes s) \<and> (err = None \<longrightarrow> fm_active s' \<noteq> Some i)"
proof (cases "select_failover_candidate ks s")
  case None
  with assms show ?thesis by (auto simp: perform_failover_def)
next
  case (Some m)
  note m = candidate_spec [OF Some assms(2)]
  with assms(3,4) have ne: "nd_id m \<noteq> i" by auto
  show ?thesis
  proof (cases "err = None")
    case False
    with assms Some show ?thesis
      by (auto simp: perform_failover_def Let_def split: if_splits)
  next
    case True
    let ?s1 = "case fm_active s of None \<Rightarrow> s | Some a \<Rightarrow> set_node_state a StateStandby s"
    from True assms(1) Some have s': "fm_nodes s' = fm_nodes (set_node_state i StateFailed
          (set_node_state (nd_id m) StateActive ?s1\<lparr>fm_active := Some (nd_id m)\<rparr>))"
        "fm_active s' = Some (nd_id m)"
      by (auto simp: perform_failover_def Let_def set_node_state_def split: if_splits)
    have nodes: "fm_nodes s' j = (if j = nd_id m then Some (m\<lparr>nd_state := StateActive\<rparr>)
        else if Some j = Some i then map_option (\<lambda>n. n\<lparr>nd_state := StateFailed\<rparr>) (fm_nodes s j)
        else if fm_active s = Some j then map_option (\<lambda>n. n\<lparr>nd_state := StateStandby\<rparr>) (fm_nodes s j) else fm_nodes s j)" for j
      using m ne by (cases "fm_active s"; cases "fm_nodes s j") (auto simp: s'(1) set_node_state_def)
    then have "dom (fm_nodes s') = dom (fm_nodes s)"
      using m by (auto simp: dom_def split: if_splits)
    moreover have "cluster_ok U s'" by (rule cluster_ok_switch [OF assms(2) _ _ _ nodes s'(2)]) (use m ne in simp_all)
    ultimately show ?thesis using s'(2) ne by simp
  qed
qed

lemma add_node_ok: "add_node new s = (s', err) \<Longrightarrow> cluster_ok U s \<Longrightarrow> cluster_ok U s'"
proof -
  assume add: "add_node new s = (s', err)" and ok: "cluster_ok U s"
  show "cluster_ok U s'"
  proof (cases new)
    case None
    with add ok show ?thesis by (simp add: add_node_def)
  next
    case (Some n)
    show ?thesis
    proof (cases "fm_nodes s (nd_id n) \<noteq> None")
      case True
      with add ok Some show ?thesis by (simp add: add_node_def)
    next
      case fresh: False
      let ?s1 = "s\<lparr>fm_nodes := (fm_nodes s)(nd_id n \<mapsto> n)\<rparr>"
      show ?thesis
      proof (cases "fm_active s")
        case None
        with add Some fresh have "s' = set_node_state (nd_id n) StateActive (?s1\<lparr>fm_active := Some (nd_id n)\<rparr>)"
          by (simp add: add_node_def Let_def active_node_def)
        moreover have "fm_nodes s = Map.empty" using ok None by (simp add: cluster_ok_def)
        ultimately show ?thesis by (auto simp: cluster_ok_def node_ok_def split: if_splits)
      next
        case (Some a)
        with ok obtain m where m: "fm_nodes s a = Some m" "nd_id m = a" by (fastforce simp: cluster_ok_def node_ok_def)
        with fresh have ne: "a \<noteq> nd_id n" by auto
        with m Some have act: "active_node ?s1 = Some m" by (simp add: active_node_def)
        show ?thesis
        proof (cases "nd_priority m < nd_priority n")
          case True
          with add \<open>new = Some n\<close> fresh act have "s' = set_node_state (nd_id n) StateActive
              (set_node_state (nd_id m) StateStandby ?s1)\<lparr>fm_active := Some (nd_id n)\<rparr>"
            by (simp add: add_node_def Let_def)
          with ok m ne Some fresh show ?thesis by (auto simp: cluster_ok_def node_ok_def split: if_splits)
        next
          case False
          with add \<open>new = Some n\<close> fresh act have "s' = set_node_state (nd_id n) StateStandby ?s1"
            by (simp add: add_node_def Let_def)
          with ok m ne Some fresh show ?thesis by (auto simp: cluster_ok_def node_ok_def split: if_splits)
        qed
      qed
    qed
  qed
qed

lemma cluster_ok_update:
  "cluster_ok U s \<Longrightarrow> (\<And>n. nd_id (f n) = nd_id n \<and> nd_state (f n) = nd_state n)
    \<Longrightarrow> cluster_ok U (s\<lparr>fm_nodes := (fm_nodes s)(i := map_option f (fm_nodes s i))\<rparr>)"
  by (rule cluster_ok_change) (simp_all add: node_ok_def)

lemma cluster_ok_external:
  "cluster_ok U s \<Longrightarrow> i \<in> U \<Longrightarrow> st \<noteq> StateStandby \<Longrightarrow> cluster_ok U (set_node_state i st s)"
  unfolding set_node_state_def by (rule cluster_ok_change) (simp_all add: node_ok_def)

lemma remove_node_ok: "remove_node ks now dur i s = (s', err) \<Longrightarrow> cluster_ok U s \<Longrightarrow> cluster_ok U s'"
proof -
  assume r: "remove_node ks now dur i s = (s', err)" and ok: "cluster_ok U s"
  show "cluster_ok U s'"
  proof (cases "fm_nodes s i")
    case None
    with r ok show ?thesis by (simp add: remove_node_def)
  next
    case (Some n)
    obtain t e where t: "(if fm_active s = Some i then perform_failover ks now dur i ''node removed'' s else (s, None)) = (t, e)"
      by fastforce
    have t_ok: "cluster_ok U t \<and> (e = None \<longrightarrow> fm_active t \<noteq> Some i) \<and> fm_nodes t i \<noteq> None"
    proof (cases "fm_active s = Some i")
      case True
      with t have "perform_failover ks now dur i ''node removed'' s = (t, e)" by simp
      moreover have "nd_state n \<noteq> StateStandby" using cluster_ok_active [OF ok Some True] by simp
      ultimately have "cluster_ok U t \<and> dom (fm_nodes t) = dom (fm_nodes s) \<and> (e = None \<longrightarrow> fm_active t \<noteq> Some i)"
        by (intro perform_failover_ok [OF _ ok Some])
      then show ?thesis using Some by blast
    next
      case False
      with t ok Some show ?thesis by auto
    qed
    then have active: "fm_active t \<noteq> None" by (auto simp: cluster_ok_def node_ok_def)
    show ?thesis
    proof (cases e)
      case None
      with r t Some have "s' = t\<lparr>fm_nodes := (fm_nodes t)(i := None)\<rparr>" by (simp add: remove_node_def)
      with t_ok None active show ?thesis by (auto simp: cluster_ok_def node_ok_def split: if_splits)
    next
      case (Some x)
      with r t t_ok \<open>fm_nodes s i = Some n\<close> show ?thesis by (simp add: remove_node_def)
    qed
  qed
qed

lemma check_node_heartbeat_ok:
  assumes "cluster_ok U s" "fm_nodes s i = Some n"
  shows "cluster_ok U (check_node_heartbeat inner now dur n s)"
proof -
  have id: "nd_id n = i" using assms by (rule cluster_ok_id)
  have "cluster_ok U (set_node_state i StateFailed s)" if "nd_state n \<noteq> StateActive"
  proof -
    have "fm_active s = Some i \<Longrightarrow> i \<in> U" using cluster_ok_active [OF assms] that by simp
    then show ?thesis
      unfolding set_node_state_def by (intro cluster_ok_change [OF assms(1)]) (auto simp: node_ok_def)
  qed
  moreover have "cluster_ok U (fst (perform_failover inner now dur i reason s))" if "nd_state n = StateActive" for reason
    using perform_failover_ok [OF prod.collapse [symmetric] assms] that by simp
  ultimately show ?thesis using id assms(1) by (simp add: check_node_heartbeat_def)
qed

lemma check_node_score_ok: "cluster_ok U s \<Longrightarrow> cluster_ok U (check_node_score checker inner now dur i s)"
proof (cases checker)
  case (Some score)
  assume ok: "cluster_ok U s"
  define t where "t = s\<lparr>fm_nodes := (fm_nodes s)(i := map_option (\<lambda>n. n\<lparr>nd_health_score := score i\<rparr>) (fm_nodes s i))\<rparr>"
  have t: "cluster_ok U t" unfolding t_def using ok by (rule cluster_ok_update) simp
  have "cluster_ok U (fst (perform_failover inner now dur i ''low health score'' t))"
    if "fm_nodes t i = Some n" "nd_state n = StateActive" for n
    using perform_failover_ok [OF prod.collapse [symmetric] t that(1)] that(2) by simp
  with Some t show ?thesis
    by (auto simp: check_node_score_def Let_def t_def [symmetric] split: option.splits)
qed (simp add: check_node_score_def)

lemma check_nodes_health_ok: "cluster_ok U s \<Longrightarrow> cluster_ok U (check_nodes_health checker inner now dur ks s)"
proof (induction ks arbitrary: s)
  case (Cons i ks)
  show ?case
  proof (cases "fm_nodes s i")
    case None
    with Cons show ?thesis by simp
  next
    case (Some n)
    with Cons show ?thesis by (simp add: check_node_score_ok check_node_heartbeat_ok)
  qed
qed simp

lemma perform_manual_failover_ok:
  "perform_manual_failover now to_id reason s = (s', err) \<Longrightarrow> cluster_ok U s \<Longrightarrow> cluster_ok U s'"
proof -
  assume m: "perform_manual_failover now to_id reason s = (s', err)" and ok: "cluster_ok U s"
  show "cluster_ok U s'"
  proof (cases "s' = s \<or> fm_nodes s to_id = None")
    case True
    with m ok show ?thesis by (auto simp: perform_manual_failover_def)
  next
    case False
    then obtain n where n: "fm_nodes s to_id = Some n" by auto
    with ok obtain a where a: "fm_active s = Some a" by (cases "fm_active s") (auto simp: cluster_ok_def)
    from m n False have st: "nd_state n = StateStandby"
      by (auto simp: perform_manual_failover_def split: if_splits)
    with cluster_ok_active [OF ok n] a have ne: "to_id \<noteq> a" by auto
    from m n False a have "fm_nodes s' = fm_nodes (set_node_state to_id StateActive (set_node_state a StateStandby s))"
        "fm_active s' = Some to_id"
      by (auto simp: perform_manual_failover_def Let_def set_node_state_def split: if_splits)
    with n a ne show ?thesis by (intro cluster_ok_switch [OF ok n, of None s']) auto
  qed
qed

lemma failover_step_ok: "failover_step U s s' \<Longrightarrow> cluster_ok U s \<Longrightarrow> cluster_ok U s'"
proof (induction rule: failover_step.induct)
  case (heartbeat s now i)
  show ?case unfolding update_heartbeat_def using heartbeat by (rule cluster_ok_update) simp
next
  case (update i st s)
  then show ?case by (intro cluster_ok_external) auto
next
  case (consume s e rest)
  then show ?case by simp
qed (blast intro: add_node_ok remove_node_ok check_nodes_health_ok perform_manual_failover_ok)+

text \<open>C22: no split brain, but for rolling updates. Take any run of the operations of the failover manager, under every
  iteration order and policy, in between which the rolling updates of \<^verbatim>\<open>ha/updates.go\<close> write the states of nodes with
  ids in \<open>U\<close>. A cluster without nodes has no active node; any other one has exactly one node that the manager considers
  active, and it is not a standby node. A node whose state is active is this one or was
  updated, and if this one was not updated its state is active. So as long as no registered node is updated (\<open>U\<close> is empty)
  exactly one node has the state active, the manager's.\<close>

theorem one_active_node:
  assumes "(failover_step U)\<^sup>*\<^sup>* (new_failover_manager config) s"
  shows "if fm_nodes s = Map.empty then fm_active s = None
    else (\<exists>i n. fm_active s = Some i \<and> fm_nodes s i = Some n \<and> nd_state n \<noteq> StateStandby
            \<and> (i \<notin> U \<longrightarrow> nd_state n = StateActive)
            \<and> (\<forall>j m. fm_nodes s j = Some m \<and> nd_state m = StateActive \<and> j \<notin> U \<longrightarrow> j = i))"
proof -
  have ok: "cluster_ok U s" using assms
  proof (induction rule: rtranclp_induct)
    case base
    show ?case by (simp add: cluster_ok_def new_failover_manager_def)
  qed (rule failover_step_ok)
  show ?thesis
  proof (cases "fm_nodes s = Map.empty")
    case True
    with ok show ?thesis by (cases "fm_active s") (auto simp: cluster_ok_def)
  next
    case False
    with ok obtain i where i: "fm_active s = Some i" by (cases "fm_active s") (auto simp: cluster_ok_def)
    with ok obtain n where n: "fm_nodes s i = Some n" by (auto simp: cluster_ok_def)
    have "j = i" if "fm_nodes s j = Some m" "nd_state m = StateActive" "j \<notin> U" for j m
      using ok that i unfolding cluster_ok_def node_ok_def by (metis option.inject)
    with cluster_ok_active [OF ok n i] i n False show ?thesis by auto
  qed
qed

text \<open>The failover candidate, under every iteration order that covers the nodes: a standby node with a
  health score of at least 70 and the highest priority among all those; there is none exactly when
  every such node has a negative priority.\<close>

theorem failover_candidate_best:
  assumes "covers ks (fm_nodes s)"
  shows "case select_failover_candidate ks s of
      None \<Rightarrow> \<forall>n\<in>ran (fm_nodes s). nd_state n = StateStandby \<and> 70 \<le> nd_health_score n \<longrightarrow> nd_priority n < 0
    | Some m \<Rightarrow> m \<in> ran (fm_nodes s) \<and> nd_state m = StateStandby \<and> 70 \<le> nd_health_score m \<and> 0 \<le> nd_priority m
        \<and> (\<forall>n\<in>ran (fm_nodes s). nd_state n = StateStandby \<and> 70 \<le> nd_health_score n \<longrightarrow> nd_priority n \<le> nd_priority m)"
proof -
  have "set (map snd (visit ks (fm_nodes s))) = ran (fm_nodes s)"
    using assms by (force simp: set_visit covers_def ran_def dom_def image_iff)
  with candidate_loop_result [of "map snd (visit ks (fm_nodes s))" "- 1" None] show ?thesis
    unfolding select_failover_candidate_def by (fastforce split: option.splits)
qed

section \<open>Witnesses\<close>

definition sample_node :: "string \<Rightarrow> int \<Rightarrow> node" where
  "sample_node i priority = \<lparr>nd_id = i, nd_name = i, nd_address = i, nd_port = 80, nd_state = StateUnknown,
     nd_priority = priority, nd_region = ''r'', nd_zone = ''z'', nd_last_heartbeat = 0, nd_health_score = 100\<rparr>"

definition sample_cluster :: failover_manager where
  "sample_cluster = fst (add_node (Some (sample_node ''b'' 1)) (fst (add_node (Some (sample_node ''a'' 5))
     (new_failover_manager None))))"

lemma sample_cluster_reached: "(failover_step U)\<^sup>*\<^sup>* (new_failover_manager None) sample_cluster"
proof -
  have step: "failover_step U t (fst (add_node new t))" for new t
    by (rule add [OF prod.collapse [symmetric]])
  show ?thesis
    unfolding sample_cluster_def
    by (rule rtranclp.rtrancl_into_rtrancl, rule rtranclp.rtrancl_into_rtrancl, rule rtranclp.rtrancl_refl)
      (rule step)+
qed

lemma sample_cluster_nodes:
  "fm_nodes sample_cluster = [''a'' \<mapsto> (sample_node ''a'' 5)\<lparr>nd_state := StateActive\<rparr>,
     ''b'' \<mapsto> (sample_node ''b'' 1)\<lparr>nd_state := StateStandby\<rparr>]"
  by (simp add: sample_cluster_def add_node_def new_failover_manager_def active_node_def set_node_state_def
      Let_def sample_node_def)

theorem one_active_node_witness:
  "\<exists>s. (failover_step {})\<^sup>*\<^sup>* (new_failover_manager None) s \<and> (\<exists>i. fm_active s = Some i)
    \<and> dom (fm_nodes s) = {''a'', ''b''}"
proof -
  from one_active_node [OF sample_cluster_reached, of "{}"] have "\<exists>i. fm_active sample_cluster = Some i"
    by (auto simp: sample_cluster_nodes split: if_splits)
  moreover have "dom (fm_nodes sample_cluster) = {''a'', ''b''}" by (auto simp: sample_cluster_nodes)
  ultimately show ?thesis using sample_cluster_reached by blast
qed

theorem failover_candidate_best_witness:
  "map_option nd_id (select_failover_candidate [''a'', ''b''] sample_cluster) = Some ''b''"
proof -
  have "covers [''a'', ''b''] (fm_nodes sample_cluster)" by (auto simp: covers_def sample_cluster_nodes)
  note best = failover_candidate_best [OF this]
  have ran: "ran (fm_nodes sample_cluster) = {(sample_node ''a'' 5)\<lparr>nd_state := StateActive\<rparr>,
      (sample_node ''b'' 1)\<lparr>nd_state := StateStandby\<rparr>}"
    unfolding sample_cluster_nodes by (simp add: ran_map_upd insert_commute)
  show ?thesis
  proof (cases "select_failover_candidate [''a'', ''b''] sample_cluster")
    case None
    with best show ?thesis unfolding ran by (simp add: sample_node_def)
  next
    case (Some m)
    with best have "m \<in> {(sample_node ''a'' 5)\<lparr>nd_state := StateActive\<rparr>,
      (sample_node ''b'' 1)\<lparr>nd_state := StateStandby\<rparr>}" "nd_state m = StateStandby"
      unfolding ran by simp_all
    with Some show ?thesis by (auto simp: sample_node_def)
  qed
qed

text \<open>A rolling update of the cluster makes its standby node active too.\<close>

theorem updates_make_two_active:
  "\<exists>s. (failover_step {''b''})\<^sup>*\<^sup>* (new_failover_manager None) s
    \<and> map_option nd_state (fm_nodes s ''a'') = Some StateActive \<and> map_option nd_state (fm_nodes s ''b'') = Some StateActive"
proof -
  let ?s = "set_node_state ''b'' StateActive (set_node_state ''b'' StateRecovering sample_cluster)"
  have added: "failover_step {''b''} t (fst (add_node new t))" for new t
    by (rule add [OF prod.collapse [symmetric]])
  have written: "st \<in> {StateRecovering, StateActive} \<Longrightarrow> failover_step {''b''} t (set_node_state ''b'' st t)" for st t
    by (rule update) simp_all
  have "(failover_step {''b''})\<^sup>*\<^sup>* (new_failover_manager None) sample_cluster"
    unfolding sample_cluster_def
    by (rule rtranclp.rtrancl_into_rtrancl, rule rtranclp.rtrancl_into_rtrancl, rule rtranclp.rtrancl_refl) (rule added)+
  then have "(failover_step {''b''})\<^sup>*\<^sup>* (new_failover_manager None) ?s"
    using written [of StateRecovering sample_cluster] written [of StateActive]
    by (meson insertI1 insertI2 rtranclp.rtrancl_into_rtrancl)
  then show ?thesis by (intro exI [of _ ?s]) (simp add: sample_cluster_nodes)
qed

end
