(* ===== verification/LoadBalancer.thy ===== *)
theory LoadBalancer
  imports Prelude "HOL-Library.Word" "HOL-Library.Multiset"
begin

text \<open>
  The load balancer of \<^verbatim>\<open>ha/loadbalance.go\<close>. Its list of backends and its session cache hold pointers to
  the entries of its table, and are kept as their ids. The round-robin counter is an unsigned 64-bit
  integer, a word; the other counters and the sums of weights are signed and wrap around too. \<^verbatim>\<open>rand.Intn\<close> is
  an argument \<open>intn\<close> of each selection; it returns a number from 0 up to its bound, which has to be positive, and panics
  otherwise. A selection writes the session cache while it holds the read lock only; here it is one step.
\<close>

section \<open>State\<close>

datatype lb_algorithm = AlgorithmRoundRobin | AlgorithmWeightedRoundRobin | AlgorithmLeastConnections
  | AlgorithmHealthBased | AlgorithmRandom | AlgorithmIPHash | AlgorithmOther string

record backend =
  bk_id :: string
  bk_address :: string
  bk_port :: int
  bk_weight :: int
  bk_max_connections :: int
  bk_current_conns :: int
  bk_health_score :: int
  bk_is_active :: bool
  bk_region :: string
  bk_zone :: string
  bk_request_count :: int

record lb_config =
  lc_algorithm :: lb_algorithm
  lc_health_check_enabled :: bool
  lc_min_health_score :: int
  lc_retry_attempts :: int
  lc_retry_delay :: duration
  lc_sticky_session :: bool
  lc_session_ttl :: duration

definition default_lb_config :: lb_config where
  "default_lb_config = \<lparr>lc_algorithm = AlgorithmRoundRobin, lc_health_check_enabled = True,
     lc_min_health_score = 70, lc_retry_attempts = 3, lc_retry_delay = 100 * 1000000,
     lc_sticky_session = False, lc_session_ttl = 30 * minute\<rparr>"

record load_balancer =
  lb_config :: lb_config
  lb_backends :: "string \<rightharpoonup> backend"
  lb_list :: "string list"
  lb_algorithm :: lb_algorithm
  lb_index :: "64 word"
  lb_sessions :: "string \<rightharpoonup> string"

definition new_load_balancer :: "lb_config option \<Rightarrow> load_balancer" where
  "new_load_balancer config =
     (let c = (case config of None \<Rightarrow> default_lb_config | Some c \<Rightarrow> c)
      in \<lparr>lb_config = c, lb_backends = Map.empty, lb_list = [], lb_algorithm = lc_algorithm c, lb_index = 0,
          lb_sessions = Map.empty\<rparr>)"

definition can_accept_connections :: "backend \<Rightarrow> bool" where
  "can_accept_connections b \<longleftrightarrow> bk_max_connections b = 0 \<or> bk_current_conns b < bk_max_connections b"

definition update_backend :: "string \<Rightarrow> (backend \<Rightarrow> backend) \<Rightarrow> load_balancer \<Rightarrow> load_balancer" where
  "update_backend i f s = s\<lparr>lb_backends := (lb_backends s)(i := map_option f (lb_backends s i))\<rparr>"

definition increment_connections :: "string \<Rightarrow> load_balancer \<Rightarrow> load_balancer" where
  "increment_connections i = update_backend i (\<lambda>b. b\<lparr>bk_current_conns := i64 (bk_current_conns b + 1)\<rparr>)"

definition increment_request_count :: "string \<Rightarrow> load_balancer \<Rightarrow> load_balancer" where
  "increment_request_count i = update_backend i (\<lambda>b. b\<lparr>bk_request_count := i64 (bk_request_count b + 1)\<rparr>)"

section \<open>The table of backends\<close>

datatype lb_error = ErrNilBackend | ErrBackendExists string | ErrBackendNotFound string | ErrNoHealthyBackend

definition add_backend :: "backend option \<Rightarrow> load_balancer \<Rightarrow> load_balancer \<times> lb_error option" where
  "add_backend backend s =
     (case backend of
        None \<Rightarrow> (s, Some ErrNilBackend)
      | Some b \<Rightarrow>
          if lb_backends s (bk_id b) \<noteq> None then (s, Some (ErrBackendExists (bk_id b)))
          else (s\<lparr>lb_backends := (lb_backends s)(bk_id b \<mapsto> b), lb_list := lb_list s @ [bk_id b]\<rparr>, None))"

text \<open>Removing takes the first list entry with the id, and every session of the backend.\<close>

definition remove_backend :: "string \<Rightarrow> load_balancer \<Rightarrow> load_balancer \<times> lb_error option" where
  "remove_backend i s =
     (if lb_backends s i = None then (s, Some (ErrBackendNotFound i))
      else (s\<lparr>lb_backends := (lb_backends s)(i := None), lb_list := remove1 i (lb_list s),
              lb_sessions := (\<lambda>session. if lb_sessions s session = Some i then None else lb_sessions s session)\<rparr>,
            None))"

definition get_backend :: "string \<Rightarrow> load_balancer \<Rightarrow> lb_error + backend" where
  "get_backend i s = (case lb_backends s i of None \<Rightarrow> Inl (ErrBackendNotFound i) | Some b \<Rightarrow> Inr b)"

definition release_backend :: "string \<Rightarrow> load_balancer \<Rightarrow> load_balancer \<times> lb_error option" where
  "release_backend i s =
     (case get_backend i s of
        Inl e \<Rightarrow> (s, Some e)
      | Inr b \<Rightarrow> (update_backend i (\<lambda>b. b\<lparr>bk_current_conns := i64 (bk_current_conns b - 1)\<rparr>) s, None))"

definition update_backend_health :: "string \<Rightarrow> int \<Rightarrow> load_balancer \<Rightarrow> load_balancer \<times> lb_error option" where
  "update_backend_health i score s =
     (if lb_backends s i = None then (s, Some (ErrBackendNotFound i))
      else (update_backend i (\<lambda>b. b\<lparr>bk_health_score := score,
              bk_is_active := lc_min_health_score (lb_config s) \<le> score\<rparr>) s, None))"

definition set_algorithm :: "lb_algorithm \<Rightarrow> load_balancer \<Rightarrow> load_balancer" where
  "set_algorithm algorithm s = s\<lparr>lb_algorithm := algorithm\<rparr>"

definition clear_session_cache :: "load_balancer \<Rightarrow> load_balancer" where
  "clear_session_cache s = s\<lparr>lb_sessions := Map.empty\<rparr>"

record lb_stats =
  st_algorithm :: lb_algorithm
  st_total_backends :: int
  st_active_backends :: int
  st_total_requests :: int
  st_total_connections :: int
  st_min_health_score :: int

definition get_lb_stats :: "string list \<Rightarrow> load_balancer \<Rightarrow> lb_stats" where
  "get_lb_stats ks s =
     (let bs = map snd (visit ks (lb_backends s))
      in \<lparr>st_algorithm = lb_algorithm s, st_total_backends = int (length bs),
          st_active_backends = int (length (filter bk_is_active bs)),
          st_total_requests = foldl (\<lambda>n b. i64 (n + bk_request_count b)) 0 bs,
          st_total_connections = foldl (\<lambda>n b. i64 (n + bk_current_conns b)) 0 bs,
          st_min_health_score = lc_min_health_score (lb_config s)\<rparr>)"

section \<open>Selection\<close>

text \<open>What a selection yields: no backend is healthy, a backend (which may be nil), or a panic.\<close>

datatype selection = NoHealthyBackend | Chosen "backend option" | SelectionPanics

definition fit :: "load_balancer \<Rightarrow> backend \<Rightarrow> bool" where
  "fit s b \<longleftrightarrow> bk_is_active b \<and> lc_min_health_score (lb_config s) \<le> bk_health_score b"

definition get_healthy_backends :: "load_balancer \<Rightarrow> backend list" where
  "get_healthy_backends s =
     filter (\<lambda>b. fit s b \<and> can_accept_connections b) (List.map_filter (lb_backends s) (lb_list s))"

definition select_round_robin :: "backend list \<Rightarrow> load_balancer \<Rightarrow> load_balancer \<times> selection" where
  "select_round_robin bs s =
     (if bs = [] then (s, Chosen None)
      else let idx = lb_index s
           in (s\<lparr>lb_index := idx + 1\<rparr>, Chosen (Some (bs ! unat (idx mod of_nat (length bs))))))"

fun weighted_loop :: "int \<Rightarrow> int \<Rightarrow> backend list \<Rightarrow> backend option" where
  "weighted_loop r current [] = None"
| "weighted_loop r current (b # bs) =
     (let current = i64 (current + bk_weight b) in if r < current then Some b else weighted_loop r current bs)"

definition total_weight :: "backend list \<Rightarrow> int" where
  "total_weight bs = foldl (\<lambda>n b. i64 (n + bk_weight b)) 0 bs"

definition select_weighted :: "(int \<Rightarrow> int) \<Rightarrow> backend list \<Rightarrow> load_balancer \<Rightarrow> load_balancer \<times> selection" where
  "select_weighted intn bs s =
     (if bs = [] then (s, Chosen None)
      else let total = total_weight bs
           in if total = 0 then select_round_robin bs s
              else if total < 0 then (s, SelectionPanics)
              else (s, Chosen (case weighted_loop (intn total) 0 bs of None \<Rightarrow> Some (bs ! 0) | Some b \<Rightarrow> Some b)))"

fun least_loop :: "int \<Rightarrow> backend option \<Rightarrow> backend list \<Rightarrow> backend option" where
  "least_loop min_conns selected [] = selected"
| "least_loop min_conns selected (b # bs) =
     (if min_conns = - 1 \<or> bk_current_conns b < min_conns then least_loop (bk_current_conns b) (Some b) bs
      else least_loop min_conns selected bs)"

fun best_loop :: "int \<Rightarrow> backend option \<Rightarrow> backend list \<Rightarrow> backend option" where
  "best_loop max_score selected [] = selected"
| "best_loop max_score selected (b # bs) =
     (if max_score < bk_health_score b then best_loop (bk_health_score b) (Some b) bs
      else best_loop max_score selected bs)"

definition select_random :: "(int \<Rightarrow> int) \<Rightarrow> backend list \<Rightarrow> selection" where
  "select_random intn bs =
     (if bs = [] then Chosen None else Chosen (Some (bs ! nat (intn (int (length bs))))))"

definition select_by :: "(int \<Rightarrow> int) \<Rightarrow> backend list \<Rightarrow> load_balancer \<Rightarrow> load_balancer \<times> selection" where
  "select_by intn bs s =
     (case lb_algorithm s of
        AlgorithmWeightedRoundRobin \<Rightarrow> select_weighted intn bs s
      | AlgorithmLeastConnections \<Rightarrow> (s, Chosen (least_loop (- 1) None bs))
      | AlgorithmHealthBased \<Rightarrow> (s, Chosen (best_loop 0 None bs))
      | AlgorithmRandom \<Rightarrow> (s, select_random intn bs)
      | _ \<Rightarrow> select_round_robin bs s)"

text \<open>The sticky backend of a session: kept when it is fit, else its session entry is removed.\<close>

definition sticky_backend :: "string option \<Rightarrow> load_balancer \<Rightarrow> load_balancer \<times> backend option" where
  "sticky_backend session s =
     (case (if lc_sticky_session (lb_config s) then session else None) of
        None \<Rightarrow> (s, None)
      | Some sid \<Rightarrow>
          (case Option.bind (lb_sessions s sid) (lb_backends s) of
             None \<Rightarrow> (s, None)
           | Some b \<Rightarrow> if fit s b then (s, Some b)
                        else (s\<lparr>lb_sessions := (lb_sessions s)(sid := None)\<rparr>, None)))"

definition select_backend :: "(int \<Rightarrow> int) \<Rightarrow> string option \<Rightarrow> load_balancer \<Rightarrow> load_balancer \<times> selection" where
  "select_backend intn session s =
     (case sticky_backend session s of
        (s, Some b) \<Rightarrow> (s, Chosen (Some b))
      | (s, None) \<Rightarrow>
          let healthy = get_healthy_backends s
          in if healthy = [] then (s, NoHealthyBackend)
             else (case select_by intn healthy s of
               (s, r) \<Rightarrow>
                 (case (if lc_sticky_session (lb_config s) then session else None, r) of
                    (Some sid, Chosen (Some b)) \<Rightarrow> (s\<lparr>lb_sessions := (lb_sessions s)(sid \<mapsto> bk_id b)\<rparr>, r)
                  | _ \<Rightarrow> (s, r))))"

section \<open>Every selection is sound\<close>

lemma weighted_loop_in: "weighted_loop r c bs = Some b \<Longrightarrow> b \<in> set bs"
  by (induction r c bs rule: weighted_loop.induct) (auto simp: Let_def split: if_splits)

lemma least_loop_in: "least_loop m c bs = Some b \<Longrightarrow> c = Some b \<or> b \<in> set bs"
  by (induction m c bs rule: least_loop.induct) (auto split: if_splits)

lemma least_loop_some: "least_loop m (Some c) bs \<noteq> None"
  by (induction bs arbitrary: m c) auto

lemma best_loop_in: "best_loop m c bs = Some b \<Longrightarrow> c = Some b \<or> b \<in> set bs"
  by (induction m c bs rule: best_loop.induct) (auto split: if_splits)

lemma best_loop_none: "best_loop m c bs = None \<Longrightarrow> c = None \<and> (\<forall>b\<in>set bs. bk_health_score b \<le> m)"
  by (induction m c bs rule: best_loop.induct) (auto split: if_splits)

lemma round_robin_index:
  "0 < n \<Longrightarrow> n < 2 ^ 64 \<Longrightarrow> unat ((idx :: 64 word) mod of_nat n) = unat idx mod n"
  by (simp add: unat_mod_distrib unat_of_nat)

lemma round_robin_in:
  "bs \<noteq> [] \<Longrightarrow> length bs < 2 ^ 64 \<Longrightarrow> select_round_robin bs s = (s', r)
    \<Longrightarrow> \<exists>b\<in>set bs. r = Chosen (Some b) \<and> s' = s\<lparr>lb_index := lb_index s + 1\<rparr>"
  by (auto simp: select_round_robin_def Let_def round_robin_index)

definition intn_ok :: "(int \<Rightarrow> int) \<Rightarrow> bool" where
  "intn_ok intn \<longleftrightarrow> (\<forall>n>0. 0 \<le> intn n \<and> intn n < n)"

lemma select_by_sound:
  assumes "intn_ok intn" "bs \<noteq> []" "length bs < 2 ^ 64" "select_by intn bs s = (s', r)"
  shows "lb_config s' = lb_config s \<and> lb_backends s' = lb_backends s \<and> lb_list s' = lb_list s
    \<and> lb_sessions s' = lb_sessions s
    \<and> (case r of NoHealthyBackend \<Rightarrow> False
       | SelectionPanics \<Rightarrow> lb_algorithm s = AlgorithmWeightedRoundRobin \<and> total_weight bs < 0
       | Chosen None \<Rightarrow> lb_algorithm s = AlgorithmHealthBased \<and> (\<forall>b\<in>set bs. bk_health_score b \<le> 0)
       | Chosen (Some b) \<Rightarrow> b \<in> set bs)"
proof -
  note rr = round_robin_in [OF assms(2,3)]
  have len: "0 < int (length bs)" using assms(2) by simp
  have least: "least_loop (- 1) None bs \<noteq> None"
    using assms(2) least_loop_some by (cases bs) auto
  show ?thesis
  proof (cases "lb_algorithm s")
    case AlgorithmWeightedRoundRobin
    with assms(2,4) show ?thesis
      by (auto simp: select_by_def select_weighted_def Let_def dest!: rr dest: weighted_loop_in
          split: if_splits option.splits)
  next
    case AlgorithmLeastConnections
    with assms(4) least show ?thesis
      by (auto simp: select_by_def split: option.splits dest: least_loop_in)
  next
    case AlgorithmHealthBased
    with assms(4) best_loop_in [of 0 None bs] best_loop_none [of 0 None bs] show ?thesis
      by (cases "best_loop 0 None bs") (auto simp: select_by_def)
  next
    case AlgorithmRandom
    have "nat (intn (int (length bs))) < length bs"
      using assms(1) len by (simp add: intn_ok_def nat_less_iff)
    with AlgorithmRandom assms(2,4) show ?thesis by (auto simp: select_by_def select_random_def)
  qed (use assms(4) in \<open>auto simp: select_by_def dest!: rr\<close>)
qed


text \<open>The table, the list and the session cache agree.\<close>

definition lb_ok :: "load_balancer \<Rightarrow> bool" where
  "lb_ok s \<longleftrightarrow> distinct (lb_list s) \<and> set (lb_list s) = dom (lb_backends s)
     \<and> ran (lb_sessions s) \<subseteq> dom (lb_backends s) \<and> (\<forall>i b. lb_backends s i = Some b \<longrightarrow> bk_id b = i)"

inductive lb_step :: "load_balancer \<Rightarrow> load_balancer \<Rightarrow> bool" where
  add: "add_backend b s = (s', err) \<Longrightarrow> lb_step s s'"
| remove: "remove_backend i s = (s', err) \<Longrightarrow> lb_step s s'"
| select: "intn_ok intn \<Longrightarrow> select_backend intn session s = (s', r) \<Longrightarrow> length (lb_list s) < 2 ^ 64 \<Longrightarrow> lb_step s s'"
| connect: "lb_step s (increment_connections i s)"
| request: "lb_step s (increment_request_count i s)"
| release: "release_backend i s = (s', err) \<Longrightarrow> lb_step s s'"
| health: "update_backend_health i score s = (s', err) \<Longrightarrow> lb_step s s'"
| algorithm: "lb_step s (set_algorithm a s)"
| clear: "lb_step s (clear_session_cache s)"

lemma lb_ok_update: "lb_ok s \<Longrightarrow> (\<And>b. bk_id (f b) = bk_id b) \<Longrightarrow> lb_ok (update_backend i f s)"
  by (auto simp: lb_ok_def update_backend_def dom_def split: if_splits)

lemma lb_ok_sessions:
  "lb_ok s \<Longrightarrow> ran m \<subseteq> dom (lb_backends s) \<Longrightarrow> lb_ok (s\<lparr>lb_sessions := m\<rparr>)"
  by (simp add: lb_ok_def)

lemma lb_ok_same:
  "lb_backends s' = lb_backends s \<Longrightarrow> lb_list s' = lb_list s \<Longrightarrow> lb_sessions s' = lb_sessions s \<Longrightarrow> lb_ok s' = lb_ok s"
  by (simp add: lb_ok_def)

lemma lb_ok_add: "add_backend b s = (s', err) \<Longrightarrow> lb_ok s \<Longrightarrow> lb_ok s'"
  by (auto simp: add_backend_def lb_ok_def dom_def split: option.splits if_splits)

lemma lb_ok_remove:
  assumes "remove_backend i s = (s', err)" "lb_ok s"
  shows "lb_ok s'"
proof (cases "lb_backends s i = None")
  case True
  with assms show ?thesis by (simp add: remove_backend_def)
next
  case False
  let ?sessions = "\<lambda>session. if lb_sessions s session = Some i then None else lb_sessions s session"
  have "ran ?sessions \<subseteq> ran (lb_sessions s) - {i}" by (auto simp: ran_def split: if_splits)
  moreover have "dom ((lb_backends s)(i := None)) = dom (lb_backends s) - {i}" by auto
  moreover have "s' = s\<lparr>lb_backends := (lb_backends s)(i := None), lb_list := remove1 i (lb_list s), lb_sessions := ?sessions\<rparr>"
    using assms(1) False by (simp add: remove_backend_def)
  ultimately show ?thesis using assms(2) by (auto simp: lb_ok_def simp del: fun_upd_apply) (auto split: if_splits)
qed

lemma sticky_backend_spec:
  assumes "sticky_backend session s = (s1, r)" "lb_ok s"
  shows "lb_ok s1 \<and> lb_config s1 = lb_config s \<and> lb_backends s1 = lb_backends s \<and> lb_list s1 = lb_list s
    \<and> lb_algorithm s1 = lb_algorithm s
    \<and> (\<forall>b. r = Some b \<longrightarrow> s1 = s \<and> lb_backends s (bk_id b) = Some b \<and> fit s b
         \<and> (\<exists>sid. session = Some sid \<and> lb_sessions s sid = Some (bk_id b)))"
proof -
  have drop: "lb_ok (s\<lparr>lb_sessions := (lb_sessions s)(sid := None)\<rparr>)" for sid
    using assms(2) by (intro lb_ok_sessions) (auto simp: lb_ok_def ran_def split: if_splits)
  have "s1 = s \<or> (r = None \<and> (\<exists>sid. s1 = s\<lparr>lb_sessions := (lb_sessions s)(sid := None)\<rparr>))"
    using assms(1) by (auto simp: sticky_backend_def split: if_splits option.splits)
  moreover have "\<forall>b. r = Some b \<longrightarrow> lb_backends s (bk_id b) = Some b \<and> fit s b
      \<and> (\<exists>sid. session = Some sid \<and> lb_sessions s sid = Some (bk_id b))"
    using assms by (auto simp: sticky_backend_def lb_ok_def bind_eq_Some_conv split: if_splits option.splits)
  ultimately show ?thesis using assms(2) drop by auto
qed

lemma get_healthy_cong:
  "lb_config s1 = lb_config s \<Longrightarrow> lb_backends s1 = lb_backends s \<Longrightarrow> lb_list s1 = lb_list s
    \<Longrightarrow> get_healthy_backends s1 = get_healthy_backends s"
  by (simp add: get_healthy_backends_def fit_def)

lemma healthy_in:
  "lb_ok s \<Longrightarrow> b \<in> set (get_healthy_backends s)
    \<Longrightarrow> lb_backends s (bk_id b) = Some b \<and> fit s b \<and> can_accept_connections b"
  by (auto simp: get_healthy_backends_def in_map_filter lb_ok_def)

lemma length_healthy: "length (get_healthy_backends s) \<le> length (lb_list s)"
proof -
  have "length (List.map_filter f xs) \<le> length xs" for f :: "string \<Rightarrow> backend option" and xs
    by (simp add: List.map_filter_def)
  then show ?thesis unfolding get_healthy_backends_def by (meson length_filter_le order_trans)
qed

definition selection_sound :: "string option \<Rightarrow> load_balancer \<Rightarrow> selection \<Rightarrow> bool" where
  "selection_sound session s r = (case r of
      NoHealthyBackend \<Rightarrow> get_healthy_backends s = []
    | SelectionPanics \<Rightarrow> lb_algorithm s = AlgorithmWeightedRoundRobin
        \<and> total_weight (get_healthy_backends s) < 0
    | Chosen None \<Rightarrow> lb_algorithm s = AlgorithmHealthBased
        \<and> (\<forall>b\<in>set (get_healthy_backends s). bk_health_score b \<le> 0)
    | Chosen (Some b) \<Rightarrow> lb_backends s (bk_id b) = Some b \<and> fit s b
        \<and> (can_accept_connections b \<or> (\<exists>sid. session = Some sid \<and> lb_sessions s sid = Some (bk_id b))))"

lemma select_backend_spec:
  assumes "intn_ok intn" "lb_ok s" "length (lb_list s) < 2 ^ 64" "select_backend intn session s = (s', r)"
  shows "lb_ok s' \<and> selection_sound session s r"
proof -
  obtain s1 c where sticky: "sticky_backend session s = (s1, c)" by fastforce
  note st = sticky_backend_spec [OF sticky assms(2)]
  show ?thesis
  proof (cases c)
    case (Some b)
    with st assms(4) sticky have "s' = s1" "r = Chosen (Some b)" by (simp_all add: select_backend_def)
    with st Some assms(2) show ?thesis by (simp add: selection_sound_def)
  next
    case None
    let ?hs = "get_healthy_backends s"
    from st have hs: "get_healthy_backends s1 = ?hs" by (intro get_healthy_cong) auto
    show ?thesis
    proof (cases "?hs = []")
      case True
      with None assms(4) sticky hs st show ?thesis by (simp add: select_backend_def selection_sound_def)
    next
      case False
      obtain s2 r2 where by2: "select_by intn ?hs s1 = (s2, r2)" by fastforce
      have "length ?hs < 2 ^ 64" using length_healthy [of s] assms(3) by linarith
      note sound = select_by_sound [OF assms(1) False this by2]
      have "lb_ok s2" using st sound lb_ok_same [of s2 s1] by simp
      moreover have r: "r = r2" "s' = s2 \<or> (\<exists>sid b. r2 = Chosen (Some b) \<and> s' = s2\<lparr>lb_sessions := (lb_sessions s2)(sid \<mapsto> bk_id b)\<rparr>)"
        using assms(4) sticky None hs False by2
        by (auto simp: select_backend_def split: option.splits selection.splits if_splits)
      moreover have chosen: "lb_backends s (bk_id b) = Some b \<and> fit s b \<and> can_accept_connections b" if "r2 = Chosen (Some b)" for b
        using that sound healthy_in [OF assms(2)] by simp
      ultimately have "lb_ok s'"
      proof -
        have "lb_ok (s2\<lparr>lb_sessions := (lb_sessions s2)(sid \<mapsto> bk_id b)\<rparr>)" if "r2 = Chosen (Some b)" for sid b
        proof (rule lb_ok_sessions [OF \<open>lb_ok s2\<close>])
          have "bk_id b \<in> dom (lb_backends s2)" using chosen [OF that] st sound by auto
          with \<open>lb_ok s2\<close> show "ran ((lb_sessions s2)(sid \<mapsto> bk_id b)) \<subseteq> dom (lb_backends s2)"
            by (auto simp: lb_ok_def ran_def split: if_splits)
        qed
        with r \<open>lb_ok s2\<close> show ?thesis by blast
      qed
      moreover have "selection_sound session s r"
        unfolding selection_sound_def r(1) using sound st chosen False
        by (auto split: selection.splits option.splits)
      ultimately show ?thesis ..
    qed
  qed
qed

lemma lb_ok_step: "lb_step s s' \<Longrightarrow> lb_ok s \<Longrightarrow> lb_ok s'"
proof (induction rule: lb_step.induct)
  case (select intn session s s' r)
  then show ?case using select_backend_spec by blast
next
  case (release i s s' err)
  then show ?case by (auto simp: release_backend_def get_backend_def split: option.splits intro!: lb_ok_update)
next
  case (health i score s s' err)
  then show ?case by (auto simp: update_backend_health_def split: if_splits intro!: lb_ok_update)
next
  case (algorithm s a)
  then show ?case by (simp add: set_algorithm_def lb_ok_def)
next
  case (clear s)
  then show ?case by (simp add: clear_session_cache_def lb_ok_def)
qed (auto simp: increment_connections_def increment_request_count_def
    intro: lb_ok_add lb_ok_remove intro!: lb_ok_update)

text \<open>The error means that no backend is healthy and has room, and that the session is bound to none that is healthy.\<close>

lemma no_backend_iff:
  assumes "intn_ok intn" "lb_ok s" "length (lb_list s) < 2 ^ 64"
  shows "snd (select_backend intn session s) = NoHealthyBackend
    \<longleftrightarrow> get_healthy_backends s = [] \<and> snd (sticky_backend session s) = None"
proof -
  obtain s1 c where sticky: "sticky_backend session s = (s1, c)" by fastforce
  note st = sticky_backend_spec [OF sticky assms(2)]
  have hs: "get_healthy_backends s1 = get_healthy_backends s" using st by (intro get_healthy_cong) auto
  show ?thesis
  proof (cases "c = None \<and> get_healthy_backends s \<noteq> []")
    case True
    obtain s2 r2 where by2: "select_by intn (get_healthy_backends s) s1 = (s2, r2)" by fastforce
    have "length (get_healthy_backends s) < 2 ^ 64" using length_healthy [of s] assms(3) by linarith
    then have "r2 \<noteq> NoHealthyBackend" using select_by_sound [OF assms(1) _ _ by2] True by auto
    with True sticky hs by2 show ?thesis
      by (auto simp: select_backend_def split: option.split selection.split)
  qed (use sticky hs in \<open>cases c; auto simp: select_backend_def\<close>)
qed

lemma sticky_backend_some:
  assumes "lb_ok s"
  shows "snd (sticky_backend session s) = Some b \<longleftrightarrow> lc_sticky_session (lb_config s)
    \<and> (\<exists>sid. session = Some sid \<and> lb_sessions s sid = Some (bk_id b)) \<and> lb_backends s (bk_id b) = Some b \<and> fit s b"
proof (cases "if lc_sticky_session (lb_config s) then session else None")
  case None
  then show ?thesis by (auto simp: sticky_backend_def split: if_splits)
next
  case (Some sid)
  then have session: "lc_sticky_session (lb_config s)" "session = Some sid" by (auto split: if_splits)
  show ?thesis
  proof (cases "Option.bind (lb_sessions s sid) (lb_backends s)")
    case None
    then show ?thesis using session by (auto simp: sticky_backend_def)
  next
    case (Some c)
    then obtain i where i: "lb_sessions s sid = Some i" "lb_backends s i = Some c" by (auto simp: bind_eq_Some_conv)
    then have id: "bk_id c = i" using assms by (simp add: lb_ok_def)
    have "snd (sticky_backend session s) = Some b \<longleftrightarrow> fit s c \<and> b = c"
      using session Some by (auto simp: sticky_backend_def)
    also have "\<dots> \<longleftrightarrow> lb_sessions s sid = Some (bk_id b) \<and> lb_backends s (bk_id b) = Some b \<and> fit s b"
      using id i by (metis option.inject)
    finally show ?thesis using session by blast
  qed
qed

lemma no_healthy_iff:
  "lb_ok s \<Longrightarrow> get_healthy_backends s = [] \<longleftrightarrow> (\<forall>b\<in>ran (lb_backends s). \<not> (fit s b \<and> can_accept_connections b))"
proof -
  assume ok: "lb_ok s"
  have "b \<in> set (List.map_filter (lb_backends s) (lb_list s)) \<longleftrightarrow> b \<in> ran (lb_backends s)" for b
    using ok by (auto simp: in_map_filter lb_ok_def ran_def dom_def)
  then have "set (List.map_filter (lb_backends s) (lb_list s)) = ran (lb_backends s)" by blast
  then show ?thesis by (simp add: get_healthy_backends_def filter_empty_conv)
qed

text \<open>C25: backend selection. In every reachable state with fewer than 2^64 backends, for every algorithm and every draw
  of the random source, a selected backend is a registered one that is active and has at least the minimum health
  score, and it has room for a connection unless the session is already bound to it; the error is returned exactly
  when every registered backend is inactive, below the minimum score or full, and the session, with sticky sessions
  on, is not bound to one that is active and above it; no backend without an error is returned only by the health-based
  algorithm when all scores are zero or less; a panic needs a negative total weight.\<close>

theorem select_backend_sound:
  assumes "intn_ok intn" "lb_step\<^sup>*\<^sup>* (new_load_balancer config) s" "length (lb_list s) < 2 ^ 64"
  shows "(case snd (select_backend intn session s) of
      NoHealthyBackend \<Rightarrow> True
    | SelectionPanics \<Rightarrow> lb_algorithm s = AlgorithmWeightedRoundRobin
        \<and> total_weight (get_healthy_backends s) < 0
    | Chosen None \<Rightarrow> lb_algorithm s = AlgorithmHealthBased
        \<and> (\<forall>b\<in>set (get_healthy_backends s). bk_health_score b \<le> 0)
    | Chosen (Some b) \<Rightarrow> lb_backends s (bk_id b) = Some b \<and> bk_is_active b
        \<and> lc_min_health_score (lb_config s) \<le> bk_health_score b
        \<and> (can_accept_connections b \<or> (\<exists>sid. session = Some sid \<and> lb_sessions s sid = Some (bk_id b))))
    \<and> (snd (select_backend intn session s) = NoHealthyBackend \<longleftrightarrow>
        (\<forall>b\<in>ran (lb_backends s). \<not> (bk_is_active b \<and> lc_min_health_score (lb_config s) \<le> bk_health_score b
           \<and> can_accept_connections b))
        \<and> \<not> (\<exists>sid b. lc_sticky_session (lb_config s) \<and> session = Some sid \<and> lb_sessions s sid = Some (bk_id b)
             \<and> lb_backends s (bk_id b) = Some b \<and> bk_is_active b \<and> lc_min_health_score (lb_config s) \<le> bk_health_score b))"
proof -
  have ok: "lb_ok s" using assms(2)
  proof (induction rule: rtranclp_induct)
    case base
    show ?case by (simp add: lb_ok_def new_load_balancer_def Let_def)
  next
    case (step y z)
    with lb_ok_step show ?case by blast
  qed
  have sound: "selection_sound session s (snd (select_backend intn session s))"
    using select_backend_spec [OF assms(1) ok assms(3) prod.collapse [symmetric]] by blast
  have "snd (sticky_backend session s) = None \<longleftrightarrow> \<not> (\<exists>b. snd (sticky_backend session s) = Some b)" by simp
  note none = no_backend_iff [OF assms(1) ok assms(3), of session, unfolded no_healthy_iff [OF ok] this sticky_backend_some [OF ok]]
  have "case snd (select_backend intn session s) of
      NoHealthyBackend \<Rightarrow> True
    | SelectionPanics \<Rightarrow> lb_algorithm s = AlgorithmWeightedRoundRobin
        \<and> total_weight (get_healthy_backends s) < 0
    | Chosen None \<Rightarrow> lb_algorithm s = AlgorithmHealthBased
        \<and> (\<forall>b\<in>set (get_healthy_backends s). bk_health_score b \<le> 0)
    | Chosen (Some b) \<Rightarrow> lb_backends s (bk_id b) = Some b \<and> bk_is_active b
        \<and> lc_min_health_score (lb_config s) \<le> bk_health_score b
        \<and> (can_accept_connections b \<or> (\<exists>sid. session = Some sid \<and> lb_sessions s sid = Some (bk_id b)))"
    using sound by (auto simp: selection_sound_def fit_def split: selection.splits option.splits)
  with none show ?thesis unfolding fit_def by blast
qed

section \<open>Round robin is fair\<close>

fun select_times :: "(int \<Rightarrow> int) \<Rightarrow> nat \<Rightarrow> load_balancer \<Rightarrow> selection list" where
  "select_times intn 0 s = []"
| "select_times intn (Suc n) s = (case select_backend intn None s of (s, r) \<Rightarrow> r # select_times intn n s)"

lemma select_times_round_robin:
  assumes "lb_algorithm s = AlgorithmRoundRobin" "get_healthy_backends s = hs" "hs \<noteq> []" "length hs < 2 ^ 64"
    and "unat (lb_index s) + n \<le> 2 ^ 64"
  shows "select_times intn n s = map (\<lambda>j. Chosen (Some (hs ! ((unat (lb_index s) + j) mod length hs)))) [0..<n]"
  using assms
proof (induction n arbitrary: s)
  case (Suc n)
  let ?s = "s\<lparr>lb_index := lb_index s + 1\<rparr>" and ?i = "unat (lb_index s)"
  have first: "select_backend intn None s = (?s, Chosen (Some (hs ! (?i mod length hs))))"
    using Suc.prems round_robin_index [of "length hs" "lb_index s"]
    by (simp add: select_backend_def sticky_backend_def select_by_def select_round_robin_def Let_def)
  have rest: "select_times intn n ?s = map (\<lambda>j. Chosen (Some (hs ! ((?i + Suc j) mod length hs)))) [0..<n]"
  proof (cases n)
    case 0
    then show ?thesis by simp
  next
    case (Suc k)
    then have "?i + 1 < 2 ^ 64" using Suc.prems(5) by simp
    then have index: "unat (lb_index s + 1) = ?i + 1" by (simp add: unat_word_ariths(1))
    have "get_healthy_backends ?s = hs" using Suc.prems(2) by (simp add: get_healthy_cong [of ?s s])
    from Suc.IH [OF _ this Suc.prems(3,4)] Suc.prems(1,5) index show ?thesis by simp
  qed
  have "[0..<Suc n] = 0 # map Suc [0..<n]"
    by (simp add: map_Suc_upt upt_conv_Cons del: upt_Suc)
  then have split: "map f [0..<Suc n] = f 0 # map (\<lambda>j. f (Suc j)) [0..<n]" for f :: "nat \<Rightarrow> selection"
    by (simp add: comp_def)
  show ?case unfolding split using first rest by simp
qed simp

lemma rotation_permutes:
  assumes "xs \<noteq> []"
  shows "mset (map (\<lambda>j. xs ! ((i + j) mod length xs)) [0..<length xs]) = mset xs"
proof -
  have "map (\<lambda>j. xs ! ((i + j) mod length xs)) [0..<length xs] = rotate i xs"
    by (rule nth_equalityI) (simp_all add: nth_rotate add.commute)
  moreover have "mset (drop k xs @ take k xs) = mset xs" for k
    by (metis append_take_drop_id mset_append add.commute)
  ultimately show ?thesis by (simp add: rotate_drop_take del: mset_append)
qed

text \<open>Round robin is fair. While the backends do not change and the 64-bit counter does not wrap around,
  as many consecutive selections as there are healthy backends choose each of them exactly once.\<close>

theorem round_robin_fair:
  assumes "lb_algorithm s = AlgorithmRoundRobin" "get_healthy_backends s \<noteq> []"
    and "unat (lb_index s) + length (get_healthy_backends s) \<le> 2 ^ 64" "length (get_healthy_backends s) < 2 ^ 64"
  shows "mset (select_times intn (length (get_healthy_backends s)) s)
    = mset (map (\<lambda>b. Chosen (Some b)) (get_healthy_backends s))"
proof -
  let ?hs = "get_healthy_backends s"
  have "select_times intn (length ?hs) s
      = map (\<lambda>b. Chosen (Some b)) (map (\<lambda>j. ?hs ! ((unat (lb_index s) + j) mod length ?hs)) [0..<length ?hs])"
    using select_times_round_robin [OF assms(1) refl assms(2,4,3)] by (simp add: comp_def)
  then show ?thesis using rotation_permutes [OF assms(2), of "unat (lb_index s)"] by (metis mset_map)
qed

section \<open>Witnesses\<close>

definition sample_backend :: "string \<Rightarrow> backend" where
  "sample_backend i = \<lparr>bk_id = i, bk_address = i, bk_port = 80, bk_weight = 1, bk_max_connections = 0,
     bk_current_conns = 0, bk_health_score = 100, bk_is_active = True, bk_region = ''r'', bk_zone = ''z'',
     bk_request_count = 0\<rparr>"

definition sample_balancer :: load_balancer where
  "sample_balancer = fst (add_backend (Some (sample_backend ''b'')) (fst (add_backend (Some (sample_backend ''a''))
     (new_load_balancer None))))"

lemma sample_balancer_state:
  "lb_list sample_balancer = [''a'', ''b'']" "get_healthy_backends sample_balancer = [sample_backend ''a'', sample_backend ''b'']"
  "lb_algorithm sample_balancer = AlgorithmRoundRobin" "lb_index sample_balancer = 0"
  by (simp_all add: sample_balancer_def add_backend_def new_load_balancer_def Let_def default_lb_config_def
      sample_backend_def get_healthy_backends_def List.map_filter_def fit_def can_accept_connections_def)

lemma sample_balancer_reached: "lb_step\<^sup>*\<^sup>* (new_load_balancer None) sample_balancer"
proof -
  have step: "lb_step t (fst (add_backend new t))" for new t
    by (rule add [OF prod.collapse [symmetric]])
  show ?thesis
    unfolding sample_balancer_def
    by (rule rtranclp.rtrancl_into_rtrancl, rule rtranclp.rtrancl_into_rtrancl, rule rtranclp.rtrancl_refl)
      (rule step)+
qed

theorem select_backend_sound_witness:
  "\<exists>b. snd (select_backend (\<lambda>n. 0) None sample_balancer) = Chosen (Some b) \<and> bk_is_active b"
proof -
  have "intn_ok (\<lambda>n. 0)" by (simp add: intn_ok_def)
  from select_backend_sound [OF this sample_balancer_reached, of None] show ?thesis
    using sample_balancer_state(2)
    by (auto simp: sample_balancer_state select_backend_def sticky_backend_def select_by_def select_round_robin_def Let_def
        split: option.splits)
qed

theorem round_robin_fair_witness:
  "mset (select_times (\<lambda>n. 0) 2 sample_balancer)
    = {#Chosen (Some (sample_backend ''a'')), Chosen (Some (sample_backend ''b''))#}"
proof -
  have two: "length (get_healthy_backends sample_balancer) = 2" by (simp add: sample_balancer_state)
  have "mset (select_times (\<lambda>n. 0) (length (get_healthy_backends sample_balancer)) sample_balancer)
      = mset (map (\<lambda>b. Chosen (Some b)) (get_healthy_backends sample_balancer))"
    by (rule round_robin_fair) (simp_all add: two, simp_all add: sample_balancer_state)
  then show ?thesis unfolding two by (simp add: sample_balancer_state)
qed

end
