(* ===== verification/Quotas.thy ===== *)
theory Quotas
  imports Float64 "HOL-Library.AList"
begin

text \<open>
  Tenant quotas, \<^verbatim>\<open>tenant/quotas.go\<close>: a manager that keeps a cache of quota limits in front of the SQL
  table \<^verbatim>\<open>quota_limits\<close>, checks requests against them and books consumption. The database is reached
  through a record of operations, one per SQL statement of the file; the locale \<open>quota_store\<close> states
  what the statements promise, and \<open>sql_ops\<close> gives the meaning of the query texts on a table whose
  driver may fail at any call. Cached limits are values: callers are taken to pass a limit of their
  own to \<^verbatim>\<open>SetQuota\<close> and not to write to the ones they get. Messages are kept as their kind; the percentages
  in them are the \<open>usage_percent\<close> of the quota they are about.
\<close>

section \<open>Limits and results\<close>

type_synonym resource_type = string

datatype quota_period = QuotaPeriodHourly | QuotaPeriodDaily | QuotaPeriodWeekly | QuotaPeriodMonthly
  | QuotaPeriodForever | QuotaPeriodOther string

record quota_limit =
  ql_resource_type :: resource_type
  ql_max_value :: int
  ql_current_value :: int
  ql_unit :: string
  ql_period :: quota_period
  ql_soft_limit :: bool
  ql_alert_threshold :: int

datatype quota_error = ErrQuotaExceeded | ErrQuotaNotFound | ErrInvalidQuotaValue | ErrDatabase
  | ErrMetadata | ErrCheck quota_error | ErrUpdate quota_error | ErrInitialize quota_error

datatype quota_message = NoMessage | NoLimitSet | SoftLimitExceeded | RequestDenied | ApproachingLimit

record quota_check_result =
  qr_allowed :: bool
  qr_quota :: "quota_limit option"
  qr_usage_after :: int
  qr_exceeded :: bool
  qr_warning :: bool
  qr_message :: quota_message

record quota_usage_record =
  qu_tenant_id :: string
  qu_resource_type :: resource_type
  qu_quantity :: int
  qu_unit :: string
  qu_operation :: string
  qu_timestamp :: time

datatype alert_type = AlertWarning | AlertExceeded

text \<open>\<^verbatim>\<open>float64(a) / float64(m) * 100\<close>: a limit of zero gives an infinity or, for no usage, not a number.\<close>

datatype percent = Finite rat | PosInf | NegInf | NotANumber

definition usage_percent :: "int \<Rightarrow> int \<Rightarrow> percent" where
  "usage_percent a m =
     (if m = 0 then if a = 0 then NotANumber else if 0 < a then PosInf else NegInf
      else Finite (fl (fl (fl (of_int a) / fl (of_int m)) * 100)))"

definition percent_ge :: "percent \<Rightarrow> int \<Rightarrow> bool" where
  "percent_ge p t = (case p of Finite x \<Rightarrow> of_int t \<le> x | PosInf \<Rightarrow> True | NegInf \<Rightarrow> False | NotANumber \<Rightarrow> False)"

record quota_alert =
  qa_tenant_id :: string
  qa_resource_type :: resource_type
  qa_current_value :: int
  qa_max_value :: int
  qa_usage_percent :: percent
  qa_alert_type :: alert_type
  qa_timestamp :: time

section \<open>The database and the manager\<close>

text \<open>
  One operation per SQL statement. A query answers \<open>None\<close> when the driver reports an error, a statement
  tells whether it succeeded; each may also change the state of the driver. The query for all quotas
  answers the rows that could be scanned and whether scanning went on to the end; \<^verbatim>\<open>rows.Err()\<close> is not
  looked at, so rows that the driver fails to deliver are missing without an error.
\<close>

record 'd quota_db =
  db_select :: "string \<Rightarrow> resource_type \<Rightarrow> 'd \<Rightarrow> 'd \<times> quota_limit option option"
  db_select_all :: "string \<Rightarrow> 'd \<Rightarrow> 'd \<times> (quota_limit list \<times> bool) option"
  db_upsert :: "string \<Rightarrow> quota_limit \<Rightarrow> 'd \<Rightarrow> 'd \<times> bool"
  db_set_current :: "int \<Rightarrow> string \<Rightarrow> resource_type \<Rightarrow> 'd \<Rightarrow> 'd \<times> bool"
  db_mark_deleted :: "string \<Rightarrow> resource_type \<Rightarrow> 'd \<Rightarrow> 'd \<times> bool"
  db_insert_usage :: "quota_usage_record \<Rightarrow> 'd \<Rightarrow> 'd \<times> bool"

record 'd quota_manager =
  qm_db :: 'd
  qm_cache :: "string \<rightharpoonup> quota_limit"
  qm_alerts :: "quota_alert list"

definition new_quota_manager :: "'d \<Rightarrow> 'd quota_manager" where
  "new_quota_manager d = \<lparr>qm_db = d, qm_cache = Map.empty, qm_alerts = []\<rparr>"

definition cache_key :: "string \<Rightarrow> resource_type \<Rightarrow> string" where
  "cache_key t r = t @ '':'' @ r"

definition get_quota :: "'d quota_db \<Rightarrow> string \<Rightarrow> resource_type \<Rightarrow> 'd quota_manager
    \<Rightarrow> 'd quota_manager \<times> (quota_error + quota_limit)" where
  "get_quota db t r s =
     (case qm_cache s (cache_key t r) of
        Some q \<Rightarrow> (s, Inr q)
      | None \<Rightarrow>
          (case db_select db t r (qm_db s) of
             (d, None) \<Rightarrow> (s\<lparr>qm_db := d\<rparr>, Inl ErrDatabase)
           | (d, Some None) \<Rightarrow> (s\<lparr>qm_db := d\<rparr>, Inl ErrQuotaNotFound)
           | (d, Some (Some q)) \<Rightarrow>
               (s\<lparr>qm_db := d, qm_cache := (qm_cache s)(cache_key t r \<mapsto> q)\<rparr>, Inr q)))"

definition set_quota :: "'d quota_db \<Rightarrow> string \<Rightarrow> quota_limit \<Rightarrow> 'd quota_manager
    \<Rightarrow> 'd quota_manager \<times> quota_error option" where
  "set_quota db t q s =
     (if ql_max_value q < 0 then (s, Some ErrInvalidQuotaValue)
      else if ql_alert_threshold q < 0 \<or> 100 < ql_alert_threshold q then (s, Some ErrInvalidQuotaValue)
      else (case db_upsert db t q (qm_db s) of
        (d, False) \<Rightarrow> (s\<lparr>qm_db := d\<rparr>, Some ErrDatabase)
      | (d, True) \<Rightarrow>
          (s\<lparr>qm_db := d, qm_cache := (qm_cache s)(cache_key t (ql_resource_type q) \<mapsto> q)\<rparr>, None)))"

definition check_quota_alerts :: "time \<Rightarrow> string \<Rightarrow> quota_limit \<Rightarrow> quota_alert list \<Rightarrow> quota_alert list" where
  "check_quota_alerts now t q alerts =
     (let p = usage_percent (ql_current_value q) (ql_max_value q);
          kind = (if percent_ge p 100 then Some AlertExceeded
                  else if percent_ge p (ql_alert_threshold q) then Some AlertWarning else None)
      in case kind of
           None \<Rightarrow> alerts
         | Some k \<Rightarrow>
             if length alerts < 1000
             then alerts @ [\<lparr>qa_tenant_id = t, qa_resource_type = ql_resource_type q,
               qa_current_value = ql_current_value q, qa_max_value = ql_max_value q, qa_usage_percent = p,
               qa_alert_type = k, qa_timestamp = now\<rparr>]
             else alerts)"

definition new_usage :: "quota_limit \<Rightarrow> int \<Rightarrow> int" where
  "new_usage q delta = (let v = i64 (ql_current_value q + delta) in if v < 0 then 0 else v)"

definition update_quota :: "'d quota_db \<Rightarrow> time \<Rightarrow> string \<Rightarrow> resource_type \<Rightarrow> int \<Rightarrow> 'd quota_manager
    \<Rightarrow> 'd quota_manager \<times> quota_error option" where
  "update_quota db now t r delta s =
     (case get_quota db t r s of
        (s, Inl e) \<Rightarrow> (s, Some e)
      | (s, Inr q) \<Rightarrow>
          (case db_set_current db (new_usage q delta) t r (qm_db s) of
             (d, False) \<Rightarrow> (s\<lparr>qm_db := d\<rparr>, Some ErrDatabase)
           | (d, True) \<Rightarrow>
               let q' = q\<lparr>ql_current_value := new_usage q delta\<rparr>
               in (s\<lparr>qm_db := d, qm_cache := (qm_cache s)(cache_key t r \<mapsto> q'),
                     qm_alerts := check_quota_alerts now t q' (qm_alerts s)\<rparr>, None)))"

text \<open>\<^verbatim>\<open>CheckQuota\<close> returns its result along with the error when it denies a request.\<close>

definition judge_request :: "quota_limit \<Rightarrow> int \<Rightarrow> quota_check_result \<times> quota_error option" where
  "judge_request q amount =
     (let usage = i64 (ql_current_value q + amount);
          p = usage_percent usage (ql_max_value q);
          result = \<lparr>qr_allowed = False, qr_quota = Some q, qr_usage_after = usage, qr_exceeded = False,
            qr_warning = False, qr_message = NoMessage\<rparr>
      in if ql_max_value q < usage \<and> \<not> ql_soft_limit q
         then (result\<lparr>qr_exceeded := True, qr_message := RequestDenied\<rparr>, Some ErrQuotaExceeded)
         else
           let result = (if ql_max_value q < usage
                 then result\<lparr>qr_exceeded := True, qr_allowed := True, qr_message := SoftLimitExceeded\<rparr>
                 else result\<lparr>qr_allowed := True\<rparr>)
           in (if percent_ge p (ql_alert_threshold q)
               then result\<lparr>qr_warning := True, qr_message := ApproachingLimit\<rparr> else result, None))"

definition no_limit_result :: "int \<Rightarrow> quota_check_result" where
  "no_limit_result amount = \<lparr>qr_allowed = True, qr_quota = None, qr_usage_after = amount, qr_exceeded = False,
     qr_warning = False, qr_message = NoLimitSet\<rparr>"

definition check_quota :: "'d quota_db \<Rightarrow> string \<Rightarrow> resource_type \<Rightarrow> int \<Rightarrow> 'd quota_manager
    \<Rightarrow> 'd quota_manager \<times> quota_check_result option \<times> quota_error option" where
  "check_quota db t r amount s =
     (case get_quota db t r s of
        (s, Inl e) \<Rightarrow>
          if e = ErrQuotaNotFound then (s, Some (no_limit_result amount), None)
          else (s, None, Some (ErrCheck e))
      | (s, Inr q) \<Rightarrow> (case judge_request q amount of (result, err) \<Rightarrow> (s, Some result, err)))"

definition record_usage :: "'d quota_db \<Rightarrow> time \<Rightarrow> bool \<Rightarrow> quota_usage_record \<Rightarrow> 'd quota_manager
    \<Rightarrow> 'd quota_manager \<times> quota_error option" where
  "record_usage db now marshals u s =
     (case update_quota db now (qu_tenant_id u) (qu_resource_type u) (qu_quantity u) s of
        (s, Some e) \<Rightarrow> (s, Some (ErrUpdate e))
      | (s, None) \<Rightarrow>
          if \<not> marshals then (s, Some ErrMetadata)
          else (case db_insert_usage db u (qm_db s) of
            (d, ok) \<Rightarrow> (s\<lparr>qm_db := d\<rparr>, if ok then None else Some ErrDatabase)))"

fun cache_all :: "string \<Rightarrow> quota_limit list \<Rightarrow> (string \<rightharpoonup> quota_limit) \<Rightarrow> (string \<rightharpoonup> quota_limit)" where
  "cache_all t [] m = m"
| "cache_all t (q # qs) m = cache_all t qs (m(cache_key t (ql_resource_type q) \<mapsto> q))"

text \<open>The returned map, by resource type, is given as the list of rows it is filled from.\<close>

definition get_all_quotas :: "'d quota_db \<Rightarrow> string \<Rightarrow> 'd quota_manager
    \<Rightarrow> 'd quota_manager \<times> (quota_error + quota_limit list)" where
  "get_all_quotas db t s =
     (case db_select_all db t (qm_db s) of
        (d, None) \<Rightarrow> (s\<lparr>qm_db := d\<rparr>, Inl ErrDatabase)
      | (d, Some (qs, scanned)) \<Rightarrow>
          (s\<lparr>qm_db := d, qm_cache := cache_all t qs (qm_cache s)\<rparr>, if scanned then Inr qs else Inl ErrDatabase))"

definition reset_quota :: "'d quota_db \<Rightarrow> time \<Rightarrow> string \<Rightarrow> resource_type \<Rightarrow> 'd quota_manager
    \<Rightarrow> 'd quota_manager \<times> quota_error option" where
  "reset_quota db now t r = update_quota db now t r (- 1000000)"

definition delete_quota :: "'d quota_db \<Rightarrow> string \<Rightarrow> resource_type \<Rightarrow> 'd quota_manager
    \<Rightarrow> 'd quota_manager \<times> quota_error option" where
  "delete_quota db t r s =
     (case db_mark_deleted db t r (qm_db s) of
        (d, False) \<Rightarrow> (s\<lparr>qm_db := d\<rparr>, Some ErrDatabase)
      | (d, True) \<Rightarrow> (s\<lparr>qm_db := d, qm_cache := (qm_cache s)(cache_key t r := None)\<rparr>, None))"

record quota_summary =
  qs_quotas :: "quota_limit list"
  qs_healthy :: bool
  qs_warnings :: nat
  qs_exceeded :: nat

fun summarise :: "quota_limit list \<Rightarrow> quota_summary \<Rightarrow> quota_summary" where
  "summarise [] y = y"
| "summarise (q # qs) y =
     (let p = usage_percent (ql_current_value q) (ql_max_value q)
      in summarise qs
           (if percent_ge p 100
            then y\<lparr>qs_exceeded := qs_exceeded y + 1, qs_healthy := qs_healthy y \<and> ql_soft_limit q\<rparr>
            else if percent_ge p (ql_alert_threshold q) then y\<lparr>qs_warnings := qs_warnings y + 1\<rparr> else y))"

definition get_quota_summary :: "'d quota_db \<Rightarrow> string \<Rightarrow> 'd quota_manager
    \<Rightarrow> 'd quota_manager \<times> (quota_error + quota_summary)" where
  "get_quota_summary db t s =
     (case get_all_quotas db t s of
        (s, Inl e) \<Rightarrow> (s, Inl e)
      | (s, Inr qs) \<Rightarrow> (s, Inr (summarise qs \<lparr>qs_quotas = qs, qs_healthy = True, qs_warnings = 0, qs_exceeded = 0\<rparr>)))"

section \<open>Requests for several resources\<close>

text \<open>
  A request is a map from resource types to amounts, given as its bindings in the order the loop
  meets them; \<^verbatim>\<open>ConsumeResources\<close> ranges over it twice, in two orders. The flag \<^verbatim>\<open>allAllowed\<close> is kept,
  though a result that is not allowed always comes with an error.
\<close>

fun check_loop :: "'d quota_db \<Rightarrow> string \<Rightarrow> (resource_type \<times> int) list \<Rightarrow> quota_check_result list \<Rightarrow> bool
    \<Rightarrow> 'd quota_manager \<Rightarrow> 'd quota_manager \<times> quota_check_result list \<times> quota_error option" where
  "check_loop db t [] results all_allowed s =
     (s, results, if all_allowed then None else Some ErrQuotaExceeded)"
| "check_loop db t ((r, amount) # reqs) results all_allowed s =
     (case check_quota db t r amount s of
        (s, answer, err) \<Rightarrow>
          (case err of
             Some e \<Rightarrow> (s, [], Some e)
           | None \<Rightarrow>
               (case answer of
                  None \<Rightarrow> (s, [], None)
                | Some result \<Rightarrow>
                    check_loop db t reqs (results @ [result]) (all_allowed \<and> qr_allowed result) s)))"

definition check_request :: "'d quota_db \<Rightarrow> string \<Rightarrow> (resource_type \<times> int) list \<Rightarrow> 'd quota_manager
    \<Rightarrow> 'd quota_manager \<times> quota_check_result list \<times> quota_error option" where
  "check_request db t reqs = check_loop db t reqs [] True"

fun update_loop :: "'d quota_db \<Rightarrow> time \<Rightarrow> string \<Rightarrow> (resource_type \<times> int) list \<Rightarrow> 'd quota_manager
    \<Rightarrow> 'd quota_manager \<times> quota_error option" where
  "update_loop db now t [] s = (s, None)"
| "update_loop db now t ((r, amount) # reqs) s =
     (case update_quota db now t r amount s of
        (s, Some e) \<Rightarrow> (s, Some (ErrUpdate e))
      | (s, None) \<Rightarrow> update_loop db now t reqs s)"

definition consume_resources :: "'d quota_db \<Rightarrow> time \<Rightarrow> string \<Rightarrow> (resource_type \<times> int) list
    \<Rightarrow> (resource_type \<times> int) list \<Rightarrow> 'd quota_manager \<Rightarrow> 'd quota_manager \<times> quota_error option" where
  "consume_resources db now t reqs reqs' s =
     (case check_request db t reqs s of
        (s, _, Some e) \<Rightarrow> (s, Some e)
      | (s, results, None) \<Rightarrow>
          if \<exists>result\<in>set results. \<not> qr_allowed result then (s, Some (ErrCheck ErrQuotaExceeded))
          else update_loop db now t reqs' s)"

section \<open>Default quotas\<close>

definition default_quota :: "resource_type \<Rightarrow> int \<Rightarrow> string \<Rightarrow> quota_period \<Rightarrow> quota_limit" where
  "default_quota r m u p = \<lparr>ql_resource_type = r, ql_max_value = m, ql_current_value = 0, ql_unit = u,
     ql_period = p, ql_soft_limit = False, ql_alert_threshold = 80\<rparr>"

definition get_default_quotas :: "quota_limit list" where
  "get_default_quotas =
     [default_quota ''storage'' (100 * 1024 * 1024 * 1024) ''bytes'' QuotaPeriodForever,
      default_quota ''models'' 50 ''count'' QuotaPeriodForever,
      default_quota ''inference'' 100000 ''requests'' QuotaPeriodMonthly,
      default_quota ''tokens'' 10000000 ''tokens'' QuotaPeriodMonthly,
      default_quota ''gpu'' 4 ''hours'' QuotaPeriodMonthly,
      default_quota ''api_requests'' 1000000 ''requests'' QuotaPeriodDaily]"

fun initialize_loop :: "'d quota_db \<Rightarrow> string \<Rightarrow> quota_limit list \<Rightarrow> 'd quota_manager
    \<Rightarrow> 'd quota_manager \<times> quota_error option" where
  "initialize_loop db t [] s = (s, None)"
| "initialize_loop db t (q # qs) s =
     (case set_quota db t q s of
        (s, Some e) \<Rightarrow> (s, Some (ErrInitialize e))
      | (s, None) \<Rightarrow> initialize_loop db t qs s)"

definition initialize_default_quotas :: "'d quota_db \<Rightarrow> string \<Rightarrow> 'd quota_manager
    \<Rightarrow> 'd quota_manager \<times> quota_error option" where
  "initialize_default_quotas db t = initialize_loop db t get_default_quotas"

section \<open>What the SQL statements promise\<close>

text \<open>
  \<open>row d t r\<close> is the table's row for a tenant and a resource with its \<^verbatim>\<open>deleted_at IS NOT NULL\<close>; a query sees
  the rows not deleted. The upsert keeps the usage and the deletion mark of a row that exists, as its
  \<^verbatim>\<open>DO UPDATE SET\<close> list leaves them out; a statement that fails changes nothing.
\<close>

type_synonym quota_rows = "string \<Rightarrow> resource_type \<Rightarrow> (quota_limit \<times> bool) option"

definition live :: "quota_rows \<Rightarrow> string \<Rightarrow> resource_type \<Rightarrow> quota_limit option" where
  "live rows t r = (case rows t r of Some (q, False) \<Rightarrow> Some q | _ \<Rightarrow> None)"

definition put_row :: "string \<Rightarrow> resource_type \<Rightarrow> (quota_limit \<times> bool) option \<Rightarrow> quota_rows \<Rightarrow> quota_rows" where
  "put_row t r x rows = rows(t := (rows t)(r := x))"

definition upserted :: "quota_limit \<Rightarrow> (quota_limit \<times> bool) option \<Rightarrow> quota_limit \<times> bool" where
  "upserted q x = (case x of None \<Rightarrow> (q, False)
     | Some (old, deleted) \<Rightarrow> (q\<lparr>ql_current_value := ql_current_value old\<rparr>, deleted))"

locale quota_store =
  fixes db :: "'d quota_db" and row :: "'d \<Rightarrow> quota_rows"
  assumes select: "db_select db t r d = (d', a) \<Longrightarrow> row d' = row d \<and> (a = None \<or> a = Some (live (row d) t r))"
    and select_all: "db_select_all db t d = (d', b) \<Longrightarrow> row d' = row d
        \<and> (case b of None \<Rightarrow> True | Some (qs, _) \<Rightarrow> \<forall>q\<in>set qs. live (row d) t (ql_resource_type q) = Some q)"
    and upsert: "db_upsert db t q d = (d', ok) \<Longrightarrow> row d' =
        (if ok then put_row t (ql_resource_type q) (Some (upserted q (row d t (ql_resource_type q)))) (row d) else row d)"
    and set_current: "db_set_current db v t r d = (d', ok) \<Longrightarrow> row d' =
        (if ok then put_row t r (map_option (\<lambda>(q, x). (q\<lparr>ql_current_value := v\<rparr>, x)) (row d t r)) (row d) else row d)"
    and mark_deleted: "db_mark_deleted db t r d = (d', ok) \<Longrightarrow> row d' =
        (if ok then put_row t r (map_option (\<lambda>(q, x). (q, True)) (row d t r)) (row d) else row d)"
    and insert_usage: "db_insert_usage db u d = (d', ok) \<Longrightarrow> row d' = row d"

text \<open>
  Resource types contain no colon, so that the key of a tenant and a resource determines both. The quota
  \<open>in_force\<close> is the one the manager works with: the cached one, and only without it the row.
\<close>

definition plain :: "resource_type \<Rightarrow> bool" where
  "plain r \<longleftrightarrow> CHR '':'' \<notin> set r"

lemma cache_key_inj: "plain r \<Longrightarrow> plain r' \<Longrightarrow> cache_key t r = cache_key t' r' \<longleftrightarrow> t = t' \<and> r = r'"
  by (auto simp: cache_key_def plain_def append_eq_Cons_conv Cons_eq_append_conv append_eq_append_conv2)

definition in_force :: "quota_rows \<Rightarrow> (string \<rightharpoonup> quota_limit) \<Rightarrow> string \<Rightarrow> resource_type \<Rightarrow> quota_limit option" where
  "in_force rows cache t r = (case cache (cache_key t r) of Some q \<Rightarrow> Some q | None \<Rightarrow> live rows t r)"

text \<open>Usage is non-negative and stays below a hard limit; cache and row have the same limit.\<close>

abbreviation quotas_in_force :: "('d \<Rightarrow> quota_rows) \<Rightarrow> 'd quota_manager \<Rightarrow> string \<Rightarrow> resource_type \<Rightarrow> quota_limit option" where
  "quotas_in_force row s \<equiv> in_force (row (qm_db s)) (qm_cache s)"

definition keeps_limit :: "quota_limit \<Rightarrow> bool" where
  "keeps_limit q \<longleftrightarrow> 0 \<le> ql_current_value q \<and> (ql_soft_limit q \<or> ql_current_value q \<le> ql_max_value q)"

definition limits_kept :: "quota_rows \<Rightarrow> bool" where
  "limits_kept rows \<longleftrightarrow> (\<forall>t r q x. rows t r = Some (q, x) \<longrightarrow> plain r \<and> keeps_limit q)"

definition same_limit :: "quota_limit \<Rightarrow> quota_limit \<Rightarrow> bool" where
  "same_limit p q \<longleftrightarrow> ql_max_value p = ql_max_value q \<and> ql_soft_limit p = ql_soft_limit q"

definition quotas_ok :: "quota_rows \<Rightarrow> (string \<rightharpoonup> quota_limit) \<Rightarrow> bool" where
  "quotas_ok rows cache \<longleftrightarrow> limits_kept rows
     \<and> (\<forall>t r q. plain r \<longrightarrow> cache (cache_key t r) = Some q
          \<longrightarrow> keeps_limit q \<and> (\<exists>p x. rows t r = Some (p, x) \<and> same_limit p q))"

text \<open>A request has room in a quota; what booking it makes of the quota.\<close>

definition has_room :: "quota_limit \<Rightarrow> int \<Rightarrow> bool" where
  "has_room q amount \<longleftrightarrow> ql_soft_limit q \<or> i64 (ql_current_value q + amount) \<le> ql_max_value q"

abbreviation charged :: "quota_limit \<Rightarrow> int \<Rightarrow> quota_limit" where
  "charged q amount \<equiv> q\<lparr>ql_current_value := new_usage q amount\<rparr>"

definition set_usage :: "string \<Rightarrow> resource_type \<Rightarrow> int \<Rightarrow> quota_rows \<Rightarrow> quota_rows" where
  "set_usage t r v rows = put_row t r (map_option (\<lambda>(q, x). (q\<lparr>ql_current_value := v\<rparr>, x)) (rows t r)) rows"

lemma live_put_row [simp]:
  "live (put_row t r x rows) t' r' = (if t' = t \<and> r' = r then (case x of Some (q, False) \<Rightarrow> Some q | _ \<Rightarrow> None)
     else live rows t' r')"
  by (auto simp: live_def put_row_def)

lemma live_some: "live rows t r = Some q \<longleftrightarrow> rows t r = Some (q, False)"
  by (auto simp: live_def split: option.splits bool.splits)

lemma new_usage_keeps_limit: "keeps_limit q \<Longrightarrow> has_room q amount \<Longrightarrow> keeps_limit (charged q amount)"
  by (auto simp: keeps_limit_def has_room_def new_usage_def Let_def)

text \<open>Reading quotas loads rows into the cache, where nothing is cached yet; what is in force stays the same.\<close>

definition loaded :: "quota_rows \<Rightarrow> (string \<rightharpoonup> quota_limit) \<Rightarrow> (string \<rightharpoonup> quota_limit) \<Rightarrow> bool" where
  "loaded rows c c' \<longleftrightarrow> (\<forall>k. c' k = c k \<or> c k = None
     \<and> (\<exists>t r q. k = cache_key t r \<and> plain r \<and> live rows t r = Some q \<and> c' k = Some q))"

lemma loaded_refl [simp]: "loaded rows c c"
  by (simp add: loaded_def)

lemma loaded_trans: "loaded rows c c1 \<Longrightarrow> loaded rows c1 c2 \<Longrightarrow> loaded rows c c2"
  unfolding loaded_def by metis

lemma loaded_cases:
  assumes "loaded rows c c'" "plain r"
  shows "c' (cache_key t r) = c (cache_key t r) \<or> c (cache_key t r) = None \<and> c' (cache_key t r) = live rows t r"
  using assms unfolding loaded_def by (metis cache_key_inj)

lemma loaded_in_force:
  assumes "loaded rows c c'" "plain r"
  shows "in_force rows c' t r = in_force rows c t r"
  using loaded_cases [OF assms, of t] by (auto simp: in_force_def split: option.splits)

lemma quotas_ok_in_force:
  "quotas_ok rows c \<Longrightarrow> plain r \<Longrightarrow> in_force rows c t r = Some q
    \<Longrightarrow> keeps_limit q \<and> (\<exists>p x. rows t r = Some (p, x) \<and> same_limit p q)"
  by (fastforce simp: quotas_ok_def in_force_def limits_kept_def live_some same_limit_def split: option.splits)

lemma quotas_ok_loaded:
  assumes "quotas_ok rows c" "loaded rows c c'"
  shows "quotas_ok rows c'"
proof -
  have "keeps_limit q \<and> (\<exists>p x. rows t r = Some (p, x) \<and> same_limit p q)"
    if "plain r" "c' (cache_key t r) = Some q" for t r q
    using quotas_ok_in_force [OF assms(1) that(1), of t q] loaded_in_force [OF assms(2) that(1), of t] that(2)
    by (simp add: in_force_def)
  with assms(1) show ?thesis by (simp add: quotas_ok_def)
qed

text \<open>Booking: the row and the cache get the new usage.\<close>

lemma quotas_ok_put:
  assumes "quotas_ok rows c" "plain r" "keeps_limit q" "keeps_limit p" "same_limit p q"
  shows "quotas_ok (put_row t r (Some (p, x)) rows) (c(cache_key t r \<mapsto> q))"
  using assms by (auto simp: quotas_ok_def limits_kept_def put_row_def cache_key_inj split: if_splits)

lemma quotas_ok_booked:
  assumes "quotas_ok rows c" "plain r" "in_force rows c t r = Some q" "keeps_limit (q\<lparr>ql_current_value := v\<rparr>)"
  shows "quotas_ok (set_usage t r v rows) (c(cache_key t r \<mapsto> q\<lparr>ql_current_value := v\<rparr>))"
proof -
  from quotas_ok_in_force [OF assms(1-3)] obtain p x where p: "rows t r = Some (p, x)" "same_limit p q" by blast
  with assms(4) have "keeps_limit (p\<lparr>ql_current_value := v\<rparr>)" by (simp add: keeps_limit_def same_limit_def)
  with p assms(1,2,4) show ?thesis by (auto simp: set_usage_def same_limit_def intro: quotas_ok_put)
qed

lemma in_force_booked:
  assumes "plain r" "plain r'"
  shows "in_force (set_usage t r v rows) (c(cache_key t r \<mapsto> q)) t' r'
    = (if t' = t \<and> r' = r then Some q else in_force rows c t' r')"
  using cache_key_inj [OF assms(2,1), of t' t]
  by (cases "t' = t \<and> r' = r") (simp_all only: in_force_def set_usage_def live_put_row fun_upd_apply simp_thms if_True if_False option.case)

context quota_store begin

abbreviation rows :: "'d quota_manager \<Rightarrow> quota_rows" where "rows s \<equiv> row (qm_db s)"
abbreviation force :: "'d quota_manager \<Rightarrow> string \<Rightarrow> resource_type \<Rightarrow> quota_limit option" where
  "force s \<equiv> in_force (rows s) (qm_cache s)"
abbreviation loads :: "'d quota_manager \<Rightarrow> 'd quota_manager \<Rightarrow> bool" where
  "loads s s' \<equiv> rows s' = rows s \<and> loaded (rows s) (qm_cache s) (qm_cache s')"

lemma get_quota_spec:
  assumes "plain r" "get_quota db t r s = (s', res)"
  shows "loads s s' \<and> (case res of
      Inl e \<Rightarrow> e = ErrDatabase \<or> e = ErrQuotaNotFound \<and> force s t r = None
    | Inr q \<Rightarrow> force s t r = Some q \<and> qm_cache s' (cache_key t r) = Some q)"
proof (cases "qm_cache s (cache_key t r)")
  case None
  obtain d a where sel: "db_select db t r (qm_db s) = (d, a)" by fastforce
  with select have d: "row d = rows s" "a = None \<or> a = Some (live (rows s) t r)" by blast+
  have f: "force s t r = live (rows s) t r" using None by (simp add: in_force_def)
  show ?thesis
  proof (cases "a = None \<or> live (rows s) t r = None")
    case True
    with None sel d f assms show ?thesis by (auto simp: get_quota_def)
  next
    case False
    then obtain q where q: "live (rows s) t r = Some q" "a = Some (Some q)" using d(2) by auto
    then have "loaded (rows s) (qm_cache s) ((qm_cache s)(cache_key t r \<mapsto> q))"
      using None assms(1) by (auto simp: loaded_def)
    with q None sel d f assms(2) show ?thesis by (auto simp: get_quota_def)
  qed
next
  case (Some q)
  with assms show ?thesis by (auto simp: get_quota_def in_force_def)
qed

lemma update_quota_spec:
  assumes "plain r" "update_quota db now t r delta s = (s', err)"
  shows "if err = None then \<exists>q s1. force s t r = Some q \<and> loads s s1 \<and> rows s' = set_usage t r (new_usage q delta) (rows s)
      \<and> qm_cache s' = (qm_cache s1)(cache_key t r \<mapsto> charged q delta)
    else loads s s' \<and> err \<noteq> Some ErrQuotaExceeded"
proof -
  obtain s1 res where g: "get_quota db t r s = (s1, res)" by fastforce
  note spec = get_quota_spec [OF assms(1) g]
  show ?thesis
  proof (cases res)
    case (Inl e)
    with g spec assms(2) show ?thesis by (auto simp: update_quota_def)
  next
    case (Inr q)
    obtain d ok where u: "db_set_current db (new_usage q delta) t r (qm_db s1) = (d, ok)" by fastforce
    from set_current [OF u] spec have "row d = (if ok then set_usage t r (new_usage q delta) (rows s) else rows s)"
      by (simp add: set_usage_def)
    with assms(2) g Inr u spec show ?thesis
      by (cases ok) (auto simp: update_quota_def Let_def)
  qed
qed

lemma update_quota_force:
  assumes "plain r" "update_quota db now t r delta s = (s', None)" "plain r'"
  shows "\<exists>q. force s t r = Some q \<and> force s' t' r' = (if t' = t \<and> r' = r then Some (charged q delta) else force s t' r')"
proof -
  from update_quota_spec [OF assms(1,2)] obtain q s1 where q: "force s t r = Some q" "loads s s1"
      "rows s' = set_usage t r (new_usage q delta) (rows s)" "qm_cache s' = (qm_cache s1)(cache_key t r \<mapsto> charged q delta)"
    by auto
  have "in_force (rows s) (qm_cache s1) t' r' = force s t' r'"
    using loaded_in_force [OF conjunct2 [OF q(2)] assms(3)] .
  with q in_force_booked [OF assms(1,3)] show ?thesis by auto
qed

lemma update_quota_ok:
  assumes "quotas_ok (rows s) (qm_cache s)" "plain r" "update_quota db now t r delta s = (s', err)"
    and "\<And>q. force s t r = Some q \<Longrightarrow> keeps_limit q \<Longrightarrow> keeps_limit (charged q delta)"
  shows "quotas_ok (rows s') (qm_cache s')"
proof (cases err)
  case None
  with update_quota_spec [OF assms(2,3)] obtain q s1 where q: "force s t r = Some q" "loads s s1"
      "rows s' = set_usage t r (new_usage q delta) (rows s)" "qm_cache s' = (qm_cache s1)(cache_key t r \<mapsto> charged q delta)"
    by auto
  have ok1: "quotas_ok (rows s) (qm_cache s1)" using quotas_ok_loaded assms(1) q(2) by blast
  have f1: "in_force (rows s) (qm_cache s1) t r = Some q"
    using loaded_in_force [OF conjunct2 [OF q(2)] assms(2), of t] q(1) by simp
  have "keeps_limit (charged q delta)"
    using assms(4) [OF q(1)] quotas_ok_in_force [OF assms(1,2) q(1)] by blast
  from quotas_ok_booked [OF ok1 assms(2) f1 this] show ?thesis by (simp add: q)
next
  case (Some e)
  with update_quota_spec [OF assms(2,3)] quotas_ok_loaded [OF assms(1)] show ?thesis by auto
qed

lemma judge_request_cases:
  assumes "judge_request q amount = (result, err)"
  shows "(err = None \<longleftrightarrow> has_room q amount) \<and> (qr_allowed result \<longleftrightarrow> err = None) \<and> (err = None \<or> err = Some ErrQuotaExceeded)"
  using assms by (auto simp: judge_request_def has_room_def Let_def split: if_splits)

definition roomy :: "'d quota_manager \<Rightarrow> string \<Rightarrow> resource_type \<times> int \<Rightarrow> bool" where
  "roomy s t = (\<lambda>(r, amount). \<forall>q. force s t r = Some q \<longrightarrow> has_room q amount)"

lemma roomy_loads: "loads s s' \<Longrightarrow> plain r \<Longrightarrow> roomy s' t (r, a) = roomy s t (r, a)"
  using loaded_in_force [of "rows s" "qm_cache s" "qm_cache s'" r t] by (simp add: roomy_def)

lemma check_quota_spec:
  assumes "plain r" "check_quota db t r amount s = (s', result, err)"
  shows "loads s s' \<and> (err = None \<longrightarrow> roomy s t (r, amount) \<and> (\<exists>x. result = Some x \<and> qr_allowed x))
    \<and> (err = Some ErrQuotaExceeded \<longrightarrow> \<not> roomy s t (r, amount))"
proof -
  obtain s1 res where g: "get_quota db t r s = (s1, res)" by fastforce
  note spec = get_quota_spec [OF assms(1) g]
  show ?thesis
  proof (cases res)
    case (Inl e)
    show ?thesis
    proof (cases "e = ErrQuotaNotFound")
      case True
      from assms(2) g Inl True have "s' = s1" "err = None" "result = Some (no_limit_result amount)"
        by (simp_all add: check_quota_def)
      moreover have "qr_allowed (no_limit_result amount)" by (simp add: no_limit_result_def)
      ultimately show ?thesis using spec Inl True by (auto simp: roomy_def)
    next
      case False
      from assms(2) g Inl False have "s' = s1" "err = Some (ErrCheck e)" by (simp_all add: check_quota_def)
      with spec Inl False show ?thesis by auto
    qed
  next
    case (Inr q)
    obtain x e where j: "judge_request q amount = (x, e)" by fastforce
    from assms(2) g Inr j have ret: "s' = s1" "result = Some x" "err = e" by (simp_all add: check_quota_def)
    from spec Inr have "loads s s1" "force s t r = Some q" by auto
    with judge_request_cases [OF j] show ?thesis unfolding ret by (auto simp: roomy_def)
  qed
qed

lemma check_loop_spec:
  "\<forall>(r, a)\<in>set reqs. plain r \<Longrightarrow> check_loop db t reqs results allowed s = (s', results', err)
    \<Longrightarrow> \<forall>x\<in>set results. qr_allowed x \<Longrightarrow> allowed
    \<Longrightarrow> loads s s' \<and> (err = None \<longrightarrow> (\<forall>p\<in>set reqs. roomy s t p) \<and> (\<forall>x\<in>set results'. qr_allowed x))
      \<and> (err = Some ErrQuotaExceeded \<longrightarrow> (\<exists>p\<in>set reqs. \<not> roomy s t p))"
proof (induction reqs arbitrary: s results allowed)
  case (Cons p reqs)
  obtain r a where p: "p = (r, a)" by fastforce
  obtain s1 x e where c: "check_quota db t r a s = (s1, x, e)" by (metis surj_pair)
  from Cons.prems(1) p have "plain r" by simp
  note spec = check_quota_spec [OF this c]
  have same: "roomy s1 t q = roomy s t q" if "q \<in> set reqs" for q
  proof -
    obtain r' a' where q: "q = (r', a')" by fastforce
    with that Cons.prems(1) have "plain r'" by auto
    with conjunct1 [OF spec] show ?thesis unfolding q by (rule roomy_loads)
  qed
  show ?case
  proof (cases e)
    case None
    with spec obtain y where y: "x = Some y" "qr_allowed y" by auto
    with Cons.prems(2) p c None have "check_loop db t reqs (results @ [y]) True s1 = (s', results', err)"
      using Cons.prems(4) by simp
    from Cons.IH [OF _ this] Cons.prems(1,3) y
    have "loads s1 s' \<and> (err = None \<longrightarrow> (\<forall>p\<in>set reqs. roomy s1 t p) \<and> (\<forall>x\<in>set results'. qr_allowed x))
      \<and> (err = Some ErrQuotaExceeded \<longrightarrow> (\<exists>p\<in>set reqs. \<not> roomy s1 t p))" by auto
    with spec None p same loaded_trans show ?thesis by (metis list.set_intros(2) set_ConsD)
  next
    case (Some e')
    with Cons.prems(2) p c spec show ?thesis by auto
  qed
qed auto

text \<open>Booking what has room: each quota in force is booked, or unchanged if the loop ends with an error.\<close>

lemma update_loop_spec:
  "\<forall>(r, a)\<in>set reqs. plain r \<Longrightarrow> distinct (map fst reqs) \<Longrightarrow> update_loop db now t reqs s = (s', err)
    \<Longrightarrow> err \<noteq> Some ErrQuotaExceeded
      \<and> (\<forall>t' r'. plain r' \<longrightarrow> (case if t' = t then map_of reqs r' else None of
          None \<Rightarrow> force s' t' r' = force s t' r'
        | Some a \<Rightarrow> (err \<noteq> None \<and> force s' t' r' = force s t' r')
            \<or> (\<exists>q. force s t' r' = Some q \<and> force s' t' r' = Some (charged q a))))"
proof (induction reqs arbitrary: s)
  case (Cons p reqs)
  obtain r a where p: "p = (r, a)" by fastforce
  obtain s1 e where u: "update_quota db now t r a s = (s1, e)" by fastforce
  from Cons.prems(1) p have r: "plain r" by simp
  from Cons.prems(2) p have new: "map_of reqs r = None" by (auto simp: map_of_eq_None_iff)
  show ?case
  proof (cases e)
    case None
    with Cons.prems(3) p u have rest: "update_loop db now t reqs s1 = (s', err)" by simp
    have IH: "err \<noteq> Some ErrQuotaExceeded" "\<And>t' r'. plain r' \<Longrightarrow> (case if t' = t then map_of reqs r' else None of
          None \<Rightarrow> force s' t' r' = force s1 t' r'
        | Some a \<Rightarrow> (err \<noteq> None \<and> force s' t' r' = force s1 t' r')
            \<or> (\<exists>q. force s1 t' r' = Some q \<and> force s' t' r' = Some (charged q a)))"
      using Cons.IH [OF _ _ rest] Cons.prems(1,2) by auto
    have "case if t' = t then map_of (p # reqs) r' else None of
          None \<Rightarrow> force s' t' r' = force s t' r'
        | Some a \<Rightarrow> (err \<noteq> None \<and> force s' t' r' = force s t' r')
            \<or> (\<exists>q. force s t' r' = Some q \<and> force s' t' r' = Some (charged q a))" if pl: "plain r'" for t' r'
    proof -
      from update_quota_force [OF r u [unfolded None] pl] obtain q where
        q: "force s t r = Some q" "force s1 t' r' = (if t' = t \<and> r' = r then Some (charged q a) else force s t' r')" by blast
      show ?thesis
      proof (cases "t' = t \<and> r' = r")
        case True
        with IH(2) [OF pl, of t'] q new p show ?thesis by simp
      next
        case False
        then have "(if t' = t then map_of (p # reqs) r' else None) = (if t' = t then map_of reqs r' else None)"
          by (auto simp: p)
        moreover have "force s1 t' r' = force s t' r'" using q(2) False by auto
        ultimately show ?thesis using IH(2) [OF pl, of t'] by (simp only:)
      qed
    qed
    with IH(1) show ?thesis by blast
  next
    case (Some x)
    with Cons.prems(3) p u have "s' = s1" "err = Some (ErrUpdate x)" by simp_all
    moreover have "force s1 t' r' = force s t' r'" if "plain r'" for t' r'
    proof -
      from update_quota_spec [OF r u] Some have l: "loads s s1" by simp
      from loaded_in_force [OF conjunct2 [OF l] that] l show ?thesis by simp
    qed
    ultimately show ?thesis by (auto split: option.split)
  qed
qed simp

lemma update_loop_ok:
  "quotas_ok (rows s) (qm_cache s) \<Longrightarrow> \<forall>(r, a)\<in>set reqs. plain r \<Longrightarrow> distinct (map fst reqs)
    \<Longrightarrow> \<forall>p\<in>set reqs. roomy s t p \<Longrightarrow> update_loop db now t reqs s = (s', err) \<Longrightarrow> quotas_ok (rows s') (qm_cache s')"
proof (induction reqs arbitrary: s)
  case (Cons p reqs)
  obtain r a where p: "p = (r, a)" by fastforce
  obtain s1 e where u: "update_quota db now t r a s = (s1, e)" by fastforce
  from Cons.prems(2) p have r: "plain r" by simp
  have ok: "quotas_ok (rows s1) (qm_cache s1)"
    by (rule update_quota_ok [OF Cons.prems(1) r u]) (use Cons.prems(4) p new_usage_keeps_limit in \<open>auto simp: roomy_def\<close>)
  show ?case
  proof (cases e)
    case None
    have "roomy s1 t (r', a')" if m: "(r', a') \<in> set reqs" for r' a'
    proof -
      from m Cons.prems(2,3) p have "plain r'" "r' \<noteq> r" by (force simp: rev_image_eqI)+
      with update_quota_force [OF r u [unfolded None], of r' t] have "force s1 t r' = force s t r'" by auto
      moreover have "roomy s t (r', a')" using Cons.prems(4) m by simp
      ultimately show ?thesis by (simp add: roomy_def)
    qed
    then have "\<forall>p\<in>set reqs. roomy s1 t p" by auto
    with Cons.IH [OF ok] Cons.prems u None p show ?thesis by simp
  qed (use Cons.prems(5) p u ok in simp)
qed simp

lemma consume_spec:
  assumes "\<forall>(r, a)\<in>set reqs. plain r" "distinct (map fst reqs)" "distinct (map fst reqs')"
    and "set reqs' = set reqs" "consume_resources db now t reqs reqs' s = (s', err)"
  shows "quotas_ok (rows s) (qm_cache s) \<longrightarrow> quotas_ok (rows s') (qm_cache s')" (is ?kept)
    and "(err = None \<longrightarrow> (\<forall>p\<in>set reqs. roomy s t p))
      \<and> (err = Some ErrQuotaExceeded \<longrightarrow> (\<exists>p\<in>set reqs. \<not> roomy s t p) \<and> loads s s')
      \<and> (\<forall>t' r'. plain r' \<longrightarrow> (case if t' = t then map_of reqs r' else None of
          None \<Rightarrow> force s' t' r' = force s t' r'
        | Some a \<Rightarrow> (err \<noteq> None \<and> force s' t' r' = force s t' r')
            \<or> (\<exists>q. force s t' r' = Some q \<and> has_room q a \<and> force s' t' r' = Some (charged q a))))" (is ?booked)
proof -
  obtain s1 rs e where c: "check_request db t reqs s = (s1, rs, e)" by (metis surj_pair)
  then have spec: "loads s s1" "e = None \<Longrightarrow> (\<forall>p\<in>set reqs. roomy s t p) \<and> (\<forall>x\<in>set rs. qr_allowed x)"
      "e = Some ErrQuotaExceeded \<Longrightarrow> \<exists>p\<in>set reqs. \<not> roomy s t p"
    using check_loop_spec [OF assms(1), of t "[]" True s s1 rs e] by (auto simp: check_request_def)
  have same: "map_of reqs' = map_of reqs" using assms(2-4) by (simp add: map_of_inject_set)
  have f: "force s1 t' r' = force s t' r'" if "plain r'" for t' r'
    using loaded_in_force [OF conjunct2 [OF spec(1)] that] spec(1) by simp
  have "?kept \<and> ?booked"
  proof (cases e)
    case None
    with assms(5) c spec(2) have u: "update_loop db now t reqs' s1 = (s', err)"
      by (auto simp: consume_resources_def)
    from assms(1,4) have pl: "\<forall>(r, a)\<in>set reqs'. plain r" by simp
    have room: "\<forall>p\<in>set reqs'. roomy s1 t p"
      using spec(2) [OF None] assms(4) pl roomy_loads [OF spec(1)] by fastforce
    have ?kept
      using update_loop_ok [OF _ pl assms(3) room u] quotas_ok_loaded spec(1) by metis
    moreover note booked = update_loop_spec [OF pl assms(3) u, unfolded same]
    have "case if t' = t then map_of reqs r' else None of
          None \<Rightarrow> force s' t' r' = force s t' r'
        | Some a \<Rightarrow> (err \<noteq> None \<and> force s' t' r' = force s t' r')
            \<or> (\<exists>q. force s t' r' = Some q \<and> has_room q a \<and> force s' t' r' = Some (charged q a))" if p: "plain r'" for t' r'
    proof (cases "if t' = t then map_of reqs r' else None")
      case None
      from booked p have "case if t' = t then map_of reqs r' else None of
          None \<Rightarrow> force s' t' r' = force s1 t' r'
        | Some a \<Rightarrow> err \<noteq> None \<and> force s' t' r' = force s1 t' r'
            \<or> (\<exists>q. force s1 t' r' = Some q \<and> force s' t' r' = Some (charged q a))" by blast
      then show ?thesis unfolding None f [OF p] option.case .
    next
      case (Some a)
      then have "t' = t" "(r', a) \<in> set reqs" by (auto split: if_splits dest: map_of_SomeD)
      then have "force s t' r' = Some q \<Longrightarrow> has_room q a" for q
        using spec(2) \<open>e = None\<close> by (auto simp: roomy_def)
      moreover from booked p have "case if t' = t then map_of reqs r' else None of
          None \<Rightarrow> force s' t' r' = force s1 t' r'
        | Some a \<Rightarrow> err \<noteq> None \<and> force s' t' r' = force s1 t' r'
            \<or> (\<exists>q. force s1 t' r' = Some q \<and> force s' t' r' = Some (charged q a))" by blast
      ultimately show ?thesis unfolding Some f [OF p] option.case by blast
    qed
    ultimately show ?thesis using booked spec(2) [OF None] by blast
  next
    case (Some e')
    with assms(5) c have s': "s' = s1" "err = e" by (auto simp: consume_resources_def)
    have ?kept using quotas_ok_loaded spec(1) s'(1) by metis
    moreover have ?booked using spec(1,3) Some f unfolding s' by (auto split: option.split)
    ultimately show ?thesis by blast
  qed
  then show ?kept ?booked by blast+
qed

end

section \<open>Hard limits hold\<close>

text \<open>
  The manager's calls, one after the other. A quota may be set for any resource as long as the new limit leaves room for
  the usage it comes with and for the usage in the row; usage is booked by \<^verbatim>\<open>ConsumeResources\<close>, and
  \<^verbatim>\<open>UpdateQuota\<close> and \<^verbatim>\<open>RecordUsage\<close>, which check nothing, only give usage back.
\<close>

inductive quota_step :: "'d quota_db \<Rightarrow> ('d \<Rightarrow> quota_rows) \<Rightarrow> 'd quota_manager \<Rightarrow> 'd quota_manager \<Rightarrow> bool"
  for db row where
  set_limit: "plain (ql_resource_type q) \<Longrightarrow> keeps_limit q
    \<Longrightarrow> keeps_limit (fst (upserted q (row (qm_db s) t (ql_resource_type q))))
    \<Longrightarrow> set_quota db t q s = (s', err) \<Longrightarrow> quota_step db row s s'"
| get: "plain r \<Longrightarrow> get_quota db t r s = (s', res) \<Longrightarrow> quota_step db row s s'"
| check: "plain r \<Longrightarrow> check_quota db t r a s = (s', ans, err) \<Longrightarrow> quota_step db row s s'"
| consume: "\<forall>(r, a)\<in>set reqs. plain r \<Longrightarrow> distinct (map fst reqs) \<Longrightarrow> distinct (map fst reqs')
    \<Longrightarrow> set reqs' = set reqs \<Longrightarrow> consume_resources db now t reqs reqs' s = (s', err) \<Longrightarrow> quota_step db row s s'"
| give_back: "plain r \<Longrightarrow> - (2 ^ 63) \<le> delta \<Longrightarrow> delta \<le> 0 \<Longrightarrow> update_quota db now t r delta s = (s', err)
    \<Longrightarrow> quota_step db row s s'"
| returned: "plain (qu_resource_type u) \<Longrightarrow> - (2 ^ 63) \<le> qu_quantity u \<Longrightarrow> qu_quantity u \<le> 0
    \<Longrightarrow> record_usage db now marshals u s = (s', err) \<Longrightarrow> quota_step db row s s'"
| reset: "plain r \<Longrightarrow> reset_quota db now t r s = (s', err) \<Longrightarrow> quota_step db row s s'"
| remove: "plain r \<Longrightarrow> delete_quota db t r s = (s', err) \<Longrightarrow> quota_step db row s s'"
| summary: "get_quota_summary db t s = (s', res') \<Longrightarrow> quota_step db row s s'"

context quota_store begin

abbreviation ok :: "'d quota_manager \<Rightarrow> bool" where "ok s \<equiv> quotas_ok (rows s) (qm_cache s)"

lemma set_quota_kept:
  assumes "ok s" "plain (ql_resource_type q)" "keeps_limit q"
    and "keeps_limit (fst (upserted q (row (qm_db s) t (ql_resource_type q))))" "set_quota db t q s = (s', err)"
  shows "ok s'"
proof -
  let ?r = "ql_resource_type q"
  obtain d b where u: "db_upsert db t q (qm_db s) = (d, b)" by fastforce
  obtain p x where p: "upserted q (rows s t ?r) = (p, x)" by fastforce
  then have "same_limit p q" by (auto simp: upserted_def same_limit_def split: option.splits)
  with p assms(4) quotas_ok_put [OF assms(1-3)] have "quotas_ok (put_row t ?r (Some (p, x)) (rows s)) ((qm_cache s)(cache_key t ?r \<mapsto> q))"
    by simp
  with upsert [OF u] p assms(1,5) u show ?thesis
    by (cases b) (auto simp: set_quota_def split: if_splits)
qed

lemma update_negative_kept:
  assumes "ok s" "plain r" "- (2 ^ 63) \<le> delta" "delta \<le> 0" "update_quota db now t r delta s = (s', err)"
  shows "ok s'"
proof (rule update_quota_ok [OF assms(1,2,5)])
  fix q assume kq: "keeps_limit q"
  then have "new_usage q delta \<le> ql_current_value q" "0 \<le> new_usage q delta"
    using assms(3,4) i64_le [of "ql_current_value q + delta"] by (auto simp: keeps_limit_def new_usage_def Let_def)
  with kq show "keeps_limit (charged q delta)" by (auto simp: keeps_limit_def)
qed

lemma record_negative_kept:
  assumes "ok s" "plain (qu_resource_type u)" "- (2 ^ 63) \<le> qu_quantity u" "qu_quantity u \<le> 0"
    and "record_usage db now marshals u s = (s', err)"
  shows "ok s'"
proof -
  obtain s1 e where u: "update_quota db now (qu_tenant_id u) (qu_resource_type u) (qu_quantity u) s = (s1, e)" by fastforce
  obtain d b where i: "db_insert_usage db u (qm_db s1) = (d, b)" by fastforce
  have "ok s1" using update_negative_kept [OF assms(1-4) u] .
  with insert_usage [OF i] assms(5) u i show ?thesis
    by (auto simp: record_usage_def split: option.splits if_splits)
qed

lemma set_after_delete:
  assumes "live (rows s) t (ql_resource_type q) = Some q0" "delete_quota db t (ql_resource_type q) s = (s1, None)"
    and "set_quota db t q s1 = (s2, None)"
    and "check_quota db t (ql_resource_type q) amount (new_quota_manager (qm_db s2)) = (s3, Some result, err)"
  shows "qr_allowed result \<and> qr_quota result = None \<and> err = None"
proof -
  let ?r = "ql_resource_type q"
  from assms(2) obtain d where d: "db_mark_deleted db t ?r (qm_db s) = (d, True)" "qm_db s1 = d"
    by (auto simp: delete_quota_def split: prod.splits bool.splits)
  from mark_deleted [OF d(1)] assms(1) have "row d t ?r = Some (q0, True)"
    by (simp add: live_some put_row_def)
  moreover from assms(3) obtain d2 where d2: "db_upsert db t q d = (d2, True)" "qm_db s2 = d2"
    by (auto simp: set_quota_def d(2) split: prod.splits bool.splits if_splits)
  ultimately have "live (row d2) t ?r = None" using upsert [OF d2(1)] by (simp add: upserted_def)
  moreover obtain d3 a where sel: "db_select db t ?r d2 = (d3, a)" by fastforce
  ultimately have "a = None \<or> a = Some None" using select [OF sel] by simp
  with assms(4) sel d2(2) have "result = no_limit_result amount" "err = None"
    by (auto simp: check_quota_def get_quota_def new_quota_manager_def)
  then show ?thesis by (simp add: no_limit_result_def)
qed

lemma get_all_quotas_kept:
  assumes "ok s" "get_all_quotas db t s = (s', res)"
  shows "ok s'"
proof -
  obtain d b where a: "db_select_all db t (qm_db s) = (d, b)" by fastforce
  note all = select_all [OF a]
  have fill: "quotas_ok (rows s) (cache_all t qs c)"
    if "quotas_ok (rows s) c" "\<forall>q\<in>set qs. live (rows s) t (ql_resource_type q) = Some q" for qs c
    using that
  proof (induction qs arbitrary: c)
    case (Cons q qs)
    have row: "rows s t (ql_resource_type q) = Some (q, False)" using Cons.prems(2) by (simp add: live_some)
    then have "plain (ql_resource_type q)" "keeps_limit q" using assms(1) by (auto simp: quotas_ok_def limits_kept_def)
    then have "quotas_ok (put_row t (ql_resource_type q) (Some (q, False)) (rows s)) (c(cache_key t (ql_resource_type q) \<mapsto> q))"
      using Cons.prems(1) by (intro quotas_ok_put) (simp_all add: same_limit_def)
    moreover have "put_row t (ql_resource_type q) (Some (q, False)) (rows s) = rows s"
      unfolding put_row_def row [symmetric] by simp
    ultimately show ?case using Cons by simp
  qed simp
  show ?thesis
  proof (cases b)
    case (Some qb)
    obtain qs scanned where b: "qb = (qs, scanned)" by fastforce
    from all Some b have "row d = rows s" "\<forall>q\<in>set qs. live (rows s) t (ql_resource_type q) = Some q" by auto
    with fill [OF assms(1)] assms(2) a Some b show ?thesis
      by (auto simp: get_all_quotas_def split: if_splits)
  qed (use assms a all in \<open>auto simp: get_all_quotas_def\<close>)
qed

lemma summary_kept: "ok s \<Longrightarrow> get_quota_summary db t s = (s', res) \<Longrightarrow> ok s'"
  by (auto simp: get_quota_summary_def split: prod.splits sum.splits dest: get_all_quotas_kept)

lemma delete_kept:
  assumes "ok s" "plain r" "delete_quota db t r s = (s', err)"
  shows "ok s'"
proof -
  obtain d b where m: "db_mark_deleted db t r (qm_db s) = (d, b)" by fastforce
  note row = mark_deleted [OF m]
  show ?thesis
  proof (cases b)
    case True
    have "limits_kept (row d)" using row True assms(1)
      by (fastforce simp: quotas_ok_def limits_kept_def put_row_def split: if_splits)
    moreover have "keeps_limit q \<and> (\<exists>p x. row d t' r' = Some (p, x) \<and> same_limit p q)"
      if "plain r'" "((qm_cache s)(cache_key t r := None)) (cache_key t' r') = Some q" for t' r' q
    proof -
      have ne: "\<not> (t' = t \<and> r' = r)" and c: "qm_cache s (cache_key t' r') = Some q"
        using that cache_key_inj [OF that(1) assms(2)] by (auto split: if_splits)
      have "row d t' r' = rows s t' r'" using row True ne by (auto simp: put_row_def)
      with assms(1) that(1) c show ?thesis by (simp add: quotas_ok_def)
    qed
    ultimately show ?thesis using assms(3) m True by (auto simp: delete_quota_def quotas_ok_def)
  qed (use assms m row in \<open>auto simp: delete_quota_def\<close>)
qed

lemma quota_step_kept: "quota_step db row s s' \<Longrightarrow> ok s \<Longrightarrow> ok s'"
proof (induction rule: quota_step.induct)
  case (set_limit q s t s' err)
  then show ?case using set_quota_kept by blast
next
  case (get r t s s' res)
  then show ?case using get_quota_spec quotas_ok_loaded by metis
next
  case (check r t a s s' ans err)
  then show ?case using check_quota_spec quotas_ok_loaded by metis
next
  case (consume reqs reqs' now t s s' err)
  then show ?case using consume_spec(1) by blast
next
  case (give_back r delta now t s s' err)
  then show ?case using update_negative_kept by blast
next
  case (returned u now marshals s s' err)
  then show ?case using record_negative_kept by blast
next
  case (reset r now t s s' err)
  then show ?case using update_negative_kept [of s r "- 1000000" now t s' err] by (simp add: reset_quota_def)
next
  case (remove r t s s' err)
  then show ?case using delete_kept by blast
next
  case (summary t s s' res')
  then show ?case using summary_kept by blast
qed

lemma quota_runs_kept:
  assumes "(quota_step db row)\<^sup>*\<^sup>* (new_quota_manager d) s" "limits_kept (row d)"
  shows "ok s"
  using assms(1)
proof (induction rule: rtranclp_induct)
  case base
  with assms(2) show ?case by (simp add: new_quota_manager_def quotas_ok_def)
qed (use quota_step_kept in blast)

end

section \<open>The statements on a table\<close>

text \<open>
  The query texts on a table of rows, in the order of insertion, keyed by tenant and resource type. Each
  call takes the next entry of \<open>sq_faults\<close>: the driver's verdict on that call, \<open>True\<close> for an error.
\<close>

record sql_table =
  sq_table :: "((string \<times> resource_type) \<times> quota_limit \<times> bool) list"
  sq_usage :: "quota_usage_record list"
  sq_faults :: "bool list"

definition sql_rows :: "sql_table \<Rightarrow> quota_rows" where
  "sql_rows d t r = map_option (\<lambda>(q, x). (q\<lparr>ql_resource_type := r\<rparr>, x)) (map_of (sq_table d) (t, r))"

definition sql_call :: "(sql_table \<Rightarrow> sql_table) \<Rightarrow> sql_table \<Rightarrow> sql_table \<times> bool" where
  "sql_call f d = (case sq_faults d of
       [] \<Rightarrow> (f d, True)
     | fault # fs \<Rightarrow> if fault then (d\<lparr>sq_faults := fs\<rparr>, False) else (f (d\<lparr>sq_faults := fs\<rparr>), True))"

definition sql_put :: "string \<Rightarrow> resource_type \<Rightarrow> quota_limit \<times> bool \<Rightarrow> sql_table \<Rightarrow> sql_table" where
  "sql_put t r x d = d\<lparr>sq_table := AList.update (t, r) x (sq_table d)\<rparr>"

definition sql_select :: "string \<Rightarrow> resource_type \<Rightarrow> sql_table \<Rightarrow> sql_table \<times> quota_limit option option" where
  "sql_select t r d = (case sql_call id d of (d, ok) \<Rightarrow> (d, if ok then Some (live (sql_rows d) t r) else None))"

definition sql_select_all :: "string \<Rightarrow> sql_table \<Rightarrow> sql_table \<times> (quota_limit list \<times> bool) option" where
  "sql_select_all t d = (case sql_call id d of (d, ok) \<Rightarrow>
     (d, if ok then Some (List.map_filter (\<lambda>(t', r). if t' = t then live (sql_rows d) t r else None)
            (map fst (sq_table d)), True) else None))"

definition sql_upsert :: "string \<Rightarrow> quota_limit \<Rightarrow> sql_table \<Rightarrow> sql_table \<times> bool" where
  "sql_upsert t q = sql_call (\<lambda>d. sql_put t (ql_resource_type q) (upserted q (sql_rows d t (ql_resource_type q))) d)"

definition sql_set_current :: "int \<Rightarrow> string \<Rightarrow> resource_type \<Rightarrow> sql_table \<Rightarrow> sql_table \<times> bool" where
  "sql_set_current v t r = sql_call (\<lambda>d. case sql_rows d t r of
     None \<Rightarrow> d | Some (q, x) \<Rightarrow> sql_put t r (q\<lparr>ql_current_value := v\<rparr>, x) d)"

definition sql_mark_deleted :: "string \<Rightarrow> resource_type \<Rightarrow> sql_table \<Rightarrow> sql_table \<times> bool" where
  "sql_mark_deleted t r = sql_call (\<lambda>d. case sql_rows d t r of
     None \<Rightarrow> d | Some (q, x) \<Rightarrow> sql_put t r (q, True) d)"

definition sql_insert_usage :: "quota_usage_record \<Rightarrow> sql_table \<Rightarrow> sql_table \<times> bool" where
  "sql_insert_usage u = sql_call (\<lambda>d. d\<lparr>sq_usage := sq_usage d @ [u]\<rparr>)"

definition sql_ops :: "sql_table quota_db" where
  "sql_ops = \<lparr>db_select = sql_select, db_select_all = sql_select_all, db_upsert = sql_upsert,
     db_set_current = sql_set_current, db_mark_deleted = sql_mark_deleted, db_insert_usage = sql_insert_usage\<rparr>"

lemma sql_rows_faults [simp]: "sql_rows (d\<lparr>sq_faults := fs\<rparr>) = sql_rows d"
  by (simp add: sql_rows_def fun_eq_iff)

lemma sql_rows_put [simp]:
  "sql_rows (sql_put t r (q, x) d) = put_row t r (Some (q\<lparr>ql_resource_type := r\<rparr>, x)) (sql_rows d)"
  by (auto simp: sql_rows_def sql_put_def put_row_def fun_eq_iff update_conv')

lemma sql_rows_call:
  assumes "sql_call f d = (d', ok)" "\<And>fs. sql_rows (f (d\<lparr>sq_faults := fs\<rparr>)) = g (sql_rows d)"
  shows "sql_rows d' = (if ok then g (sql_rows d) else sql_rows d)"
proof -
  have "d\<lparr>sq_faults := sq_faults d\<rparr> = d" by simp
  with assms(2) [of "sq_faults d"] have "sql_rows (f d) = g (sql_rows d)" by simp
  with assms show ?thesis by (auto simp: sql_call_def split: list.splits if_splits)
qed

lemma sql_typed: "sql_rows d t r = Some (q, x) \<Longrightarrow> ql_resource_type q = r"
  by (auto simp: sql_rows_def)

lemma retype [simp]: "ql_resource_type q = r \<Longrightarrow> q\<lparr>ql_resource_type := r\<rparr> = q"
  by auto

lemma retype_row:
  "sql_rows d t r = Some (q, x) \<Longrightarrow> q\<lparr>ql_resource_type := r\<rparr> = q"
  "sql_rows d t r = Some (q, x) \<Longrightarrow> q\<lparr>ql_current_value := v, ql_resource_type := r\<rparr> = q\<lparr>ql_current_value := v\<rparr>"
  by (auto dest: sql_typed)

lemma put_row_same: "rows t r = x \<Longrightarrow> put_row t r x rows = rows"
  by (auto simp: put_row_def)

lemma sql_all_live:
  "q \<in> set (List.map_filter (\<lambda>(t', r). if t' = t then live (sql_rows d) t r else None) ks)
    \<Longrightarrow> live (sql_rows d) t (ql_resource_type q) = Some q"
  by (auto simp: in_map_filter split: if_splits) (metis live_some sql_typed)

interpretation sql: quota_store sql_ops sql_rows
proof unfold_locales
  fix d d' :: sql_table and t r v q u ok a b
  show "db_select sql_ops t r d = (d', a) \<Longrightarrow> sql_rows d' = sql_rows d \<and> (a = None \<or> a = Some (live (sql_rows d) t r))"
    using sql_rows_call [where f = id and d = d and g = id]
    by (auto simp: sql_ops_def sql_select_def split: prod.splits if_splits)
  show "db_select_all sql_ops t d = (d', b) \<Longrightarrow> sql_rows d' = sql_rows d \<and> (case b of None \<Rightarrow> True
      | Some (qs, _) \<Rightarrow> \<forall>q\<in>set qs. live (sql_rows d) t (ql_resource_type q) = Some q)"
    using sql_rows_call [where f = id and d = d and g = id] sql_all_live [of _ t d'] by (auto simp: sql_ops_def sql_select_all_def split: prod.splits if_splits)
  show "db_upsert sql_ops t q d = (d', ok) \<Longrightarrow> sql_rows d' = (if ok then put_row t (ql_resource_type q)
      (Some (upserted q (sql_rows d t (ql_resource_type q)))) (sql_rows d) else sql_rows d)"
    unfolding sql_ops_def sql_upsert_def quota_db.simps
    by (erule sql_rows_call) (auto simp: upserted_def split: option.splits prod.splits)
  show "db_set_current sql_ops v t r d = (d', ok) \<Longrightarrow> sql_rows d' = (if ok then put_row t r
      (map_option (\<lambda>(q, x). (q\<lparr>ql_current_value := v\<rparr>, x)) (sql_rows d t r)) (sql_rows d) else sql_rows d)"
    unfolding sql_ops_def sql_set_current_def quota_db.simps
    by (erule sql_rows_call) (auto simp: put_row_same retype_row split: option.splits)
  show "db_mark_deleted sql_ops t r d = (d', ok) \<Longrightarrow> sql_rows d' = (if ok then put_row t r
      (map_option (\<lambda>(q, x). (q, True)) (sql_rows d t r)) (sql_rows d) else sql_rows d)"
    unfolding sql_ops_def sql_mark_deleted_def quota_db.simps
    by (erule sql_rows_call) (auto simp: put_row_same retype_row split: option.splits)
  show "db_insert_usage sql_ops u d = (d', ok) \<Longrightarrow> sql_rows d' = sql_rows d"
    unfolding sql_ops_def sql_insert_usage_def quota_db.simps
    by (drule sql_rows_call [where g = id]) (auto simp: sql_rows_def fun_eq_iff)
qed

section \<open>Properties\<close>

text \<open>C27: hard limits hold. Take any database that keeps to its statements, calls that fail included, and a manager
  that is started on a table within its limits. Over any run of calls that do not overlap, in which limits are not
  set below the usage and usage without a check (\<^verbatim>\<open>UpdateQuota\<close>, \<^verbatim>\<open>RecordUsage\<close>) is only given back, and whatever
  amounts \<^verbatim>\<open>ConsumeResources\<close> is asked for, the usage of the quota in force of any tenant and resource, and that of
  its row, is non-negative and, unless the limit is soft, at most the limit; a cached quota has the limit of its
  row.\<close>

theorem quota_limits_hold:
  assumes "quota_store db row" "limits_kept (row d)" "(quota_step db row)\<^sup>*\<^sup>* (new_quota_manager d) s" "plain r"
  shows "(\<forall>q. quotas_in_force row s t r = Some q
        \<longrightarrow> 0 \<le> ql_current_value q \<and> (ql_soft_limit q \<or> ql_current_value q \<le> ql_max_value q)
          \<and> (\<exists>p x. row (qm_db s) t r = Some (p, x) \<and> ql_max_value p = ql_max_value q \<and> ql_soft_limit p = ql_soft_limit q))
    \<and> (\<forall>p x. row (qm_db s) t r = Some (p, x)
        \<longrightarrow> 0 \<le> ql_current_value p \<and> (ql_soft_limit p \<or> ql_current_value p \<le> ql_max_value p))"
proof -
  note kept = quota_store.quota_runs_kept [OF assms(1,3,2)]
  with quotas_ok_in_force [OF kept assms(4)] show ?thesis
    by (auto simp: keeps_limit_def same_limit_def quotas_ok_def limits_kept_def)
qed

text \<open>C33: what \<^verbatim>\<open>ConsumeResources\<close> does when no other call runs, over any database that keeps to its statements,
  from any state of the table and the cache, also one that disagrees with the table. Each requested quota in force
  is booked, only if the amount has room or the limit is soft, or it is as it was, the latter only when an error is
  reported; no other quota in force changes. On success every amount was booked; when
  it reports that a quota is exceeded, nothing was booked, and some requested hard limit would have been passed. Sums
  wrap around at 2^63 as in the code, where a usage below zero is stored as zero.\<close>

theorem consume_resources_correct:
  assumes "quota_store db row" "\<forall>(r, a)\<in>set reqs. plain r"
    and "distinct (map fst reqs)" "distinct (map fst reqs')" "set reqs' = set reqs"
    and "consume_resources db now t reqs reqs' s = (s', err)"
  shows "(\<forall>t' r'. plain r' \<longrightarrow> (case if t' = t then map_of reqs r' else None of
        None \<Rightarrow> quotas_in_force row s' t' r' = quotas_in_force row s t' r'
      | Some a \<Rightarrow> err \<noteq> None \<and> quotas_in_force row s' t' r' = quotas_in_force row s t' r'
          \<or> (\<exists>q. quotas_in_force row s t' r' = Some q \<and> (ql_soft_limit q \<or> i64 (ql_current_value q + a) \<le> ql_max_value q)
              \<and> quotas_in_force row s' t' r' = Some (q\<lparr>ql_current_value := max 0 (i64 (ql_current_value q + a))\<rparr>))))
    \<and> (err = Some ErrQuotaExceeded \<longrightarrow> row (qm_db s') = row (qm_db s) \<and> (\<forall>t' r'. plain r' \<longrightarrow> quotas_in_force row s' t' r' = quotas_in_force row s t' r')
        \<and> (\<exists>(r, a)\<in>set reqs. \<exists>q. quotas_in_force row s t r = Some q \<and> \<not> ql_soft_limit q
              \<and> ql_max_value q < i64 (ql_current_value q + a)))"
proof -
  note spec = quota_store.consume_spec(2) [OF assms(1-6)]
  have usage: "new_usage q a = max 0 (i64 (ql_current_value q + a))" for q a
    by (simp add: new_usage_def Let_def max_def)
  have booked: "\<forall>t' r'. plain r' \<longrightarrow> (case if t' = t then map_of reqs r' else None of
        None \<Rightarrow> quotas_in_force row s' t' r' = quotas_in_force row s t' r'
      | Some a \<Rightarrow> err \<noteq> None \<and> quotas_in_force row s' t' r' = quotas_in_force row s t' r'
          \<or> (\<exists>q. quotas_in_force row s t' r' = Some q \<and> (ql_soft_limit q \<or> i64 (ql_current_value q + a) \<le> ql_max_value q)
              \<and> quotas_in_force row s' t' r' = Some (q\<lparr>ql_current_value := max 0 (i64 (ql_current_value q + a))\<rparr>)))"
    using spec unfolding has_room_def usage by blast
  moreover have "row (qm_db s') = row (qm_db s) \<and> (\<forall>t' r'. plain r' \<longrightarrow> quotas_in_force row s' t' r' = quotas_in_force row s t' r')
        \<and> (\<exists>(r, a)\<in>set reqs. \<exists>q. quotas_in_force row s t r = Some q \<and> \<not> ql_soft_limit q
              \<and> ql_max_value q < i64 (ql_current_value q + a))" if e: "err = Some ErrQuotaExceeded"
  proof -
    from spec e have l: "row (qm_db s') = row (qm_db s)" "loaded (row (qm_db s)) (qm_cache s) (qm_cache s')"
      and d: "\<exists>p\<in>set reqs. \<not> quota_store.roomy row s t p" by blast+
    then have "plain r' \<Longrightarrow> quotas_in_force row s' t' r' = quotas_in_force row s t' r'" for t' r'
      using loaded_in_force [OF l(2)] l(1) by simp
    moreover from d obtain r a where "(r, a) \<in> set reqs" "\<not> quota_store.roomy row s t (r, a)" by force
    then have "\<exists>(r, a)\<in>set reqs. \<exists>q. quotas_in_force row s t r = Some q \<and> \<not> ql_soft_limit q
              \<and> ql_max_value q < i64 (ql_current_value q + a)"
      by (intro bexI [of _ "(r, a)"]) (auto simp: quota_store.roomy_def [OF assms(1)] has_room_def)
    ultimately show ?thesis using l(1) by blast
  qed
  ultimately show ?thesis by blast
qed

text \<open>A quota that was deleted and set again is not in force. Over any database that keeps to its statements,
  the row of the new quota stays marked deleted: a manager that starts on the database afterwards finds no
  limit, and allows every request.\<close>

theorem quota_set_after_delete_is_lost:
  assumes "quota_store db row" "live (row (qm_db s)) t (ql_resource_type q) = Some q0"
    and "delete_quota db t (ql_resource_type q) s = (s1, None)" "set_quota db t q s1 = (s2, None)"
    and "check_quota db t (ql_resource_type q) amount (new_quota_manager (qm_db s2)) = (s3, Some result, err)"
  shows "qr_allowed result \<and> qr_quota result = None \<and> err = None"
  using quota_store.set_after_delete [OF assms] .

section \<open>Witnesses\<close>

definition sample_quota :: quota_limit where
  "sample_quota = default_quota ''gpu'' 4 ''hours'' QuotaPeriodMonthly"

definition sample_empty :: sql_table where
  "sample_empty = \<lparr>sq_table = [], sq_usage = [], sq_faults = []\<rparr>"

definition sample_quotas :: "sql_table quota_manager" where
  "sample_quotas = fst (set_quota sql_ops ''t'' sample_quota (new_quota_manager sample_empty))"

abbreviation sample_consume :: "sql_table quota_manager \<times> quota_error option" where
  "sample_consume \<equiv> consume_resources sql_ops 0 ''t'' [(''gpu'', 3)] [(''gpu'', 3)] sample_quotas"

lemmas sql_eval = sql_ops_def sql_upsert_def sql_mark_deleted_def sql_set_current_def sql_select_def sql_call_def sql_put_def
  sql_rows_def upserted_def live_def cache_key_def

lemma sample_quotas_set:
  "set_quota sql_ops ''t'' sample_quota (new_quota_manager sample_empty) = (sample_quotas, None)"
  "sample_quotas = \<lparr>qm_db = \<lparr>sq_table = [((''t'', ''gpu''), sample_quota, False)], sq_usage = [], sq_faults = []\<rparr>,
     qm_cache = [''t:gpu'' \<mapsto> sample_quota], qm_alerts = []\<rparr>"
  by (simp_all add: sample_quotas_def set_quota_def sample_quota_def default_quota_def sample_empty_def
      new_quota_manager_def sql_eval)

lemma sample_live: "live (sql_rows (qm_db sample_quotas)) ''t'' ''gpu'' = Some sample_quota"
  by (simp add: sample_quotas_set(2) sql_rows_def live_def sample_quota_def default_quota_def)

lemma sample_consumed:
  "snd sample_consume = None"
  "live (sql_rows (qm_db (fst sample_consume))) ''t'' ''gpu'' = Some (sample_quota\<lparr>ql_current_value := 3\<rparr>)"
  by (simp_all add: consume_resources_def check_request_def check_quota_def get_quota_def judge_request_def
      sample_quotas_set(2) sample_quota_def default_quota_def cache_key_def i64_small update_quota_def new_usage_def
      Let_def sql_eval split: if_split)

lemma sample_runs:
  "(quota_step sql_ops sql_rows)\<^sup>*\<^sup>* (new_quota_manager sample_empty) sample_quotas"
  "(quota_step sql_ops sql_rows)\<^sup>*\<^sup>* (new_quota_manager sample_empty) (fst sample_consume)"
proof -
  have "quota_step sql_ops sql_rows (new_quota_manager sample_empty) sample_quotas"
    by (rule set_limit [OF _ _ _ sample_quotas_set(1)])
      (simp_all add: new_quota_manager_def sample_empty_def sql_rows_def sample_quota_def default_quota_def plain_def
        keeps_limit_def upserted_def)
  then show 1: "(quota_step sql_ops sql_rows)\<^sup>*\<^sup>* (new_quota_manager sample_empty) sample_quotas" by blast
  have "quota_step sql_ops sql_rows sample_quotas (fst sample_consume)"
    by (rule consume [OF _ _ _ _ prod.collapse [symmetric]]) (simp_all add: plain_def)
  with 1 show "(quota_step sql_ops sql_rows)\<^sup>*\<^sup>* (new_quota_manager sample_empty) (fst sample_consume)"
    by (rule rtranclp.rtrancl_into_rtrancl)
qed

lemma sample_empty_rows: "limits_kept (sql_rows sample_empty)"
  by (simp add: limits_kept_def sql_rows_def sample_empty_def)

lemma sample_plain: "plain ''gpu''"
  by (simp add: plain_def)

lemma sample_in_force:
  "quotas_in_force sql_rows sample_quotas ''t'' ''gpu'' = Some sample_quota"
  by (simp add: sample_quotas_set(2) in_force_def cache_key_def)

theorem quota_limits_hold_witness:
  "\<exists>q x. sql_rows (qm_db (fst sample_consume)) ''t'' ''gpu'' = Some (q, x) \<and> ql_current_value q = 3
     \<and> (ql_soft_limit q \<or> ql_current_value q \<le> ql_max_value q)"
  using quota_limits_hold [OF sql.quota_store_axioms sample_empty_rows sample_runs(2) sample_plain, of "''t''"]
    sample_consumed(2) by (force simp: live_some)

theorem consume_resources_correct_witness:
  "quotas_in_force sql_rows (fst sample_consume) ''t'' ''gpu'' = Some (sample_quota\<lparr>ql_current_value := 3\<rparr>)"
proof -
  have ok: "sample_consume = (fst sample_consume, None)"
    using sample_consumed(1) by (metis prod.collapse)
  have pre: "\<forall>(r, a)\<in>set [(''gpu'', 3 :: int)]. plain r" "distinct (map fst [(''gpu'', 3 :: int)])"
    by (simp_all add: plain_def)
  note booked = consume_resources_correct [OF sql.quota_store_axioms pre pre(2) refl ok]
  from mp [OF spec [OF spec [OF conjunct1 [OF booked], of "''t''"], of "''gpu''"] sample_plain] show ?thesis
    by (simp add: sample_in_force sample_quota_def default_quota_def i64_small)
qed

theorem quota_set_after_delete_is_lost_witness:
  "\<exists>s1 s2 s3 result. delete_quota sql_ops ''t'' ''gpu'' sample_quotas = (s1, None)
    \<and> set_quota sql_ops ''t'' sample_quota s1 = (s2, None)
    \<and> check_quota sql_ops ''t'' ''gpu'' 1000000 (new_quota_manager (qm_db s2)) = (s3, Some result, None)
    \<and> qr_allowed result"
proof -
  have r: "ql_resource_type sample_quota = ''gpu''" by (simp add: sample_quota_def default_quota_def)
  obtain s1 where 1: "delete_quota sql_ops ''t'' ''gpu'' sample_quotas = (s1, None)"
      and db1: "qm_db s1 = \<lparr>sq_table = [((''t'', ''gpu''), sample_quota, True)], sq_usage = [], sq_faults = []\<rparr>"
    by (simp add: delete_quota_def sample_quotas_set(2) sample_quota_def default_quota_def sql_eval)
  obtain s2 where 2: "set_quota sql_ops ''t'' sample_quota s1 = (s2, None)"
      and db2: "qm_db s2 = \<lparr>sq_table = [((''t'', ''gpu''), sample_quota, True)], sq_usage = [], sq_faults = []\<rparr>"
    by (simp add: set_quota_def db1 sample_quota_def default_quota_def sql_eval)
  obtain s3 result where 3: "check_quota sql_ops ''t'' ''gpu'' 1000000 (new_quota_manager (qm_db s2)) = (s3, Some result, None)"
    by (simp add: check_quota_def get_quota_def db2 new_quota_manager_def sql_eval)
  have "qr_allowed result"
    using quota_set_after_delete_is_lost [OF sql.quota_store_axioms, of sample_quotas "''t''" sample_quota sample_quota s1 s2]
      sample_live 1 2 3 unfolding r by blast
  with 1 2 3 show ?thesis by blast
qed

end
