(* ===== verification/GoStrings.thy ===== *)
theory GoStrings
  imports Prelude "HOL-Library.Sublist" "HOL-Library.Char_ord" "HOL-Library.List_Lexorder"
begin

text \<open>
  The functions of Go's package \<^verbatim>\<open>strings\<close> that several components call. A string is its list of bytes,
  compared bytewise as Go compares strings; white space is the ASCII white space (the two further
  code points that \<^verbatim>\<open>TrimSpace\<close> knows are left out).
\<close>

definition is_space :: "char \<Rightarrow> bool" where
  "is_space c \<longleftrightarrow> c \<in> {CHR 0x09, CHR 0x0A, CHR 0x0B, CHR 0x0C, CHR 0x0D, CHR '' ''}"

definition trim_by :: "(char \<Rightarrow> bool) \<Rightarrow> string \<Rightarrow> string" where
  "trim_by p s = rev (dropWhile p (rev (dropWhile p s)))"

definition trim :: "string \<Rightarrow> string" where
  "trim = trim_by is_space"

definition has_prefix :: "string \<Rightarrow> string \<Rightarrow> bool" where
  "has_prefix p s \<longleftrightarrow> take (length p) s = p"

definition has_suffix :: "string \<Rightarrow> string \<Rightarrow> bool" where
  "has_suffix p s \<longleftrightarrow> has_prefix (rev p) (rev s)"

definition trim_prefix :: "string \<Rightarrow> string \<Rightarrow> string" where
  "trim_prefix p s = (if has_prefix p s then drop (length p) s else s)"

definition trim_suffix :: "string \<Rightarrow> string \<Rightarrow> string" where
  "trim_suffix p s = (if has_suffix p s then take (length s - length p) s else s)"

fun contains :: "string \<Rightarrow> string \<Rightarrow> bool" where
  "contains p [] = (p = [])"
| "contains p (c # s) = (has_prefix p (c # s) \<or> contains p s)"

definition to_upper :: "string \<Rightarrow> string" where
  "to_upper = map (\<lambda>c. if 97 \<le> (of_char c :: nat) \<and> (of_char c :: nat) \<le> 122 then char_of ((of_char c :: nat) - 32) else c)"

definition to_lower :: "string \<Rightarrow> string" where
  "to_lower = map (\<lambda>c. if 65 \<le> (of_char c :: nat) \<and> (of_char c :: nat) \<le> 90 then char_of ((of_char c :: nat) + 32) else c)"

text \<open>\<^verbatim>\<open>Split\<close> and \<^verbatim>\<open>SplitN\<close> at one character, \<^verbatim>\<open>Join\<close>, and \<^verbatim>\<open>Fields\<close>.\<close>

fun split_at :: "char \<Rightarrow> string \<Rightarrow> string list" where
  "split_at c [] = [[]]"
| "split_at c (x # xs) =
     (if x = c then [] # split_at c xs
      else (case split_at c xs of [] \<Rightarrow> [[x]] | p # ps \<Rightarrow> (x # p) # ps))"

fun split_n :: "nat \<Rightarrow> char \<Rightarrow> string \<Rightarrow> string list" where
  "split_n 0 c s = []"
| "split_n (Suc 0) c s = [s]"
| "split_n (Suc (Suc n)) c s =
     (if c \<in> set s then takeWhile (\<lambda>x. x \<noteq> c) s # split_n (Suc n) c (tl (dropWhile (\<lambda>x. x \<noteq> c) s)) else [s])"

fun join_with :: "string \<Rightarrow> string list \<Rightarrow> string" where
  "join_with sep [] = []"
| "join_with sep [s] = s"
| "join_with sep (s # t # ss) = s @ sep @ join_with sep (t # ss)"

fun go_fields_loop :: "string \<Rightarrow> string \<Rightarrow> string list" where
  "go_fields_loop word [] = (if word = [] then [] else [word])"
| "go_fields_loop word (c # s) =
     (if is_space c then (if word = [] then go_fields_loop [] s else word # go_fields_loop [] s)
      else go_fields_loop (word @ [c]) s)"

definition go_fields :: "string \<Rightarrow> string list" where
  "go_fields = go_fields_loop []"

section \<open>Facts\<close>

lemma has_prefix_append [simp]: "has_prefix p (p @ s)"
  by (simp add: has_prefix_def)

lemma has_prefix_iff: "has_prefix p s \<longleftrightarrow> prefix p s"
  by (auto simp: has_prefix_def prefix_def) (metis append_take_drop_id)

lemma has_suffix_append [simp]: "has_suffix p (s @ p)"
  by (simp add: has_suffix_def)

lemma trim_suffix_append [simp]: "trim_suffix p (s @ p) = s"
  by (simp add: trim_suffix_def)

lemma trim_prefix_append [simp]: "trim_prefix p (p @ s) = s"
  by (simp add: trim_prefix_def)

lemma split_at_nonempty [simp]: "split_at c s \<noteq> []"
  by (cases s) (auto split: list.splits)

lemma split_at_pieces: "p \<in> set (split_at c s) \<Longrightarrow> c \<notin> set p"
  by (induction s arbitrary: p) (auto split: list.splits if_splits)

lemma split_at_plain: "c \<notin> set s \<Longrightarrow> split_at c s = [s]"
  by (induction s) auto

lemma split_at_append: "c \<notin> set s \<Longrightarrow> split_at c (s @ c # t) = s # split_at c t"
  by (induction s) auto

lemma join_split: "join_with [c] (split_at c s) = s"
proof (induction s)
  case (Cons x s)
  obtain p ps where "split_at c s = p # ps" by (meson list.exhaust split_at_nonempty)
  with Cons show ?case by (cases ps) auto
qed simp

lemma split_join: "ss \<noteq> [] \<Longrightarrow> \<forall>s\<in>set ss. c \<notin> set s \<Longrightarrow> split_at c (join_with [c] ss) = ss"
  by (induction "[c]" ss rule: join_with.induct) (auto simp: split_at_plain split_at_append)

definition trimmed :: "(char \<Rightarrow> bool) \<Rightarrow> string \<Rightarrow> bool" where
  "trimmed p s \<longleftrightarrow> s = [] \<or> \<not> p (hd s) \<and> \<not> p (last s)"

lemma trimmed_trim_by: "trimmed p (trim_by p s)"
proof -
  let ?u = "dropWhile p s"
  have last: "last (dropWhile p ys) = last ys" if "dropWhile p ys \<noteq> []" for ys
    using that by (metis last_appendR takeWhile_dropWhile_id)
  show ?thesis
  proof (cases "dropWhile p (rev ?u) = []")
    case False
    then have "?u \<noteq> []" by (cases "?u = []") simp_all
    then have "\<not> p (hd ?u)" using hd_dropWhile [of p s] by (metis dropWhile_eq_Nil_conv)
    moreover have "\<not> p (hd (dropWhile p (rev ?u)))"
      using False hd_dropWhile [of p "rev ?u"] by (metis dropWhile_eq_Nil_conv)
    ultimately show ?thesis
      using last [OF False] \<open>?u \<noteq> []\<close> by (simp add: trimmed_def trim_by_def hd_rev last_rev)
  qed (simp add: trimmed_def trim_by_def)
qed

lemma trim_by_trimmed: "trimmed p s \<Longrightarrow> trim_by p s = s"
proof -
  have stop: "dropWhile p ys = ys" if "ys \<noteq> []" "\<not> p (hd ys)" for ys :: string
    using that by (cases ys) auto
  assume "trimmed p s"
  then show ?thesis
    by (cases "s = []") (auto simp: trimmed_def trim_by_def stop hd_rev)
qed

lemma trim_by_idem [simp]: "trim_by p (trim_by p s) = trim_by p s"
  by (rule trim_by_trimmed, rule trimmed_trim_by)

lemma trim_idem [simp]: "trim (trim s) = trim s"
  by (simp add: trim_def)

end
