(* ===== verification/Migrations.thy ===== *)
theory Migrations
  imports GoStrings
begin

text \<open>
  Database migrations, \<^verbatim>\<open>operations/migration.go\<close>: the registry of migration files with the parser of their
  annotations, the validator, the executor that runs one migration in a transaction together with its
  history record, and the manager that applies the pending migrations in order and rolls the last ones
  back. The package takes the database as an interface it does not implement; here it is a record of
  operations with the contract \<open>migration_database\<close>, interpreted on a database with transactions, a primary
  key and failing calls. The checksum function, the clock, the points at which the context is found
  cancelled and the answers of the hooks are arguments. Random IDs, tags of the log and the backup
  placeholders are left out.
\<close>

section \<open>Migrations and their files\<close>

datatype migration_status = MigrationStatusPending | MigrationStatusRunning | MigrationStatusApplied
  | MigrationStatusFailed | MigrationStatusRolledBack | MigrationStatusSkipped

datatype validation_error = VersionRequired | NameRequired | UpSqlRequired | ChecksumRequired
  | UpSyntax | DownSyntax | EmptyDependency

datatype migration_error = ErrNoSql string | ErrBegin | ErrExecute | ErrRecord | ErrCommit
  | ErrValidation "validation_error list" | ErrInProgress | ErrRollbackDisabled | ErrCancelled
  | ErrMigrationFailed string migration_error | ErrHistoryQuery | ErrCreateTable | ErrReadDir | ErrNotRunning

record migration =
  mg_version :: string
  mg_name :: string
  mg_up_sql :: string
  mg_down_sql :: string
  mg_checksum :: string
  mg_status :: migration_status
  mg_applied_at :: "time option"
  mg_rolled_back_at :: "time option"
  mg_duration :: duration
  mg_error :: "migration_error option"
  mg_dependencies :: "string list"
  mg_tags :: "string list"
  mg_author :: string
  mg_created_at :: time

text \<open>\<^verbatim>\<open>parseSQLContent\<close>: the loop over the lines with its flags \<^verbatim>\<open>inUp\<close> and \<^verbatim>\<open>inDown\<close> and its two buffers.\<close>

fun sql_loop :: "string list \<Rightarrow> bool \<Rightarrow> bool \<Rightarrow> string \<Rightarrow> string \<Rightarrow> string \<times> string" where
  "sql_loop [] in_up in_down up down = (up, down)"
| "sql_loop (line # ls) in_up in_down up down =
     (let trimmed = trim line
      in if has_prefix ''-- +migrate Up'' trimmed then sql_loop ls True False up down
         else if has_prefix ''-- +migrate Down'' trimmed then sql_loop ls False True up down
         else if in_up then sql_loop ls in_up in_down (up @ line @ [CHR 0x0A]) down
         else if in_down then sql_loop ls in_up in_down up (down @ line @ [CHR 0x0A])
         else sql_loop ls in_up in_down up down)"

definition parse_sql_content :: "string \<Rightarrow> string \<times> string" where
  "parse_sql_content content =
     (case sql_loop (split_at (CHR 0x0A) content) False False [] [] of (up, down) \<Rightarrow> (trim up, trim down))"

definition annotation :: "string \<Rightarrow> string \<Rightarrow> string option" where
  "annotation key line = (if has_prefix key line then Some (trim (trim_prefix key line)) else None)"

definition parse_list :: "string \<Rightarrow> string list" where
  "parse_list s = map trim (split_at (CHR '','') s)"

fun metadata_loop :: "string list \<Rightarrow> migration \<Rightarrow> migration" where
  "metadata_loop [] m = m"
| "metadata_loop (line # ls) m =
     (let trimmed = trim line;
          m = (case annotation ''-- +migrate Author:'' trimmed of None \<Rightarrow> m | Some a \<Rightarrow> m\<lparr>mg_author := a\<rparr>);
          m = (case annotation ''-- +migrate Tags:'' trimmed of None \<Rightarrow> m | Some t \<Rightarrow> m\<lparr>mg_tags := parse_list t\<rparr>);
          m = (case annotation ''-- +migrate Depends:'' trimmed of None \<Rightarrow> m
               | Some d \<Rightarrow> m\<lparr>mg_dependencies := parse_list d\<rparr>)
      in metadata_loop ls m)"

definition parse_metadata :: "migration \<Rightarrow> string \<Rightarrow> migration" where
  "parse_metadata m content = metadata_loop (split_at (CHR 0x0A) content) m"

text \<open>\<^verbatim>\<open>parseMigrationFile\<close> on the base name and the content of a file; \<open>None\<close> for a name without underscore.\<close>

definition parse_migration_file :: "(string \<Rightarrow> string) \<Rightarrow> time \<Rightarrow> string \<Rightarrow> string \<Rightarrow> migration option" where
  "parse_migration_file sha now filename content =
     (let parts = split_n 3 (CHR ''_'') (trim_suffix ''.sql'' filename)
      in if length parts < 2 then None
         else (case parse_sql_content content of
           (up, down) \<Rightarrow> Some (parse_metadata
             \<lparr>mg_version = trim_prefix ''V'' (parts ! 0), mg_name = join_with ''_'' (tl parts), mg_up_sql = up,
              mg_down_sql = down, mg_checksum = sha content, mg_status = MigrationStatusPending,
              mg_applied_at = None, mg_rolled_back_at = None, mg_duration = 0, mg_error = None,
              mg_dependencies = [], mg_tags = [], mg_author = [], mg_created_at = now\<rparr> content)))"

section \<open>The registry\<close>

record migration_registry =
  rg_migrations :: "string \<rightharpoonup> migration"
  rg_sorted :: "string list"

definition new_migration_registry :: migration_registry where
  "new_migration_registry = \<lparr>rg_migrations = Map.empty, rg_sorted = []\<rparr>"

text \<open>A directory entry: its name, whether it is a directory, and its content if it can be read.\<close>

record dir_entry =
  de_name :: string
  de_is_dir :: bool
  de_content :: "string option"

definition load_entry :: "(string \<Rightarrow> string) \<Rightarrow> time \<Rightarrow> dir_entry \<Rightarrow> migration option" where
  "load_entry sha now f =
     (if de_is_dir f then None
      else if \<not> has_suffix ''.sql'' (de_name f) then None
      else (case de_content f of None \<Rightarrow> None | Some c \<Rightarrow> parse_migration_file sha now (de_name f) c))"

definition load_registry :: "(string \<Rightarrow> string) \<Rightarrow> time \<Rightarrow> dir_entry list option
    \<Rightarrow> migration_registry \<times> migration_error option" where
  "load_registry sha now files =
     (case files of
        None \<Rightarrow> (new_migration_registry, Some ErrReadDir)
      | Some fs \<Rightarrow>
          let ms = List.map_filter (load_entry sha now) fs
          in (\<lparr>rg_migrations = foldl (\<lambda>r m. r(mg_version m \<mapsto> m)) Map.empty ms,
               rg_sorted = sort (remdups (map mg_version ms))\<rparr>, None))"

definition get_migration :: "string \<Rightarrow> migration_registry \<Rightarrow> migration option" where
  "get_migration v r = rg_migrations r v"

definition list_migrations :: "migration_registry \<Rightarrow> migration list" where
  "list_migrations r = List.map_filter (rg_migrations r) (rg_sorted r)"

definition get_pending :: "(string \<Rightarrow> bool) \<Rightarrow> migration_registry \<Rightarrow> migration list" where
  "get_pending applied r = List.map_filter (rg_migrations r) (filter (\<lambda>v. \<not> applied v) (rg_sorted r))"

definition add_migration :: "migration \<Rightarrow> migration_registry \<Rightarrow> migration_registry" where
  "add_migration m r = r\<lparr>rg_migrations := (rg_migrations r)(mg_version m \<mapsto> m),
     rg_sorted := sort (rg_sorted r @ [mg_version m])\<rparr>"

section \<open>The validator\<close>

fun paren_loop :: "string \<Rightarrow> int \<Rightarrow> bool" where
  "paren_loop [] n \<longleftrightarrow> n = 0"
| "paren_loop (c # s) n \<longleftrightarrow>
     (if c = CHR ''('' then paren_loop s (n + 1)
      else if c = CHR '')'' then 0 \<le> n - 1 \<and> paren_loop s (n - 1)
      else paren_loop s n)"

definition validate_sql_syntax :: "string \<Rightarrow> bool" where
  "validate_sql_syntax sql = (let s = trim sql in s \<noteq> [] \<and> paren_loop s 0)"

definition validation_errors :: "migration \<Rightarrow> validation_error list" where
  "validation_errors m =
     (if mg_version m = [] then [VersionRequired] else []) @ (if mg_name m = [] then [NameRequired] else [])
     @ (if mg_up_sql m = [] then [UpSqlRequired] else []) @ (if mg_checksum m = [] then [ChecksumRequired] else [])
     @ (if \<not> validate_sql_syntax (mg_up_sql m) then [UpSyntax] else [])
     @ (if mg_down_sql m \<noteq> [] \<and> \<not> validate_sql_syntax (mg_down_sql m) then [DownSyntax] else [])
     @ map (\<lambda>_. EmptyDependency) (filter (\<lambda>d. d = []) (mg_dependencies m))"

definition validate_migration :: "migration \<Rightarrow> migration_error option" where
  "validate_migration m = (case validation_errors m of [] \<Rightarrow> None | es \<Rightarrow> Some (ErrValidation es))"

definition validate_all :: "migration_registry \<Rightarrow> (string \<times> migration_error) list" where
  "validate_all r = List.map_filter (\<lambda>m. map_option (Pair (mg_version m)) (validate_migration m)) (list_migrations r)"

section \<open>The database and the executor\<close>

record migration_record =
  rc_version :: string
  rc_name :: string
  rc_checksum :: string
  rc_applied_at :: time
  rc_rolled_back_at :: "time option"
  rc_execution_time :: duration

record migration_config =
  mc_enable_rollback :: bool
  mc_dry_run :: bool
  mc_validate_before_apply :: bool
  mc_stop_on_error :: bool
  mc_continue_on_error :: bool

text \<open>
  The calls the code makes on the interfaces \<^verbatim>\<open>Database\<close> and \<^verbatim>\<open>Transaction\<close>, one per statement; each tells
  whether it succeeded. The history query answers the rows or an error.
\<close>

record 'd migration_db =
  mb_create_table :: "'d \<Rightarrow> 'd \<times> bool"
  mb_begin :: "'d \<Rightarrow> 'd \<times> bool"
  mb_script :: "string \<Rightarrow> 'd \<Rightarrow> 'd \<times> bool"
  mb_insert :: "migration_record \<Rightarrow> 'd \<Rightarrow> 'd \<times> bool"
  mb_mark :: "time \<Rightarrow> string \<Rightarrow> 'd \<Rightarrow> 'd \<times> bool"
  mb_commit :: "'d \<Rightarrow> 'd \<times> bool"
  mb_rollback :: "'d \<Rightarrow> 'd"
  mb_history :: "'d \<Rightarrow> 'd \<times> migration_record list option"
  mb_clear :: "'d \<Rightarrow> 'd \<times> bool"

datatype direction = Up | Down

definition record_migration :: "'d migration_db \<Rightarrow> time \<Rightarrow> migration \<Rightarrow> direction \<Rightarrow> 'd \<Rightarrow> 'd \<times> bool" where
  "record_migration db now m dir d =
     (case dir of
        Up \<Rightarrow> mb_insert db \<lparr>rc_version = mg_version m, rc_name = mg_name m, rc_checksum = mg_checksum m,
          rc_applied_at = now, rc_rolled_back_at = None, rc_execution_time = mg_duration m\<rparr> d
      | Down \<Rightarrow> mb_mark db now (mg_version m) d)"

definition migration_sql :: "direction \<Rightarrow> migration \<Rightarrow> string" where
  "migration_sql dir m = (case dir of Up \<Rightarrow> mg_up_sql m | Down \<Rightarrow> mg_down_sql m)"

definition execute_migration :: "'d migration_db \<Rightarrow> migration_config \<Rightarrow> time \<Rightarrow> migration \<Rightarrow> direction \<Rightarrow> 'd
    \<Rightarrow> 'd \<times> migration_error option" where
  "execute_migration db config now m dir d =
     (if migration_sql dir m = [] then (d, Some (ErrNoSql (mg_version m)))
      else if mc_dry_run config then (d, None)
      else (case mb_begin db d of
        (d, False) \<Rightarrow> (d, Some ErrBegin)
      | (d, True) \<Rightarrow>
          (case mb_script db (migration_sql dir m) d of
             (d, False) \<Rightarrow> (mb_rollback db d, Some ErrExecute)
           | (d, True) \<Rightarrow>
               (case record_migration db now m dir d of
                  (d, False) \<Rightarrow> (mb_rollback db d, Some ErrRecord)
                | (d, True) \<Rightarrow>
                    (case mb_commit db d of (d, ok) \<Rightarrow> (d, if ok then None else Some ErrCommit))))))"

section \<open>History and metrics\<close>

definition load_history :: "migration_record list \<Rightarrow> string \<rightharpoonup> migration_record" where
  "load_history rows = foldl (\<lambda>h r. h(rc_version r \<mapsto> r)) Map.empty rows"

definition applied_versions :: "(string \<rightharpoonup> migration_record) \<Rightarrow> string \<Rightarrow> bool" where
  "applied_versions h v \<longleftrightarrow> (case h v of None \<Rightarrow> False | Some r \<Rightarrow> rc_rolled_back_at r = None)"

record migration_metrics =
  mt_total :: int
  mt_applied :: int
  mt_failed :: int
  mt_rolled_back :: int
  mt_total_time :: duration
  mt_average :: duration

definition record_metric :: "migration \<Rightarrow> migration_metrics \<Rightarrow> migration_metrics" where
  "record_metric m t =
     (let t = t\<lparr>mt_total := mt_total t + 1, mt_total_time := i64 (mt_total_time t + mg_duration m)\<rparr>;
          t = (case mg_status m of
             MigrationStatusApplied \<Rightarrow> t\<lparr>mt_applied := mt_applied t + 1\<rparr>
           | MigrationStatusFailed \<Rightarrow> t\<lparr>mt_failed := mt_failed t + 1\<rparr>
           | MigrationStatusRolledBack \<Rightarrow> t\<lparr>mt_rolled_back := mt_rolled_back t + 1\<rparr>
           | _ \<Rightarrow> t)
      in t\<lparr>mt_average := go_div (mt_total_time t) (mt_total t)\<rparr>)"

section \<open>The manager\<close>

record 'd migration_manager =
  mm_config :: migration_config
  mm_db :: 'd
  mm_registry :: migration_registry
  mm_history :: "string \<rightharpoonup> migration_record"
  mm_metrics :: migration_metrics
  mm_running :: bool

definition new_migration_manager :: "migration_config \<Rightarrow> 'd \<Rightarrow> 'd migration_manager" where
  "new_migration_manager config d =
     \<lparr>mm_config = config, mm_db = d, mm_registry = new_migration_registry, mm_history = Map.empty,
      mm_metrics = \<lparr>mt_total = 0, mt_applied = 0, mt_failed = 0, mt_rolled_back = 0, mt_total_time = 0, mt_average = 0\<rparr>,
      mm_running = False\<rparr>"

text \<open>A history that cannot be loaded is only logged, and the manager starts with an empty one.\<close>

definition initialize_migrations :: "'d migration_db \<Rightarrow> (string \<Rightarrow> string) \<Rightarrow> time \<Rightarrow> dir_entry list option
    \<Rightarrow> 'd migration_manager \<Rightarrow> 'd migration_manager \<times> migration_error option" where
  "initialize_migrations db sha now files s =
     (case mb_create_table db (mm_db s) of
        (d, False) \<Rightarrow> (s\<lparr>mm_db := d\<rparr>, Some ErrCreateTable)
      | (d, True) \<Rightarrow>
          (case load_registry sha now files of
             (r, Some e) \<Rightarrow> (s\<lparr>mm_db := d, mm_registry := r\<rparr>, Some e)
           | (r, None) \<Rightarrow>
               (case mb_history db d of
                  (d, None) \<Rightarrow> (s\<lparr>mm_db := d, mm_registry := r\<rparr>, None)
                | (d, Some rows) \<Rightarrow> (s\<lparr>mm_db := d, mm_registry := r, mm_history := load_history rows\<rparr>, None))))"

datatype result_status = ResultSuccess | ResultFailed | ResultPartial | ResultCancelled

record migration_result =
  mr_status :: result_status
  mr_applied :: nat
  mr_failed :: nat
  mr_migrations :: "migration list"

text \<open>
  The environment of a run: the instants before and after each migration by version, whether the context
  is found cancelled before it, and whether the hooks before the run
  ended before the context was cancelled (later hooks are only logged). A loop carries the database, the
  metrics, the migrations that succeeded and the number of failures, and ends with the error it returns
  early with, if any.
\<close>

record migration_env =
  me_clock :: "string \<Rightarrow> time \<times> time"
  me_cancelled :: "string \<Rightarrow> bool"
  me_hooks :: bool

definition migration_failed :: "duration \<Rightarrow> migration_error \<Rightarrow> migration \<Rightarrow> migration" where
  "migration_failed dur e m = m\<lparr>mg_status := MigrationStatusFailed, mg_error := Some e, mg_duration := dur\<rparr>"

definition migration_time :: "migration_env \<Rightarrow> migration \<Rightarrow> duration" where
  "migration_time env m = time_sub (snd (me_clock env (mg_version m))) (fst (me_clock env (mg_version m)))"

datatype loop_end = Finished | ReturnsCancelled | ReturnsError migration_error

record 'd migration_loop =
  ml_db :: 'd
  ml_metrics :: migration_metrics
  ml_applied :: "migration list"
  ml_failed :: nat

definition check_valid :: "migration_config \<Rightarrow> migration \<Rightarrow> migration_error option" where
  "check_valid config m = (if mc_validate_before_apply config then validate_migration m else None)"

fun migrate_loop :: "'d migration_db \<Rightarrow> migration_config \<Rightarrow> migration_env \<Rightarrow> migration list \<Rightarrow> 'd migration_loop
    \<Rightarrow> 'd migration_loop \<times> loop_end" where
  "migrate_loop db config env [] l = (l, Finished)"
| "migrate_loop db config env (m # ms) l =
     (if me_cancelled env (mg_version m) then (l, ReturnsCancelled)
      else (case check_valid config m of
        Some e \<Rightarrow>
          let l = l\<lparr>ml_failed := Suc (ml_failed l)\<rparr>
          in if mc_stop_on_error config then (l, Finished)
             else if \<not> mc_continue_on_error config then (l, ReturnsError (ErrMigrationFailed (mg_version m) e))
             else migrate_loop db config env ms l
      | None \<Rightarrow>
          (case execute_migration db config (snd (me_clock env (mg_version m))) (m\<lparr>mg_status := MigrationStatusRunning\<rparr>)
              Up (ml_db l) of
             (d, Some e) \<Rightarrow>
               let l = l\<lparr>ml_db := d, ml_failed := Suc (ml_failed l),
                     ml_metrics := record_metric (migration_failed (migration_time env m) e m) (ml_metrics l)\<rparr>
               in if mc_stop_on_error config then (l, Finished)
                  else if \<not> mc_continue_on_error config then (l, ReturnsError (ErrMigrationFailed (mg_version m) e))
                  else migrate_loop db config env ms l
           | (d, None) \<Rightarrow>
               let m = m\<lparr>mg_status := MigrationStatusApplied, mg_duration := migration_time env m,
                     mg_applied_at := Some (snd (me_clock env (mg_version m)))\<rparr>
               in migrate_loop db config env ms (l\<lparr>ml_db := d, ml_metrics := record_metric m (ml_metrics l),
                    ml_applied := ml_applied l @ [m]\<rparr>))))"

definition result_of :: "'d migration_loop \<Rightarrow> migration_result" where
  "result_of l =
     (let applied = length (ml_applied l); failed = ml_failed l
      in \<lparr>mr_status = (if 0 < failed \<and> applied = 0 then ResultFailed else if 0 < failed then ResultPartial
            else ResultSuccess), mr_applied = applied, mr_failed = failed, mr_migrations = ml_applied l\<rparr>)"

text \<open>A result returned early has the counts it was created with.\<close>

definition early_result :: "result_status \<Rightarrow> migration list \<Rightarrow> migration_result" where
  "early_result st ms = \<lparr>mr_status = st, mr_applied = 0, mr_failed = 0, mr_migrations = ms\<rparr>"

definition finish_run :: "'d migration_manager \<Rightarrow> 'd migration_loop \<times> loop_end
    \<Rightarrow> 'd migration_manager \<times> migration_result option \<times> migration_error option" where
  "finish_run s x =
     (case x of (l, fin) \<Rightarrow>
        let s = s\<lparr>mm_db := ml_db l, mm_metrics := ml_metrics l\<rparr>
        in case fin of
             Finished \<Rightarrow> (s, Some (result_of l), None)
           | ReturnsCancelled \<Rightarrow> (s, Some (early_result ResultCancelled (ml_applied l)), Some ErrCancelled)
           | ReturnsError e \<Rightarrow> (s, Some (early_result ResultFailed (ml_applied l)), Some e))"

definition start_loop :: "'d migration_manager \<Rightarrow> 'd migration_loop" where
  "start_loop s = \<lparr>ml_db = mm_db s, ml_metrics = mm_metrics s, ml_applied = [], ml_failed = 0\<rparr>"

definition migrate :: "'d migration_db \<Rightarrow> migration_env \<Rightarrow> 'd migration_manager
    \<Rightarrow> 'd migration_manager \<times> migration_result option \<times> migration_error option" where
  "migrate db env s =
     (if mm_running s then (s, None, Some ErrInProgress)
      else let pending = get_pending (applied_versions (mm_history s)) (mm_registry s)
           in if pending = [] then (s, Some (early_result ResultSuccess []), None)
              else if \<not> me_hooks env then (s, Some (early_result ResultFailed []), Some ErrCancelled)
              else finish_run s (migrate_loop db (mm_config s) env pending (start_loop s)))"

text \<open>
  \<^verbatim>\<open>Rollback\<close> takes the records in the order of the range over the history, \<open>ks\<close>, and sorts them by the time
  they were applied, latest first; a negative number of steps panics (\<open>None\<close>).
\<close>

definition rollback_candidates :: "string list \<Rightarrow> (string \<rightharpoonup> migration_record) \<Rightarrow> migration_record list" where
  "rollback_candidates ks h = sort_key (\<lambda>r. - rc_applied_at r) (map snd (visit ks h))"

fun rollback_loop :: "'d migration_db \<Rightarrow> migration_config \<Rightarrow> migration_env \<Rightarrow> migration_registry
    \<Rightarrow> migration_record list \<Rightarrow> 'd migration_loop \<Rightarrow> 'd migration_loop \<times> loop_end" where
  "rollback_loop db config env reg [] l = (l, Finished)"
| "rollback_loop db config env reg (r # rs) l =
     (if me_cancelled env (rc_version r) then (l, ReturnsCancelled)
      else (case get_migration (rc_version r) reg of
        None \<Rightarrow> rollback_loop db config env reg rs l
      | Some m \<Rightarrow>
          if mg_down_sql m = [] then rollback_loop db config env reg rs l
          else (case execute_migration db config (snd (me_clock env (mg_version m))) (m\<lparr>mg_status := MigrationStatusRunning\<rparr>)
              Down (ml_db l) of
             (d, Some e) \<Rightarrow>
               let l = l\<lparr>ml_db := d, ml_failed := Suc (ml_failed l),
                     ml_metrics := record_metric (migration_failed (migration_time env m) e m) (ml_metrics l)\<rparr>
               in if mc_stop_on_error config then (l, Finished) else rollback_loop db config env reg rs l
           | (d, None) \<Rightarrow>
               let m = m\<lparr>mg_status := MigrationStatusRolledBack, mg_duration := migration_time env m,
                     mg_rolled_back_at := Some (snd (me_clock env (mg_version m)))\<rparr>
               in rollback_loop db config env reg rs (l\<lparr>ml_db := d, ml_metrics := record_metric m (ml_metrics l),
                    ml_applied := ml_applied l @ [m]\<rparr>))))"

definition rollback_migrations :: "'d migration_db \<Rightarrow> migration_env \<Rightarrow> string list \<Rightarrow> int \<Rightarrow> 'd migration_manager
    \<Rightarrow> ('d migration_manager \<times> migration_result option \<times> migration_error option) option" where
  "rollback_migrations db env ks steps s =
     (if \<not> mc_enable_rollback (mm_config s) then Some (s, None, Some ErrRollbackDisabled)
      else if mm_running s then Some (s, None, Some ErrInProgress)
      else let applied = rollback_candidates ks (mm_history s)
           in if applied = [] then Some (s, Some (early_result ResultSuccess []), None)
              else if steps < 0 then None
              else if \<not> me_hooks env then Some (s, Some (early_result ResultFailed []), Some ErrCancelled)
              else Some (finish_run s (rollback_loop db (mm_config s) env (mm_registry s)
                     (take (nat steps) applied) (start_loop s))))"

section \<open>Reports and the rest of the manager\<close>

record migration_report =
  mp_total :: nat
  mp_applied :: nat
  mp_pending :: "migration list"
  mp_last_applied :: "migration_record option"
  mp_running :: bool

definition migration_report_of :: "string list \<Rightarrow> 'd migration_manager \<Rightarrow> migration_report" where
  "migration_report_of ks s =
     (let applied = rollback_candidates ks (mm_history s)
      in \<lparr>mp_total = length (list_migrations (mm_registry s)), mp_applied = length applied,
          mp_pending = get_pending (applied_versions (mm_history s)) (mm_registry s),
          mp_last_applied = (case applied of [] \<Rightarrow> None | r # _ \<Rightarrow> Some r), mp_running = mm_running s\<rparr>)"

definition get_pending_count :: "'d migration_manager \<Rightarrow> nat" where
  "get_pending_count s = length (get_pending (applied_versions (mm_history s)) (mm_registry s))"

record migration_diff =
  df_local_only :: "migration list"
  df_remote_only :: "migration_record list"
  df_common :: "migration list"

definition migration_diff_of :: "string list \<Rightarrow> 'd migration_manager \<Rightarrow> migration_diff" where
  "migration_diff_of ks s =
     (let local_migrations = list_migrations (mm_registry s);
          applied = applied_versions (mm_history s)
      in \<lparr>df_local_only = filter (\<lambda>m. \<not> applied (mg_version m)) local_migrations,
          df_remote_only = filter (\<lambda>r. get_migration (rc_version r) (mm_registry s) = None) (map snd (visit ks (mm_history s))),
          df_common = filter (\<lambda>m. applied (mg_version m)) local_migrations\<rparr>)"

definition reset_migrations :: "'d migration_db \<Rightarrow> 'd migration_manager \<Rightarrow> 'd migration_manager \<times> migration_error option" where
  "reset_migrations db s =
     (if mm_running s then (s, Some ErrInProgress)
      else (case mb_clear db (mm_db s) of
        (d, False) \<Rightarrow> (s\<lparr>mm_db := d\<rparr>, Some ErrHistoryQuery)
      | (d, True) \<Rightarrow>
          (case mb_history db d of
             (d, None) \<Rightarrow> (s\<lparr>mm_db := d\<rparr>, Some ErrHistoryQuery)
           | (d, Some rows) \<Rightarrow> (s\<lparr>mm_db := d, mm_history := load_history rows\<rparr>, None))))"

definition import_migrations :: "(string \<Rightarrow> string) \<Rightarrow> time \<Rightarrow> dir_entry list option \<Rightarrow> 'd migration_manager
    \<Rightarrow> 'd migration_manager \<times> migration_error option" where
  "import_migrations sha now files s = (case load_registry sha now files of (r, e) \<Rightarrow> (s\<lparr>mm_registry := r\<rparr>, e))"

text \<open>The name and the content of the file \<^verbatim>\<open>Create\<close> writes; \<open>version\<close> and \<open>created\<close> are the formatted instant.\<close>

definition newline :: string where
  "newline = [CHR 0x0A]"

definition new_file_name :: "string \<Rightarrow> string \<Rightarrow> string" where
  "new_file_name version name =
     ''V'' @ version @ ''_'' @ map (\<lambda>c. if c = CHR '' '' then CHR ''_'' else c) (to_lower name) @ ''.sql''"

definition new_file_content :: "string \<Rightarrow> string \<Rightarrow> string \<Rightarrow> string" where
  "new_file_content name created kind = join_with newline
     [''-- +migrate Up'', ''-- Migration: '' @ name, ''-- Created: '' @ created, ''-- Type: '' @ kind,
      ''-- Author: System'', [], ''-- Add your up migration SQL here'', [], [],
      ''-- +migrate Down'', ''-- Add your down migration SQL here'', [], []]"

text \<open>\<^verbatim>\<open>GenerateDownSQL\<close>: the word after the first \<^verbatim>\<open>TABLE\<close> or \<^verbatim>\<open>INDEX\<close> of a line that creates one.\<close>

fun word_after :: "string \<Rightarrow> string list \<Rightarrow> string option" where
  "word_after key (w # v # ws) = (if to_upper w = key then Some v else word_after key (v # ws))"
| "word_after key ws = None"

fun created_name :: "string \<Rightarrow> string \<Rightarrow> string list \<Rightarrow> string option" where
  "created_name phrase key [] = None"
| "created_name phrase key (line # ls) =
     (if contains phrase (to_upper line)
      then (case word_after key (go_fields line) of Some w \<Rightarrow> Some w | None \<Rightarrow> created_name phrase key ls)
      else created_name phrase key ls)"

definition generate_down_sql :: "migration \<Rightarrow> string" where
  "generate_down_sql m =
     (let up = trim (mg_up_sql m); ls = split_at (CHR 0x0A) up; strip = trim_by (\<lambda>c. c \<in> {CHR ''('', CHR '')'', CHR '';''});
          other = (if contains ''ALTER TABLE'' (to_upper up) then ''-- TODO: Generate down SQL for ALTER TABLE operations''
            else (case (if contains ''CREATE INDEX'' (to_upper up) then created_name ''CREATE INDEX'' ''INDEX'' ls else None) of
              Some w \<Rightarrow> ''DROP INDEX IF EXISTS '' @ strip w @ '';''
            | None \<Rightarrow> ''-- TODO: Generate down SQL''))
      in case (if contains ''CREATE TABLE'' (to_upper up) then created_name ''CREATE TABLE'' ''TABLE'' ls else None) of
           Some w \<Rightarrow> ''DROP TABLE IF EXISTS '' @ strip w @ '' CASCADE;''
         | None \<Rightarrow> other)"

section \<open>The contract of the database\<close>

text \<open>
  The committed state of a database: the scripts that took effect, in order, and the rows of the history
  table by version, its primary key. \<open>staged\<close> is the state as the open transaction sees it.
\<close>

type_synonym migrated = "string list \<times> (string \<rightharpoonup> migration_record)"

definition stage_script :: "string \<Rightarrow> migrated \<Rightarrow> migrated" where
  "stage_script sql st = (fst st @ [sql], snd st)"

definition stage_insert :: "migration_record \<Rightarrow> migrated \<Rightarrow> migrated" where
  "stage_insert r st = (fst st, (snd st)(rc_version r \<mapsto> r))"

definition stage_mark :: "time \<Rightarrow> string \<Rightarrow> migrated \<Rightarrow> migrated" where
  "stage_mark now v st = (fst st, (snd st)(v := map_option (\<lambda>r. r\<lparr>rc_rolled_back_at := Some now\<rparr>) (snd st v)))"

locale migration_database =
  fixes db :: "'d migration_db" and committed :: "'d \<Rightarrow> migrated" and staged :: "'d \<Rightarrow> migrated"
  assumes create_table: "mb_create_table db d = (d', ok) \<Longrightarrow> committed d' = committed d"
    and begin_tx: "mb_begin db d = (d', ok) \<Longrightarrow> committed d' = committed d \<and> (ok \<longrightarrow> staged d' = committed d)"
    and script: "mb_script db sql d = (d', ok) \<Longrightarrow> committed d' = committed d \<and> (ok \<longrightarrow> staged d' = stage_script sql (staged d))"
    and insert: "mb_insert db r d = (d', ok) \<Longrightarrow> committed d' = committed d
      \<and> (ok \<longrightarrow> snd (staged d) (rc_version r) = None \<and> staged d' = stage_insert r (staged d))"
    and mark: "mb_mark db now v d = (d', ok) \<Longrightarrow> committed d' = committed d \<and> (ok \<longrightarrow> staged d' = stage_mark now v (staged d))"
    and commit: "mb_commit db d = (d', ok) \<Longrightarrow> committed d' = (if ok then staged d else committed d)"
    and rollback: "committed (mb_rollback db d) = committed d"
    and history: "mb_history db d = (d', a) \<Longrightarrow> committed d' = committed d
      \<and> (case a of None \<Rightarrow> True | Some rows \<Rightarrow> distinct (map rc_version rows)
            \<and> (\<forall>v. snd (committed d) v = map_of (map (\<lambda>r. (rc_version r, r)) rows) v))"
    and clear: "mb_clear db d = (d', ok) \<Longrightarrow> committed d' = (if ok then (fst (committed d), Map.empty) else committed d)"

text \<open>The effect of one migration: its script and its record, or nothing.\<close>

definition record_at :: "time \<Rightarrow> migration \<Rightarrow> migration_record" where
  "record_at now m = \<lparr>rc_version = mg_version m, rc_name = mg_name m, rc_checksum = mg_checksum m,
     rc_applied_at = now, rc_rolled_back_at = None, rc_execution_time = mg_duration m\<rparr>"

definition migrated_by :: "time \<Rightarrow> migration \<Rightarrow> direction \<Rightarrow> migrated \<Rightarrow> migrated" where
  "migrated_by now m dir st = (case dir of
       Up \<Rightarrow> stage_insert (record_at now m) (stage_script (mg_up_sql m) st)
     | Down \<Rightarrow> stage_mark now (mg_version m) (stage_script (mg_down_sql m) st))"

context migration_database begin

text \<open>Executing a migration is atomic: script and record both take effect, or neither.\<close>

lemma execute_atomic:
  assumes "execute_migration db config now m dir d = (d', err)"
  shows "if err = None \<and> \<not> mc_dry_run config then committed d' = migrated_by now m dir (committed d)
      \<and> (dir = Up \<longrightarrow> snd (committed d) (mg_version m) = None) else committed d' = committed d"
proof (cases "migration_sql dir m = [] \<or> mc_dry_run config")
  case True
  with assms show ?thesis by (auto simp: execute_migration_def split: if_splits)
next
  case False
  then have real: "migration_sql dir m \<noteq> []" "\<not> mc_dry_run config" by auto
  obtain d1 b1 where 1: "mb_begin db d = (d1, b1)" by fastforce
  obtain d2 b2 where 2: "mb_script db (migration_sql dir m) d1 = (d2, b2)" by fastforce
  obtain d3 b3 where 3: "record_migration db now m dir d2 = (d3, b3)" by fastforce
  obtain d4 b4 where 4: "mb_commit db d3 = (d4, b4)" by fastforce
  note st = begin_tx [OF 1] script [OF 2] commit [OF 4] rollback
  have rec: "committed d3 = committed d2 \<and> (b3 \<longrightarrow> (case dir of
      Up \<Rightarrow> snd (staged d2) (mg_version m) = None \<and> staged d3 = stage_insert (record_at now m) (staged d2)
    | Down \<Rightarrow> staged d3 = stage_mark now (mg_version m) (staged d2)))"
    using 3 insert mark by (cases dir) (fastforce simp: record_migration_def record_at_def)+
  from assms 1 2 3 4 real have "d' = (if b1 then if b2 then if b3 then d4 else mb_rollback db d3 else mb_rollback db d2 else d1)"
      "err = (if b1 then if b2 then if b3 then if b4 then None else Some ErrCommit else Some ErrRecord else Some ErrExecute else Some ErrBegin)"
    by (auto simp: execute_migration_def split: if_splits)
  with st rec real show ?thesis
    by (cases dir) (auto simp: migrated_by_def migration_sql_def stage_script_def split: if_splits)
qed

end

section \<open>Runs of migrations\<close>

definition apply_all :: "migration_env \<Rightarrow> direction \<Rightarrow> migration list \<Rightarrow> migrated \<Rightarrow> migrated" where
  "apply_all env dir ms st = foldl (\<lambda>st m. migrated_by (snd (me_clock env (mg_version m))) m dir st) st ms"

lemma apply_all_simps [simp]:
  "apply_all env dir [] st = st"
  "apply_all env dir (m # ms) st = apply_all env dir ms (migrated_by (snd (me_clock env (mg_version m))) m dir st)"
  by (simp_all add: apply_all_def)

lemma migrated_by_status [simp]: "migrated_by now (m\<lparr>mg_status := x\<rparr>) dir st = migrated_by now m dir st"
  by (simp add: migrated_by_def record_at_def split: direction.split)

context migration_database begin

text \<open>
  What a loop over migrations has done: \<open>did\<close> took effect, a subsequence of those it was given, and all of
  them when it did to the end and nothing failed.
\<close>

definition loop_did :: "migration_config \<Rightarrow> migration_env \<Rightarrow> direction \<Rightarrow> migration list \<Rightarrow> migration list
    \<Rightarrow> 'd migration_loop \<Rightarrow> 'd migration_loop \<Rightarrow> bool" where
  "loop_did config env dir given did l l' \<longleftrightarrow> subseq did given
     \<and> map mg_version (ml_applied l') = map mg_version (ml_applied l) @ map mg_version did \<and> ml_failed l \<le> ml_failed l'
     \<and> committed (ml_db l') = (if mc_dry_run config then committed (ml_db l) else apply_all env dir did (committed (ml_db l)))
     \<and> (\<not> mc_dry_run config \<and> dir = Up \<longrightarrow> (\<forall>m\<in>set did. snd (committed (ml_db l)) (mg_version m) = None))"

lemma loop_did_nothing: "committed (ml_db l') = committed (ml_db l) \<Longrightarrow> ml_applied l' = ml_applied l
    \<Longrightarrow> ml_failed l \<le> ml_failed l' \<Longrightarrow> loop_did config env dir given [] l l'"
  by (simp add: loop_did_def)

lemma loop_did_skip:
  "loop_did config env dir ms did l1 l' \<Longrightarrow> committed (ml_db l1) = committed (ml_db l) \<Longrightarrow> ml_applied l1 = ml_applied l
    \<Longrightarrow> ml_failed l \<le> ml_failed l1 \<Longrightarrow> loop_did config env dir (m # ms) did l l'"
  by (auto simp: loop_did_def)

lemma migrate_loop_spec:
  "migrate_loop db config env ms l = (l', fin)
    \<Longrightarrow> \<exists>did. loop_did config env Up ms did l l' \<and> (fin = Finished \<and> ml_failed l' = ml_failed l \<longrightarrow> did = ms)
      \<and> (\<not> mc_continue_on_error config \<longrightarrow> prefix did ms)"
proof (induction ms arbitrary: l)
  case Nil
  then show ?case by (auto simp: loop_did_def)
next
  case (Cons m ms)
  let ?now = "snd (me_clock env (mg_version m))" and ?m = "m\<lparr>mg_status := MigrationStatusRunning\<rparr>"
  have failing: "\<exists>did. loop_did config env Up (m # ms) did l l'
      \<and> (fin = Finished \<and> ml_failed l' = ml_failed l \<longrightarrow> did = m # ms) \<and> (\<not> mc_continue_on_error config \<longrightarrow> prefix did (m # ms))"
    if l1: "committed (ml_db l1) = committed (ml_db l)" "ml_applied l1 = ml_applied l" "ml_failed l1 = ml_failed l + 1"
      and goes_on: "(if mc_stop_on_error config then (l1, Finished)
        else if \<not> mc_continue_on_error config then (l1, ReturnsError x) else migrate_loop db config env ms l1) = (l', fin)"
    for l1 x
  proof (cases "mc_stop_on_error config \<or> \<not> mc_continue_on_error config")
    case True
    with goes_on have "l' = l1" by (auto split: if_splits)
    with loop_did_nothing [of l' l] l1 show ?thesis by (intro exI [of _ "[]"]) simp
  next
    case False
    with goes_on have "migrate_loop db config env ms l1 = (l', fin)" by simp
    from Cons.IH [OF this] obtain did where did: "loop_did config env Up ms did l1 l'" by blast
    then have "ml_failed l < ml_failed l'" using l1(3) by (simp add: loop_did_def)
    moreover have "loop_did config env Up (m # ms) did l l'" using loop_did_skip [OF did l1(1,2)] l1(3) by simp
    ultimately show ?thesis using False by auto
  qed
  show ?case
  proof (cases "me_cancelled env (mg_version m)")
    case True
    with Cons.prems show ?thesis by (auto intro!: exI [of _ "[]"] loop_did_nothing)
  next
    case running: False
    show ?thesis
    proof (cases "check_valid config m")
      case (Some e)
      note Cons.prems [unfolded migrate_loop.simps Let_def]
      with running Some have "(if mc_stop_on_error config then (l\<lparr>ml_failed := Suc (ml_failed l)\<rparr>, Finished)
        else if \<not> mc_continue_on_error config
          then (l\<lparr>ml_failed := Suc (ml_failed l)\<rparr>, ReturnsError (ErrMigrationFailed (mg_version m) e))
        else migrate_loop db config env ms (l\<lparr>ml_failed := Suc (ml_failed l)\<rparr>)) = (l', fin)" by simp
      then show ?thesis by (rule failing [rotated 3]) simp_all
    next
      case None
      obtain d e where x: "execute_migration db config ?now ?m Up (ml_db l) = (d, e)" by fastforce
      note atomic = execute_atomic [OF x]
      show ?thesis
      proof (cases e)
        case (Some e')
        define l1 where "l1 = l\<lparr>ml_db := d, ml_failed := Suc (ml_failed l),
          ml_metrics := record_metric (migration_failed (migration_time env m) e' m) (ml_metrics l)\<rparr>"
        have "migrate_loop db config env (m # ms) l = (if mc_stop_on_error config then (l1, Finished)
          else if \<not> mc_continue_on_error config then (l1, ReturnsError (ErrMigrationFailed (mg_version m) e'))
          else migrate_loop db config env ms l1)" using running None x Some by (simp add: l1_def Let_def)
        from trans [OF this [symmetric] Cons.prems] show ?thesis
          by (rule failing [rotated 3]) (use atomic Some in \<open>simp_all add: l1_def\<close>)
      next
        case no_error: None
        define l1 where "l1 = l\<lparr>ml_db := d, ml_metrics := record_metric (m\<lparr>mg_status := MigrationStatusApplied,
            mg_duration := migration_time env m, mg_applied_at := Some ?now\<rparr>) (ml_metrics l),
          ml_applied := ml_applied l @ [m\<lparr>mg_status := MigrationStatusApplied,
            mg_duration := migration_time env m, mg_applied_at := Some ?now\<rparr>]\<rparr>"
        from Cons.prems running None x no_error have "migrate_loop db config env ms l1 = (l', fin)"
          by (simp add: l1_def Let_def)
        from Cons.IH [OF this] obtain did where did: "loop_did config env Up ms did l1 l'"
            "fin = Finished \<and> ml_failed l' = ml_failed l1 \<longrightarrow> did = ms" "\<not> mc_continue_on_error config \<longrightarrow> prefix did ms"
          by blast
        from did(1) atomic no_error have "loop_did config env Up (m # ms) (m # did) l l'"
          by (auto simp: loop_did_def l1_def migrated_by_def stage_insert_def stage_script_def record_at_def split: if_splits)
        with did(2,3) show ?thesis by (intro exI [of _ "m # did"]) (auto simp: l1_def)
      qed
    qed
  qed
qed

lemma migrate_loop_uncancelled:
  "migrate_loop db config env ms l = (l', fin) \<Longrightarrow> \<forall>v. \<not> me_cancelled env v \<Longrightarrow> fin \<noteq> ReturnsCancelled"
  by (induction ms arbitrary: l) (auto simp: Let_def split: option.splits prod.splits if_splits)

lemma rollback_loop_spec:
  "rollback_loop db config env reg rs l = (l', fin)
    \<Longrightarrow> \<exists>did. loop_did config env Down
        (filter (\<lambda>m. mg_down_sql m \<noteq> []) (List.map_filter (\<lambda>r. get_migration (rc_version r) reg) rs)) did l l'
      \<and> (fin = Finished \<and> ml_failed l' = ml_failed l
        \<longrightarrow> did = filter (\<lambda>m. mg_down_sql m \<noteq> []) (List.map_filter (\<lambda>r. get_migration (rc_version r) reg) rs))"
proof (induction rs arbitrary: l)
  case Nil
  then show ?case by (auto simp: loop_did_def List.map_filter_def)
next
  case (Cons r rs)
  show ?case
  proof (cases "me_cancelled env (rc_version r)")
    case True
    with Cons.prems show ?thesis by (auto intro!: exI [of _ "[]"] loop_did_nothing)
  next
    case running: False
    show ?thesis
    proof (cases "\<exists>m. get_migration (rc_version r) reg = Some m \<and> mg_down_sql m \<noteq> []")
      case False
      with Cons.prems running have "rollback_loop db config env reg rs l = (l', fin)" by (auto split: option.splits if_splits)
      from Cons.IH [OF this] False show ?thesis
        by (cases "get_migration (rc_version r) reg") (auto simp: List.map_filter_simps)
    next
      case True
      then obtain m where m: "get_migration (rc_version r) reg = Some m" "mg_down_sql m \<noteq> []" by blast
      let ?now = "snd (me_clock env (mg_version m))" and ?m = "m\<lparr>mg_status := MigrationStatusRunning\<rparr>"
      let ?rest = "filter (\<lambda>m. mg_down_sql m \<noteq> []) (List.map_filter (\<lambda>r. get_migration (rc_version r) reg) rs)"
      have given: "filter (\<lambda>m. mg_down_sql m \<noteq> []) (List.map_filter (\<lambda>r. get_migration (rc_version r) reg) (r # rs)) = m # ?rest"
        using m by (simp add: List.map_filter_simps)
      obtain d e where x: "execute_migration db config ?now ?m Down (ml_db l) = (d, e)" by fastforce
      note atomic = execute_atomic [OF x]
      show ?thesis
      proof (cases e)
        case (Some e')
        define l1 where "l1 = l\<lparr>ml_db := d, ml_failed := Suc (ml_failed l),
          ml_metrics := record_metric (migration_failed (migration_time env m) e' m) (ml_metrics l)\<rparr>"
        have l1: "committed (ml_db l1) = committed (ml_db l)" "ml_applied l1 = ml_applied l" "ml_failed l1 = Suc (ml_failed l)"
          using atomic Some by (simp_all add: l1_def)
        have "rollback_loop db config env reg (r # rs) l
          = (if mc_stop_on_error config then (l1, Finished) else rollback_loop db config env reg rs l1)"
          using running m x Some by (simp add: l1_def Let_def)
        from trans [OF this [symmetric] Cons.prems]
        consider "l' = l1" | "rollback_loop db config env reg rs l1 = (l', fin)" by (auto split: if_splits)
        then show ?thesis
        proof cases
          case 1
          with loop_did_nothing [of l' l] l1 show ?thesis by (intro exI [of _ "[]"]) simp
        next
          case 2
          from Cons.IH [OF this] obtain did where did: "loop_did config env Down ?rest did l1 l'" by blast
          then have "ml_failed l < ml_failed l'" using l1(3) by (simp add: loop_did_def)
          moreover have "loop_did config env Down (m # ?rest) did l l'" using loop_did_skip [OF did l1(1,2)] l1(3) by simp
          ultimately show ?thesis unfolding given by auto
        qed
      next
        case None
        define done_m where "done_m = m\<lparr>mg_status := MigrationStatusRolledBack, mg_duration := migration_time env m,
            mg_rolled_back_at := Some ?now\<rparr>"
        define l1 where "l1 = l\<lparr>ml_db := d, ml_metrics := record_metric done_m (ml_metrics l),
          ml_applied := ml_applied l @ [done_m]\<rparr>"
        from Cons.prems running m x None have "rollback_loop db config env reg rs l1 = (l', fin)"
          by (simp add: l1_def done_m_def Let_def)
        from Cons.IH [OF this] obtain did where did: "loop_did config env Down ?rest did l1 l'"
            "fin = Finished \<and> ml_failed l' = ml_failed l1 \<longrightarrow> did = ?rest" by blast
        from did(1) atomic None have "loop_did config env Down (m # ?rest) (m # did) l l'"
          by (auto simp: loop_did_def l1_def done_m_def)
        with did(2) show ?thesis unfolding given by (intro exI [of _ "m # did"]) (auto simp: l1_def)
      qed
    qed
  qed
qed

text \<open>A version that has a row, even one rolled back, cannot be applied again.\<close>

lemma migrate_loop_none:
  assumes "migrate_loop db config env ms l = (l', fin)" "\<not> mc_dry_run config"
    and "\<forall>m\<in>set ms. snd (committed (ml_db l)) (mg_version m) \<noteq> None"
  shows "length (ml_applied l') = length (ml_applied l) \<and> committed (ml_db l') = committed (ml_db l)"
proof -
  from migrate_loop_spec [OF assms(1)] obtain did where did: "loop_did config env Up ms did l l'" by blast
  then have "set did \<subseteq> set ms" by (auto simp: loop_did_def dest: list_emb_set)
  with did assms(2,3) have "did = []" by (cases did) (auto simp: loop_did_def)
  with did show ?thesis by (auto simp: loop_did_def dest: map_eq_imp_length_eq)
qed

lemma migrate_spec:
  assumes "migrate db env s = (s', Some res, err)"
  shows "\<exists>did. subseq did (get_pending (applied_versions (mm_history s)) (mm_registry s))
    \<and> map mg_version (mr_migrations res) = map mg_version did
    \<and> committed (mm_db s') = (if mc_dry_run (mm_config s) then committed (mm_db s) else apply_all env Up did (committed (mm_db s)))
    \<and> (mr_status res = ResultSuccess \<longrightarrow> did = get_pending (applied_versions (mm_history s)) (mm_registry s))
    \<and> mm_history s' = mm_history s \<and> mm_registry s' = mm_registry s \<and> mm_config s' = mm_config s \<and> mm_running s' = mm_running s"
proof -
  let ?pending = "get_pending (applied_versions (mm_history s)) (mm_registry s)"
  obtain l fin where l: "migrate_loop db (mm_config s) env ?pending (start_loop s) = (l, fin)" by fastforce
  from migrate_loop_spec [OF l] obtain did where did: "loop_did (mm_config s) env Up ?pending did (start_loop s) l"
      "fin = Finished \<and> ml_failed l = 0 \<longrightarrow> did = ?pending" by (auto simp: start_loop_def)
  show ?thesis
  proof (cases "?pending = [] \<or> \<not> me_hooks env")
    case True
    with assms show ?thesis
      by (intro exI [of _ "[]"]) (auto simp: migrate_def early_result_def Let_def split: if_splits)
  next
    case False
    with assms l have "(s', Some res, err) = finish_run s (l, fin)" by (auto simp: migrate_def split: if_splits)
    with did show ?thesis
      by (intro exI [of _ did])
        (auto simp: finish_run_def result_of_def early_result_def loop_did_def start_loop_def Let_def split: loop_end.splits if_splits)
  qed
qed

lemma migrate_again:
  assumes "migrate db env s = (s1, Some r1, None)" "mr_status r1 = ResultSuccess" "\<not> mc_dry_run (mm_config s)"
    and "get_pending (applied_versions (mm_history s)) (mm_registry s) \<noteq> []"
    and "me_hooks env'" "\<forall>v. \<not> me_cancelled env' v" "migrate db env' s1 = (s2, Some r2, err)"
  shows "mr_applied r2 = 0 \<and> mr_status r2 = ResultFailed \<and> committed (mm_db s2) = committed (mm_db s1)"
proof -
  let ?pending = "get_pending (applied_versions (mm_history s)) (mm_registry s)"
  from migrate_spec [OF assms(1)] assms(2,3)
  have c1: "committed (mm_db s1) = apply_all env Up ?pending (committed (mm_db s))"
    and same: "mm_history s1 = mm_history s" "mm_registry s1 = mm_registry s" "mm_config s1 = mm_config s" by auto
  have keeps: "snd (apply_all env Up ms st) v \<noteq> None" if "snd st v \<noteq> None" for ms st v
    using that by (induction ms arbitrary: st) (auto simp: migrated_by_def stage_insert_def stage_script_def)
  have "snd (apply_all env Up ms st) (mg_version m) \<noteq> None" if "m \<in> set ms" for ms st m
    using that
  proof (induction ms arbitrary: st)
    case (Cons a ms)
    have "snd (migrated_by now a Up st) (mg_version a) \<noteq> None" for now
      by (simp add: migrated_by_def stage_insert_def record_at_def)
    with Cons keeps show ?case by (cases "m = a") auto
  qed simp
  with c1 have rows: "\<forall>m\<in>set ?pending. snd (committed (ml_db (start_loop s1))) (mg_version m) \<noteq> None"
    by (simp add: start_loop_def)
  obtain l fin where l: "migrate_loop db (mm_config s1) env' ?pending (start_loop s1) = (l, fin)" by fastforce
  from migrate_loop_none [OF l _ rows] assms(3) same
  have none: "ml_applied l = []" "committed (ml_db l) = committed (mm_db s1)" by (auto simp: start_loop_def)
  from migrate_loop_spec [OF l] none(1) assms(4) have failed: "fin = Finished \<Longrightarrow> ml_failed l \<noteq> 0"
    by (auto simp: loop_did_def start_loop_def)
  have "fin \<noteq> ReturnsCancelled" using l assms(6)
    by (auto dest: migrate_loop_uncancelled)
  with assms(4,5,7) l same none failed show ?thesis
    by (auto simp: migrate_def finish_run_def result_of_def early_result_def Let_def split: loop_end.splits if_splits)
qed

end

section \<open>A database with transactions\<close>

text \<open>
  Scripts and rows, those committed and those of the open transaction, with the driver's verdict on each
  call in advance (\<open>True\<close> for an error; no entry means success).
\<close>

type_synonym table_state = "string list \<times> migration_record list"

record tx_db =
  xd_committed :: table_state
  xd_open :: table_state
  xd_faults :: "bool list"

definition keyed_rows :: "migration_record list \<Rightarrow> string \<rightharpoonup> migration_record" where
  "keyed_rows rows = map_of (map (\<lambda>r. (rc_version r, r)) rows)"

definition migrated_of :: "table_state \<Rightarrow> migrated" where
  "migrated_of st = (fst st, keyed_rows (snd st))"

definition history_rows :: "migration_record list \<Rightarrow> migration_record list" where
  "history_rows rows = map (\<lambda>v. the (keyed_rows rows v)) (remdups (map rc_version rows))"

definition tx_call :: "(tx_db \<Rightarrow> tx_db option) \<Rightarrow> tx_db \<Rightarrow> tx_db \<times> bool" where
  "tx_call f d =
     (if xd_faults d \<noteq> [] \<and> hd (xd_faults d) then (d\<lparr>xd_faults := tl (xd_faults d)\<rparr>, False)
      else let d = d\<lparr>xd_faults := tl (xd_faults d)\<rparr> in case f d of None \<Rightarrow> (d, False) | Some d' \<Rightarrow> (d', True))"

definition tx_ops :: "tx_db migration_db" where
  "tx_ops =
     \<lparr>mb_create_table = tx_call Some,
      mb_begin = tx_call (\<lambda>d. Some (d\<lparr>xd_open := xd_committed d\<rparr>)),
      mb_script = (\<lambda>sql. tx_call (\<lambda>d. Some (d\<lparr>xd_open := (fst (xd_open d) @ [sql], snd (xd_open d))\<rparr>))),
      mb_insert = (\<lambda>r. tx_call (\<lambda>d. if keyed_rows (snd (xd_open d)) (rc_version r) \<noteq> None then None
        else Some (d\<lparr>xd_open := (fst (xd_open d), r # snd (xd_open d))\<rparr>))),
      mb_mark = (\<lambda>now v. tx_call (\<lambda>d. Some (d\<lparr>xd_open := (fst (xd_open d),
        map (\<lambda>r. if rc_version r = v then r\<lparr>rc_rolled_back_at := Some now\<rparr> else r) (snd (xd_open d)))\<rparr>))),
      mb_commit = tx_call (\<lambda>d. Some (d\<lparr>xd_committed := xd_open d\<rparr>)),
      mb_rollback = (\<lambda>d. d\<lparr>xd_open := xd_committed d\<rparr>),
      mb_history = (\<lambda>d. case tx_call Some d of (d, ok) \<Rightarrow> (d, if ok
        then Some (history_rows (snd (xd_committed d))) else None)),
      mb_clear = tx_call (\<lambda>d. Some (d\<lparr>xd_committed := (fst (xd_committed d), [])\<rparr>))\<rparr>"

abbreviation tx_committed :: "tx_db \<Rightarrow> migrated" where "tx_committed d \<equiv> migrated_of (xd_committed d)"
abbreviation tx_staged :: "tx_db \<Rightarrow> migrated" where "tx_staged d \<equiv> migrated_of (xd_open d)"

lemma tx_call_cases:
  assumes "tx_call f d = (d', ok)"
  shows "if ok then f (d\<lparr>xd_faults := tl (xd_faults d)\<rparr>) = Some d' else d' = d\<lparr>xd_faults := tl (xd_faults d)\<rparr>"
  using assms by (auto simp: tx_call_def Let_def split: if_splits option.splits)

lemma keyed_rows_simps [simp]:
  "keyed_rows [] = Map.empty" "keyed_rows (r # rows) = (keyed_rows rows)(rc_version r \<mapsto> r)"
  by (simp_all add: keyed_rows_def)

lemma keyed_rows_mark:
  "keyed_rows (map (\<lambda>r. if rc_version r = v then r\<lparr>rc_rolled_back_at := Some now\<rparr> else r) rows)
    = (keyed_rows rows)(v := map_option (\<lambda>r. r\<lparr>rc_rolled_back_at := Some now\<rparr>) (keyed_rows rows v))"
  by (induction rows) (auto simp: fun_eq_iff)

lemma keyed_rows_version: "keyed_rows rows v = Some r \<Longrightarrow> rc_version r = v \<and> v \<in> rc_version ` set rows"
  by (induction rows) (auto split: if_splits)

lemma keyed_rows_none: "keyed_rows rows v = None \<longleftrightarrow> v \<notin> rc_version ` set rows"
  by (induction rows) auto

lemma keyed_history:
  fixes rows defines "hist \<equiv> history_rows rows"
  shows "distinct (map rc_version hist) \<and> keyed_rows hist = keyed_rows rows"
proof -
  have version: "rc_version (the (keyed_rows rows v)) = v" if "v \<in> rc_version ` set rows" for v
    using that keyed_rows_none [of rows v] keyed_rows_version by (cases "keyed_rows rows v") auto
  have "map rc_version hist = remdups (map rc_version rows)"
    unfolding hist_def history_rows_def by (auto simp: version intro!: map_idI)
  moreover have "keyed_rows hist v = keyed_rows rows v" for v
  proof (cases "v \<in> rc_version ` set rows")
    case True
    have "keyed_rows (map (\<lambda>v. the (keyed_rows rows v)) vs) v = (if v \<in> set vs then keyed_rows rows v else None)"
      if "set vs \<subseteq> rc_version ` set rows" for vs
      using that by (induction vs) (auto simp: version keyed_rows_none dest: keyed_rows_version split: option.splits)
    from this [of "remdups (map rc_version rows)"] True show ?thesis by (simp add: hist_def history_rows_def)
  next
    case False
    have "v \<notin> rc_version ` set hist" using False version by (auto simp: hist_def history_rows_def)
    with False show ?thesis by (metis keyed_rows_none)
  qed
  ultimately show ?thesis by (simp add: fun_eq_iff)
qed

interpretation tx: migration_database tx_ops tx_committed tx_staged
proof unfold_locales
  fix d d' :: tx_db and sql v r now ok a
  show "mb_history tx_ops d = (d', a) \<Longrightarrow> tx_committed d' = tx_committed d \<and> (case a of None \<Rightarrow> True
      | Some rows \<Rightarrow> distinct (map rc_version rows)
          \<and> (\<forall>v. snd (tx_committed d) v = map_of (map (\<lambda>r. (rc_version r, r)) rows) v))"
    using keyed_history [of "snd (xd_committed d)"] unfolding keyed_rows_def [symmetric]
    by (auto simp: tx_ops_def migrated_of_def dest!: tx_call_cases split: prod.splits if_splits)
qed (auto simp: tx_ops_def migrated_of_def stage_script_def stage_insert_def stage_mark_def keyed_rows_mark
    dest!: tx_call_cases split: if_splits)

section \<open>The registry is sorted\<close>

lemma load_registry_sorted:
  assumes "load_registry sha now files = (r, None)"
  shows "sorted (rg_sorted r)" "distinct (rg_sorted r)" "rg_migrations r v = Some m \<Longrightarrow> mg_version m = v"
proof -
  from assms obtain fs where fs: "files = Some fs" by (auto simp: load_registry_def split: option.splits)
  let ?ms = "List.map_filter (load_entry sha now) fs"
  have r: "r = \<lparr>rg_migrations = foldl (\<lambda>r m. r(mg_version m \<mapsto> m)) Map.empty ?ms, rg_sorted = sort (remdups (map mg_version ?ms))\<rparr>"
    using assms fs by (simp add: load_registry_def Let_def)
  then show "sorted (rg_sorted r)" "distinct (rg_sorted r)" by simp_all
  have "foldl (\<lambda>r m. r(mg_version m \<mapsto> m)) h ms v = Some m \<Longrightarrow> (\<And>w x. h w = Some x \<Longrightarrow> mg_version x = w) \<Longrightarrow> mg_version m = v"
    for h ms
  proof (induction ms arbitrary: h)
    case (Cons a ms)
    from Cons.prems(1) have "foldl (\<lambda>r m. r(mg_version m \<mapsto> m)) (h(mg_version a \<mapsto> a)) ms v = Some m"
      by (simp del: fun_upd_apply)
    then show ?case by (rule Cons.IH) (use Cons.prems(2) in \<open>auto split: if_splits\<close>)
  qed auto
  from this [of Map.empty ?ms] show "rg_migrations r v = Some m \<Longrightarrow> mg_version m = v" using r by auto
qed

lemma pending_versions:
  assumes "load_registry sha now files = (r, None)"
  shows "subseq (map mg_version (get_pending applied r)) (rg_sorted r)"
proof -
  have "subseq (map mg_version (List.map_filter (rg_migrations r) vs)) vs" for vs
    by (induction vs) (auto simp: List.map_filter_simps load_registry_sorted(3) [OF assms] split: option.splits)
  moreover have "subseq (filter (\<lambda>v. \<not> applied v) (rg_sorted r)) (rg_sorted r)" by simp
  ultimately show ?thesis unfolding get_pending_def by (rule subseq_order.trans)
qed

lemma subseq_strictly_sorted: "subseq xs ys \<Longrightarrow> sorted ys \<Longrightarrow> distinct ys \<Longrightarrow> sorted (xs :: string list) \<and> distinct xs"
  by (induction rule: list_emb.induct) (auto dest: list_emb_set)

section \<open>Balanced parentheses\<close>

inductive balanced :: "string \<Rightarrow> bool" where
  empty: "balanced []"
| other: "c \<noteq> CHR ''('' \<Longrightarrow> c \<noteq> CHR '')'' \<Longrightarrow> balanced s \<Longrightarrow> balanced (c # s)"
| nest: "balanced s \<Longrightarrow> balanced t \<Longrightarrow> balanced (CHR ''('' # s @ CHR '')'' # t)"

lemma balanced_append: "balanced s \<Longrightarrow> balanced t \<Longrightarrow> balanced (s @ t)"
proof (induction rule: balanced.induct)
  case (nest s u)
  then show ?case using balanced.nest [of s "u @ t"] by simp
qed (auto intro: balanced.intros)

lemma paren_loop_append_balanced: "balanced s \<Longrightarrow> 0 \<le> n \<Longrightarrow> paren_loop (s @ t) n = paren_loop t n"
  by (induction arbitrary: n t rule: balanced.induct) auto

lemma paren_loop_balanced_from:
  "paren_loop s (int n) \<Longrightarrow> \<exists>us t. length us = n \<and> (\<forall>u\<in>set us. balanced u) \<and> balanced t
     \<and> s = concat (map (\<lambda>u. u @ [CHR '')'']) us) @ t"
proof (induction s arbitrary: n)
  case Nil
  then show ?case by (auto intro: balanced.empty)
next
  case (Cons c s)
  consider "c = CHR ''(''" | "c = CHR '')''" | "c \<noteq> CHR ''(''" "c \<noteq> CHR '')''" by blast
  then show ?case
  proof cases
    case 1
    with Cons.prems have "paren_loop s (int (Suc n))" by (simp add: add.commute)
    from Cons.IH [OF this] obtain us t where us: "length us = Suc n" "\<forall>u\<in>set us. balanced u" "balanced t"
        "s = concat (map (\<lambda>u. u @ [CHR '')'']) us) @ t" by blast
    then obtain u us' where us': "us = u # us'" by (cases us) auto
    show ?thesis
    proof (cases us')
      case Nil
      with us us' have "c # s = CHR ''('' # u @ CHR '')'' # t" "n = 0" using 1 by auto
      moreover have "balanced (CHR ''('' # u @ CHR '')'' # t)" using us us' by (intro balanced.nest) auto
      ultimately show ?thesis by (intro exI [of _ "[]"] exI [of _ "c # s"]) auto
    next
      case (Cons v vs)
      have "balanced (CHR ''('' # u @ CHR '')'' # v)" using us us' Cons by (intro balanced.nest) auto
      with us us' Cons 1 show ?thesis
        by (intro exI [of _ "(CHR ''('' # u @ CHR '')'' # v) # vs"] exI [of _ t]) auto
    qed
  next
    case 2
    with Cons.prems have "n \<noteq> 0" "paren_loop s (int (n - 1))" by (auto simp: of_nat_diff)
    from Cons.IH [OF this(2)] obtain us t where us: "length us = n - 1" "\<forall>u\<in>set us. balanced u" "balanced t"
        "s = concat (map (\<lambda>u. u @ [CHR '')'']) us) @ t" by blast
    with 2 \<open>n \<noteq> 0\<close> show ?thesis
      by (intro exI [of _ "[] # us"] exI [of _ t]) (auto intro: balanced.empty)
  next
    case 3
    with Cons.prems have "paren_loop s (int n)" by simp
    from Cons.IH [OF this] obtain us t where us: "length us = n" "\<forall>u\<in>set us. balanced u" "balanced t"
        "s = concat (map (\<lambda>u. u @ [CHR '')'']) us) @ t" by blast
    show ?thesis
    proof (cases us)
      case Nil
      with us 3 show ?thesis by (intro exI [of _ "[]"] exI [of _ "c # t"]) (auto intro: balanced.other)
    next
      case (Cons u vs)
      with us 3 show ?thesis
        by (intro exI [of _ "(c # u) # vs"] exI [of _ t]) (auto intro: balanced.other)
    qed
  qed
qed

lemma paren_loop_balanced: "paren_loop s 0 \<longleftrightarrow> balanced s"
  using paren_loop_balanced_from [of s 0] paren_loop_append_balanced [of s 0 "[]"] by auto

section \<open>Sections of a file\<close>

definition is_annotation :: "string \<Rightarrow> bool" where
  "is_annotation line \<longleftrightarrow> has_prefix ''-- +migrate Up'' (trim line) \<or> has_prefix ''-- +migrate Down'' (trim line)"

lemma sql_loop_plain:
  "\<forall>line\<in>set ls. \<not> is_annotation line \<Longrightarrow> sql_loop (ls @ rest) in_up in_down up down
    = sql_loop rest in_up in_down (if in_up then up @ concat (map (\<lambda>l. l @ newline) ls) else up)
        (if \<not> in_up \<and> in_down then down @ concat (map (\<lambda>l. l @ newline) ls) else down)"
  by (induction ls arbitrary: up down) (auto simp: is_annotation_def Let_def newline_def)

lemma trim_by_end: "p c \<Longrightarrow> trim_by p (s @ [c]) = trim_by p s"
proof (cases "\<forall>x\<in>set s. p x")
  case True
  then have "dropWhile p s = []" by simp
  then show "p c \<Longrightarrow> ?thesis" by (simp add: trim_by_def dropWhile_append del: dropWhile_eq_Nil_conv)
qed (auto simp: trim_by_def dropWhile_append)

lemma concat_lines: "ls \<noteq> [] \<Longrightarrow> concat (map (\<lambda>l. l @ newline) ls) = join_with newline ls @ newline"
  by (induction newline ls rule: join_with.induct) auto

lemma trim_lines: "trim (concat (map (\<lambda>l. l @ newline) ls)) = trim (join_with newline ls)"
proof (cases "ls = []")
  case False
  have "trim (join_with newline ls @ newline) = trim (join_with newline ls)"
    unfolding trim_def newline_def by (rule trim_by_end) (simp add: is_space_def)
  then show ?thesis unfolding concat_lines [OF False] .
qed simp

section \<open>Properties\<close>

text \<open>C35: what \<^verbatim>\<open>Migrate\<close> does to the database, over every database that keeps to the contract and whatever
  calls fail. The migrations it reports as applied are a subsequence of the pending ones, in strictly
  increasing order of their version strings; the database has changed by exactly their scripts and history
  records, in that order (by nothing in a dry run); and when it reports success they are all pending ones.\<close>

theorem migrate_applies_pending:
  assumes "migration_database db committed staged" "load_registry sha now files = (mm_registry s, None)"
    and "migrate db env s = (s', Some res, err)"
  shows "\<exists>did. subseq did (get_pending (applied_versions (mm_history s)) (mm_registry s))
    \<and> map mg_version (mr_migrations res) = map mg_version did
    \<and> sorted (map mg_version did) \<and> distinct (map mg_version did)
    \<and> committed (mm_db s') = (if mc_dry_run (mm_config s) then committed (mm_db s) else apply_all env Up did (committed (mm_db s)))
    \<and> (mr_status res = ResultSuccess \<longrightarrow> did = get_pending (applied_versions (mm_history s)) (mm_registry s))"
proof -
  from migration_database.migrate_spec [OF assms(1,3)] obtain did where did:
    "subseq did (get_pending (applied_versions (mm_history s)) (mm_registry s))"
    "map mg_version (mr_migrations res) = map mg_version did"
    "committed (mm_db s') = (if mc_dry_run (mm_config s) then committed (mm_db s) else apply_all env Up did (committed (mm_db s)))"
    "mr_status res = ResultSuccess \<longrightarrow> did = get_pending (applied_versions (mm_history s)) (mm_registry s)" by blast
  from subseq_map [OF did(1)] have "subseq (map mg_version did) (rg_sorted (mm_registry s))"
    by (rule subseq_order.trans) (rule pending_versions [OF assms(2)])
  from subseq_strictly_sorted [OF this] load_registry_sorted(1,2) [OF assms(2)] did show ?thesis by blast
qed

text \<open>The manager does not learn from its own runs. After a \<^verbatim>\<open>Migrate\<close> that reports success, with something to
  apply, a second one on the same manager applies nothing, leaves the database as it is and reports failure,
  since the history is not reloaded and every version already has a row.\<close>

theorem migrate_again_fails:
  assumes "migration_database db committed staged" "\<not> mc_dry_run (mm_config s)"
    and "get_pending (applied_versions (mm_history s)) (mm_registry s) \<noteq> []"
    and "migrate db env s = (s1, Some r1, None)" "mr_status r1 = ResultSuccess"
    and "me_hooks env'" "\<forall>v. \<not> me_cancelled env' v" "migrate db env' s1 = (s2, Some r2, err)"
  shows "mr_applied r2 = 0 \<and> mr_status r2 = ResultFailed \<and> committed (mm_db s2) = committed (mm_db s1)"
  by (rule migration_database.migrate_again [OF assms(1,4,5,2,3,6,7,8)])

text \<open>The syntax check accepts a script exactly when it is not blank and its parentheses are balanced, in the
  sense of the grammar \<open>balanced\<close>.\<close>

theorem validate_sql_syntax_balanced: "validate_sql_syntax sql \<longleftrightarrow> trim sql \<noteq> [] \<and> balanced (trim sql)"
  by (simp add: validate_sql_syntax_def Let_def paren_loop_balanced)

text \<open>A file made of an up section and a down section is read back as these sections, without the white space
  around them, whatever precedes the first annotation.\<close>

theorem parse_sections:
  assumes "\<forall>line\<in>set (head @ ups @ downs). \<not> is_annotation line \<and> CHR 0x0A \<notin> set line"
  shows "parse_sql_content (join_with newline (head @ ''-- +migrate Up'' # ups @ ''-- +migrate Down'' # downs))
    = (trim (join_with newline ups), trim (join_with newline downs))"
proof -
  have split: "split_at (CHR 0x0A) (join_with newline ls) = ls" if "ls \<noteq> []" "\<forall>l\<in>set ls. CHR 0x0A \<notin> set l" for ls
    using split_join [OF that] by (simp add: newline_def)
  have marks: "trim ''-- +migrate Up'' = ''-- +migrate Up''" "trim ''-- +migrate Down'' = ''-- +migrate Down''"
    by (simp_all add: trim_def trim_by_def is_space_def)
  show ?thesis
    using assms sql_loop_plain [of head] sql_loop_plain [of ups] sql_loop_plain [of downs "[]"]
    by (simp add: parse_sql_content_def split marks trim_lines Let_def has_prefix_def)
qed

section \<open>Witnesses\<close>

definition sample_files :: "dir_entry list" where
  "sample_files = [\<lparr>de_name = ''V2_b.sql'', de_is_dir = False, de_content = Some (join_with newline [''-- +migrate Up'', ''B''])\<rparr>,
     \<lparr>de_name = ''V10_a.sql'', de_is_dir = False, de_content = Some (join_with newline [''-- +migrate Up'', ''A''])\<rparr>]"

definition sample_env :: migration_env where
  "sample_env = \<lparr>me_clock = (\<lambda>_. (0, 1)), me_cancelled = (\<lambda>_. False), me_hooks = True\<rparr>"

definition sample_migration :: "string \<Rightarrow> string \<Rightarrow> string \<Rightarrow> migration" where
  "sample_migration v n up = \<lparr>mg_version = v, mg_name = n, mg_up_sql = up, mg_down_sql = [], mg_checksum = ''sum'',
     mg_status = MigrationStatusPending, mg_applied_at = None, mg_rolled_back_at = None, mg_duration = 0, mg_error = None,
     mg_dependencies = [], mg_tags = [], mg_author = [], mg_created_at = 0\<rparr>"

definition sample_registry :: migration_registry where
  "sample_registry = \<lparr>rg_migrations = [''2'' \<mapsto> sample_migration ''2'' ''b'' ''B'', ''10'' \<mapsto> sample_migration ''10'' ''a'' ''A''],
     rg_sorted = [''10'', ''2'']\<rparr>"

definition sample_migrator :: "tx_db migration_manager" where
  "sample_migrator = (new_migration_manager \<lparr>mc_enable_rollback = True, mc_dry_run = False, mc_validate_before_apply = False,
     mc_stop_on_error = False, mc_continue_on_error = True\<rparr> \<lparr>xd_committed = ([], []), xd_open = ([], []), xd_faults = []\<rparr>)
       \<lparr>mm_registry := sample_registry\<rparr>"

lemmas go_string_evals = has_prefix_def has_suffix_def trim_suffix_def trim_prefix_def trim_def trim_by_def is_space_def

lemma sample_entries:
  "List.map_filter (load_entry (\<lambda>_. ''sum'') 0) sample_files = [sample_migration ''2'' ''b'' ''B'', sample_migration ''10'' ''a'' ''A'']"
  by (simp add: sample_files_def List.map_filter_simps load_entry_def parse_migration_file_def parse_sql_content_def
      parse_metadata_def annotation_def newline_def sample_migration_def numeral_3_eq_3 Let_def go_string_evals)

lemma sample_registry_loaded: "load_registry (\<lambda>_. ''sum'') 0 (Some sample_files) = (mm_registry sample_migrator, None)"
  by (simp add: load_registry_def sample_entries Let_def sample_migrator_def sample_registry_def sample_migration_def)

abbreviation sample_first where "sample_first \<equiv> migrate tx_ops sample_env sample_migrator"
abbreviation sample_second where "sample_second \<equiv> migrate tx_ops sample_env (fst sample_first)"

lemmas migrator_evals = migrate_def get_pending_def applied_versions_def sample_migrator_def new_migration_manager_def
  sample_registry_def sample_env_def start_loop_def check_valid_def execute_migration_def migration_sql_def tx_ops_def
  tx_call_def record_migration_def finish_run_def result_of_def sample_migration_def List.map_filter_simps Let_def

lemma sample_first_result:
  "map_option mr_status (fst (snd sample_first)) = Some ResultSuccess" "snd (snd sample_first) = None"
  by (simp_all add: migrator_evals)

lemma sample_second_result: "fst (snd sample_second) \<noteq> None"
  by (simp add: migrator_evals)

lemma sample_pending:
  "map mg_version (get_pending (applied_versions (mm_history sample_migrator)) (mm_registry sample_migrator)) = [''10'', ''2'']"
  by (simp add: migrator_evals)

lemma sample_first_run:
  "\<exists>s1 r1. sample_first = (s1, Some r1, None) \<and> mr_status r1 = ResultSuccess \<and> fst sample_first = s1"
  using sample_first_result by (cases sample_first) auto

theorem migrate_applies_pending_witness:
  "\<exists>s1 r1. sample_first = (s1, Some r1, None) \<and> map mg_version (mr_migrations r1) = [''10'', ''2'']
    \<and> tx_committed (mm_db s1) = apply_all sample_env Up
        (get_pending (applied_versions (mm_history sample_migrator)) (mm_registry sample_migrator)) ([], Map.empty)"
proof -
  obtain s1 r1 where run: "sample_first = (s1, Some r1, None)" "mr_status r1 = ResultSuccess"
    using sample_first_run by blast
  have config: "\<not> mc_dry_run (mm_config sample_migrator)" "tx_committed (mm_db sample_migrator) = ([], Map.empty)"
    by (simp_all add: sample_migrator_def new_migration_manager_def migrated_of_def)
  from migrate_applies_pending [OF tx.migration_database_axioms sample_registry_loaded run(1)] run config sample_pending
  show ?thesis by auto
qed

theorem migrate_again_fails_witness:
  "\<exists>s2 r2 err. sample_second = (s2, Some r2, err) \<and> mr_applied r2 = 0 \<and> mr_status r2 = ResultFailed"
proof -
  obtain s1 r1 where run: "sample_first = (s1, Some r1, None)" "mr_status r1 = ResultSuccess" "fst sample_first = s1"
    using sample_first_run by blast
  obtain s2 r2 err where second: "migrate tx_ops sample_env s1 = (s2, Some r2, err)"
    using sample_second_result run(3) by (cases "migrate tx_ops sample_env s1") auto
  have pre: "\<not> mc_dry_run (mm_config sample_migrator)" "me_hooks sample_env" "\<forall>v. \<not> me_cancelled sample_env v"
      "get_pending (applied_versions (mm_history sample_migrator)) (mm_registry sample_migrator) \<noteq> []"
    using sample_pending by (auto simp: sample_migrator_def new_migration_manager_def sample_env_def)
  from migrate_again_fails [OF tx.migration_database_axioms pre(1,4) run(1,2) pre(2,3) second] second run(3)
  show ?thesis by auto
qed

theorem parse_sections_witness:
  "parse_sql_content (join_with newline [''-- Author'', ''-- +migrate Up'', ''CREATE'', '''', ''-- +migrate Down'', ''DROP''])
    = (''CREATE'', ''DROP'')"
proof -
  have "\<forall>line\<in>set ([''-- Author''] @ [''CREATE'', ''''] @ [''DROP'']). \<not> is_annotation line \<and> CHR 0x0A \<notin> set line"
    by (simp add: is_annotation_def go_string_evals)
  from parse_sections [OF this] show ?thesis by (simp add: go_string_evals newline_def)
qed

end
