(* ===== verification/Policies.thy ===== *)
theory Policies
  imports Float64 GoStrings
begin

text \<open>
  Access policies, \<^verbatim>\<open>authz/policies.go\<close>: conditions over a request's context, statements with action and
  resource patterns, the in-memory store with its tag index and the engine that combines the statements
  that match. A Go \<^verbatim>\<open>interface{}\<close> is a \<open>value\<close>, one of the types the code tells apart. How \<^verbatim>\<open>%v\<close> prints a
  value and how \<^verbatim>\<open>time.Parse\<close> reads RFC 3339 are arguments (a \<open>go_lib\<close>). JSON conversion is left out.
\<close>

section \<open>Conditions\<close>

datatype effect = EffectAllow | EffectDeny | EffectOther string

definition effect_valid :: "effect \<Rightarrow> bool" where
  "effect_valid e \<longleftrightarrow> e = EffectAllow \<or> e = EffectDeny"

datatype condition_operator = OpEquals | OpNotEquals | OpContains | OpNotContains | OpStartsWith | OpEndsWith
  | OpGreaterThan | OpGreaterThanOrEqual | OpLessThan | OpLessThanOrEqual | OpIn | OpNotIn | OpExists | OpNotExists
  | OpMatches | OpIPAddress | OpIPAddressRange | OpBefore | OpAfter | OpUnknown string

datatype "value" = VNil | VString string | VInt int | VFloat rat | VTime time | VStrings "string list" | VList "value list"
  | VMap "(string \<times> value) list" | VOther nat

record go_lib =
  gl_sprint :: "value \<Rightarrow> string"
  gl_parse_time :: "string \<Rightarrow> time option"

datatype policy_error = ErrPolicyNotFound | ErrPolicyInvalid | ErrPolicyConflict | ErrInvalidEffect | ErrInvalidCondition
  | ErrConditionFailed policy_error | ErrStatementFailed policy_error | ErrGetPolicies policy_error

record condition =
  cd_key :: string
  cd_operator :: condition_operator
  cd_value :: "value"

fun get_nested_value :: "value \<Rightarrow> string list \<Rightarrow> value option" where
  "get_nested_value v [] = Some v"
| "get_nested_value v (part # parts) =
     (case v of
        VMap m \<Rightarrow> (case map_of m part of None \<Rightarrow> None | Some w \<Rightarrow> get_nested_value w parts)
      | _ \<Rightarrow> None)"

definition compare_equals :: "go_lib \<Rightarrow> value \<Rightarrow> value \<Rightarrow> bool" where
  "compare_equals lib a b \<longleftrightarrow> gl_sprint lib a = gl_sprint lib b"

definition contains_value :: "go_lib \<Rightarrow> value \<Rightarrow> value \<Rightarrow> bool" where
  "contains_value lib container v \<longleftrightarrow> contains (gl_sprint lib v) (gl_sprint lib container)"

definition starts_with :: "go_lib \<Rightarrow> value \<Rightarrow> value \<Rightarrow> bool" where
  "starts_with lib s p \<longleftrightarrow> has_prefix (gl_sprint lib p) (gl_sprint lib s)"

definition ends_with :: "go_lib \<Rightarrow> value \<Rightarrow> value \<Rightarrow> bool" where
  "ends_with lib s p \<longleftrightarrow> has_suffix (gl_sprint lib p) (gl_sprint lib s)"

definition value_in_list :: "go_lib \<Rightarrow> value \<Rightarrow> value \<Rightarrow> bool" where
  "value_in_list lib v xs \<longleftrightarrow> (case xs of
       VStrings ss \<Rightarrow> list_ex (\<lambda>s. compare_equals lib v (VString s)) ss
     | VList vs \<Rightarrow> list_ex (compare_equals lib v) vs
     | _ \<Rightarrow> False)"

definition to_float64 :: "value \<Rightarrow> rat option" where
  "to_float64 v = (case v of VInt n \<Rightarrow> Some (fl (of_int n)) | VFloat x \<Rightarrow> Some x | _ \<Rightarrow> None)"

definition compare_numbers :: "(rat \<Rightarrow> rat \<Rightarrow> bool) \<Rightarrow> value \<Rightarrow> value \<Rightarrow> bool" where
  "compare_numbers op a b = (case (to_float64 a, to_float64 b) of (Some x, Some y) \<Rightarrow> op x y | _ \<Rightarrow> False)"

text \<open>A value that is neither a time nor a string counts as the zero time; a string that is no time fails.\<close>

definition to_time :: "go_lib \<Rightarrow> value \<Rightarrow> time option" where
  "to_time lib v = (case v of VTime t \<Rightarrow> Some t | VString s \<Rightarrow> gl_parse_time lib s | _ \<Rightarrow> Some time_zero)"

definition compare_time :: "go_lib \<Rightarrow> (time \<Rightarrow> time \<Rightarrow> bool) \<Rightarrow> value \<Rightarrow> value \<Rightarrow> bool" where
  "compare_time lib op a b = (case (to_time lib a, to_time lib b) of (Some x, Some y) \<Rightarrow> op x y | _ \<Rightarrow> False)"

definition match_regex :: "go_lib \<Rightarrow> value \<Rightarrow> value \<Rightarrow> bool" where
  "match_regex lib v p =
     (let pattern = gl_sprint lib p
      in if pattern = ''*'' then True
         else contains (trim_by (\<lambda>c. c \<in> {CHR ''.'', CHR ''*''}) pattern) (gl_sprint lib v))"

definition evaluate_condition :: "go_lib \<Rightarrow> value \<Rightarrow> condition \<Rightarrow> policy_error + bool" where
  "evaluate_condition lib ctx c =
     (let found = get_nested_value ctx (split_at (CHR ''.'') (cd_key c));
          when_found = (\<lambda>test. case found of None \<Rightarrow> Inr False | Some v \<Rightarrow> Inr (test v (cd_value c)));
          unless_found = (\<lambda>test. case found of None \<Rightarrow> Inr True | Some v \<Rightarrow> Inr (\<not> test v (cd_value c)))
      in case cd_operator c of
           OpExists \<Rightarrow> Inr (found \<noteq> None)
         | OpNotExists \<Rightarrow> Inr (found = None)
         | OpEquals \<Rightarrow> when_found (compare_equals lib)
         | OpNotEquals \<Rightarrow> unless_found (compare_equals lib)
         | OpContains \<Rightarrow> when_found (contains_value lib)
         | OpNotContains \<Rightarrow> unless_found (contains_value lib)
         | OpStartsWith \<Rightarrow> when_found (starts_with lib)
         | OpEndsWith \<Rightarrow> when_found (ends_with lib)
         | OpIn \<Rightarrow> when_found (value_in_list lib)
         | OpNotIn \<Rightarrow> unless_found (value_in_list lib)
         | OpGreaterThan \<Rightarrow> when_found (compare_numbers (>))
         | OpGreaterThanOrEqual \<Rightarrow> when_found (compare_numbers (\<ge>))
         | OpLessThan \<Rightarrow> when_found (compare_numbers (<))
         | OpLessThanOrEqual \<Rightarrow> when_found (compare_numbers (\<le>))
         | OpBefore \<Rightarrow> when_found (compare_time lib (<))
         | OpAfter \<Rightarrow> when_found (compare_time lib (>))
         | OpMatches \<Rightarrow> when_found (match_regex lib)
         | OpIPAddress \<Rightarrow> Inl ErrInvalidCondition
         | OpIPAddressRange \<Rightarrow> Inl ErrInvalidCondition
         | OpUnknown _ \<Rightarrow> Inl ErrInvalidCondition)"

section \<open>Statements and policies\<close>

definition match_pattern :: "string \<Rightarrow> string \<Rightarrow> bool" where
  "match_pattern pattern v =
     (if pattern = ''*'' then True
      else if pattern = v then True
      else if CHR ''*'' \<in> set pattern
      then (case split_at (CHR ''*'') pattern of [a, b] \<Rightarrow> has_prefix a v \<and> has_suffix b v | _ \<Rightarrow> False)
      else False)"

record statement =
  st_id :: string
  st_effect :: effect
  st_actions :: "string list"
  st_resources :: "string list"
  st_conditions :: "condition list"

record policy =
  po_id :: string
  po_version :: string
  po_statements :: "statement list"
  po_created_at :: time
  po_updated_at :: time
  po_tags :: "string list"
  po_priority :: int
  po_enabled :: bool

record policy_request =
  pr_principal :: string
  pr_action :: string
  pr_resource :: string
  pr_context :: "(string \<times> value) list"

text \<open>The request's own context is copied last, over the three fixed entries.\<close>

definition build_context :: "policy_request \<Rightarrow> value" where
  "build_context req = VMap (pr_context req @ [(''principal'', VString (pr_principal req)),
     (''action'', VString (pr_action req)), (''resource'', VString (pr_resource req))])"

fun conditions_loop :: "go_lib \<Rightarrow> value \<Rightarrow> condition list \<Rightarrow> policy_error + bool" where
  "conditions_loop lib ctx [] = Inr True"
| "conditions_loop lib ctx (c # cs) =
     (case evaluate_condition lib ctx c of
        Inl e \<Rightarrow> Inl (ErrConditionFailed e)
      | Inr met \<Rightarrow> if met then conditions_loop lib ctx cs else Inr False)"

text \<open>\<^verbatim>\<open>Statement.Evaluate\<close>: the effect if the statement matches.\<close>

definition evaluate_statement :: "go_lib \<Rightarrow> policy_request \<Rightarrow> statement \<Rightarrow> policy_error + effect option" where
  "evaluate_statement lib req st =
     (if \<not> list_ex (\<lambda>a. match_pattern a (pr_action req)) (st_actions st) then Inr None
      else if \<not> list_ex (\<lambda>r. match_pattern r (pr_resource req)) (st_resources st) then Inr None
      else (case conditions_loop lib (build_context req) (st_conditions st) of
        Inl e \<Rightarrow> Inl e
      | Inr met \<Rightarrow> Inr (if met then Some (st_effect st) else None)))"

section \<open>The store\<close>

record policy_store =
  ps_policies :: "string \<rightharpoonup> policy"
  ps_by_tag :: "string \<Rightarrow> string set"

definition new_policy_store :: policy_store where
  "new_policy_store = \<lparr>ps_policies = Map.empty, ps_by_tag = (\<lambda>_. {})\<rparr>"

definition tag_policy :: "policy \<Rightarrow> (string \<Rightarrow> string set) \<Rightarrow> string \<Rightarrow> string set" where
  "tag_policy p idx = (\<lambda>t. if t \<in> set (po_tags p) then insert (po_id p) (idx t) else idx t)"

definition untag_policy :: "string \<Rightarrow> policy \<Rightarrow> (string \<Rightarrow> string set) \<Rightarrow> string \<Rightarrow> string set" where
  "untag_policy i p idx = (\<lambda>t. if t \<in> set (po_tags p) then idx t - {i} else idx t)"

definition ps_create :: "policy \<Rightarrow> policy_store \<Rightarrow> policy_store \<times> policy_error option" where
  "ps_create p s =
     (if ps_policies s (po_id p) \<noteq> None then (s, Some ErrPolicyConflict)
      else (s\<lparr>ps_policies := (ps_policies s)(po_id p \<mapsto> p), ps_by_tag := tag_policy p (ps_by_tag s)\<rparr>, None))"

definition ps_get :: "string \<Rightarrow> policy_store \<Rightarrow> policy_error + policy" where
  "ps_get i s = (case ps_policies s i of None \<Rightarrow> Inl ErrPolicyNotFound | Some p \<Rightarrow> Inr p)"

definition ps_update :: "policy \<Rightarrow> policy_store \<Rightarrow> policy_store \<times> policy_error option" where
  "ps_update p s =
     (case ps_policies s (po_id p) of
        None \<Rightarrow> (s, Some ErrPolicyNotFound)
      | Some old \<Rightarrow> (s\<lparr>ps_policies := (ps_policies s)(po_id p \<mapsto> p),
          ps_by_tag := tag_policy p (untag_policy (po_id p) old (ps_by_tag s))\<rparr>, None))"

definition ps_delete :: "string \<Rightarrow> policy_store \<Rightarrow> policy_store" where
  "ps_delete i s =
     (case ps_policies s i of
        None \<Rightarrow> s
      | Some p \<Rightarrow> s\<lparr>ps_policies := (ps_policies s)(i := None), ps_by_tag := untag_policy i p (ps_by_tag s)\<rparr>)"

definition ps_list :: "string list \<Rightarrow> bool option \<Rightarrow> string list \<Rightarrow> policy_store \<Rightarrow> policy list" where
  "ps_list ks enabled tags s = filter (\<lambda>p. (enabled = None \<or> enabled = Some (po_enabled p))
     \<and> (tags = [] \<or> list_ex (\<lambda>t. t \<in> set (po_tags p)) tags)) (map snd (visit ks (ps_policies s)))"

text \<open>
  \<^verbatim>\<open>GetByPrincipal\<close> appends a policy once for every statement that has a resource pattern matching the
  principal: the \<^verbatim>\<open>break\<close> ends the loop over the resources only.
\<close>

definition names_principal :: "string \<Rightarrow> statement \<Rightarrow> bool" where
  "names_principal principal_id st = list_ex (\<lambda>r. match_pattern r principal_id \<or> r = ''*'') (st_resources st)"

definition ps_get_by_principal :: "string list \<Rightarrow> string \<Rightarrow> policy_store \<Rightarrow> policy list" where
  "ps_get_by_principal ks principal_id s = concat (map (\<lambda>(i, p). if po_enabled p
     then map (\<lambda>_. p) (filter (names_principal principal_id) (po_statements p)) else []) (visit ks (ps_policies s)))"

section \<open>The engine\<close>

datatype combining = AlgorithmAllowOverride | AlgorithmDenyOverride | AlgorithmFirstMatch | AlgorithmAllAllow
  | AlgorithmAllDeny | AlgorithmOther string

datatype policy_reason = AccessAllowed | AccessDenied | NoMatch

record policy_result =
  rs_allowed :: bool
  rs_denied :: bool
  rs_matched :: "string list"
  rs_denied_by :: string
  rs_allowed_by :: string
  rs_reason :: policy_reason

definition policy_engine_algorithm :: "combining \<Rightarrow> combining" where
  "policy_engine_algorithm a = (if a = AlgorithmOther [] then AlgorithmDenyOverride else a)"

text \<open>The statements that match: the IDs of all, of those that allow and of the others, in order.\<close>

fun statements_loop :: "go_lib \<Rightarrow> policy_request \<Rightarrow> string \<Rightarrow> statement list \<Rightarrow> string list \<times> string list \<times> string list
    \<Rightarrow> policy_error + (string list \<times> string list \<times> string list)" where
  "statements_loop lib req i [] acc = Inr acc"
| "statements_loop lib req i (st # sts) (matched, allows, denies) =
     (case evaluate_statement lib req st of
        Inl e \<Rightarrow> Inl (ErrStatementFailed e)
      | Inr None \<Rightarrow> statements_loop lib req i sts (matched, allows, denies)
      | Inr (Some eff) \<Rightarrow> statements_loop lib req i sts
          (if eff = EffectAllow then (matched @ [i], allows @ [i], denies) else (matched @ [i], allows, denies @ [i])))"

fun policies_loop :: "go_lib \<Rightarrow> policy_request \<Rightarrow> policy list \<Rightarrow> string list \<times> string list \<times> string list
    \<Rightarrow> policy_error + (string list \<times> string list \<times> string list)" where
  "policies_loop lib req [] acc = Inr acc"
| "policies_loop lib req (p # ps) acc =
     (if \<not> po_enabled p then policies_loop lib req ps acc
      else (case statements_loop lib req (po_id p) (po_statements p) acc of
        Inl e \<Rightarrow> Inl e | Inr acc \<Rightarrow> policies_loop lib req ps acc))"

definition first_id :: "string list \<Rightarrow> string" where
  "first_id xs = (case xs of [] \<Rightarrow> [] | x # _ \<Rightarrow> x)"

definition combine :: "combining \<Rightarrow> string list \<Rightarrow> string list \<Rightarrow> bool \<times> bool \<times> string \<times> string" where
  "combine a allows denies =
     (let some_allow = allows \<noteq> []; some_deny = denies \<noteq> []
      in case a of
           AlgorithmAllowOverride \<Rightarrow> (some_allow, some_deny \<and> \<not> some_allow, first_id allows, first_id denies)
         | AlgorithmDenyOverride \<Rightarrow> (some_allow \<and> \<not> some_deny, some_deny, first_id allows, first_id denies)
         | AlgorithmFirstMatch \<Rightarrow>
             if some_deny then (False, True, [], first_id denies)
             else if some_allow then (True, False, first_id allows, []) else (False, False, [], [])
         | AlgorithmAllAllow \<Rightarrow>
             if \<not> some_deny \<and> some_allow then (True, False, ''all_policies'', [])
             else if some_deny then (False, True, [], first_id denies) else (False, False, [], [])
         | AlgorithmAllDeny \<Rightarrow>
             if \<not> some_allow \<and> some_deny then (False, True, [], ''all_policies'')
             else if some_allow then (True, False, first_id allows, []) else (False, False, [], [])
         | AlgorithmOther _ \<Rightarrow> (False, False, [], []))"

definition evaluate_policies :: "go_lib \<Rightarrow> combining \<Rightarrow> policy_request \<Rightarrow> policy list \<Rightarrow> policy_error + policy_result" where
  "evaluate_policies lib a req ps =
     (case policies_loop lib req ps ([], [], []) of
        Inl e \<Rightarrow> Inl e
      | Inr (matched, allows, denies) \<Rightarrow>
          (case combine a allows denies of
             (allowed, denied, allowed_by, denied_by) \<Rightarrow>
               Inr \<lparr>rs_allowed = allowed, rs_denied = denied, rs_matched = matched, rs_denied_by = denied_by,
                 rs_allowed_by = allowed_by,
                 rs_reason = (if allowed then AccessAllowed else if denied then AccessDenied else NoMatch)\<rparr>))"

definition evaluate_request :: "go_lib \<Rightarrow> combining \<Rightarrow> string list \<Rightarrow> policy_request \<Rightarrow> policy_store
    \<Rightarrow> policy_error + policy_result" where
  "evaluate_request lib a ks req s = evaluate_policies lib a req (ps_get_by_principal ks (pr_principal req) s)"

definition create_policy :: "time \<Rightarrow> policy \<Rightarrow> policy_store \<Rightarrow> policy_store \<times> policy_error option" where
  "create_policy now p s =
     (if po_id p = [] then (s, Some ErrPolicyInvalid)
      else if \<not> list_all (\<lambda>st. effect_valid (st_effect st)) (po_statements p) then (s, Some ErrInvalidEffect)
      else ps_create (p\<lparr>po_created_at := now, po_updated_at := now,
        po_version := (if po_version p = [] then ''2024-01-01'' else po_version p)\<rparr>) s)"

definition update_policy :: "time \<Rightarrow> policy \<Rightarrow> policy_store \<Rightarrow> policy_store \<times> policy_error option" where
  "update_policy now p s =
     (if \<not> list_all (\<lambda>st. effect_valid (st_effect st)) (po_statements p) then (s, Some ErrInvalidEffect)
      else ps_update (p\<lparr>po_updated_at := now\<rparr>) s)"

section \<open>Which statements decide\<close>

definition gives :: "go_lib \<Rightarrow> policy_request \<Rightarrow> (effect \<Rightarrow> bool) \<Rightarrow> policy \<Rightarrow> bool" where
  "gives lib req kind p \<longleftrightarrow> po_enabled p
     \<and> (\<exists>st\<in>set (po_statements p). \<exists>eff. evaluate_statement lib req st = Inr (Some eff) \<and> kind eff)"

abbreviation allowing :: "effect \<Rightarrow> bool" where "allowing e \<equiv> e = EffectAllow"
abbreviation denying :: "effect \<Rightarrow> bool" where "denying e \<equiv> e \<noteq> EffectAllow"

lemma statements_loop_spec:
  "statements_loop lib req i sts (m, as, ds) = Inr (m', as', ds')
    \<Longrightarrow> (as' = [] \<longleftrightarrow> as = [] \<and> (\<forall>st\<in>set sts. evaluate_statement lib req st \<noteq> Inr (Some EffectAllow)))
      \<and> (ds' = [] \<longleftrightarrow> ds = [] \<and> (\<forall>st\<in>set sts. \<forall>e. evaluate_statement lib req st = Inr (Some e) \<longrightarrow> e = EffectAllow))"
proof (induction sts arbitrary: m as ds)
  case (Cons st sts)
  then show ?case
    by (cases "evaluate_statement lib req st") (auto split: option.splits if_splits dest!: Cons.IH)
qed simp

lemma policies_loop_spec:
  "policies_loop lib req ps (m, as, ds) = Inr (m', as', ds')
    \<Longrightarrow> (as' = [] \<longleftrightarrow> as = [] \<and> \<not> (\<exists>p\<in>set ps. gives lib req allowing p))
      \<and> (ds' = [] \<longleftrightarrow> ds = [] \<and> \<not> (\<exists>p\<in>set ps. gives lib req denying p))"
proof (induction ps arbitrary: m as ds)
  case (Cons p ps)
  show ?case
  proof (cases "po_enabled p")
    case False
    with Cons.prems Cons.IH [of m as ds] show ?thesis by (simp add: gives_def)
  next
    case True
    with Cons.prems obtain m1 as1 ds1 where l: "statements_loop lib req (po_id p) (po_statements p) (m, as, ds) = Inr (m1, as1, ds1)"
        "policies_loop lib req ps (m1, as1, ds1) = Inr (m', as', ds')"
      by (auto split: sum.splits)
    have g: "gives lib req kind p \<longleftrightarrow> (\<exists>st\<in>set (po_statements p). \<exists>e. evaluate_statement lib req st = Inr (Some e) \<and> kind e)" for kind
      using True by (simp add: gives_def)
    from statements_loop_spec [OF l(1)] Cons.IH [OF l(2)] show ?thesis by (auto simp: g)
  qed
qed simp

text \<open>C37: how the effects are combined. Whatever the order of the policies, and whether they are listed once or
  several times: with A for \<open>some enabled policy has a matching statement that allows\<close> and D for \<open>one that does
  not\<close>, access is allowed and denied as the algorithm says; an unknown algorithm decides nothing.\<close>

theorem evaluate_policies_decides:
  assumes "evaluate_policies lib a req ps = Inr r"
  defines "A \<equiv> \<exists>p\<in>set ps. gives lib req allowing p" and "D \<equiv> \<exists>p\<in>set ps. gives lib req denying p"
  shows "(rs_allowed r \<longleftrightarrow> (case a of
        AlgorithmAllowOverride \<Rightarrow> A | AlgorithmDenyOverride \<Rightarrow> A \<and> \<not> D | AlgorithmFirstMatch \<Rightarrow> A \<and> \<not> D
      | AlgorithmAllAllow \<Rightarrow> A \<and> \<not> D | AlgorithmAllDeny \<Rightarrow> A | AlgorithmOther _ \<Rightarrow> False))
    \<and> (rs_denied r \<longleftrightarrow> (case a of
        AlgorithmAllowOverride \<Rightarrow> D \<and> \<not> A | AlgorithmDenyOverride \<Rightarrow> D | AlgorithmFirstMatch \<Rightarrow> D
      | AlgorithmAllAllow \<Rightarrow> D | AlgorithmAllDeny \<Rightarrow> D \<and> \<not> A | AlgorithmOther _ \<Rightarrow> False))"
proof -
  from assms(1) obtain m as ds where l: "policies_loop lib req ps ([], [], []) = Inr (m, as, ds)"
    and r: "rs_allowed r = fst (combine a as ds)" "rs_denied r = fst (snd (combine a as ds))"
    by (auto simp: evaluate_policies_def split: sum.splits prod.splits)
  from policies_loop_spec [OF l] have "A \<longleftrightarrow> as \<noteq> []" "D \<longleftrightarrow> ds \<noteq> []" by (auto simp: A_def D_def)
  then show ?thesis by (cases a) (auto simp: r combine_def Let_def)
qed

section \<open>Patterns\<close>

lemma split_at_two: "split_at c s = [a, b] \<longleftrightarrow> c \<notin> set (a @ b) \<and> s = a @ c # b"
proof
  assume s: "split_at c s = [a, b]"
  then have "s = a @ c # b" using join_split [of c s] by simp
  moreover have "c \<notin> set a" "c \<notin> set b" using split_at_pieces [of _ c s] s by auto
  ultimately show "c \<notin> set (a @ b) \<and> s = a @ c # b" by simp
qed (simp add: split_at_append split_at_plain)

lemma has_both_iff: "has_prefix a v \<and> has_suffix b v
    \<longleftrightarrow> (\<exists>mid. v = a @ mid @ b) \<or> prefix a v \<and> suffix b v \<and> length v < length a + length b"
proof (cases "length a + length b \<le> length v")
  case True
  have "\<exists>mid. v = a @ mid @ b" if v: "v = a @ w" "v = u @ b" for u w
  proof -
    have "take (length a) (u @ b) = a" using v by (metis append_eq_conv_conj)
    then have "u = a @ drop (length a) u" using True v(2) by (metis append_take_drop_id length_append le_diff_conv
        diff_add_inverse2 take_append append_Nil2 diff_is_0_eq take_0 add_le_cancel_right)
    with v(2) show ?thesis by (metis append_assoc)
  qed
  then have "(\<exists>mid. v = a @ mid @ b) \<longleftrightarrow> prefix a v \<and> suffix b v"
    unfolding prefix_def suffix_def by (metis append_assoc)
  with True show ?thesis
    by (auto simp: has_suffix_def has_prefix_iff suffix_to_prefix)
next
  case False
  then show ?thesis
    by (auto simp: has_suffix_def has_prefix_iff suffix_to_prefix)
qed

text \<open>A pattern with one star, other than the star alone, matches the values with any text in place of the
  star, and also those too short for both parts in which the text before and the text after the star overlap; a
  pattern with two stars or more matches itself only.\<close>

theorem match_pattern_meaning:
  "match_pattern pattern v \<longleftrightarrow> pattern = ''*'' \<or> pattern = v
     \<or> (\<exists>a b. CHR ''*'' \<notin> set (a @ b) \<and> pattern = a @ CHR ''*'' # b
          \<and> ((\<exists>mid. v = a @ mid @ b) \<or> prefix a v \<and> suffix b v \<and> length v < length a + length b))"
proof -
  have "(case split_at (CHR ''*'') pattern of [a, b] \<Rightarrow> has_prefix a v \<and> has_suffix b v | _ \<Rightarrow> False)
      \<longleftrightarrow> (\<exists>a b. split_at (CHR ''*'') pattern = [a, b] \<and> has_prefix a v \<and> has_suffix b v)"
    by (auto split: list.splits)
  then have one: "(case split_at (CHR ''*'') pattern of [a, b] \<Rightarrow> has_prefix a v \<and> has_suffix b v | _ \<Rightarrow> False)
      \<longleftrightarrow> (\<exists>a b. CHR ''*'' \<notin> set (a @ b) \<and> pattern = a @ CHR ''*'' # b \<and> has_prefix a v \<and> has_suffix b v)"
    by (simp only: split_at_two conj_assoc)
  show ?thesis
    unfolding match_pattern_def one unfolding has_both_iff by auto
qed

section \<open>The tag index\<close>

inductive policy_step :: "policy_store \<Rightarrow> policy_store \<Rightarrow> bool" where
  create: "create_policy now p s = (s', err) \<Longrightarrow> policy_step s s'"
| update: "update_policy now p s = (s', err) \<Longrightarrow> policy_step s s'"
| delete: "policy_step s (ps_delete i s)"

definition indexed :: "policy_store \<Rightarrow> bool" where
  "indexed s \<longleftrightarrow> (\<forall>i p. ps_policies s i = Some p \<longrightarrow> po_id p = i)
     \<and> (\<forall>t. ps_by_tag s t = {i. \<exists>p. ps_policies s i = Some p \<and> t \<in> set (po_tags p)})"

lemma indexed_put:
  assumes "indexed s" "ps_policies s (po_id p) = None"
  shows "indexed (s\<lparr>ps_policies := (ps_policies s)(po_id p \<mapsto> p), ps_by_tag := tag_policy p (ps_by_tag s)\<rparr>)"
  using assms by (auto simp: indexed_def tag_policy_def)

lemma indexed_delete: "indexed s \<Longrightarrow> indexed (ps_delete i s)"
  by (auto simp: indexed_def ps_delete_def untag_policy_def split: option.splits if_splits)

lemma update_is_replace:
  assumes "indexed s" "ps_policies s (po_id p) = Some old"
  shows "s\<lparr>ps_policies := (ps_policies s)(po_id p \<mapsto> p), ps_by_tag := tag_policy p (untag_policy (po_id p) old (ps_by_tag s))\<rparr>
    = (let s' = ps_delete (po_id p) s in s'\<lparr>ps_policies := (ps_policies s')(po_id p \<mapsto> p), ps_by_tag := tag_policy p (ps_by_tag s')\<rparr>)"
  using assms by (simp add: ps_delete_def Let_def)

lemma indexed_step: "policy_step s s' \<Longrightarrow> indexed s \<Longrightarrow> indexed s'"
proof (induction rule: policy_step.induct)
  case (create now p s s' err)
  let ?p = "p\<lparr>po_created_at := now, po_updated_at := now,
      po_version := (if po_version p = [] then ''2024-01-01'' else po_version p)\<rparr>"
  from create show ?case
    using indexed_put [of s ?p] by (simp add: create_policy_def ps_create_def split: if_splits)
next
  case (update now p s s' err)
  let ?p = "p\<lparr>po_updated_at := now\<rparr>"
  show ?case
  proof (cases "ps_policies s (po_id ?p)")
    case (Some old)
    have "indexed (ps_delete (po_id ?p) s)" using update.prems by (rule indexed_delete)
    moreover have "ps_policies (ps_delete (po_id ?p) s) (po_id ?p) = None" using Some by (simp add: ps_delete_def)
    ultimately have "indexed (s\<lparr>ps_policies := (ps_policies s)(po_id ?p \<mapsto> ?p),
        ps_by_tag := tag_policy ?p (untag_policy (po_id ?p) old (ps_by_tag s))\<rparr>)"
      unfolding update_is_replace [OF update.prems Some] Let_def by (rule indexed_put)
    with update Some show ?thesis
      by (auto simp: update_policy_def ps_update_def split: if_splits)
  qed (use update in \<open>auto simp: update_policy_def ps_update_def split: if_splits\<close>)
next
  case (delete s i)
  then show ?case by (simp add: indexed_delete)
qed

text \<open>In every state the store reaches, as long as callers hand over policies and edit none that is stored, the
  tag index lists under each tag exactly the stored policies with that tag, and a policy is stored under its own ID.\<close>

theorem tag_index_exact:
  assumes "policy_step\<^sup>*\<^sup>* new_policy_store s"
  shows "(\<forall>t. ps_by_tag s t = {i. \<exists>p. ps_policies s i = Some p \<and> t \<in> set (po_tags p)})
    \<and> (\<forall>i p. ps_policies s i = Some p \<longrightarrow> po_id p = i)"
proof -
  from assms have "indexed s"
  proof (induction rule: rtranclp_induct)
    case base
    show ?case by (simp add: indexed_def new_policy_store_def)
  qed (rule indexed_step)
  then show ?thesis by (simp add: indexed_def)
qed

text \<open>
  The store keeps the caller's pointer, and \<^verbatim>\<open>Get\<close> hands it out. A caller that changes the tags of what it got
  has changed the stored policy: \<^verbatim>\<open>Update\<close> then reads the new tags as the old ones and the index keeps the old entry.
\<close>

definition retag_in_place :: "string \<Rightarrow> string list \<Rightarrow> policy_store \<Rightarrow> policy_store" where
  "retag_in_place i tags s = s\<lparr>ps_policies := (ps_policies s)(i := map_option (po_tags_update (\<lambda>_. tags)) (ps_policies s i))\<rparr>"

lemma retagged_in_place_keeps_old_tag:
  assumes "indexed s" "ps_policies s i = Some p" "t \<in> set (po_tags p)" "t \<notin> set tags"
  shows "i \<in> ps_by_tag (fst (ps_update (p\<lparr>po_tags := tags\<rparr>) (retag_in_place i tags s))) t"
  using assms by (auto simp: indexed_def ps_update_def retag_in_place_def tag_policy_def untag_policy_def)

section \<open>Which policies are asked\<close>

text \<open>The engine asks only policies that have a statement whose resource patterns name the principal: when no
  statement of an enabled policy does, every request of that principal is neither allowed nor denied, though
  policies may match its action and resource.\<close>

theorem engine_ignores_unnamed:
  assumes "\<forall>p\<in>ran (ps_policies s). po_enabled p
      \<longrightarrow> (\<forall>st\<in>set (po_statements p). \<forall>r\<in>set (st_resources st). \<not> match_pattern r (pr_principal req))"
  shows "\<exists>r. evaluate_request lib a ks req s = Inr r \<and> \<not> rs_allowed r \<and> \<not> rs_denied r \<and> rs_reason r = NoMatch"
proof -
  have unnamed: "filter (names_principal (pr_principal req)) (po_statements p) = []"
    if "ps_policies s i = Some p" "po_enabled p" for i p
    using assms that by (fastforce simp: names_principal_def filter_empty_conv list_ex_iff match_pattern_def ran_def)
  have "ps_get_by_principal ks (pr_principal req) s = []"
    by (auto simp: ps_get_by_principal_def set_visit dest: unnamed)
  then show ?thesis
    by (cases a) (auto simp: evaluate_request_def evaluate_policies_def combine_def Let_def)
qed

section \<open>Examples\<close>

definition example_lib :: go_lib where
  "example_lib = \<lparr>gl_sprint = (\<lambda>v. case v of VString s \<Rightarrow> s | _ \<Rightarrow> ''other''), gl_parse_time = (\<lambda>_. None)\<rparr>"

definition example_statement :: "effect \<Rightarrow> statement" where
  "example_statement e = \<lparr>st_id = ''s'', st_effect = e, st_actions = [''read''], st_resources = [''doc*''], st_conditions = []\<rparr>"

definition example_policy :: "string \<Rightarrow> effect \<Rightarrow> policy" where
  "example_policy i e = \<lparr>po_id = i, po_version = ''v'', po_statements = [example_statement e], po_created_at = 0,
     po_updated_at = 0, po_tags = [''t''], po_priority = 0, po_enabled = True\<rparr>"

definition example_request :: policy_request where
  "example_request = \<lparr>pr_principal = ''ann'', pr_action = ''read'', pr_resource = ''docs'', pr_context = []\<rparr>"

lemmas example_defs = example_lib_def example_statement_def example_policy_def example_request_def

theorem evaluate_policies_decides_witness:
  "\<exists>r. evaluate_policies example_lib AlgorithmDenyOverride example_request
      [example_policy ''p'' EffectAllow, example_policy ''q'' EffectDeny] = Inr r \<and> \<not> rs_allowed r \<and> rs_denied r"
proof -
  let ?ps = "[example_policy ''p'' EffectAllow, example_policy ''q'' EffectDeny]"
  obtain r where r: "evaluate_policies example_lib AlgorithmDenyOverride example_request ?ps = Inr r"
    by (simp add: example_defs evaluate_policies_def evaluate_statement_def match_pattern_def has_prefix_def has_suffix_def
        combine_def Let_def)
  have "gives example_lib example_request denying (example_policy ''q'' EffectDeny)"
    by (simp add: example_defs gives_def evaluate_statement_def match_pattern_def has_prefix_def has_suffix_def)
  with evaluate_policies_decides [OF r] r show ?thesis by auto
qed

theorem tag_index_exact_witness:
  "\<exists>s. policy_step\<^sup>*\<^sup>* new_policy_store s \<and> ps_by_tag s ''t'' = {i. \<exists>p. ps_policies s i = Some p \<and> ''t'' \<in> set (po_tags p)}
     \<and> ps_policies s ''p'' \<noteq> None"
proof -
  let ?s = "fst (create_policy 0 (example_policy ''p'' EffectAllow) new_policy_store)"
  have "policy_step new_policy_store ?s" by (rule policy_step.create) (rule prod.collapse [symmetric])
  then have r: "policy_step\<^sup>*\<^sup>* new_policy_store ?s" by (rule r_into_rtranclp)
  moreover have "ps_policies ?s ''p'' \<noteq> None"
    by (simp add: create_policy_def ps_create_def new_policy_store_def example_policy_def example_statement_def effect_valid_def)
  ultimately show ?thesis using tag_index_exact [OF r] by blast
qed

theorem engine_ignores_unnamed_witness:
  "\<exists>r. evaluate_request example_lib AlgorithmDenyOverride [''p''] example_request
      (fst (create_policy 0 (example_policy ''p'' EffectDeny) new_policy_store)) = Inr r \<and> \<not> rs_denied r"
proof -
  have "\<forall>p\<in>ran (ps_policies (fst (create_policy 0 (example_policy ''p'' EffectDeny) new_policy_store))). po_enabled p
      \<longrightarrow> (\<forall>st\<in>set (po_statements p). \<forall>r\<in>set (st_resources st). \<not> match_pattern r (pr_principal example_request))"
    by (simp add: create_policy_def ps_create_def new_policy_store_def example_defs effect_valid_def match_pattern_def
        has_prefix_def)
  from engine_ignores_unnamed [OF this] show ?thesis by blast
qed

end
