(* ===== verification/Batch.thy ===== *)
theory Batch
  imports Executor
begin

text \<open>
  The batch processor and the dynamic batcher, \<^verbatim>\<open>inference/batch.go\<close>. Every critical section of the code is
  one operation; the goroutines that run batches and their requests are interleaved by the step relation
  \<open>batch_step\<close>. The caller's batch and its response live in a heap, as the maps, the goroutines and the caller
  share pointers to them: the n-th batch created and its response have the address n. An operation that Go
  would end in a panic is \<open>None\<close>. What the executor answers is an argument. Callers hand every
  \<^verbatim>\<open>*BatchRequest\<close> over once.
\<close>

section \<open>State\<close>

record batch_config =
  bc_max_batch_size :: int
  bc_max_concurrent :: int
  bc_timeout :: duration
  bc_dynamic :: bool
  bc_window :: duration
  bc_max_wait :: duration
  bc_optimize :: bool

record batch_stats =
  bt_total_batches :: int
  bt_completed :: int
  bt_failed :: int
  bt_cancelled :: int
  bt_total_requests :: int
  bt_successful_requests :: int
  bt_failed_requests :: int
  bt_avg_batch_size :: rat
  bt_active :: int
  bt_queued :: int
  bt_updated_at :: time

text \<open>
  A goroutine of \<^verbatim>\<open>executeBatch\<close>: not yet run, executing (since when, the requests that wait for the semaphore,
  and those that execute with the request ID their result will carry) or returned.
\<close>

datatype run_phase = Spawned | Executing time "nat list" "(nat \<times> string) list" | Returned

record batch_run =
  rn_batch :: nat
  rn_phase :: run_phase

record batch_processor =
  bp_config :: batch_config
  bp_heap :: "batch_request list"
  bp_responses :: "batch_response list"
  bp_batches :: "string \<rightharpoonup> nat"
  bp_results :: "string \<rightharpoonup> nat"
  bp_stats :: batch_stats
  bp_runs :: "batch_run list"
  bp_stopped :: bool

definition default_batch_config :: batch_config where
  "default_batch_config = \<lparr>bc_max_batch_size = 100, bc_max_concurrent = 10, bc_timeout = 30 * minute, bc_dynamic = True,
     bc_window = 100 * 10 ^ 6, bc_max_wait = 5 * second, bc_optimize = True\<rparr>"

definition new_batch_processor :: "time \<Rightarrow> batch_config option \<Rightarrow> batch_processor" where
  "new_batch_processor now cfg =
     \<lparr>bp_config = (case cfg of None \<Rightarrow> default_batch_config | Some c \<Rightarrow> c), bp_heap = [], bp_responses = [],
      bp_batches = Map.empty, bp_results = Map.empty,
      bp_stats = \<lparr>bt_total_batches = 0, bt_completed = 0, bt_failed = 0, bt_cancelled = 0, bt_total_requests = 0,
        bt_successful_requests = 0, bt_failed_requests = 0, bt_avg_batch_size = 0, bt_active = 0, bt_queued = 0,
        bt_updated_at = now\<rparr>,
      bp_runs = [], bp_stopped = False\<rparr>"

definition put_batch :: "nat \<Rightarrow> (batch_request \<Rightarrow> batch_request) \<Rightarrow> batch_processor \<Rightarrow> batch_processor" where
  "put_batch p f s = s\<lparr>bp_heap := (bp_heap s)[p := f (bp_heap s ! p)]\<rparr>"

definition put_response :: "nat \<Rightarrow> (batch_response \<Rightarrow> batch_response) \<Rightarrow> batch_processor \<Rightarrow> batch_processor" where
  "put_response p f s = s\<lparr>bp_responses := (bp_responses s)[p := f (bp_responses s ! p)]\<rparr>"

definition put_run :: "nat \<Rightarrow> run_phase \<Rightarrow> batch_processor \<Rightarrow> batch_processor" where
  "put_run k ph s = s\<lparr>bp_runs := (bp_runs s)[k := (bp_runs s ! k)\<lparr>rn_phase := ph\<rparr>]\<rparr>"

definition put_stats :: "(batch_stats \<Rightarrow> batch_stats) \<Rightarrow> batch_processor \<Rightarrow> batch_processor" where
  "put_stats f s = s\<lparr>bp_stats := f (bp_stats s)\<rparr>"

section \<open>Creating and cancelling\<close>

definition validate_batch :: "batch_config \<Rightarrow> batch_request \<Rightarrow> go_error option" where
  "validate_batch cfg b =
     (if bq_requests b = [] then Some (new_error ErrBatchInvalid ''Batch must contain at least one request'')
      else if bc_max_batch_size cfg < int (length (bq_requests b)) then Some err_batch_size_exceeded
      else if list_ex (\<lambda>r. rq_prompt r = [] \<and> rq_messages r = []) (bq_requests b)
        then Some (new_error ErrRequestInvalid ''Request must have either prompt or messages'')
      else if bq_model_id b = [] then Some (new_error ErrRequestInvalid ''Model ID is required'')
      else None)"

definition new_batch_response :: "time \<Rightarrow> batch_request \<Rightarrow> batch_response" where
  "new_batch_response now b =
     \<lparr>bs_batch_id = bq_id b, bs_model_id = bq_model_id b, bs_status = BatchPending,
      bs_results = replicate (length (bq_requests b)) empty_result, bs_total = int (length (bq_requests b)),
      bs_succeeded = 0, bs_failed = 0, bs_duration = 0, bs_created_at = now, bs_completed_at = None\<rparr>"

definition create_batch :: "string \<Rightarrow> time \<Rightarrow> batch_request \<Rightarrow> batch_processor \<Rightarrow> batch_processor \<times> (go_error + nat)" where
  "create_batch new_id now req s =
     (case validate_batch (bp_config s) req of
        Some e \<Rightarrow> (s, Inl e)
      | None \<Rightarrow>
          let req = req\<lparr>bq_id := (if bq_id req = [] then new_id else bq_id req), bq_status := BatchPending,
                bq_created_at := now, bq_progress := 0\<rparr>;
              p = length (bp_heap s);
              s = s\<lparr>bp_heap := bp_heap s @ [req], bp_responses := bp_responses s @ [new_batch_response now req],
                bp_batches := (bp_batches s)(bq_id req \<mapsto> p), bp_results := (bp_results s)(bq_id req \<mapsto> p)\<rparr>
          in (put_stats (\<lambda>t. t\<lparr>bt_total_batches := bt_total_batches t + 1,
                bt_total_requests := bt_total_requests t + int (length (bq_requests req)), bt_queued := bt_queued t + 1\<rparr>) s,
              Inr p))"

definition bp_get_batch :: "string \<Rightarrow> batch_processor \<Rightarrow> go_error + batch_request" where
  "bp_get_batch i s = (case bp_batches s i of None \<Rightarrow> Inl err_batch_not_found | Some p \<Rightarrow> Inr (bp_heap s ! p))"

definition bp_get_response :: "string \<Rightarrow> batch_processor \<Rightarrow> go_error + batch_response" where
  "bp_get_response i s = (case bp_results s i of None \<Rightarrow> Inl err_batch_not_found | Some p \<Rightarrow> Inr (bp_responses s ! p))"

definition cancel_both :: "time \<Rightarrow> string \<Rightarrow> nat \<Rightarrow> batch_processor \<Rightarrow> batch_processor" where
  "cancel_both now i p s =
     (let s = put_batch p (\<lambda>b. b\<lparr>bq_status := BatchCancelled, bq_completed_at := Some now\<rparr>) s
      in case bp_results s i of
           None \<Rightarrow> s
         | Some q \<Rightarrow> put_response q (\<lambda>r. r\<lparr>bs_status := BatchCancelled, bs_completed_at := Some now\<rparr>) s)"

text \<open>The test that keeps the queue counter reads the status after it has been overwritten.\<close>

definition cancel_batch :: "time \<Rightarrow> string \<Rightarrow> batch_processor \<Rightarrow> batch_processor \<times> go_error option" where
  "cancel_batch now i s =
     (case bp_batches s i of
        None \<Rightarrow> (s, Some err_batch_not_found)
      | Some p \<Rightarrow>
          if bq_status (bp_heap s ! p) = BatchComplete \<or> bq_status (bp_heap s ! p) = BatchCancelled
          then (s, Some (new_error ErrBatchInvalid ''Cannot cancel completed or already cancelled batch''))
          else
            let s = cancel_both now i p s;
                s = put_stats (\<lambda>t. t\<lparr>bt_cancelled := bt_cancelled t + 1\<rparr>) s
            in (if bq_status (bp_heap s ! p) = BatchPending then put_stats (\<lambda>t. t\<lparr>bt_queued := bt_queued t - 1\<rparr>) s else s,
                None))"

record batch_status_info =
  bi_batch_id :: string
  bi_model_id :: string
  bi_status :: batch_status
  bi_progress :: rat
  bi_total :: int
  bi_succeeded :: int
  bi_failed :: int
  bi_created_at :: time
  bi_started_at :: "time option"
  bi_completed_at :: "time option"
  bi_duration :: duration

definition get_batch_status :: "string \<Rightarrow> batch_processor \<Rightarrow> (go_error + batch_status_info) option" where
  "get_batch_status i s =
     (case bp_batches s i of
        None \<Rightarrow> Some (Inl err_batch_not_found)
      | Some p \<Rightarrow>
          (case bp_results s i of
             None \<Rightarrow> None
           | Some q \<Rightarrow>
               let b = bp_heap s ! p; r = bp_responses s ! q
               in Some (Inr \<lparr>bi_batch_id = bq_id b, bi_model_id = bq_model_id b, bi_status = bq_status b,
                    bi_progress = bq_progress b, bi_total = bs_total r, bi_succeeded = bs_succeeded r,
                    bi_failed = bs_failed r, bi_created_at = bq_created_at b, bi_started_at = bq_started_at b,
                    bi_completed_at = bq_completed_at b, bi_duration = bs_duration r\<rparr>)))"

text \<open>In a filter an empty status is \<open>None\<close> and an unset time is the zero time.\<close>

record batch_filter =
  bf_model_id :: string
  bf_status :: "batch_status option"
  bf_start_time :: time
  bf_end_time :: time

definition batch_matches :: "batch_filter \<Rightarrow> batch_request \<Rightarrow> bool" where
  "batch_matches f b \<longleftrightarrow> (bf_model_id f = [] \<or> bq_model_id b = bf_model_id f)
     \<and> (bf_status f = None \<or> bf_status f = Some (bq_status b))
     \<and> (bf_start_time f = time_zero \<or> bf_start_time f \<le> bq_created_at b)
     \<and> (bf_end_time f = time_zero \<or> bq_created_at b \<le> bf_end_time f)"

definition list_batches :: "string list \<Rightarrow> batch_filter option \<Rightarrow> batch_processor \<Rightarrow> batch_request list" where
  "list_batches ks filt s = filter (\<lambda>b. case filt of None \<Rightarrow> True | Some f \<Rightarrow> batch_matches f b)
     (map (\<lambda>(i, p). bp_heap s ! p) (visit ks (bp_batches s)))"

section \<open>Running\<close>

definition with_status :: "batch_status \<Rightarrow> string list \<Rightarrow> batch_processor \<Rightarrow> nat list" where
  "with_status st ks s = filter (\<lambda>p. bq_status (bp_heap s ! p) = st) (map snd (visit ks (bp_batches s)))"

fun spawn_loop :: "int \<Rightarrow> int \<Rightarrow> nat list \<Rightarrow> batch_run list" where
  "spawn_loop limit active [] = []"
| "spawn_loop limit active (p # ps) =
     (if limit \<le> active then [] else \<lparr>rn_batch = p, rn_phase = Spawned\<rparr> # spawn_loop limit (active + 1) ps)"

definition process_pending_batches :: "string list \<Rightarrow> batch_processor \<Rightarrow> batch_processor" where
  "process_pending_batches ks s =
     (let active = int (length (with_status BatchRunning ks s))
      in if bc_max_concurrent (bp_config s) \<le> active then s
         else s\<lparr>bp_runs := bp_runs s @ spawn_loop (bc_max_concurrent (bp_config s)) active (with_status BatchPending ks s)\<rparr>)"

text \<open>The first critical section of \<^verbatim>\<open>executeBatch\<close>, which ends with a goroutine for every request.\<close>

definition start_batch :: "time \<Rightarrow> time \<Rightarrow> nat \<Rightarrow> batch_processor \<Rightarrow> batch_processor option" where
  "start_batch now start k s =
     (let p = rn_batch (bp_runs s ! k);
          s = put_batch p (\<lambda>b. b\<lparr>bq_status := BatchRunning, bq_started_at := Some now\<rparr>) s
      in case bp_results s (bq_id (bp_heap s ! p)) of
           None \<Rightarrow> None
         | Some q \<Rightarrow>
             let s = put_response q (\<lambda>r. r\<lparr>bs_status := BatchRunning\<rparr>) s;
                 s = put_stats (\<lambda>t. t\<lparr>bt_queued := bt_queued t - 1\<rparr>) s
             in Some (put_run k (Executing start [0..<length (bq_requests (bp_heap s ! p))] []) s))"

definition batch_semaphore :: nat where
  "batch_semaphore = 10"

text \<open>
  A request goroutine gets a slot of the semaphore and enters \<^verbatim>\<open>executeBatchRequest\<close>. The result takes the
  request's ID before an empty one is replaced.
\<close>

definition begin_request :: "string \<Rightarrow> nat \<Rightarrow> nat \<Rightarrow> batch_processor \<Rightarrow> batch_processor" where
  "begin_request new_id k i s =
     (let p = rn_batch (bp_runs s ! k); b = bp_heap s ! p; r = bq_requests b ! i
      in case rn_phase (bp_runs s ! k) of
           Executing start waiting active \<Rightarrow>
             put_run k (Executing start (remove1 i waiting) ((i, rq_id r) # active))
               (put_batch p (\<lambda>b. b\<lparr>bq_requests := (bq_requests b)[i := r\<lparr>rq_id := (if rq_id r = [] then new_id else rq_id r),
                   rq_model_id := bq_model_id b, rq_mode := ModeBatch\<rparr>]\<rparr>) s)
         | _ \<Rightarrow> s)"

text \<open>Its critical section once \<^verbatim>\<open>Execute\<close> has returned, and the release of the slot.\<close>

definition batch_progress :: "batch_response \<Rightarrow> rat" where
  "batch_progress r = fl (fl (fl (of_int (bs_succeeded r + bs_failed r)) / fl (of_int (bs_total r))) * 100)"

definition end_request :: "duration \<Rightarrow> go_error + inference_response \<Rightarrow> nat \<Rightarrow> nat \<Rightarrow> batch_processor \<Rightarrow> batch_processor option" where
  "end_request dur answer k i s =
     (case rn_phase (bp_runs s ! k) of
        Executing start waiting active \<Rightarrow>
          (let p = rn_batch (bp_runs s ! k); result = outcome_result (int i) (the (map_of active i)) dur answer
           in case bp_results s (bq_id (bp_heap s ! p)) of
                None \<Rightarrow> None
              | Some q \<Rightarrow>
                  if length (bs_results (bp_responses s ! q)) \<le> i then None
                  else
                    let s = put_response q (record_result i result) s;
                        s = put_stats (\<lambda>t. if br_success result then t\<lparr>bt_successful_requests := bt_successful_requests t + 1\<rparr>
                              else t\<lparr>bt_failed_requests := bt_failed_requests t + 1\<rparr>) s;
                        s = put_batch p (\<lambda>b. b\<lparr>bq_progress := batch_progress (bp_responses s ! q)\<rparr>) s
                    in Some (put_run k (Executing start waiting (filter (\<lambda>(j, _). j \<noteq> i) active)) s))
      | _ \<Rightarrow> Some s)"

definition finish_stats :: "time \<Rightarrow> batch_status \<Rightarrow> batch_stats \<Rightarrow> batch_stats" where
  "finish_stats now st t =
     (let t = t\<lparr>bt_completed := bt_completed t + 1\<rparr>;
          t = (if st = BatchFailed then t\<lparr>bt_failed := bt_failed t + 1\<rparr> else t);
          t = (if 0 < bt_total_batches t
               then t\<lparr>bt_avg_batch_size := fl (fl (of_int (bt_total_requests t)) / fl (of_int (bt_total_batches t)))\<rparr> else t)
      in t\<lparr>bt_updated_at := now\<rparr>)"

definition finalize_batch :: "time \<Rightarrow> nat \<Rightarrow> batch_processor \<Rightarrow> batch_processor option" where
  "finalize_batch now k s =
     (case rn_phase (bp_runs s ! k) of
        Executing start waiting active \<Rightarrow>
          (let p = rn_batch (bp_runs s ! k);
               s = put_batch p (\<lambda>b. b\<lparr>bq_completed_at := Some now, bq_progress := 100\<rparr>) s
           in case bp_results s (bq_id (bp_heap s ! p)) of
                None \<Rightarrow> None
              | Some q \<Rightarrow>
                  let st = final_status (bp_responses s ! q);
                      s = put_response q (\<lambda>r. r\<lparr>bs_duration := time_sub now start, bs_completed_at := Some now, bs_status := st\<rparr>) s;
                      s = put_batch p (\<lambda>b. b\<lparr>bq_status := st\<rparr>) s
                  in Some (put_run k Returned (put_stats (finish_stats now st) s)))
      | _ \<Rightarrow> Some s)"

section \<open>Statistics, clean-up and shutdown\<close>

definition get_batch_stats :: "string list \<Rightarrow> batch_processor \<Rightarrow> batch_stats" where
  "get_batch_stats ks s = (bp_stats s)\<lparr>bt_active := int (length (with_status BatchRunning ks s)),
     bt_queued := int (length (with_status BatchPending ks s))\<rparr>"

definition cleanup_old_batches :: "duration \<Rightarrow> time \<Rightarrow> batch_processor \<Rightarrow> batch_processor" where
  "cleanup_old_batches max_age now s =
     (let old = (\<lambda>i. case bp_batches s i of
            None \<Rightarrow> False
          | Some p \<Rightarrow> (case bq_completed_at (bp_heap s ! p) of None \<Rightarrow> False | Some t \<Rightarrow> t < now - max_age))
      in s\<lparr>bp_batches := (\<lambda>i. if old i then None else bp_batches s i),
           bp_results := (\<lambda>i. if old i then None else bp_results s i)\<rparr>)"

fun cancel_all :: "time \<Rightarrow> (string \<times> nat) list \<Rightarrow> batch_processor \<Rightarrow> batch_processor" where
  "cancel_all now [] s = s"
| "cancel_all now ((i, p) # ps) s =
     cancel_all now ps (if bq_status (bp_heap s ! p) \<in> {BatchPending, BatchRunning} then cancel_both now (bq_id (bp_heap s ! p)) p s else s)"

text \<open>Closing the stop channel a second time panics.\<close>

definition batch_shutdown :: "string list \<Rightarrow> time \<Rightarrow> batch_processor \<Rightarrow> batch_processor option" where
  "batch_shutdown ks now s =
     (if bp_stopped s then None else Some (cancel_all now (visit ks (bp_batches s)) (s\<lparr>bp_stopped := True\<rparr>)))"

section \<open>Interleavings\<close>

text \<open>
  A step is a call of a client, a tick of the background loop, or the next critical section of a goroutine;
  \<open>batch_panics\<close> are the states in which an enabled step panics.
\<close>

definition run_at :: "batch_processor \<Rightarrow> nat \<Rightarrow> run_phase \<Rightarrow> bool" where
  "run_at s k ph \<longleftrightarrow> k < length (bp_runs s) \<and> rn_phase (bp_runs s ! k) = ph"

inductive batch_step :: "batch_processor \<Rightarrow> batch_processor \<Rightarrow> bool" where
  create: "create_batch new_id now b s = (s', r) \<Longrightarrow> batch_step s s'"
| cancel: "cancel_batch now i s = (s', e) \<Longrightarrow> batch_step s s'"
| tick: "covers ks (bp_batches s) \<Longrightarrow> \<not> bp_stopped s \<Longrightarrow> batch_step s (process_pending_batches ks s)"
| start: "run_at s k Spawned \<Longrightarrow> start_batch now st k s = Some s' \<Longrightarrow> batch_step s s'"
| begin_req: "run_at s k (Executing st waiting active) \<Longrightarrow> i \<in> set waiting \<Longrightarrow> length active < batch_semaphore
    \<Longrightarrow> batch_step s (begin_request new_id k i s)"
| end_req: "run_at s k (Executing st waiting active) \<Longrightarrow> i \<in> fst ` set active \<Longrightarrow> end_request dur answer k i s = Some s'
    \<Longrightarrow> batch_step s s'"
| finalize: "run_at s k (Executing st [] []) \<Longrightarrow> finalize_batch now k s = Some s' \<Longrightarrow> batch_step s s'"
| cleanup: "batch_step s (cleanup_old_batches max_age now s)"
| shutdown: "covers ks (bp_batches s) \<Longrightarrow> batch_shutdown ks now s = Some s' \<Longrightarrow> batch_step s s'"

inductive batch_panics :: "batch_processor \<Rightarrow> bool" where
  start: "run_at s k Spawned \<Longrightarrow> start_batch now st k s = None \<Longrightarrow> batch_panics s"
| end_req: "run_at s k (Executing st waiting active) \<Longrightarrow> i \<in> fst ` set active \<Longrightarrow> end_request dur answer k i s = None
    \<Longrightarrow> batch_panics s"
| finalize: "run_at s k (Executing st [] []) \<Longrightarrow> finalize_batch now k s = None \<Longrightarrow> batch_panics s"
| shutdown: "batch_shutdown ks now s = None \<Longrightarrow> batch_panics s"

definition batch_reachable :: "batch_config \<Rightarrow> batch_processor \<Rightarrow> bool" where
  "batch_reachable cfg s \<longleftrightarrow> (\<exists>now. batch_step\<^sup>*\<^sup>* (new_batch_processor now (Some cfg)) s)"

lemma put_fields [simp]:
  "bp_config (put_batch p f s) = bp_config s" "bp_responses (put_batch p f s) = bp_responses s"
  "bp_batches (put_batch p f s) = bp_batches s" "bp_results (put_batch p f s) = bp_results s"
  "bp_stats (put_batch p f s) = bp_stats s" "bp_runs (put_batch p f s) = bp_runs s" "bp_stopped (put_batch p f s) = bp_stopped s"
  "bp_config (put_response p g s) = bp_config s" "bp_heap (put_response p g s) = bp_heap s"
  "bp_batches (put_response p g s) = bp_batches s" "bp_results (put_response p g s) = bp_results s"
  "bp_stats (put_response p g s) = bp_stats s" "bp_runs (put_response p g s) = bp_runs s" "bp_stopped (put_response p g s) = bp_stopped s"
  "bp_config (put_stats h s) = bp_config s" "bp_heap (put_stats h s) = bp_heap s" "bp_responses (put_stats h s) = bp_responses s"
  "bp_batches (put_stats h s) = bp_batches s" "bp_results (put_stats h s) = bp_results s" "bp_stats (put_stats h s) = h (bp_stats s)"
  "bp_runs (put_stats h s) = bp_runs s" "bp_stopped (put_stats h s) = bp_stopped s"
  "bp_config (put_run k ph s) = bp_config s" "bp_heap (put_run k ph s) = bp_heap s" "bp_responses (put_run k ph s) = bp_responses s"
  "bp_batches (put_run k ph s) = bp_batches s" "bp_results (put_run k ph s) = bp_results s" "bp_stats (put_run k ph s) = bp_stats s"
  "bp_stopped (put_run k ph s) = bp_stopped s"
  by (simp_all add: put_batch_def put_response_def put_stats_def put_run_def)

lemma put_heap [simp]:
  "bp_heap (put_batch p f s) = (bp_heap s)[p := f (bp_heap s ! p)]"
  "bp_responses (put_response p g s) = (bp_responses s)[p := g (bp_responses s ! p)]"
  "bp_runs (put_run k ph s) = (bp_runs s)[k := (bp_runs s ! k)\<lparr>rn_phase := ph\<rparr>]"
  by (simp_all add: put_batch_def put_response_def put_run_def)

lemmas batch_ops = create_batch_def cancel_batch_def cancel_both_def process_pending_batches_def start_batch_def
  begin_request_def end_request_def finalize_batch_def cleanup_old_batches_def batch_shutdown_def

section \<open>The semaphore\<close>

definition run_ok :: "batch_run \<Rightarrow> bool" where
  "run_ok r \<longleftrightarrow> (case rn_phase r of Executing st waiting active \<Rightarrow> distinct (waiting @ map fst active) \<and> length active \<le> batch_semaphore | _ \<Rightarrow> True)"

lemma spawn_loop_spawned: "r \<in> set (spawn_loop limit active ps) \<Longrightarrow> rn_phase r = Spawned \<and> rn_batch r \<in> set ps"
  by (induction limit active ps rule: spawn_loop.induct) (auto split: if_splits)

lemma cancel_all_frame [simp]:
  "bp_runs (cancel_all now ps s) = bp_runs s" "bp_batches (cancel_all now ps s) = bp_batches s"
  "bp_results (cancel_all now ps s) = bp_results s" "length (bp_heap (cancel_all now ps s)) = length (bp_heap s)"
  "length (bp_responses (cancel_all now ps s)) = length (bp_responses s)" "bp_config (cancel_all now ps s) = bp_config s"
  by (induction now ps s rule: cancel_all.induct) (auto simp: cancel_both_def Let_def split: option.splits)

lemma run_ok_executing:
  assumes "run_at s k (Executing st waiting active)" "\<forall>r\<in>set (bp_runs s). run_ok r"
  shows "distinct waiting" "distinct (map fst active)" "\<And>j b. (j, b) \<in> set active \<Longrightarrow> j \<notin> set waiting"
    "length active \<le> batch_semaphore"
  using assms by (force simp: run_at_def run_ok_def dest: nth_mem)+

lemma runs_ok_step: "batch_step s s' \<Longrightarrow> \<forall>r\<in>set (bp_runs s). run_ok r \<Longrightarrow> \<forall>r\<in>set (bp_runs s'). run_ok r"
proof (induction rule: batch_step.induct)
  case (create new_id now b s s' r)
  then show ?case by (auto simp: create_batch_def Let_def split: option.splits)
next
  case (cancel now i s s' e)
  then show ?case by (auto simp: cancel_batch_def cancel_both_def Let_def split: option.splits if_splits)
next
  case (tick ks s)
  then show ?case
    by (auto simp: process_pending_batches_def Let_def run_ok_def dest: spawn_loop_spawned)
next
  case (start s k now st s')
  then show ?case
    by (auto simp: start_batch_def Let_def run_ok_def dest!: set_update_subset_insert [THEN subsetD] split: option.splits)
next
  case (begin_req s k st waiting active i new_id)
  from run_ok_executing [OF begin_req.hyps(1) begin_req.prems] begin_req show ?case
    by (auto simp: begin_request_def Let_def run_at_def run_ok_def dest!: set_update_subset_insert [THEN subsetD])
next
  case (end_req s k st waiting active i dur answer s')
  have "map fst (filter (\<lambda>(j, _). j \<noteq> i) active) = filter (\<lambda>j. j \<noteq> i) (map fst active)"
    by (induction active) auto
  with run_ok_executing [OF end_req.hyps(1) end_req.prems] end_req show ?case
    by (auto simp: end_request_def Let_def run_at_def run_ok_def le_trans [OF length_filter_le]
        dest!: set_update_subset_insert [THEN subsetD] split: option.splits if_splits)
next
  case (finalize s k st now s')
  then show ?case
    by (auto simp: finalize_batch_def Let_def run_at_def run_ok_def dest!: set_update_subset_insert [THEN subsetD] split: option.splits)
next
  case (cleanup s max_age now)
  then show ?case by (simp add: cleanup_old_batches_def Let_def)
next
  case (shutdown ks s now s')
  then show ?case by (auto simp: batch_shutdown_def split: if_splits)
qed

lemma runs_ok_reachable: "batch_reachable cfg s \<Longrightarrow> \<forall>r\<in>set (bp_runs s). run_ok r"
  unfolding batch_reachable_def
proof clarify
  fix now r assume "batch_step\<^sup>*\<^sup>* (new_batch_processor now (Some cfg)) s" "r \<in> set (bp_runs s)"
  then show "run_ok r"
  proof (induction arbitrary: r rule: rtranclp_induct)
    case base
    then show ?case by (simp add: new_batch_processor_def)
  next
    case (step s s')
    then show ?case using runs_ok_step by blast
  qed
qed

section \<open>What a run leaves behind\<close>

definition linked :: "batch_processor \<Rightarrow> bool" where
  "linked s \<longleftrightarrow> length (bp_responses s) = length (bp_heap s) \<and> bp_results s = bp_batches s
     \<and> (\<forall>i p. bp_batches s i = Some p \<longrightarrow> p < length (bp_heap s) \<and> bq_id (bp_heap s ! p) = i)
     \<and> (\<forall>r\<in>set (bp_runs s). rn_batch r < length (bp_heap s))"

text \<open>A batch that shares its ID with no other and of which at most one run exists.\<close>

definition runs_of :: "batch_processor \<Rightarrow> nat \<Rightarrow> batch_run list" where
  "runs_of s p = filter (\<lambda>r. rn_batch r = p) (bp_runs s)"

definition undisturbed :: "batch_processor \<Rightarrow> nat \<Rightarrow> bool" where
  "undisturbed s p \<longleftrightarrow> p < length (bp_heap s) \<and> length (runs_of s p) \<le> 1
     \<and> (\<forall>q<length (bp_heap s). bq_id (bp_heap s ! q) = bq_id (bp_heap s ! p) \<longrightarrow> q = p)"

fun open_in :: "nat \<Rightarrow> run_phase \<Rightarrow> nat set" where
  "open_in n Spawned = {..<n}"
| "open_in n (Executing st waiting active) = set waiting \<union> fst ` set active"
| "open_in n Returned = {}"

definition open_requests :: "batch_processor \<Rightarrow> nat \<Rightarrow> nat set" where
  "open_requests s p = (let n = length (bq_requests (bp_heap s ! p))
     in case runs_of s p of [] \<Rightarrow> {..<n} | r # _ \<Rightarrow> open_in n (rn_phase r))"

definition tallied :: "nat \<Rightarrow> nat set \<Rightarrow> batch_response \<Rightarrow> bool" where
  "tallied n W r \<longleftrightarrow> W \<subseteq> {..<n} \<and> length (bs_results r) = n \<and> bs_total r = int n
     \<and> bs_succeeded r = int (card {i. i < n \<and> i \<notin> W \<and> br_success (bs_results r ! i)})
     \<and> bs_failed r = int (card {i. i < n \<and> i \<notin> W \<and> \<not> br_success (bs_results r ! i)})
     \<and> (\<forall>i<n. i \<notin> W \<longrightarrow> br_index (bs_results r ! i) = int i)"

definition settled :: "batch_request \<Rightarrow> batch_response \<Rightarrow> bool" where
  "settled b r \<longleftrightarrow> bq_status b = bs_status r
     \<and> (bq_status b = final_status r \<or> bq_status b = BatchCancelled \<and> final_status r \<noteq> BatchComplete)"

definition run_kept :: "batch_processor \<Rightarrow> nat \<Rightarrow> bool" where
  "run_kept s p \<longleftrightarrow> tallied (length (bq_requests (bp_heap s ! p))) (open_requests s p) (bp_responses s ! p)
     \<and> (map rn_phase (runs_of s p) = [Returned] \<longrightarrow> settled (bp_heap s ! p) (bp_responses s ! p))"

definition batch_inv :: "batch_processor \<Rightarrow> bool" where
  "batch_inv s \<longleftrightarrow> linked s \<and> (\<forall>p. undisturbed s p \<longrightarrow> run_kept s p)"

text \<open>Facts about tallies.\<close>

lemma tallied_fresh: "tallied (length (bq_requests b)) {..<length (bq_requests b)} (new_batch_response now b)"
  by (auto simp: tallied_def new_batch_response_def)

lemma tallied_cong:
  "bs_results r' = bs_results r \<Longrightarrow> bs_total r' = bs_total r \<Longrightarrow> bs_succeeded r' = bs_succeeded r \<Longrightarrow> bs_failed r' = bs_failed r
    \<Longrightarrow> tallied n W r' = tallied n W r"
  by (simp add: tallied_def)

lemma tallied_record:
  assumes "tallied n W r" "i \<in> W" "br_index res = int i"
  shows "tallied n (W - {i}) (record_result i res r)"
proof -
  have i: "i < n" "length (bs_results r) = n" using assms by (auto simp: tallied_def)
  have "{j. j < n \<and> j \<notin> W - {i} \<and> P ((bs_results r)[i := res] ! j)}
      = (if P res then insert i else id) {j. j < n \<and> j \<notin> W \<and> P (bs_results r ! j)}" for P
    using i assms(2) by (auto simp: nth_list_update)
  then have count: "int (card {j. j < n \<and> j \<notin> W - {i} \<and> P ((bs_results r)[i := res] ! j)})
      = int (card {j. j < n \<and> j \<notin> W \<and> P (bs_results r ! j)}) + (if P res then 1 else 0)" for P
    using assms(2) by (simp only:) auto
  from assms(1) have
    "bs_succeeded r = int (card {i. i < n \<and> i \<notin> W \<and> br_success (bs_results r ! i)})"
    "bs_failed r = int (card {i. i < n \<and> i \<notin> W \<and> \<not> br_success (bs_results r ! i)})"
    by (auto simp: tallied_def)
  with i assms count [of br_success] count [of "\<lambda>x. \<not> br_success x"] show ?thesis
    unfolding tallied_def record_result_fields by (intro conjI) (auto simp: nth_list_update)
qed

lemma final_status_cong: "bs_succeeded r' = bs_succeeded r \<Longrightarrow> bs_failed r' = bs_failed r \<Longrightarrow> final_status r' = final_status r"
  by (simp add: final_status_def)

text \<open>Facts about the runs of a batch.\<close>

lemma filter_update_other: "\<not> P (xs ! k) \<Longrightarrow> \<not> P x \<Longrightarrow> filter P (xs[k := x]) = filter P xs"
  by (induction xs arbitrary: k) (auto split: nat.splits)

lemma filter_update_only:
  assumes "k < length xs" "length (filter P xs) \<le> 1" "P (xs ! k)" "P x"
  shows "filter P xs = [xs ! k] \<and> filter P (xs[k := x]) = [x]"
proof -
  have "filter P xs = filter P (take k xs) @ xs ! k # filter P (drop (Suc k) xs)"
    using id_take_nth_drop [OF assms(1)] assms(3) by (metis filter.simps(2) filter_append)
  with assms show ?thesis by (simp add: upd_conv_take_nth_drop)
qed

lemma runs_of_put_other: "rn_batch (bp_runs s ! k) \<noteq> p \<Longrightarrow> runs_of (put_run k ph s) p = runs_of s p"
  by (simp add: runs_of_def filter_update_other)

lemma runs_of_put_only:
  "k < length (bp_runs s) \<Longrightarrow> length (runs_of s p) \<le> 1 \<Longrightarrow> rn_batch (bp_runs s ! k) = p
    \<Longrightarrow> runs_of s p = [bp_runs s ! k] \<and> runs_of (put_run k ph s) p = [(bp_runs s ! k)\<lparr>rn_phase := ph\<rparr>]"
  unfolding runs_of_def put_heap(3) by (rule filter_update_only) auto

text \<open>What links the maps, the heap and the runs does not depend on statuses, results and phases.\<close>

definition batch_shape :: "batch_processor \<Rightarrow> string list \<times> nat list \<times> (string \<rightharpoonup> nat) \<times> (string \<rightharpoonup> nat) \<times> nat" where
  "batch_shape s = (map bq_id (bp_heap s), map rn_batch (bp_runs s), bp_batches s, bp_results s, length (bp_responses s))"

lemma shape_put [simp]:
  "(\<And>b. bq_id (f b) = bq_id b) \<Longrightarrow> batch_shape (put_batch p f s) = batch_shape s"
  "batch_shape (put_response p g s) = batch_shape s" "batch_shape (put_stats h s) = batch_shape s"
  "batch_shape (put_run k ph s) = batch_shape s"
proof -
  have upd: "(map g xs)[k := g (xs ! k)] = map g xs" for g :: "'a \<Rightarrow> 'b" and xs k
    by (metis list_update_id map_update)
  show "(\<And>b. bq_id (f b) = bq_id b) \<Longrightarrow> batch_shape (put_batch p f s) = batch_shape s"
    by (simp add: batch_shape_def map_update upd)
  show "batch_shape (put_run k ph s) = batch_shape s"
    by (simp add: batch_shape_def map_update upd)
qed (simp_all add: batch_shape_def)

lemma linked_by_shape: "linked s \<longleftrightarrow> (case batch_shape s of (ids, rs, bs, res, n) \<Rightarrow> n = length ids \<and> res = bs
    \<and> (\<forall>i p. bs i = Some p \<longrightarrow> p < length ids \<and> ids ! p = i) \<and> (\<forall>p\<in>set rs. p < length ids))"
  by (simp add: linked_def batch_shape_def cong: conj_cong)

lemma linked_shape: "batch_shape s' = batch_shape s \<Longrightarrow> linked s' = linked s"
  by (simp add: linked_by_shape)

lemma undisturbed_by_ids: "undisturbed s p \<longleftrightarrow> (let ids = map bq_id (bp_heap s)
    in p < length ids \<and> length (filter (\<lambda>q. q = p) (map rn_batch (bp_runs s))) \<le> 1
       \<and> (\<forall>q<length ids. ids ! q = ids ! p \<longrightarrow> q = p))"
  by (auto simp: undisturbed_def runs_of_def filter_map o_def)

lemma undisturbed_shape: "batch_shape s' = batch_shape s \<Longrightarrow> undisturbed s' p = undisturbed s p"
  by (simp add: undisturbed_by_ids batch_shape_def)

lemma linked_lookup: "linked s \<Longrightarrow> bp_results s i = Some q \<Longrightarrow> q < length (bp_heap s) \<and> q < length (bp_responses s) \<and> bq_id (bp_heap s ! q) = i"
  by (auto simp: linked_def)

lemma linked_run: "linked s \<Longrightarrow> k < length (bp_runs s) \<Longrightarrow> rn_batch (bp_runs s ! k) < length (bp_heap s)"
  by (simp add: linked_def)

text \<open>Cancelling changes statuses only, and not that of a batch that completed.\<close>

definition same_work :: "batch_processor \<Rightarrow> batch_processor \<Rightarrow> bool" where
  "same_work s' s \<longleftrightarrow> batch_shape s' = batch_shape s \<and> bp_runs s' = bp_runs s
     \<and> (\<forall>p. length (bq_requests (bp_heap s' ! p)) = length (bq_requests (bp_heap s ! p)))
     \<and> (\<forall>p. bs_results (bp_responses s' ! p) = bs_results (bp_responses s ! p) \<and> bs_total (bp_responses s' ! p) = bs_total (bp_responses s ! p)
          \<and> bs_succeeded (bp_responses s' ! p) = bs_succeeded (bp_responses s ! p)
          \<and> bs_failed (bp_responses s' ! p) = bs_failed (bp_responses s ! p))"

lemma same_work_kept:
  assumes "same_work s' s" "undisturbed s' p \<Longrightarrow> run_kept s p"
    "undisturbed s' p \<Longrightarrow> settled (bp_heap s ! p) (bp_responses s ! p) \<Longrightarrow> settled (bp_heap s' ! p) (bp_responses s' ! p)"
  shows "undisturbed s' p \<Longrightarrow> run_kept s' p"
proof -
  assume u: "undisturbed s' p"
  have runs: "runs_of s' p = runs_of s p" using assms(1) by (simp add: same_work_def runs_of_def)
  have len: "length (bq_requests (bp_heap s' ! p)) = length (bq_requests (bp_heap s ! p))"
    using assms(1) by (simp add: same_work_def)
  have tally: "tallied n W (bp_responses s' ! p) = tallied n W (bp_responses s ! p)" for n W
    using assms(1) by (intro tallied_cong) (simp_all add: same_work_def)
  from assms(2) [OF u] have kept: "tallied (length (bq_requests (bp_heap s ! p))) (open_requests s p) (bp_responses s ! p)"
    "map rn_phase (runs_of s p) = [Returned] \<Longrightarrow> settled (bp_heap s ! p) (bp_responses s ! p)"
    by (simp_all add: run_kept_def)
  have "open_requests s' p = open_requests s p" by (simp only: open_requests_def runs len)
  with kept assms(3) [OF u] show ?thesis
    unfolding run_kept_def runs len tally by simp
qed

lemma cancel_both_inv:
  assumes inv: "batch_inv s" and p: "bp_batches s i = Some p"
    and st: "bq_status (bp_heap s ! p) \<noteq> BatchComplete" "bq_status (bp_heap s ! p) \<noteq> BatchCancelled"
  shows "batch_inv (cancel_both now i p s)"
proof -
  from inv have l: "linked s" by (simp add: batch_inv_def)
  with p have q: "bp_results s i = Some p" "p < length (bp_heap s)" "p < length (bp_responses s)"
    by (auto simp: linked_def)
  let ?s = "cancel_both now i p s"
  from q have s: "?s = put_response p (\<lambda>r. r\<lparr>bs_status := BatchCancelled, bs_completed_at := Some now\<rparr>)
      (put_batch p (\<lambda>b. b\<lparr>bq_status := BatchCancelled, bq_completed_at := Some now\<rparr>) s)"
    by (simp add: cancel_both_def)
  have work: "same_work ?s s"
    unfolding s same_work_def using q by (auto simp: nth_list_update)
  have "settled (bp_heap ?s ! j) (bp_responses ?s ! j)" if "settled (bp_heap s ! j) (bp_responses s ! j)" for j
  proof (cases "j = p")
    case True
    have "final_status (bp_responses ?s ! p) = final_status (bp_responses s ! p)"
      using work by (simp add: final_status_def same_work_def)
    with True that st q show ?thesis by (auto simp: settled_def s)
  qed (use that in \<open>simp add: s\<close>)
  moreover have "undisturbed ?s j \<longleftrightarrow> undisturbed s j" "linked ?s \<longleftrightarrow> linked s" for j
    using work undisturbed_shape [of ?s s] linked_shape [of ?s s] unfolding same_work_def by blast+
  ultimately have keep: "\<And>j. settled (bp_heap s ! j) (bp_responses s ! j) \<Longrightarrow> settled (bp_heap ?s ! j) (bp_responses ?s ! j)"
    "\<And>j. undisturbed ?s j \<longleftrightarrow> undisturbed s j" "linked ?s \<longleftrightarrow> linked s" by blast+
  show ?thesis
    unfolding batch_inv_def
  proof (intro conjI allI impI)
    show "linked ?s" using keep l by simp
    fix j assume j: "undisturbed ?s j"
    then have "run_kept s j" using inv keep by (simp add: batch_inv_def)
    from same_work_kept [OF work this keep(1) j] show "run_kept ?s j" .
  qed
qed

lemma batch_inv_stats [simp]: "batch_inv (put_stats h s) = batch_inv s"
  by (simp add: batch_inv_def linked_def undisturbed_def run_kept_def open_requests_def runs_of_def)

lemma cancel_batch_inv: "cancel_batch now i s = (s', e) \<Longrightarrow> batch_inv s \<Longrightarrow> batch_inv s'"
  by (auto simp: cancel_batch_def Let_def cancel_both_inv split: option.splits if_splits)

lemma cancel_all_inv:
  "batch_inv s \<Longrightarrow> \<forall>(i, p)\<in>set ps. bp_batches s i = Some p \<Longrightarrow> batch_inv (cancel_all now ps s)"
proof (induction now ps s rule: cancel_all.induct)
  case (2 now i p ps s)
  let ?s = "if bq_status (bp_heap s ! p) \<in> {BatchPending, BatchRunning} then cancel_both now (bq_id (bp_heap s ! p)) p s else s"
  have "bq_id (bp_heap s ! p) = i" using 2 by (auto simp: batch_inv_def linked_def)
  then have "batch_inv ?s" using 2 by (auto intro!: cancel_both_inv)
  moreover have "bp_batches ?s = bp_batches s" by (simp add: cancel_both_def Let_def split: option.splits)
  ultimately show ?case using 2 by (auto simp del: insert_iff)
qed simp

lemma batch_shutdown_inv:
  assumes "batch_shutdown ks now s = Some s'" "batch_inv s"
  shows "batch_inv s'"
proof -
  have "batch_inv (s\<lparr>bp_stopped := True\<rparr>)"
    using assms(2) by (simp add: batch_inv_def linked_def undisturbed_def run_kept_def open_requests_def runs_of_def)
  with assms(1) show ?thesis
    by (auto simp: batch_shutdown_def set_visit intro!: cancel_all_inv split: if_splits)
qed

text \<open>A critical section of a run changes its own batch and response only, unless an ID is shared.\<close>

lemma run_step_inv:
  assumes inv: "batch_inv s" and k: "run_at s k ph" and shape: "batch_shape s' = batch_shape s"
    and runs: "bp_runs s' = (bp_runs s)[k := (bp_runs s ! k)\<lparr>rn_phase := ph'\<rparr>]"
    and other: "\<And>j. undisturbed s j \<Longrightarrow> j \<noteq> rn_batch (bp_runs s ! k)
        \<Longrightarrow> bp_heap s' ! j = bp_heap s ! j \<and> bp_responses s' ! j = bp_responses s ! j"
    and own: "\<And>p n n'. p = rn_batch (bp_runs s ! k) \<Longrightarrow> undisturbed s p \<Longrightarrow> n = length (bq_requests (bp_heap s ! p))
        \<Longrightarrow> tallied n (open_in n ph) (bp_responses s ! p) \<Longrightarrow> n' = length (bq_requests (bp_heap s' ! p))
        \<Longrightarrow> tallied n' (open_in n' ph') (bp_responses s' ! p) \<and> (ph' = Returned \<longrightarrow> settled (bp_heap s' ! p) (bp_responses s' ! p))"
  shows "batch_inv s'"
  unfolding batch_inv_def
proof (intro conjI allI impI)
  show "linked s'" using inv linked_shape [OF shape] by (simp add: batch_inv_def)
  fix j assume "undisturbed s' j"
  then have j: "undisturbed s j" by (simp add: undisturbed_shape [OF shape])
  then have kept: "run_kept s j" using inv by (simp add: batch_inv_def)
  let ?put = "put_run k ph' s"
  have r: "runs_of s' j = runs_of ?put j" by (simp add: runs_of_def runs)
  show "run_kept s' j"
  proof (cases "j = rn_batch (bp_runs s ! k)")
    case False
    then have "runs_of s' j = runs_of s j" using r runs_of_put_other [of s k j ph'] by simp
    with kept other [OF j False] show ?thesis by (simp add: run_kept_def open_requests_def)
  next
    case True
    have "k < length (bp_runs s)" using k by (simp add: run_at_def)
    moreover have "length (runs_of s j) \<le> 1" using j unfolding undisturbed_def by blast
    ultimately have "runs_of s j = [bp_runs s ! k]" and r': "runs_of s' j = [(bp_runs s ! k)\<lparr>rn_phase := ph'\<rparr>]"
      using runs_of_put_only [OF _ _ True [symmetric]] r by metis+
    with kept k have "tallied (length (bq_requests (bp_heap s ! j))) (open_in (length (bq_requests (bp_heap s ! j))) ph) (bp_responses s ! j)"
      by (simp add: run_kept_def open_requests_def run_at_def)
    from own [OF True j refl this refl] r' show ?thesis by (simp add: run_kept_def open_requests_def)
  qed
qed

lemma response_of_run:
  assumes "batch_inv s" "run_at s k ph" "bp_results s (bq_id (bp_heap s ! rn_batch (bp_runs s ! k))) = Some q"
  shows "q < length (bp_responses s)" "rn_batch (bp_runs s ! k) < length (bp_heap s)"
    "undisturbed s j \<Longrightarrow> j = rn_batch (bp_runs s ! k) \<Longrightarrow> q = j"
    "undisturbed s j \<Longrightarrow> j \<noteq> rn_batch (bp_runs s ! k) \<Longrightarrow> q \<noteq> j"
proof -
  let ?p = "rn_batch (bp_runs s ! k)"
  from assms have l: "linked s" "k < length (bp_runs s)" by (simp_all add: batch_inv_def run_at_def)
  then show p: "?p < length (bp_heap s)" by (rule linked_run)
  from linked_lookup [OF l(1) assms(3)] have q: "q < length (bp_heap s)" "q < length (bp_responses s)"
    "bq_id (bp_heap s ! q) = bq_id (bp_heap s ! ?p)" by simp_all
  show "q < length (bp_responses s)" by (rule q)
  assume "undisturbed s j"
  then have "\<forall>i<length (bp_heap s). bq_id (bp_heap s ! i) = bq_id (bp_heap s ! j) \<longrightarrow> i = j" by (simp add: undisturbed_def)
  with p q show "j = ?p \<Longrightarrow> q = j" "j \<noteq> ?p \<Longrightarrow> q \<noteq> j" by metis+
qed

lemma start_batch_inv:
  assumes "batch_inv s" "run_at s k Spawned" "start_batch now st k s = Some s'"
  shows "batch_inv s'"
proof -
  let ?p = "rn_batch (bp_runs s ! k)"
  have p: "?p < length (bp_heap s)" using assms(1,2) linked_run by (auto simp: batch_inv_def run_at_def)
  from assms(3) p obtain q where q: "bp_results s (bq_id (bp_heap s ! ?p)) = Some q"
    and s': "s' = put_run k (Executing st [0..<length (bq_requests (bp_heap s ! ?p))] [])
        (put_stats (\<lambda>t. t\<lparr>bt_queued := bt_queued t - 1\<rparr>) (put_response q (\<lambda>r. r\<lparr>bs_status := BatchRunning\<rparr>)
          (put_batch ?p (\<lambda>b. b\<lparr>bq_status := BatchRunning, bq_started_at := Some now\<rparr>) s)))"
    by (auto simp: start_batch_def Let_def split: option.splits)
  note resp = response_of_run [OF assms(1,2) q]
  show ?thesis
  proof (rule run_step_inv [OF assms(1,2)])
    show "bp_runs s' = (bp_runs s)[k := (bp_runs s ! k)\<lparr>rn_phase := Executing st [0..<length (bq_requests (bp_heap s ! ?p))] []\<rparr>]"
      by (simp add: s')
    fix i n n' assume i: "i = ?p" "undisturbed s i" "n = length (bq_requests (bp_heap s ! i))"
      "tallied n (open_in n Spawned) (bp_responses s ! i)" "n' = length (bq_requests (bp_heap s' ! i))"
    have "q = i" using resp(3) [OF i(2,1)] .
    then have "bp_responses s' ! i = (bp_responses s ! i)\<lparr>bs_status := BatchRunning\<rparr>" using resp(1) by (simp add: s')
    moreover have "n' = n" using i(1,3,5) p by (simp add: s')
    moreover have "open_in n (Executing st [0..<length (bq_requests (bp_heap s ! ?p))] []) = open_in n Spawned"
      using i(1,3) by (simp add: atLeast0LessThan)
    ultimately show "tallied n' (open_in n' (Executing st [0..<length (bq_requests (bp_heap s ! ?p))] [])) (bp_responses s' ! i)
        \<and> (Executing st [0..<length (bq_requests (bp_heap s ! ?p))] [] = Returned \<longrightarrow> settled (bp_heap s' ! i) (bp_responses s' ! i))"
      using i(4) tallied_cong [of "bp_responses s' ! i" "bp_responses s ! i"] by simp
  qed (use resp(4) in \<open>simp_all add: s'\<close>)
qed

lemma begin_request_inv:
  assumes "batch_inv s" "run_at s k (Executing st waiting active)" "i \<in> set waiting" "distinct waiting"
  shows "batch_inv (begin_request new_id k i s)"
proof -
  let ?p = "rn_batch (bp_runs s ! k)"
  let ?a = "(i, rq_id (bq_requests (bp_heap s ! ?p) ! i)) # active"
  have p: "?p < length (bp_heap s)" using assms(1,2) linked_run by (auto simp: batch_inv_def run_at_def)
  have "insert i (set (remove1 i waiting) \<union> fst ` set active) = set waiting \<union> fst ` set active"
    using assms(3,4) by auto
  with p assms(2) show ?thesis
    by (intro run_step_inv [OF assms(1,2), of _ "Executing st (remove1 i waiting) ?a"])
      (auto simp: begin_request_def Let_def run_at_def)
qed

lemma end_request_inv:
  assumes inv: "batch_inv s" and k: "run_at s k (Executing st waiting active)" and i: "i \<in> fst ` set active" "i \<notin> set waiting"
    and s': "end_request dur answer k i s = Some s'"
  shows "batch_inv s'"
proof -
  let ?p = "rn_batch (bp_runs s ! k)"
  let ?res = "outcome_result (int i) (the (map_of active i)) dur answer"
  let ?ph = "Executing st waiting (filter (\<lambda>(j, _). j \<noteq> i) active)"
  from s' k obtain q h f where q: "bp_results s (bq_id (bp_heap s ! ?p)) = Some q"
    and s': "s' = put_run k ?ph (put_batch ?p (\<lambda>b. b\<lparr>bq_progress := f\<rparr>) (put_stats h (put_response q (record_result i ?res) s)))"
    by (auto simp: end_request_def run_at_def Let_def split: option.splits if_splits)
  note resp = response_of_run [OF inv k q]
  have closed: "open_in n ?ph = open_in n (Executing st waiting active) - {i}" for n
    using i by force
  show ?thesis
  proof (rule run_step_inv [OF inv k])
    show "bp_runs s' = (bp_runs s)[k := (bp_runs s ! k)\<lparr>rn_phase := ?ph\<rparr>]" by (simp add: s')
    fix j n n' assume j: "j = ?p" "undisturbed s j" "n = length (bq_requests (bp_heap s ! j))"
      "tallied n (open_in n (Executing st waiting active)) (bp_responses s ! j)" "n' = length (bq_requests (bp_heap s' ! j))"
    have "bp_responses s' ! j = record_result i ?res (bp_responses s ! j)"
      using resp(3) [OF j(2,1)] resp(1) by (simp add: s')
    moreover have "n' = n" using j(1,3,5) resp(2) by (simp add: s')
    moreover have "tallied n (open_in n (Executing st waiting active) - {i}) (record_result i ?res (bp_responses s ! j))"
      using i(1) by (intro tallied_record [OF j(4)]) (auto simp: outcome_result_def)
    ultimately show "tallied n' (open_in n' ?ph) (bp_responses s' ! j) \<and> (?ph = Returned \<longrightarrow> settled (bp_heap s' ! j) (bp_responses s' ! j))"
      using closed by simp
  qed (use resp(4) in \<open>simp_all add: s'\<close>)
qed

lemma finalize_batch_inv:
  assumes inv: "batch_inv s" and k: "run_at s k (Executing st [] [])" and s': "finalize_batch now k s = Some s'"
  shows "batch_inv s'"
proof -
  let ?p = "rn_batch (bp_runs s ! k)"
  have p: "?p < length (bp_heap s)" using inv k linked_run by (auto simp: batch_inv_def run_at_def)
  from s' k p obtain q where q: "bp_results s (bq_id (bp_heap s ! ?p)) = Some q"
    and s': "s' = (let fs = final_status (bp_responses s ! q) in put_run k Returned (put_stats (finish_stats now fs)
        (put_batch ?p (\<lambda>b. b\<lparr>bq_status := fs\<rparr>)
          (put_response q (\<lambda>r. r\<lparr>bs_duration := time_sub now st, bs_completed_at := Some now, bs_status := fs\<rparr>)
            (put_batch ?p (\<lambda>b. b\<lparr>bq_completed_at := Some now, bq_progress := 100\<rparr>) s)))))"
    by (auto simp: finalize_batch_def run_at_def Let_def split: option.splits if_splits)
  note resp = response_of_run [OF inv k q]
  show ?thesis
  proof (rule run_step_inv [OF inv k])
    show "bp_runs s' = (bp_runs s)[k := (bp_runs s ! k)\<lparr>rn_phase := Returned\<rparr>]" by (simp add: s' Let_def)
    fix j n n' assume j: "j = ?p" "undisturbed s j" "n = length (bq_requests (bp_heap s ! j))"
      "tallied n (open_in n (Executing st [] [])) (bp_responses s ! j)" "n' = length (bq_requests (bp_heap s' ! j))"
    have q: "q = j" using resp(3) [OF j(2,1)] .
    let ?fs = "final_status (bp_responses s ! j)"
    have r: "bp_responses s' ! j = (bp_responses s ! j)\<lparr>bs_duration := time_sub now st, bs_completed_at := Some now, bs_status := ?fs\<rparr>"
      using q resp(1) by (simp add: s' Let_def)
    moreover have "bq_status (bp_heap s' ! j) = ?fs" "n' = n"
      using q j(1,3,5) p by (simp_all add: s' Let_def)
    moreover have "final_status (bp_responses s' ! j) = ?fs" by (simp add: r final_status_def)
    ultimately show "tallied n' (open_in n' Returned) (bp_responses s' ! j) \<and> (Returned = Returned \<longrightarrow> settled (bp_heap s' ! j) (bp_responses s' ! j))"
      using j(4) tallied_cong [of "bp_responses s' ! j" "bp_responses s ! j"] by (simp add: settled_def)
  qed (use resp(4) in \<open>simp_all add: s' Let_def\<close>)
qed

lemma undisturbed_snoc:
  "bp_heap s' = bp_heap s @ bs \<Longrightarrow> bp_runs s' = bp_runs s @ rs \<Longrightarrow> p < length (bp_heap s) \<Longrightarrow> undisturbed s' p \<Longrightarrow> undisturbed s p"
  by (auto simp: undisturbed_def runs_of_def nth_append split: if_splits)

lemma create_batch_inv:
  assumes "create_batch new_id now b s = (s', r)" "batch_inv s"
  shows "batch_inv s'"
proof (cases "validate_batch (bp_config s) b")
  case None
  define b' where "b' = b\<lparr>bq_id := (if bq_id b = [] then new_id else bq_id b), bq_status := BatchPending,
      bq_created_at := now, bq_progress := 0\<rparr>"
  let ?n = "length (bp_heap s)"
  let ?s = "s\<lparr>bp_heap := bp_heap s @ [b'], bp_responses := bp_responses s @ [new_batch_response now b'],
      bp_batches := (bp_batches s)(bq_id b' \<mapsto> ?n), bp_results := (bp_results s)(bq_id b' \<mapsto> ?n)\<rparr>"
  from assms(1) None obtain h where s': "s' = put_stats h ?s"
    by (auto simp: create_batch_def b'_def Let_def)
  from assms(2) have l: "linked s" by (simp add: batch_inv_def)
  have "batch_inv ?s"
    unfolding batch_inv_def
  proof (intro conjI allI impI)
    show "linked ?s" using l by (auto simp: linked_def nth_append less_Suc_eq)
    fix p assume u: "undisturbed ?s p"
    show "run_kept ?s p"
    proof (cases "p < ?n")
      case True
      have "undisturbed s p" by (rule undisturbed_snoc [OF _ _ True u]) simp_all
      then have "run_kept s p" using assms(2) by (simp add: batch_inv_def)
      with True l show ?thesis by (simp add: run_kept_def open_requests_def runs_of_def nth_append linked_def)
    next
      case False
      then have p: "p = ?n" using u by (simp add: undisturbed_def)
      moreover have "runs_of ?s p = []" using l p by (auto simp: runs_of_def linked_def filter_empty_conv)
      ultimately show ?thesis using l tallied_fresh [of b' now] by (simp add: run_kept_def open_requests_def nth_append linked_def)
    qed
  qed
  then show ?thesis by (simp add: s')
qed (use assms in \<open>simp add: create_batch_def\<close>)

lemma process_pending_inv:
  assumes "covers ks (bp_batches s)" "batch_inv s"
  shows "batch_inv (process_pending_batches ks s)"
proof -
  from assms(2) have l: "linked s" by (simp add: batch_inv_def)
  have spawn: "batch_inv (s\<lparr>bp_runs := bp_runs s @ rs\<rparr>)"
    if rs: "\<And>r. r \<in> set rs \<Longrightarrow> rn_phase r = Spawned \<and> rn_batch r < length (bp_heap s)" for rs
    unfolding batch_inv_def
  proof (intro conjI allI impI)
    let ?s = "s\<lparr>bp_runs := bp_runs s @ rs\<rparr>"
    show "linked ?s" using l rs by (auto simp: linked_def)
    fix p assume u: "undisturbed ?s p"
    have "undisturbed s p" by (rule undisturbed_snoc [OF _ _ _ u]) (use u in \<open>auto simp: undisturbed_def\<close>)
    then have kept: "run_kept s p" using assms(2) by (simp add: batch_inv_def)
    let ?new = "filter (\<lambda>r. rn_batch r = p) rs"
    have all: "runs_of ?s p = runs_of s p @ ?new" by (simp add: runs_of_def)
    show "run_kept ?s p"
    proof (cases ?new)
      case Nil
      with kept all show ?thesis by (simp add: run_kept_def open_requests_def)
    next
      case (Cons r xs)
      then have "r \<in> set rs" by (metis filter_is_subset list.set_intros(1) subsetD)
      moreover have "runs_of s p = []" "xs = []" using u all Cons by (auto simp: undisturbed_def)
      ultimately show ?thesis using kept all Cons rs by (simp add: run_kept_def open_requests_def)
    qed
  qed
  have "set (with_status BatchPending ks s) \<subseteq> {p. p < length (bp_heap s)}"
    using l by (auto simp: with_status_def set_visit linked_def)
  with assms(2) show ?thesis
    by (auto simp: process_pending_batches_def Let_def intro!: spawn dest: spawn_loop_spawned)
qed

lemma cleanup_inv: "batch_inv s \<Longrightarrow> batch_inv (cleanup_old_batches max_age now s)"
proof -
  assume inv: "batch_inv s"
  let ?s = "cleanup_old_batches max_age now s"
  have same: "bp_heap ?s = bp_heap s" "bp_responses ?s = bp_responses s" "bp_runs ?s = bp_runs s"
    by (simp_all add: cleanup_old_batches_def Let_def)
  have "linked ?s" using inv by (auto simp: batch_inv_def linked_def cleanup_old_batches_def Let_def split: if_splits)
  moreover have "undisturbed ?s p = undisturbed s p" "run_kept ?s p = run_kept s p" for p
    by (simp_all only: undisturbed_by_ids run_kept_def open_requests_def runs_of_def same)
  ultimately show ?thesis using inv by (simp add: batch_inv_def)
qed

lemma batch_step_inv: "batch_step s s' \<Longrightarrow> \<forall>r\<in>set (bp_runs s). run_ok r \<Longrightarrow> batch_inv s \<Longrightarrow> batch_inv s'"
proof (induction rule: batch_step.induct)
  case (begin_req s k st waiting active i new_id)
  show ?case
    by (rule begin_request_inv [OF begin_req.prems(2) begin_req.hyps(1,2) run_ok_executing(1) [OF begin_req.hyps(1) begin_req.prems(1)]])
next
  case (end_req s k st waiting active i dur answer s')
  from end_req.hyps(2) obtain b where "(i, b) \<in> set active" by auto
  with run_ok_executing(3) [OF end_req.hyps(1) end_req.prems(1)] have "i \<notin> set waiting" .
  with end_req show ?case by (intro end_request_inv [OF end_req.prems(2) end_req.hyps(1,2) _ end_req.hyps(3)])
qed (blast intro: create_batch_inv cancel_batch_inv process_pending_inv start_batch_inv finalize_batch_inv cleanup_inv
    batch_shutdown_inv)+

lemma batch_inv_reachable: "batch_reachable cfg s \<Longrightarrow> batch_inv s"
  unfolding batch_reachable_def
proof clarify
  fix now assume "batch_step\<^sup>*\<^sup>* (new_batch_processor now (Some cfg)) s"
  then show "batch_inv s"
  proof (induction rule: rtranclp_induct)
    case base
    show ?case by (simp add: new_batch_processor_def batch_inv_def linked_def undisturbed_def)
  next
    case (step s s')
    then have "batch_reachable cfg s" by (auto simp: batch_reachable_def)
    with step runs_ok_reachable show ?case by (blast intro: batch_step_inv)
  qed
qed

text \<open>C9: what a run leaves behind. In every interleaving, a batch that shares its ID with no other and has been run
  once, to the end, has a result for every request under its index, counts of successes and failures that are
  those of the results and add up to the number of requests, and the status they imply: complete when every request
  succeeded, failed when requests failed and none succeeded, partial otherwise; a batch of which a request failed may
  instead have been cancelled and is then left so. The status is that of its response.\<close>

theorem batch_run_complete:
  assumes "batch_reachable cfg s" "undisturbed s p" "map rn_phase (runs_of s p) = [Returned]"
  defines "b \<equiv> bp_heap s ! p" and "r \<equiv> bp_responses s ! p"
  shows "length (bs_results r) = length (bq_requests b) \<and> bs_total r = int (length (bq_requests b))
    \<and> (\<forall>i\<in>{..<length (bq_requests b)}. br_index (bs_results r ! i) = int i)
    \<and> bs_succeeded r = int (card {i. i < length (bq_requests b) \<and> br_success (bs_results r ! i)})
    \<and> bs_failed r = int (card {i. i < length (bq_requests b) \<and> \<not> br_success (bs_results r ! i)})
    \<and> bs_succeeded r + bs_failed r = bs_total r
    \<and> bq_status b = bs_status r \<and> bq_status b \<noteq> BatchPending \<and> bq_status b \<noteq> BatchRunning
    \<and> (bq_status b = BatchComplete \<longleftrightarrow> (\<forall>i\<in>{..<length (bq_requests b)}. br_success (bs_results r ! i)))
    \<and> (bq_status b = (if bs_succeeded r = bs_total r then BatchComplete
         else if bs_succeeded r = 0 then BatchFailed else BatchPartial)
       \<or> bq_status b = BatchCancelled \<and> bs_succeeded r \<noteq> bs_total r)"
proof -
  let ?n = "length (bq_requests b)"
  from batch_inv_reachable [OF assms(1)] assms(2) have "run_kept s p" by (simp add: batch_inv_def)
  with assms(3) have t: "tallied ?n {} r" and st: "settled b r"
    by (auto simp: run_kept_def open_requests_def b_def r_def split: list.splits)
  from t have c: "bs_succeeded r = int (card {i. i < ?n \<and> br_success (bs_results r ! i)})"
    "bs_failed r = int (card {i. i < ?n \<and> \<not> br_success (bs_results r ! i)})" by (simp_all add: tallied_def)
  have "{..<?n} = {i. i < ?n \<and> br_success (bs_results r ! i)} \<union> {i. i < ?n \<and> \<not> br_success (bs_results r ! i)}" by auto
  then have "card {..<?n} = card {i. i < ?n \<and> br_success (bs_results r ! i)} + card {i. i < ?n \<and> \<not> br_success (bs_results r ! i)}"
    by (metis (no_types, lifting) card_Un_disjoint disjoint_iff finite_Un finite_lessThan mem_Collect_eq)
  with c have sum: "bs_succeeded r + bs_failed r = int ?n" by simp
  have "bs_failed r = 0 \<longleftrightarrow> (\<forall>i<?n. br_success (bs_results r ! i))" by (simp add: c(2))
  then have "final_status r = BatchComplete \<longleftrightarrow> (\<forall>i<?n. br_success (bs_results r ! i))" by (simp add: final_status_def)
  with st have "bq_status b = BatchComplete \<longleftrightarrow> (\<forall>i<?n. br_success (bs_results r ! i))" by (auto simp: settled_def)
  moreover have "bq_status b = bs_status r \<and> bq_status b \<noteq> BatchPending \<and> bq_status b \<noteq> BatchRunning"
    using st by (auto simp: settled_def final_status_def split: if_splits)
  moreover have "bs_failed r = 0 \<longleftrightarrow> bs_succeeded r = bs_total r" using t sum by (simp only: tallied_def) linarith
  then have "bq_status b = (if bs_succeeded r = bs_total r then BatchComplete
        else if bs_succeeded r = 0 then BatchFailed else BatchPartial)
      \<or> bq_status b = BatchCancelled \<and> bs_succeeded r \<noteq> bs_total r"
    using st unfolding settled_def final_status_def by (auto split: if_splits)
  moreover have "length (bs_results r) = ?n" "bs_total r = int ?n" "\<forall>i\<in>{..<?n}. br_index (bs_results r ! i) = int i"
    using t by (simp_all add: tallied_def)
  moreover from this have "bs_succeeded r + bs_failed r = bs_total r" using sum by simp
  ultimately show ?thesis using c by blast
qed

section \<open>The limit on running batches\<close>

text \<open>
  The background loop counts the batches whose status is running, but a batch gets that status only when its
  goroutine first runs. The limit holds when every tick that starts batches finds none it started earlier still
  waiting to run.
\<close>

definition prompt_step :: "batch_processor \<Rightarrow> batch_processor \<Rightarrow> bool" where
  "prompt_step s s' \<longleftrightarrow> batch_step s s'
     \<and> (length (bp_runs s) < length (bp_runs s') \<longrightarrow> (\<forall>r\<in>set (bp_runs s). rn_phase r \<noteq> Spawned))"

definition running_batches :: "batch_processor \<Rightarrow> nat set" where
  "running_batches s = {p. p \<in> ran (bp_batches s) \<and> bq_status (bp_heap s ! p) = BatchRunning}"

definition waiting_runs :: "batch_processor \<Rightarrow> nat" where
  "waiting_runs s = length (filter (\<lambda>r. rn_phase r = Spawned) (bp_runs s))"

definition within_limit :: "batch_processor \<Rightarrow> bool" where
  "within_limit s \<longleftrightarrow> int (card (running_batches s) + waiting_runs s) \<le> max 0 (bc_max_concurrent (bp_config s))"

lemma running_finite: "linked s \<Longrightarrow> finite (running_batches s)"
  by (rule finite_subset [of _ "{..<length (bp_heap s)}"]) (auto simp: running_batches_def linked_def ran_def)

lemma with_status_count:
  assumes "linked s" "covers ks (bp_batches s)"
  shows "length (with_status BatchRunning ks s) = card (running_batches s)"
proof -
  have keys: "map (\<lambda>p. bq_id (bp_heap s ! p)) (map snd (visit ks (bp_batches s))) = map fst (visit ks (bp_batches s))"
    using assms by (auto simp: set_visit linked_def)
  then have "distinct (map snd (visit ks (bp_batches s)))"
    using visit_keys_dom [OF assms(2)] by (metis distinct_map)
  then have "distinct (with_status BatchRunning ks s)" by (simp add: with_status_def)
  moreover have "set (with_status BatchRunning ks s) = running_batches s"
    using assms(2) by (force simp: with_status_def running_batches_def set_visit covers_def ran_def)
  ultimately show ?thesis by (metis distinct_card)
qed

lemma within_limit_mono:
  assumes "linked s" "within_limit s" "running_batches s' \<subseteq> running_batches s" "waiting_runs s' \<le> waiting_runs s" "bp_config s' = bp_config s"
  shows "within_limit s'"
  using assms card_mono [OF running_finite [OF assms(1)] assms(3)] by (simp add: within_limit_def)

lemma filter_update_count: "k < length xs \<Longrightarrow> length (filter P (xs[k := x])) + (if P (xs ! k) then 1 else 0)
    = length (filter P xs) + (if P x then 1 else 0)"
proof (induction xs arbitrary: k)
  case (Cons y ys)
  then show ?case by (cases k) (use Cons.IH [of "k - 1"] in auto)
qed simp

lemma waiting_put_run:
  "run_at s k ph \<Longrightarrow> bp_runs s' = (bp_runs s)[k := (bp_runs s ! k)\<lparr>rn_phase := ph'\<rparr>]
    \<Longrightarrow> waiting_runs s' + (if ph = Spawned then 1 else 0) = waiting_runs s + (if ph' = Spawned then 1 else 0)"
  using filter_update_count [of k "bp_runs s" "\<lambda>r. rn_phase r = Spawned" "(bp_runs s ! k)\<lparr>rn_phase := ph'\<rparr>"]
  by (simp add: waiting_runs_def run_at_def)

lemma spawn_loop_length: "int (length (spawn_loop limit active ps)) \<le> max 0 (limit - active)"
  by (induction limit active ps rule: spawn_loop.induct) auto

lemma nth_update_if: "xs[p := x] ! j = (if p = j \<and> p < length xs then x else xs ! j)"
  by (cases "p < length xs") (auto simp: nth_list_update list_update_beyond)

lemma cancel_both_running: "running_batches (cancel_both now i p s) \<subseteq> running_batches s"
proof -
  have "bp_heap (cancel_both now i p s) = (bp_heap s)[p := (bp_heap s ! p)\<lparr>bq_status := BatchCancelled, bq_completed_at := Some now\<rparr>]"
    "bp_batches (cancel_both now i p s) = bp_batches s"
    by (simp_all add: cancel_both_def Let_def split: option.splits)
  then show ?thesis
    by (auto simp: running_batches_def nth_update_if split: if_splits)
qed

lemma cancel_all_running: "running_batches (cancel_all now ps s) \<subseteq> running_batches s"
proof (induction now ps s rule: cancel_all.induct)
  case (2 now i p ps s)
  then show ?case
    using cancel_both_running [of now "bq_id (bp_heap s ! p)" p s] by (simp del: insert_iff split: if_splits)
qed simp

lemma put_running:
  "(\<And>b. bq_status (f b) = bq_status b) \<Longrightarrow> running_batches (put_batch p f s) = running_batches s"
  "running_batches (put_response p g s) = running_batches s" "running_batches (put_stats h s) = running_batches s"
  "running_batches (put_run k ph s) = running_batches s"
  by (auto simp: running_batches_def nth_update_if split: if_splits)

lemma cancel_running:
  assumes "cancel_batch now i s = (s', e)"
  shows "running_batches s' \<subseteq> running_batches s" "bp_runs s' = bp_runs s" "bp_config s' = bp_config s"
proof -
  have frame: "bp_runs (cancel_both now i p s) = bp_runs s" "bp_config (cancel_both now i p s) = bp_config s" for p
    by (simp_all add: cancel_both_def Let_def split: option.splits)
  from assms show "running_batches s' \<subseteq> running_batches s"
    using cancel_both_running [THEN subsetD] by (auto simp: cancel_batch_def Let_def put_running split: option.splits if_splits)
  from assms show "bp_runs s' = bp_runs s" "bp_config s' = bp_config s"
    by (auto simp: cancel_batch_def Let_def frame split: option.splits if_splits)
qed

lemma start_running: "start_batch now st k s = Some s' \<Longrightarrow> running_batches s' \<subseteq> insert (rn_batch (bp_runs s ! k)) (running_batches s)"
  by (auto simp: start_batch_def Let_def running_batches_def nth_update_if split: option.splits if_splits)

lemma start_effect: "start_batch now st k s = Some s' \<Longrightarrow> \<exists>n. bp_config s' = bp_config s
    \<and> bp_runs s' = (bp_runs s)[k := (bp_runs s ! k)\<lparr>rn_phase := Executing st [0..<n] []\<rparr>]"
  unfolding start_batch_def Let_def by (clarsimp split: option.splits) blast

lemma finalize_running: "finalize_batch now k s = Some s' \<Longrightarrow> running_batches s' \<subseteq> running_batches s"
  by (auto simp: finalize_batch_def Let_def running_batches_def nth_update_if final_status_def
      split: run_phase.splits option.splits if_splits)

lemma tick_within:
  assumes l: "linked s" and lim: "within_limit s" and cov: "covers ks (bp_batches s)"
    and prompt: "length (bp_runs s) < length (bp_runs (process_pending_batches ks s)) \<longrightarrow> (\<forall>r\<in>set (bp_runs s). rn_phase r \<noteq> Spawned)"
  shows "within_limit (process_pending_batches ks s)"
proof (cases "length (bp_runs s) < length (bp_runs (process_pending_batches ks s))")
  case True
  then have w: "waiting_runs s = 0" using prompt by (simp add: waiting_runs_def filter_empty_conv)
  let ?lim = "bc_max_concurrent (bp_config s)" and ?act = "int (card (running_batches s))"
  let ?new = "spawn_loop ?lim ?act (with_status BatchPending ks s)"
  have "length (filter (\<lambda>r. rn_phase r = Spawned) ?new) = length ?new"
    by (simp add: spawn_loop_spawned filter_True)
  moreover from True with_status_count [OF l cov]
  have "process_pending_batches ks s = s\<lparr>bp_runs := bp_runs s @ ?new\<rparr>" "?act < ?lim"
    by (auto simp: process_pending_batches_def Let_def split: if_splits)
  ultimately show ?thesis using spawn_loop_length [of ?lim ?act "with_status BatchPending ks s"] w
    by (simp add: within_limit_def waiting_runs_def running_batches_def)
next
  case False
  then have "process_pending_batches ks s = s" by (auto simp: process_pending_batches_def Let_def)
  with lim show ?thesis by simp
qed

lemma prompt_within:
  assumes "prompt_step s s'" "linked s" "within_limit s"
  shows "within_limit s'"
proof -
  note mono = within_limit_mono [OF assms(2,3)]
  from assms(1) have "batch_step s s'" by (simp add: prompt_step_def)
  then show ?thesis
  proof cases
    case (create new_id now b r)
    then have "running_batches s' \<subseteq> running_batches s"
      using assms(2) by (auto simp: create_batch_def Let_def running_batches_def ran_def nth_append linked_def split: option.splits if_splits)
    with create show ?thesis
      by (intro mono) (auto simp: waiting_runs_def create_batch_def Let_def split: option.splits)
  next
    case (cancel now i e)
    from cancel_running [OF this] show ?thesis by (intro mono) (simp_all add: waiting_runs_def)
  next
    case (tick ks)
    with tick_within assms show ?thesis by (auto simp: prompt_step_def)
  next
    case (start k now st)
    from start_effect [OF start(2)] obtain n where r: "bp_config s' = bp_config s"
      "bp_runs s' = (bp_runs s)[k := (bp_runs s ! k)\<lparr>rn_phase := Executing st [0..<n] []\<rparr>]" by blast
    from waiting_put_run [OF start(1) r(2)] have "waiting_runs s' + 1 = waiting_runs s" by simp
    moreover have "card (running_batches s') \<le> Suc (card (running_batches s))"
      using card_mono [OF _ start_running [OF start(2)]] running_finite [OF assms(2)] by (simp add: card_insert_if split: if_splits)
    ultimately show ?thesis using assms(3) r(1) by (simp add: within_limit_def)
  next
    case (begin_req k st waiting active i new_id)
    then have r: "bp_runs s' = (bp_runs s)[k := (bp_runs s ! k)\<lparr>rn_phase := Executing st (remove1 i waiting)
        ((i, rq_id (bq_requests (bp_heap s ! rn_batch (bp_runs s ! k)) ! i)) # active)\<rparr>]"
      by (simp add: begin_request_def run_at_def Let_def)
    from begin_req waiting_put_run [OF begin_req(2) r] show ?thesis
      by (intro mono) (auto simp: begin_request_def run_at_def Let_def put_running)
  next
    case (end_req k st waiting active i dur answer)
    then have r: "bp_runs s' = (bp_runs s)[k := (bp_runs s ! k)\<lparr>rn_phase := Executing st waiting (filter (\<lambda>(j, _). j \<noteq> i) active)\<rparr>]"
      by (auto simp: end_request_def run_at_def Let_def split: option.splits if_splits)
    from end_req waiting_put_run [OF end_req(1) r] show ?thesis
      by (intro mono) (auto simp: end_request_def run_at_def Let_def put_running split: option.splits if_splits)
  next
    case (finalize k st now)
    then have r: "bp_runs s' = (bp_runs s)[k := (bp_runs s ! k)\<lparr>rn_phase := Returned\<rparr>]" "bp_config s' = bp_config s"
      by (auto simp: finalize_batch_def run_at_def Let_def split: option.splits)
    from waiting_put_run [OF finalize(1) r(1)] r(2) finalize_running [OF finalize(2)] show ?thesis
      by (intro mono) auto
  next
    case (cleanup max_age now)
    then show ?thesis
      by (intro mono) (auto simp: waiting_runs_def running_batches_def ran_def cleanup_old_batches_def Let_def split: if_splits)
  next
    case (shutdown ks now)
    then show ?thesis
      using cancel_all_running [of now "visit ks (bp_batches s)" "s\<lparr>bp_stopped := True\<rparr>"]
      by (intro mono) (auto simp: waiting_runs_def batch_shutdown_def running_batches_def split: if_splits)
  qed
qed

lemma step_config: "batch_step s s' \<Longrightarrow> bp_config s' = bp_config s"
proof (induction rule: batch_step.induct)
  case (create new_id now b s s' r)
  then show ?case by (auto simp: create_batch_def Let_def split: option.splits)
next
  case (cancel now i s s' e)
  then show ?case by (rule cancel_running(3))
next
  case (start s k now st s')
  then show ?case using start_effect by blast
next
  case (begin_req s k st waiting active i new_id)
  then show ?case by (simp add: begin_request_def Let_def run_at_def)
next
  case (end_req s k st waiting active i dur answer s')
  then show ?case by (auto simp: end_request_def Let_def run_at_def split: option.splits if_splits)
next
  case (finalize s k st now s')
  then show ?case by (auto simp: finalize_batch_def Let_def run_at_def split: option.splits)
qed (auto simp: process_pending_batches_def cleanup_old_batches_def batch_shutdown_def Let_def split: if_splits)

text \<open>C10: with prompt goroutines, the batches that run and those about to run are never more than
  \<^verbatim>\<open>MaxConcurrentBatches\<close>.\<close>

theorem running_batches_bounded:
  assumes "prompt_step\<^sup>*\<^sup>* (new_batch_processor now (Some cfg)) s"
  shows "int (card (running_batches s) + waiting_runs s) \<le> max 0 (bc_max_concurrent cfg)"
proof -
  from assms have "batch_reachable cfg s \<and> within_limit s \<and> bp_config s = cfg"
  proof (induction rule: rtranclp_induct)
    case base
    have "running_batches (new_batch_processor now (Some cfg)) = {}" by (simp add: running_batches_def new_batch_processor_def)
    then show ?case by (auto simp: batch_reachable_def within_limit_def waiting_runs_def new_batch_processor_def)
  next
    case (step s s')
    then have r: "batch_reachable cfg s'"
      unfolding batch_reachable_def prompt_step_def by (meson rtranclp.rtrancl_into_rtrancl)
    have "linked s" using step.IH batch_inv_reachable by (auto simp: batch_inv_def)
    with step r show ?case using prompt_within step_config by (auto simp: prompt_step_def)
  qed
  then show ?thesis by (auto simp: within_limit_def)
qed

section \<open>Late goroutines\<close>

definition small_config :: batch_config where
  "small_config = default_batch_config\<lparr>bc_max_concurrent := 1\<rparr>"

definition sample_batch :: "string \<Rightarrow> batch_request" where
  "sample_batch i = \<lparr>bq_id = i, bq_model_id = ''m'', bq_requests = [sample_request ''r''], bq_priority = 5, bq_created_at = 0,
     bq_started_at = None, bq_completed_at = None, bq_status = BatchPending, bq_progress = 0\<rparr>"

lemmas batch_eval = new_batch_processor_def small_config_def default_batch_config_def sample_batch_def sample_request_def
  create_batch_def validate_batch_def new_batch_response_def put_stats_def put_batch_def put_response_def put_run_def
  process_pending_batches_def with_status_def start_batch_def begin_request_def end_request_def finalize_batch_def run_at_def
  outcome_result_def record_result_def batch_semaphore_def final_status_def Let_def covers_def empty_result_def

text \<open>Two batches, and two ticks before the goroutine of the first gets to run.\<close>

definition two_batches :: "batch_processor" where
  "two_batches = fst (create_batch [] 0 (sample_batch ''b'') (fst (create_batch [] 0 (sample_batch ''a'')
     (new_batch_processor 0 (Some small_config)))))"

definition both_spawned :: "string list \<Rightarrow> string list \<Rightarrow> batch_processor" where
  "both_spawned ks ks' = process_pending_batches ks' (process_pending_batches ks two_batches)"

lemma both_spawned_reachable:
  assumes "set ks = {''a'', ''b''}" "distinct ks" "set ks' = {''a'', ''b''}" "distinct ks'"
  shows "batch_reachable small_config (both_spawned ks ks')"
proof -
  let ?s0 = "new_batch_processor 0 (Some small_config)"
  let ?s1 = "fst (create_batch [] 0 (sample_batch ''a'') ?s0)"
  have c: "batch_step s (fst (create_batch i 0 b s))" for s i b by (rule batch_step.create) (rule prod.collapse [symmetric])
  have cov: "covers ks (bp_batches two_batches)" "covers ks' (bp_batches (process_pending_batches ks two_batches))"
    and "\<not> bp_stopped two_batches" "\<not> bp_stopped (process_pending_batches ks two_batches)"
    using assms by (auto simp: covers_def two_batches_def batch_eval)
  then have "batch_step two_batches (process_pending_batches ks two_batches)"
    "batch_step (process_pending_batches ks two_batches) (both_spawned ks ks')"
    unfolding both_spawned_def by (auto intro: batch_step.tick)
  moreover have "batch_step ?s0 ?s1" "batch_step ?s1 two_batches" unfolding two_batches_def by (rule c)+
  ultimately show ?thesis
    unfolding batch_reachable_def by (meson rtranclp.rtrancl_into_rtrancl rtranclp.rtrancl_refl)
qed

lemma reach_start: "batch_reachable cfg s \<Longrightarrow> run_at s k Spawned \<Longrightarrow> start_batch 0 0 k s = Some s' \<Longrightarrow> batch_reachable cfg s'"
  unfolding batch_reachable_def by (meson batch_step.start rtranclp.rtrancl_into_rtrancl)

lemma reach_begin: "batch_reachable cfg s \<Longrightarrow> run_at s k (Executing st w a) \<Longrightarrow> i \<in> set w \<Longrightarrow> length a < batch_semaphore
    \<Longrightarrow> batch_reachable cfg (begin_request [] k i s)"
  unfolding batch_reachable_def by (meson batch_step.begin_req rtranclp.rtrancl_into_rtrancl)

lemma reach_end: "batch_reachable cfg s \<Longrightarrow> run_at s k (Executing st w a) \<Longrightarrow> i \<in> fst ` set a
    \<Longrightarrow> end_request 0 (Inr (sample_response ''r'')) k i s = Some s' \<Longrightarrow> batch_reachable cfg s'"
  unfolding batch_reachable_def by (meson batch_step.end_req rtranclp.rtrancl_into_rtrancl)

text \<open>The limit is not kept when a goroutine is late: with a limit of one, two batches can run at once.\<close>

theorem late_goroutines_exceed_limit:
  "\<exists>s. batch_reachable small_config s \<and> bc_max_concurrent small_config = 1 \<and> card (running_batches s) = 2"
proof -
  let ?s = "both_spawned [''a'', ''b''] [''b'', ''a'']"
  have r: "batch_reachable small_config ?s" by (rule both_spawned_reachable) auto
  obtain s1 where s1: "start_batch 0 0 0 ?s = Some s1"
    by (simp add: both_spawned_def two_batches_def batch_eval)
  have "run_at ?s 0 Spawned" "run_at s1 1 Spawned"
    using s1 by (auto simp: both_spawned_def two_batches_def batch_eval)
  moreover obtain s2 where s2: "start_batch 0 0 1 s1 = Some s2"
    using s1 by (auto simp: both_spawned_def two_batches_def batch_eval)
  ultimately have "batch_reachable small_config s2" using r s1 reach_start by blast
  moreover have "bp_batches s2 = [''a'' \<mapsto> 0, ''b'' \<mapsto> Suc 0]" "bq_status (bp_heap s2 ! 0) = BatchRunning"
      "bq_status (bp_heap s2 ! Suc 0) = BatchRunning"
    using s1 s2 by (auto simp: both_spawned_def two_batches_def batch_eval)
  then have "running_batches s2 = {0, Suc 0}" by (auto simp: running_batches_def ran_map_upd)
  ultimately show ?thesis by (intro exI [of _ s2]) (simp add: small_config_def)
qed

text \<open>The same batch can also be run twice; its one success then counts as two of one.\<close>

lemma late_goroutine_runs_batch_twice:
  "\<exists>s. batch_reachable small_config s \<and> bs_total (bp_responses s ! 0) = 1 \<and> bs_succeeded (bp_responses s ! 0) = 2"
proof -
  let ?s = "both_spawned [''a'', ''b''] [''a'', ''b'']"
  have r: "batch_reachable small_config ?s" by (rule both_spawned_reachable) auto
  obtain s1 where s1: "start_batch 0 0 0 ?s = Some s1"
    by (simp add: both_spawned_def two_batches_def batch_eval)
  obtain s2 where s2: "start_batch 0 0 1 s1 = Some s2"
    using s1 by (auto simp: both_spawned_def two_batches_def batch_eval)
  let ?s3 = "begin_request [] 0 0 s2"
  obtain s4 where s4: "end_request 0 (Inr (sample_response ''r'')) 0 0 ?s3 = Some s4"
    using s1 s2 by (auto simp: both_spawned_def two_batches_def batch_eval)
  let ?s5 = "begin_request [] 1 0 s4"
  obtain s6 where s6: "end_request 0 (Inr (sample_response ''r'')) 1 0 ?s5 = Some s6"
    using s1 s2 s4 by (auto simp: both_spawned_def two_batches_def batch_eval)
  have "run_at ?s 0 Spawned" "run_at s1 1 Spawned" "run_at s2 0 (Executing 0 [0] [])" "run_at ?s3 0 (Executing 0 [] [(0, ''r'')])"
      "run_at s4 1 (Executing 0 [0] [])" "run_at ?s5 1 (Executing 0 [] [(0, ''r'')])"
    using s1 s2 s4 by (auto simp: both_spawned_def two_batches_def batch_eval)
  note at = this
  have "batch_reachable small_config s2" using reach_start [OF reach_start [OF r at(1) s1] at(2) s2] .
  then have "batch_reachable small_config ?s3" by (rule reach_begin [OF _ at(3)]) (simp_all add: batch_semaphore_def)
  then have "batch_reachable small_config s4" by (rule reach_end [OF _ at(4) _ s4]) simp
  then have "batch_reachable small_config ?s5" by (rule reach_begin [OF _ at(5)]) (simp_all add: batch_semaphore_def)
  then have "batch_reachable small_config s6" by (rule reach_end [OF _ at(6) _ s6]) simp
  moreover have "bs_total (bp_responses s6 ! 0) = 1 \<and> bs_succeeded (bp_responses s6 ! 0) = 2"
    using s1 s2 s4 s6 by (auto simp: both_spawned_def two_batches_def batch_eval)
  ultimately show ?thesis by blast
qed

section \<open>Cancelling\<close>

text \<open>
  Cancelling a batch that runs stops nothing: when its run ends, the status is overwritten. And the counter of
  queued batches is not touched, as the status is read after it has been overwritten.
\<close>

lemma finalize_overwrites_cancel:
  assumes "batch_inv s" "run_at s k (Executing st [] [])" "finalize_batch now k s = Some s'"
  shows "bq_status (bp_heap s' ! rn_batch (bp_runs s ! k)) \<noteq> BatchCancelled"
proof -
  have "rn_batch (bp_runs s ! k) < length (bp_heap s)" using assms(1,2) linked_run by (auto simp: batch_inv_def run_at_def)
  with assms(2,3) show ?thesis
    by (auto simp: finalize_batch_def run_at_def Let_def final_status_def split: option.splits if_splits)
qed

lemma cancel_keeps_queue_counter:
  assumes "batch_inv s" "cancel_batch now i s = (s', e)"
  shows "bt_queued (bp_stats s') = bt_queued (bp_stats s)"
  using assms by (auto simp: cancel_batch_def cancel_both_def Let_def batch_inv_def linked_def split: option.splits if_splits)

text \<open>A batch that is cancelled while it runs and then cleaned up makes its next request to finish dereference nil.\<close>

lemma cleanup_of_running_batch_panics:
  assumes "batch_inv s" "run_at s k (Executing st waiting active)" "i \<in> fst ` set active"
    "bp_batches s j = Some (rn_batch (bp_runs s ! k))" "bq_completed_at (bp_heap s ! rn_batch (bp_runs s ! k)) = Some t"
    "t < now - max_age"
  shows "batch_panics (cleanup_old_batches max_age now s)"
proof (rule batch_panics.end_req)
  let ?s = "cleanup_old_batches max_age now s"
  show "run_at ?s k (Executing st waiting active)" using assms(2) by (simp add: run_at_def cleanup_old_batches_def Let_def)
  have "bq_id (bp_heap s ! rn_batch (bp_runs s ! k)) = j" using assms(1,4) by (auto simp: batch_inv_def linked_def)
  then show "end_request 0 answer k i ?s = None" for answer
    using assms by (simp add: end_request_def run_at_def cleanup_old_batches_def Let_def)
qed (rule assms)

section \<open>Grouping requests\<close>

text \<open>Both \<^verbatim>\<open>OptimizeBatch\<close> and the dynamic batcher group requests in a map; \<open>ks\<close> is the order \<^verbatim>\<open>range\<close> visits the groups in.\<close>

definition request_groups :: "(inference_request \<Rightarrow> string) \<Rightarrow> string list \<Rightarrow> inference_request list
    \<Rightarrow> (string \<times> inference_request list) list" where
  "request_groups key ks reqs = visit ks (\<lambda>k. case filter (\<lambda>r. key r = k) reqs of [] \<Rightarrow> None | rs \<Rightarrow> Some rs)"

text \<open>
  The reordered requests of a batch; \<open>show_key\<close> is what \<^verbatim>\<open>Sprintf\<close> makes of the three parameters. The rest of the
  new batch is the ID, model and priority of the old one and zero values.
\<close>

definition optimize_batch :: "(int \<Rightarrow> rat \<Rightarrow> rat \<Rightarrow> string) \<Rightarrow> string list \<Rightarrow> batch_config \<Rightarrow> batch_request \<Rightarrow> inference_request list" where
  "optimize_batch show_key ks cfg b =
     (if \<not> bc_optimize cfg then bq_requests b
      else concat (map snd (request_groups (\<lambda>r. show_key (rq_max_tokens r) (rq_temperature r) (rq_top_p r)) ks (bq_requests b))))"

lemma visit_cong: "(\<And>k. k \<in> set ks \<Longrightarrow> m k = m' k) \<Longrightarrow> visit ks m = visit ks m'"
  by (induction ks) (auto split: option.splits)

lemma mset_groups:
  "distinct ks \<Longrightarrow> key ` set reqs \<subseteq> set ks \<Longrightarrow> mset (concat (map snd (request_groups key ks reqs))) = mset reqs"
proof (induction ks arbitrary: reqs)
  case (Cons k ks)
  let ?rest = "filter (\<lambda>r. key r \<noteq> k) reqs"
  have "filter (\<lambda>r. key r = j) ?rest = filter (\<lambda>r. key r = j) reqs" if "j \<in> set ks" for j
    using that Cons.prems(1) by (auto intro: filter_cong)
  then have "request_groups key ks ?rest = request_groups key ks reqs"
    unfolding request_groups_def by (intro visit_cong) (simp only:)
  moreover have "mset (concat (map snd (request_groups key ks ?rest))) = mset ?rest"
    using Cons.prems by (intro Cons.IH) auto
  moreover have "concat (map snd (request_groups key (k # ks) reqs))
      = filter (\<lambda>r. key r = k) reqs @ concat (map snd (request_groups key ks reqs))"
    by (simp add: request_groups_def split: list.split)
  ultimately show ?case by simp
qed (simp add: request_groups_def)

text \<open>Optimizing a batch reorders its requests, whatever the order of the groups: none is lost and none comes twice.\<close>

theorem optimize_batch_permutes:
  assumes "distinct ks" "(\<lambda>r. show_key (rq_max_tokens r) (rq_temperature r) (rq_top_p r)) ` set (bq_requests b) \<subseteq> set ks"
  shows "mset (optimize_batch show_key ks cfg b) = mset (bq_requests b)"
  using mset_groups [OF assms] by (simp add: optimize_batch_def)

section \<open>The dynamic batcher\<close>

record dynamic_batcher =
  db_config :: batch_config
  db_pending :: "inference_request list"
  db_channel :: "batch_request list"

definition new_dynamic_batcher :: "batch_config \<Rightarrow> dynamic_batcher" where
  "new_dynamic_batcher cfg = \<lparr>db_config = cfg, db_pending = [], db_channel = []\<rparr>"

definition add_request :: "inference_request \<Rightarrow> dynamic_batcher \<Rightarrow> dynamic_batcher" where
  "add_request r db = db\<lparr>db_pending := db_pending db @ [r]\<rparr>"

definition batch_chan_capacity :: nat where
  "batch_chan_capacity = 100"

text \<open>Every batch that is sent removes as many requests from the front of the pending ones as it has.\<close>

definition dynamic_batch :: "string \<Rightarrow> string \<Rightarrow> inference_request list \<Rightarrow> batch_request" where
  "dynamic_batch i m rs = \<lparr>bq_id = i, bq_model_id = m, bq_requests = rs, bq_priority = PriorityNormal, bq_created_at = time_zero,
     bq_started_at = None, bq_completed_at = None, bq_status = BatchPending, bq_progress = 0\<rparr>"

fun send_groups :: "(string \<Rightarrow> string) \<Rightarrow> (string \<times> inference_request list) list \<Rightarrow> dynamic_batcher \<Rightarrow> dynamic_batcher" where
  "send_groups ids [] db = db"
| "send_groups ids ((m, rs) # gs) db =
     (if length (db_channel db) < batch_chan_capacity
      then send_groups ids gs (db\<lparr>db_channel := db_channel db @ [dynamic_batch (ids m) m rs],
             db_pending := drop (length rs) (db_pending db)\<rparr>)
      else db)"

definition create_dynamic_batches :: "(string \<Rightarrow> string) \<Rightarrow> string list \<Rightarrow> dynamic_batcher \<Rightarrow> dynamic_batcher" where
  "create_dynamic_batches ids ks db =
     (if db_pending db = [] then db else send_groups ids (request_groups rq_model_id ks (db_pending db)) db)"

lemma send_groups_room:
  "length (db_channel db) + length gs \<le> batch_chan_capacity
    \<Longrightarrow> db_channel (send_groups ids gs db) = db_channel db @ map (\<lambda>(m, rs). dynamic_batch (ids m) m rs) gs
      \<and> db_pending (send_groups ids gs db) = drop (length (concat (map snd gs))) (db_pending db)"
  by (induction ids gs db rule: send_groups.induct) (auto simp: add.commute)

text \<open>C38: while the channel has room for a batch per model, a tick of the dynamic batcher sends every pending request
  in exactly one batch, together with those of the same model, and leaves none pending.\<close>

theorem dynamic_batches_partition:
  assumes "distinct ks" "rq_model_id ` set (db_pending db) \<subseteq> set ks" "length (db_channel db) + length ks \<le> batch_chan_capacity"
  shows "\<exists>bs. db_channel (create_dynamic_batches ids ks db) = db_channel db @ bs \<and> db_pending (create_dynamic_batches ids ks db) = []
    \<and> mset (concat (map bq_requests bs)) = mset (db_pending db)
    \<and> (\<forall>b\<in>set bs. bq_requests b = filter (\<lambda>r. rq_model_id r = bq_model_id b) (db_pending db))"
proof (cases "db_pending db = []")
  case True
  then show ?thesis by (simp add: create_dynamic_batches_def)
next
  case False
  let ?gs = "request_groups rq_model_id ks (db_pending db)"
  let ?bs = "map (\<lambda>(m, rs). dynamic_batch (ids m) m rs) ?gs"
  have all: "mset (concat (map snd ?gs)) = mset (db_pending db)" by (rule mset_groups [OF assms(1,2)])
  have "length (map fst ?gs) \<le> length ks" unfolding request_groups_def visit_keys by (rule length_filter_le)
  then have room: "length (db_channel db) + length ?gs \<le> batch_chan_capacity" using assms(3) by simp
  have "length (concat (map snd ?gs)) = length (db_pending db)" using all by (metis size_mset)
  with False send_groups_room [OF room, of ids] have "db_channel (create_dynamic_batches ids ks db) = db_channel db @ ?bs"
    "db_pending (create_dynamic_batches ids ks db) = []" by (simp_all add: create_dynamic_batches_def)
  moreover have "map bq_requests ?bs = map snd ?gs" by (simp add: dynamic_batch_def case_prod_unfold)
  then have "mset (concat (map bq_requests ?bs)) = mset (db_pending db)" by (simp only: all)
  moreover have "\<forall>b\<in>set ?bs. bq_requests b = filter (\<lambda>r. rq_model_id r = bq_model_id b) (db_pending db)"
    by (auto simp: request_groups_def set_visit dynamic_batch_def split: list.splits)
  ultimately show ?thesis by blast
qed

text \<open>When the channel fills up between two groups, the requests dropped are not those that were sent.\<close>

lemma dynamic_batches_lose_requests:
  assumes "db_pending db = [r1, r2]" "rq_model_id r1 = m1" "rq_model_id r2 = m2" "m1 \<noteq> m2"
    "Suc (length (db_channel db)) = batch_chan_capacity"
  shows "db_pending (create_dynamic_batches ids [m2, m1] db) = [r2]
    \<and> db_channel (create_dynamic_batches ids [m2, m1] db) = db_channel db @ [dynamic_batch (ids m2) m2 [r2]]"
  using assms by (simp add: create_dynamic_batches_def request_groups_def)

section \<open>Examples\<close>

definition one_spawned :: batch_processor where
  "one_spawned = process_pending_batches [''a''] (fst (create_batch [] 0 (sample_batch ''a'') (new_batch_processor 0 (Some small_config))))"

lemma one_spawned_steps: "prompt_step\<^sup>*\<^sup>* (new_batch_processor 0 (Some small_config)) one_spawned"
proof -
  let ?s0 = "new_batch_processor 0 (Some small_config)"
  let ?s1 = "fst (create_batch [] 0 (sample_batch ''a'') ?s0)"
  have "batch_step ?s0 ?s1" by (rule batch_step.create) (rule prod.collapse [symmetric])
  moreover have "batch_step ?s1 one_spawned"
    unfolding one_spawned_def by (rule batch_step.tick) (auto simp: batch_eval)
  ultimately have "prompt_step ?s0 ?s1" "prompt_step ?s1 one_spawned"
    by (auto simp: prompt_step_def batch_eval)
  then show ?thesis by (meson rtranclp.rtrancl_into_rtrancl rtranclp.rtrancl_refl)
qed

theorem running_batches_bounded_witness: "int (card (running_batches one_spawned) + waiting_runs one_spawned) \<le> 1"
  using running_batches_bounded [OF one_spawned_steps] by (simp add: small_config_def)

theorem batch_run_complete_witness:
  "\<exists>s. batch_reachable small_config s \<and> bq_status (bp_heap s ! 0) = BatchComplete
    \<and> bs_succeeded (bp_responses s ! 0) + bs_failed (bp_responses s ! 0) = 1"
proof -
  let ?s = one_spawned
  have "batch_step\<^sup>*\<^sup>* (new_batch_processor 0 (Some small_config)) ?s"
    using mono_rtranclp [of prompt_step batch_step] one_spawned_steps by (auto simp: prompt_step_def)
  then have r: "batch_reachable small_config ?s" by (auto simp: batch_reachable_def)
  obtain s1 where s1: "start_batch 0 0 0 ?s = Some s1" by (simp add: one_spawned_def batch_eval)
  let ?s2 = "begin_request [] 0 0 s1"
  obtain s3 where s3: "end_request 0 (Inr (sample_response ''r'')) 0 0 ?s2 = Some s3"
    using s1 by (auto simp: one_spawned_def batch_eval)
  obtain s4 where s4: "finalize_batch 0 0 s3 = Some s4"
    using s1 s3 by (auto simp: one_spawned_def batch_eval)
  have at: "run_at ?s 0 Spawned" "run_at s1 0 (Executing 0 [0] [])" "run_at ?s2 0 (Executing 0 [] [(0, ''r'')])"
      "run_at s3 0 (Executing 0 [] [])"
    using s1 s3 by (auto simp: one_spawned_def batch_eval)
  have "batch_reachable small_config s1" by (rule reach_start [OF r at(1) s1])
  then have "batch_reachable small_config ?s2" by (rule reach_begin [OF _ at(2)]) (simp_all add: batch_semaphore_def)
  then have "batch_reachable small_config s3" by (rule reach_end [OF _ at(3) _ s3]) simp
  then have s: "batch_reachable small_config s4"
    unfolding batch_reachable_def by (meson at(4) s4 batch_step.finalize rtranclp.rtrancl_into_rtrancl)
  have "undisturbed s4 0" "map rn_phase (runs_of s4 0) = [Returned]"
    using s1 s3 s4 by (auto simp: one_spawned_def batch_eval undisturbed_def runs_of_def)
  from batch_run_complete [OF s this] have "bs_succeeded (bp_responses s4 ! 0) + bs_failed (bp_responses s4 ! 0) = bs_total (bp_responses s4 ! 0)"
    by blast
  moreover have "bs_total (bp_responses s4 ! 0) = 1" "bq_status (bp_heap s4 ! 0) = BatchComplete"
    using s1 s3 s4 by (auto simp: one_spawned_def batch_eval)
  ultimately show ?thesis using s by auto
qed

theorem optimize_batch_permutes_witness:
  "mset (optimize_batch (\<lambda>_ _ _. ''k'') [''k''] default_batch_config (sample_batch ''a'')) = {#sample_request ''r''#}"
  using optimize_batch_permutes [of "[''k'']" "\<lambda>_ _ _. ''k''" "sample_batch ''a''" default_batch_config]
  by (simp add: sample_batch_def)

theorem dynamic_batches_partition_witness:
  "\<exists>bs. db_channel (create_dynamic_batches (\<lambda>m. m) [''m''] (add_request (sample_request ''r'') (new_dynamic_batcher small_config))) = bs
    \<and> mset (concat (map bq_requests bs)) = {#sample_request ''r''#}"
  using dynamic_batches_partition [of "[''m'']" "add_request (sample_request ''r'') (new_dynamic_batcher small_config)" "\<lambda>m. m"]
  by (auto simp: add_request_def new_dynamic_batcher_def sample_request_def batch_chan_capacity_def)

end
