(* ===== verification/Versions.thy ===== *)
theory Versions
  imports GoStrings "HOL-Library.Product_Lexorder"
begin

text \<open>
  Model versions, \<^verbatim>\<open>models/version.go\<close>: semantic versions with their parser, order and increments, and the
  version manager over its table \<^verbatim>\<open>model_versions\<close>. The fields of a version are non-negative Go ints; increments
  are exact below the largest int.
\<close>

section \<open>Semantic versions\<close>

record semantic_version =
  sv_major :: int
  sv_minor :: int
  sv_patch :: int
  sv_prerelease :: string
  sv_build :: string
  sv_raw :: string

text \<open>Decimal digits. \<^verbatim>\<open>Atoi\<close> answers the largest int when the number is out of range; the code drops its error.\<close>

definition is_digit :: "char \<Rightarrow> bool" where
  "is_digit c \<longleftrightarrow> 48 \<le> (of_char c :: nat) \<and> (of_char c :: nat) \<le> 57"

definition digit_of :: "nat \<Rightarrow> char" where
  "digit_of n = char_of (48 + n)"

fun show_nat :: "nat \<Rightarrow> string" where
  "show_nat n = (if n < 10 then [digit_of n] else show_nat (n div 10) @ [digit_of (n mod 10)])"

declare show_nat.simps [simp del]

definition show_int :: "int \<Rightarrow> string" where
  "show_int i = (if i < 0 then CHR ''-'' # show_nat (nat (- i)) else show_nat (nat i))"

definition read_nat :: "string \<Rightarrow> nat" where
  "read_nat s = foldl (\<lambda>n c. 10 * n + (of_char c - 48)) 0 s"

definition atoi :: "string \<Rightarrow> int" where
  "atoi s = min (int (read_nat s)) (2 ^ 63 - 1)"

text \<open>
  The regular expression \<^verbatim>\<open>^(\d+)\.(\d+)\.(\d+)(?:-([a-zA-Z0-9-]+))?(?:\+([a-zA-Z0-9-]+))?$\<close>. No two of its
  parts compete for a character, so each takes as much as it can.
\<close>

definition is_ident :: "char \<Rightarrow> bool" where
  "is_ident c \<longleftrightarrow> is_digit c \<or> c = CHR ''-'' \<or> 65 \<le> (of_char c :: nat) \<and> (of_char c :: nat) \<le> 90
     \<or> 97 \<le> (of_char c :: nat) \<and> (of_char c :: nat) \<le> 122"

definition span_of :: "(char \<Rightarrow> bool) \<Rightarrow> string \<Rightarrow> (string \<times> string) option" where
  "span_of p s = (if takeWhile p s = [] then None else Some (takeWhile p s, dropWhile p s))"

definition optional_part :: "char \<Rightarrow> string \<Rightarrow> (string \<times> string) option" where
  "optional_part c s = (case s of [] \<Rightarrow> Some ([], []) | x # xs \<Rightarrow> if x = c then span_of is_ident xs else Some ([], s))"

definition match_literal :: "char \<Rightarrow> string \<Rightarrow> string option" where
  "match_literal c s = (case s of [] \<Rightarrow> None | x # xs \<Rightarrow> if x = c then Some xs else None)"

definition match_version :: "string \<Rightarrow> (string \<times> string \<times> string \<times> string \<times> string) option" where
  "match_version s =
     Option.bind (span_of is_digit s) (\<lambda>(a, s).
     Option.bind (match_literal (CHR ''.'') s) (\<lambda>s.
     Option.bind (span_of is_digit s) (\<lambda>(b, s).
     Option.bind (match_literal (CHR ''.'') s) (\<lambda>s.
     Option.bind (span_of is_digit s) (\<lambda>(c, s).
     Option.bind (optional_part (CHR ''-'') s) (\<lambda>(pre, s).
     Option.bind (optional_part (CHR ''+'') s) (\<lambda>(build, s).
     if s = [] then Some (a, b, c, pre, build) else None)))))))"

datatype version_error = ErrVersionNotFound | ErrVersionConflict | ErrVersionAlreadyExists | ErrEmptyVersion
  | ErrVersionFormat string | ErrModelLookup | ErrDatabase

definition parse_version :: "string \<Rightarrow> version_error + semantic_version" where
  "parse_version version =
     (if version = [] then Inl ErrEmptyVersion
      else let version = trim_prefix ''v'' version
        in case match_version version of
             None \<Rightarrow> Inl (ErrVersionFormat version)
           | Some (a, b, c, pre, build) \<Rightarrow>
               Inr \<lparr>sv_major = atoi a, sv_minor = atoi b, sv_patch = atoi c, sv_prerelease = pre, sv_build = build,
                 sv_raw = version\<rparr>)"

definition sv_compare :: "semantic_version \<Rightarrow> semantic_version \<Rightarrow> int" where
  "sv_compare v other =
     (if sv_major v \<noteq> sv_major other then (if sv_major other < sv_major v then 1 else -1)
      else if sv_minor v \<noteq> sv_minor other then (if sv_minor other < sv_minor v then 1 else -1)
      else if sv_patch v \<noteq> sv_patch other then (if sv_patch other < sv_patch v then 1 else -1)
      else if sv_prerelease v \<noteq> sv_prerelease other then
        (if sv_prerelease v = [] then 1
         else if sv_prerelease other = [] then -1
         else if sv_prerelease other < sv_prerelease v then 1 else -1)
      else 0)"

definition sv_string :: "semantic_version \<Rightarrow> string" where
  "sv_string v =
     (let version = show_int (sv_major v) @ ''.'' @ show_int (sv_minor v) @ ''.'' @ show_int (sv_patch v);
          version = (if sv_prerelease v \<noteq> [] then version @ ''-'' @ sv_prerelease v else version)
      in if sv_build v \<noteq> [] then version @ ''+'' @ sv_build v else version)"

definition is_greater_than :: "semantic_version \<Rightarrow> semantic_version \<Rightarrow> bool" where
  "is_greater_than v other \<longleftrightarrow> 0 < sv_compare v other"

definition is_less_than :: "semantic_version \<Rightarrow> semantic_version \<Rightarrow> bool" where
  "is_less_than v other \<longleftrightarrow> sv_compare v other < 0"

definition is_equal :: "semantic_version \<Rightarrow> semantic_version \<Rightarrow> bool" where
  "is_equal v other \<longleftrightarrow> sv_compare v other = 0"

definition release :: "int \<Rightarrow> int \<Rightarrow> int \<Rightarrow> semantic_version" where
  "release a b c = \<lparr>sv_major = a, sv_minor = b, sv_patch = c, sv_prerelease = [], sv_build = [], sv_raw = []\<rparr>"

definition increment_major :: "semantic_version \<Rightarrow> semantic_version" where
  "increment_major v = release (sv_major v + 1) 0 0"

definition increment_minor :: "semantic_version \<Rightarrow> semantic_version" where
  "increment_minor v = release (sv_major v) (sv_minor v + 1) 0"

definition increment_patch :: "semantic_version \<Rightarrow> semantic_version" where
  "increment_patch v = release (sv_major v) (sv_minor v) (sv_patch v + 1)"

section \<open>The precedence of versions\<close>

text \<open>What \<^verbatim>\<open>Compare\<close> looks at, as a type of its own: a linear order.\<close>

datatype precedence = Precedence (pc_major: int) (pc_minor: int) (pc_patch: int) (pc_release: bool) (pc_pre: string)

definition precedence_of :: "semantic_version \<Rightarrow> precedence" where
  "precedence_of v = Precedence (sv_major v) (sv_minor v) (sv_patch v) (sv_prerelease v = []) (sv_prerelease v)"

fun precedence_key :: "precedence \<Rightarrow> int \<times> int \<times> int \<times> bool \<times> string" where
  "precedence_key (Precedence a b c r p) = (a, b, c, r, p)"

lemma precedence_key_inj: "precedence_key p = precedence_key q \<Longrightarrow> p = q"
  by (cases p; cases q) simp

instantiation precedence :: linorder
begin

definition less_precedence :: "precedence \<Rightarrow> precedence \<Rightarrow> bool" where
  "p < q \<longleftrightarrow> precedence_key p < precedence_key q"

definition less_eq_precedence :: "precedence \<Rightarrow> precedence \<Rightarrow> bool" where
  "p \<le> q \<longleftrightarrow> precedence_key p \<le> precedence_key q"

instance
  by standard (auto simp: less_precedence_def less_eq_precedence_def less_le_not_le linear intro: precedence_key_inj)

end

lemma sv_compare_linear:
  "sv_compare v w = (if precedence_of w < precedence_of v then 1 else if precedence_of v < precedence_of w then - 1 else 0)"
  by (cases "sv_major v" "sv_major w" rule: linorder_cases; cases "sv_minor v" "sv_minor w" rule: linorder_cases;
      cases "sv_patch v" "sv_patch w" rule: linorder_cases; cases "sv_prerelease v" "sv_prerelease w" rule: linorder_cases)
    (simp_all add: sv_compare_def precedence_of_def less_precedence_def less_prod_simp, auto)

text \<open>C31: \<^verbatim>\<open>Compare\<close> is the comparison of a linear order: it answers 1, -1 or 0 as the precedence of the first
  version is above, below or equal to that of the second, and two versions are equal exactly when they agree in
  everything but the build.\<close>

theorem compare_is_linear:
  "sv_compare v w = (if precedence_of w < precedence_of v then 1 else if precedence_of v < precedence_of w then - 1 else 0)
   \<and> (sv_compare v w = 0 \<longleftrightarrow> (sv_major v, sv_minor v, sv_patch v, sv_prerelease v)
        = (sv_major w, sv_minor w, sv_patch w, sv_prerelease w))"
  by (intro conjI sv_compare_linear) (auto simp: sv_compare_def)

section \<open>Parsing\<close>

lemma digit_of_nat: "n < 10 \<Longrightarrow> of_char (digit_of n) = 48 + n" "n < 10 \<Longrightarrow> is_digit (digit_of n)"
  by (simp_all add: digit_of_def is_digit_def)

lemma show_nat_digits: "\<forall>c\<in>set (show_nat n). is_digit c"
proof (induction n rule: show_nat.induct)
  case (1 n)
  show ?case
    by (subst show_nat.simps) (use 1 in \<open>auto simp: digit_of_nat\<close>)
qed

lemma show_nat_nonempty [simp]: "show_nat n \<noteq> []"
  by (subst show_nat.simps) simp

lemma read_show_nat [simp]: "read_nat (show_nat n) = n"
proof (induction n rule: show_nat.induct)
  case (1 n)
  show ?case
  proof (cases "n < 10")
    case True
    then show ?thesis by (simp add: read_nat_def show_nat.simps [of n] digit_of_nat)
  next
    case False
    then have "read_nat (show_nat n) = 10 * read_nat (show_nat (n div 10)) + n mod 10"
      by (simp add: read_nat_def show_nat.simps [of n] digit_of_nat)
    with 1 [OF False] show ?thesis by simp
  qed
qed

lemma span_of_append: "s \<noteq> [] \<Longrightarrow> \<forall>c\<in>set s. p c \<Longrightarrow> t = [] \<or> \<not> p (hd t) \<Longrightarrow> span_of p (s @ t) = Some (s, t)"
  by (cases s; cases t) (auto simp: span_of_def takeWhile_append dropWhile_append)

lemma span_of_iff: "span_of p s = Some (a, t) \<longleftrightarrow> a \<noteq> [] \<and> (\<forall>c\<in>set a. p c) \<and> (t = [] \<or> \<not> p (hd t)) \<and> s = a @ t"
proof
  assume "span_of p s = Some (a, t)"
  then have a: "a \<noteq> []" "a = takeWhile p s" "t = dropWhile p s" by (auto simp: span_of_def split: if_splits)
  then show "a \<noteq> [] \<and> (\<forall>c\<in>set a. p c) \<and> (t = [] \<or> \<not> p (hd t)) \<and> s = a @ t"
    using hd_dropWhile [of p s] by (auto dest: set_takeWhileD)
qed (auto intro: span_of_append)

definition digits :: "string \<Rightarrow> bool" where
  "digits s \<longleftrightarrow> s \<noteq> [] \<and> (\<forall>c\<in>set s. is_digit c)"

definition ident :: "string \<Rightarrow> bool" where
  "ident s \<longleftrightarrow> (\<forall>c\<in>set s. is_ident c)"

definition tagged :: "char \<Rightarrow> string \<Rightarrow> string" where
  "tagged c s = (if s = [] then [] else c # s)"

lemma not_digit: "\<not> is_digit (CHR ''.'')" "\<not> is_digit (CHR ''-'')" "\<not> is_digit (CHR ''+'')" "\<not> is_ident (CHR ''+'')"
  by (simp_all add: is_digit_def is_ident_def)

lemma match_literal_iff: "match_literal c s = Some t \<longleftrightarrow> s = c # t"
  by (auto simp: match_literal_def split: list.splits)

lemma optional_part_iff:
  "optional_part c s = Some (a, t) \<longleftrightarrow> ident a \<and> s = tagged c a @ t
     \<and> (if a = [] then t = [] \<or> hd t \<noteq> c else t = [] \<or> \<not> is_ident (hd t))"
  by (cases s) (auto simp: optional_part_def span_of_iff tagged_def ident_def split: if_splits)

lemma match_version_iff:
  "match_version s = Some (a, b, c, pre, build) \<longleftrightarrow> digits a \<and> digits b \<and> digits c \<and> ident pre \<and> ident build
     \<and> s = a @ ''.'' @ b @ ''.'' @ c @ tagged (CHR ''-'') pre @ tagged (CHR ''+'') build"
proof
  assume "match_version s = Some (a, b, c, pre, build)"
  then show "digits a \<and> digits b \<and> digits c \<and> ident pre \<and> ident build
     \<and> s = a @ ''.'' @ b @ ''.'' @ c @ tagged (CHR ''-'') pre @ tagged (CHR ''+'') build"
    by (auto simp: match_version_def bind_eq_Some_conv span_of_iff match_literal_iff optional_part_iff digits_def split: if_splits)
next
  assume *: "digits a \<and> digits b \<and> digits c \<and> ident pre \<and> ident build
     \<and> s = a @ ''.'' @ b @ ''.'' @ c @ tagged (CHR ''-'') pre @ tagged (CHR ''+'') build"
  let ?t5 = "tagged (CHR ''+'') build"
  let ?t4 = "tagged (CHR ''-'') pre @ ?t5"
  from * have "span_of is_digit (a @ ''.'' @ b @ ''.'' @ c @ ?t4) = Some (a, ''.'' @ b @ ''.'' @ c @ ?t4)"
    "span_of is_digit (b @ ''.'' @ c @ ?t4) = Some (b, ''.'' @ c @ ?t4)"
    by (auto intro!: span_of_append simp: digits_def not_digit)
  moreover from * have "span_of is_digit (c @ ?t4) = Some (c, ?t4)"
    by (intro span_of_append) (auto simp: digits_def not_digit tagged_def)
  moreover have "optional_part (CHR ''-'') ?t4 = Some (pre, ?t5)" "optional_part (CHR ''+'') ?t5 = Some (build, [])"
    using * by (auto simp: optional_part_iff tagged_def not_digit)
  ultimately show "match_version s = Some (a, b, c, pre, build)"
    using * by (simp add: match_version_def match_literal_def)
qed

text \<open>Exactly the strings of three numbers separated by dots, with a pre-release after a minus and a build after
  a plus, each optional and made of letters, digits and minus signs, are versions, a leading v aside.\<close>

theorem parse_version_language:
  "parse_version s = Inr v \<longleftrightarrow> s \<noteq> [] \<and> (\<exists>a b c. digits a \<and> digits b \<and> digits c
     \<and> ident (sv_prerelease v) \<and> ident (sv_build v)
     \<and> trim_prefix ''v'' s = a @ ''.'' @ b @ ''.'' @ c @ tagged (CHR ''-'') (sv_prerelease v) @ tagged (CHR ''+'') (sv_build v)
     \<and> v = \<lparr>sv_major = atoi a, sv_minor = atoi b, sv_patch = atoi c, sv_prerelease = sv_prerelease v, sv_build = sv_build v,
          sv_raw = trim_prefix ''v'' s\<rparr>)"
proof -
  have "parse_version s = Inr v \<longleftrightarrow> s \<noteq> [] \<and> (\<exists>a b c pre build. match_version (trim_prefix ''v'' s) = Some (a, b, c, pre, build)
     \<and> v = \<lparr>sv_major = atoi a, sv_minor = atoi b, sv_patch = atoi c, sv_prerelease = pre, sv_build = build,
          sv_raw = trim_prefix ''v'' s\<rparr>)"
    by (auto simp: parse_version_def Let_def split: option.splits)
  then show ?thesis unfolding match_version_iff by fastforce
qed

text \<open>The versions that have a text: non-negative ints and identifiers.\<close>

definition printable :: "semantic_version \<Rightarrow> bool" where
  "printable v \<longleftrightarrow> (\<forall>i\<in>{sv_major v, sv_minor v, sv_patch v}. 0 \<le> i \<and> i < 2 ^ 63) \<and> ident (sv_prerelease v) \<and> ident (sv_build v)"

lemma sv_string_parts: "sv_string v = show_int (sv_major v) @ ''.'' @ show_int (sv_minor v) @ ''.'' @ show_int (sv_patch v)
    @ tagged (CHR ''-'') (sv_prerelease v) @ tagged (CHR ''+'') (sv_build v)"
  by (simp add: sv_string_def tagged_def)

lemma show_int_digits: "0 \<le> i \<Longrightarrow> digits (show_int i)"
  by (simp add: digits_def show_int_def show_nat_digits)

lemma atoi_show_int: "0 \<le> i \<Longrightarrow> i < 2 ^ 63 \<Longrightarrow> atoi (show_int i) = i"
  by (simp add: show_int_def atoi_def)

lemma match_print: "printable v \<Longrightarrow> match_version (sv_string v)
    = Some (show_int (sv_major v), show_int (sv_minor v), show_int (sv_patch v), sv_prerelease v, sv_build v)"
  unfolding match_version_iff sv_string_parts by (auto simp: printable_def show_int_digits)

lemma parse_print_v: "printable v \<Longrightarrow> trim_prefix ''v'' s = sv_string v \<Longrightarrow> s \<noteq> []
    \<Longrightarrow> parse_version s = Inr (v\<lparr>sv_raw := sv_string v\<rparr>)"
  by (simp add: parse_version_def match_print) (simp add: printable_def atoi_show_int)

lemma print_starts_with_digit: "printable v \<Longrightarrow> \<exists>c s. sv_string v = c # s \<and> is_digit c"
  using show_int_digits [of "sv_major v"]
  by (cases "show_int (sv_major v)") (auto simp: printable_def sv_string_parts digits_def)

lemma print_no_v: "printable v \<Longrightarrow> trim_prefix ''v'' (sv_string v) = sv_string v \<and> sv_string v \<noteq> []"
  using print_starts_with_digit [of v] by (auto simp: trim_prefix_def has_prefix_def is_digit_def)

lemma parse_print: "printable v \<Longrightarrow> parse_version (sv_string v) = Inr (v\<lparr>sv_raw := sv_string v\<rparr>)"
  using print_no_v parse_print_v by blast

lemma parse_printable: "parse_version s = Inr v \<Longrightarrow> printable v"
  by (auto simp: parse_version_def Let_def match_version_iff printable_def atoi_def split: option.splits if_splits)

text \<open>C32: a version that has been parsed, printed and parsed again is the same but for the raw text, with or without
  a v in front of it.\<close>

theorem version_round_trip:
  assumes "parse_version s = Inr v"
  shows "parse_version (sv_string v) = Inr (v\<lparr>sv_raw := sv_string v\<rparr>)
    \<and> parse_version (''v'' @ sv_string v) = Inr (v\<lparr>sv_raw := sv_string v\<rparr>)"
proof -
  from assms have v: "printable v" by (rule parse_printable)
  have "trim_prefix ''v'' (''v'' @ sv_string v) = sv_string v" by (simp add: trim_prefix_def has_prefix_def)
  with parse_print [OF v] parse_print_v [OF v, of "''v'' @ sv_string v"] show ?thesis by simp
qed

section \<open>Upgrade paths\<close>

text \<open>
  The loop ends: the first increment drops a pre-release, and from then on the first number that is smaller
  comes closer to that of the target.
\<close>

function upgrade_loop :: "semantic_version \<Rightarrow> semantic_version \<Rightarrow> semantic_version list" where
  "upgrade_loop current to =
     (if \<not> is_less_than current to then []
      else let current = (if sv_major current < sv_major to then increment_major current
                          else if sv_minor current < sv_minor to then increment_minor current
                          else increment_patch current)
        in (if is_less_than current to \<or> is_equal current to then [current] else []) @ upgrade_loop current to)"
  by pat_completeness auto
termination
  by (relation "measures [\<lambda>(c, t). if sv_prerelease c = [] then 0 else 1, \<lambda>(c, t). nat (sv_major t - sv_major c),
      \<lambda>(c, t). nat (sv_minor t - sv_minor c), \<lambda>(c, t). nat (sv_patch t - sv_patch c)]")
    (auto simp: increment_major_def increment_minor_def increment_patch_def release_def is_less_than_def sv_compare_def split: if_splits)

declare upgrade_loop.simps [simp del]

definition generate_upgrade_path :: "semantic_version \<Rightarrow> semantic_version \<Rightarrow> string list" where
  "generate_upgrade_path from to = map sv_string (upgrade_loop from to)"

lemma less_than_iff: "is_less_than v w \<longleftrightarrow> precedence_of v < precedence_of w"
  and greater_than_iff: "is_greater_than v w \<longleftrightarrow> precedence_of w < precedence_of v"
  and equal_iff: "is_equal v w \<longleftrightarrow> precedence_of v = precedence_of w"
  using sv_compare_linear [of v w] by (auto simp: is_less_than_def is_greater_than_def is_equal_def)

definition next_step :: "semantic_version \<Rightarrow> semantic_version \<Rightarrow> semantic_version" where
  "next_step current to = (if sv_major current < sv_major to then increment_major current
     else if sv_minor current < sv_minor to then increment_minor current else increment_patch current)"

definition numbers :: "semantic_version \<Rightarrow> int \<times> int \<times> int" where
  "numbers v = (sv_major v, sv_minor v, sv_patch v)"

definition non_negative :: "semantic_version \<Rightarrow> bool" where
  "non_negative v \<longleftrightarrow> 0 \<le> sv_major v \<and> 0 \<le> sv_minor v \<and> 0 \<le> sv_patch v"

lemmas increments = increment_major_def increment_minor_def increment_patch_def release_def

lemma upgrade_loop_step: "is_less_than c t \<Longrightarrow> upgrade_loop c t = (let n = next_step c t
    in (if is_less_than n t \<or> is_equal n t then [n] else []) @ upgrade_loop n t)"
  unfolding next_step_def by (subst upgrade_loop.simps) simp

lemma upgrade_loop_done: "\<not> is_less_than c t \<Longrightarrow> upgrade_loop c t = []"
  by (subst upgrade_loop.simps) simp

lemma next_step_above: "is_less_than c t \<Longrightarrow> is_less_than c (next_step c t)"
  by (auto simp: next_step_def increments is_less_than_def sv_compare_def)

lemma next_step_release: "sv_prerelease (next_step c t) = []" "non_negative c \<Longrightarrow> non_negative (next_step c t)"
  by (auto simp: next_step_def increments non_negative_def)

lemma next_step_over: "is_less_than c t \<Longrightarrow> non_negative t
    \<Longrightarrow> is_greater_than (next_step c t) t \<longleftrightarrow> numbers c = numbers t \<or> numbers (next_step c t) = numbers t \<and> sv_prerelease t \<noteq> []"
  by (auto simp: next_step_def increments is_less_than_def is_greater_than_def sv_compare_def numbers_def non_negative_def
      split: if_splits)

lemma release_below: "is_less_than c t \<Longrightarrow> sv_prerelease c = [] \<Longrightarrow> numbers c \<noteq> numbers t"
  by (auto simp: is_less_than_def sv_compare_def numbers_def split: if_splits)

lemma equal_release: "is_equal c t \<Longrightarrow> sv_prerelease c = sv_prerelease t"
  by (auto simp: is_equal_def sv_compare_def split: if_splits)

lemma upgrade_loop_correct:
  "is_less_than c t \<Longrightarrow> non_negative t \<Longrightarrow> sorted_wrt is_less_than (c # upgrade_loop c t)
    \<and> (\<forall>v\<in>set (upgrade_loop c t). \<not> is_greater_than v t \<and> sv_prerelease v = [] \<and> sv_build v = [])
    \<and> (upgrade_loop c t \<noteq> [] \<and> is_equal (last (upgrade_loop c t)) t \<longleftrightarrow> sv_prerelease t = [] \<and> numbers c \<noteq> numbers t)"
proof (induction c t rule: upgrade_loop.induct)
  case (1 c t)
  let ?n = "next_step c t"
  have n: "is_less_than c ?n" "sv_prerelease ?n = []" "sv_build ?n = []"
    using next_step_above [OF 1(2)] by (auto simp: next_step_def increments)
  note eq = upgrade_loop_step [OF 1(2), unfolded Let_def]
  have over: "is_greater_than ?n t \<longleftrightarrow> numbers c = numbers t \<or> numbers ?n = numbers t \<and> sv_prerelease t \<noteq> []"
    by (rule next_step_over [OF 1(2,3)])
  consider (below) "is_less_than ?n t" | (hit) "is_equal ?n t" | (above) "is_greater_than ?n t"
    by (auto simp: less_than_iff greater_than_iff equal_iff intro: linorder_cases)
  then show ?case
  proof cases
    case below
    then have "\<not> is_greater_than ?n t" by (auto simp: less_than_iff greater_than_iff)
    moreover have IH: "sorted_wrt is_less_than (?n # upgrade_loop ?n t)
      \<and> (\<forall>v\<in>set (upgrade_loop ?n t). \<not> is_greater_than v t \<and> sv_prerelease v = [] \<and> sv_build v = [])
      \<and> (upgrade_loop ?n t \<noteq> [] \<and> is_equal (last (upgrade_loop ?n t)) t \<longleftrightarrow> sv_prerelease t = [] \<and> numbers ?n \<noteq> numbers t)"
      using 1(1) [of ?n] 1(2,3) below by (simp add: next_step_def)
    moreover have "sorted_wrt is_less_than (c # ?n # upgrade_loop ?n t)"
      using IH n(1) by (auto simp: less_than_iff intro: less_trans)
    moreover have "numbers ?n \<noteq> numbers t" using release_below [OF below n(2)] .
    moreover have "\<not> is_equal ?n t" using below by (auto simp: less_than_iff equal_iff)
    ultimately show ?thesis using eq below n over by (auto simp: last_ConsR split: if_splits)
  next
    case hit
    then have "\<not> is_less_than ?n t" "\<not> is_greater_than ?n t" by (auto simp: less_than_iff greater_than_iff equal_iff)
    with eq hit n over equal_release [OF hit] show ?thesis by (auto simp: upgrade_loop_done)
  next
    case above
    then have "\<not> is_less_than ?n t" "\<not> is_equal ?n t" by (auto simp: less_than_iff greater_than_iff equal_iff)
    with eq above over show ?thesis by (auto simp: upgrade_loop_done)
  qed
qed

text \<open>C30: the upgrade path always ends; its versions are releases in increasing order, each above the start and none
  above the target, and the last one is the target exactly when the target is a release and not the release of
  the very numbers the start is a pre-release of.\<close>

theorem upgrade_path_correct:
  assumes "is_less_than from to" "non_negative to"
  shows "\<exists>vs. generate_upgrade_path from to = map sv_string vs \<and> sorted_wrt is_less_than (from # vs)
    \<and> (\<forall>v\<in>set vs. \<not> is_greater_than v to \<and> sv_prerelease v = [] \<and> sv_build v = [])
    \<and> (vs \<noteq> [] \<and> is_equal (last vs) to \<longleftrightarrow> sv_prerelease to = [] \<and> numbers from \<noteq> numbers to)"
  using upgrade_loop_correct [OF assms] unfolding generate_upgrade_path_def by blast

section \<open>The version manager\<close>

text \<open>
  The manager's state is its table of versions, the events it reads and the state of its \<^verbatim>\<open>RWMutex\<close>. A Go
  mutex knows no owner: \<^verbatim>\<open>Lock\<close> waits while anyone reads or writes and \<^verbatim>\<open>RLock\<close> while anyone writes, the
  calling goroutine included. An operation is run by one goroutine: it blocks for ever (\<open>Blocks\<close>), panics or
  returns. The SQL statements are the ones of the code; \<open>db\<close> says which of them fail. A transaction that is not
  committed leaves the table as it was. A statement over several rows with one version reads the first.
\<close>

record model_version =
  mv_id :: string
  mv_model_id :: string
  mv_version :: string
  mv_source_url :: string
  mv_source_checksum :: string
  mv_changelog :: string
  mv_status :: string
  mv_is_active :: bool
  mv_is_deprecated :: bool
  mv_created_at :: time
  mv_updated_at :: time
  mv_created_by :: string

record model_event =
  me_id :: string
  me_model_id :: string
  me_type :: string
  me_message :: string
  me_timestamp :: time

datatype rw_mutex = Unlocked | Reading nat | Writing

record version_manager =
  vm_rows :: "model_version list"
  vm_events :: "model_event list"
  vm_lock :: rw_mutex

datatype 'a outcome = Blocks | Panics | Done version_manager 'a

datatype statement_call = SelectVersion | SelectVersions | CountVersions | InsertVersion | BeginTx | DeactivateVersions
  | ActivateVersion | RowsAffected | CommitTx | SelectActive | UpdateDeprecated | DeleteRow | SelectEvents

fun and_then :: "'a outcome \<Rightarrow> (version_manager \<Rightarrow> 'a \<Rightarrow> 'b outcome) \<Rightarrow> 'b outcome" where
  "and_then Blocks f = Blocks"
| "and_then Panics f = Panics"
| "and_then (Done s x) f = f s x"

text \<open>The checks of a Go error after a call.\<close>

definition if_ok :: "(version_error + 'a) outcome \<Rightarrow> (version_manager \<Rightarrow> 'a \<Rightarrow> (version_error + 'b) outcome)
    \<Rightarrow> (version_error + 'b) outcome" where
  "if_ok r f = and_then r (\<lambda>s x. case x of Inl e \<Rightarrow> Done s (Inl e) | Inr y \<Rightarrow> f s y)"

text \<open>\<^verbatim>\<open>Lock\<close> or \<^verbatim>\<open>RLock\<close> with its deferred release.\<close>

definition with_write_lock :: "(version_manager \<Rightarrow> 'a outcome) \<Rightarrow> version_manager \<Rightarrow> 'a outcome" where
  "with_write_lock body s = (if vm_lock s \<noteq> Unlocked then Blocks
     else and_then (body (s\<lparr>vm_lock := Writing\<rparr>)) (\<lambda>s' x. Done (s'\<lparr>vm_lock := vm_lock s\<rparr>) x))"

definition with_rlock :: "(version_manager \<Rightarrow> 'a outcome) \<Rightarrow> version_manager \<Rightarrow> 'a outcome" where
  "with_rlock body s =
     (let run = (\<lambda>n. and_then (body (s\<lparr>vm_lock := Reading n\<rparr>)) (\<lambda>s' x. Done (s'\<lparr>vm_lock := vm_lock s\<rparr>) x))
      in case vm_lock s of Writing \<Rightarrow> Blocks | Unlocked \<Rightarrow> run 1 | Reading n \<Rightarrow> run (Suc n))"

definition is_row :: "string \<Rightarrow> string \<Rightarrow> model_version \<Rightarrow> bool" where
  "is_row model_id version r \<longleftrightarrow> mv_model_id r = model_id \<and> mv_version r = version"

definition vm_get_version :: "(statement_call \<Rightarrow> bool) \<Rightarrow> string \<Rightarrow> string \<Rightarrow> version_manager
    \<Rightarrow> (version_error + model_version) outcome" where
  "vm_get_version db model_id version = with_rlock (\<lambda>s. Done s
     (if db SelectVersion then Inl ErrDatabase
      else case find (is_row model_id version) (vm_rows s) of None \<Rightarrow> Inl ErrVersionNotFound | Some r \<Rightarrow> Inr r))"

definition vm_list_versions :: "(statement_call \<Rightarrow> bool) \<Rightarrow> string \<Rightarrow> version_manager \<Rightarrow> (version_error + model_version list) outcome" where
  "vm_list_versions db model_id = with_rlock (\<lambda>s. Done s
     (if db SelectVersions then Inl ErrDatabase
      else Inr (sort_key (\<lambda>r. - mv_created_at r) (filter (\<lambda>r. mv_model_id r = model_id) (vm_rows s)))))"

definition get_version_count :: "(statement_call \<Rightarrow> bool) \<Rightarrow> string \<Rightarrow> version_manager \<Rightarrow> version_error + nat" where
  "get_version_count db model_id s =
     (if db CountVersions then Inl ErrDatabase else Inr (length (filter (\<lambda>r. mv_model_id r = model_id) (vm_rows s))))"

definition vm_create_version :: "(string \<Rightarrow> bool) \<Rightarrow> (statement_call \<Rightarrow> bool) \<Rightarrow> time \<Rightarrow> string \<Rightarrow> model_version \<Rightarrow> version_manager
    \<Rightarrow> (version_error + unit) outcome" where
  "vm_create_version registry db now model_id v = with_write_lock (\<lambda>s.
     case parse_version (mv_version v) of
       Inl e \<Rightarrow> Done s (Inl e)
     | Inr _ \<Rightarrow> and_then (vm_get_version db model_id (mv_version v) s) (\<lambda>s existing.
         if is_ok existing then Done s (Inl ErrVersionAlreadyExists)
         else if \<not> registry model_id then Done s (Inl ErrModelLookup)
         else case get_version_count db model_id s of
             Inl e \<Rightarrow> Done s (Inl e)
           | Inr n \<Rightarrow>
               let v = v\<lparr>mv_created_at := now, mv_updated_at := now, mv_model_id := model_id,
                     mv_is_active := (n = 0 \<or> mv_is_active v)\<rparr>
               in if db InsertVersion then Done s (Inl ErrDatabase)
                  else Done (s\<lparr>vm_rows := vm_rows s @ [v]\<rparr>) (Inr ())))"

text \<open>The two updates of the transaction; the second reports how many rows it changed.\<close>

definition deactivate_all :: "time \<Rightarrow> string \<Rightarrow> model_version list \<Rightarrow> model_version list" where
  "deactivate_all now model_id = map (\<lambda>r. if mv_model_id r = model_id then r\<lparr>mv_is_active := False, mv_updated_at := now\<rparr> else r)"

definition activate_one :: "time \<Rightarrow> string \<Rightarrow> string \<Rightarrow> model_version list \<Rightarrow> model_version list \<times> nat" where
  "activate_one now model_id version rows =
     (map (\<lambda>r. if is_row model_id version r then r\<lparr>mv_is_active := True, mv_updated_at := now\<rparr> else r) rows,
      length (filter (is_row model_id version) rows))"

definition vm_set_active_version :: "(statement_call \<Rightarrow> bool) \<Rightarrow> time \<Rightarrow> time \<Rightarrow> string \<Rightarrow> string \<Rightarrow> version_manager
    \<Rightarrow> (version_error + unit) outcome" where
  "vm_set_active_version db now now' model_id version = with_write_lock (\<lambda>s.
     if db BeginTx \<or> db DeactivateVersions \<or> db ActivateVersion \<or> db RowsAffected then Done s (Inl ErrDatabase)
     else case activate_one now' model_id version (deactivate_all now model_id (vm_rows s)) of
       (rows, n) \<Rightarrow>
         if n = 0 then Done s (Inl ErrVersionNotFound)
         else if db CommitTx then Done s (Inl ErrDatabase)
         else Done (s\<lparr>vm_rows := rows\<rparr>) (Inr ()))"

definition vm_deprecate_version :: "(statement_call \<Rightarrow> bool) \<Rightarrow> time \<Rightarrow> string \<Rightarrow> string \<Rightarrow> version_manager
    \<Rightarrow> (version_error + unit) outcome" where
  "vm_deprecate_version db now model_id version = with_write_lock (\<lambda>s.
     if_ok (vm_get_version db model_id version s) (\<lambda>s v.
       if mv_is_active v then Done s (Inl ErrVersionConflict)
       else if db UpdateDeprecated then Done s (Inl ErrDatabase)
       else let s' = s\<lparr>vm_rows := map (\<lambda>r. if is_row model_id version r then r\<lparr>mv_is_deprecated := True, mv_updated_at := now\<rparr> else r)
                  (vm_rows s)\<rparr>
         in if db RowsAffected then Done s' (Inl ErrDatabase)
            else if filter (is_row model_id version) (vm_rows s) = [] then Done s' (Inl ErrVersionNotFound)
            else Done s' (Inr ())))"

definition vm_get_active_version :: "(statement_call \<Rightarrow> bool) \<Rightarrow> string \<Rightarrow> version_manager \<Rightarrow> (version_error + model_version) outcome" where
  "vm_get_active_version db model_id = with_rlock (\<lambda>s. Done s
     (if db SelectActive then Inl ErrDatabase
      else case find (\<lambda>r. mv_model_id r = model_id \<and> mv_is_active r) (vm_rows s) of
          None \<Rightarrow> Inl ErrVersionNotFound | Some r \<Rightarrow> Inr r))"

definition vm_delete_version :: "(statement_call \<Rightarrow> bool) \<Rightarrow> string \<Rightarrow> string \<Rightarrow> version_manager \<Rightarrow> (version_error + unit) outcome" where
  "vm_delete_version db model_id version = with_write_lock (\<lambda>s.
     if_ok (vm_get_version db model_id version s) (\<lambda>s v.
       if mv_is_active v then Done s (Inl ErrVersionConflict)
       else if db DeleteRow then Done s (Inl ErrDatabase)
       else let s' = s\<lparr>vm_rows := filter (\<lambda>r. \<not> is_row model_id version r) (vm_rows s)\<rparr>
         in if db RowsAffected then Done s' (Inl ErrDatabase)
            else if filter (is_row model_id version) (vm_rows s) = [] then Done s' (Inl ErrVersionNotFound)
            else Done s' (Inr ())))"

definition vm_rollback_version :: "(statement_call \<Rightarrow> bool) \<Rightarrow> time \<Rightarrow> time \<Rightarrow> string \<Rightarrow> string \<Rightarrow> version_manager
    \<Rightarrow> (version_error + unit) outcome" where
  "vm_rollback_version db now now' model_id target = with_write_lock (\<lambda>s.
     if_ok (vm_get_active_version db model_id s) (\<lambda>s current.
       case parse_version (mv_version current) of
         Inl e \<Rightarrow> Done s (Inl e)
       | Inr c \<Rightarrow>
           (case parse_version target of
              Inl e \<Rightarrow> Done s (Inl e)
            | Inr t \<Rightarrow>
                if is_greater_than t c \<or> is_equal t c then Done s (Inl ErrVersionConflict)
                else if_ok (vm_get_version db model_id target s) (\<lambda>s _. vm_set_active_version db now now' model_id target s))))"

section \<open>Reading the table\<close>

text \<open>The loop that looks for the greatest version, which skips versions it cannot parse.\<close>

fun latest_loop :: "model_version list \<Rightarrow> (model_version \<times> semantic_version) option \<Rightarrow> (model_version \<times> semantic_version) option" where
  "latest_loop [] latest = latest"
| "latest_loop (v # vs) latest =
     (case parse_version (mv_version v) of
        Inl _ \<Rightarrow> latest_loop vs latest
      | Inr sv \<Rightarrow>
          latest_loop vs (case latest of
              None \<Rightarrow> Some (v, sv)
            | Some (w, sw) \<Rightarrow> if is_greater_than sv sw then Some (v, sv) else Some (w, sw)))"

definition vm_get_latest_version :: "(statement_call \<Rightarrow> bool) \<Rightarrow> string \<Rightarrow> version_manager \<Rightarrow> (version_error + model_version option) outcome" where
  "vm_get_latest_version db model_id = with_rlock (\<lambda>s.
     if_ok (vm_list_versions db model_id s) (\<lambda>s vs.
       Done s (if vs = [] then Inl ErrVersionNotFound else Inr (map_option fst (latest_loop vs None)))))"

definition next_version :: "string \<Rightarrow> semantic_version \<Rightarrow> semantic_version" where
  "next_version change v = (if change = ''major'' then increment_major v else if change = ''minor'' then increment_minor v
     else increment_patch v)"

text \<open>Without an error the latest version is dereferenced, also when there is none.\<close>

definition vm_suggest_next_version :: "(statement_call \<Rightarrow> bool) \<Rightarrow> string \<Rightarrow> string \<Rightarrow> version_manager \<Rightarrow> (version_error + string) outcome" where
  "vm_suggest_next_version db model_id change s =
     and_then (vm_get_latest_version db model_id s) (\<lambda>s latest.
       case latest of
         Inl _ \<Rightarrow> Done s (Inr ''1.0.0'')
       | Inr None \<Rightarrow> Panics
       | Inr (Some v) \<Rightarrow>
           (case parse_version (mv_version v) of
              Inl e \<Rightarrow> Done s (Inl e)
            | Inr sv \<Rightarrow> Done s (Inr (sv_string (next_version change sv)))))"

definition vm_validate_upgrade_path :: "(statement_call \<Rightarrow> bool) \<Rightarrow> string \<Rightarrow> string \<Rightarrow> string \<Rightarrow> version_manager
    \<Rightarrow> (version_error + unit) outcome" where
  "vm_validate_upgrade_path db model_id from_version to_version s =
     if_ok (vm_get_version db model_id from_version s) (\<lambda>s from.
     if_ok (vm_get_version db model_id to_version s) (\<lambda>s to.
       Done s (case parse_version (mv_version from) of
           Inl e \<Rightarrow> Inl e
         | Inr f \<Rightarrow>
             (case parse_version (mv_version to) of
                Inl e \<Rightarrow> Inl e
              | Inr t \<Rightarrow>
                  if \<not> is_greater_than t f \<or> mv_is_deprecated from \<or> mv_is_deprecated to then Inl ErrVersionConflict
                  else Inr ()))))"

text \<open>A comparison lists which of three fields differ, with their two values.\<close>

datatype diff_field = SourceUrl | Changelog | Status

record version_comparison =
  vc_from :: string
  vc_to :: string
  vc_differences :: "(diff_field \<times> string \<times> string) list"
  vc_upgrade_path :: "string list"

definition vm_compare_versions :: "(statement_call \<Rightarrow> bool) \<Rightarrow> string \<Rightarrow> string \<Rightarrow> string \<Rightarrow> version_manager
    \<Rightarrow> (version_error + version_comparison) outcome" where
  "vm_compare_versions db model_id v1 v2 = with_rlock (\<lambda>s.
     if_ok (vm_get_version db model_id v1 s) (\<lambda>s r1.
     if_ok (vm_get_version db model_id v2 s) (\<lambda>s r2.
       Done s (case parse_version v1 of
           Inl e \<Rightarrow> Inl e
         | Inr sv1 \<Rightarrow>
             (case parse_version v2 of
                Inl e \<Rightarrow> Inl e
              | Inr sv2 \<Rightarrow> Inr \<lparr>vc_from = v1, vc_to = v2,
                  vc_differences = filter (\<lambda>(_, a, b). a \<noteq> b) [(SourceUrl, mv_source_url r1, mv_source_url r2),
                    (Changelog, mv_changelog r1, mv_changelog r2), (Status, mv_status r1, mv_status r2)],
                  vc_upgrade_path = (if is_greater_than sv2 sv1 then generate_upgrade_path sv1 sv2 else [])\<rparr>)))))"

text \<open>In the pattern \<^verbatim>\<open>version_%\<close> the underscore stands for any character.\<close>

definition vm_get_version_history :: "(statement_call \<Rightarrow> bool) \<Rightarrow> string \<Rightarrow> version_manager \<Rightarrow> (version_error + model_event list) outcome" where
  "vm_get_version_history db model_id = with_rlock (\<lambda>s. Done s
     (if db SelectEvents then Inl ErrDatabase
      else Inr (take 100 (sort_key (\<lambda>e. - me_timestamp e) (filter (\<lambda>e. me_model_id e = model_id
        \<and> has_prefix ''version'' (me_type e) \<and> 8 \<le> length (me_type e)) (vm_events s))))))"

record version_stats =
  vt_total :: nat
  vt_active :: nat
  vt_deprecated :: nat
  vt_latest :: string
  vt_oldest :: string

fun extreme_loop :: "(semantic_version \<Rightarrow> semantic_version \<Rightarrow> bool) \<Rightarrow> model_version list
    \<Rightarrow> (string \<times> semantic_version) option \<Rightarrow> (string \<times> semantic_version) option" where
  "extreme_loop better [] best = best"
| "extreme_loop better (v # vs) best =
     (case parse_version (mv_version v) of
        Inl _ \<Rightarrow> extreme_loop better vs best
      | Inr sv \<Rightarrow>
          extreme_loop better vs (case best of
              None \<Rightarrow> Some (mv_version v, sv)
            | Some (w, sw) \<Rightarrow> if better sv sw then Some (mv_version v, sv) else Some (w, sw)))"

definition vm_get_version_stats :: "(statement_call \<Rightarrow> bool) \<Rightarrow> string \<Rightarrow> version_manager \<Rightarrow> (version_error + version_stats) outcome" where
  "vm_get_version_stats db model_id = with_rlock (\<lambda>s.
     if_ok (vm_list_versions db model_id s) (\<lambda>s vs.
       let name = (\<lambda>best. case best of None \<Rightarrow> [] | Some (w, _) \<Rightarrow> w)
       in Done s (Inr \<lparr>vt_total = length vs, vt_active = length (filter mv_is_active vs),
            vt_deprecated = length (filter mv_is_deprecated vs),
            vt_latest = name (extreme_loop is_greater_than vs None), vt_oldest = name (extreme_loop is_less_than vs None)\<rparr>)))"

section \<open>What the operations do\<close>

lemmas lock_defs = with_write_lock_def with_rlock_def if_ok_def

lemma get_version_under_lock: "vm_lock s = Writing \<Longrightarrow> vm_get_version db m v s = Blocks" "vm_lock s = Writing \<Longrightarrow> vm_get_active_version db m s = Blocks"
  by (simp_all add: vm_get_version_def vm_get_active_version_def with_rlock_def)

text \<open>C28: four of the five operations that write never return. Each takes the write lock and then calls a reader,
  which waits for the lock its own caller holds: deprecating, deleting and rolling back block whatever the table
  holds, and so does creating a version whose text is well formed; none of them has an effect.\<close>

theorem version_writers_block:
  "vm_deprecate_version db now model_id version s = Blocks \<and> vm_delete_version db model_id version s = Blocks
   \<and> vm_rollback_version db now now' model_id version s = Blocks
   \<and> (is_ok (parse_version (mv_version v)) \<longrightarrow> vm_create_version registry db now model_id v s = Blocks)"
  by (auto simp: vm_deprecate_version_def vm_delete_version_def vm_rollback_version_def vm_create_version_def lock_defs
      get_version_under_lock is_ok_iff)

definition activated :: "time \<Rightarrow> time \<Rightarrow> string \<Rightarrow> string \<Rightarrow> model_version list \<Rightarrow> model_version list" where
  "activated now now' model_id version = map (\<lambda>r. if is_row model_id version r then r\<lparr>mv_is_active := True, mv_updated_at := now'\<rparr>
     else if mv_model_id r = model_id then r\<lparr>mv_is_active := False, mv_updated_at := now\<rparr> else r)"

lemma activated: "activate_one now' model_id version (deactivate_all now model_id rows)
    = (activated now now' model_id version rows, length (filter (is_row model_id version) rows))"
  by (induction rows) (auto simp: activate_one_def deactivate_all_def activated_def is_row_def)

lemma activated_found: "row \<in> set rows \<Longrightarrow> is_row model_id version row
    \<Longrightarrow> \<exists>row\<in>set (activated now now' model_id version rows). is_row model_id version row"
  by (induction rows) (auto simp: activated_def is_row_def)

lemma activated_rows: "list_all2 (\<lambda>row row'. if mv_model_id row = model_id then mv_version row' = mv_version row
    \<and> mv_model_id row' = model_id \<and> (mv_is_active row' \<longleftrightarrow> mv_version row = version) else row' = row)
  rows (activated now now' model_id version rows)"
  by (induction rows) (auto simp: activated_def is_row_def)

text \<open>C29: setting the active version is all or nothing. It returns with the lock released; without an error
  exactly the rows of the model with that version are active afterwards, there is one, and other models keep
  their rows; with an error, a missing version or any failing statement, the table is as before.\<close>

theorem set_active_version_exact:
  assumes "vm_lock s = Unlocked"
  shows "\<exists>s' r. vm_set_active_version db now now' model_id version s = Done s' r \<and> vm_lock s' = Unlocked
    \<and> (r = Inr () \<longrightarrow> (\<exists>row\<in>set (vm_rows s'). is_row model_id version row)
        \<and> list_all2 (\<lambda>row row'. if mv_model_id row = model_id then mv_version row' = mv_version row \<and> mv_model_id row' = model_id
              \<and> (mv_is_active row' \<longleftrightarrow> mv_version row = version) else row' = row) (vm_rows s) (vm_rows s'))
    \<and> (r \<noteq> Inr () \<longrightarrow> vm_rows s' = vm_rows s)
    \<and> (is_ok r \<longleftrightarrow> \<not> (\<exists>c\<in>{BeginTx, DeactivateVersions, ActivateVersion, RowsAffected, CommitTx}. db c)
        \<and> (\<exists>row\<in>set (vm_rows s). is_row model_id version row))"
proof -
  let ?fails = "\<exists>c\<in>{BeginTx, DeactivateVersions, ActivateVersion, RowsAffected, CommitTx}. db c"
  let ?rows = "activated now now' model_id version (vm_rows s)"
  let ?r = "if db BeginTx \<or> db DeactivateVersions \<or> db ActivateVersion \<or> db RowsAffected then Inl ErrDatabase
      else if \<not> (\<exists>row\<in>set (vm_rows s). is_row model_id version row) then Inl ErrVersionNotFound
      else if db CommitTx then Inl ErrDatabase else Inr ()"
  have op: "vm_set_active_version db now now' model_id version s = Done (if is_ok ?r then s\<lparr>vm_rows := ?rows\<rparr> else s) ?r"
    using assms by (auto simp: vm_set_active_version_def with_write_lock_def activated filter_empty_conv)
  have "is_ok ?r \<longleftrightarrow> \<not> ?fails \<and> (\<exists>row\<in>set (vm_rows s). is_row model_id version row)" by auto
  moreover have "\<exists>row\<in>set ?rows. is_row model_id version row" if "is_ok ?r"
    using that activated_found by (auto split: if_splits)
  ultimately show ?thesis
    using assms activated_rows [of model_id version "vm_rows s" now now'] unfolding op by (auto simp: is_ok_iff)
qed

text \<open>The latest version.\<close>

definition parsed :: "model_version list \<Rightarrow> (model_version \<times> semantic_version) set" where
  "parsed vs = {(v, sv). v \<in> set vs \<and> parse_version (mv_version v) = Inr sv}"

lemma latest_loop_spec:
  "latest_loop vs best = out \<Longrightarrow> (\<And>w sw. best = Some (w, sw) \<Longrightarrow> parse_version (mv_version w) = Inr sw)
    \<Longrightarrow> (case out of
        None \<Rightarrow> best = None \<and> parsed vs = {}
      | Some (v, sv) \<Rightarrow> (v, sv) \<in> parsed vs \<union> set_option best
          \<and> (\<forall>(w, sw)\<in>parsed vs \<union> set_option best. precedence_of sw \<le> precedence_of sv))"
proof (induction vs arbitrary: best)
  case Nil
  then show ?case by (auto simp: parsed_def split: option.splits)
next
  case (Cons v vs)
  show ?case
  proof (cases "parse_version (mv_version v)")
    case (Inl e)
    then have same: "parsed (v # vs) = parsed vs" by (auto simp: parsed_def)
    from Inl Cons.prems(1) have "latest_loop vs best = out" by simp
    from Cons.IH [OF this Cons.prems(2)] show ?thesis by (simp only: same)
  next
    case (Inr sv)
    then have p: "parsed (v # vs) = insert (v, sv) (parsed vs)" by (auto simp: parsed_def)
    show ?thesis
    proof (cases best)
      case None
      with Cons.prems Inr have "latest_loop vs (Some (v, sv)) = out" by simp
      from Cons.IH [OF this] Inr None show ?thesis by (auto simp: p split: option.splits)
    next
      case (Some b)
      obtain w sw where b: "b = (w, sw)" by fastforce
      let ?best = "if is_greater_than sv sw then (v, sv) else (w, sw)"
      from Cons.prems Inr Some b have l: "latest_loop vs (Some ?best) = out"
        by (simp split: if_splits)
      have "\<And>w sw. Some ?best = Some (w, sw) \<Longrightarrow> parse_version (mv_version w) = Inr sw"
        using Inr Cons.prems(2) Some b by (auto split: if_splits)
      from Cons.IH [OF l this] obtain x sx where x: "out = Some (x, sx)" "(x, sx) \<in> insert ?best (parsed vs)"
        "\<forall>(w, sw)\<in>insert ?best (parsed vs). precedence_of sw \<le> precedence_of sx"
        by (fastforce split: option.splits)
      moreover have "precedence_of sv \<le> precedence_of (snd ?best)" "precedence_of sw \<le> precedence_of (snd ?best)"
        by (auto simp: greater_than_iff)
      then have "precedence_of sv \<le> precedence_of sx" "precedence_of sw \<le> precedence_of sx"
        using x(3) by (auto intro: order_trans split: if_splits)
      ultimately show ?thesis by (auto simp: p Some b split: if_splits)
    qed
  qed
qed

definition rows_of :: "string \<Rightarrow> version_manager \<Rightarrow> model_version list" where
  "rows_of model_id s = sort_key (\<lambda>r. - mv_created_at r) (filter (\<lambda>r. mv_model_id r = model_id) (vm_rows s))"

lemma set_rows_of: "set (rows_of model_id s) = {r \<in> set (vm_rows s). mv_model_id r = model_id}"
  by (auto simp: rows_of_def)

lemma latest_version_eq:
  "vm_lock s = Unlocked \<Longrightarrow> vm_get_latest_version db model_id s = Done s
     (if db SelectVersions then Inl ErrDatabase
      else if rows_of model_id s = [] then Inl ErrVersionNotFound
      else Inr (map_option fst (latest_loop (rows_of model_id s) None)))"
  by (cases s) (simp add: vm_get_latest_version_def vm_list_versions_def lock_defs rows_of_def)

text \<open>The latest version is a row of the model whose version parses and has the greatest precedence among those
  that parse; there is none, without an error, when the model has versions and none parses.\<close>

theorem latest_version_greatest:
  assumes "vm_lock s = Unlocked" "\<not> db SelectVersions" "\<exists>r\<in>set (vm_rows s). mv_model_id r = model_id"
  shows "\<exists>latest. vm_get_latest_version db model_id s = Done s (Inr latest)
    \<and> (case latest of
        None \<Rightarrow> \<not> (\<exists>r\<in>set (vm_rows s). mv_model_id r = model_id \<and> is_ok (parse_version (mv_version r)))
      | Some v \<Rightarrow> v \<in> set (vm_rows s) \<and> mv_model_id v = model_id \<and> (\<exists>sv. parse_version (mv_version v) = Inr sv
          \<and> (\<forall>r\<in>set (vm_rows s). \<forall>sr. mv_model_id r = model_id \<and> parse_version (mv_version r) = Inr sr
                \<longrightarrow> \<not> is_greater_than sr sv)))"
proof -
  have "rows_of model_id s \<noteq> []" using assms(3) set_rows_of [of model_id s] by auto
  with assms have eq: "vm_get_latest_version db model_id s = Done s (Inr (map_option fst (latest_loop (rows_of model_id s) None)))"
    by (simp add: latest_version_eq)
  have spec: "case latest_loop (rows_of model_id s) None of
        None \<Rightarrow> parsed (rows_of model_id s) = {}
      | Some (v, sv) \<Rightarrow> (v, sv) \<in> parsed (rows_of model_id s)
          \<and> (\<forall>(w, sw)\<in>parsed (rows_of model_id s). precedence_of sw \<le> precedence_of sv)"
    using latest_loop_spec [OF refl, of None "rows_of model_id s"] by (auto split: option.splits)
  show ?thesis
  proof (cases "latest_loop (rows_of model_id s) None")
    case None
    with spec eq show ?thesis by (auto simp: parsed_def set_rows_of is_ok_iff)
  next
    case (Some b)
    obtain v sv where b: "b = (v, sv)" by fastforce
    with spec Some have v: "(v, sv) \<in> parsed (rows_of model_id s)"
      "\<forall>(w, sw)\<in>parsed (rows_of model_id s). precedence_of sw \<le> precedence_of sv" by simp_all
    then have "\<not> is_greater_than sr sv" if "r \<in> set (vm_rows s)" "mv_model_id r = model_id" "parse_version (mv_version r) = Inr sr" for r sr
      using that by (fastforce simp: parsed_def set_rows_of greater_than_iff not_less)
    with v(1) eq Some b show ?thesis by (auto simp: parsed_def set_rows_of)
  qed
qed

lemma next_above: "precedence_of v < precedence_of (next_version change v)"
proof -
  have "is_less_than v (next_version change v)"
    by (auto simp: next_version_def increments is_less_than_def sv_compare_def)
  then show ?thesis by (simp add: less_than_iff)
qed

lemma next_printable: "printable v \<Longrightarrow> \<forall>i\<in>{sv_major v, sv_minor v, sv_patch v}. i < 2 ^ 63 - 1 \<Longrightarrow> printable (next_version change v)"
  by (auto simp: printable_def next_version_def increments ident_def)

text \<open>As long as no number of a version is the largest int, the version that is suggested parses to one of
  greater precedence than every version of the model.\<close>

theorem suggested_version_new:
  assumes s: "vm_lock s = Unlocked" "vm_suggest_next_version db model_id change s = Done s' (Inr suggestion)"
    and ok: "\<not> db SelectVersions" and r: "r \<in> set (vm_rows s)" "mv_model_id r = model_id" "parse_version (mv_version r) = Inr sr"
    and small: "\<forall>q\<in>set (vm_rows s). \<forall>sq. parse_version (mv_version q) = Inr sq
        \<longrightarrow> (\<forall>i\<in>{sv_major sq, sv_minor sq, sv_patch sq}. i < 2 ^ 63 - 1)"
  shows "\<exists>nv. parse_version suggestion = Inr nv \<and> is_greater_than nv sr"
proof -
  obtain b where b: "latest_loop (rows_of model_id s) None = Some b"
    using latest_loop_spec [OF refl, of None "rows_of model_id s"] r by (auto simp: parsed_def set_rows_of split: option.splits)
  obtain v sv where v: "b = (v, sv)" by fastforce
  from latest_loop_spec [OF refl, of None "rows_of model_id s"] b v
  have p: "(v, sv) \<in> parsed (rows_of model_id s)" "\<forall>(w, sw)\<in>parsed (rows_of model_id s). precedence_of sw \<le> precedence_of sv"
    by auto
  have "rows_of model_id s \<noteq> []" using r set_rows_of [of model_id s] by auto
  with s ok b v p(1) have suggestion: "suggestion = sv_string (next_version change sv)"
    by (simp add: vm_suggest_next_version_def latest_version_eq parsed_def)
  have "\<forall>i\<in>{sv_major sv, sv_minor sv, sv_patch sv}. i < 2 ^ 63 - 1"
    using small p(1) by (auto simp: parsed_def set_rows_of)
  moreover have "printable sv" using p(1) parse_printable by (auto simp: parsed_def)
  ultimately have n: "printable (next_version change sv)" by (intro next_printable)
  let ?nv = "(next_version change sv)\<lparr>sv_raw := suggestion\<rparr>"
  have "precedence_of sr \<le> precedence_of sv" using p(2) r by (auto simp: parsed_def set_rows_of)
  moreover have "precedence_of ?nv = precedence_of (next_version change sv)" by (simp add: precedence_of_def)
  ultimately have "is_greater_than ?nv sr" using next_above [of sv change] by (simp add: greater_than_iff)
  with parse_print [OF n] suggestion show ?thesis by auto
qed

text \<open>When a model has versions and none parses, the suggestion dereferences nil.\<close>

lemma suggest_panics:
  assumes "vm_lock s = Unlocked" "\<not> db SelectVersions" "r \<in> set (vm_rows s)" "mv_model_id r = model_id"
    and bad: "\<forall>q\<in>set (vm_rows s). mv_model_id q = model_id \<longrightarrow> \<not> is_ok (parse_version (mv_version q))"
  shows "vm_suggest_next_version db model_id change s = Panics"
proof -
  have "rows_of model_id s \<noteq> []" using assms(3,4) set_rows_of [of model_id s] by auto
  moreover have "parsed (rows_of model_id s) = {}" using bad by (auto simp: parsed_def set_rows_of is_ok_iff)
  then have "latest_loop (rows_of model_id s) None = None"
    using latest_loop_spec [OF refl, of None "rows_of model_id s"] by (auto split: option.splits)
  ultimately show ?thesis using assms(1,2) by (simp add: vm_suggest_next_version_def latest_version_eq)
qed

section \<open>Examples\<close>

definition sample_version :: "string \<Rightarrow> model_version" where
  "sample_version v = \<lparr>mv_id = v, mv_model_id = ''m'', mv_version = v, mv_source_url = [], mv_source_checksum = [],
     mv_changelog = [], mv_status = ''active'', mv_is_active = False, mv_is_deprecated = False, mv_created_at = 0,
     mv_updated_at = 0, mv_created_by = []\<rparr>"

definition sample_manager :: version_manager where
  "sample_manager = \<lparr>vm_rows = [sample_version ''1.2.0'', sample_version ''1.10.0-a''], vm_events = [], vm_lock = Unlocked\<rparr>"

lemmas version_eval = parse_version_def match_version_def span_of_def optional_part_def match_literal_def trim_prefix_def
  has_prefix_def atoi_def read_nat_def is_digit_def is_ident_def sample_manager_def sample_version_def

lemma sample_parses:
  "parse_version ''1.2.0'' = Inr ((release 1 2 0)\<lparr>sv_raw := ''1.2.0''\<rparr>)"
  "parse_version ''1.10.0-a'' = Inr ((release 1 10 0)\<lparr>sv_prerelease := ''a'', sv_raw := ''1.10.0-a''\<rparr>)"
  by (simp_all add: version_eval release_def)

theorem version_round_trip_witness: "parse_version (''v'' @ sv_string (release 1 2 0)) = Inr ((release 1 2 0)\<lparr>sv_raw := sv_string (release 1 2 0)\<rparr>)"
  using version_round_trip [OF sample_parses(1)] by (simp add: sv_string_def release_def)

theorem upgrade_path_correct_witness: "\<exists>vs. generate_upgrade_path (release 1 2 0) (release 2 1 0) = map sv_string vs \<and> vs \<noteq> []
    \<and> is_equal (last vs) (release 2 1 0)"
proof -
  have "is_less_than (release 1 2 0) (release 2 1 0)" "non_negative (release 2 1 0)"
    by (simp_all add: is_less_than_def sv_compare_def release_def non_negative_def)
  from upgrade_path_correct [OF this] show ?thesis by (auto simp: release_def numbers_def)
qed

theorem version_writers_block_witness: "vm_create_version (\<lambda>_. True) (\<lambda>_. False) 0 ''m'' (sample_version ''1.2.0'') sample_manager = Blocks"
  using version_writers_block [of "\<lambda>_. False" 0 "''m''" "''x''" sample_manager 0 "sample_version ''1.2.0''" "\<lambda>_. True"]
  by (simp add: sample_version_def sample_parses)

theorem set_active_version_exact_witness:
  "\<exists>s'. vm_set_active_version (\<lambda>_. False) 1 1 ''m'' ''1.2.0'' sample_manager = Done s' (Inr ())
    \<and> map mv_is_active (vm_rows s') = [True, False]"
proof -
  have u: "vm_lock sample_manager = Unlocked" by (simp add: sample_manager_def)
  from set_active_version_exact [OF u, of "\<lambda>_. False" 1 1 "''m''" "''1.2.0''"] obtain s' r where
    r: "vm_set_active_version (\<lambda>_. False) 1 1 ''m'' ''1.2.0'' sample_manager = Done s' r" "is_ok r"
    by (auto simp: sample_manager_def sample_version_def is_row_def)
  with set_active_version_exact [OF u, of "\<lambda>_. False" 1 1 "''m''" "''1.2.0''"] show ?thesis
    by (auto simp: sample_manager_def sample_version_def is_ok_iff list_all2_Cons1)
qed

theorem latest_version_greatest_witness:
  "\<exists>v. vm_get_latest_version (\<lambda>_. False) ''m'' sample_manager = Done sample_manager (Inr (Some v)) \<and> v \<in> set (vm_rows sample_manager)"
proof -
  have "vm_lock sample_manager = Unlocked" "\<not> (\<lambda>_. False) SelectVersions" "\<exists>r\<in>set (vm_rows sample_manager). mv_model_id r = ''m''"
    by (simp_all add: sample_manager_def sample_version_def)
  from latest_version_greatest [OF this] show ?thesis
    by (auto simp: sample_manager_def sample_version_def sample_parses split: option.splits)
qed

theorem suggested_version_new_witness:
  "\<exists>suggestion nv. vm_suggest_next_version (\<lambda>_. False) ''m'' ''minor'' sample_manager = Done sample_manager (Inr suggestion)
    \<and> parse_version suggestion = Inr nv \<and> is_greater_than nv ((release 1 2 0)\<lparr>sv_raw := ''1.2.0''\<rparr>)"
proof -
  have u: "vm_lock sample_manager = Unlocked" by (simp add: sample_manager_def)
  have t: "vm_suggest_next_version (\<lambda>_. False) ''m'' ''minor'' sample_manager = Done sample_manager (Inr ''1.11.0'')"
    by (simp add: vm_suggest_next_version_def latest_version_eq [OF u] rows_of_def sample_parses)
      (simp add: sample_manager_def sample_version_def sample_parses is_greater_than_def sv_compare_def release_def
        next_version_def increments sv_string_def show_int_def show_nat.simps digit_of_def char_of_def bit_0)
  have "sample_version ''1.2.0'' \<in> set (vm_rows sample_manager)" "mv_model_id (sample_version ''1.2.0'') = ''m''"
    "parse_version (mv_version (sample_version ''1.2.0'')) = Inr ((release 1 2 0)\<lparr>sv_raw := ''1.2.0''\<rparr>)"
    by (simp_all add: sample_manager_def sample_version_def sample_parses)
  from suggested_version_new [OF u t _ this] t show ?thesis
    by (auto simp: sample_manager_def sample_version_def sample_parses release_def)
qed

end
