(* ===== verification/Plugins.thy ===== *)
theory Plugins
  imports Prelude
begin

text \<open>
  The plugin manager, \<^verbatim>\<open>plugins/manager.go\<close>, with the parts of \<^verbatim>\<open>plugins/loader.go\<close> that build a plugin from
  its manifest: installing, enabling, starting, stopping, disabling, configuring and uninstalling plugins,
  kept in memory and in the table \<^verbatim>\<open>plugins\<close>. The table is reached through a record of operations, one per
  SQL statement, with the contract \<open>plugin_table\<close> (theory \<open>PluginTable\<close> gives the statements a meaning). The
  instance of a plugin is an interface of the code and here a record of operations on values of any type. What is read from the source of a plugin (manifest, path,
  checksum) is an argument. Hooks only write log entries, and are left out with the log; so are the random
  ids of events. \<open>Install\<close> and \<open>Uninstall\<close> release the lock between their parts; here each is one step.
\<close>

section \<open>Plugins\<close>

datatype plugin_status = StatusInstalled | StatusEnabled | StatusDisabled | StatusRunning | StatusStopped
  | StatusError | StatusInstalling | StatusUninstalling

datatype event_type = EventInstalled | EventUninstalled | EventEnabled | EventDisabled | EventStarted
  | EventStopped | EventError | EventUpdated | EventConfigured

datatype plugin_error = ErrPluginNotFound | ErrSourceRequired | ErrReadManifest | ErrManifest string
  | ErrLoadPlugin plugin_error | ErrAlreadyInstalled | ErrPluginInvalid string | ErrChecksum
  | ErrSavePlugin | ErrUpdatePlugin | ErrDeletePlugin | ErrStopPlugin plugin_error
  | ErrDisablePlugin plugin_error | ErrStartPlugin plugin_error | ErrLoadInstance plugin_error
  | ErrInitialize plugin_error | ErrNotEnabled | ErrInstanceNotFound | ErrInstance string
  | ErrConfigureInstance plugin_error | ErrQueryPlugins | NilMapWrite | SliceOutOfRange

text \<open>A Go map that may be nil, as a plugin's configuration may.\<close>

type_synonym 'v go_map = "(string \<rightharpoonup> 'v) option"

record requirement =
  rq_name :: string
  rq_version :: string
  rq_type :: string

record 'v plugin_manifest =
  mf_api_version :: string
  mf_name :: string
  mf_version :: string
  mf_description :: string
  mf_type :: string
  mf_default :: "'v go_map"
  mf_permissions :: "string list"
  mf_requires :: "requirement list"

definition empty_manifest :: "'v plugin_manifest" where
  "empty_manifest = \<lparr>mf_api_version = [], mf_name = [], mf_version = [], mf_description = [], mf_type = [],
     mf_default = None, mf_permissions = [], mf_requires = []\<rparr>"

record 'v plugin =
  pg_id :: string
  pg_name :: string
  pg_version :: string
  pg_description :: string
  pg_type :: string
  pg_status :: plugin_status
  pg_enabled :: bool
  pg_manifest :: "'v plugin_manifest option"
  pg_config :: "'v go_map"
  pg_permissions :: "string list"
  pg_dependencies :: "string list"
  pg_path :: string
  pg_checksum :: string
  pg_installed_at :: time
  pg_updated_at :: time
  pg_last_started_at :: "time option"
  pg_last_stopped_at :: "time option"
  pg_error :: string

record plugin_event =
  pe_plugin :: string
  pe_type :: event_type
  pe_timestamp :: time

section \<open>The loader\<close>

definition valid_types :: "string list" where
  "valid_types = [''model'', ''inference'', ''storage'', ''auth'', ''monitoring'', ''integration'', ''cli'', ''custom'']"

definition validate_manifest :: "'v plugin_manifest \<Rightarrow> plugin_error option" where
  "validate_manifest mf =
     (if mf_api_version mf = [] then Some (ErrManifest ''API version is required'')
      else if mf_name mf = [] then Some (ErrManifest ''plugin name is required'')
      else if mf_version mf = [] then Some (ErrManifest ''plugin version is required'')
      else if mf_type mf = [] then Some (ErrManifest ''plugin type is required'')
      else if mf_type mf \<notin> set valid_types then Some (ErrManifest ''invalid plugin type'')
      else None)"

definition generate_plugin_id :: "'v plugin_manifest \<Rightarrow> string" where
  "generate_plugin_id mf = mf_name mf @ ''@'' @ mf_version mf"

definition extract_dependencies :: "'v plugin_manifest \<Rightarrow> string list" where
  "extract_dependencies mf = map rq_name (mf_requires mf)"

text \<open>\<open>manifest\<close> is what \<^verbatim>\<open>plugin.json\<close> in \<open>dir\<close> reads as, if it can be read and parsed.\<close>

definition load_from_directory :: "string \<Rightarrow> 'v plugin_manifest option \<Rightarrow> plugin_error + 'v plugin" where
  "load_from_directory dir manifest =
     (case manifest of
        None \<Rightarrow> Inl ErrReadManifest
      | Some mf \<Rightarrow>
          (case validate_manifest mf of
             Some e \<Rightarrow> Inl e
           | None \<Rightarrow> Inr \<lparr>pg_id = generate_plugin_id mf, pg_name = mf_name mf, pg_version = mf_version mf,
               pg_description = mf_description mf, pg_type = mf_type mf, pg_status = StatusInstalled,
               pg_enabled = False, pg_manifest = Some mf, pg_config = mf_default mf,
               pg_permissions = mf_permissions mf, pg_dependencies = extract_dependencies mf, pg_path = dir,
               pg_checksum = [], pg_installed_at = time_zero, pg_updated_at = time_zero,
               pg_last_started_at = None, pg_last_stopped_at = None, pg_error = []\<rparr>))"

text \<open>
  The interface \<^verbatim>\<open>PluginInterface\<close> and the loader's \<^verbatim>\<open>LoadPlugin\<close>, which makes an instance. An error of an instance
  is its text (except that \<^verbatim>\<open>Configure\<close> may panic). The map of a
  configuration is given in the order in which Go ranges over it. The only implementation in the source is
  \<^verbatim>\<open>BasePlugin\<close>; it keeps the configuration map of the plugin, here a copy of it, and never reads it.
\<close>

record ('v, 'i) instance_ops =
  io_load :: "'v plugin \<Rightarrow> plugin_error + 'i"
  io_initialize :: "'v go_map \<Rightarrow> 'i \<Rightarrow> 'i \<times> string option"
  io_start :: "'i \<Rightarrow> 'i \<times> string option"
  io_stop :: "'i \<Rightarrow> 'i \<times> string option"
  io_configure :: "(string \<times> 'v) list \<Rightarrow> 'i \<Rightarrow> 'i \<times> plugin_error option"
  io_health_check :: "'i \<Rightarrow> string option"
  io_cleanup :: "'i \<Rightarrow> 'i \<times> string option"

text \<open>Writing entries into a map; into a nil map the first write panics.\<close>

definition map_write :: "(string \<times> 'v) list \<Rightarrow> 'v go_map \<Rightarrow> plugin_error + 'v go_map" where
  "map_write kvs m =
     (case (kvs, m) of
        ([], _) \<Rightarrow> Inr m
      | (_, None) \<Rightarrow> Inl NilMapWrite
      | (_, Some f) \<Rightarrow> Inr (Some (fold (\<lambda>(k, v) f. f(k \<mapsto> v)) kvs f)))"

record 'v base_plugin =
  bp_id :: string
  bp_name :: string
  bp_version :: string
  bp_type :: string
  bp_config :: "'v go_map"

definition load_plugin :: "'v plugin \<Rightarrow> plugin_error + 'v base_plugin" where
  "load_plugin p =
     (if pg_manifest p = None then Inl (ErrManifest ''plugin manifest is required'')
      else Inr \<lparr>bp_id = pg_id p, bp_name = pg_name p, bp_version = pg_version p, bp_type = pg_type p,
             bp_config = pg_config p\<rparr>)"

definition base_ops :: "('v, 'v base_plugin) instance_ops" where
  "base_ops = \<lparr>io_load = load_plugin,
     io_initialize = (\<lambda>cfg i. (i\<lparr>bp_config := cfg\<rparr>, None)),
     io_start = (\<lambda>i. (i, None)), io_stop = (\<lambda>i. (i, None)),
     io_configure = (\<lambda>kvs i. case map_write kvs (bp_config i) of Inl e \<Rightarrow> (i, Some e) | Inr cfg \<Rightarrow> (i\<lparr>bp_config := cfg\<rparr>, None)),
     io_health_check = (\<lambda>i. None), io_cleanup = (\<lambda>i. (i, None))\<rparr>"

section \<open>The manager\<close>

text \<open>The statements on the table; the answer of a write is whether the call succeeded.\<close>

record ('v, 'd) plugin_db =
  pd_insert :: "'v plugin \<Rightarrow> 'd \<Rightarrow> 'd \<times> bool"
  pd_update :: "'v plugin \<Rightarrow> 'd \<Rightarrow> 'd \<times> bool"
  pd_delete :: "string \<Rightarrow> 'd \<Rightarrow> 'd \<times> bool"
  pd_select :: "'d \<Rightarrow> 'd \<times> 'v plugin list option"

record ('v, 'i, 'd) plugin_manager =
  pm_db :: 'd
  pm_plugins :: "string \<rightharpoonup> 'v plugin"
  pm_instances :: "string \<rightharpoonup> 'i"
  pm_events :: "plugin_event list"

definition emit_event :: "time \<Rightarrow> string \<Rightarrow> event_type \<Rightarrow> ('v, 'i, 'd) plugin_manager \<Rightarrow> ('v, 'i, 'd) plugin_manager" where
  "emit_event now pid t m =
     (if length (pm_events m) < 1000
      then m\<lparr>pm_events := pm_events m @ [\<lparr>pe_plugin = pid, pe_type = t, pe_timestamp = now\<rparr>]\<rparr> else m)"

definition put_plugin :: "'v plugin \<Rightarrow> ('v, 'i, 'd) plugin_manager \<Rightarrow> ('v, 'i, 'd) plugin_manager" where
  "put_plugin p m = m\<lparr>pm_plugins := (pm_plugins m)(pg_id p \<mapsto> p)\<rparr>"

definition save_plugin :: "('v, 'd) plugin_db \<Rightarrow> 'v plugin \<Rightarrow> ('v, 'i, 'd) plugin_manager \<Rightarrow> ('v, 'i, 'd) plugin_manager \<times> bool" where
  "save_plugin db p m = (case pd_insert db p (pm_db m) of (d, ok) \<Rightarrow> (m\<lparr>pm_db := d\<rparr>, ok))"

definition update_plugin :: "('v, 'd) plugin_db \<Rightarrow> 'v plugin \<Rightarrow> ('v, 'i, 'd) plugin_manager \<Rightarrow> ('v, 'i, 'd) plugin_manager \<times> bool" where
  "update_plugin db p m = (case pd_update db p (pm_db m) of (d, ok) \<Rightarrow> (m\<lparr>pm_db := d\<rparr>, ok))"

definition delete_plugin :: "('v, 'd) plugin_db \<Rightarrow> string \<Rightarrow> ('v, 'i, 'd) plugin_manager \<Rightarrow> ('v, 'i, 'd) plugin_manager \<times> bool" where
  "delete_plugin db pid m = (case pd_delete db pid (pm_db m) of (d, ok) \<Rightarrow> (m\<lparr>pm_db := d\<rparr>, ok))"

text \<open>
  The plugins are shared pointers: a handler changes the plugin in memory first and then writes it to the
  table, so that a failing call leaves the change in memory.
\<close>

definition write_through :: "('v, 'd) plugin_db \<Rightarrow> 'v plugin \<Rightarrow> ('v, 'i, 'd) plugin_manager \<Rightarrow> ('v, 'i, 'd) plugin_manager \<times> bool" where
  "write_through db p m = update_plugin db p (put_plugin p m)"

definition pm_enable :: "('v, 'd) plugin_db \<Rightarrow> ('v, 'i) instance_ops \<Rightarrow> time \<Rightarrow> string
    \<Rightarrow> ('v, 'i, 'd) plugin_manager \<Rightarrow> ('v, 'i, 'd) plugin_manager \<times> (plugin_error + 'v plugin)" where
  "pm_enable db io now pid m =
     (case pm_plugins m pid of
        None \<Rightarrow> (m, Inl ErrPluginNotFound)
      | Some p \<Rightarrow>
          if pg_enabled p then (m, Inr p)
          else (case io_load io p of
             Inl e \<Rightarrow> (m, Inl (ErrLoadInstance e))
           | Inr i \<Rightarrow>
               (case io_initialize io (pg_config p) i of
                  (_, Some e) \<Rightarrow> (m, Inl (ErrInitialize (ErrInstance e)))
                | (i, None) \<Rightarrow>
                    let q = p\<lparr>pg_enabled := True, pg_status := StatusEnabled, pg_updated_at := now, pg_error := []\<rparr>
                    in (case write_through db q m of
                          (m, False) \<Rightarrow> (m, Inl ErrUpdatePlugin)
                        | (m, True) \<Rightarrow>
                            (emit_event now pid EventEnabled (m\<lparr>pm_instances := (pm_instances m)(pid \<mapsto> i)\<rparr>), Inr q)))))"

definition stop_plugin :: "('v, 'd) plugin_db \<Rightarrow> ('v, 'i) instance_ops \<Rightarrow> time \<Rightarrow> 'v plugin
    \<Rightarrow> ('v, 'i, 'd) plugin_manager \<Rightarrow> ('v, 'i, 'd) plugin_manager \<times> plugin_error option" where
  "stop_plugin db io now p m =
     (if pg_status p \<noteq> StatusRunning then (m, None)
      else case pm_instances m (pg_id p) of
        None \<Rightarrow> (m, Some ErrInstanceNotFound)
      | Some i \<Rightarrow>
          (case io_stop io i of
             (i, Some e) \<Rightarrow>
               (fst (write_through db (p\<lparr>pg_status := StatusError, pg_error := e\<rparr>)
                  (m\<lparr>pm_instances := (pm_instances m)(pg_id p \<mapsto> i)\<rparr>)), Some (ErrInstance e))
           | (i, None) \<Rightarrow>
               (case write_through db (p\<lparr>pg_status := StatusStopped, pg_last_stopped_at := Some now, pg_updated_at := now\<rparr>)
                       (m\<lparr>pm_instances := (pm_instances m)(pg_id p \<mapsto> i)\<rparr>) of
                  (m, False) \<Rightarrow> (m, Some ErrUpdatePlugin)
                | (m, True) \<Rightarrow> (emit_event now (pg_id p) EventStopped m, None))))"

definition pm_stop :: "('v, 'd) plugin_db \<Rightarrow> ('v, 'i) instance_ops \<Rightarrow> time \<Rightarrow> string
    \<Rightarrow> ('v, 'i, 'd) plugin_manager \<Rightarrow> ('v, 'i, 'd) plugin_manager \<times> plugin_error option" where
  "pm_stop db io now pid m =
     (case pm_plugins m pid of
        None \<Rightarrow> (m, Some ErrPluginNotFound)
      | Some p \<Rightarrow> stop_plugin db io now p m)"

definition pm_disable :: "('v, 'd) plugin_db \<Rightarrow> ('v, 'i) instance_ops \<Rightarrow> time \<Rightarrow> string
    \<Rightarrow> ('v, 'i, 'd) plugin_manager \<Rightarrow> ('v, 'i, 'd) plugin_manager \<times> (plugin_error + 'v plugin)" where
  "pm_disable db io now pid m =
     (case pm_plugins m pid of
        None \<Rightarrow> (m, Inl ErrPluginNotFound)
      | Some p \<Rightarrow>
          if \<not> pg_enabled p then (m, Inr p)
          else (case stop_plugin db io now p m of
             (m, Some e) \<Rightarrow> (m, Inl (ErrStopPlugin e))
           | (m, None) \<Rightarrow>
               (case pm_plugins m pid of
                  None \<Rightarrow> (m, Inl ErrPluginNotFound)
                | Some p \<Rightarrow>
                    let q = p\<lparr>pg_enabled := False, pg_status := StatusDisabled, pg_updated_at := now\<rparr>
                    in (case write_through db q (m\<lparr>pm_instances := (pm_instances m)(pid := None)\<rparr>) of
                          (m, False) \<Rightarrow> (m, Inl ErrUpdatePlugin)
                        | (m, True) \<Rightarrow> (emit_event now pid EventDisabled m, Inr q)))))"

definition pm_start :: "('v, 'd) plugin_db \<Rightarrow> ('v, 'i) instance_ops \<Rightarrow> time \<Rightarrow> string
    \<Rightarrow> ('v, 'i, 'd) plugin_manager \<Rightarrow> ('v, 'i, 'd) plugin_manager \<times> plugin_error option" where
  "pm_start db io now pid m =
     (case pm_plugins m pid of
        None \<Rightarrow> (m, Some ErrPluginNotFound)
      | Some p \<Rightarrow>
          if \<not> pg_enabled p then (m, Some ErrNotEnabled)
          else if pg_status p = StatusRunning then (m, None)
          else (case pm_instances m pid of
             None \<Rightarrow> (m, Some ErrInstanceNotFound)
           | Some i \<Rightarrow>
               (case io_start io i of
                  (i, Some e) \<Rightarrow>
                    (fst (write_through db (p\<lparr>pg_status := StatusError, pg_error := e\<rparr>)
                       (m\<lparr>pm_instances := (pm_instances m)(pid \<mapsto> i)\<rparr>)), Some (ErrStartPlugin (ErrInstance e)))
                | (i, None) \<Rightarrow>
                    (case write_through db (p\<lparr>pg_status := StatusRunning, pg_last_started_at := Some now,
                              pg_updated_at := now, pg_error := []\<rparr>) (m\<lparr>pm_instances := (pm_instances m)(pid \<mapsto> i)\<rparr>) of
                       (m, False) \<Rightarrow> (m, Some ErrUpdatePlugin)
                     | (m, True) \<Rightarrow> (emit_event now pid EventStarted m, None)))))"

definition pm_update :: "('v, 'd) plugin_db \<Rightarrow> time \<Rightarrow> string \<Rightarrow> 'v go_map
    \<Rightarrow> ('v, 'i, 'd) plugin_manager \<Rightarrow> ('v, 'i, 'd) plugin_manager \<times> (plugin_error + 'v plugin)" where
  "pm_update db now pid cfg m =
     (case pm_plugins m pid of
        None \<Rightarrow> (m, Inl ErrPluginNotFound)
      | Some p \<Rightarrow>
          let q = p\<lparr>pg_config := (if cfg = None then pg_config p else cfg), pg_updated_at := now\<rparr>
          in (case write_through db q m of
                (m, False) \<Rightarrow> (m, Inl ErrUpdatePlugin)
              | (m, True) \<Rightarrow> (emit_event now pid EventUpdated m, Inr q)))"

definition pm_configure :: "('v, 'd) plugin_db \<Rightarrow> ('v, 'i) instance_ops \<Rightarrow> time \<Rightarrow> string \<Rightarrow> (string \<times> 'v) list
    \<Rightarrow> ('v, 'i, 'd) plugin_manager \<Rightarrow> ('v, 'i, 'd) plugin_manager \<times> plugin_error option" where
  "pm_configure db io now pid kvs m =
     (case pm_plugins m pid of
        None \<Rightarrow> (m, Some ErrPluginNotFound)
      | Some p \<Rightarrow>
          (case map_write kvs (pg_config p) of
             Inl e \<Rightarrow> (m, Some e)
           | Inr cfg \<Rightarrow>
               (case write_through db (p\<lparr>pg_config := cfg, pg_updated_at := now\<rparr>) m of
                  (m, False) \<Rightarrow> (m, Some ErrUpdatePlugin)
                | (m, True) \<Rightarrow>
                    (case pm_instances m pid of
                       None \<Rightarrow> (emit_event now pid EventConfigured m, None)
                     | Some i \<Rightarrow>
                         (case io_configure io kvs i of
                            (i, Some e) \<Rightarrow> (m\<lparr>pm_instances := (pm_instances m)(pid \<mapsto> i)\<rparr>, Some (ErrConfigureInstance e))
                          | (i, None) \<Rightarrow> (emit_event now pid EventConfigured
                                (m\<lparr>pm_instances := (pm_instances m)(pid \<mapsto> i)\<rparr>), None))))))"

section \<open>Installing and uninstalling\<close>

definition validate_plugin :: "'v plugin \<Rightarrow> plugin_error option" where
  "validate_plugin p =
     (if pg_id p = [] then Some (ErrPluginInvalid ''plugin ID is required'')
      else if pg_name p = [] then Some (ErrPluginInvalid ''plugin name is required'')
      else if pg_version p = [] then Some (ErrPluginInvalid ''plugin version is required'')
      else case pg_manifest p of
        None \<Rightarrow> Some (ErrPluginInvalid ''plugin manifest is required'')
      | Some mf \<Rightarrow> if mf_api_version mf \<noteq> ''1.0'' then Some (ErrPluginInvalid ''unsupported API version'') else None)"

text \<open>The dependencies that are reported missing; the answer is only logged.\<close>

definition check_dependencies :: "'v plugin \<Rightarrow> ('v, 'i, 'd) plugin_manager \<Rightarrow> string list" where
  "check_dependencies p m = filter (\<lambda>dep. pm_plugins m dep = None) (pg_dependencies p)"

record 'v install_options =
  op_source :: string
  op_config :: "'v go_map"
  op_enable_after :: bool
  op_force :: bool

definition prepared :: "'v install_options \<Rightarrow> time \<Rightarrow> string \<Rightarrow> 'v plugin \<Rightarrow> 'v plugin" where
  "prepared opts now checksum p =
     p\<lparr>pg_config := (if op_config opts \<noteq> None then op_config opts
                      else case pg_manifest p of None \<Rightarrow> None | Some mf \<Rightarrow> mf_default mf),
       pg_status := StatusInstalled, pg_installed_at := now, pg_updated_at := now, pg_checksum := checksum\<rparr>"

definition pm_install :: "('v, 'd) plugin_db \<Rightarrow> ('v, 'i) instance_ops \<Rightarrow> time \<Rightarrow> 'v install_options \<Rightarrow> string
    \<Rightarrow> 'v plugin_manifest option \<Rightarrow> string option \<Rightarrow> ('v, 'i, 'd) plugin_manager
    \<Rightarrow> ('v, 'i, 'd) plugin_manager \<times> (plugin_error + string)" where
  "pm_install db io now opts dir manifest checksum m =
     (if op_source opts = [] then (m, Inl ErrSourceRequired)
      else case load_from_directory dir manifest of
        Inl e \<Rightarrow> (m, Inl (ErrLoadPlugin e))
      | Inr p \<Rightarrow>
          if pm_plugins m (pg_id p) \<noteq> None \<and> \<not> op_force opts then (m, Inl ErrAlreadyInstalled)
          else case validate_plugin p of
            Some e \<Rightarrow> (m, Inl e)
          | None \<Rightarrow>
              (case checksum of
                 None \<Rightarrow> (m, Inl ErrChecksum)
               | Some c \<Rightarrow>
                   let p = prepared opts now c p
                   in (case save_plugin db p m of
                         (m, False) \<Rightarrow> (m, Inl ErrSavePlugin)
                       | (m, True) \<Rightarrow>
                           let m = emit_event now (pg_id p) EventInstalled (put_plugin p m)
                           in (if op_enable_after opts then fst (pm_enable db io now (pg_id p) m) else m, Inr (pg_id p)))))"

text \<open>The part of \<^verbatim>\<open>Uninstall\<close> after the plugin has been stopped and disabled.\<close>

definition uninstall_rest :: "('v, 'd) plugin_db \<Rightarrow> time \<Rightarrow> string
    \<Rightarrow> ('v, 'i, 'd) plugin_manager \<Rightarrow> ('v, 'i, 'd) plugin_manager \<times> plugin_error option" where
  "uninstall_rest db now pid m =
     (case delete_plugin db pid m of
        (m, False) \<Rightarrow> (m, Some ErrDeletePlugin)
      | (m, True) \<Rightarrow>
          (emit_event now pid EventUninstalled
             (m\<lparr>pm_plugins := (pm_plugins m)(pid := None), pm_instances := (pm_instances m)(pid := None)\<rparr>), None))"

definition uninstall_disable :: "('v, 'd) plugin_db \<Rightarrow> ('v, 'i) instance_ops \<Rightarrow> time \<Rightarrow> string
    \<Rightarrow> ('v, 'i, 'd) plugin_manager \<Rightarrow> ('v, 'i, 'd) plugin_manager \<times> plugin_error option" where
  "uninstall_disable db io now pid m =
     (case pm_plugins m pid of
        None \<Rightarrow> (m, Some (ErrDisablePlugin ErrPluginNotFound))
      | Some p \<Rightarrow>
          if pg_enabled p
          then (case pm_disable db io now pid m of
                  (m, Inl e) \<Rightarrow> (m, Some (ErrDisablePlugin e))
                | (m, Inr _) \<Rightarrow> uninstall_rest db now pid m)
          else uninstall_rest db now pid m)"

definition pm_uninstall :: "('v, 'd) plugin_db \<Rightarrow> ('v, 'i) instance_ops \<Rightarrow> time \<Rightarrow> string
    \<Rightarrow> ('v, 'i, 'd) plugin_manager \<Rightarrow> ('v, 'i, 'd) plugin_manager \<times> plugin_error option" where
  "pm_uninstall db io now pid m =
     (case pm_plugins m pid of
        None \<Rightarrow> (m, Some ErrPluginNotFound)
      | Some p \<Rightarrow>
          if pg_status p = StatusRunning
          then (case pm_stop db io now pid m of
                  (m, Some e) \<Rightarrow> (m, Some (ErrStopPlugin e))
                | (m, None) \<Rightarrow> uninstall_disable db io now pid m)
          else uninstall_disable db io now pid m)"

section \<open>Listing, closing and restarting\<close>

record plugin_filter =
  fp_status :: "plugin_status list"
  fp_type :: "string list"
  fp_enabled :: "bool option"
  fp_page :: int
  fp_page_size :: int

record 'v plugin_list =
  pl_plugins :: "'v plugin list"
  pl_total :: int
  pl_page :: int
  pl_page_size :: int
  pl_total_pages :: int

definition plugin_matches :: "plugin_filter \<Rightarrow> 'v plugin \<Rightarrow> bool" where
  "plugin_matches f p \<longleftrightarrow> (fp_status f \<noteq> [] \<longrightarrow> pg_status p \<in> set (fp_status f))
     \<and> (fp_type f \<noteq> [] \<longrightarrow> pg_type p \<in> set (fp_type f))
     \<and> (case fp_enabled f of None \<Rightarrow> True | Some b \<Rightarrow> pg_enabled p = b)"

text \<open>
  The slice \<^verbatim>\<open>plugins[start:end]\<close> of a page; \<^verbatim>\<open>end\<close> is never above the length, and the slice panics when
  \<^verbatim>\<open>start\<close> is negative or above \<^verbatim>\<open>end\<close>.
\<close>

definition page_slice :: "int \<Rightarrow> int \<Rightarrow> 'v plugin list \<Rightarrow> plugin_error + 'v plugin_list" where
  "page_slice n page ps =
     (let total = int (length ps);
          lo = (page - 1) * n;
          hi = (if lo + n > total then total else lo + n);
          pages = (if go_mod total n > 0 then go_div total n + 1 else go_div total n)
      in if lo < 0 \<or> hi < lo then Inl SliceOutOfRange
         else Inr \<lparr>pl_plugins = take (nat (hi - lo)) (drop (nat lo) ps), pl_total = total, pl_page = page,
                pl_page_size = n, pl_total_pages = pages\<rparr>)"

definition page_of :: "plugin_filter \<Rightarrow> 'v plugin list \<Rightarrow> plugin_error + 'v plugin_list" where
  "page_of f ps = page_slice (if fp_page_size f = 0 then 20 else fp_page_size f) (if fp_page f = 0 then 1 else fp_page f) ps"

definition pm_list :: "string list \<Rightarrow> plugin_filter \<Rightarrow> ('v, 'i, 'd) plugin_manager \<Rightarrow> plugin_error + 'v plugin_list" where
  "pm_list ks f m = page_of f (filter (plugin_matches f) (map snd (visit ks (pm_plugins m))))"

definition pm_health_check :: "('v, 'i) instance_ops \<Rightarrow> string \<Rightarrow> ('v, 'i, 'd) plugin_manager \<Rightarrow> plugin_error option" where
  "pm_health_check io pid m =
     (case pm_instances m pid of None \<Rightarrow> Some ErrInstanceNotFound | Some i \<Rightarrow> map_option ErrInstance (io_health_check io i))"

text \<open>The background goroutine takes an event off the channel and writes it to its table.\<close>

definition process_event :: "('v, 'i, 'd) plugin_manager \<Rightarrow> ('v, 'i, 'd) plugin_manager \<times> plugin_event option" where
  "process_event m = (case pm_events m of [] \<Rightarrow> (m, None) | e # es \<Rightarrow> (m\<lparr>pm_events := es\<rparr>, Some e))"

text \<open>
  \<^verbatim>\<open>Close\<close> stops every instance and cleans it up, in the order \<open>ks\<close>; errors are logged. Neither the plugins nor
  the table learn of it.
\<close>

definition close_instance :: "('v, 'i) instance_ops \<Rightarrow> string \<Rightarrow> ('v, 'i, 'd) plugin_manager \<Rightarrow> ('v, 'i, 'd) plugin_manager" where
  "close_instance io pid m =
     (case pm_instances m pid of
        None \<Rightarrow> m
      | Some i \<Rightarrow> m\<lparr>pm_instances := (pm_instances m)(pid \<mapsto> fst (io_cleanup io (fst (io_stop io i))))\<rparr>)"

definition pm_close :: "('v, 'i) instance_ops \<Rightarrow> string list \<Rightarrow> ('v, 'i, 'd) plugin_manager \<Rightarrow> ('v, 'i, 'd) plugin_manager" where
  "pm_close io ks m = fold (close_instance io) ks m"

text \<open>
  What a time and a JSON value are after a round trip through their columns (a time loses what is finer than
  a microsecond, an integer comes back as a \<^verbatim>\<open>float64\<close>). A second round trip changes nothing.
\<close>

record 'v columns =
  cl_time :: "time \<Rightarrow> time"
  cl_value :: "'v \<Rightarrow> 'v"

definition stable_columns :: "'v columns \<Rightarrow> bool" where
  "stable_columns cl \<longleftrightarrow> (\<forall>t. cl_time cl (cl_time cl t) = cl_time cl t) \<and> (\<forall>v. cl_value cl (cl_value cl v) = cl_value cl v)"

text \<open>A nil map is stored as \<^verbatim>\<open>null\<close>, which is read back as a nil map.\<close>

definition loaded_map :: "'v columns \<Rightarrow> 'v go_map \<Rightarrow> 'v go_map" where
  "loaded_map cl = map_option (\<lambda>f. map_option (cl_value cl) \<circ> f)"

definition loaded_manifest :: "'v columns \<Rightarrow> 'v plugin_manifest \<Rightarrow> 'v plugin_manifest" where
  "loaded_manifest cl mf = mf\<lparr>mf_default := loaded_map cl (mf_default mf)\<rparr>"

text \<open>
  A row as it is read back. A nil manifest is stored as \<^verbatim>\<open>null\<close> too, but is read into an empty manifest, which it
  leaves as it is.
\<close>

definition loaded_row :: "'v columns \<Rightarrow> 'v plugin \<Rightarrow> 'v plugin" where
  "loaded_row cl p =
     p\<lparr>pg_manifest := Some (case pg_manifest p of None \<Rightarrow> empty_manifest | Some mf \<Rightarrow> loaded_manifest cl mf),
       pg_config := loaded_map cl (pg_config p),
       pg_installed_at := cl_time cl (pg_installed_at p), pg_updated_at := cl_time cl (pg_updated_at p),
       pg_last_started_at := map_option (cl_time cl) (pg_last_started_at p),
       pg_last_stopped_at := map_option (cl_time cl) (pg_last_stopped_at p)\<rparr>"

definition load_plugins_from_db :: "'v columns \<Rightarrow> ('v, 'd) plugin_db \<Rightarrow> ('v, 'i, 'd) plugin_manager
    \<Rightarrow> ('v, 'i, 'd) plugin_manager \<times> plugin_error option" where
  "load_plugins_from_db cl db m =
     (case pd_select db (pm_db m) of
        (d, None) \<Rightarrow> (m\<lparr>pm_db := d\<rparr>, Some ErrQueryPlugins)
      | (d, Some ps) \<Rightarrow>
          (m\<lparr>pm_db := d, pm_plugins := fold (\<lambda>p f. f(pg_id p \<mapsto> loaded_row cl p)) ps (pm_plugins m)\<rparr>, None))"

definition new_plugin_manager :: "'v columns \<Rightarrow> ('v, 'd) plugin_db \<Rightarrow> 'd \<Rightarrow> plugin_error + ('v, 'i, 'd) plugin_manager" where
  "new_plugin_manager cl db d =
     (case load_plugins_from_db cl db \<lparr>pm_db = d, pm_plugins = Map.empty, pm_instances = Map.empty, pm_events = []\<rparr> of
        (_, Some e) \<Rightarrow> Inl e
      | (m, None) \<Rightarrow> Inr m)"

section \<open>Runs of the manager\<close>

inductive plugin_step :: "('v, 'd) plugin_db \<Rightarrow> ('v, 'i) instance_ops
    \<Rightarrow> ('v, 'i, 'd) plugin_manager \<Rightarrow> ('v, 'i, 'd) plugin_manager \<Rightarrow> bool" for db io where
  install: "pm_install db io now opts dir manifest checksum m = (m', r) \<Longrightarrow> plugin_step db io m m'"
| uninstall: "pm_uninstall db io now pid m = (m', err) \<Longrightarrow> plugin_step db io m m'"
| enable: "pm_enable db io now pid m = (m', q) \<Longrightarrow> plugin_step db io m m'"
| disable: "pm_disable db io now pid m = (m', q) \<Longrightarrow> plugin_step db io m m'"
| start: "pm_start db io now pid m = (m', err) \<Longrightarrow> plugin_step db io m m'"
| stop: "pm_stop db io now pid m = (m', err) \<Longrightarrow> plugin_step db io m m'"
| update: "pm_update db now pid cfg m = (m', q) \<Longrightarrow> plugin_step db io m m'"
| configure: "pm_configure db io now pid kvs m = (m', err) \<Longrightarrow> plugin_step db io m m'"
| event: "process_event m = (m', e) \<Longrightarrow> plugin_step db io m m'"

section \<open>What the manager relies on\<close>

definition update_row :: "'v plugin \<Rightarrow> (string \<rightharpoonup> 'v plugin) \<Rightarrow> string \<rightharpoonup> 'v plugin" where
  "update_row p f =
     (case f (pg_id p) of None \<Rightarrow> f | Some r \<Rightarrow> f(pg_id p \<mapsto> p\<lparr>pg_installed_at := pg_installed_at r\<rparr>))"

lemma dom_update_row [simp]: "dom (update_row p f) = dom f"
  by (auto simp: update_row_def split: option.splits if_splits)

text \<open>
  The plugin and the instance of an id are in order when a running plugin is enabled and has an instance, and an
  instance belongs to an enabled plugin. A plugin is stranded when it is
  enabled and running but has no instance.
\<close>

definition cell_in_order :: "'v plugin option \<Rightarrow> 'i option \<Rightarrow> bool" where
  "cell_in_order q j = (case q of
       None \<Rightarrow> j = None
     | Some p \<Rightarrow> (pg_status p = StatusRunning \<longrightarrow> pg_enabled p \<and> j \<noteq> None) \<and> (j \<noteq> None \<longrightarrow> pg_enabled p))"

definition cell_stranded :: "'v plugin option \<Rightarrow> 'i option \<Rightarrow> bool" where
  "cell_stranded q j = (case q of None \<Rightarrow> False | Some p \<Rightarrow> pg_status p = StatusRunning \<and> pg_enabled p \<and> j = None)"

definition in_order :: "('v, 'i, 'd) plugin_manager \<Rightarrow> string \<Rightarrow> bool" where
  "in_order m pid = cell_in_order (pm_plugins m pid) (pm_instances m pid)"

definition stranded :: "('v, 'i, 'd) plugin_manager \<Rightarrow> string \<Rightarrow> bool" where
  "stranded m pid = cell_stranded (pm_plugins m pid) (pm_instances m pid)"

lemma fold_rows_other:
  "pid \<notin> pg_id ` set ps \<Longrightarrow> fold (\<lambda>p f. f(pg_id p \<mapsto> loaded_row cl p)) ps f pid = f pid"
  by (induction ps arbitrary: f) auto

lemma fold_rows:
  "distinct (map pg_id ps) \<Longrightarrow> p \<in> set ps
    \<Longrightarrow> fold (\<lambda>p f. f(pg_id p \<mapsto> loaded_row cl p)) ps f (pg_id p) = Some (loaded_row cl p)"
  by (induction ps arbitrary: f) (auto simp: fold_rows_other)

text \<open>
  \<open>rows\<close> is the content of the table by id, \<open>good\<close> its invariant. A failing call changes nothing; the id is the
  primary key, so a row is only inserted under a new one; \<^verbatim>\<open>UPDATE\<close> leaves the installation time and does
  nothing when there is no row.
\<close>

locale plugin_table =
  fixes db :: "('v, 'd) plugin_db" and rows :: "'d \<Rightarrow> string \<rightharpoonup> 'v plugin" and good :: "'d \<Rightarrow> bool"
  assumes insert: "good d \<Longrightarrow> pd_insert db p d = (d', ok) \<Longrightarrow> good d'
        \<and> rows d' = (if ok then (rows d)(pg_id p \<mapsto> p) else rows d) \<and> (ok \<longrightarrow> rows d (pg_id p) = None)"
    and update: "good d \<Longrightarrow> pd_update db p d = (d', ok) \<Longrightarrow> good d'
        \<and> rows d' = (if ok then update_row p (rows d) else rows d)"
    and delete: "good d \<Longrightarrow> pd_delete db pid d = (d', ok) \<Longrightarrow> good d'
        \<and> rows d' = (if ok then (rows d)(pid := None) else rows d)"
    and select: "good d \<Longrightarrow> pd_select db d = (d', r) \<Longrightarrow> good d' \<and> rows d' = rows d
        \<and> (\<forall>ps. r = Some ps \<longrightarrow> distinct (map pg_id ps)
             \<and> (\<forall>pid p. rows d pid = Some p \<longleftrightarrow> p \<in> set ps \<and> pg_id p = pid))"
begin

text \<open>
  \<open>based m\<close>: memory and table know the same plugins, each under its id. Every operation changes the plugin and
  the instance of one id only; what it keeps is stated for that id (\<open>keeps\<close>).
\<close>

definition based :: "('v, 'i, 'd) plugin_manager \<Rightarrow> bool" where
  "based m \<longleftrightarrow> good (pm_db m) \<and> dom (rows (pm_db m)) = dom (pm_plugins m)
     \<and> (\<forall>pid p. pm_plugins m pid = Some p \<longrightarrow> pg_id p = pid)"

definition keeps :: "string \<Rightarrow> ('v, 'i, 'd) plugin_manager \<Rightarrow> ('v, 'i, 'd) plugin_manager \<Rightarrow> bool" where
  "keeps pid m m' \<longleftrightarrow> based m' \<and> (\<forall>k. k \<noteq> pid \<longrightarrow> pm_plugins m' k = pm_plugins m k \<and> pm_instances m' k = pm_instances m k)
     \<and> (in_order m pid \<longrightarrow> in_order m' pid) \<and> (stranded m pid \<longrightarrow> stranded m' pid)"

lemma keeps_refl: "based m \<Longrightarrow> keeps pid m m"
  by (simp add: keeps_def)

lemma keeps_trans: "keeps pid m m1 \<Longrightarrow> keeps pid m1 m2 \<Longrightarrow> keeps pid m m2"
  by (simp add: keeps_def)

lemma keepsI:
  assumes "based m'" "pm_plugins m' = (pm_plugins m)(pid := q)" "pm_instances m' = (pm_instances m)(pid := j)"
    and "cell_in_order (pm_plugins m pid) (pm_instances m pid) \<Longrightarrow> cell_in_order q j"
    and "cell_stranded (pm_plugins m pid) (pm_instances m pid) \<Longrightarrow> cell_stranded q j"
  shows "keeps pid m m'"
  using assms by (simp add: keeps_def in_order_def stranded_def)

lemma emit_event_fields [simp]:
  "pm_plugins (emit_event now pid t m) = pm_plugins m" "pm_instances (emit_event now pid t m) = pm_instances m"
  "pm_db (emit_event now pid t m) = pm_db m"
  by (simp_all add: emit_event_def)

lemma based_emit [simp]: "based (emit_event now pid t m) = based m"
  by (simp add: based_def emit_event_def)

lemma based_instances [simp]: "based (m\<lparr>pm_instances := f\<rparr>) = based m"
  by (simp add: based_def)

lemma wrote_through:
  assumes "based m" "write_through db p m = (m', ok)" "pg_id p \<in> dom (pm_plugins m)"
  shows "based m' \<and> pm_plugins m' = (pm_plugins m)(pg_id p \<mapsto> p) \<and> pm_instances m' = pm_instances m
    \<and> pm_events m' = pm_events m"
proof -
  obtain d where u: "pd_update db p (pm_db m) = (d, ok)" and m': "m' = (put_plugin p m)\<lparr>pm_db := d\<rparr>"
    using assms(2) by (auto simp: write_through_def update_plugin_def put_plugin_def split: prod.splits)
  from update [OF _ u] assms(1) have "good d" "rows d = (if ok then update_row p (rows (pm_db m)) else rows (pm_db m))"
    by (auto simp: based_def)
  with assms(1,3) show ?thesis by (auto simp: m' put_plugin_def based_def)
qed

lemma keeps_emit [simp]: "keeps pid m (emit_event now k t m') = keeps pid m m'"
  by (simp add: keeps_def in_order_def stranded_def)

text \<open>Writing a changed plugin through keeps order when the change itself does.\<close>

lemma keeps_write:
  assumes "based m" "pm_plugins m pid = Some p" "pg_id q = pid"
    and "write_through db q (m\<lparr>pm_instances := f\<rparr>) = (m', ok)" "\<And>k. k \<noteq> pid \<Longrightarrow> f k = pm_instances m k"
    and "cell_in_order (Some p) (pm_instances m pid) \<Longrightarrow> cell_in_order (Some q) (f pid)"
    and "cell_stranded (Some p) (pm_instances m pid) \<Longrightarrow> cell_stranded (Some q) (f pid)"
  shows "keeps pid m m'"
proof -
  have w: "based m'" "pm_plugins m' = (pm_plugins m)(pid \<mapsto> q)" "pm_instances m' = f"
    using wrote_through [OF _ assms(4)] assms(1-3) by auto
  with assms(2,5-7) show ?thesis by (auto simp: keeps_def in_order_def stranded_def)
qed

lemma based_id: "based m \<Longrightarrow> pm_plugins m pid = Some p \<Longrightarrow> pg_id p = pid"
  by (auto simp: based_def)

lemma stop_plugin_result:
  assumes "based m" "pm_plugins m pid = Some p" "stop_plugin db io now p m = (m', err)"
  shows "keeps pid m m' \<and> (err = None \<longrightarrow> (\<exists>p'. pm_plugins m' pid = Some p' \<and> pg_status p' \<noteq> StatusRunning))"
proof (cases "pg_status p = StatusRunning \<and> pm_instances m pid \<noteq> None")
  case True
  then obtain i where run: "pg_status p = StatusRunning" and i: "pm_instances m pid = Some i" by auto
  obtain j e where stop: "io_stop io i = (j, e)" by fastforce
  define q where "q = (case e of Some t \<Rightarrow> p\<lparr>pg_status := StatusError, pg_error := t\<rparr>
    | None \<Rightarrow> p\<lparr>pg_status := StatusStopped, pg_last_stopped_at := Some now, pg_updated_at := now\<rparr>)"
  obtain m1 ok where w: "write_through db q (m\<lparr>pm_instances := (pm_instances m)(pid \<mapsto> j)\<rparr>) = (m1, ok)" by fastforce
  have id: "pg_id p = pid" using assms by (simp add: based_id)
  have q: "pg_id q = pid" "pg_status q \<noteq> StatusRunning" by (auto simp: q_def id split: option.splits)
  have "keeps pid m m1"
    by (rule keeps_write [OF assms(1,2) q(1) w])
      (use i run in \<open>auto simp: q_def cell_in_order_def cell_stranded_def split: option.splits\<close>)
  moreover have "pm_plugins m1 pid = Some q"
    using wrote_through [OF _ w] assms(1,2) q(1) by (simp add: domIff)
  moreover have "m' = m1 \<or> m' = emit_event now pid EventStopped m1"
    using assms(3) run i stop w by (auto simp: stop_plugin_def q_def id split: option.splits bool.splits)
  ultimately show ?thesis using q(2) by auto
next
  case False
  with assms(3) have "m' = m \<and> (err = None \<longrightarrow> pg_status p \<noteq> StatusRunning)"
    by (auto simp: stop_plugin_def based_id [OF assms(1,2)] split: if_splits)
  with assms(1,2) show ?thesis by (auto simp: keeps_refl)
qed

lemma keeps_stop: "based m \<Longrightarrow> pm_stop db io now pid m = (m', err) \<Longrightarrow> keeps pid m m'"
  by (auto simp: pm_stop_def keeps_refl split: option.splits dest: stop_plugin_result)

lemma keeps_enable:
  assumes "based m" "pm_enable db io now pid m = (m', r)"
  shows "keeps pid m m'"
proof (cases "m' = m")
  case False
  then obtain p i j where p: "pm_plugins m pid = Some p" "\<not> pg_enabled p"
      and i: "io_load io p = Inr i" "io_initialize io (pg_config p) i = (j, None)"
    using assms(2) by (auto simp: pm_enable_def split: option.splits if_splits sum.splits prod.splits)
  define q where "q = p\<lparr>pg_enabled := True, pg_status := StatusEnabled, pg_updated_at := now, pg_error := []\<rparr>"
  obtain m1 ok where w: "write_through db q m = (m1, ok)" by fastforce
  have id: "pg_id q = pid" using assms p by (auto simp: q_def based_id)
  have w1: "based m1" "pm_plugins m1 = (pm_plugins m)(pid \<mapsto> q)" "pm_instances m1 = pm_instances m"
    using wrote_through [OF assms(1) w] p id by auto
  have "m' = m1 \<or> m' = emit_event now pid EventEnabled (m1\<lparr>pm_instances := (pm_instances m1)(pid \<mapsto> j)\<rparr>)"
    using assms(2) p i w by (auto simp: pm_enable_def q_def split: bool.splits)
  moreover have "keeps pid m m1" "keeps pid m (m1\<lparr>pm_instances := (pm_instances m1)(pid \<mapsto> j)\<rparr>)"
    using w1 p by (auto simp: keeps_def in_order_def stranded_def q_def cell_in_order_def cell_stranded_def)
  ultimately show ?thesis by auto
qed (simp add: assms keeps_refl)

lemma keeps_disable:
  assumes "based m" "pm_disable db io now pid m = (m', r)"
  shows "keeps pid m m'"
proof (cases "\<exists>p. pm_plugins m pid = Some p \<and> pg_enabled p")
  case True
  then obtain p where p: "pm_plugins m pid = Some p" "pg_enabled p" by blast
  obtain m1 e where s: "stop_plugin db io now p m = (m1, e)" by fastforce
  have k1: "keeps pid m m1" and s1: "e = None \<Longrightarrow> \<exists>p'. pm_plugins m1 pid = Some p' \<and> pg_status p' \<noteq> StatusRunning"
    using stop_plugin_result [OF assms(1) p(1) s] by blast+
  then have b1: "based m1" by (simp add: keeps_def)
  show ?thesis
  proof (cases "e = None")
    case True
    then obtain p1 where p1: "pm_plugins m1 pid = Some p1" "pg_status p1 \<noteq> StatusRunning" using s1 by blast
    define q where "q = p1\<lparr>pg_enabled := False, pg_status := StatusDisabled, pg_updated_at := now\<rparr>"
    obtain m2 ok where w: "write_through db q (m1\<lparr>pm_instances := (pm_instances m1)(pid := None)\<rparr>) = (m2, ok)" by fastforce
    have "keeps pid m1 m2"
      by (rule keeps_write [OF b1 p1(1) _ w])
        (use b1 p1 in \<open>auto simp: q_def cell_in_order_def cell_stranded_def based_id\<close>)
    with k1 have "keeps pid m m2" by (rule keeps_trans)
    moreover have "m' = m2 \<or> m' = emit_event now pid EventDisabled m2"
      using assms(2) p s p1 True w by (auto simp: pm_disable_def q_def split: bool.splits)
    ultimately show ?thesis by auto
  next
    case False
    then have "m' = m1" using assms(2) p s by (auto simp: pm_disable_def split: option.splits)
    with k1 show ?thesis by simp
  qed
next
  case False
  then have "m' = m" using assms(2) by (auto simp: pm_disable_def split: option.splits)
  with assms(1) show ?thesis by (simp add: keeps_refl)
qed

lemma keeps_start:
  assumes "based m" "pm_start db io now pid m = (m', r)"
  shows "keeps pid m m'"
proof (cases "m' = m")
  case False
  then obtain p i where p: "pm_plugins m pid = Some p" "pg_enabled p" "pg_status p \<noteq> StatusRunning"
      and i: "pm_instances m pid = Some i"
    using assms(2) by (auto simp: pm_start_def split: option.splits if_splits)
  obtain j e where start: "io_start io i = (j, e)" by fastforce
  define q where "q = (case e of Some t \<Rightarrow> p\<lparr>pg_status := StatusError, pg_error := t\<rparr>
    | None \<Rightarrow> p\<lparr>pg_status := StatusRunning, pg_last_started_at := Some now, pg_updated_at := now, pg_error := []\<rparr>)"
  obtain m1 ok where w: "write_through db q (m\<lparr>pm_instances := (pm_instances m)(pid \<mapsto> j)\<rparr>) = (m1, ok)" by fastforce
  have "keeps pid m m1"
    by (rule keeps_write [OF assms(1) p(1) _ w])
      (use i p based_id [OF assms(1) p(1)] in \<open>auto simp: q_def cell_in_order_def cell_stranded_def split: option.splits\<close>)
  moreover have "m' = m1 \<or> m' = emit_event now pid EventStarted m1"
    using assms(2) p i start w by (auto simp: pm_start_def q_def split: option.splits bool.splits)
  ultimately show ?thesis by auto
qed (simp add: assms keeps_refl)

text \<open>Changes of the configuration touch neither status nor instance.\<close>

lemma keeps_rewrite:
  assumes "based m" "pm_plugins m pid = Some p" "write_through db q m = (m', ok)"
    and "pg_id q = pg_id p" "pg_status q = pg_status p" "pg_enabled q = pg_enabled p"
  shows "keeps pid m m'"
  by (rule keeps_write [of m pid p q "pm_instances m"])
    (use assms in \<open>auto simp: cell_in_order_def cell_stranded_def based_id\<close>)

lemma keeps_update:
  assumes "based m" "pm_update db now pid cfg m = (m', r)"
  shows "keeps pid m m'"
proof (cases "pm_plugins m pid")
  case (Some p)
  define q where "q = p\<lparr>pg_config := (if cfg = None then pg_config p else cfg), pg_updated_at := now\<rparr>"
  obtain m1 ok where w: "write_through db q m = (m1, ok)" by fastforce
  have "keeps pid m m1" by (rule keeps_rewrite [OF assms(1) Some w]) (simp_all add: q_def)
  moreover have "m' = m1 \<or> m' = emit_event now pid EventUpdated m1"
    using assms(2) Some w by (auto simp: pm_update_def q_def split: bool.splits)
  ultimately show ?thesis by auto
qed (use assms in \<open>simp add: pm_update_def keeps_refl\<close>)

lemma keeps_configure:
  assumes "based m" "pm_configure db io now pid kvs m = (m', r)"
  shows "keeps pid m m'"
proof (cases "m' = m")
  case False
  then obtain p cfg where p: "pm_plugins m pid = Some p" and cfg: "map_write kvs (pg_config p) = Inr cfg"
    using assms(2) by (auto simp: pm_configure_def split: option.splits sum.splits)
  obtain m1 ok where w: "write_through db (p\<lparr>pg_config := cfg, pg_updated_at := now\<rparr>) m = (m1, ok)" by fastforce
  have k1: "keeps pid m m1" by (rule keeps_rewrite [OF assms(1) p w]) simp_all
  then have b1: "based m1" by (simp add: keeps_def)
  show ?thesis
  proof (cases "ok \<and> pm_instances m1 pid \<noteq> None")
    case True
    then obtain i where i: "ok" "pm_instances m1 pid = Some i" by auto
    obtain j e where c: "io_configure io kvs i = (j, e)" by fastforce
    have "keeps pid m1 (m1\<lparr>pm_instances := (pm_instances m1)(pid \<mapsto> j)\<rparr>)"
      by (rule keepsI [where q = "pm_plugins m1 pid" and j = "Some j"])
        (use b1 i in \<open>auto simp: cell_in_order_def cell_stranded_def split: option.splits\<close>)
    with k1 have "keeps pid m (m1\<lparr>pm_instances := (pm_instances m1)(pid \<mapsto> j)\<rparr>)" by (rule keeps_trans)
    then show ?thesis using assms(2) p cfg w i c by (auto simp: pm_configure_def split: option.splits)
  next
    case False
    then have "m' = m1 \<or> m' = emit_event now pid EventConfigured m1"
      using assms(2) p cfg w by (auto simp: pm_configure_def split: bool.splits option.splits)
    with k1 show ?thesis by auto
  qed
qed (simp add: assms keeps_refl)

text \<open>Uninstalling gives up an id that is not stranded, so it keeps the rest only (\<open>frames\<close>).\<close>

definition frames :: "string \<Rightarrow> ('v, 'i, 'd) plugin_manager \<Rightarrow> ('v, 'i, 'd) plugin_manager \<Rightarrow> bool" where
  "frames pid m m' \<longleftrightarrow> based m' \<and> (\<forall>k. k \<noteq> pid \<longrightarrow> pm_plugins m' k = pm_plugins m k \<and> pm_instances m' k = pm_instances m k)
     \<and> (in_order m pid \<longrightarrow> in_order m' pid)"

lemma keeps_frames: "keeps pid m m' \<longleftrightarrow> frames pid m m' \<and> (stranded m pid \<longrightarrow> stranded m' pid)"
  by (auto simp: keeps_def frames_def)

lemma frames_trans: "frames pid m m1 \<Longrightarrow> frames pid m1 m2 \<Longrightarrow> frames pid m m2"
  by (simp add: frames_def)

lemma frames_uninstall_rest:
  assumes "based m" "uninstall_rest db now pid m = (m', err)"
  shows "frames pid m m'"
proof -
  obtain d ok where d: "pd_delete db pid (pm_db m) = (d, ok)" by fastforce
  with assms(1) delete [OF _ d]
  have r: "good d \<and> rows d = (if ok then (rows (pm_db m))(pid := None) else rows (pm_db m))"
    by (simp add: based_def)
  show ?thesis
  proof (cases ok)
    case True
    with assms(2) d have "m' = emit_event now pid EventUninstalled (m\<lparr>pm_db := d,
        pm_plugins := (pm_plugins m)(pid := None), pm_instances := (pm_instances m)(pid := None)\<rparr>)"
      by (simp add: uninstall_rest_def delete_plugin_def)
    with assms(1) r True show ?thesis by (auto simp: frames_def based_def in_order_def cell_in_order_def)
  next
    case False
    with assms(2) d have "m' = m\<lparr>pm_db := d\<rparr>" by (simp add: uninstall_rest_def delete_plugin_def)
    with assms(1) r False show ?thesis by (simp add: frames_def based_def in_order_def)
  qed
qed

lemma frames_uninstall_disable:
  assumes "based m" "uninstall_disable db io now pid m = (m', err)"
  shows "frames pid m m'"
proof (cases "\<exists>p. pm_plugins m pid = Some p \<and> pg_enabled p")
  case True
  then obtain p where p: "pm_plugins m pid = Some p" "pg_enabled p" by blast
  obtain m1 r where d: "pm_disable db io now pid m = (m1, r)" by fastforce
  have k: "frames pid m m1" using keeps_disable [OF assms(1) d] by (simp add: keeps_frames)
  show ?thesis
  proof (cases r)
    case (Inr q)
    with assms(2) p d have "uninstall_rest db now pid m1 = (m', err)" by (simp add: uninstall_disable_def)
    from frames_uninstall_rest [OF _ this] k have "frames pid m1 m'" by (simp add: frames_def)
    with k show ?thesis by (rule frames_trans)
  qed (use assms(2) p d k in \<open>auto simp: uninstall_disable_def\<close>)
next
  case False
  show ?thesis
  proof (cases "pm_plugins m pid")
    case (Some p)
    with False assms(2) have "uninstall_rest db now pid m = (m', err)" by (auto simp: uninstall_disable_def)
    with assms(1) show ?thesis by (rule frames_uninstall_rest)
  qed (use assms keeps_refl [of m pid] in \<open>auto simp: uninstall_disable_def keeps_frames\<close>)
qed

lemma stranded_refuses:
  assumes "based m" "stranded m pid"
  shows "pm_stop db io now pid m = (m, Some ErrInstanceNotFound)"
    and "pm_disable db io now pid m = (m, Inl (ErrStopPlugin ErrInstanceNotFound))"
    and "pm_uninstall db io now pid m = (m, Some (ErrStopPlugin ErrInstanceNotFound))"
    and "pm_start db io now pid m = (m, None)"
proof -
  obtain p where p: "pm_plugins m pid = Some p" "pg_status p = StatusRunning" "pg_enabled p" "pm_instances m pid = None"
    using assms(2) by (auto simp: stranded_def cell_stranded_def split: option.splits)
  with based_id [OF assms(1) p(1)]
  have s: "stop_plugin db io now p m = (m, Some ErrInstanceNotFound)" by (simp add: stop_plugin_def)
  with p show "pm_stop db io now pid m = (m, Some ErrInstanceNotFound)"
    and "pm_disable db io now pid m = (m, Inl (ErrStopPlugin ErrInstanceNotFound))"
    and "pm_uninstall db io now pid m = (m, Some (ErrStopPlugin ErrInstanceNotFound))"
    and "pm_start db io now pid m = (m, None)"
    by (simp_all add: pm_stop_def pm_disable_def pm_uninstall_def pm_start_def)
qed

lemma keeps_uninstall:
  assumes "based m" "pm_uninstall db io now pid m = (m', err)"
  shows "keeps pid m m'"
proof (cases "stranded m pid")
  case True
  with assms have "m' = m" by (simp add: stranded_refuses)
  with assms(1) show ?thesis by (simp add: keeps_refl)
next
  case False
  obtain m1 e where s: "pm_stop db io now pid m = (m1, e)" by fastforce
  have k: "frames pid m m1" using keeps_stop [OF assms(1) s] by (simp add: keeps_frames)
  then have b: "based m1" by (simp add: frames_def)
  have "m' = m \<or> m' = m1 \<or> uninstall_disable db io now pid m = (m', err) \<or> uninstall_disable db io now pid m1 = (m', err)"
    using assms(2) s by (auto simp: pm_uninstall_def split: option.splits if_splits)
  then have "frames pid m m'"
    using k frames_uninstall_disable [OF assms(1)] frames_uninstall_disable [OF b] keeps_refl [OF assms(1)]
    by (auto simp: keeps_frames intro: frames_trans)
  with False show ?thesis by (simp add: keeps_frames)
qed

text \<open>A plugin that is known is in the table, so it is never installed again; a new one starts disabled.\<close>

lemma loaded_plugin:
  "load_from_directory dir manifest = Inr p \<Longrightarrow> pg_status p = StatusInstalled \<and> \<not> pg_enabled p"
  by (auto simp: load_from_directory_def split: option.splits)

lemma write_through_plugins: "write_through db p m = (m', ok) \<Longrightarrow> pm_plugins m' = (pm_plugins m)(pg_id p \<mapsto> p)"
  by (auto simp: write_through_def update_plugin_def put_plugin_def split: prod.splits)

lemma known_after_enable:
  "pm_enable db io now pid m = (m', r) \<Longrightarrow> pm_plugins m k \<noteq> None \<Longrightarrow> pm_plugins m' k \<noteq> None"
  by (auto simp: pm_enable_def Let_def dest!: write_through_plugins
      split: option.splits if_splits sum.splits prod.splits bool.splits)

lemma keeps_install:
  assumes "based m" "pm_install db io now opts dir manifest checksum m = (m', r)"
  shows "\<exists>pid. keeps pid m m' \<and> (is_ok r \<longrightarrow> r = Inr pid \<and> pm_plugins m pid = None \<and> pm_plugins m' pid \<noteq> None)"
proof (cases "load_from_directory dir manifest")
  case (Inl e)
  with assms(2) have "m' = m" "\<not> is_ok r" by (auto simp: pm_install_def split: if_splits)
  with assms(1) show ?thesis by (auto simp: keeps_refl)
next
  case p: (Inr p)
  show ?thesis
  proof (cases "op_source opts \<noteq> [] \<and> validate_plugin p = None \<and> checksum \<noteq> None
      \<and> \<not> (pm_plugins m (pg_id p) \<noteq> None \<and> \<not> op_force opts)")
    case True
    then obtain c where c: "checksum = Some c" by auto
    define q where "q = prepared opts now c p"
    have q: "pg_id q = pg_id p" "pg_status q = StatusInstalled" "\<not> pg_enabled q"
      using loaded_plugin [OF p] by (auto simp: q_def prepared_def)
    obtain d ok where i: "pd_insert db q (pm_db m) = (d, ok)" by fastforce
    from insert [OF _ i] assms(1) have d: "good d" "ok \<Longrightarrow> rows (pm_db m) (pg_id q) = None"
        "rows d = (if ok then (rows (pm_db m))(pg_id q \<mapsto> q) else rows (pm_db m))"
      by (auto simp: based_def)
    show ?thesis
    proof (cases ok)
      case False
      with True p c i have "m' = m\<lparr>pm_db := d\<rparr>" "\<not> is_ok r"
        using assms(2) by (auto simp: pm_install_def q_def save_plugin_def)
      with assms(1) d False show ?thesis
        by (intro exI [of _ "pg_id p"]) (auto simp: keeps_def based_def in_order_def stranded_def)
    next
      case ok: True
      define m1 where "m1 = emit_event now (pg_id q) EventInstalled (put_plugin q (m\<lparr>pm_db := d\<rparr>))"
      have new: "pm_plugins m (pg_id q) = None" using d(2) ok assms(1) by (auto simp: based_def)
      have b: "based m1" using assms(1) d ok by (auto simp: m1_def put_plugin_def based_def)
      have k1: "keeps (pg_id q) m m1"
        using b new q by (auto simp: keeps_def m1_def put_plugin_def in_order_def stranded_def
            cell_in_order_def cell_stranded_def)
      obtain m2 x where e: "pm_enable db io now (pg_id q) m1 = (m2, x)" by fastforce
      have k2: "keeps (pg_id q) m1 m2" using b e by (rule keeps_enable)
      have r: "r = Inr (pg_id q)" and m': "m' = (if op_enable_after opts then m2 else m1)"
        using assms(2) True p c i ok e q(1)
        by (auto simp: pm_install_def q_def [symmetric] save_plugin_def m1_def Let_def)
      have "pm_plugins m1 (pg_id q) \<noteq> None" by (simp add: m1_def put_plugin_def)
      with known_after_enable [OF e] have "pm_plugins m' (pg_id q) \<noteq> None" by (auto simp: m')
      moreover have "keeps (pg_id q) m m'" using k1 keeps_trans [OF k1 k2] by (simp add: m')
      ultimately show ?thesis using r new by blast
    qed
  next
    case False
    with p assms(2) have "m' = m" "\<not> is_ok r" by (auto simp: pm_install_def split: if_splits option.splits)
    with assms(1) show ?thesis by (auto simp: keeps_refl)
  qed
qed

lemma step_keeps: "plugin_step db io m m' \<Longrightarrow> based m \<Longrightarrow> \<exists>pid. keeps pid m m'"
proof (induction rule: plugin_step.induct)
  case (install now opts dir manifest checksum m m' r)
  with keeps_install show ?case by blast
next
  case (event m m' e)
  then have "pm_plugins m' = pm_plugins m \<and> pm_instances m' = pm_instances m \<and> pm_db m' = pm_db m"
    by (auto simp: process_event_def split: list.splits)
  with event.prems show ?case by (auto simp: keeps_def based_def in_order_def stranded_def)
qed (blast intro: keeps_uninstall keeps_enable keeps_disable keeps_start keeps_stop keeps_update keeps_configure)+

lemma step_invariant:
  "plugin_step db io m m' \<Longrightarrow> based m \<Longrightarrow> based m' \<and> (in_order m pid \<longrightarrow> in_order m' pid)
    \<and> (stranded m pid \<longrightarrow> stranded m' pid)"
proof -
  assume "plugin_step db io m m'" "based m"
  then obtain k where k: "keeps k m m'" using step_keeps by blast
  have "in_order m j \<Longrightarrow> in_order m' j" "stranded m j \<Longrightarrow> stranded m' j" for j
    using k by (cases "j = k"; simp add: keeps_def in_order_def stranded_def)+
  with k show ?thesis by (auto simp: keeps_def)
qed

lemma run_invariant:
  "(plugin_step db io)\<^sup>*\<^sup>* m m' \<Longrightarrow> based m \<Longrightarrow> based m' \<and> (in_order m pid \<longrightarrow> in_order m' pid)
    \<and> (stranded m pid \<longrightarrow> stranded m' pid)"
  by (induction rule: rtranclp_induct) (use step_invariant in blast)+

lemma new_manager:
  assumes "good d" "new_plugin_manager cl db d = Inr m"
  shows "based m \<and> (\<forall>pid. pm_plugins m pid = map_option (loaded_row cl) (rows d pid)) \<and> pm_instances m = Map.empty"
proof -
  obtain d' ps where s: "pd_select db d = (d', Some ps)"
      and m: "m = \<lparr>pm_db = d', pm_plugins = fold (\<lambda>p f. f(pg_id p \<mapsto> loaded_row cl p)) ps Map.empty,
        pm_instances = Map.empty, pm_events = []\<rparr>"
    using assms(2) by (auto simp: new_plugin_manager_def load_plugins_from_db_def split: prod.splits option.splits)
  from select [OF assms(1) s] have d': "good d'" "rows d' = rows d" "distinct (map pg_id ps)"
      and ps: "\<And>pid p. rows d pid = Some p \<longleftrightarrow> p \<in> set ps \<and> pg_id p = pid" by auto
  have eq: "pm_plugins m = map_option (loaded_row cl) \<circ> rows d"
  proof
    fix pid show "pm_plugins m pid = (map_option (loaded_row cl) \<circ> rows d) pid"
    proof (cases "rows d pid")
      case None
      with ps [of pid] have "pid \<notin> pg_id ` set ps" by auto
      with None show ?thesis by (simp add: m fold_rows_other)
    next
      case (Some p)
      with ps [of pid p] have "p \<in> set ps" "pg_id p = pid" by simp_all
      with fold_rows [OF d'(3)] Some show ?thesis by (auto simp: m)
    qed
  qed
  then have "dom (rows d) = dom (pm_plugins m)" by (simp add: dom_def)
  moreover have "\<forall>pid p. pm_plugins m pid = Some p \<longrightarrow> pg_id p = pid"
  proof (intro allI impI)
    fix pid p assume "pm_plugins m pid = Some p"
    then obtain r where r: "rows d pid = Some r" "p = loaded_row cl r" unfolding eq by auto
    have "pg_id r = pid" using ps [THEN iffD1, OF r(1)] ..
    then show "pg_id p = pid" by (simp add: r(2) loaded_row_def)
  qed
  moreover have "pm_db m = d'" and "pm_instances m = Map.empty" by (simp_all add: m)
  ultimately have "based m" using d'(1,2) unfolding based_def by simp
  then show ?thesis using \<open>pm_instances m = Map.empty\<close> unfolding eq by simp
qed

end

end
