(* ===== verification/PluginTable.thy ===== *)
theory PluginTable
  imports Plugins
begin

text \<open>
  The table \<^verbatim>\<open>plugins\<close> behind the plugin manager of \<^verbatim>\<open>plugins/manager.go\<close>: its statements on a table whose
  driver may fail at any call, which provide the contract \<open>plugin_table\<close>, the agreement of memory and table when
  no call fails, the pages of the list, and the properties of the manager.
\<close>

section \<open>The table provides it\<close>

text \<open>The table as an association list with the id as its key, and the calls that are going to fail.\<close>

record 'v plugin_rows =
  pr_table :: "(string \<times> 'v plugin) list"
  pr_faults :: "bool list"

definition pr_rows :: "'v plugin_rows \<Rightarrow> string \<rightharpoonup> 'v plugin" where
  "pr_rows d = map_of (pr_table d)"

definition pr_good :: "'v plugin_rows \<Rightarrow> bool" where
  "pr_good d \<longleftrightarrow> distinct (map fst (pr_table d)) \<and> (\<forall>(pid, p)\<in>set (pr_table d). pg_id p = pid)"

text \<open>A call takes the next entry of the faults; \<open>f\<close> is its effect, \<open>None\<close> when a constraint refuses it.\<close>

definition pr_call :: "((string \<times> 'v plugin) list \<Rightarrow> (string \<times> 'v plugin) list option) \<Rightarrow> 'v plugin_rows \<Rightarrow> 'v plugin_rows \<times> bool" where
  "pr_call f d =
     (let fails = (case pr_faults d of [] \<Rightarrow> False | b # _ \<Rightarrow> b);
          d' = d\<lparr>pr_faults := tl (pr_faults d)\<rparr>
      in if fails then (d', False)
         else case f (pr_table d) of None \<Rightarrow> (d', False) | Some t \<Rightarrow> (d'\<lparr>pr_table := t\<rparr>, True))"

definition pr_insert :: "'v plugin \<Rightarrow> 'v plugin_rows \<Rightarrow> 'v plugin_rows \<times> bool" where
  "pr_insert p = pr_call (\<lambda>t. if map_of t (pg_id p) = None then Some ((pg_id p, p) # t) else None)"

definition overwrite_row :: "'v plugin \<Rightarrow> string \<times> 'v plugin \<Rightarrow> string \<times> 'v plugin" where
  "overwrite_row p = (\<lambda>(pid, r). if pid = pg_id p then (pid, p\<lparr>pg_installed_at := pg_installed_at r\<rparr>) else (pid, r))"

definition pr_update :: "'v plugin \<Rightarrow> 'v plugin_rows \<Rightarrow> 'v plugin_rows \<times> bool" where
  "pr_update p = pr_call (\<lambda>t. Some (map (overwrite_row p) t))"

definition pr_delete :: "string \<Rightarrow> 'v plugin_rows \<Rightarrow> 'v plugin_rows \<times> bool" where
  "pr_delete pid = pr_call (\<lambda>t. Some (filter (\<lambda>(k, r). k \<noteq> pid) t))"

definition pr_select :: "'v plugin_rows \<Rightarrow> 'v plugin_rows \<times> 'v plugin list option" where
  "pr_select d = (case pr_call Some d of (d', ok) \<Rightarrow> (d', if ok then Some (map snd (pr_table d)) else None))"

definition sql_plugin_ops :: "('v, 'v plugin_rows) plugin_db" where
  "sql_plugin_ops = \<lparr>pd_insert = pr_insert, pd_update = pr_update, pd_delete = pr_delete, pd_select = pr_select\<rparr>"

lemma pr_callD:
  "pr_call f d = (d', ok) \<Longrightarrow> \<not> ok \<and> pr_table d' = pr_table d
    \<or> ok \<and> f (pr_table d) \<noteq> None \<and> pr_table d' = the (f (pr_table d))"
  by (auto simp: pr_call_def Let_def split: if_splits option.splits)

lemma overwrite_row_key: "map fst (map (overwrite_row p) t) = map fst t"
  by (auto simp: overwrite_row_def)

lemma update_row_upd:
  "update_row p (f(k \<mapsto> r)) = (update_row p f)(k \<mapsto> snd (overwrite_row p (k, r)))"
  by (auto simp: update_row_def overwrite_row_def fun_upd_twist split: option.split)

lemma map_of_update_row: "map_of (map (overwrite_row p) t) = update_row p (map_of t)"
proof (induction t)
  case Nil
  then show ?case by (simp add: update_row_def)
next
  case (Cons x t)
  obtain k r where x: "x = (k, r)" by fastforce
  have "fst (overwrite_row p (k, r)) = k" by (simp add: x overwrite_row_def)
  with Cons.IH show ?case by (simp add: x update_row_upd del: fun_upd_apply)
qed

lemma map_of_filter_key: "map_of (filter (\<lambda>(k, r). k \<noteq> pid) t) = (map_of t)(pid := None)"
  by (induction t) (auto simp: fun_eq_iff)

lemma pr_good_select:
  assumes "pr_good d"
  shows "distinct (map pg_id (map snd (pr_table d)))
    \<and> (\<forall>pid p. pr_rows d pid = Some p \<longleftrightarrow> p \<in> set (map snd (pr_table d)) \<and> pg_id p = pid)"
proof -
  have "map pg_id (map snd (pr_table d)) = map fst (pr_table d)"
    using assms by (simp add: pr_good_def case_prod_beta)
  moreover have "pr_rows d pid = Some p \<longleftrightarrow> p \<in> set (map snd (pr_table d)) \<and> pg_id p = pid" for pid p
    using assms map_of_eq_Some_iff [of "pr_table d" pid p] by (force simp: pr_good_def pr_rows_def)
  ultimately show ?thesis using assms by (simp only: pr_good_def) blast
qed

interpretation pr: plugin_table sql_plugin_ops pr_rows pr_good
proof unfold_locales
  fix d d' :: "'v plugin_rows" and p :: "'v plugin" and pid ok r
  assume good: "pr_good d"
  show "pd_insert sql_plugin_ops p d = (d', ok) \<Longrightarrow> pr_good d'
      \<and> pr_rows d' = (if ok then (pr_rows d)(pg_id p \<mapsto> p) else pr_rows d) \<and> (ok \<longrightarrow> pr_rows d (pg_id p) = None)"
  proof (cases ok)
    case True
    assume "pd_insert sql_plugin_ops p d = (d', ok)"
    with True have "map_of (pr_table d) (pg_id p) = None" and t: "pr_table d' = (pg_id p, p) # pr_table d"
      by (auto simp: sql_plugin_ops_def pr_insert_def dest!: pr_callD split: if_splits)
    with good True show ?thesis by (auto simp: pr_good_def pr_rows_def t map_of_eq_None_iff)
  next
    case False
    assume "pd_insert sql_plugin_ops p d = (d', ok)"
    with False have "pr_table d' = pr_table d" by (auto simp: sql_plugin_ops_def pr_insert_def dest!: pr_callD)
    with good False show ?thesis by (simp add: pr_good_def pr_rows_def)
  qed
  show "pd_update sql_plugin_ops p d = (d', ok) \<Longrightarrow> pr_good d'
      \<and> pr_rows d' = (if ok then update_row p (pr_rows d) else pr_rows d)"
  proof -
    assume u: "pd_update sql_plugin_ops p d = (d', ok)"
    have "distinct (map fst (map (overwrite_row p) (pr_table d)))"
      unfolding overwrite_row_key using good by (simp add: pr_good_def)
    moreover have "\<forall>(pid, r)\<in>set (map (overwrite_row p) (pr_table d)). pg_id r = pid"
      using good by (auto simp: pr_good_def overwrite_row_def split: if_splits)
    ultimately have "pr_good (d\<lparr>pr_table := map (overwrite_row p) (pr_table d)\<rparr>)" by (simp add: pr_good_def)
    moreover have "pr_good d' = pr_good (d\<lparr>pr_table := pr_table d'\<rparr>)" by (simp add: pr_good_def)
    moreover from u have "if ok then pr_table d' = map (overwrite_row p) (pr_table d) else pr_table d' = pr_table d"
      by (auto simp: sql_plugin_ops_def pr_update_def dest!: pr_callD)
    ultimately show ?thesis using good by (auto simp: pr_rows_def map_of_update_row split: if_splits)
  qed
  show "pd_delete sql_plugin_ops pid d = (d', ok) \<Longrightarrow> pr_good d'
      \<and> pr_rows d' = (if ok then (pr_rows d)(pid := None) else pr_rows d)"
    using good by (auto simp: sql_plugin_ops_def pr_delete_def pr_good_def pr_rows_def map_of_filter_key
        distinct_map_filter dest!: pr_callD split: if_splits)
  show "pd_select sql_plugin_ops d = (d', r) \<Longrightarrow> pr_good d' \<and> pr_rows d' = pr_rows d
      \<and> (\<forall>ps. r = Some ps \<longrightarrow> distinct (map pg_id ps)
           \<and> (\<forall>pid p. pr_rows d pid = Some p \<longleftrightarrow> p \<in> set ps \<and> pg_id p = pid))"
    using pr_good_select [OF good] good
    by (auto simp: sql_plugin_ops_def pr_select_def pr_good_def pr_rows_def dest!: pr_callD split: prod.splits if_splits)
qed

section \<open>Properties\<close>


text \<open>A restart strands what was running. \<^verbatim>\<open>Close\<close> writes nothing, so a plugin that ran when the process ended
  is read back enabled and running, without an instance. From then on, along every run of the manager, it
  stays so: starting it reports success and does nothing, and stopping, disabling and uninstalling it fail.\<close>

theorem restart_strands_running:
  fixes io :: "('v, 'i) instance_ops"
  assumes "plugin_table db rows good" "good d" "new_plugin_manager cl db d = Inr m"
    and "rows d pid = Some p" "pg_status p = StatusRunning" "pg_enabled p"
    and "(plugin_step db io)\<^sup>*\<^sup>* m m'"
  shows "(\<exists>q. pm_plugins m' pid = Some q \<and> pg_status q = StatusRunning \<and> pg_enabled q) \<and> pm_instances m' pid = None
    \<and> pm_start db io now pid m' = (m', None)
    \<and> pm_stop db io now pid m' = (m', Some ErrInstanceNotFound)
    \<and> pm_disable db io now pid m' = (m', Inl (ErrStopPlugin ErrInstanceNotFound))
    \<and> pm_uninstall db io now pid m' = (m', Some (ErrStopPlugin ErrInstanceNotFound))"
proof -
  note new = plugin_table.new_manager [OF assms(1-3)]
  with assms(4-6) have "stranded m pid" by (auto simp: stranded_def cell_stranded_def loaded_row_def)
  with plugin_table.run_invariant [OF assms(1,7)] new
  have b: "plugin_table.based rows good m'" and s: "stranded m' pid" by blast+
  from s have "(\<exists>q. pm_plugins m' pid = Some q \<and> pg_status q = StatusRunning \<and> pg_enabled q) \<and> pm_instances m' pid = None"
    by (auto simp: stranded_def cell_stranded_def split: option.splits)
  with plugin_table.stranded_refuses [OF assms(1) b s] show ?thesis by blast
qed

text \<open>\<open>Install\<close> never replaces a plugin, with the force option or without: its row is in the table.\<close>

theorem force_never_reinstalls:
  assumes "plugin_table db rows good" "plugin_table.based rows good m"
    and "pm_install db io now opts dir manifest checksum m = (m', Inr pid)"
  shows "pm_plugins m pid = None"
  using plugin_table.keeps_install [OF assms] by auto

section \<open>Memory and table without failures\<close>

text \<open>\<open>synced\<close>: memory and table agree, up to what reading a row changes.\<close>

definition synced :: "'v columns \<Rightarrow> ('v, 'i, 'v plugin_rows) plugin_manager \<Rightarrow> bool" where
  "synced cl m \<longleftrightarrow> stable_columns cl \<and> pr_good (pm_db m) \<and> pr_faults (pm_db m) = []
     \<and> (\<forall>pid. map_option (loaded_row cl) (pr_rows (pm_db m) pid) = map_option (loaded_row cl) (pm_plugins m pid))
     \<and> (\<forall>pid p. pm_plugins m pid = Some p \<longrightarrow> pg_id p = pid)"

lemma synced_emit [simp]: "synced cl (emit_event now pid t m) = synced cl m"
  by (simp add: synced_def)

lemma synced_instances [simp]: "synced cl (m\<lparr>pm_instances := f\<rparr>) = synced cl m"
  by (simp add: synced_def)

lemma pr_call_faultless:
  "pr_faults d = [] \<Longrightarrow> pr_call f d = (case f (pr_table d) of None \<Rightarrow> (d, False) | Some t \<Rightarrow> (d\<lparr>pr_table := t\<rparr>, True))"
  by (auto simp: pr_call_def split: option.splits)

lemma loaded_row_fields:
  "pg_id (loaded_row cl p) = pg_id p" "pg_installed_at (loaded_row cl p) = cl_time cl (pg_installed_at p)"
  "pg_status (loaded_row cl p) = pg_status p" "pg_enabled (loaded_row cl p) = pg_enabled p"
  by (simp_all add: loaded_row_def)

lemma loaded_map_twice: "stable_columns cl \<Longrightarrow> loaded_map cl (loaded_map cl f) = loaded_map cl f"
  by (cases f) (simp_all add: loaded_map_def stable_columns_def o_def option.map_comp)

lemma loaded_row_twice: "stable_columns cl \<Longrightarrow> loaded_row cl (loaded_row cl p) = loaded_row cl p"
  by (cases "pg_manifest p")
    (simp_all add: loaded_row_def loaded_manifest_def loaded_map_twice empty_manifest_def loaded_map_def stable_columns_def
      option.map_comp o_def)

lemma synced_write:
  assumes "synced cl m" "pm_plugins m (pg_id q) = Some p" "pg_installed_at q = pg_installed_at p"
    and "write_through sql_plugin_ops q m = (m', ok)"
  shows "ok \<and> synced cl m' \<and> pm_plugins m' = (pm_plugins m)(pg_id q \<mapsto> q) \<and> pm_instances m' = pm_instances m"
proof -
  obtain d where u: "pd_update sql_plugin_ops q (pm_db m) = (d, ok)" and m': "m' = (put_plugin q m)\<lparr>pm_db := d\<rparr>"
    using assms(4) by (auto simp: write_through_def update_plugin_def put_plugin_def split: prod.splits)
  have f: "ok" "pr_faults d = []"
    using u assms(1) by (auto simp: sql_plugin_ops_def pr_update_def pr_call_faultless synced_def)
  obtain r where r: "pr_rows (pm_db m) (pg_id q) = Some r" "loaded_row cl r = loaded_row cl p"
  proof -
    have "map_option (loaded_row cl) (pr_rows (pm_db m) (pg_id q)) = Some (loaded_row cl p)"
      using assms(1,2) by (simp add: synced_def)
    then show ?thesis using that by (cases "pr_rows (pm_db m) (pg_id q)") simp_all
  qed
  then have "cl_time cl (pg_installed_at r) = cl_time cl (pg_installed_at p)" by (metis loaded_row_fields(2))
  then have e: "loaded_row cl (q\<lparr>pg_installed_at := pg_installed_at r\<rparr>) = loaded_row cl q"
    using assms(3) by (simp add: loaded_row_def)
  have "update_row q (pr_rows (pm_db m)) = (pr_rows (pm_db m))(pg_id q \<mapsto> q\<lparr>pg_installed_at := pg_installed_at r\<rparr>)"
    by (simp add: update_row_def r(1))
  with pr.update [OF _ u] assms(1) f(1) have "pr_good d"
      "pr_rows d = (pr_rows (pm_db m))(pg_id q \<mapsto> q\<lparr>pg_installed_at := pg_installed_at r\<rparr>)"
    by (simp_all add: synced_def)
  moreover note e
  ultimately show ?thesis using f assms(1) by (simp add: m' put_plugin_def synced_def)
qed

lemma synced_id: "synced cl m \<Longrightarrow> pm_plugins m pid = Some p \<Longrightarrow> pg_id p = pid"
  by (auto simp: synced_def)

text \<open>A change of the plugin of \<open>pid\<close> that keeps its id and installation time, with any change of the instances.\<close>

lemma synced_change:
  assumes "synced cl m" "pm_plugins m pid = Some p" "pg_id q = pg_id p" "pg_installed_at q = pg_installed_at p"
    and "write_through sql_plugin_ops q (m\<lparr>pm_instances := f\<rparr>) = (m', ok)"
  shows "ok \<and> synced cl m' \<and> pm_plugins m' = (pm_plugins m)(pid \<mapsto> q)"
  using synced_write [of cl "m\<lparr>pm_instances := f\<rparr>" q p m' ok] assms synced_id [OF assms(1,2)] by simp

lemma synced_stop_plugin:
  assumes "synced cl m" "pm_plugins m pid = Some p" "stop_plugin sql_plugin_ops io now p m = (m', err)"
  shows "synced cl m' \<and> pm_plugins m' pid \<noteq> None"
proof (cases "m' = m")
  case False
  then obtain i where i: "pg_status p = StatusRunning" "pm_instances m (pg_id p) = Some i"
    using assms(3) by (auto simp: stop_plugin_def split: if_splits option.splits)
  obtain j e where stop: "io_stop io i = (j, e)" by fastforce
  define q where "q = (case e of Some t \<Rightarrow> p\<lparr>pg_status := StatusError, pg_error := t\<rparr>
    | None \<Rightarrow> p\<lparr>pg_status := StatusStopped, pg_last_stopped_at := Some now, pg_updated_at := now\<rparr>)"
  obtain m1 ok where w: "write_through sql_plugin_ops q (m\<lparr>pm_instances := (pm_instances m)(pg_id p \<mapsto> j)\<rparr>) = (m1, ok)" by fastforce
  have "ok \<and> synced cl m1 \<and> pm_plugins m1 = (pm_plugins m)(pid \<mapsto> q)"
    by (rule synced_change [OF assms(1,2) _ _ w]) (auto simp: q_def split: option.splits)
  moreover have "m' = m1 \<or> m' = emit_event now (pg_id p) EventStopped m1"
    using assms(3) i stop w by (auto simp: stop_plugin_def q_def split: option.splits bool.splits)
  ultimately show ?thesis by auto
qed (use assms in simp)

lemma synced_enable:
  assumes "synced cl m" "pm_enable sql_plugin_ops io now pid m = (m', r)"
  shows "synced cl m'"
proof (cases "pm_plugins m pid")
  case (Some p)
  let ?q = "p\<lparr>pg_enabled := True, pg_status := StatusEnabled, pg_updated_at := now, pg_error := []\<rparr>"
  obtain m1 ok where w: "write_through sql_plugin_ops ?q (m\<lparr>pm_instances := pm_instances m\<rparr>) = (m1, ok)" by fastforce
  have "synced cl m1" using synced_change [OF assms(1) Some _ _ w] by simp
  moreover have "m' = m \<or> m' = m1 \<or> (\<exists>i. m' = emit_event now pid EventEnabled (m1\<lparr>pm_instances := (pm_instances m1)(pid \<mapsto> i)\<rparr>))"
    using assms(2) Some w by (auto simp: pm_enable_def split: if_splits sum.splits prod.splits option.splits bool.splits)
  ultimately show ?thesis using assms(1) by auto
qed (use assms in \<open>simp add: pm_enable_def\<close>)

lemma synced_disable:
  assumes "synced cl m" "pm_disable sql_plugin_ops io now pid m = (m', r)"
  shows "synced cl m'"
proof (cases "pm_plugins m pid")
  case (Some p)
  obtain m1 e where s: "stop_plugin sql_plugin_ops io now p m = (m1, e)" by fastforce
  from synced_stop_plugin [OF assms(1) Some s] obtain p1 where p1: "synced cl m1" "pm_plugins m1 pid = Some p1" by auto
  let ?q = "p1\<lparr>pg_enabled := False, pg_status := StatusDisabled, pg_updated_at := now\<rparr>"
  obtain m2 ok where w: "write_through sql_plugin_ops ?q (m1\<lparr>pm_instances := (pm_instances m1)(pid := None)\<rparr>) = (m2, ok)" by fastforce
  have "synced cl m2" using synced_change [OF p1 _ _ w] by simp
  moreover have "m' = m \<or> m' = m1 \<or> m' = m2 \<or> m' = emit_event now pid EventDisabled m2"
    using assms(2) Some s p1 w by (auto simp: pm_disable_def split: if_splits option.splits bool.splits)
  ultimately show ?thesis using assms(1) p1 by auto
qed (use assms in \<open>simp add: pm_disable_def\<close>)

lemma synced_start:
  assumes "synced cl m" "pm_start sql_plugin_ops io now pid m = (m', r)"
  shows "synced cl m'"
proof (cases "m' = m")
  case False
  then obtain p i where p: "pm_plugins m pid = Some p" "pg_enabled p" "pg_status p \<noteq> StatusRunning" "pm_instances m pid = Some i"
    using assms(2) by (auto simp: pm_start_def split: option.splits if_splits)
  obtain j e where start: "io_start io i = (j, e)" by fastforce
  define q where "q = (case e of Some t \<Rightarrow> p\<lparr>pg_status := StatusError, pg_error := t\<rparr>
    | None \<Rightarrow> p\<lparr>pg_status := StatusRunning, pg_last_started_at := Some now, pg_updated_at := now, pg_error := []\<rparr>)"
  obtain m1 ok where w: "write_through sql_plugin_ops q (m\<lparr>pm_instances := (pm_instances m)(pid \<mapsto> j)\<rparr>) = (m1, ok)" by fastforce
  have "synced cl m1"
    using synced_change [OF assms(1) p(1) _ _ w] by (auto simp: q_def split: option.splits)
  moreover have "m' = m1 \<or> m' = emit_event now pid EventStarted m1"
    using assms(2) p start w by (auto simp: pm_start_def q_def split: option.splits bool.splits)
  ultimately show ?thesis by auto
qed (use assms in simp)

lemma synced_update:
  assumes "synced cl m" "pm_update sql_plugin_ops now pid cfg m = (m', r)"
  shows "synced cl m'"
proof (cases "pm_plugins m pid")
  case (Some p)
  let ?q = "p\<lparr>pg_config := (if cfg = None then pg_config p else cfg), pg_updated_at := now\<rparr>"
  obtain m1 ok where w: "write_through sql_plugin_ops ?q (m\<lparr>pm_instances := pm_instances m\<rparr>) = (m1, ok)" by fastforce
  have "synced cl m1" using synced_change [OF assms(1) Some _ _ w] by simp
  moreover have "m' = m1 \<or> m' = emit_event now pid EventUpdated m1"
    using assms(2) Some w by (auto simp: pm_update_def Let_def split: bool.splits)
  ultimately show ?thesis by auto
qed (use assms in \<open>simp add: pm_update_def\<close>)

lemma synced_configure:
  assumes "synced cl m" "pm_configure sql_plugin_ops io now pid kvs m = (m', r)"
  shows "synced cl m'"
proof (cases "m' = m")
  case False
  then obtain p cfg where p: "pm_plugins m pid = Some p" and cfg: "map_write kvs (pg_config p) = Inr cfg"
    using assms(2) by (auto simp: pm_configure_def split: option.splits sum.splits)
  let ?q = "p\<lparr>pg_config := cfg, pg_updated_at := now\<rparr>"
  obtain m1 ok where w: "write_through sql_plugin_ops ?q (m\<lparr>pm_instances := pm_instances m\<rparr>) = (m1, ok)" by fastforce
  have "synced cl m1" using synced_change [OF assms(1) p _ _ w] by simp
  moreover have "m' = m1 \<or> m' = emit_event now pid EventConfigured m1
      \<or> (\<exists>i. m' = m1\<lparr>pm_instances := (pm_instances m1)(pid \<mapsto> i)\<rparr>
           \<or> m' = emit_event now pid EventConfigured (m1\<lparr>pm_instances := (pm_instances m1)(pid \<mapsto> i)\<rparr>))"
    using assms(2) p cfg w
    by (auto simp: pm_configure_def split: bool.splits option.splits prod.splits)
  ultimately show ?thesis by auto
qed (use assms in simp)

lemma synced_uninstall_rest:
  assumes "synced cl m" "uninstall_rest sql_plugin_ops now pid m = (m', err)"
  shows "synced cl m'"
proof -
  obtain d ok where d: "pd_delete sql_plugin_ops pid (pm_db m) = (d, ok)" by fastforce
  then have f: "ok" "pr_faults d = []"
    using assms(1) by (auto simp: sql_plugin_ops_def pr_delete_def pr_call_faultless synced_def)
  with pr.delete [OF _ d] assms(1) have "pr_good d" "pr_rows d = (pr_rows (pm_db m))(pid := None)"
    by (simp_all add: synced_def)
  moreover have "m' = emit_event now pid EventUninstalled (m\<lparr>pm_db := d,
      pm_plugins := (pm_plugins m)(pid := None), pm_instances := (pm_instances m)(pid := None)\<rparr>)"
    using assms(2) d f by (simp add: uninstall_rest_def delete_plugin_def)
  ultimately show ?thesis using assms(1) f(2) by (auto simp: synced_def)
qed

lemma synced_stop: "synced cl m \<Longrightarrow> pm_stop sql_plugin_ops io now pid m = (m', err) \<Longrightarrow> synced cl m'"
  by (auto simp: pm_stop_def split: option.splits dest: synced_stop_plugin)

lemma synced_uninstall_disable:
  "synced cl m \<Longrightarrow> uninstall_disable sql_plugin_ops io now pid m = (m', err) \<Longrightarrow> synced cl m'"
  by (auto simp: uninstall_disable_def split: option.splits if_splits prod.splits sum.splits
      dest: synced_disable synced_uninstall_rest)

lemma synced_uninstall: "synced cl m \<Longrightarrow> pm_uninstall sql_plugin_ops io now pid m = (m', err) \<Longrightarrow> synced cl m'"
  by (auto simp: pm_uninstall_def split: option.splits if_splits prod.splits
      dest: synced_stop synced_uninstall_disable)

lemma synced_install:
  assumes "synced cl m" "pm_install sql_plugin_ops io now opts dir manifest checksum m = (m', r)"
  shows "synced cl m'"
proof (cases "m' = m")
  case False
  then obtain p c where p: "load_from_directory dir manifest = Inr p" "op_source opts \<noteq> []" "validate_plugin p = None"
      and c: "checksum = Some c" and k: "pm_plugins m (pg_id p) = None \<or> op_force opts"
    using assms(2) by (auto simp: pm_install_def split: if_splits option.splits sum.splits)
  define q where "q = prepared opts now c p"
  have id: "pg_id q = pg_id p" by (simp add: q_def prepared_def)
  obtain d ok where i: "pd_insert sql_plugin_ops q (pm_db m) = (d, ok)" by fastforce
  have f: "pr_faults d = []"
    using i assms(1) by (auto simp: sql_plugin_ops_def pr_insert_def pr_call_faultless synced_def split: if_splits)
  from pr.insert [OF _ i] assms(1) have d: "pr_good d"
      "pr_rows d = (if ok then (pr_rows (pm_db m))(pg_id q \<mapsto> q) else pr_rows (pm_db m))"
    by (auto simp: synced_def)
  define m1 where "m1 = emit_event now (pg_id q) EventInstalled (put_plugin q (m\<lparr>pm_db := d\<rparr>))"
  obtain m2 x where e: "pm_enable sql_plugin_ops io now (pg_id q) m1 = (m2, x)" by fastforce
  show ?thesis
  proof (cases ok)
    case True
    have "synced cl m1" using assms(1) d f True by (simp add: m1_def put_plugin_def synced_def)
    moreover from this have "synced cl m2" using e by (rule synced_enable)
    moreover have "m' = (if op_enable_after opts then m2 else m1)"
      using assms(2) p c k i e id True
      by (auto simp: pm_install_def q_def [symmetric] save_plugin_def m1_def Let_def)
    ultimately show ?thesis by simp
  next
    case False
    have "m' = m\<lparr>pm_db := d\<rparr>"
      using assms(2) p c k i False by (auto simp: pm_install_def q_def [symmetric] save_plugin_def)
    with assms(1) d f False show ?thesis by (simp add: synced_def)
  qed
qed (use assms in simp)

lemma synced_step: "plugin_step sql_plugin_ops io m m' \<Longrightarrow> synced cl m \<Longrightarrow> synced cl m'"
proof (induction rule: plugin_step.induct)
  case (event m m' e)
  then show ?case by (auto simp: process_event_def synced_def split: list.splits)
qed (blast intro: synced_install synced_uninstall synced_enable synced_disable synced_start synced_stop
      synced_update synced_configure)+

lemma synced_run: "(plugin_step sql_plugin_ops io)\<^sup>*\<^sup>* m m' \<Longrightarrow> synced cl m \<Longrightarrow> synced cl m'"
  by (induction rule: rtranclp_induct) (auto intro: synced_step)

lemma new_manager_faultless:
  fixes d :: "'v plugin_rows"
  assumes "stable_columns cl" "pr_good d" "pr_faults d = []"
  obtains m :: "('v, 'i, 'v plugin_rows) plugin_manager" where
    "new_plugin_manager cl sql_plugin_ops d = Inr m" "pm_db m = d"
    "\<And>pid. pm_plugins m pid = map_option (loaded_row cl) (pr_rows d pid)" "synced cl m"
proof -
  have s: "pd_select sql_plugin_ops d = (d, Some (map snd (pr_table d)))"
    using assms(3) by (simp add: sql_plugin_ops_def pr_select_def pr_call_faultless)
  obtain m :: "('v, 'i, 'v plugin_rows) plugin_manager" where m: "new_plugin_manager cl sql_plugin_ops d = Inr m" "pm_db m = d"
    by (simp add: new_plugin_manager_def load_plugins_from_db_def s)
  from pr.new_manager [OF assms(2) m(1)] have p: "\<And>pid. pm_plugins m pid = map_option (loaded_row cl) (pr_rows d pid)"
    and b: "pr.based m" by blast+
  have "pg_id p = pid" if "pm_plugins m pid = Some p" for pid p
    using b that by (simp add: pr.based_def)
  then have "\<forall>pid p. pm_plugins m pid = Some p \<longrightarrow> pg_id p = pid" by blast
  moreover have "\<forall>pid. map_option (loaded_row cl) (pr_rows (pm_db m) pid) = map_option (loaded_row cl) (pm_plugins m pid)"
    using loaded_row_twice [OF assms(1)] by (simp add: p m(2) option.map_comp o_def)
  ultimately have "synced cl m" unfolding synced_def using assms m(2) by simp
  with m p show ?thesis by (rule that)
qed

text \<open>C34: what is in memory survives a restart. When no call of the database fails and the manager's calls come
  one after the other, a manager that is started on the table another one has left, after any run, knows exactly
  the same plugins in the same states, up to what a row loses: times and values that their columns change (the
  columns are a parameter), and a nil manifest, which comes back empty; a nil configuration stays nil.\<close>

theorem restart_restores_plugins:
  fixes io :: "('v, 'i) instance_ops" and m m' m'' :: "('v, 'i, 'v plugin_rows) plugin_manager"
  assumes "stable_columns cl" "pr_good d" "pr_faults d = []" "new_plugin_manager cl sql_plugin_ops d = Inr m"
    and "(plugin_step sql_plugin_ops io)\<^sup>*\<^sup>* m m'"
  shows "\<exists>m'' :: ('v, 'i, 'v plugin_rows) plugin_manager. new_plugin_manager cl sql_plugin_ops (pm_db m') = Inr m''
    \<and> (\<forall>pid. pm_plugins m'' pid = map_option (loaded_row cl) (pm_plugins m' pid))"
proof -
  have "synced cl m" using new_manager_faultless [OF assms(1-3)] assms(4) by (metis sum.inject(2))
  with assms(5) have s: "synced cl m'" by (rule synced_run)
  then have "pr_good (pm_db m')" "pr_faults (pm_db m') = []" by (simp_all add: synced_def)
  from new_manager_faultless [OF assms(1) this] obtain m'' :: "('v, 'i, 'v plugin_rows) plugin_manager" where
    "new_plugin_manager cl sql_plugin_ops (pm_db m') = Inr m''"
    "\<And>pid. pm_plugins m'' pid = map_option (loaded_row cl) (pr_rows (pm_db m') pid)" by blast
  with s show ?thesis by (auto simp: synced_def)
qed

section \<open>Pages of the list\<close>

lemma concat_pages: "concat (map (\<lambda>i. take n (drop (i * n) xs)) [0..<k]) = take (k * n) xs"
  by (induction k) (simp_all add: take_add add.commute [of n])

lemma page_slice_in_range:
  assumes "0 < n"
  shows "page_slice (int n) (int i + 1) ps =
    (if length ps < i * n then Inl SliceOutOfRange
     else Inr \<lparr>pl_plugins = take n (drop (i * n) ps), pl_total = int (length ps), pl_page = int i + 1,
            pl_page_size = int n,
            pl_total_pages = int (if 0 < length ps mod n then length ps div n + 1 else length ps div n)\<rparr>)"
proof -
  have "length ps - length ps div n * n = length ps mod n" by (simp add: minus_div_mult_eq_mod)
  then have m: "go_div (int (length ps)) (int n) = int (length ps div n)"
      "go_mod (int (length ps)) (int n) = int (length ps mod n)"
    by (simp_all add: go_mod_def go_div_nonneg zdiv_int zmod_int minus_mult_div_eq_mod)
  define a where "a = i * n"
  define hi where "hi = (if a + n > length ps then length ps else a + n)"
  have lo: "(int i + 1 - 1) * int n = int a" by (simp add: a_def)
  have h: "(if int a + int n > int (length ps) then int (length ps) else int a + int n) = int hi"
    by (auto simp: hi_def)
  have "hi < a \<longleftrightarrow> length ps < a" using assms by (auto simp: hi_def)
  moreover have "take (hi - a) (drop a ps) = take n (drop a ps)" by (auto simp: hi_def)
  moreover have "nat (int hi - int a) = hi - a" by simp
  ultimately show ?thesis
    unfolding page_slice_def Let_def lo h m a_def [symmetric] by simp
qed

lemma page_slice_before: "page < 0 \<Longrightarrow> 0 < n \<Longrightarrow> page_slice n page ps = Inl SliceOutOfRange"
  by (auto simp: page_slice_def Let_def mult_neg_pos)

text \<open>The pages of the list. With a page size that is not negative, the pages 1 to the reported number of
  pages show every plugin that passes the filter exactly once, in the order of one listing; a page exists
  exactly while it does not start past the end, and asking for any other one (also a negative one) panics.\<close>

theorem list_pages_partition:
  fixes m :: "('v, 'i, 'd) plugin_manager"
  assumes "0 \<le> fp_page_size f"
  shows "\<exists>pages. concat (map pl_plugins pages) = filter (plugin_matches f) (map snd (visit ks (pm_plugins m)))
      \<and> (\<forall>i<length pages. pm_list ks (f\<lparr>fp_page := int i + 1\<rparr>) m = Inr (pages ! i)
           \<and> pl_total_pages (pages ! i) = int (length pages))
      \<and> (\<forall>i>length pages. pm_list ks (f\<lparr>fp_page := int i + 1\<rparr>) m = Inl SliceOutOfRange)
      \<and> (\<forall>j<0. pm_list ks (f\<lparr>fp_page := j\<rparr>) m = Inl SliceOutOfRange)"
proof -
  define ps where "ps = filter (plugin_matches f) (map snd (visit ks (pm_plugins m)))"
  define n where "n = (if fp_page_size f = 0 then 20 else nat (fp_page_size f))"
  define k where "k = (if 0 < length ps mod n then length ps div n + 1 else length ps div n)"
  have pos: "0 < n" using assms by (auto simp: n_def)
  have list: "pm_list ks (f\<lparr>fp_page := j\<rparr>) m = page_slice (int n) j ps" if "j \<noteq> 0" for j
    using that assms by (simp add: pm_list_def page_of_def n_def ps_def plugin_matches_def [abs_def])
  have div: "length ps = length ps div n * n + length ps mod n" by (rule div_mult_mod_eq [symmetric])
  have bound: "length ps \<le> k * n"
  proof (cases "0 < length ps mod n")
    case True
    have "length ps mod n < n" using pos by simp
    with True div show ?thesis by (simp only: k_def if_True add_mult_distrib)
  next
    case False
    with div show ?thesis by (simp only: k_def if_False)
  qed
  have inside: "i * n \<le> length ps" if "i < k" for i
  proof -
    have "i \<le> length ps div n" using that by (auto simp: k_def split: if_splits)
    then have "i * n \<le> length ps div n * n" by simp
    with div show ?thesis by linarith
  qed
  have outside: "length ps < i * n" if "k < i" for i
  proof -
    have "(k + 1) * n \<le> i * n" using that by (intro mult_le_mono1) simp
    with bound pos show ?thesis by simp
  qed
  define pages where "pages = map (\<lambda>i. \<lparr>pl_plugins = take n (drop (i * n) ps), pl_total = int (length ps),
      pl_page = int i + 1, pl_page_size = int n, pl_total_pages = int k\<rparr>) [0..<k]"
  have "concat (map pl_plugins pages) = ps"
    using bound by (simp add: pages_def comp_def concat_pages)
  moreover have "pm_list ks (f\<lparr>fp_page := int i + 1\<rparr>) m = Inr (pages ! i) \<and> pl_total_pages (pages ! i) = int k" if "i < k" for i
    using that inside [OF that] by (simp add: list page_slice_in_range [OF pos] k_def [symmetric] pages_def)
  moreover have "pm_list ks (f\<lparr>fp_page := int i + 1\<rparr>) m = Inl SliceOutOfRange" if "k < i" for i
    using outside [OF that] by (simp add: list page_slice_in_range [OF pos])
  moreover have "pm_list ks (f\<lparr>fp_page := j\<rparr>) m = Inl SliceOutOfRange" if "j < 0" for j
    using that pos by (simp add: list page_slice_before)
  moreover have "length pages = k" by (simp add: pages_def)
  ultimately show ?thesis unfolding ps_def [symmetric] by (intro exI [of _ pages]) auto
qed

section \<open>Witnesses\<close>

text \<open>Times in nanoseconds, stored in microseconds; the values are stored as they are.\<close>

definition micro_columns :: "nat columns" where
  "micro_columns = \<lparr>cl_time = (\<lambda>t. t div 1000 * 1000), cl_value = (\<lambda>v. v)\<rparr>"

lemma micro_stable: "stable_columns micro_columns"
  by (simp add: stable_columns_def micro_columns_def)

lemma sample_run:
  fixes d :: "nat plugin_rows"
  assumes "d = \<lparr>pr_table = [], pr_faults = []\<rparr>"
  obtains m m' :: "(nat, nat base_plugin, nat plugin_rows) plugin_manager" where
    "new_plugin_manager cl sql_plugin_ops d = Inr m" "(plugin_step sql_plugin_ops base_ops)\<^sup>*\<^sup>* m m'"
    "pm_plugins m' ''p@1'' \<noteq> None" "pm_instances m' ''p@1'' \<noteq> None"
proof -
  define mf :: "nat plugin_manifest" where "mf = \<lparr>mf_api_version = ''1.0'', mf_name = ''p'', mf_version = ''1'',
    mf_description = [], mf_type = ''cli'', mf_default = None, mf_permissions = [], mf_requires = []\<rparr>"
  define opts :: "nat install_options" where "opts = \<lparr>op_source = ''dir'', op_config = None, op_enable_after = True,
    op_force = False\<rparr>"
  define m :: "(nat, nat base_plugin, nat plugin_rows) plugin_manager" where
    "m = \<lparr>pm_db = d, pm_plugins = Map.empty, pm_instances = Map.empty, pm_events = []\<rparr>"
  have new: "new_plugin_manager cl sql_plugin_ops d = Inr m"
    by (simp add: new_plugin_manager_def load_plugins_from_db_def sql_plugin_ops_def pr_select_def pr_call_faultless
        assms m_def)
  obtain m' r where i: "pm_install sql_plugin_ops base_ops 5 opts ''dir'' (Some mf) (Some ''c'') m = (m', r)" by fastforce
  then have "pm_plugins m' ''p@1'' \<noteq> None \<and> pm_instances m' ''p@1'' \<noteq> None"
    by (auto simp: pm_install_def opts_def mf_def load_from_directory_def validate_manifest_def valid_types_def
        generate_plugin_id_def m_def validate_plugin_def save_plugin_def sql_plugin_ops_def pr_insert_def
        pr_call_faultless assms prepared_def emit_event_def put_plugin_def pm_enable_def base_ops_def load_plugin_def
        write_through_def update_plugin_def pr_update_def Let_def)
  with new i plugin_step.install that show ?thesis by (meson r_into_rtranclp)
qed

definition running_row :: "nat plugin" where
  "running_row = \<lparr>pg_id = ''p@1'', pg_name = ''p'', pg_version = ''1'', pg_description = [], pg_type = ''cli'',
     pg_status = StatusRunning, pg_enabled = True, pg_manifest = None, pg_config = None, pg_permissions = [],
     pg_dependencies = [], pg_path = [], pg_checksum = [], pg_installed_at = 1, pg_updated_at = 1,
     pg_last_started_at = Some 1, pg_last_stopped_at = None, pg_error = []\<rparr>"

definition running_table :: "nat plugin_rows" where
  "running_table = \<lparr>pr_table = [(''p@1'', running_row)], pr_faults = []\<rparr>"

lemma running_table_good: "pr_good running_table" "pr_faults running_table = []"
    "pr_rows running_table ''p@1'' = Some running_row"
  by (simp_all add: running_table_def pr_good_def pr_rows_def running_row_def)


theorem restart_strands_running_witness:
  "\<exists>m :: (nat, nat base_plugin, nat plugin_rows) plugin_manager. new_plugin_manager micro_columns sql_plugin_ops running_table = Inr m
     \<and> pm_stop sql_plugin_ops base_ops 9 ''p@1'' m = (m, Some ErrInstanceNotFound)"
proof -
  obtain m :: "(nat, nat base_plugin, nat plugin_rows) plugin_manager" where
    m: "new_plugin_manager micro_columns sql_plugin_ops running_table = Inr m"
    using new_manager_faultless [OF micro_stable running_table_good(1,2)] by blast
  have "(plugin_step sql_plugin_ops base_ops)\<^sup>*\<^sup>* m m" by simp
  from restart_strands_running [OF pr.plugin_table_axioms running_table_good(1) m running_table_good(3) _ _ this] m
  show ?thesis by (auto simp: running_row_def)
qed

theorem restart_restores_plugins_witness:
  "\<exists>m m' m'' :: (nat, nat base_plugin, nat plugin_rows) plugin_manager.
     (plugin_step sql_plugin_ops base_ops)\<^sup>*\<^sup>* m m' \<and> pm_plugins m' ''p@1'' \<noteq> None
     \<and> new_plugin_manager micro_columns sql_plugin_ops (pm_db m') = Inr m''
     \<and> pm_plugins m'' ''p@1'' = map_option (loaded_row micro_columns) (pm_plugins m' ''p@1'')"
proof -
  define d :: "nat plugin_rows" where d: "d = \<lparr>pr_table = [], pr_faults = []\<rparr>"
  obtain m m' :: "(nat, nat base_plugin, nat plugin_rows) plugin_manager" where
    r: "new_plugin_manager micro_columns sql_plugin_ops d = Inr m" "(plugin_step sql_plugin_ops base_ops)\<^sup>*\<^sup>* m m'"
      "pm_plugins m' ''p@1'' \<noteq> None"
    by (rule sample_run [where cl = micro_columns, OF d])
  have "pr_good d" "pr_faults d = []" by (simp_all add: d pr_good_def)
  from restart_restores_plugins [OF micro_stable this r(1,2)] r(2,3) show ?thesis by blast
qed

definition sample_plugins :: "(nat, nat base_plugin, nat plugin_rows) plugin_manager" where
  "sample_plugins = \<lparr>pm_db = running_table, pm_plugins = [''p@1'' \<mapsto> running_row], pm_instances = Map.empty, pm_events = []\<rparr>"

theorem list_pages_partition_witness:
  "\<exists>pages :: nat plugin_list list. concat (map pl_plugins pages) = [running_row] \<and> length pages = 1"
proof -
  define f where "f = \<lparr>fp_status = [], fp_type = [], fp_enabled = None, fp_page = 0, fp_page_size = 1\<rparr>"
  have ps: "filter (plugin_matches f) (map snd (visit [''p@1''] (pm_plugins sample_plugins))) = [running_row]"
    by (simp add: plugin_matches_def f_def sample_plugins_def)
  have one: "pm_list [''p@1''] (f\<lparr>fp_page := int i + 1\<rparr>) sample_plugins
      = (if 1 < i then Inl SliceOutOfRange else page_slice 1 (int i + 1) [running_row])" for i
    using page_slice_in_range [of 1 i "[running_row]"] ps
    by (simp add: pm_list_def page_of_def f_def plugin_matches_def [abs_def])
  obtain pages where p: "concat (map pl_plugins pages) = [running_row]"
      "\<forall>i<length pages. pm_list [''p@1''] (f\<lparr>fp_page := int i + 1\<rparr>) sample_plugins = Inr (pages ! i)
         \<and> pl_total_pages (pages ! i) = int (length pages)"
    using list_pages_partition [of f "[''p@1'']" sample_plugins] unfolding ps by (auto simp: f_def)
  from p(1) have "0 < length pages" by auto
  with p(2) have "pm_list [''p@1''] (f\<lparr>fp_page := int 0 + 1\<rparr>) sample_plugins = Inr (pages ! 0)"
      "pl_total_pages (pages ! 0) = int (length pages)" by blast+
  note first = this
  have "Inr (pages ! 0) = page_slice 1 (int 0 + 1) [running_row]" using first(1) unfolding one by simp
  then have "pages ! 0 = \<lparr>pl_plugins = [running_row], pl_total = 1, pl_page = 1, pl_page_size = 1, pl_total_pages = 1\<rparr>"
    by (simp add: page_slice_def go_mod_def go_div_def Let_def)
  with first(2) have "length pages = 1" by simp
  with p(1) show ?thesis by blast
qed

end
