(* ===== verification/Permissions.thy ===== *)
theory Permissions
  imports Float64 GoStrings
begin

text \<open>
  The permission catalogue, \<^verbatim>\<open>authz/permissions.go\<close>: the manager of permissions with their dependencies and of
  permission sets, the checker with its conditions over a request's context, and the functions on lists of
  permission ids. A Go \<^verbatim>\<open>interface{}\<close> is a \<open>cvalue\<close>, which keeps the dynamic types that \<open>==\<close> tells apart; an
  operation that panics (comparing two slices or two maps) is \<open>None\<close>. Names, descriptions and metadata are
  not read by the code and left out, except in the standard catalogue, whose ids, resources and actions are kept.
\<close>

section \<open>Values and conditions\<close>

datatype int_kind = KInt | KInt8 | KInt16 | KInt32 | KInt64 | KUint | KUint8 | KUint16 | KUint32 | KUint64

datatype cvalue = CNil | CBool bool | CString string | CInt int_kind int | CFloat32 rat | CFloat64 rat
  | CStrings "string list" | CList "cvalue list" | CMap "(string \<times> cvalue) list"

datatype permission_error = ErrPermissionDenied | ErrPermissionNotFound | ErrPermissionInvalid | ErrPermissionDuplicate
  | ErrPermissionDependency string | ErrDependedOn string | ErrSetInvalid | ErrSetPermission string | ErrSetNotFound

text \<open>
  Go's \<open>==\<close> on interface values: different dynamic types are unequal, and two slices or two maps of one type
  cannot be compared.
\<close>

definition iface_eq :: "cvalue \<Rightarrow> cvalue \<Rightarrow> bool option" where
  "iface_eq a b =
     (case (a, b) of
        (CStrings _, CStrings _) \<Rightarrow> None
      | (CList _, CList _) \<Rightarrow> None
      | (CMap _, CMap _) \<Rightarrow> None
      | _ \<Rightarrow> Some (a = b))"

fun iface_member :: "cvalue \<Rightarrow> cvalue list \<Rightarrow> bool option" where
  "iface_member v [] = Some False"
| "iface_member v (x # xs) =
     (case iface_eq x v of
        None \<Rightarrow> None
      | Some b \<Rightarrow> if b then Some True else iface_member v xs)"

definition number_of :: "cvalue \<Rightarrow> rat" where
  "number_of v = (case v of CInt _ n \<Rightarrow> fl (of_int n) | CFloat32 x \<Rightarrow> x | CFloat64 x \<Rightarrow> x | _ \<Rightarrow> 0)"

definition compare_values :: "cvalue \<Rightarrow> cvalue \<Rightarrow> int" where
  "compare_values a b =
     (if number_of a < number_of b then - 1 else if number_of a > number_of b then 1 else 0)"

record perm_condition =
  pc_key :: string
  pc_operator :: string
  pc_value :: cvalue

definition both_strings :: "(string \<Rightarrow> string \<Rightarrow> bool) \<Rightarrow> cvalue \<Rightarrow> cvalue \<Rightarrow> bool" where
  "both_strings f a b = (case (a, b) of (CString s, CString t) \<Rightarrow> f s t | _ \<Rightarrow> False)"

definition value_in :: "cvalue \<Rightarrow> cvalue \<Rightarrow> bool option" where
  "value_in v c =
     (case c of
        CList xs \<Rightarrow> iface_member v xs
      | CStrings ss \<Rightarrow> Some (case v of CString s \<Rightarrow> s \<in> set ss | _ \<Rightarrow> False)
      | _ \<Rightarrow> Some False)"

definition value_not_in :: "cvalue \<Rightarrow> cvalue \<Rightarrow> bool option" where
  "value_not_in v c =
     (case c of
        CList xs \<Rightarrow> map_option Not (iface_member v xs)
      | CStrings ss \<Rightarrow> Some (case v of CString s \<Rightarrow> s \<notin> set ss | _ \<Rightarrow> True)
      | _ \<Rightarrow> Some True)"

definition evaluate_perm_condition :: "(string \<rightharpoonup> cvalue) \<Rightarrow> perm_condition \<Rightarrow> bool option" where
  "evaluate_perm_condition ctx c =
     (let oper = pc_operator c; w = pc_value c
      in case ctx (pc_key c) of
        None \<Rightarrow> Some (oper = ''not_exists'' \<or> oper = ''ne'')
      | Some v \<Rightarrow>
          if oper = ''eq'' \<or> oper = ''=='' then iface_eq v w
          else if oper = ''ne'' \<or> oper = ''!='' then map_option Not (iface_eq v w)
          else if oper = ''in'' then value_in v w
          else if oper = ''not_in'' then value_not_in v w
          else if oper = ''gt'' \<or> oper = ''>'' then Some (compare_values v w > 0)
          else if oper = ''lt'' \<or> oper = ''<'' then Some (compare_values v w < 0)
          else if oper = ''gte'' \<or> oper = ''>='' then Some (compare_values v w \<ge> 0)
          else if oper = ''lte'' \<or> oper = ''<='' then Some (compare_values v w \<le> 0)
          else if oper = ''exists'' then Some True
          else if oper = ''not_exists'' then Some False
          else if oper = ''contains'' then Some (both_strings (\<lambda>s t. contains t s) v w)
          else if oper = ''starts_with'' then Some (both_strings (\<lambda>s t. has_prefix t s) v w)
          else if oper = ''ends_with'' then Some (both_strings (\<lambda>s t. has_suffix t s) v w)
          else Some False)"

section \<open>The manager\<close>

record catalogue_permission =
  pn_id :: string
  pn_resource :: string
  pn_action :: string
  pn_conditions :: "perm_condition list"
  pn_depends_on :: "string list"

record permission_set =
  ps_id :: string
  ps_permissions :: "string list"

record permission_manager =
  pn_permissions :: "string \<rightharpoonup> catalogue_permission"
  pn_sets :: "string \<rightharpoonup> permission_set"

definition new_permission_manager :: permission_manager where
  "new_permission_manager = \<lparr>pn_permissions = Map.empty, pn_sets = Map.empty\<rparr>"

definition generate_permission_id :: "string \<Rightarrow> string \<Rightarrow> string" where
  "generate_permission_id resource action = resource @ '':'' @ action"

definition parse_permission_id :: "string \<Rightarrow> permission_error + string \<times> string" where
  "parse_permission_id pid = (case split_n 2 (CHR '':'') pid of [r, a] \<Rightarrow> Inr (r, a) | _ \<Rightarrow> Inl ErrPermissionInvalid)"

definition with_id :: "catalogue_permission \<Rightarrow> catalogue_permission" where
  "with_id p = (if pn_id p = [] then p\<lparr>pn_id := generate_permission_id (pn_resource p) (pn_action p)\<rparr> else p)"

definition register_permission :: "catalogue_permission option \<Rightarrow> permission_manager \<Rightarrow> permission_manager \<times> permission_error option" where
  "register_permission perm m =
     (case perm of
        None \<Rightarrow> (m, Some ErrPermissionInvalid)
      | Some p \<Rightarrow>
          let p = with_id p in
          if pn_permissions m (pn_id p) \<noteq> None then (m, Some ErrPermissionDuplicate)
          else (case find (\<lambda>dep. pn_permissions m dep = None) (pn_depends_on p) of
                  Some dep \<Rightarrow> (m, Some (ErrPermissionDependency dep))
                | None \<Rightarrow> (m\<lparr>pn_permissions := (pn_permissions m)(pn_id p \<mapsto> p)\<rparr>, None)))"

definition get_permission :: "string \<Rightarrow> permission_manager \<Rightarrow> permission_error + catalogue_permission" where
  "get_permission pid m = (case pn_permissions m pid of None \<Rightarrow> Inl ErrPermissionNotFound | Some p \<Rightarrow> Inr p)"

definition get_permission_by_resource_action :: "string \<Rightarrow> string \<Rightarrow> permission_manager \<Rightarrow> permission_error + catalogue_permission" where
  "get_permission_by_resource_action resource action m = get_permission (generate_permission_id resource action) m"

definition list_permissions :: "string list \<Rightarrow> permission_manager \<Rightarrow> catalogue_permission list" where
  "list_permissions ks m = map snd (visit ks (pn_permissions m))"

definition list_permissions_by_resource :: "string list \<Rightarrow> string \<Rightarrow> permission_manager \<Rightarrow> catalogue_permission list" where
  "list_permissions_by_resource ks resource m = filter (\<lambda>p. pn_resource p = resource) (list_permissions ks m)"

text \<open>The permissions are searched for one that depends on the deleted one in the order \<open>ks\<close>.\<close>

definition delete_permission :: "string list \<Rightarrow> string \<Rightarrow> permission_manager \<Rightarrow> permission_manager \<times> permission_error option" where
  "delete_permission ks pid m =
     (if pn_permissions m pid = None then (m, Some ErrPermissionNotFound)
      else case find (\<lambda>p. pid \<in> set (pn_depends_on p)) (list_permissions ks m) of
        Some p \<Rightarrow> (m, Some (ErrDependedOn (pn_id p)))
      | None \<Rightarrow> (m\<lparr>pn_permissions := (pn_permissions m)(pid := None)\<rparr>, None))"

definition create_permission_set :: "permission_set option \<Rightarrow> permission_manager \<Rightarrow> permission_manager \<times> permission_error option" where
  "create_permission_set pset m =
     (case pset of
        None \<Rightarrow> (m, Some ErrSetInvalid)
      | Some s \<Rightarrow>
          if ps_id s = [] then (m, Some ErrSetInvalid)
          else (case find (\<lambda>pid. pn_permissions m pid = None) (ps_permissions s) of
                  Some pid \<Rightarrow> (m, Some (ErrSetPermission pid))
                | None \<Rightarrow> (m\<lparr>pn_sets := (pn_sets m)(ps_id s \<mapsto> s)\<rparr>, None)))"

definition get_permission_set :: "string \<Rightarrow> permission_manager \<Rightarrow> permission_error + permission_set" where
  "get_permission_set sid m = (case pn_sets m sid of None \<Rightarrow> Inl ErrSetNotFound | Some s \<Rightarrow> Inr s)"

definition list_permission_sets :: "string list \<Rightarrow> permission_manager \<Rightarrow> permission_set list" where
  "list_permission_sets ks m = map snd (visit ks (pn_sets m))"

definition delete_permission_set :: "string \<Rightarrow> permission_manager \<Rightarrow> permission_manager \<times> permission_error option" where
  "delete_permission_set sid m =
     (if pn_sets m sid = None then (m, Some ErrSetNotFound) else (m\<lparr>pn_sets := (pn_sets m)(sid := None)\<rparr>, None))"

section \<open>The checker\<close>

definition permission_all :: string where
  "permission_all = ''*''"

definition checker_has_permission :: "string list \<Rightarrow> string \<Rightarrow> bool" where
  "checker_has_permission user pid \<longleftrightarrow> list_ex (\<lambda>p. p = pid \<or> p = permission_all) user"

fun checker_has_any_permission :: "string list \<Rightarrow> string list \<Rightarrow> bool" where
  "checker_has_any_permission [] pids = False"
| "checker_has_any_permission (p # user) pids =
     (if p = permission_all then True else if list_ex (\<lambda>pid. p = pid) pids then True else checker_has_any_permission user pids)"

definition checker_has_all_permissions :: "string list \<Rightarrow> string list \<Rightarrow> bool" where
  "checker_has_all_permissions user pids \<longleftrightarrow> list_all (\<lambda>pid. list_ex (\<lambda>p. p = pid \<or> p = permission_all) user) pids"

text \<open>The conditions are evaluated in order up to the first that fails.\<close>

fun conditions_hold :: "(string \<rightharpoonup> cvalue) \<Rightarrow> perm_condition list \<Rightarrow> bool option" where
  "conditions_hold ctx [] = Some True"
| "conditions_hold ctx (c # cs) =
     (case evaluate_perm_condition ctx c of
        None \<Rightarrow> None
      | Some b \<Rightarrow> if b then conditions_hold ctx cs else Some False)"

definition check_permission :: "permission_manager \<Rightarrow> string list \<Rightarrow> string \<Rightarrow> string \<Rightarrow> (string \<rightharpoonup> cvalue)
    \<Rightarrow> permission_error option option" where
  "check_permission m user resource action ctx =
     (let pid = generate_permission_id resource action
      in if \<not> checker_has_permission user pid then Some (Some ErrPermissionDenied)
         else case get_permission pid m of
           Inl _ \<Rightarrow> Some None
         | Inr perm \<Rightarrow>
             (case conditions_hold ctx (pn_conditions perm) of
                None \<Rightarrow> None
              | Some b \<Rightarrow>
                  if \<not> b then Some (Some ErrPermissionDenied)
                  else (case find (\<lambda>dep. \<not> list_ex (\<lambda>p. p = dep) user) (pn_depends_on perm) of
                          Some dep \<Rightarrow> Some (Some (ErrPermissionDependency dep))
                        | None \<Rightarrow> Some None)))"

section \<open>The standard catalogue\<close>

text \<open>The standard permissions: id, resource and action. None has a condition or a dependency.\<close>

definition standard_entries :: "(string \<times> string \<times> string) list" where
  "standard_entries = [
    (''user:read'', ''user'', ''read''), (''user:create'', ''user'', ''create''),
    (''user:update'', ''user'', ''update''), (''user:delete'', ''user'', ''delete''),
    (''user:manage'', ''user'', ''manage''), (''role:read'', ''role'', ''read''),
    (''role:create'', ''role'', ''create''), (''role:update'', ''role'', ''update''),
    (''role:delete'', ''role'', ''delete''), (''role:manage'', ''role'', ''manage''),
    (''model:read'', ''model'', ''read''), (''model:create'', ''model'', ''create''),
    (''model:update'', ''model'', ''update''), (''model:delete'', ''model'', ''delete''),
    (''model:manage'', ''model'', ''manage''), (''inference:read'', ''inference'', ''read''),
    (''inference:create'', ''inference'', ''create''), (''audit:read'', ''audit'', ''read''),
    (''audit:export'', ''audit'', ''export''), (''api_key:read'', ''api_key'', ''read''),
    (''api_key:create'', ''api_key'', ''create''), (''api_key:delete'', ''api_key'', ''delete''),
    (''billing:read'', ''billing'', ''read''), (''billing:manage'', ''billing'', ''manage''),
    (''workspace:read'', ''workspace'', ''read''), (''workspace:create'', ''workspace'', ''create''),
    (''workspace:update'', ''workspace'', ''update''), (''workspace:delete'', ''workspace'', ''delete''),
    (''organization:read'', ''organization'', ''read''),
    (''organization:update'', ''organization'', ''update''),
    (''organization:manage'', ''organization'', ''manage'')]"

definition standard_permissions :: "catalogue_permission list" where
  "standard_permissions = map (\<lambda>(pid, r, a). \<lparr>pn_id = pid, pn_resource = r, pn_action = a, pn_conditions = [],
     pn_depends_on = []\<rparr>) standard_entries"

fun register_all :: "catalogue_permission list \<Rightarrow> permission_manager \<Rightarrow> permission_manager \<times> permission_error option" where
  "register_all [] m = (m, None)"
| "register_all (p # perms) m =
     (case register_permission (Some p) m of
        (m, None) \<Rightarrow> register_all perms m
      | (m, Some e) \<Rightarrow> if e = ErrPermissionDuplicate then register_all perms m else (m, Some e))"

definition register_standard_permissions :: "permission_manager \<Rightarrow> permission_manager \<times> permission_error option" where
  "register_standard_permissions m = register_all standard_permissions m"

section \<open>Lists of permission ids\<close>

record permission_filter =
  pf_resource :: string
  pf_action :: string
  pf_actions :: "string list"
  pf_permission_ids :: "string list"

definition passes_filter :: "permission_filter \<Rightarrow> string \<Rightarrow> bool" where
  "passes_filter f pid =
     (if pf_permission_ids f \<noteq> [] \<and> \<not> list_ex (\<lambda>i. pid = i) (pf_permission_ids f) then False
      else case parse_permission_id pid of
        Inl _ \<Rightarrow> False
      | Inr (resource, action) \<Rightarrow>
          if pf_resource f \<noteq> [] \<and> resource \<noteq> pf_resource f then False
          else if pf_action f \<noteq> [] \<and> action \<noteq> pf_action f then False
          else if pf_actions f \<noteq> [] \<and> \<not> list_ex (\<lambda>a. action = a) (pf_actions f) then False
          else True)"

definition filter_permissions :: "string list \<Rightarrow> permission_filter \<Rightarrow> string list" where
  "filter_permissions perms f = filter (passes_filter f) perms"

fun merge_loop :: "string set \<Rightarrow> string list \<Rightarrow> string list" where
  "merge_loop seen [] = []"
| "merge_loop seen (p # perms) =
     (if p \<in> seen then merge_loop seen perms else p # merge_loop (insert p seen) perms)"

definition merge_permissions :: "string list list \<Rightarrow> string list" where
  "merge_permissions perm_lists = merge_loop {} (concat perm_lists)"

definition subtract_permissions :: "string list \<Rightarrow> string list \<Rightarrow> string list" where
  "subtract_permissions perms sub = filter (\<lambda>p. p \<notin> set sub) perms"

section \<open>Runs of the manager\<close>

inductive permission_step :: "permission_manager \<Rightarrow> permission_manager \<Rightarrow> bool" where
  register: "register_permission p m = (m', err) \<Longrightarrow> permission_step m m'"
| delete: "covers ks (pn_permissions m) \<Longrightarrow> delete_permission ks pid m = (m', err) \<Longrightarrow> permission_step m m'"
| create_set: "create_permission_set s m = (m', err) \<Longrightarrow> permission_step m m'"
| delete_set: "delete_permission_set sid m = (m', err) \<Longrightarrow> permission_step m m'"
| standard: "register_standard_permissions m = (m', err) \<Longrightarrow> permission_step m m'"

section \<open>Dependencies\<close>

text \<open>Which permission depends directly on which.\<close>

definition depends :: "permission_manager \<Rightarrow> (string \<times> string) set" where
  "depends m = {(pid, dep). \<exists>p. pn_permissions m pid = Some p \<and> dep \<in> set (pn_depends_on p)}"

definition catalogue_good :: "permission_manager \<Rightarrow> bool" where
  "catalogue_good m \<longleftrightarrow> finite (dom (pn_permissions m)) \<and> Range (depends m) \<subseteq> dom (pn_permissions m) \<and> acyclic (depends m)
     \<and> (\<forall>pid p. pn_permissions m pid = Some p \<longrightarrow> pn_id p = pid)"

text \<open>Edges that leave a node nothing leads to close no cycle.\<close>

lemma acyclic_new_source:
  assumes "acyclic r" "a \<notin> Range r" "a \<notin> B"
  shows "acyclic (r \<union> {a} \<times> B)"
proof (rule acyclicI, intro allI notI)
  fix x assume x: "(x, x) \<in> (r \<union> {a} \<times> B)\<^sup>+"
  have "(y, z) \<in> (r \<union> {a} \<times> B)\<^sup>+ \<Longrightarrow> z \<noteq> a \<and> (y \<noteq> a \<longrightarrow> (y, z) \<in> r\<^sup>+)" for y z
  proof (induction rule: trancl_induct)
    case (base z)
    with assms(2,3) show ?case by auto
  next
    case (step y' z)
    with assms(2,3) show ?case by (auto intro: trancl_into_trancl)
  qed
  from this [OF x] have "(x, x) \<in> r\<^sup>+" by blast
  with assms(1) show False by (simp add: acyclic_def)
qed

lemma depends_put:
  "pn_permissions m pid = None \<Longrightarrow>
    depends (m\<lparr>pn_permissions := (pn_permissions m)(pid \<mapsto> p)\<rparr>) = depends m \<union> {pid} \<times> set (pn_depends_on p)"
  by (auto simp: depends_def split: if_splits)

lemma good_register:
  assumes "catalogue_good m" "register_permission perm m = (m', err)"
  shows "catalogue_good m'"
proof (cases "m' = m")
  case False
  then obtain p where p: "pn_permissions m (pn_id p) = None" "find (\<lambda>dep. pn_permissions m dep = None) (pn_depends_on p) = None"
      and m': "m' = m\<lparr>pn_permissions := (pn_permissions m)(pn_id p \<mapsto> p)\<rparr>"
    using assms(2) by (auto simp: register_permission_def Let_def split: option.splits if_splits)
  have deps: "set (pn_depends_on p) \<subseteq> dom (pn_permissions m)" using p(2) by (auto simp: find_None_iff)
  have "pn_id p \<notin> Range (depends m)" using assms(1) p(1) by (auto simp: catalogue_good_def)
  with assms(1) deps p(1) have "acyclic (depends m')"
    unfolding m' depends_put [OF p(1)] by (intro acyclic_new_source) (auto simp: catalogue_good_def)
  moreover have "Range (depends m') \<subseteq> dom (pn_permissions m')"
    using assms(1) deps unfolding m' depends_put [OF p(1)] by (auto simp: catalogue_good_def)
  ultimately show ?thesis using assms(1) by (auto simp: catalogue_good_def m')
qed (use assms in simp)

lemma good_delete:
  assumes "catalogue_good m" "covers ks (pn_permissions m)" "delete_permission ks pid m = (m', err)"
  shows "catalogue_good m'"
proof (cases "m' = m")
  case False
  with assms(3) have free: "find (\<lambda>p. pid \<in> set (pn_depends_on p)) (list_permissions ks m) = None"
      and m': "m' = m\<lparr>pn_permissions := (pn_permissions m)(pid := None)\<rparr>"
    by (auto simp: delete_permission_def split: option.splits if_splits)
  have "pid \<notin> set (pn_depends_on p)" if "pn_permissions m k = Some p" for k p
    using free that assms(2) by (force simp: find_None_iff list_permissions_def set_visit covers_def)
  then have "pid \<notin> Range (depends m)" by (auto simp: depends_def)
  moreover have sub: "depends m' \<subseteq> depends m" by (auto simp: m' depends_def split: if_splits)
  ultimately have "Range (depends m') \<subseteq> dom (pn_permissions m')"
    using assms(1) by (fastforce simp: catalogue_good_def m')
  moreover have "acyclic (depends m')" using assms(1) sub acyclic_subset by (auto simp: catalogue_good_def)
  ultimately show ?thesis using assms(1) by (auto simp: catalogue_good_def m' split: if_splits)
qed (use assms in simp)

lemma good_register_all: "catalogue_good m \<Longrightarrow> register_all ps m = (m', err) \<Longrightarrow> catalogue_good m'"
  by (induction ps arbitrary: m) (auto split: prod.splits option.splits if_splits dest: good_register)

lemma good_sets: "catalogue_good (m\<lparr>pn_sets := f\<rparr>) = catalogue_good m"
  by (simp add: catalogue_good_def depends_def)

lemma good_step: "permission_step m m' \<Longrightarrow> catalogue_good m \<Longrightarrow> catalogue_good m'"
  by (induction rule: permission_step.induct)
    (auto simp: create_permission_set_def delete_permission_set_def good_sets register_standard_permissions_def
      split: option.splits if_splits dest: good_register good_delete good_register_all)

lemma good_run: "permission_step\<^sup>*\<^sup>* m m' \<Longrightarrow> catalogue_good m \<Longrightarrow> catalogue_good m'"
  by (induction rule: rtranclp_induct) (auto intro: good_step)

lemma good_new: "catalogue_good new_permission_manager"
  by (simp add: catalogue_good_def new_permission_manager_def depends_def acyclic_def)

lemma conditions_hold_iff: "conditions_hold ctx cs = Some True \<longleftrightarrow> (\<forall>c\<in>set cs. evaluate_perm_condition ctx c = Some True)"
  by (induction cs) (auto split: option.splits)

lemma find_some_first: "find P xs = Some x \<Longrightarrow> \<exists>ys zs. xs = ys @ x # zs \<and> P x \<and> (\<forall>y\<in>set ys. \<not> P y)"
proof (induction xs)
  case (Cons a xs)
  show ?case
  proof (cases "P a")
    case True
    with Cons.prems have "a # xs = [] @ x # xs" "P x" by simp_all
    then show ?thesis by (intro exI [of _ "[]"] exI [of _ xs]) simp
  next
    case False
    with Cons obtain ys zs where "xs = ys @ x # zs" "P x" "\<forall>y\<in>set ys. \<not> P y" by auto
    with False have "a # xs = (a # ys) @ x # zs" "P x" "\<forall>y\<in>set (a # ys). \<not> P y" by simp_all
    then show ?thesis by blast
  qed
qed simp

lemma split_n_2: "split_n 2 c (s @ c # t) = (if c \<in> set s
    then takeWhile (\<lambda>x. x \<noteq> c) s # [tl (dropWhile (\<lambda>x. x \<noteq> c) s) @ c # t] else [s, t])"
  by (auto simp: numeral_2_eq_2 takeWhile_append dropWhile_append takeWhile_eq_all_conv)

lemma merge_loop_seen: "merge_loop seen xs = filter (\<lambda>x. x \<notin> seen) (merge_loop {} xs)"
proof (induction xs arbitrary: seen)
  case (Cons x xs)
  have "merge_loop (insert x seen) xs = filter (\<lambda>y. y \<notin> insert x seen) (merge_loop {} xs)" by (rule Cons.IH)
  moreover have "merge_loop {x} xs = filter (\<lambda>y. y \<notin> {x}) (merge_loop {} xs)" by (rule Cons.IH)
  moreover have "merge_loop seen xs = filter (\<lambda>y. y \<notin> seen) (merge_loop {} xs)" by (rule Cons.IH)
  ultimately show ?case by (auto intro: filter_cong)
qed simp

lemma set_merge_loop: "set (merge_loop seen xs) = set xs - seen"
  by (induction xs arbitrary: seen) auto

lemma distinct_merge_loop: "distinct (merge_loop seen xs)"
  by (induction xs arbitrary: seen) (auto simp: set_merge_loop)

section \<open>Properties\<close>

text \<open>C8: dependencies hold. Along every run of the manager each permission a registered one depends on is
  registered, each is kept under its own id, and no permission depends on itself, directly or through others,
  so that following dependencies always ends. A permission is deleted exactly when none depends on it.\<close>

theorem permission_dependencies_hold:
  assumes "permission_step\<^sup>*\<^sup>* new_permission_manager m"
  shows "(\<forall>pid p. pn_permissions m pid = Some p \<longrightarrow> pn_id p = pid \<and> set (pn_depends_on p) \<subseteq> dom (pn_permissions m))
    \<and> wf ((depends m)\<inverse>) \<and> (\<forall>pid. (pid, pid) \<notin> (depends m)\<^sup>+)
    \<and> (\<forall>ks pid. covers ks (pn_permissions m) \<longrightarrow> pid \<in> dom (pn_permissions m) \<longrightarrow>
         (snd (delete_permission ks pid m) = None \<longleftrightarrow> pid \<notin> Range (depends m)))"
proof -
  have g: "catalogue_good m" using assms good_new by (rule good_run)
  have "depends m \<subseteq> dom (pn_permissions m) \<times> dom (pn_permissions m)"
    using g by (auto simp: catalogue_good_def depends_def)
  then have "finite (depends m)" by (rule finite_subset) (use g in \<open>simp add: catalogue_good_def\<close>)
  then have "wf ((depends m)\<inverse>)" using g by (intro finite_acyclic_wf_converse) (simp_all add: catalogue_good_def)
  moreover have "set (pn_depends_on p) \<subseteq> dom (pn_permissions m)" if "pn_permissions m pid = Some p" for pid p
  proof
    fix dep assume "dep \<in> set (pn_depends_on p)"
    with that have "dep \<in> Range (depends m)" by (auto simp: depends_def)
    with g show "dep \<in> dom (pn_permissions m)" by (auto simp: catalogue_good_def)
  qed
  moreover have "snd (delete_permission ks pid m) = None \<longleftrightarrow> pid \<notin> Range (depends m)"
    if "covers ks (pn_permissions m)" "pid \<in> dom (pn_permissions m)" for ks pid
  proof -
    have "set (list_permissions ks m) = ran (pn_permissions m)"
      using that(1) by (force simp: list_permissions_def set_visit covers_def ran_def)
    then have "find (\<lambda>p. pid \<in> set (pn_depends_on p)) (list_permissions ks m) = None \<longleftrightarrow> pid \<notin> Range (depends m)"
      by (auto simp: find_None_iff depends_def ran_def)
    with that(2) show ?thesis by (auto simp: delete_permission_def split: option.splits)
  qed
  ultimately show ?thesis using g unfolding catalogue_good_def acyclic_def by blast
qed

theorem permission_dependencies_hold_witness:
  "\<exists>m p. pn_permissions m ''user:delete'' = Some p \<and> pn_depends_on p = [''user:read''] \<and> ''user:read'' \<in> dom (pn_permissions m)
     \<and> (''user:delete'', ''user:delete'') \<notin> (depends m)\<^sup>+"
proof -
  define a where "a = \<lparr>pn_id = ''user:read'', pn_resource = ''user'', pn_action = ''read'', pn_conditions = [], pn_depends_on = []\<rparr>"
  define b where "b = \<lparr>pn_id = ''user:delete'', pn_resource = ''user'', pn_action = ''delete'', pn_conditions = [],
    pn_depends_on = [''user:read'']\<rparr>"
  obtain m1 e1 where r1: "register_permission (Some a) new_permission_manager = (m1, e1)" by fastforce
  obtain m2 e2 where r2: "register_permission (Some b) m1 = (m2, e2)" by fastforce
  have m1: "m1 = new_permission_manager\<lparr>pn_permissions := [''user:read'' \<mapsto> a]\<rparr>"
    using r1 by (simp add: register_permission_def new_permission_manager_def with_id_def a_def)
  have m2: "pn_permissions m2 = [''user:read'' \<mapsto> a, ''user:delete'' \<mapsto> b]"
    using r2 by (auto simp: register_permission_def m1 with_id_def b_def new_permission_manager_def)
  have "permission_step\<^sup>*\<^sup>* new_permission_manager m2"
    using permission_step.register [OF r1] permission_step.register [OF r2] by (meson rtranclp.simps)
  note holds = permission_dependencies_hold [OF this]
  have b: "pn_permissions m2 ''user:delete'' = Some b" by (simp add: m2)
  with holds have "set (pn_depends_on b) \<subseteq> dom (pn_permissions m2)" "(''user:delete'', ''user:delete'') \<notin> (depends m2)\<^sup>+"
    by blast+
  with b show ?thesis by (intro exI [of _ m2] exI [of _ b]) (simp add: b_def)
qed

text \<open>C14: what a check decides. It grants access exactly when the user has the permission of the request or the
  wildcard, and, if the permission is registered, all its conditions hold and the user has every permission it
  depends on by name. A missing one is reported, the first in order; the wildcard does not stand for it, so a
  user with nothing but the wildcard is refused every permission that depends on another.\<close>

theorem check_permission_decides:
  "(check_permission m user resource action ctx = Some None \<longleftrightarrow>
       (generate_permission_id resource action \<in> set user \<or> ''*'' \<in> set user)
       \<and> (\<forall>p. pn_permissions m (generate_permission_id resource action) = Some p \<longrightarrow>
            (\<forall>c\<in>set (pn_conditions p). evaluate_perm_condition ctx c = Some True) \<and> set (pn_depends_on p) \<subseteq> set user))
    \<and> (\<forall>dep. check_permission m user resource action ctx = Some (Some (ErrPermissionDependency dep)) \<longrightarrow>
         (\<exists>p ys zs. pn_permissions m (generate_permission_id resource action) = Some p
            \<and> pn_depends_on p = ys @ dep # zs \<and> set ys \<subseteq> set user \<and> dep \<notin> set user))
    \<and> (\<forall>p. user = [''*''] \<and> pn_permissions m (generate_permission_id resource action) = Some p
           \<and> ''*'' \<notin> set (pn_depends_on p) \<and> pn_depends_on p \<noteq> [] \<longrightarrow>
         check_permission m user resource action ctx \<noteq> Some None)"
proof -
  define pid where "pid = generate_permission_id resource action"
  have user: "checker_has_permission user pid \<longleftrightarrow> pid \<in> set user \<or> ''*'' \<in> set user"
    by (auto simp: checker_has_permission_def permission_all_def list_ex_iff)
  have deps: "find (\<lambda>dep. \<not> list_ex (\<lambda>p. p = dep) user) ds = None \<longleftrightarrow> set ds \<subseteq> set user" for ds
    by (auto simp: find_None_iff list_ex_iff)
  have granted: "check_permission m user resource action ctx = Some None \<longleftrightarrow>
       (pid \<in> set user \<or> ''*'' \<in> set user)
       \<and> (\<forall>p. pn_permissions m pid = Some p \<longrightarrow>
            (\<forall>c\<in>set (pn_conditions p). evaluate_perm_condition ctx c = Some True) \<and> set (pn_depends_on p) \<subseteq> set user)"
    unfolding user [symmetric] conditions_hold_iff [symmetric] deps [symmetric]
    by (auto simp: check_permission_def Let_def get_permission_def pid_def [symmetric] split: option.splits if_splits)
  have "\<exists>p ys zs. pn_permissions m pid = Some p \<and> pn_depends_on p = ys @ dep # zs \<and> set ys \<subseteq> set user \<and> dep \<notin> set user"
    if "check_permission m user resource action ctx = Some (Some (ErrPermissionDependency dep))" for dep
  proof -
    from that obtain p where p: "pn_permissions m pid = Some p"
        "find (\<lambda>dep. \<not> list_ex (\<lambda>p. p = dep) user) (pn_depends_on p) = Some dep"
      by (auto simp: check_permission_def Let_def get_permission_def pid_def [symmetric] split: option.splits if_splits)
    from find_some_first [OF p(2)] p(1) show ?thesis by (fastforce simp: list_ex_iff)
  qed
  moreover have "check_permission m user resource action ctx \<noteq> Some None"
    if "user = [''*'']" "pn_permissions m pid = Some p" "''*'' \<notin> set (pn_depends_on p)" "pn_depends_on p \<noteq> []" for p
    using that granted by (cases "pn_depends_on p") auto
  ultimately show ?thesis using granted unfolding pid_def [symmetric] by blast
qed

theorem check_permission_decides_witness:
  "check_permission \<lparr>pn_permissions = [''a:b'' \<mapsto> \<lparr>pn_id = ''a:b'', pn_resource = ''a'', pn_action = ''b'',
       pn_conditions = [], pn_depends_on = [''c:d'']\<rparr>], pn_sets = Map.empty\<rparr> [''*''] ''a'' ''b'' Map.empty \<noteq> Some None"
proof -
  define p where "p = \<lparr>pn_id = ''a:b'', pn_resource = ''a'', pn_action = ''b'', pn_conditions = [], pn_depends_on = [''c:d'']\<rparr>"
  define m where "m = \<lparr>pn_permissions = [''a:b'' \<mapsto> p], pn_sets = Map.empty\<rparr>"
  have "pn_permissions m (generate_permission_id ''a'' ''b'') = Some p" by (simp add: m_def generate_permission_id_def)
  with check_permission_decides [of m "[''*'']" "''a''" "''b''" Map.empty]
  have "check_permission m [''*''] ''a'' ''b'' Map.empty \<noteq> Some None" by (simp add: p_def)
  then show ?thesis by (simp add: m_def p_def)
qed

text \<open>Permission ids. An id made of a resource without a colon and any action is parsed back into them, an id
  whose resource has a colon never is, and an id that is parsed is the one its parts make.\<close>

theorem permission_id_round_trip:
  "(parse_permission_id (generate_permission_id resource action) = Inr (resource, action) \<longleftrightarrow> CHR '':'' \<notin> set resource)
    \<and> (\<forall>r a. parse_permission_id pid = Inr (r, a) \<longrightarrow> generate_permission_id r a = pid)
    \<and> (parse_permission_id pid = Inl ErrPermissionInvalid \<longleftrightarrow> CHR '':'' \<notin> set pid)"
proof -
  have parse: "parse_permission_id s = (if CHR '':'' \<in> set s
      then Inr (takeWhile (\<lambda>x. x \<noteq> CHR '':'') s, tl (dropWhile (\<lambda>x. x \<noteq> CHR '':'') s)) else Inl ErrPermissionInvalid)" for s
    by (simp add: parse_permission_id_def numeral_2_eq_2)
  have "generate_permission_id r a = pid" if "parse_permission_id pid = Inr (r, a)" for r a
  proof -
    from that have c: "CHR '':'' \<in> set pid" "r = takeWhile (\<lambda>x. x \<noteq> CHR '':'') pid" "a = tl (dropWhile (\<lambda>x. x \<noteq> CHR '':'') pid)"
      by (auto simp: parse split: if_splits)
    obtain x xs where d: "dropWhile (\<lambda>x. x \<noteq> CHR '':'') pid = x # xs"
      using c(1) by (cases "dropWhile (\<lambda>x. x \<noteq> CHR '':'') pid") (auto simp: dropWhile_eq_Nil_conv)
    then have "x = CHR '':''" by (metis (mono_tags, lifting) dropWhile_eq_Cons_conv)
    with d c(2,3) show ?thesis
      using takeWhile_dropWhile_id [of "\<lambda>x. x \<noteq> CHR '':''" pid] by (simp add: generate_permission_id_def)
  qed
  moreover have "parse_permission_id (generate_permission_id resource action) = Inr (resource, action) \<longleftrightarrow> CHR '':'' \<notin> set resource"
  proof
    assume r: "parse_permission_id (generate_permission_id resource action) = Inr (resource, action)"
    then have "resource = takeWhile (\<lambda>x. x \<noteq> CHR '':'') (generate_permission_id resource action)"
      by (auto simp: parse split: if_splits)
    then show "CHR '':'' \<notin> set resource" by (metis (mono_tags, lifting) set_takeWhileD)
  next
    assume "CHR '':'' \<notin> set resource"
    then show "parse_permission_id (generate_permission_id resource action) = Inr (resource, action)"
      by (simp add: parse generate_permission_id_def takeWhile_append dropWhile_append takeWhile_eq_all_conv)
  qed
  ultimately show ?thesis by (simp add: parse)
qed

theorem permission_id_round_trip_witness:
  "generate_permission_id ''a'' ''b'' = ''a:b'' \<and> parse_permission_id ''ab'' = Inl ErrPermissionInvalid"
  using permission_id_round_trip [of "''a''" "''b''" "''a:b''"] permission_id_round_trip [of "[]" "[]" "''ab''"]
  by (simp add: parse_permission_id_def numeral_2_eq_2 generate_permission_id_def)

text \<open>Merging keeps the first occurrence of every id, and subtracting undoes nothing else.\<close>

theorem merge_permissions_correct:
  "merge_permissions perm_lists = rev (remdups (rev (concat perm_lists)))"
proof -
  have "merge_loop {} xs = rev (remdups (rev xs))" for xs :: "string list"
  proof (induction xs)
    case (Cons x xs)
    have "merge_loop {} (x # xs) = x # filter (\<lambda>y. y \<noteq> x) (merge_loop {} xs)"
      using merge_loop_seen [of "{x}" xs] by simp
    also have "\<dots> = x # rev (filter (\<lambda>y. y \<noteq> x) (remdups (rev xs)))" by (simp add: Cons.IH rev_filter)
    also have "\<dots> = rev (remdups (rev xs @ [x]))"
      by (induction xs rule: rev_induct) (auto simp: remdups_filter)
    finally show ?case by simp
  qed simp
  then show ?thesis by (simp add: merge_permissions_def)
qed

lemma register_plain:
  assumes "pn_id p \<noteq> []" "pn_depends_on p = []"
  shows "register_permission (Some p) m =
    (if pn_permissions m (pn_id p) \<noteq> None then (m, Some ErrPermissionDuplicate)
     else (m\<lparr>pn_permissions := (pn_permissions m)(pn_id p \<mapsto> p)\<rparr>, None))"
  using assms by (simp add: register_permission_def with_id_def)

lemma register_all_plain:
  assumes "\<forall>p\<in>set ps. pn_id p \<noteq> [] \<and> pn_depends_on p = []"
  shows "\<exists>m'. register_all ps m = (m', None) \<and> pn_permissions m \<subseteq>\<^sub>m pn_permissions m'
    \<and> (\<forall>p\<in>set ps. pn_permissions m' (pn_id p) \<noteq> None)"
  using assms
proof (induction ps arbitrary: m)
  case (Cons p ps)
  define m1 where "m1 = (if pn_permissions m (pn_id p) \<noteq> None then m
    else m\<lparr>pn_permissions := (pn_permissions m)(pn_id p \<mapsto> p)\<rparr>)"
  have "register_all (p # ps) m = register_all ps m1"
    using Cons.prems by (simp add: register_plain m1_def)
  moreover have "pn_permissions m \<subseteq>\<^sub>m pn_permissions m1" "pn_permissions m1 (pn_id p) \<noteq> None"
    by (auto simp: m1_def map_le_def)
  moreover obtain m' where "register_all ps m1 = (m', None)" "pn_permissions m1 \<subseteq>\<^sub>m pn_permissions m'"
      "\<forall>p\<in>set ps. pn_permissions m' (pn_id p) \<noteq> None"
    using Cons.IH [of m1] Cons.prems by auto
  ultimately show ?case
    by (intro exI [of _ m']) (auto intro: map_le_trans simp: map_le_def dom_def)
qed simp

lemma register_all_known:
  "\<forall>p\<in>set ps. pn_id p \<noteq> [] \<and> pn_depends_on p = [] \<and> pn_permissions m (pn_id p) \<noteq> None \<Longrightarrow> register_all ps m = (m, None)"
  by (induction ps) (auto simp: register_plain)

text \<open>Registering the standard catalogue always succeeds, keeps what is there, and a second time changes nothing.\<close>

theorem standard_permissions_idempotent:
  "\<exists>m'. register_standard_permissions m = (m', None) \<and> pn_permissions m \<subseteq>\<^sub>m pn_permissions m'
     \<and> (\<forall>(pid, r, a)\<in>set standard_entries. pn_permissions m' pid \<noteq> None \<and> pid = generate_permission_id r a)
     \<and> register_standard_permissions m' = (m', None)"
proof -
  have ids: "\<forall>(pid, r, a)\<in>set standard_entries. pid = generate_permission_id r a"
    by (simp add: standard_entries_def generate_permission_id_def)
  then have plain: "\<forall>p\<in>set standard_permissions. pn_id p \<noteq> [] \<and> pn_depends_on p = []"
    by (auto simp: standard_permissions_def generate_permission_id_def)
  from register_all_plain [OF this, of m] obtain m' where
    m': "register_standard_permissions m = (m', None)" "pn_permissions m \<subseteq>\<^sub>m pn_permissions m'"
      "\<forall>p\<in>set standard_permissions. pn_permissions m' (pn_id p) \<noteq> None"
    unfolding register_standard_permissions_def by blast
  then have "register_standard_permissions m' = (m', None)"
    using plain unfolding register_standard_permissions_def by (intro register_all_known) blast
  moreover have "\<forall>(pid, r, a)\<in>set standard_entries. pn_permissions m' pid \<noteq> None"
    using m'(3) by (auto simp: standard_permissions_def)
  ultimately show ?thesis using m' ids by fastforce
qed

end
