(* ===== verification/Csrf.thy ===== *)
theory Csrf
  imports Sessions GoStrings
begin

text \<open>
  Protection against cross-site request forgery, \<^verbatim>\<open>security/csrf.go\<close>: the token store interface with its
  in-memory implementation, generation and validation of tokens, the checks of a request and the middleware.
  The operations take the store's operations as a record, whose contract is the locale \<open>csrf_backend\<close>. The
  random token (\<^verbatim>\<open>base64\<close> of random bytes) is an argument, \<open>None\<close> when the source of randomness fails, and
  so are the parts of an HTTP request that are read. Comparison in constant time is equality.
\<close>

section \<open>Tokens and configuration\<close>

datatype csrf_error = ErrCSRFTokenMissing | ErrCSRFTokenExpired | ErrCSRFTokenMismatch | ErrCSRFRefererMismatch
  | ErrCSRFOriginMismatch | ErrCSRFDoubleCookieMismatch | ErrRandomSource | ErrTokenStore string

record csrf_config =
  cf_cookie_name :: string
  cf_cookie_domain :: string
  cf_cookie_path :: string
  cf_cookie_secure :: bool
  cf_cookie_http_only :: bool
  cf_cookie_same_site :: same_site
  cf_cookie_max_age :: int
  cf_header_name :: string
  cf_form_field_name :: string
  cf_token_length :: int
  cf_token_lifetime :: duration
  cf_check_referer :: bool
  cf_check_origin :: bool
  cf_trusted_origins :: "string list"
  cf_double_cookie :: bool
  cf_safe_methods :: "string list"

definition default_csrf_config :: csrf_config where
  "default_csrf_config =
     \<lparr>cf_cookie_name = ''_csrf'', cf_cookie_domain = [], cf_cookie_path = ''/'', cf_cookie_secure = True,
      cf_cookie_http_only = True, cf_cookie_same_site = SameSiteStrict, cf_cookie_max_age = 24 * 3600,
      cf_header_name = ''X-CSRF-Token'', cf_form_field_name = ''_csrf'', cf_token_length = 32,
      cf_token_lifetime = 24 * hour, cf_check_referer = True, cf_check_origin = True, cf_trusted_origins = [],
      cf_double_cookie = True, cf_safe_methods = [''GET'', ''HEAD'', ''OPTIONS'', ''TRACE'']\<rparr>"

datatype csrf_option = WithCookieName string | WithHeaderName string | WithFormFieldName string | WithTokenLength int
  | WithTokenLifetime duration | WithSecureCookie bool | WithSameSite same_site | WithTrustedOrigins "string list"
  | WithDoubleCookie bool | WithCheckOrigin bool | WithCheckReferer bool

definition apply_csrf_option :: "csrf_option \<Rightarrow> csrf_config \<Rightarrow> csrf_config" where
  "apply_csrf_option opt c =
     (case opt of
        WithCookieName name \<Rightarrow> c\<lparr>cf_cookie_name := name\<rparr>
      | WithHeaderName name \<Rightarrow> c\<lparr>cf_header_name := name\<rparr>
      | WithFormFieldName name \<Rightarrow> c\<lparr>cf_form_field_name := name\<rparr>
      | WithTokenLength n \<Rightarrow> c\<lparr>cf_token_length := n\<rparr>
      | WithTokenLifetime d \<Rightarrow> c\<lparr>cf_token_lifetime := d, cf_cookie_max_age := go_div d second\<rparr>
      | WithSecureCookie b \<Rightarrow> c\<lparr>cf_cookie_secure := b\<rparr>
      | WithSameSite m \<Rightarrow> c\<lparr>cf_cookie_same_site := m\<rparr>
      | WithTrustedOrigins os \<Rightarrow> c\<lparr>cf_trusted_origins := os\<rparr>
      | WithDoubleCookie b \<Rightarrow> c\<lparr>cf_double_cookie := b\<rparr>
      | WithCheckOrigin b \<Rightarrow> c\<lparr>cf_check_origin := b\<rparr>
      | WithCheckReferer b \<Rightarrow> c\<lparr>cf_check_referer := b\<rparr>)"

record csrf_token =
  ct_value :: string
  ct_expires_at :: time
  ct_created_at :: time

definition csrf_token_expired :: "time \<Rightarrow> csrf_token \<Rightarrow> bool" where
  "csrf_token_expired now t \<longleftrightarrow> ct_expires_at t < now"

section \<open>Stores\<close>

record 's csrf_store =
  ts_get :: "time \<Rightarrow> string \<Rightarrow> 's \<Rightarrow> 's \<times> (csrf_error + csrf_token)"
  ts_set :: "string \<Rightarrow> csrf_token \<Rightarrow> 's \<Rightarrow> 's \<times> csrf_error option"
  ts_delete :: "string \<Rightarrow> 's \<Rightarrow> 's \<times> csrf_error option"
  ts_exists :: "time \<Rightarrow> string \<Rightarrow> 's \<Rightarrow> csrf_error + bool"

type_synonym memory_tokens = "string \<rightharpoonup> csrf_token"

definition mt_get :: "time \<Rightarrow> string \<Rightarrow> memory_tokens \<Rightarrow> memory_tokens \<times> (csrf_error + csrf_token)" where
  "mt_get now sid s =
     (case s sid of
        None \<Rightarrow> (s, Inl ErrCSRFTokenMissing)
      | Some t \<Rightarrow> if csrf_token_expired now t then (s(sid := None), Inl ErrCSRFTokenExpired) else (s, Inr t))"

definition mt_set :: "string \<Rightarrow> csrf_token \<Rightarrow> memory_tokens \<Rightarrow> memory_tokens \<times> csrf_error option" where
  "mt_set sid t s = (s(sid \<mapsto> t), None)"

definition mt_delete :: "string \<Rightarrow> memory_tokens \<Rightarrow> memory_tokens \<times> csrf_error option" where
  "mt_delete sid s = (s(sid := None), None)"

definition mt_exists :: "time \<Rightarrow> string \<Rightarrow> memory_tokens \<Rightarrow> csrf_error + bool" where
  "mt_exists now sid s = Inr (case s sid of None \<Rightarrow> False | Some t \<Rightarrow> \<not> csrf_token_expired now t)"

definition memory_csrf_ops :: "memory_tokens csrf_store" where
  "memory_csrf_ops = \<lparr>ts_get = mt_get, ts_set = mt_set, ts_delete = mt_delete, ts_exists = mt_exists\<rparr>"

text \<open>The clean-up deletes the expired tokens of an in-memory store on its way through the map.\<close>

fun cleanup_expired_tokens :: "time \<Rightarrow> string list \<Rightarrow> memory_tokens \<Rightarrow> memory_tokens" where
  "cleanup_expired_tokens now [] s = s"
| "cleanup_expired_tokens now (sid # ks) s = cleanup_expired_tokens now ks
     (case s sid of None \<Rightarrow> s | Some t \<Rightarrow> if ct_expires_at t < now then s(sid := None) else s)"

section \<open>The protection\<close>

record 's csrf_protection =
  cp_config :: csrf_config
  cp_store :: 's

definition new_csrf_protection :: "csrf_config option \<Rightarrow> 's \<Rightarrow> 's csrf_protection" where
  "new_csrf_protection config s =
     \<lparr>cp_config = (case config of None \<Rightarrow> default_csrf_config | Some c \<Rightarrow> c), cp_store = s\<rparr>"

definition new_csrf_protection_with_options :: "'s \<Rightarrow> csrf_option list \<Rightarrow> 's csrf_protection" where
  "new_csrf_protection_with_options s opts = new_csrf_protection (Some (fold apply_csrf_option opts default_csrf_config)) s"

definition generate_token :: "'s csrf_store \<Rightarrow> string option \<Rightarrow> time \<Rightarrow> string \<Rightarrow> 's csrf_protection
    \<Rightarrow> 's csrf_protection \<times> (csrf_error + string)" where
  "generate_token st random now sid p =
     (case random of
        None \<Rightarrow> (p, Inl ErrRandomSource)
      | Some token \<Rightarrow>
          (case ts_set st sid \<lparr>ct_value = token, ct_expires_at = now + cf_token_lifetime (cp_config p), ct_created_at = now\<rparr>
                  (cp_store p) of
             (s, Some e) \<Rightarrow> (p\<lparr>cp_store := s\<rparr>, Inl e)
           | (s, None) \<Rightarrow> (p\<lparr>cp_store := s\<rparr>, Inr token)))"

definition refresh_token :: "'s csrf_store \<Rightarrow> string option \<Rightarrow> time \<Rightarrow> string \<Rightarrow> 's csrf_protection
    \<Rightarrow> 's csrf_protection \<times> (csrf_error + string)" where
  "refresh_token = generate_token"

definition stored_token :: "'s csrf_store \<Rightarrow> time \<Rightarrow> string \<Rightarrow> 's csrf_protection
    \<Rightarrow> 's csrf_protection \<times> (csrf_error + csrf_token)" where
  "stored_token st now sid p = (case ts_get st now sid (cp_store p) of (s, r) \<Rightarrow> (p\<lparr>cp_store := s\<rparr>, r))"

definition get_csrf_token :: "'s csrf_store \<Rightarrow> time \<Rightarrow> string \<Rightarrow> 's csrf_protection
    \<Rightarrow> 's csrf_protection \<times> (csrf_error + string)" where
  "get_csrf_token st now sid p =
     (case stored_token st now sid p of (p, Inl e) \<Rightarrow> (p, Inl e) | (p, Inr t) \<Rightarrow> (p, Inr (ct_value t)))"

definition validate_token :: "'s csrf_store \<Rightarrow> time \<Rightarrow> string \<Rightarrow> string \<Rightarrow> 's csrf_protection
    \<Rightarrow> 's csrf_protection \<times> csrf_error option" where
  "validate_token st now sid token p =
     (if token = [] then (p, Some ErrCSRFTokenMissing)
      else case stored_token st now sid p of
        (p, Inl e) \<Rightarrow> (p, Some e)
      | (p, Inr t) \<Rightarrow> (p, if ct_value t = token then None else Some ErrCSRFTokenMismatch))"

record token_response =
  tr_token :: string
  tr_header_name :: string
  tr_field_name :: string

definition get_token_response :: "'s csrf_store \<Rightarrow> string option \<Rightarrow> time \<Rightarrow> string \<Rightarrow> 's csrf_protection
    \<Rightarrow> 's csrf_protection \<times> (csrf_error + token_response)" where
  "get_token_response st random now sid p =
     (let answer = (\<lambda>p token. (p, Inr \<lparr>tr_token = token, tr_header_name = cf_header_name (cp_config p),
                                 tr_field_name = cf_form_field_name (cp_config p)\<rparr>))
      in case get_csrf_token st now sid p of
        (p, Inr token) \<Rightarrow> answer p token
      | (p, Inl _) \<Rightarrow>
          (case generate_token st random now sid p of
             (p, Inl e) \<Rightarrow> (p, Inl e)
           | (p, Inr token) \<Rightarrow> answer p token))"

definition add_trusted_origin :: "string \<Rightarrow> 's csrf_protection \<Rightarrow> 's csrf_protection" where
  "add_trusted_origin origin p =
     p\<lparr>cp_config := (cp_config p)\<lparr>cf_trusted_origins := cf_trusted_origins (cp_config p) @ [origin]\<rparr>\<rparr>"

definition remove_trusted_origin :: "string \<Rightarrow> 's csrf_protection \<Rightarrow> 's csrf_protection" where
  "remove_trusted_origin origin p =
     p\<lparr>cp_config := (cp_config p)\<lparr>cf_trusted_origins := remove1 origin (cf_trusted_origins (cp_config p))\<rparr>\<rparr>"

section \<open>Requests\<close>

text \<open>
  What is read of a request: its method, host, headers and cookies, and the fields of its form, \<open>None\<close> when it
  does not parse.
\<close>

record csrf_request =
  cr_method :: string
  cr_host :: string
  cr_header :: "string \<Rightarrow> string"
  cr_cookie :: "string \<Rightarrow> string option"
  cr_form :: "(string \<Rightarrow> string) option"
  cr_multipart_form :: "(string \<Rightarrow> string) option"

definition form_value :: "(string \<Rightarrow> string) option \<Rightarrow> string \<Rightarrow> string" where
  "form_value form field = (case form of None \<Rightarrow> [] | Some f \<Rightarrow> f field)"

definition extract_token :: "csrf_config \<Rightarrow> csrf_request \<Rightarrow> string" where
  "extract_token c r =
     (let token = cr_header r (cf_header_name c);
          posted = form_value (cr_form r) (cf_form_field_name c)
      in if token \<noteq> [] then token
         else if posted \<noteq> [] then posted
         else form_value (cr_multipart_form r) (cf_form_field_name c))"

definition get_cookie_token :: "csrf_config \<Rightarrow> csrf_request \<Rightarrow> csrf_error + string" where
  "get_cookie_token c r = (case cr_cookie r (cf_cookie_name c) of None \<Rightarrow> Inl ErrCSRFTokenMissing | Some v \<Rightarrow> Inr v)"

text \<open>\<^verbatim>\<open>EqualFold\<close> for ASCII text.\<close>

definition is_safe_method :: "csrf_config \<Rightarrow> string \<Rightarrow> bool" where
  "is_safe_method c meth \<longleftrightarrow> list_ex (\<lambda>safe. to_lower meth = to_lower safe) (cf_safe_methods c)"

definition validate_origin :: "csrf_config \<Rightarrow> csrf_request \<Rightarrow> csrf_error option" where
  "validate_origin c r =
     (let origin = cr_header r ''Origin''
      in if origin = [] then None
         else if list_ex (\<lambda>trusted. origin = trusted) (cf_trusted_origins c) then None
         else if (has_prefix ''http://'' origin \<or> has_prefix ''https://'' origin)
              \<and> trim_prefix ''https://'' (trim_prefix ''http://'' origin) = cr_host r then None
         else Some ErrCSRFOriginMismatch)"

text \<open>\<^verbatim>\<open>SplitN\<close> in two at a separator of several characters; \<open>None\<close> when it does not occur.\<close>

fun split_once :: "string \<Rightarrow> string \<Rightarrow> (string \<times> string) option" where
  "split_once sep [] = (if sep = [] then Some ([], []) else None)"
| "split_once sep (x # s) =
     (if has_prefix sep (x # s) then Some ([], drop (length sep) (x # s))
      else map_option (\<lambda>(a, b). (x # a, b)) (split_once sep s))"

definition validate_referer :: "csrf_config \<Rightarrow> csrf_request \<Rightarrow> csrf_error option" where
  "validate_referer c r =
     (let referer = cr_header r ''Referer''
      in if referer = [] then None
         else if list_ex (\<lambda>trusted. has_prefix trusted referer) (cf_trusted_origins c) then None
         else case split_once ''://'' referer of
           Some (_, rest) \<Rightarrow> if hd (split_n 2 (CHR ''/'') rest) = cr_host r then None else Some ErrCSRFRefererMismatch
         | None \<Rightarrow> Some ErrCSRFRefererMismatch)"

definition validate_request :: "'s csrf_store \<Rightarrow> time \<Rightarrow> csrf_request \<Rightarrow> string \<Rightarrow> 's csrf_protection
    \<Rightarrow> 's csrf_protection \<times> csrf_error option" where
  "validate_request st now r sid p =
     (let c = cp_config p; token = extract_token c r
      in if is_safe_method c (cr_method r) then (p, None)
         else if token = [] then (p, Some ErrCSRFTokenMissing)
         else case (if cf_double_cookie c then get_cookie_token c r else Inr token) of
           Inl e \<Rightarrow> (p, Some e)
         | Inr cookie_token \<Rightarrow>
             if cookie_token \<noteq> token then (p, Some ErrCSRFDoubleCookieMismatch)
             else (case validate_token st now sid token p of
               (p, Some e) \<Rightarrow> (p, Some e)
             | (p, None) \<Rightarrow>
                 (p, case (if cf_check_origin c then validate_origin c r else None) of
                       Some e \<Rightarrow> Some e
                     | None \<Rightarrow> if cf_check_referer c then validate_referer c r else None)))"

definition csrf_cookie :: "csrf_config \<Rightarrow> string \<Rightarrow> int \<Rightarrow> cookie" where
  "csrf_cookie c value max_age =
     \<lparr>ck_name = cf_cookie_name c, ck_value = value, ck_domain = cf_cookie_domain c, ck_path = cf_cookie_path c,
      ck_secure = cf_cookie_secure c, ck_http_only = cf_cookie_http_only c, ck_same_site = cf_cookie_same_site c,
      ck_expires = None, ck_max_age = max_age\<rparr>"

definition set_csrf_cookie :: "csrf_config \<Rightarrow> string \<Rightarrow> cookie" where
  "set_csrf_cookie c token = csrf_cookie c token (cf_cookie_max_age c)"

definition clear_csrf_cookie :: "csrf_config \<Rightarrow> cookie" where
  "clear_csrf_cookie c = csrf_cookie c [] (- 1)"

text \<open>
  The middleware answers with an HTTP error or forwards the request to the handler, possibly after setting the
  cookie and a header of the response.
\<close>

datatype csrf_response = HttpError int string | Forwarded "(cookie \<times> string \<times> string) option"

definition csrf_error_response :: "csrf_error \<Rightarrow> csrf_response" where
  "csrf_error_response e =
     (case e of
        ErrCSRFTokenMissing \<Rightarrow> HttpError 403 ''CSRF token is missing''
      | ErrCSRFTokenMismatch \<Rightarrow> HttpError 403 ''CSRF token is invalid''
      | ErrCSRFDoubleCookieMismatch \<Rightarrow> HttpError 403 ''CSRF token is invalid''
      | ErrCSRFTokenExpired \<Rightarrow> HttpError 403 ''CSRF token has expired''
      | ErrCSRFOriginMismatch \<Rightarrow> HttpError 403 ''Request origin validation failed''
      | ErrCSRFRefererMismatch \<Rightarrow> HttpError 403 ''Request origin validation failed''
      | _ \<Rightarrow> HttpError 403 ''CSRF validation failed'')"

definition csrf_middleware :: "'s csrf_store \<Rightarrow> string option \<Rightarrow> time \<Rightarrow> string \<Rightarrow> csrf_request \<Rightarrow> 's csrf_protection
    \<Rightarrow> 's csrf_protection \<times> csrf_response" where
  "csrf_middleware st random now sid r p =
     (if sid = [] then (p, HttpError 401 ''Session required for CSRF protection'')
      else if is_safe_method (cp_config p) (cr_method r)
      then (if ts_exists st now sid (cp_store p) = Inr True then (p, Forwarded None)
            else case generate_token st random now sid p of
              (p, Inl _) \<Rightarrow> (p, HttpError 500 ''Failed to generate CSRF token'')
            | (p, Inr token) \<Rightarrow>
                (p, Forwarded (Some (set_csrf_cookie (cp_config p) token, cf_header_name (cp_config p), token))))
      else case validate_request st now r sid p of
        (p, Some e) \<Rightarrow> (p, csrf_error_response e)
      | (p, None) \<Rightarrow> (p, Forwarded None))"

section \<open>What the protection relies on\<close>

text \<open>
  \<open>tokens\<close> is the content of a store as a map. \<^verbatim>\<open>Get\<close> returns only what is stored and has not expired, and like
  \<^verbatim>\<open>Delete\<close> adds nothing; any call may fail.
\<close>

locale csrf_backend =
  fixes st :: "'s csrf_store" and tokens :: "'s \<Rightarrow> string \<rightharpoonup> csrf_token"
  assumes get: "ts_get st now sid s = (s', r) \<Longrightarrow> tokens s' \<subseteq>\<^sub>m tokens s
        \<and> (\<forall>t. r = Inr t \<longrightarrow> tokens s sid = Some t \<and> \<not> csrf_token_expired now t)"
    and set: "ts_set st sid t s = (s', err) \<Longrightarrow> tokens s' = (if err = None then (tokens s)(sid \<mapsto> t) else tokens s)"
    and delete: "ts_delete st sid s = (s', err) \<Longrightarrow> tokens s' \<subseteq>\<^sub>m tokens s"

text \<open>
  A run of the protection with the tokens it has issued, the latest first: for which session, which token and
  when. The composed operations (\<^verbatim>\<open>RefreshToken\<close>, \<^verbatim>\<open>GetTokenResponse\<close>, \<^verbatim>\<open>ValidateRequest\<close> and the middleware) are
  runs of these steps.
\<close>

inductive csrf_run :: "'s csrf_store \<Rightarrow> 's csrf_protection \<Rightarrow> (string \<times> string \<times> time) list \<Rightarrow> 's csrf_protection \<Rightarrow> bool"
  for st p0 where
  start: "csrf_run st p0 [] p0"
| generate: "csrf_run st p0 evs p \<Longrightarrow> generate_token st random now sid p = (p', Inr token)
    \<Longrightarrow> csrf_run st p0 ((sid, token, now) # evs) p'"
| generate_fails: "csrf_run st p0 evs p \<Longrightarrow> generate_token st random now sid p = (p', Inl e) \<Longrightarrow> csrf_run st p0 evs p'"
| get: "csrf_run st p0 evs p \<Longrightarrow> stored_token st now sid p = (p', r) \<Longrightarrow> csrf_run st p0 evs p'"
| delete: "csrf_run st p0 evs p \<Longrightarrow> ts_delete st sid (cp_store p) = (s, err) \<Longrightarrow> csrf_run st p0 evs (p\<lparr>cp_store := s\<rparr>)"
| add_origin: "csrf_run st p0 evs p \<Longrightarrow> csrf_run st p0 evs (add_trusted_origin origin p)"
| remove_origin: "csrf_run st p0 evs p \<Longrightarrow> csrf_run st p0 evs (remove_trusted_origin origin p)"

lemma csrf_run_validate_token:
  "csrf_run st p0 evs p \<Longrightarrow> validate_token st now sid token p = (p', err) \<Longrightarrow> csrf_run st p0 evs p'"
  by (auto simp: validate_token_def split: if_splits prod.splits sum.splits intro: csrf_run.get)

lemma csrf_run_validate_request:
  "csrf_run st p0 evs p \<Longrightarrow> validate_request st now r sid p = (p', err) \<Longrightarrow> csrf_run st p0 evs p'"
  by (auto simp: validate_request_def Let_def split: if_splits prod.splits sum.splits option.splits
      intro: csrf_run_validate_token)

lemma csrf_run_generate:
  "csrf_run st p0 evs p \<Longrightarrow> generate_token st random now sid p = (p', r) \<Longrightarrow> \<exists>evs'. csrf_run st p0 evs' p'"
  by (cases r) (blast intro: csrf_run.generate csrf_run.generate_fails)+

lemma csrf_run_middleware:
  assumes "csrf_run st p0 evs p" "csrf_middleware st random now sid r p = (p', resp)"
  shows "\<exists>evs'. csrf_run st p0 evs' p'"
proof -
  obtain q x where g: "generate_token st random now sid p = (q, x)" by fastforce
  obtain q' e where v: "validate_request st now r sid p = (q', e)" by fastforce
  have "p' = p \<or> p' = q \<or> p' = q'"
    using assms(2) g v by (auto simp: csrf_middleware_def split: if_splits sum.splits option.splits)
  with assms(1) csrf_run_generate [OF assms(1) g] csrf_run_validate_request [OF assms(1) v] show ?thesis by blast
qed

lemma csrf_run_token_response:
  assumes "csrf_run st p0 evs p" "get_token_response st random now sid p = (p', r)"
  shows "\<exists>evs'. csrf_run st p0 evs' p'"
proof -
  obtain q x where s: "stored_token st now sid p = (q, x)" by fastforce
  from assms(1) s have q: "csrf_run st p0 evs q" by (rule csrf_run.get)
  obtain q' y where g: "generate_token st random now sid q = (q', y)" by fastforce
  have "p' = q \<or> p' = q'"
    using assms(2) s g by (auto simp: get_token_response_def get_csrf_token_def Let_def split: sum.splits)
  with q csrf_run_generate [OF q g] show ?thesis by blast
qed

context csrf_backend
begin

text \<open>What a store holds for a session is the token issued for it last, with the lifetime of the configuration.\<close>

definition only_issued :: "(string \<times> string \<times> time) list \<Rightarrow> duration \<Rightarrow> 's csrf_protection \<Rightarrow> bool" where
  "only_issued evs lifetime p \<longleftrightarrow> cf_token_lifetime (cp_config p) = lifetime
     \<and> (\<forall>sid t. tokens (cp_store p) sid = Some t \<longrightarrow>
          map_of evs sid = Some (ct_value t, ct_created_at t) \<and> ct_expires_at t = ct_created_at t + lifetime)"

lemma only_issued_fewer:
  "only_issued evs lifetime p \<Longrightarrow> tokens s \<subseteq>\<^sub>m tokens (cp_store p) \<Longrightarrow> only_issued evs lifetime (p\<lparr>cp_store := s\<rparr>)"
  by (auto simp: only_issued_def map_le_def dom_def)

lemma run_only_issued:
  "csrf_run st p0 evs p \<Longrightarrow> tokens (cp_store p0) = Map.empty \<Longrightarrow> only_issued evs (cf_token_lifetime (cp_config p0)) p"
proof (induction rule: csrf_run.induct)
  case (generate evs p random now sid p' token)
  define t where "t = \<lparr>ct_value = token, ct_expires_at = now + cf_token_lifetime (cp_config p), ct_created_at = now\<rparr>"
  from generate.hyps(2) obtain s where s: "ts_set st sid t (cp_store p) = (s, None)" and p': "p' = p\<lparr>cp_store := s\<rparr>"
    by (auto simp: generate_token_def t_def split: option.splits prod.splits)
  from set [OF s] generate show ?case by (auto simp: only_issued_def p' t_def)
next
  case (generate_fails evs p random now sid p' e)
  then have "p' = p \<or> (\<exists>s. p' = p\<lparr>cp_store := s\<rparr> \<and> tokens s = tokens (cp_store p))"
    by (auto simp: generate_token_def split: option.splits prod.splits dest: set)
  with generate_fails show ?case by (auto simp: only_issued_def)
next
  case (get evs p now sid p' r)
  then have "\<exists>s. p' = p\<lparr>cp_store := s\<rparr> \<and> tokens s \<subseteq>\<^sub>m tokens (cp_store p)"
    using csrf_backend.get [OF csrf_backend_axioms, of now sid "cp_store p"]
    by (auto simp: stored_token_def split: prod.splits)
  with get only_issued_fewer show ?case by blast
next
  case (delete evs p sid s err)
  with csrf_backend.delete [OF csrf_backend_axioms] only_issued_fewer show ?case by blast
qed (auto simp: only_issued_def add_trusted_origin_def remove_trusted_origin_def)

lemma validated_token:
  assumes "validate_token st now sid token p = (p', None)"
  shows "\<exists>t. tokens (cp_store p) sid = Some t \<and> \<not> csrf_token_expired now t \<and> ct_value t = token"
proof -
  obtain s r where g: "ts_get st now sid (cp_store p) = (s, r)" by fastforce
  with assms obtain t where "r = Inr t" "ct_value t = token"
    by (auto simp: validate_token_def stored_token_def split: if_splits sum.splits)
  with get [OF g] show ?thesis by auto
qed

end

interpretation mt: csrf_backend memory_csrf_ops "\<lambda>s. s"
  by unfold_locales
    (auto simp: memory_csrf_ops_def mt_get_def mt_set_def mt_delete_def map_le_def split: option.splits if_splits)

section \<open>Origins\<close>

lemma has_prefix_trim: "has_prefix p s \<Longrightarrow> s = p @ trim_prefix p s"
  by (auto simp: trim_prefix_def has_prefix_def) (metis append_take_drop_id)

lemma trim_prefix_id: "\<not> has_prefix p s \<Longrightarrow> trim_prefix p s = s"
  by (simp add: trim_prefix_def)

lemma trim_prefixes:
  assumes "has_prefix p s \<or> has_prefix q s" "trim_prefix q (trim_prefix p s) = t"
  shows "s \<in> {p @ t, q @ t, p @ q @ t}"
proof (cases "has_prefix p s")
  case True
  then have s: "s = p @ trim_prefix p s" by (rule has_prefix_trim)
  show ?thesis
  proof (cases "has_prefix q (trim_prefix p s)")
    case True
    from has_prefix_trim [OF this] s assms(2) show ?thesis by simp
  next
    case False
    with assms(2) have "trim_prefix p s = t" by (simp add: trim_prefix_id)
    with s show ?thesis by simp
  qed
next
  case False
  with assms have "has_prefix q s" "trim_prefix q s = t" by (simp_all add: trim_prefix_id)
  with has_prefix_trim [of q s] show ?thesis by simp
qed

lemma validated_origin:
  assumes "validate_origin c r = None"
  shows "cr_header r ''Origin'' = [] \<or> cr_header r ''Origin'' \<in> set (cf_trusted_origins c)
    \<or> cr_header r ''Origin'' \<in> {''http://'' @ cr_host r, ''https://'' @ cr_host r, ''http://'' @ ''https://'' @ cr_host r}"
proof -
  let ?o = "cr_header r ''Origin''"
  have "?o = [] \<or> ?o \<in> set (cf_trusted_origins c) \<or> (has_prefix ''http://'' ?o \<or> has_prefix ''https://'' ?o)
      \<and> trim_prefix ''https://'' (trim_prefix ''http://'' ?o) = cr_host r"
    using assms unfolding validate_origin_def Let_def list_ex_iff by (auto split: if_splits)
  with trim_prefixes show ?thesis by blast
qed

lemma split_once_Some:
  "split_once sep s = Some (a, b) \<Longrightarrow> s = a @ sep @ b"
proof (induction s arbitrary: a b)
  case (Cons x s)
  show ?case
  proof (cases "has_prefix sep (x # s)")
    case True
    with Cons.prems have "a = []" "b = drop (length sep) (x # s)" by auto
    with True show ?thesis by (metis append_Nil append_take_drop_id has_prefix_def)
  next
    case False
    with Cons.prems obtain a' where "split_once sep s = Some (a', b)" "a = x # a'" by auto
    with Cons.IH show ?thesis by simp
  qed
qed (auto split: if_splits)

lemma first_piece: "\<exists>path. s = hd (split_n 2 c s) @ path \<and> (path = [] \<or> hd path = c)"
proof (cases "c \<in> set s")
  case True
  have "dropWhile (\<lambda>x. x \<noteq> c) s \<noteq> []" using True by (auto simp: dropWhile_eq_Nil_conv)
  then have "hd (dropWhile (\<lambda>x. x \<noteq> c) s) = c" using hd_dropWhile by blast
  with True show ?thesis
    by (intro exI [of _ "dropWhile (\<lambda>x. x \<noteq> c) s"]) (simp add: numeral_2_eq_2)
qed (simp add: numeral_2_eq_2)

lemma validated_referer:
  assumes "validate_referer c r = None"
  shows "cr_header r ''Referer'' = [] \<or> (\<exists>trusted\<in>set (cf_trusted_origins c). has_prefix trusted (cr_header r ''Referer''))
    \<or> (\<exists>scheme path. cr_header r ''Referer'' = scheme @ ''://'' @ cr_host r @ path \<and> (path = [] \<or> hd path = CHR ''/''))"
proof -
  let ?r = "cr_header r ''Referer''"
  have "?r = [] \<or> (\<exists>trusted\<in>set (cf_trusted_origins c). has_prefix trusted ?r)
      \<or> (\<exists>a b. split_once ''://'' ?r = Some (a, b) \<and> hd (split_n 2 (CHR ''/'') b) = cr_host r)"
    using assms unfolding validate_referer_def Let_def list_ex_iff by (auto split: if_splits option.splits)
  moreover have "?thesis" if s: "split_once ''://'' ?r = Some (a, b)" and h: "hd (split_n 2 (CHR ''/'') b) = cr_host r" for a b
  proof -
    obtain path where "b = cr_host r @ path" "path = [] \<or> hd path = CHR ''/''"
      using first_piece [of b "CHR ''/''"] h by auto
    with split_once_Some [OF s] show ?thesis by blast
  qed
  ultimately show ?thesis by blast
qed

section \<open>Properties\<close>

text \<open>C2: what the middleware lets through. Over any store that keeps to its contract, failing calls included, and
  after any run from an empty store, a request whose method is not safe reaches the handler only if it carries
  the token issued for its session last, within its lifetime, also as its cookie where that is asked for, if its
  origin is absent, trusted or the host itself (the form \<^verbatim>\<open>http://https://host\<close> included), and if its referer is
  absent, a page of the host, or any text that begins with a trusted origin.\<close>

theorem csrf_only_issued_tokens:
  assumes "csrf_backend st tokens" "csrf_run st p0 evs p" "tokens (cp_store p0) = Map.empty"
    and "\<not> is_safe_method (cp_config p) (cr_method r)"
    and "csrf_middleware st random now sid r p = (p', Forwarded x)"
  shows "sid \<noteq> [] \<and> (\<exists>token issued. map_of evs sid = Some (token, issued) \<and> token \<noteq> []
      \<and> now \<le> issued + cf_token_lifetime (cp_config p0) \<and> extract_token (cp_config p) r = token
      \<and> (cf_double_cookie (cp_config p) \<longrightarrow> cr_cookie r (cf_cookie_name (cp_config p)) = Some token))
    \<and> (cf_check_origin (cp_config p) \<longrightarrow> cr_header r ''Origin'' = []
        \<or> cr_header r ''Origin'' \<in> set (cf_trusted_origins (cp_config p))
        \<or> cr_header r ''Origin'' \<in> {''http://'' @ cr_host r, ''https://'' @ cr_host r, ''http://'' @ ''https://'' @ cr_host r})
    \<and> (cf_check_referer (cp_config p) \<longrightarrow> cr_header r ''Referer'' = []
        \<or> (\<exists>trusted\<in>set (cf_trusted_origins (cp_config p)). has_prefix trusted (cr_header r ''Referer''))
        \<or> (\<exists>scheme path. cr_header r ''Referer'' = scheme @ ''://'' @ cr_host r @ path \<and> (path = [] \<or> hd path = CHR ''/'')))"
proof -
  let ?c = "cp_config p" and ?token = "extract_token (cp_config p) r"
  have "sid \<noteq> []" and v: "\<exists>q. validate_request st now r sid p = (q, None)"
    using assms(4,5) by (auto simp: csrf_middleware_def csrf_error_response_def split: if_splits prod.splits option.splits csrf_error.splits)
  obtain q e where t: "validate_token st now sid ?token p = (q, e)" by fastforce
  from v t assms(4) have e: "e = None" "?token \<noteq> []" "cf_double_cookie ?c \<longrightarrow> cr_cookie r (cf_cookie_name ?c) = Some ?token"
      "cf_check_origin ?c \<longrightarrow> validate_origin ?c r = None" "cf_check_referer ?c \<longrightarrow> validate_referer ?c r = None"
    by (auto simp: validate_request_def Let_def get_cookie_token_def split: if_splits option.splits)
  from csrf_backend.validated_token [OF assms(1)] t e(1) obtain t' where
    t': "tokens (cp_store p) sid = Some t'" "\<not> csrf_token_expired now t'" "ct_value t' = ?token" by blast
  with csrf_backend.run_only_issued [OF assms(1-3)]
  have "map_of evs sid = Some (?token, ct_created_at t')" "now \<le> ct_created_at t' + cf_token_lifetime (cp_config p0)"
    by (auto simp: csrf_backend.only_issued_def [OF assms(1)] csrf_token_expired_def)
  with \<open>sid \<noteq> []\<close> e validated_origin validated_referer show ?thesis by blast
qed

text \<open>The origins and referers that pass. A host has no slash.\<close>

lemma accepted_origin:
  assumes "cr_header r ''Origin'' \<in> {[], ''http://'' @ cr_host r, ''https://'' @ cr_host r} \<union> set (cf_trusted_origins c)"
    and "CHR ''/'' \<notin> set (cr_host r)"
  shows "validate_origin c r = None"
proof -
  have no: "\<not> has_prefix ''https://'' (cr_host r)"
  proof
    assume "has_prefix ''https://'' (cr_host r)"
    from arg_cong [OF has_prefix_trim [OF this], of set] have "CHR ''/'' \<in> set (cr_host r)" by simp
    with assms(2) show False by simp
  qed
  then have "trim_prefix ''https://'' (trim_prefix ''http://'' (''http://'' @ cr_host r)) = cr_host r"
    "trim_prefix ''https://'' (trim_prefix ''http://'' (''https://'' @ cr_host r)) = cr_host r"
    "has_prefix ''http://'' (''http://'' @ cr_host r)" "has_prefix ''https://'' (''https://'' @ cr_host r)"
    by (simp_all only: trim_prefix_append trim_prefix_id [OF no] has_prefix_append)
      (simp add: trim_prefix_def has_prefix_def)
  with assms(1) show ?thesis by (auto simp: validate_origin_def Let_def list_ex_iff)
qed

lemma split_once_scheme: "CHR '':'' \<notin> set scheme \<Longrightarrow> split_once ''://'' (scheme @ ''://'' @ rest) = Some (scheme, rest)"
  by (induction scheme) (auto simp: has_prefix_def)

lemma first_piece_host:
  assumes "c \<notin> set host" "path = [] \<or> hd path = c"
  shows "hd (split_n 2 c (host @ path)) = host"
proof (cases path)
  case Nil
  then show ?thesis using assms(1) by (simp add: numeral_2_eq_2)
next
  case (Cons x list)
  have "takeWhile (\<lambda>x. x \<noteq> c) (host @ c # list) = host"
    using assms(1) by (subst takeWhile_append2) auto
  then show ?thesis using assms(2) Cons by (simp add: numeral_2_eq_2)
qed

lemma accepted_referer:
  assumes "cr_header r ''Referer'' = []
      \<or> (\<exists>trusted\<in>set (cf_trusted_origins c). has_prefix trusted (cr_header r ''Referer''))
      \<or> (\<exists>scheme path. cr_header r ''Referer'' = scheme @ ''://'' @ cr_host r @ path \<and> CHR '':'' \<notin> set scheme
          \<and> (path = [] \<or> hd path = CHR ''/''))"
    and "CHR ''/'' \<notin> set (cr_host r)"
  shows "validate_referer c r = None"
proof -
  have "validate_referer c r = None" if r: "cr_header r ''Referer'' = scheme @ ''://'' @ cr_host r @ path" "CHR '':'' \<notin> set scheme"
      and path: "path = [] \<or> hd path = CHR ''/''" for scheme path
  proof -
    have "split_once ''://'' (cr_header r ''Referer'') = Some (scheme, cr_host r @ path)"
      unfolding r(1) by (rule split_once_scheme [OF r(2)])
    then show ?thesis
      using first_piece_host [OF assms(2) path] by (simp add: validate_referer_def Let_def)
  qed
  moreover have "validate_referer c r = None" if "cr_header r ''Referer'' = []
      \<or> (\<exists>trusted\<in>set (cf_trusted_origins c). has_prefix trusted (cr_header r ''Referer''))"
    using that by (auto simp: validate_referer_def Let_def list_ex_iff)
  ultimately show ?thesis using assms(1) by blast
qed

text \<open>C26: a token that is issued is accepted. With the in-memory store, a safe request of a session without a live
  token is forwarded with a new token in a cookie and a header; a later request of that session with any method
  that sends the token back both ways, within its lifetime and with nothing done in between, reaches the handler if its
  origin and its referer, where they are checked, are each absent, trusted, or the host's own with any path.\<close>

theorem csrf_issued_token_accepted:
  assumes "is_safe_method (cp_config p) (cr_method r)" "sid \<noteq> []" "token \<noteq> []"
    and "mt_exists now sid (cp_store p) = Inr False"
    and "csrf_middleware memory_csrf_ops (Some token) now sid r p = (p', resp)"
    and "cr_header r' (cf_header_name (cp_config p)) = token" "cr_cookie r' (cf_cookie_name (cp_config p)) = Some token"
    and "cf_check_origin (cp_config p) \<Longrightarrow> cr_header r' ''Origin''
          \<in> {[], ''http://'' @ cr_host r', ''https://'' @ cr_host r'} \<union> set (cf_trusted_origins (cp_config p))"
    and "cf_check_referer (cp_config p) \<Longrightarrow> cr_header r' ''Referer'' = []
          \<or> (\<exists>trusted\<in>set (cf_trusted_origins (cp_config p)). has_prefix trusted (cr_header r' ''Referer''))
          \<or> (\<exists>scheme path. cr_header r' ''Referer'' = scheme @ ''://'' @ cr_host r' @ path \<and> CHR '':'' \<notin> set scheme
              \<and> (path = [] \<or> hd path = CHR ''/''))"
    and "CHR ''/'' \<notin> set (cr_host r')"
    and "later \<le> now + cf_token_lifetime (cp_config p)"
  shows "resp = Forwarded (Some (set_csrf_cookie (cp_config p) token, cf_header_name (cp_config p), token))
    \<and> (\<exists>p''. csrf_middleware memory_csrf_ops random later sid r' p' = (p'', Forwarded None))"
proof -
  define t where "t = \<lparr>ct_value = token, ct_expires_at = now + cf_token_lifetime (cp_config p), ct_created_at = now\<rparr>"
  have p': "p' = p\<lparr>cp_store := (cp_store p)(sid \<mapsto> t)\<rparr>"
    and resp: "resp = Forwarded (Some (set_csrf_cookie (cp_config p) token, cf_header_name (cp_config p), token))"
    using assms(1-5) by (auto simp: csrf_middleware_def generate_token_def memory_csrf_ops_def mt_set_def t_def)
  have alive: "\<not> csrf_token_expired later t" using assms(11) by (simp add: csrf_token_expired_def t_def)
  have "mt_exists later sid ((cp_store p)(sid \<mapsto> t)) = Inr True" using alive by (simp add: mt_exists_def)
  moreover have "stored_token memory_csrf_ops later sid p' = (p', Inr t)"
    using alive by (simp add: stored_token_def p' memory_csrf_ops_def mt_get_def)
  moreover have "extract_token (cp_config p) r' = token" using assms(3,6) by (simp add: extract_token_def)
  moreover have "(if cf_check_origin (cp_config p) then validate_origin (cp_config p) r' else None) = None"
    "(if cf_check_referer (cp_config p) then validate_referer (cp_config p) r' else None) = None"
    using accepted_origin [OF assms(8,10)] accepted_referer [OF assms(9,10)] by simp_all
  ultimately have "csrf_middleware memory_csrf_ops random later sid r' p' = (p', Forwarded None)"
    using assms(2,3,7)
    by (auto simp: csrf_middleware_def validate_request_def validate_token_def get_cookie_token_def
        Let_def p' t_def) (simp_all add: memory_csrf_ops_def)
  with resp show ?thesis by blast
qed

definition page_request :: "string \<Rightarrow> csrf_request" where
  "page_request meth = \<lparr>cr_method = meth, cr_host = ''h'',
     cr_header = (\<lambda>name. if name = ''X-CSRF-Token'' then ''tok'' else []), cr_cookie = (\<lambda>name. Some ''tok''),
     cr_form = None, cr_multipart_form = None\<rparr>"

definition form_request :: csrf_request where
  "form_request = (page_request ''POST'')\<lparr>cr_header := (\<lambda>name. if name = ''X-CSRF-Token'' then ''tok''
     else if name = ''Origin'' then ''https://h'' else if name = ''Referer'' then ''https://h/form'' else [])\<rparr>"

lemma page_methods:
  "is_safe_method default_csrf_config ''GET''" "\<not> is_safe_method default_csrf_config ''POST''"
  by (simp_all add: is_safe_method_def default_csrf_config_def to_lower_def)

lemma page_exchange:
  obtains p1 p2 where
    "csrf_middleware memory_csrf_ops (Some ''tok'') 5 ''s'' (page_request ''GET'') (new_csrf_protection None Map.empty)
       = (p1, Forwarded (Some (set_csrf_cookie default_csrf_config ''tok'', ''X-CSRF-Token'', ''tok'')))"
    "generate_token memory_csrf_ops (Some ''tok'') 5 ''s'' (new_csrf_protection None Map.empty) = (p1, Inr ''tok'')"
    "csrf_middleware memory_csrf_ops None 6 ''s'' (page_request ''POST'') p1 = (p2, Forwarded None)"
    "cp_config p1 = default_csrf_config"
proof -
  define t where "t = \<lparr>ct_value = ''tok'', ct_expires_at = 5 + 24 * hour, ct_created_at = 5\<rparr>"
  define p1 where "p1 = \<lparr>cp_config = default_csrf_config, cp_store = [''s'' \<mapsto> t]\<rparr>"
  have g: "generate_token memory_csrf_ops (Some ''tok'') 5 ''s'' (new_csrf_protection None Map.empty) = (p1, Inr ''tok'')"
    by (simp add: generate_token_def memory_csrf_ops_def mt_set_def new_csrf_protection_def p1_def t_def
        default_csrf_config_def)
  moreover have "csrf_middleware memory_csrf_ops (Some ''tok'') 5 ''s'' (page_request ''GET'') (new_csrf_protection None Map.empty)
       = (p1, Forwarded (Some (set_csrf_cookie default_csrf_config ''tok'', ''X-CSRF-Token'', ''tok'')))"
    using page_methods(1) g
    by (simp add: csrf_middleware_def page_request_def memory_csrf_ops_def mt_exists_def new_csrf_protection_def p1_def)
      (simp add: default_csrf_config_def)
  moreover have "csrf_middleware memory_csrf_ops None 6 ''s'' (page_request ''POST'') p1 = (p1, Forwarded None)"
    using page_methods(2)
    by (simp add: csrf_middleware_def validate_request_def validate_token_def get_cookie_token_def Let_def p1_def
        page_request_def extract_token_def validate_origin_def validate_referer_def stored_token_def
        memory_csrf_ops_def mt_get_def csrf_token_expired_def t_def) (simp add: default_csrf_config_def)
  ultimately show ?thesis using that by (simp add: p1_def)
qed

theorem csrf_only_issued_tokens_witness:
  "\<exists>p evs. csrf_run memory_csrf_ops (new_csrf_protection None Map.empty) evs p
     \<and> map_of evs ''s'' = Some (''tok'', 5) \<and> extract_token (cp_config p) (page_request ''POST'') = ''tok''"
proof -
  obtain p1 p2 where g: "generate_token memory_csrf_ops (Some ''tok'') 5 ''s'' (new_csrf_protection None Map.empty) = (p1, Inr ''tok'')"
      and m: "csrf_middleware memory_csrf_ops None 6 ''s'' (page_request ''POST'') p1 = (p2, Forwarded None)"
      and c: "cp_config p1 = default_csrf_config"
    by (rule page_exchange)
  have run: "csrf_run memory_csrf_ops (new_csrf_protection None Map.empty) [(''s'', ''tok'', 5)] p1"
    using csrf_run.generate [OF csrf_run.start g] by simp
  have "\<not> is_safe_method (cp_config p1) (cr_method (page_request ''POST''))"
    using page_methods(2) by (simp add: c page_request_def)
  from csrf_only_issued_tokens [OF mt.csrf_backend_axioms run _ this m] run show ?thesis
    by (intro exI [of _ p1] exI [of _ "[(''s'', ''tok'', 5)]"]) (simp add: new_csrf_protection_def)
qed

theorem csrf_issued_token_accepted_witness:
  "\<exists>p1 p2. csrf_middleware memory_csrf_ops (Some ''tok'') 5 ''s'' (page_request ''GET'') (new_csrf_protection None Map.empty)
       = (p1, Forwarded (Some (set_csrf_cookie default_csrf_config ''tok'', ''X-CSRF-Token'', ''tok'')))
     \<and> csrf_middleware memory_csrf_ops None 6 ''s'' form_request p1 = (p2, Forwarded None)"
proof -
  obtain p1 where m: "csrf_middleware memory_csrf_ops (Some ''tok'') 5 ''s'' (page_request ''GET'') (new_csrf_protection None Map.empty)
       = (p1, Forwarded (Some (set_csrf_cookie default_csrf_config ''tok'', ''X-CSRF-Token'', ''tok'')))"
    by (rule page_exchange)
  have c: "cp_config (new_csrf_protection None Map.empty :: memory_tokens csrf_protection) = default_csrf_config"
    by (simp add: new_csrf_protection_def)
  have referer: "\<exists>scheme path. cr_header form_request ''Referer'' = scheme @ ''://'' @ cr_host form_request @ path
      \<and> CHR '':'' \<notin> set scheme \<and> (path = [] \<or> hd path = CHR ''/'')"
    by (intro exI [of _ "''https''"] exI [of _ "''/form''"]) (simp add: form_request_def page_request_def)
  have "\<exists>p2. csrf_middleware memory_csrf_ops None 6 ''s'' form_request p1 = (p2, Forwarded None)"
  proof (rule csrf_issued_token_accepted [THEN conjunct2, OF _ _ _ _ m])
    show "is_safe_method (cp_config (new_csrf_protection None Map.empty :: memory_tokens csrf_protection))
        (cr_method (page_request ''GET''))"
      using page_methods(1) by (simp add: c page_request_def)
    show "CHR ''/'' \<notin> set (cr_host form_request)" by (simp add: form_request_def page_request_def)
  qed (use referer in \<open>simp_all add: c mt_exists_def new_csrf_protection_def default_csrf_config_def form_request_def page_request_def\<close>)
  with m show ?thesis by blast
qed

end
