(* ===== verification/RegionDeployment.thy ===== *)
theory RegionDeployment
  imports Prelude
begin

text \<open>
  Deployment of a version to several regions, \<^verbatim>\<open>multiregion/deployment.go\<close>: the regions, the coordinator and the
  four strategies. A deployment runs in a goroutine; it looks at the context only at certain points, and between
  any two of its parts other goroutines may act (\<^verbatim>\<open>CancelDeployment\<close>, changes of health and load): \<open>env i m\<close> is
  what they have made of the state \<open>m\<close> when the deployment goes on with its part \<open>i\<close>. The goroutines of a batch
  touch different regions; each is one step, and \<open>perm\<close> gives their order. The calls of the coordinator that
  would reach a region are an argument; those of the source do nothing (\<open>region_coordinator\<close>). A panic is
  \<open>None\<close>. Durations and ids of events are left out.
\<close>

section \<open>Regions\<close>

datatype region_status = RegionActive | RegionInactive | RegionDeploying | RegionFailed | RegionMaintenance
  | RegionStandby | RegionOther string

record region =
  rg_id :: string
  rg_status :: region_status
  rg_priority :: int
  rg_capacity :: int
  rg_current_load :: int
  rg_health_score :: int
  rg_last_deployment :: time
  rg_deployment_count :: int

definition update_load :: "int \<Rightarrow> region \<Rightarrow> region" where
  "update_load load r = r\<lparr>rg_current_load := load\<rparr>"

definition set_status :: "region_status \<Rightarrow> region \<Rightarrow> region" where
  "set_status status r = r\<lparr>rg_status := status\<rparr>"

definition is_available :: "region \<Rightarrow> bool" where
  "is_available r \<longleftrightarrow> rg_status r = RegionActive \<and> rg_health_score r \<ge> 70"

section \<open>The manager\<close>

datatype deployment_strategy = StrategyParallel | StrategySequential | StrategyStaged | StrategyCanary | StrategyOther string

datatype deployment_status = DeploymentPending | DeploymentInProgress | DeploymentCompleted | DeploymentFailed
  | DeploymentRolledBack | DeploymentCancelled

datatype deployment_error = ErrNilRegion | ErrRegionExists | ErrRegionNotFound | ErrNilVersion | ErrInProgress
  | ErrUnhealthyRegions | ErrUnsupportedStrategy | ErrNoDeployment | ErrNotInProgress

record deployment_config =
  dc_strategy :: deployment_strategy
  dc_batch_size :: int
  dc_rollback_on_failure :: bool
  dc_min_healthy_regions :: int
  dc_failure_threshold :: int

definition default_deployment_config :: deployment_config where
  "default_deployment_config = \<lparr>dc_strategy = StrategyStaged, dc_batch_size = 2, dc_rollback_on_failure = True,
     dc_min_healthy_regions = 2, dc_failure_threshold = 1\<rparr>"

type_synonym deployment_version = string

record region_deployment =
  rd_region :: string
  rd_version :: deployment_version
  rd_status :: deployment_status
  rd_start_time :: time
  rd_end_time :: time
  rd_rollback_count :: int
  rd_error :: string

record deployment_event =
  de_timestamp :: time
  de_region :: string
  de_version :: deployment_version
  de_status :: deployment_status
  de_message :: string

text \<open>The coordinator keeps pointers to the regions, so it is the set of the ids it knows.\<close>

record deployment_manager =
  dp_config :: deployment_config
  dp_regions :: "string \<rightharpoonup> region"
  dp_coordinator :: "string set"
  dp_current :: "deployment_version option"
  dp_target :: "deployment_version option"
  dp_deployments :: "string \<rightharpoonup> region_deployment"
  dp_events :: "deployment_event list"
  dp_queue :: "deployment_event list"
  dp_status :: deployment_status
  dp_done :: bool

definition new_deployment_manager :: "deployment_config option \<Rightarrow> deployment_manager" where
  "new_deployment_manager config =
     \<lparr>dp_config = (case config of None \<Rightarrow> default_deployment_config | Some c \<Rightarrow> c), dp_regions = Map.empty,
      dp_coordinator = {}, dp_current = None, dp_target = None, dp_deployments = Map.empty, dp_events = [],
      dp_queue = [], dp_status = DeploymentPending, dp_done = False\<rparr>"

definition add_region :: "region option \<Rightarrow> deployment_manager \<Rightarrow> deployment_manager \<times> deployment_error option" where
  "add_region reg m =
     (case reg of
        None \<Rightarrow> (m, Some ErrNilRegion)
      | Some r \<Rightarrow>
          if dp_regions m (rg_id r) \<noteq> None then (m, Some ErrRegionExists)
          else (m\<lparr>dp_regions := (dp_regions m)(rg_id r \<mapsto> r), dp_coordinator := insert (rg_id r) (dp_coordinator m)\<rparr>, None))"

definition remove_region :: "string \<Rightarrow> deployment_manager \<Rightarrow> deployment_manager \<times> deployment_error option" where
  "remove_region i m =
     (if dp_regions m i = None then (m, Some ErrRegionNotFound)
      else (m\<lparr>dp_regions := (dp_regions m)(i := None), dp_coordinator := dp_coordinator m - {i}\<rparr>, None))"

definition get_region :: "string \<Rightarrow> deployment_manager \<Rightarrow> deployment_error + region" where
  "get_region i m = (case dp_regions m i of None \<Rightarrow> Inl ErrRegionNotFound | Some r \<Rightarrow> Inr r)"

definition get_all_regions :: "string list \<Rightarrow> deployment_manager \<Rightarrow> region list" where
  "get_all_regions ks m = map snd (visit ks (dp_regions m))"

definition get_active_regions :: "string list \<Rightarrow> deployment_manager \<Rightarrow> region list" where
  "get_active_regions ks m = filter is_available (get_all_regions ks m)"

definition set_current_version :: "deployment_version option \<Rightarrow> deployment_manager \<Rightarrow> deployment_manager \<times> deployment_error option" where
  "set_current_version v m = (if v = None then (m, Some ErrNilVersion) else (m\<lparr>dp_current := v\<rparr>, None))"

definition get_region_deployment :: "string \<Rightarrow> deployment_manager \<Rightarrow> deployment_error + region_deployment" where
  "get_region_deployment i m = (case dp_deployments m i of None \<Rightarrow> Inl ErrNoDeployment | Some d \<Rightarrow> Inr d)"

definition cancel_deployment :: "deployment_manager \<Rightarrow> deployment_manager \<times> deployment_error option" where
  "cancel_deployment m =
     (if dp_status m \<noteq> DeploymentInProgress then (m, Some ErrNotInProgress)
      else (m\<lparr>dp_done := True, dp_status := DeploymentCancelled\<rparr>, None))"

definition change_region :: "string \<Rightarrow> (region \<Rightarrow> region) \<Rightarrow> deployment_manager \<Rightarrow> deployment_manager" where
  "change_region i f m = m\<lparr>dp_regions := (dp_regions m)(i := map_option f (dp_regions m i))\<rparr>"

definition create_event :: "time \<Rightarrow> string \<Rightarrow> deployment_status \<Rightarrow> string \<Rightarrow> deployment_manager \<Rightarrow> deployment_manager" where
  "create_event now i status message m =
     (let e = \<lparr>de_timestamp = now, de_region = i, de_version = (case dp_target m of None \<Rightarrow> [] | Some v \<Rightarrow> v),
               de_status = status, de_message = message\<rparr>
      in m\<lparr>dp_events := dp_events m @ [e],
           dp_queue := (if length (dp_queue m) < 1000 then dp_queue m @ [e] else dp_queue m)\<rparr>)"

definition process_deployment_event :: "deployment_manager \<Rightarrow> deployment_manager" where
  "process_deployment_event m = m\<lparr>dp_queue := tl (dp_queue m)\<rparr>"

record deployment_stats =
  ds_total_regions :: int
  ds_active_regions :: int
  ds_healthy_regions :: int
  ds_total_deployments :: int
  ds_completed :: int
  ds_failed :: int
  ds_total_events :: int

definition get_deployment_stats :: "string list \<Rightarrow> string list \<Rightarrow> deployment_manager \<Rightarrow> deployment_stats" where
  "get_deployment_stats ks js m =
     (let rs = get_all_regions ks m; ds = map snd (visit js (dp_deployments m))
      in \<lparr>ds_total_regions = int (length rs),
          ds_active_regions = int (length (filter (\<lambda>r. rg_status r = RegionActive) rs)),
          ds_healthy_regions = int (length (filter (\<lambda>r. rg_health_score r \<ge> 70) rs)),
          ds_total_deployments = int (length ds),
          ds_completed = int (length (filter (\<lambda>d. rd_status d = DeploymentCompleted) ds)),
          ds_failed = int (length (filter (\<lambda>d. rd_status d = DeploymentFailed) ds)),
          ds_total_events = int (length (dp_events m))\<rparr>)"

section \<open>Deploying to one region\<close>

text \<open>What the coordinator's calls to a region return; an error is its text.\<close>

record coordinator =
  co_prepare :: "string \<Rightarrow> deployment_version \<Rightarrow> string option"
  co_deploy :: "string \<Rightarrow> deployment_version \<Rightarrow> string option"
  co_verify :: "string \<Rightarrow> deployment_version \<Rightarrow> string option"


definition check_region_health :: "string \<Rightarrow> deployment_manager \<Rightarrow> int" where
  "check_region_health i m =
     (if i \<in> dp_coordinator m then (case dp_regions m i of None \<Rightarrow> 0 | Some r \<Rightarrow> rg_health_score r) else 0)"

definition verify_region_health :: "string \<Rightarrow> deployment_manager \<Rightarrow> bool" where
  "verify_region_health i m \<longleftrightarrow> check_region_health i m \<ge> 70"

definition verify_batch_health :: "string list \<Rightarrow> deployment_manager \<Rightarrow> bool" where
  "verify_batch_health ids m \<longleftrightarrow> list_all (\<lambda>i. verify_region_health i m) ids"

definition coordinate :: "coordinator \<Rightarrow> string \<Rightarrow> deployment_version \<Rightarrow> string option" where
  "coordinate co i v =
     (case co_prepare co i v of
        Some e \<Rightarrow> Some e
      | None \<Rightarrow> (case co_deploy co i v of Some e \<Rightarrow> Some e | None \<Rightarrow> co_verify co i v))"

definition deploy_to_region :: "coordinator \<Rightarrow> time \<Rightarrow> deployment_version \<Rightarrow> string \<Rightarrow> deployment_manager
    \<Rightarrow> deployment_manager \<times> string option" where
  "deploy_to_region co now v i m =
     (let d = \<lparr>rd_region = i, rd_version = v, rd_status = DeploymentInProgress, rd_start_time = now,
               rd_end_time = time_zero, rd_rollback_count = 0, rd_error = []\<rparr>
      in case coordinate co i v of
           Some e \<Rightarrow> (change_region i (set_status RegionFailed)
                       (m\<lparr>dp_deployments := (dp_deployments m)(i \<mapsto> d\<lparr>rd_status := DeploymentFailed, rd_error := e\<rparr>)\<rparr>), Some e)
         | None \<Rightarrow> (change_region i (\<lambda>r. (set_status RegionActive r)\<lparr>rg_last_deployment := now,
                         rg_deployment_count := rg_deployment_count r + 1\<rparr>)
                       (m\<lparr>dp_deployments := (dp_deployments m)(i \<mapsto> d\<lparr>rd_status := DeploymentCompleted, rd_end_time := now\<rparr>)\<rparr>), None))"

text \<open>The deployment of a region with the event that reports it; \<open>message\<close> is that of a success.\<close>

definition deploy_and_report :: "coordinator \<Rightarrow> time \<Rightarrow> deployment_version \<Rightarrow> string \<Rightarrow> string \<Rightarrow> deployment_manager
    \<Rightarrow> deployment_manager \<times> bool" where
  "deploy_and_report co now v message i m =
     (case deploy_to_region co now v i m of
        (m, Some e) \<Rightarrow> (create_event now i DeploymentFailed e m, False)
      | (m, None) \<Rightarrow> (create_event now i DeploymentCompleted message m, True))"

definition rollback_region :: "time \<Rightarrow> string \<Rightarrow> deployment_manager \<Rightarrow> deployment_manager" where
  "rollback_region now i m =
     (if dp_current m = None then m
      else create_event now i DeploymentRolledBack ''Region rolled back''
        (change_region i (set_status RegionActive)
          (m\<lparr>dp_deployments := (dp_deployments m)(i := map_option (\<lambda>d. d\<lparr>rd_rollback_count := rd_rollback_count d + 1\<rparr>)
                (dp_deployments m i))\<rparr>)))"

definition rollback_all :: "time \<Rightarrow> string list \<Rightarrow> deployment_manager \<Rightarrow> deployment_manager" where
  "rollback_all now ks m =
     create_event now ''all'' DeploymentRolledBack ''All regions rolled back''
       ((fold (rollback_region now) (map fst (visit ks (dp_regions m))) m)\<lparr>dp_status := DeploymentRolledBack\<rparr>)"

text \<open>A failed deployment is rolled back where that is asked for; its status is failed in either case.\<close>

definition fail_deployment :: "time \<Rightarrow> string list \<Rightarrow> deployment_manager \<Rightarrow> deployment_manager" where
  "fail_deployment now ks m =
     (if dc_rollback_on_failure (dp_config m) then rollback_all now ks m else m)\<lparr>dp_status := DeploymentFailed\<rparr>"

definition complete_deployment :: "deployment_manager \<Rightarrow> deployment_manager" where
  "complete_deployment m = m\<lparr>dp_status := DeploymentCompleted, dp_current := dp_target m\<rparr>"

section \<open>The strategies\<close>

text \<open>What the goroutines of a batch do, in the order given; the number of those that fail is counted.\<close>

fun deploy_batch :: "coordinator \<Rightarrow> time \<Rightarrow> deployment_version \<Rightarrow> string list \<Rightarrow> deployment_manager
    \<Rightarrow> deployment_manager \<times> nat" where
  "deploy_batch co now v [] m = (m, 0)"
| "deploy_batch co now v (i # ids) m =
     (case deploy_and_report co now v ''Deployment successful'' i m of
        (m, ok) \<Rightarrow> (case deploy_batch co now v ids m of (m, n) \<Rightarrow> (m, if ok then n else Suc n)))"

definition finish_deployment :: "time \<Rightarrow> string \<Rightarrow> deployment_manager \<Rightarrow> deployment_manager" where
  "finish_deployment now message m = create_event now ''all'' DeploymentCompleted message (complete_deployment m)"

definition deploy_parallel :: "coordinator \<Rightarrow> (nat \<Rightarrow> deployment_manager \<Rightarrow> deployment_manager)
    \<Rightarrow> (nat \<Rightarrow> string list \<Rightarrow> string list) \<Rightarrow> time \<Rightarrow> string list \<Rightarrow> deployment_version \<Rightarrow> deployment_manager \<Rightarrow> deployment_manager" where
  "deploy_parallel co env perm now ks v m =
     (let m = env 0 m;
          (m, failures) = deploy_batch co now v (perm 0 (map rg_id (get_active_regions ks m))) m;
          m = env 1 m;
          m = (if int failures > dc_failure_threshold (dp_config m) then fail_deployment now ks m else complete_deployment m)
      in create_event now ''all'' (dp_status m) ''Parallel deployment completed'' m)"

fun sequential_loop :: "coordinator \<Rightarrow> (nat \<Rightarrow> deployment_manager \<Rightarrow> deployment_manager) \<Rightarrow> time \<Rightarrow> string list
    \<Rightarrow> deployment_version \<Rightarrow> nat \<Rightarrow> string list \<Rightarrow> deployment_manager \<Rightarrow> deployment_manager" where
  "sequential_loop co env now ks v n [] m =
     finish_deployment now ''Sequential deployment completed successfully'' (env n m)"
| "sequential_loop co env now ks v n (i # ids) m =
     (let m = env n m
      in if dp_done m then m\<lparr>dp_status := DeploymentCancelled\<rparr>
         else case deploy_and_report co now v ''Deployment successful'' i m of
           (m, False) \<Rightarrow> fail_deployment now ks m
         | (m, True) \<Rightarrow> sequential_loop co env now ks v (Suc n) ids m)"

definition deploy_sequential :: "coordinator \<Rightarrow> (nat \<Rightarrow> deployment_manager \<Rightarrow> deployment_manager) \<Rightarrow> time
    \<Rightarrow> string list \<Rightarrow> deployment_version \<Rightarrow> deployment_manager \<Rightarrow> deployment_manager" where
  "deploy_sequential co env now ks v m =
     (let m = env 0 m in sequential_loop co env now ks v 1 (map rg_id (get_active_regions ks m)) m)"

definition sort_regions_by_priority :: "region list \<Rightarrow> region list" where
  "sort_regions_by_priority rs = exchange_sort (\<lambda>a b. rg_priority b > rg_priority a) rs"

text \<open>The slice of a batch; \<^verbatim>\<open>batchRegions\<close> panics when its bounds are not in order.\<close>

definition batch_slice :: "int \<Rightarrow> nat \<Rightarrow> string list \<Rightarrow> string list option" where
  "batch_slice bsize batch ids =
     (let lo = int batch * bsize;
          hi = (if lo + bsize > int (length ids) then int (length ids) else lo + bsize)
      in if lo < 0 \<or> hi < lo then None else Some (take (nat (hi - lo)) (drop (nat lo) ids)))"

fun staged_loop :: "coordinator \<Rightarrow> (nat \<Rightarrow> deployment_manager \<Rightarrow> deployment_manager) \<Rightarrow> (nat \<Rightarrow> string list \<Rightarrow> string list)
    \<Rightarrow> time \<Rightarrow> string list \<Rightarrow> deployment_version \<Rightarrow> int \<Rightarrow> string list \<Rightarrow> nat \<Rightarrow> nat \<Rightarrow> deployment_manager
    \<Rightarrow> deployment_manager option" where
  "staged_loop co env perm now ks v bsize ids 0 batch m =
     Some (finish_deployment now ''Staged deployment completed successfully'' (env (2 * batch + 1) m))"
| "staged_loop co env perm now ks v bsize ids (Suc left) batch m =
     (let m = env (2 * batch + 1) m
      in if dp_done m then Some (m\<lparr>dp_status := DeploymentCancelled\<rparr>)
         else case batch_slice bsize batch ids of
           None \<Rightarrow> None
         | Some regions \<Rightarrow>
             (case deploy_batch co now v (perm batch regions) m of
                (m, failures) \<Rightarrow>
                  if failures \<noteq> 0 then Some (fail_deployment now ks m)
                  else let m = env (2 * batch + 2) m
                       in if \<not> verify_batch_health regions m then Some (fail_deployment now ks m)
                          else staged_loop co env perm now ks v bsize ids left (Suc batch) m))"

definition batch_count :: "int \<Rightarrow> string list \<Rightarrow> nat" where
  "batch_count bsize ids = nat (go_div (int (length ids) + bsize - 1) bsize)"

definition deploy_staged :: "coordinator \<Rightarrow> (nat \<Rightarrow> deployment_manager \<Rightarrow> deployment_manager) \<Rightarrow> (nat \<Rightarrow> string list \<Rightarrow> string list)
    \<Rightarrow> time \<Rightarrow> string list \<Rightarrow> deployment_version \<Rightarrow> deployment_manager \<Rightarrow> deployment_manager option" where
  "deploy_staged co env perm now ks v m =
     (let m = env 0 m;
          ids = map rg_id (sort_regions_by_priority (get_active_regions ks m));
          bsize = dc_batch_size (dp_config m)
      in if bsize = 0 then None
         else staged_loop co env perm now ks v bsize ids (batch_count bsize ids) 0 m)"

fun canary_rest :: "coordinator \<Rightarrow> time \<Rightarrow> string list \<Rightarrow> deployment_version \<Rightarrow> string list \<Rightarrow> deployment_manager
    \<Rightarrow> deployment_manager" where
  "canary_rest co now ks v [] m = finish_deployment now ''Canary deployment completed successfully'' m"
| "canary_rest co now ks v (i # ids) m =
     (case deploy_and_report co now v ''Deployment successful'' i m of
        (m, False) \<Rightarrow> fail_deployment now ks m
      | (m, True) \<Rightarrow> canary_rest co now ks v ids m)"

definition deploy_canary :: "coordinator \<Rightarrow> (nat \<Rightarrow> deployment_manager \<Rightarrow> deployment_manager) \<Rightarrow> time \<Rightarrow> string list
    \<Rightarrow> deployment_version \<Rightarrow> deployment_manager \<Rightarrow> deployment_manager" where
  "deploy_canary co env now ks v m =
     (let m = env 0 m; ids = map rg_id (get_active_regions ks m)
      in if ids = [] then create_event now ''all'' DeploymentFailed ''No available regions for deployment''
              (m\<lparr>dp_status := DeploymentFailed\<rparr>)
         else case deploy_and_report co now v ''Canary deployment successful'' (last ids) m of
           (m, False) \<Rightarrow> m\<lparr>dp_status := DeploymentFailed\<rparr>
         | (m, True) \<Rightarrow>
             let m = env 1 m
             in if \<not> verify_region_health (last ids) m
                then (rollback_region now (last ids) m)\<lparr>dp_status := DeploymentFailed\<rparr>
                else canary_rest co now ks v (butlast ids) m)"

definition start_deployment :: "string list \<Rightarrow> deployment_version option \<Rightarrow> deployment_manager
    \<Rightarrow> deployment_manager \<times> deployment_error option" where
  "start_deployment ks target m =
     (if target = None then (m, Some ErrNilVersion)
      else if dp_status m = DeploymentInProgress then (m, Some ErrInProgress)
      else if int (length (get_active_regions ks m)) < dc_min_healthy_regions (dp_config m) then (m, Some ErrUnhealthyRegions)
      else case dc_strategy (dp_config m) of
        StrategyOther _ \<Rightarrow> (m\<lparr>dp_target := target, dp_status := DeploymentFailed\<rparr>, Some ErrUnsupportedStrategy)
      | _ \<Rightarrow> (m\<lparr>dp_target := target, dp_status := DeploymentInProgress\<rparr>, None))"

text \<open>The goroutine that a started deployment runs.\<close>

definition run_deployment :: "coordinator \<Rightarrow> (nat \<Rightarrow> deployment_manager \<Rightarrow> deployment_manager) \<Rightarrow> (nat \<Rightarrow> string list \<Rightarrow> string list)
    \<Rightarrow> time \<Rightarrow> string list \<Rightarrow> deployment_version \<Rightarrow> deployment_manager \<Rightarrow> deployment_manager option" where
  "run_deployment co env perm now ks v m =
     (case dc_strategy (dp_config m) of
        StrategyParallel \<Rightarrow> Some (deploy_parallel co env perm now ks v m)
      | StrategySequential \<Rightarrow> Some (deploy_sequential co env now ks v m)
      | StrategyStaged \<Rightarrow> deploy_staged co env perm now ks v m
      | StrategyCanary \<Rightarrow> Some (deploy_canary co env now ks v m)
      | StrategyOther _ \<Rightarrow> Some m)"

section \<open>What the environment does\<close>

text \<open>While a deployment runs, others cancel it, read its events and change the health and the load of regions.\<close>

inductive external :: "deployment_manager \<Rightarrow> deployment_manager \<Rightarrow> bool" where
  cancel: "cancel_deployment m = (m', err) \<Longrightarrow> external m m'"
| current: "set_current_version cur m = (m', err) \<Longrightarrow> external m m'"
| health: "external m (change_region i (\<lambda>r. r\<lparr>rg_health_score := h\<rparr>) m)"
| load: "external m (change_region i (update_load l) m)"
| event: "external m (process_deployment_event m)"

definition admissible :: "(nat \<Rightarrow> deployment_manager \<Rightarrow> deployment_manager) \<Rightarrow> bool" where
  "admissible env \<longleftrightarrow> (\<forall>n m. external\<^sup>*\<^sup>* m (env n m))"

definition permutes_batches :: "(nat \<Rightarrow> string list \<Rightarrow> string list) \<Rightarrow> bool" where
  "permutes_batches perm \<longleftrightarrow> (\<forall>n ids. mset (perm n ids) = mset ids)"

section \<open>What a step leaves alone\<close>

lemmas manager_steps = change_region_def create_event_def process_deployment_event_def
  set_current_version_def cancel_deployment_def update_load_def set_status_def

text \<open>The regions are filed under their ids, and the coordinator knows them.\<close>

definition regions_filed :: "deployment_manager \<Rightarrow> bool" where
  "regions_filed m \<longleftrightarrow> (\<forall>i r. dp_regions m i = Some r \<longrightarrow> rg_id r = i) \<and> dp_coordinator m = dom (dp_regions m)"

definition region_state :: "deployment_manager \<Rightarrow> string \<Rightarrow> (string \<times> region_status) option" where
  "region_state m i = map_option (\<lambda>r. (rg_id r, rg_status r)) (dp_regions m i)"

definition changes_only :: "string set \<Rightarrow> deployment_manager \<Rightarrow> deployment_manager \<Rightarrow> bool" where
  "changes_only A m m' \<longleftrightarrow> dp_config m' = dp_config m \<and> dp_target m' = dp_target m \<and> (dp_current m \<noteq> None \<longrightarrow> dp_current m' \<noteq> None)
     \<and> (\<forall>j. (dp_regions m' j = None) = (dp_regions m j = None))
     \<and> (\<forall>j. j \<notin> A \<longrightarrow> dp_deployments m' j = dp_deployments m j \<and> region_state m' j = region_state m j)"

lemma changes_only_refl [simp]: "changes_only A m m"
  by (simp add: changes_only_def)

lemma changes_only_trans: "changes_only A m m' \<Longrightarrow> changes_only B m' m'' \<Longrightarrow> changes_only (A \<union> B) m m''"
  by (simp add: changes_only_def)

lemma changes_only_mono: "changes_only A m m' \<Longrightarrow> A \<subseteq> B \<Longrightarrow> changes_only B m m'"
  unfolding changes_only_def by blast

lemma change_region_frame:
  assumes "\<And>r. rg_id (f r) = rg_id r" "\<And>r. rg_status (f r) = rg_status r"
  shows "changes_only {} m (change_region i f m)"
  by (auto simp: changes_only_def change_region_def region_state_def assms option.map_comp o_def)

lemma external_frame: "external m m' \<Longrightarrow> changes_only {} m m'"
proof (induction rule: external.induct)
  case (health m i h)
  show ?case by (rule change_region_frame) simp_all
next
  case (load m i l)
  show ?case by (rule change_region_frame) (simp_all add: update_load_def)
qed (auto simp: manager_steps changes_only_def region_state_def split: if_splits)

lemma externals_frame: "external\<^sup>*\<^sup>* m m' \<Longrightarrow> changes_only {} m m'"
  by (induction rule: rtranclp_induct) (auto dest!: external_frame dest: changes_only_trans)

lemma env_frame: "admissible env \<Longrightarrow> changes_only {} m (env n m)"
  by (simp add: admissible_def externals_frame)

lemma create_event_frame: "changes_only {} m (create_event now i st msg m)"
  by (simp add: changes_only_def create_event_def region_state_def Let_def)

lemma deploy_to_region_frame: "deploy_to_region co now v i m = (m', e) \<Longrightarrow> changes_only {i} m m'"
  by (auto simp: deploy_to_region_def Let_def changes_only_def change_region_def region_state_def split: option.splits if_splits)

lemma deploy_and_report_frame: "deploy_and_report co now v msg i m = (m', ok) \<Longrightarrow> changes_only {i} m m'"
  by (auto simp: deploy_and_report_def split: prod.splits option.splits
      dest!: deploy_to_region_frame intro: changes_only_trans [where B = "{}", simplified] create_event_frame)

lemma deploy_batch_frame: "deploy_batch co now v ids m = (m', n) \<Longrightarrow> changes_only (set ids) m m'"
proof (induction ids arbitrary: m m' n)
  case (Cons i ids)
  then show ?case
    by (fastforce split: prod.splits dest!: deploy_and_report_frame intro: changes_only_trans [of "{i}" _ _ "set ids", simplified])
qed simp

section \<open>Where a version has arrived\<close>








lemma fail_deployment_status [simp]: "dp_status (fail_deployment now ks m) = DeploymentFailed"
  by (simp add: fail_deployment_def)

lemma create_event_status [simp]: "dp_status (create_event now i st msg m) = dp_status m"
  by (simp add: create_event_def Let_def)

lemma complete_deployment_status [simp]: "dp_status (complete_deployment m) = DeploymentCompleted"
  by (simp add: complete_deployment_def)

lemma finish_deployment_result [simp]:
  "dp_status (finish_deployment now msg m) = DeploymentCompleted" "dp_current (finish_deployment now msg m) = dp_target m"
  by (simp_all add: finish_deployment_def complete_deployment_def create_event_def Let_def)








section \<open>Batches\<close>

text \<open>With a positive batch size the slices of the batches are in range, and one after the other they give the list.\<close>

lemma batch_slice_nat:
  assumes "0 < b"
  shows "batch_slice (int b) k ids = (if k * b \<le> length ids then Some (take b (drop (k * b) ids)) else None)"
proof -
  have lo: "int k * int b = int (k * b)" and width: "nat (int (k * b + b) - int (k * b)) = b" by simp_all
  show ?thesis
    unfolding batch_slice_def Let_def lo by (auto simp: width simp del: of_nat_mult simp flip: of_nat_add)
qed

lemma batch_count_nat:
  assumes "0 < b"
  shows "batch_count (int b) ids = (length ids + b - 1) div b"
proof -
  have "int (length ids) + int b - 1 = int (length ids + b - 1)"
    using assms by (simp add: of_nat_diff)
  then show ?thesis
    unfolding batch_count_def by (simp only: go_div_nonneg of_nat_0_le_iff nat_int flip: of_nat_div)
qed

lemma batch_count_bounds:
  assumes "0 < b"
  shows "length ids \<le> batch_count (int b) ids * b" and "k < batch_count (int b) ids \<Longrightarrow> k * b \<le> length ids"
proof -
  let ?c = "(length ids + b - 1) div b"
  have "length ids + b - 1 = ?c * b + (length ids + b - 1) mod b" "(length ids + b - 1) mod b < b"
    using assms by simp_all
  then show "length ids \<le> batch_count (int b) ids * b"
    using assms unfolding batch_count_nat [OF assms] by linarith
  have "Suc k * b \<le> length ids + b - 1" if "k < ?c"
    using that by (metis Suc_leI div_times_less_eq_dividend le_trans mult_le_mono1)
  then show "k < batch_count (int b) ids \<Longrightarrow> k * b \<le> length ids"
    using assms unfolding batch_count_nat [OF assms] by auto
qed




section \<open>The regions a deployment starts with\<close>





section \<open>What a deployment promises\<close>

lemma start_deployment_result:
  assumes "start_deployment ks (Some v) m = (m1, None)"
  shows "m1 = m\<lparr>dp_target := Some v, dp_status := DeploymentInProgress\<rparr>"
  using assms by (auto simp: start_deployment_def split: if_splits deployment_strategy.splits)



text \<open>How a deployment ends, and what a rollback leaves behind.\<close>

definition recovered :: "deployment_manager \<Rightarrow> bool" where
  "recovered m \<longleftrightarrow> (\<forall>i r. dp_regions m i = Some r \<longrightarrow> rg_status r = RegionActive)"

lemma rollback_region_frame: "changes_only {i} m (rollback_region now i m)"
  by (auto simp: rollback_region_def change_region_def create_event_def set_status_def Let_def changes_only_def region_state_def)

lemma rollback_regions_frame: "changes_only (set ids) m (fold (rollback_region now) ids m)"
proof (induction ids arbitrary: m)
  case (Cons i ids)
  then show ?case
    using changes_only_trans [OF rollback_region_frame Cons.IH] by simp
qed simp

lemma rollback_region_active:
  "dp_current m \<noteq> None \<Longrightarrow> region_state (rollback_region now i m) i = map_option (\<lambda>(j, st). (j, RegionActive)) (region_state m i)"
  by (auto simp: region_state_def rollback_region_def change_region_def create_event_def set_status_def Let_def option.map_comp o_def)

lemma region_state_Some: "dp_regions m i = Some r \<Longrightarrow> region_state m i = Some (rg_id r, rg_status r)"
  by (simp add: region_state_def)

lemma rollback_regions_active:
  "dp_current m \<noteq> None \<Longrightarrow> i \<in> set ids \<Longrightarrow> dp_regions (fold (rollback_region now) ids m) i = Some r \<Longrightarrow> rg_status r = RegionActive"
proof (induction ids arbitrary: m)
  case (Cons j ids)
  have cur: "dp_current (rollback_region now j m) \<noteq> None"
    using rollback_region_frame [of j m now] Cons.prems(1) by (simp add: changes_only_def)
  show ?case
  proof (cases "i \<in> set ids")
    case True
    then show ?thesis
      using Cons.IH [OF cur True] Cons.prems(3) by simp
  next
    case False
    then have "region_state (fold (rollback_region now) ids (rollback_region now j m)) i = region_state (rollback_region now j m) i"
      using rollback_regions_frame [of ids "rollback_region now j m" now] by (simp add: changes_only_def)
    then show ?thesis
      using Cons.prems False rollback_region_active [of m now j] region_state_Some [OF Cons.prems(3)]
      by (auto dest: sym)
  qed
qed simp

lemma fail_deployment_recovers:
  assumes "dc_rollback_on_failure (dp_config m)" "dp_current m \<noteq> None" "covers ks (dp_regions m)"
  shows "recovered (fail_deployment now ks m)"
proof -
  have mem: "i \<in> set (map fst (visit ks (dp_regions m)))"
    if "dp_regions (fold (rollback_region now) (map fst (visit ks (dp_regions m))) m) i = Some r" for i r
    using that rollback_regions_frame [of "map fst (visit ks (dp_regions m))" m now] visit_keys_dom [OF assms(3)]
    unfolding changes_only_def by (metis domIff option.distinct(1) set_map)
  show ?thesis
    using rollback_regions_active [OF assms(2) mem] assms(1)
    by (simp add: recovered_def fail_deployment_def rollback_all_def create_event_def Let_def)
qed

text \<open>A run ends completed, cancelled, or failed; in the last case what was asked for has been rolled back.\<close>

definition ends_well :: "deployment_manager \<Rightarrow> deployment_manager \<Rightarrow> bool" where
  "ends_well m m' \<longleftrightarrow> dp_status m' \<in> {DeploymentCompleted, DeploymentCancelled}
     \<or> dp_status m' = DeploymentFailed \<and> (dc_rollback_on_failure (dp_config m) \<longrightarrow> dp_current m \<noteq> None \<longrightarrow> recovered m')"

lemma ends_well_frame: "changes_only A m m1 \<Longrightarrow> ends_well m1 m' \<Longrightarrow> ends_well m m'"
  by (auto simp: ends_well_def changes_only_def)

lemma covers_frame: "changes_only A m m' \<Longrightarrow> covers ks (dp_regions m) \<Longrightarrow> covers ks (dp_regions m')"
  by (auto simp: changes_only_def covers_def dom_def)

lemma finish_ends_well [simp]: "ends_well m (finish_deployment now msg m')"
  by (simp add: ends_well_def)

lemma cancelled_ends_well [simp]: "ends_well m (m'\<lparr>dp_status := DeploymentCancelled\<rparr>)"
  by (simp add: ends_well_def)

lemma fail_ends_well: "covers ks (dp_regions m) \<Longrightarrow> ends_well m (fail_deployment now ks m)"
  by (simp add: ends_well_def fail_deployment_recovers)

lemma fail_ends_well_after: "changes_only A m m' \<Longrightarrow> covers ks (dp_regions m) \<Longrightarrow> ends_well m (fail_deployment now ks m')"
  by (rule ends_well_frame [OF _ fail_ends_well]) (auto dest: covers_frame)

lemma sequential_ends_well:
  assumes "admissible env" "covers ks (dp_regions m)"
  shows "ends_well m (sequential_loop co env now ks v n ids m)"
  using assms(2)
proof (induction ids arbitrary: m n)
  case (Cons i ids)
  obtain m1 ok where one: "deploy_and_report co now v ''Deployment successful'' i (env n m) = (m1, ok)"
    by fastforce
  note frame = changes_only_trans [OF env_frame [OF assms(1)] deploy_and_report_frame [OF one]]
  have "ends_well m (sequential_loop co env now ks v (Suc n) ids m1)"
    by (rule ends_well_frame [OF frame Cons.IH]) (rule covers_frame [OF frame Cons.prems])
  then show ?case
    using one fail_ends_well_after [OF frame Cons.prems] by (simp add: Let_def split: bool.split)
qed simp

lemma canary_ends_well:
  assumes "covers ks (dp_regions m)"
  shows "ends_well m (canary_rest co now ks v ids m)"
  using assms
proof (induction ids arbitrary: m)
  case (Cons i ids)
  obtain m1 ok where one: "deploy_and_report co now v ''Deployment successful'' i m = (m1, ok)"
    by fastforce
  note frame = deploy_and_report_frame [OF one]
  have "ends_well m (canary_rest co now ks v ids m1)"
    by (rule ends_well_frame [OF frame Cons.IH]) (rule covers_frame [OF frame Cons.prems])
  then show ?case
    using one fail_ends_well_after [OF frame Cons.prems] by (simp split: bool.split)
qed simp

lemma staged_ends_well:
  assumes "admissible env" "0 < b"
    and "covers ks (dp_regions m)" "\<And>j. k \<le> j \<Longrightarrow> j < k + left \<Longrightarrow> j * b \<le> length ids"
  shows "\<exists>m'. staged_loop co env perm now ks v (int b) ids left k m = Some m' \<and> ends_well m m'"
  using assms(3-)
proof (induction left arbitrary: m k)
  case (Suc left)
  define m0 where "m0 = env (2 * k + 1) m"
  define regions where "regions = take b (drop (k * b) ids)"
  have slice: "batch_slice (int b) k ids = Some regions"
    using batch_slice_nat [OF assms(2)] Suc.prems(2) [of k] by (simp add: regions_def)
  obtain m1 n where batch: "deploy_batch co now v (perm k regions) m0 = (m1, n)"
    by fastforce
  note frame1 = changes_only_trans [OF env_frame [OF assms(1), of m "2 * k + 1", folded m0_def] deploy_batch_frame [OF batch]]
  note frame2 = changes_only_trans [OF frame1 env_frame [OF assms(1), of m1 "2 * k + 2"]]
  have "\<exists>m'. staged_loop co env perm now ks v (int b) ids left (Suc k) (env (2 * k + 2) m1) = Some m'
      \<and> ends_well (env (2 * k + 2) m1) m'"
    by (rule Suc.IH) (use covers_frame [OF frame2 Suc.prems(1)] Suc.prems(2) in auto)
  then show ?case
    using fail_ends_well_after [OF frame1 Suc.prems(1)] fail_ends_well_after [OF frame2 Suc.prems(1)] ends_well_frame [OF frame2]
    unfolding staged_loop.simps Let_def m0_def [symmetric] slice option.case batch prod.case by auto
qed simp

lemma recovered_event [simp]: "recovered (create_event now i st msg m) = recovered m"
  by (simp add: recovered_def create_event_def Let_def)

lemma parallel_ends_well:
  assumes "admissible env" "covers ks (dp_regions m)"
  shows "ends_well m (deploy_parallel co env perm now ks v m)"
proof -
  obtain m1 n where batch: "deploy_batch co now v (perm 0 (map rg_id (get_active_regions ks (env 0 m)))) (env 0 m) = (m1, n)"
    by fastforce
  note frame = changes_only_trans [OF changes_only_trans [OF env_frame [OF assms(1)] deploy_batch_frame [OF batch]]
      env_frame [OF assms(1), of _ 1]]
  show ?thesis
    using fail_ends_well_after [OF frame assms(2), of now] unfolding deploy_parallel_def Let_def batch prod.case
    by (auto simp: ends_well_def)
qed

lemma canary_status:
  "dp_status (canary_rest co now ks v ids m) \<noteq> DeploymentCompleted \<Longrightarrow> dp_status (canary_rest co now ks v ids m) = DeploymentFailed"
  by (induction ids arbitrary: m) (auto split: prod.splits bool.splits)

text \<open>
  The goroutine panics in the staged strategy only: with a batch size of zero, or with a negative one when at most one
  region is available and the context is not done. A negative size and more regions give no batch at all.
\<close>

definition staged_panics :: "(nat \<Rightarrow> deployment_manager \<Rightarrow> deployment_manager) \<Rightarrow> string list \<Rightarrow> deployment_manager \<Rightarrow> bool" where
  "staged_panics env ks m \<longleftrightarrow> dc_strategy (dp_config m) = StrategyStaged \<and>
     (dc_batch_size (dp_config m) = 0 \<or>
      dc_batch_size (dp_config m) < 0 \<and> length (get_active_regions ks (env 0 m)) \<le> 1 \<and> \<not> dp_done (env 1 (env 0 m)))"

lemma go_div_negative:
  assumes "b < 0"
  shows "0 < go_div (int n + b - 1) b \<longleftrightarrow> n \<le> 1"
proof (cases "n \<le> 1")
  case True
  with assms have "go_div (int n + b - 1) b = (1 - int n - b) div - b" by (simp add: go_div_def diff_diff_eq)
  moreover have "0 < (1 - int n - b) div - b" using assms True by (simp add: pos_imp_zdiv_pos_iff)
  ultimately show ?thesis using True by simp
next
  case False
  show ?thesis
  proof (cases "int n + b - 1 < 0")
    case True
    with assms have "go_div (int n + b - 1) b = (1 - int n - b) div - b" by (simp add: go_div_def diff_diff_eq)
    also have "\<dots> = 0" using assms True False by (intro div_pos_pos_trivial) auto
    finally show ?thesis using False by simp
  next
    case nonneg: False
    with assms have "go_div (int n + b - 1) b \<le> 0"
      by (auto simp: go_div_def sgn_if mult_le_0_iff intro: pos_imp_zdiv_nonneg_iff [THEN iffD2])
    then show ?thesis using False by simp
  qed
qed

lemma staged_negative:
  assumes "dc_batch_size (dp_config m) < 0" "dp_config (env 0 m) = dp_config m"
  shows "deploy_staged co env perm now ks v m
    = (if length (get_active_regions ks (env 0 m)) \<le> 1
       then if dp_done (env 1 (env 0 m)) then Some ((env 1 (env 0 m))\<lparr>dp_status := DeploymentCancelled\<rparr>) else None
       else Some (finish_deployment now ''Staged deployment completed successfully'' (env 1 (env 0 m))))"
proof -
  let ?ids = "map rg_id (sort_regions_by_priority (get_active_regions ks (env 0 m)))"
  let ?b = "dc_batch_size (dp_config m)"
  have len: "length ?ids = length (get_active_regions ks (env 0 m))"
    unfolding sort_regions_by_priority_def length_map by (rule mset_eq_length [OF mset_exchange_sort])
  have slice: "batch_slice ?b 0 ?ids = None" using assms(1) by (simp add: batch_slice_def)
  have "0 < batch_count ?b ?ids \<longleftrightarrow> length ?ids \<le> 1"
    using go_div_negative [OF assms(1)] by (simp add: batch_count_def)
  then show ?thesis
    using assms slice len by (cases "batch_count ?b ?ids") (simp_all add: deploy_staged_def Let_def)
qed

lemma staged_outcome:
  assumes "admissible env" "covers ks (dp_regions m)" "dc_strategy (dp_config m) = StrategyStaged"
  shows "(deploy_staged co env perm now ks v m = None \<longleftrightarrow> staged_panics env ks m)
    \<and> (\<forall>m2. deploy_staged co env perm now ks v m = Some m2 \<longrightarrow> ends_well m m2)"
proof -
  have conf: "dp_config (env 0 m) = dp_config m"
    using env_frame [OF assms(1), of m 0] by (simp add: changes_only_def)
  consider "dc_batch_size (dp_config m) = 0" | "dc_batch_size (dp_config m) < 0" | "0 < dc_batch_size (dp_config m)" by linarith
  then show ?thesis
  proof cases
    case 1
    with assms(3) conf show ?thesis by (simp add: deploy_staged_def staged_panics_def Let_def)
  next
    case 2
    note negative = staged_negative [where m = m and env = env, OF 2 conf]
    from 2 assms(3) show ?thesis unfolding negative staged_panics_def by auto
  next
    case 3
    then obtain b where b: "dc_batch_size (dp_config m) = int b" "0 < b" by (metis zero_less_imp_eq_int)
    let ?sorted = "map rg_id (sort_regions_by_priority (get_active_regions ks (env 0 m)))"
    obtain m2 where "staged_loop co env perm now ks v (int b) ?sorted (batch_count (int b) ?sorted) 0 (env 0 m) = Some m2"
      and "ends_well (env 0 m) m2"
      using staged_ends_well [OF assms(1) b(2) covers_frame [OF env_frame [OF assms(1)] assms(2), of 0],
          where k = 0 and left = "batch_count (int b) ?sorted" and ids = ?sorted and co = co and perm = perm and now = now and v = v]
        batch_count_bounds(2) [OF b(2), where ids = ?sorted] by fastforce
    then show ?thesis
      using 3 b conf assms(3) ends_well_frame [OF env_frame [OF assms(1)]] by (simp add: deploy_staged_def Let_def staged_panics_def)
  qed
qed

text \<open>A failed canary leaves the other regions alone; after it, the rollback is that of the other strategies.\<close>

lemma canary_outcome:
  assumes "admissible env" "covers ks (dp_regions m)" and m2_def: "m2 = deploy_canary co env now ks v m"
  shows "ends_well m m2 \<or> dp_status m2 = DeploymentFailed \<and> (\<exists>i. changes_only {i} m m2)"
proof (cases "map rg_id (get_active_regions ks (env 0 m)) = []")
  case True
  have "changes_only {} m m2" "dp_status m2 = DeploymentFailed"
    using True env_frame [OF assms(1), of m 0] unfolding m2_def deploy_canary_def Let_def
    by (auto simp: changes_only_def create_event_def region_state_def Let_def)
  then show ?thesis by (auto intro: changes_only_mono)
next
  case False
  define c where "c = last (map rg_id (get_active_regions ks (env 0 m)))"
  obtain m3 ok where one: "deploy_and_report co now v ''Canary deployment successful'' c (env 0 m) = (m3, ok)" by fastforce
  note frame = changes_only_trans [OF env_frame [OF assms(1)] deploy_and_report_frame [OF one]]
  note frame1 = changes_only_trans [OF frame env_frame [OF assms(1), of m3 1]]
  note frame2 = changes_only_trans [OF frame1 rollback_region_frame [of c _ now]]
  have failed: "changes_only A m n \<Longrightarrow> A = {c} \<Longrightarrow> changes_only {c} m (n\<lparr>dp_status := DeploymentFailed\<rparr>)" for A n
    by (simp add: changes_only_def region_state_def)
  have rest: "ends_well m (canary_rest co now ks v ids (env 1 m3))" for ids
    by (rule ends_well_frame [OF frame1 canary_ends_well]) (rule covers_frame [OF frame1 assms(2)])
  show ?thesis
    using rest failed [OF frame] failed [OF frame2] False
    unfolding m2_def deploy_canary_def Let_def c_def [symmetric] one prod.case
    by (cases ok) auto
qed

text \<open>C5: a deployment that has been started panics exactly when its strategy is staged and the batch size is 0, or is
  negative with at most one region available and the context not done. Otherwise it comes to an end, its
  status is completed, cancelled or failed. When it failed, a rollback was asked for and there was a current version
  to go back to, every region of the manager is active again; with the canary strategy that is so unless it failed at
  the canary, and then the regions other than the canary are as they were.
\<close>

theorem deployment_outcome:
  assumes "admissible env" "covers ks (dp_regions m)" "start_deployment ks (Some v) m = (m1, None)"
  shows "(run_deployment co env perm now ks v m1 = None \<longleftrightarrow> dc_strategy (dp_config m) = StrategyStaged \<and>
      (dc_batch_size (dp_config m) = 0 \<or> dc_batch_size (dp_config m) < 0 \<and> length (get_active_regions ks (env 0 m1)) \<le> 1
         \<and> \<not> dp_done (env 1 (env 0 m1))))
    \<and> (\<forall>m2. run_deployment co env perm now ks v m1 = Some m2 \<longrightarrow>
          dp_status m2 \<in> {DeploymentCompleted, DeploymentCancelled} \<or>
          dp_status m2 = DeploymentFailed \<and>
            ((dc_rollback_on_failure (dp_config m) \<longrightarrow> dp_current m \<noteq> None \<longrightarrow>
                (\<forall>i r. dp_regions m2 i = Some r \<longrightarrow> rg_status r = RegionActive))
             \<or> dc_strategy (dp_config m) = StrategyCanary \<and>
                (\<exists>c. \<forall>i. i \<noteq> c \<longrightarrow> dp_deployments m2 i = dp_deployments m i \<and> region_state m2 i = region_state m i)))"
proof -
  note m1 = start_deployment_result [OF assms(3)]
  have cov: "covers ks (dp_regions m1)"
    using assms(2) by (simp add: m1)
  note cov0 = covers_frame [OF env_frame [OF assms(1)] cov, of 0]
  have ends: "dp_status m2 \<in> {DeploymentCompleted, DeploymentCancelled} \<or> dp_status m2 = DeploymentFailed \<and>
      (dc_rollback_on_failure (dp_config m) \<longrightarrow> dp_current m \<noteq> None \<longrightarrow>
        (\<forall>i r. dp_regions m2 i = Some r \<longrightarrow> rg_status r = RegionActive))" if "ends_well m1 m2" for m2
    using that by (auto simp: m1 ends_well_def recovered_def)
  show ?thesis
  proof (cases "dc_strategy (dp_config m)")
    case StrategyParallel
    with ends [OF parallel_ends_well [OF assms(1) cov]] show ?thesis
      by (simp add: run_deployment_def m1 StrategyParallel)
  next
    case StrategySequential
    with ends [OF ends_well_frame [OF env_frame [OF assms(1)] sequential_ends_well [OF assms(1) cov0]]] show ?thesis
      by (simp add: run_deployment_def deploy_sequential_def Let_def m1)
  next
    case StrategyStaged
    then have "dc_strategy (dp_config m1) = StrategyStaged" by (simp add: m1)
    from staged_outcome [OF assms(1) cov this] ends StrategyStaged show ?thesis
      by (simp add: run_deployment_def m1 staged_panics_def)
  next
    case StrategyCanary
    have same: "changes_only {c} m1 m2 \<Longrightarrow> \<forall>i. i \<noteq> c \<longrightarrow> dp_deployments m2 i = dp_deployments m i \<and> region_state m2 i = region_state m i"
      for c m2 by (simp add: changes_only_def m1 region_state_def)
    let ?m2 = "deploy_canary co env now ks v m1"
    from canary_outcome [OF assms(1) cov refl, of co now v] show ?thesis
    proof (elim disjE conjE exE)
      assume "ends_well m1 ?m2"
      from ends [OF this] have "dp_status ?m2 \<in> {DeploymentCompleted, DeploymentCancelled} \<or> dp_status ?m2 = DeploymentFailed
          \<and> (dc_rollback_on_failure (dp_config m) \<longrightarrow> dp_current m \<noteq> None \<longrightarrow>
            (\<forall>i r. dp_regions ?m2 i = Some r \<longrightarrow> rg_status r = RegionActive))" .
      with StrategyCanary show ?thesis by (simp add: run_deployment_def m1) blast
    next
      fix c assume "dp_status ?m2 = DeploymentFailed" "changes_only {c} m1 ?m2"
      from this(1) same [OF this(2)] StrategyCanary show ?thesis by (simp add: run_deployment_def m1) blast
    qed
  next
    case (StrategyOther s)
    then show ?thesis
      using assms(3) by (simp add: start_deployment_def split: if_splits)
  qed
qed

section \<open>Examples\<close>

definition sample_region :: "string \<Rightarrow> int \<Rightarrow> region" where
  "sample_region i prio = \<lparr>rg_id = i, rg_status = RegionActive, rg_priority = prio, rg_capacity = 10, rg_current_load = 0,
     rg_health_score = 90, rg_last_deployment = 0, rg_deployment_count = 0\<rparr>"

definition sample_deployment :: deployment_manager where
  "sample_deployment = (new_deployment_manager (Some (default_deployment_config\<lparr>dc_batch_size := 1\<rparr>)))
     \<lparr>dp_regions := [''a'' \<mapsto> sample_region ''a'' 2, ''b'' \<mapsto> sample_region ''b'' 1], dp_coordinator := {''a'', ''b''},
      dp_current := Some ''v1''\<rparr>"

lemma sample_deployment_filed: "regions_filed sample_deployment" "covers [''a'', ''b''] (dp_regions sample_deployment)"
  by (auto simp: regions_filed_def covers_def sample_deployment_def new_deployment_manager_def sample_region_def split: if_splits)

lemma still_admissible: "admissible (\<lambda>n m. m)" and rev_permutes: "permutes_batches (\<lambda>n ids. rev ids)"
  by (simp_all add: admissible_def permutes_batches_def)

lemmas deployment_eval = sample_deployment_def new_deployment_manager_def default_deployment_config_def sample_region_def
  start_deployment_def get_active_regions_def get_all_regions_def is_available_def

lemma sample_start:
  "start_deployment [''a'', ''b''] (Some ''v2'') sample_deployment
     = (sample_deployment\<lparr>dp_target := Some ''v2'', dp_status := DeploymentInProgress\<rparr>, None)"
  by (simp add: deployment_eval)




theorem deployment_outcome_witness:
  "\<exists>m2. run_deployment \<lparr>co_prepare = (\<lambda>i v. Some ''down''), co_deploy = (\<lambda>i v. None), co_verify = (\<lambda>i v. None)\<rparr>
       (\<lambda>n m. m) (\<lambda>n ids. rev ids) 5 [''a'', ''b''] ''v2''
       (sample_deployment\<lparr>dp_target := Some ''v2'', dp_status := DeploymentInProgress\<rparr>) = Some m2
     \<and> dp_status m2 \<in> {DeploymentCompleted, DeploymentCancelled, DeploymentFailed}"
  using deployment_outcome [OF still_admissible sample_deployment_filed(2) sample_start,
      where co = "\<lparr>co_prepare = (\<lambda>i v. Some ''down''), co_deploy = (\<lambda>i v. None), co_verify = (\<lambda>i v. None)\<rparr>"
        and perm = "\<lambda>n ids. rev ids" and now = 5]
  by (auto simp: deployment_eval)

end
