(* ===== verification/GeoRouting.thy ===== *)
theory GeoRouting
  imports Float64 RegionDeployment
begin

text \<open>
  Routing of requests to regions, \<^verbatim>\<open>multiregion/routing.go\<close>: the regions with their metrics, rules, policies,
  sticky sessions and the seven strategies. \<^verbatim>\<open>RouteRequest\<close> takes and gives back the lock several times: \<open>route\<close>
  has whatever else happens to the router between these parts as an argument, and blocks where the code takes
  the read lock a second time while a writer waits; \<open>route_request\<close> is the call without any interference. The
  distance of a location, which the source computes with trigonometric functions, is an argument; the scores are floats
  that may become infinite or not a number. Each loop over a map has an order of its own. In the strategies a
  panic is \<open>None\<close>.
\<close>

section \<open>Floats with their special values\<close>

datatype xfloat = Fin rat | PosInf | NegInf | NaN

definition x_div :: "rat \<Rightarrow> rat \<Rightarrow> xfloat" where
  "x_div a b = (if b \<noteq> 0 then Fin (fl (a / b)) else if a = 0 then NaN else if 0 < a then PosInf else NegInf)"

fun x_from_one :: "xfloat \<Rightarrow> xfloat" where
  "x_from_one (Fin x) = Fin (fl (1 - x))"
| "x_from_one PosInf = NegInf"
| "x_from_one NegInf = PosInf"
| "x_from_one NaN = NaN"

fun x_scale :: "xfloat \<Rightarrow> rat \<Rightarrow> xfloat" where
  "x_scale (Fin x) w = Fin (fl (x * w))"
| "x_scale PosInf w = (if 0 < w then PosInf else if w = 0 then NaN else NegInf)"
| "x_scale NegInf w = (if 0 < w then NegInf else if w = 0 then NaN else PosInf)"
| "x_scale NaN w = NaN"

fun x_add :: "xfloat \<Rightarrow> xfloat \<Rightarrow> xfloat" where
  "x_add (Fin x) (Fin y) = Fin (fl (x + y))"
| "x_add NaN y = NaN"
| "x_add x NaN = NaN"
| "x_add (Fin x) y = y"
| "x_add x (Fin y) = x"
| "x_add PosInf PosInf = PosInf"
| "x_add NegInf NegInf = NegInf"
| "x_add PosInf NegInf = NaN"
| "x_add NegInf PosInf = NaN"

fun x_less :: "xfloat \<Rightarrow> xfloat \<Rightarrow> bool" where
  "x_less (Fin x) (Fin y) \<longleftrightarrow> x < y"
| "x_less NaN y \<longleftrightarrow> False"
| "x_less x NaN \<longleftrightarrow> False"
| "x_less x PosInf \<longleftrightarrow> x \<noteq> PosInf"
| "x_less NegInf y \<longleftrightarrow> y \<noteq> NegInf"
| "x_less x y \<longleftrightarrow> False"

section \<open>The router\<close>

datatype routing_strategy = RoutingGeoLatency | RoutingRoundRobin | RoutingWeighted | RoutingLeastLoad
  | RoutingFailover | RoutingLatencyBased | RoutingRandom | RoutingOther string

record routing_policy =
  rp_id :: string
  rp_strategy :: routing_strategy
  rp_enabled :: bool
  rp_conditions :: "string \<rightharpoonup> string"
  rp_created_at :: time
  rp_updated_at :: time

record routing_rule =
  ru_id :: string
  ru_priority :: int
  ru_conditions :: "string \<rightharpoonup> string"
  ru_target_region :: string
  ru_enabled :: bool
  ru_created_at :: time

record geo_location =
  gl_latitude :: rat
  gl_longitude :: rat
  gl_country :: string

record routing_request =
  rr_id :: string
  rr_geo_location :: "geo_location option"
  rr_service_type :: string
  rr_session_id :: string
  rr_user_id :: string

record routing_decision =
  rt_request_id :: string
  rt_selected_region :: string
  rt_strategy :: routing_strategy
  rt_latency :: int
  rt_reason :: string
  rt_alternatives :: "string list"
  rt_timestamp :: time
  rt_score :: xfloat

record region_metrics =
  me_region_id :: string
  me_latency :: int
  me_load :: int
  me_capacity :: int
  me_health_score :: int
  me_request_count :: int
  me_last_update :: time

record geo_routing_config =
  gc_default_strategy :: routing_strategy
  gc_health_check_enabled :: bool
  gc_min_health_score :: int
  gc_latency_weight :: rat
  gc_load_weight :: rat
  gc_health_weight :: rat
  gc_max_latency :: int
  gc_enable_sticky_session :: bool
  gc_session_ttl :: int

definition default_geo_routing_config :: geo_routing_config where
  "default_geo_routing_config = \<lparr>gc_default_strategy = RoutingGeoLatency, gc_health_check_enabled = True,
     gc_min_health_score = 70, gc_latency_weight = fl (1 / 2), gc_load_weight = fl (3 / 10), gc_health_weight = fl (1 / 5),
     gc_max_latency = 200 * 10 ^ 6, gc_enable_sticky_session = True, gc_session_ttl = 30 * 60 * second\<rparr>"

record geo_router =
  gr_config :: geo_routing_config
  gr_regions :: "string \<rightharpoonup> region"
  gr_metrics :: "string \<rightharpoonup> region_metrics"
  gr_policies :: "string \<rightharpoonup> routing_policy"
  gr_rules :: "string \<rightharpoonup> routing_rule"
  gr_sessions :: "string \<rightharpoonup> string"
  gr_decisions :: "routing_decision list"
  gr_queue :: "routing_decision list"

datatype routing_error = ErrNilArgument | ErrAlreadyRegistered | ErrNotFound | ErrNilRequest | ErrNoRegion

definition new_geo_router :: "geo_routing_config option \<Rightarrow> geo_router" where
  "new_geo_router config =
     \<lparr>gr_config = (case config of None \<Rightarrow> default_geo_routing_config | Some c \<Rightarrow> c), gr_regions = Map.empty,
      gr_metrics = Map.empty, gr_policies = Map.empty, gr_rules = Map.empty, gr_sessions = Map.empty,
      gr_decisions = [], gr_queue = []\<rparr>"

definition register_region :: "time \<Rightarrow> region option \<Rightarrow> geo_router \<Rightarrow> geo_router \<times> routing_error option" where
  "register_region now reg g =
     (case reg of
        None \<Rightarrow> (g, Some ErrNilArgument)
      | Some r \<Rightarrow>
          if gr_regions g (rg_id r) \<noteq> None then (g, Some ErrAlreadyRegistered)
          else (g\<lparr>gr_regions := (gr_regions g)(rg_id r \<mapsto> r),
                  gr_metrics := (gr_metrics g)(rg_id r \<mapsto> \<lparr>me_region_id = rg_id r, me_latency = 0, me_load = 0,
                    me_capacity = rg_capacity r, me_health_score = 0, me_request_count = 0, me_last_update = now\<rparr>)\<rparr>, None))"

definition unregister_region :: "string \<Rightarrow> geo_router \<Rightarrow> geo_router \<times> routing_error option" where
  "unregister_region i g =
     (if gr_regions g i = None then (g, Some ErrNotFound)
      else (g\<lparr>gr_regions := (gr_regions g)(i := None), gr_metrics := (gr_metrics g)(i := None)\<rparr>, None))"

definition add_routing_policy :: "time \<Rightarrow> routing_policy option \<Rightarrow> geo_router \<Rightarrow> geo_router \<times> routing_error option" where
  "add_routing_policy now policy g =
     (case policy of
        None \<Rightarrow> (g, Some ErrNilArgument)
      | Some p \<Rightarrow>
          if gr_policies g (rp_id p) \<noteq> None then (g, Some ErrAlreadyRegistered)
          else (g\<lparr>gr_policies := (gr_policies g)(rp_id p \<mapsto> p\<lparr>rp_created_at := now, rp_updated_at := now\<rparr>)\<rparr>, None))"

definition remove_routing_policy :: "string \<Rightarrow> geo_router \<Rightarrow> geo_router \<times> routing_error option" where
  "remove_routing_policy i g =
     (if gr_policies g i = None then (g, Some ErrNotFound) else (g\<lparr>gr_policies := (gr_policies g)(i := None)\<rparr>, None))"

definition add_routing_rule :: "time \<Rightarrow> routing_rule option \<Rightarrow> geo_router \<Rightarrow> geo_router \<times> routing_error option" where
  "add_routing_rule now rule g =
     (case rule of
        None \<Rightarrow> (g, Some ErrNilArgument)
      | Some r \<Rightarrow>
          if gr_rules g (ru_id r) \<noteq> None then (g, Some ErrAlreadyRegistered)
          else (g\<lparr>gr_rules := (gr_rules g)(ru_id r \<mapsto> r\<lparr>ru_created_at := now\<rparr>)\<rparr>, None))"

definition remove_routing_rule :: "string \<Rightarrow> geo_router \<Rightarrow> geo_router \<times> routing_error option" where
  "remove_routing_rule i g =
     (if gr_rules g i = None then (g, Some ErrNotFound) else (g\<lparr>gr_rules := (gr_rules g)(i := None)\<rparr>, None))"

definition update_region_metrics :: "time \<Rightarrow> string \<Rightarrow> region_metrics \<Rightarrow> geo_router \<Rightarrow> geo_router \<times> routing_error option" where
  "update_region_metrics now i me g =
     (if gr_regions g i = None then (g, Some ErrNotFound)
      else (g\<lparr>gr_metrics := (gr_metrics g)(i \<mapsto> me\<lparr>me_region_id := i, me_last_update := now\<rparr>)\<rparr>, None))"

definition get_region_metrics :: "string \<Rightarrow> geo_router \<Rightarrow> routing_error + region_metrics" where
  "get_region_metrics i g = (case gr_metrics g i of None \<Rightarrow> Inl ErrNotFound | Some me \<Rightarrow> Inr me)"

definition update_all_metrics :: "time \<Rightarrow> geo_router \<Rightarrow> geo_router" where
  "update_all_metrics now g = g\<lparr>gr_metrics := (\<lambda>i. case (gr_regions g i, gr_metrics g i) of
     (Some r, Some me) \<Rightarrow> Some (me\<lparr>me_load := rg_current_load r, me_health_score := rg_health_score r, me_last_update := now\<rparr>)
   | (_, me) \<Rightarrow> me)\<rparr>"

definition clear_sticky_sessions :: "geo_router \<Rightarrow> geo_router" where
  "clear_sticky_sessions g = g\<lparr>gr_sessions := Map.empty\<rparr>"

section \<open>Regions that can serve\<close>

definition is_region_available :: "geo_router \<Rightarrow> string \<Rightarrow> bool" where
  "is_region_available g i =
     (case gr_regions g i of
        None \<Rightarrow> False
      | Some r \<Rightarrow> rg_status r = RegionActive
          \<and> \<not> (gc_health_check_enabled (gr_config g) \<and> rg_health_score r < gc_min_health_score (gr_config g)))"

definition get_available_regions :: "string list \<Rightarrow> geo_router \<Rightarrow> string list" where
  "get_available_regions ks g = filter (is_region_available g) (map fst (visit ks (gr_regions g)))"

section \<open>The strategies\<close>

text \<open>A strategy gives a region, the empty string when it finds none, with its reason and a score.\<close>

type_synonym found_route = "string \<times> string \<times> xfloat"

definition no_route :: found_route where
  "no_route = ([], ''no_available_regions'', Fin 0)"

definition max_int64 :: int where
  "max_int64 = 2 ^ 63 - 1"

text \<open>The loop that keeps the region with the least value; a value that panics ends it.\<close>

fun least_value_loop :: "(string \<Rightarrow> int option) \<Rightarrow> string list \<Rightarrow> string \<times> int \<Rightarrow> (string \<times> int) option" where
  "least_value_loop f [] best = Some best"
| "least_value_loop f (i # ids) best =
     (case f i of None \<Rightarrow> None | Some x \<Rightarrow> least_value_loop f ids (if x < snd best then (i, x) else best))"

definition route_by_latency :: "string list \<Rightarrow> geo_router \<Rightarrow> found_route option" where
  "route_by_latency ks g =
     map_option (\<lambda>(i, l). if i = [] then no_route
         else (i, ''latency_based'', x_from_one (x_div (fl (of_int l)) (fl (of_int (gc_max_latency (gr_config g)))))))
       (least_value_loop (\<lambda>i. map_option me_latency (gr_metrics g i))
         (filter (is_region_available g) (map fst (visit ks (gr_metrics g)))) ([], max_int64))"

definition calculate_region_score :: "(geo_location \<Rightarrow> xfloat) \<Rightarrow> geo_location \<Rightarrow> geo_routing_config \<Rightarrow> region \<Rightarrow> region_metrics \<Rightarrow> xfloat" where
  "calculate_region_score distance loc c r me =
     (let distance_score = x_from_one (case distance loc of Fin d \<Rightarrow> Fin (fl (d / 20000)) | d \<Rightarrow> d);
          load_score = x_from_one (x_div (fl (of_int (me_load me))) (fl (of_int (rg_capacity r))));
          health_score = Fin (fl (fl (of_int (rg_health_score r)) / 100));
          latency_score = x_from_one (x_div (fl (of_int (me_latency me))) (fl (of_int (gc_max_latency c))));
          latency_score = (if x_less latency_score (Fin 0) then Fin 0 else latency_score)
      in x_add (x_add (x_add (x_scale distance_score (gc_latency_weight c)) (x_scale load_score (gc_load_weight c)))
           (x_scale health_score (gc_health_weight c))) (x_scale latency_score (fl (1 / 5))))"

definition best_score :: "(string \<times> xfloat) list \<Rightarrow> string \<times> xfloat" where
  "best_score scores = foldl (\<lambda>best s. if x_less (snd best) (snd s) then s else best) (hd scores) scores"

text \<open>Reading the metrics of a region that has none panics.\<close>

definition region_scores :: "(geo_location \<Rightarrow> xfloat) \<Rightarrow> geo_location \<Rightarrow> string list \<Rightarrow> geo_router \<Rightarrow> (string \<times> xfloat) list option" where
  "region_scores distance loc ks g =
     those (map (\<lambda>i. case (gr_regions g i, gr_metrics g i) of
         (Some r, Some me) \<Rightarrow> Some (i, calculate_region_score distance loc (gr_config g) r me)
       | _ \<Rightarrow> None) (get_available_regions ks g))"

definition route_by_geo_latency :: "(geo_location \<Rightarrow> xfloat) \<Rightarrow> routing_request \<Rightarrow> string list \<Rightarrow> geo_router \<Rightarrow> found_route option" where
  "route_by_geo_latency distance request ks g =
     (case rr_geo_location request of
        None \<Rightarrow> route_by_latency ks g
      | Some loc \<Rightarrow>
          (case region_scores distance loc ks g of
             None \<Rightarrow> None
           | Some scores \<Rightarrow>
               if scores = [] then Some no_route
               else case best_score scores of (i, score) \<Rightarrow> Some (i, ''geo_latency'', score)))"

definition route_first :: "string \<Rightarrow> string list \<Rightarrow> geo_router \<Rightarrow> found_route" where
  "route_first reason ks g =
     (case get_available_regions ks g of [] \<Rightarrow> no_route | i # ids \<Rightarrow> (i, reason, Fin 1))"

definition route_round_robin :: "string list \<Rightarrow> geo_router \<Rightarrow> found_route" where
  "route_round_robin ks g = route_first ''round_robin'' ks g"

definition route_random :: "string list \<Rightarrow> geo_router \<Rightarrow> found_route" where
  "route_random ks g = route_first ''random'' ks g"

definition priority_of :: "geo_router \<Rightarrow> string \<Rightarrow> int" where
  "priority_of g i = (case gr_regions g i of None \<Rightarrow> 0 | Some r \<Rightarrow> rg_priority r)"

definition route_weighted :: "string list \<Rightarrow> geo_router \<Rightarrow> found_route" where
  "route_weighted ks g =
     (case get_available_regions ks g of
        [] \<Rightarrow> no_route
      | i # ids \<Rightarrow>
          let total = foldl (\<lambda>n j. i64 (n + priority_of g j)) 0 (i # ids)
          in if total = 0 then (i, ''weighted'', Fin 1)
             else (i, ''weighted'', x_div (fl (of_int (priority_of g i))) (fl (of_int total))))"

definition load_percentage :: "region \<Rightarrow> int option" where
  "load_percentage r = (if rg_capacity r = 0 then None else Some (i64 (go_div (i64 (rg_current_load r * 100)) (rg_capacity r))))"

definition route_least_load :: "string list \<Rightarrow> geo_router \<Rightarrow> found_route option" where
  "route_least_load ks g =
     map_option (\<lambda>(i, l). if i = [] then no_route
         else (i, ''least_load'', x_from_one (Fin (fl (fl (of_int l) / 100)))))
       (least_value_loop (\<lambda>i. Option.bind (gr_regions g i) load_percentage) (get_available_regions ks g) ([], max_int64))"

definition route_failover :: "string list \<Rightarrow> string list \<Rightarrow> geo_router \<Rightarrow> found_route" where
  "route_failover ks js g =
     (case filter (\<lambda>i. priority_of g i = 100) (get_available_regions ks g) of
        i # ids \<Rightarrow> (i, ''failover_primary'', Fin 1)
      | [] \<Rightarrow> (case get_available_regions js g of
           i # ids \<Rightarrow> (i, ''failover_secondary'', Fin (fl (4 / 5)))
         | [] \<Rightarrow> no_route))"

section \<open>Routing a request\<close>

text \<open>
  The loops over maps, each with its order: the rules, the policies, and the regions, over which a strategy runs
  twice for a failover, a matching policy once more than the default, and the alternatives of the decision once.
\<close>

record route_orders =
  ro_rules :: "string list"
  ro_policies :: "string list"
  ro_regions :: "nat \<Rightarrow> string list"

definition route_by_strategy :: "(geo_location \<Rightarrow> xfloat) \<Rightarrow> routing_request \<Rightarrow> string list \<Rightarrow> string list \<Rightarrow> geo_router \<Rightarrow> found_route option" where
  "route_by_strategy distance request ks js g =
     (case gc_default_strategy (gr_config g) of
        RoutingGeoLatency \<Rightarrow> route_by_geo_latency distance request ks g
      | RoutingRoundRobin \<Rightarrow> Some (route_round_robin ks g)
      | RoutingWeighted \<Rightarrow> Some (route_weighted ks g)
      | RoutingLeastLoad \<Rightarrow> route_least_load ks g
      | RoutingFailover \<Rightarrow> Some (route_failover ks js g)
      | RoutingLatencyBased \<Rightarrow> route_by_latency ks g
      | RoutingRandom \<Rightarrow> Some (route_random ks g)
      | RoutingOther _ \<Rightarrow> route_by_geo_latency distance request ks g)"

text \<open>Three keys of the conditions are looked at, any other is ignored.\<close>

definition matches_conditions :: "routing_request \<Rightarrow> (string \<rightharpoonup> string) \<Rightarrow> bool" where
  "matches_conditions request conds \<longleftrightarrow>
     (case conds ''country'' of None \<Rightarrow> True
      | Some v \<Rightarrow> (case rr_geo_location request of None \<Rightarrow> False | Some loc \<Rightarrow> gl_country loc = v))
     \<and> (case conds ''service_type'' of None \<Rightarrow> True | Some v \<Rightarrow> rr_service_type request = v)
     \<and> (case conds ''user_id'' of None \<Rightarrow> True | Some v \<Rightarrow> rr_user_id request = v)"

definition apply_routing_rules :: "routing_request \<Rightarrow> string list \<Rightarrow> geo_router \<Rightarrow> string" where
  "apply_routing_rules request ks g =
     (case find (\<lambda>(i, r). ru_enabled r \<and> matches_conditions request (ru_conditions r)) (visit ks (gr_rules g)) of
        None \<Rightarrow> [] | Some (i, r) \<Rightarrow> ru_target_region r)"

definition apply_routing_policies :: "(geo_location \<Rightarrow> xfloat) \<Rightarrow> routing_request \<Rightarrow> route_orders \<Rightarrow> geo_router \<Rightarrow> string option" where
  "apply_routing_policies distance request os g =
     (case find (\<lambda>(i, p). rp_enabled p \<and> matches_conditions request (rp_conditions p)) (visit (ro_policies os) (gr_policies g)) of
        None \<Rightarrow> Some []
      | Some (i, p) \<Rightarrow> map_option fst (route_by_strategy distance request (ro_regions os 0) (ro_regions os 1) g))"

definition create_decision :: "time \<Rightarrow> string list \<Rightarrow> routing_request \<Rightarrow> string \<Rightarrow> string \<Rightarrow> xfloat \<Rightarrow> geo_router \<Rightarrow> routing_decision" where
  "create_decision now ks request i reason score g =
     \<lparr>rt_request_id = rr_id request, rt_selected_region = i, rt_strategy = gc_default_strategy (gr_config g),
      rt_latency = (case gr_metrics g i of None \<Rightarrow> 0 | Some me \<Rightarrow> me_latency me), rt_reason = reason,
      rt_alternatives = get_available_regions ks g, rt_timestamp = now, rt_score = score\<rparr>"

definition record_decision :: "routing_decision \<Rightarrow> geo_router \<Rightarrow> geo_router" where
  "record_decision d g =
     (let ds = gr_decisions g @ [d]
      in g\<lparr>gr_decisions := (if 1000 < length ds then drop (length ds - 1000) ds else ds),
           gr_queue := (if length (gr_queue g) < 1000 then gr_queue g @ [d] else gr_queue g)\<rparr>)"

definition set_sticky_session :: "string \<Rightarrow> string \<Rightarrow> geo_router \<Rightarrow> geo_router" where
  "set_sticky_session sid i g = g\<lparr>gr_sessions := (gr_sessions g)(sid \<mapsto> i)\<rparr>"

text \<open>The session is looked up in one part, its region is checked in the next, for which the router may be another one.\<close>

definition sticky_region :: "routing_request \<Rightarrow> geo_router \<Rightarrow> geo_router \<Rightarrow> string option" where
  "sticky_region request g g1 =
     (if gc_enable_sticky_session (gr_config g) \<and> rr_session_id request \<noteq> []
      then (case gr_sessions g (rr_session_id request) of
              None \<Rightarrow> None | Some i \<Rightarrow> if is_region_available g1 i then Some i else None)
      else None)"

text \<open>
  \<open>env k\<close> is what others do to the router before the part \<open>k\<close>, and \<open>seen env k\<close> what that part finds: 0 and 1 are those of
  the sticky session, 2 the rules, 3 the policies, 4 the default strategy, 5 the alternatives and the metrics
  of the decision, 6 the new sticky session and 7 the record of the decision. The parts 0 to 5 write nothing.
\<close>

fun seen :: "(nat \<Rightarrow> geo_router \<Rightarrow> geo_router) \<Rightarrow> nat \<Rightarrow> geo_router \<Rightarrow> geo_router" where
  "seen env 0 g = env 0 g"
| "seen env (Suc k) g = env (Suc k) (seen env k g)"

text \<open>
  A matching policy runs the strategy under the read lock, which the strategy takes again. \<^verbatim>\<open>routeByGeoLatency\<close> calls
  \<^verbatim>\<open>routeByLatency\<close> for a request without a location, which takes it once more. When a writer waits at that
  moment (\<open>waiting\<close>), neither can go on.
\<close>

datatype 'a routing_run = Blocks | Panics | Done 'a

definition locks_twice :: "routing_request \<Rightarrow> geo_router \<Rightarrow> bool" where
  "locks_twice request g \<longleftrightarrow> rr_geo_location request = None
     \<and> (case gc_default_strategy (gr_config g) of RoutingGeoLatency \<Rightarrow> True | RoutingOther _ \<Rightarrow> True | _ \<Rightarrow> False)"

definition matching_policy :: "routing_request \<Rightarrow> geo_router \<Rightarrow> bool" where
  "matching_policy request g \<longleftrightarrow> (\<exists>p\<in>ran (gr_policies g). rp_enabled p \<and> matches_conditions request (rp_conditions p))"

definition run_policies :: "(nat \<Rightarrow> bool) \<Rightarrow> (geo_location \<Rightarrow> xfloat) \<Rightarrow> routing_request \<Rightarrow> route_orders \<Rightarrow> geo_router
    \<Rightarrow> string routing_run" where
  "run_policies waiting distance request os g =
     (if find (\<lambda>(i, p). rp_enabled p \<and> matches_conditions request (rp_conditions p)) (visit (ro_policies os) (gr_policies g)) \<noteq> None
         \<and> (waiting 0 \<or> locks_twice request g \<and> waiting 1)
      then Blocks else case apply_routing_policies distance request os g of None \<Rightarrow> Panics | Some i \<Rightarrow> Done i)"

definition run_strategy :: "(nat \<Rightarrow> bool) \<Rightarrow> (geo_location \<Rightarrow> xfloat) \<Rightarrow> routing_request \<Rightarrow> route_orders \<Rightarrow> geo_router
    \<Rightarrow> found_route routing_run" where
  "run_strategy waiting distance request os g =
     (if locks_twice request g \<and> waiting 2 then Blocks
      else case route_by_strategy distance request (ro_regions os 2) (ro_regions os 3) g of None \<Rightarrow> Panics | Some rt \<Rightarrow> Done rt)"

definition route :: "(nat \<Rightarrow> geo_router \<Rightarrow> geo_router) \<Rightarrow> (nat \<Rightarrow> bool) \<Rightarrow> (geo_location \<Rightarrow> xfloat) \<Rightarrow> route_orders \<Rightarrow> time
    \<Rightarrow> routing_request option \<Rightarrow> geo_router \<Rightarrow> (geo_router \<times> (routing_error + routing_decision)) routing_run" where
  "route env waiting distance os now req g =
     (case req of
        None \<Rightarrow> Done (g, Inl ErrNilRequest)
      | Some request \<Rightarrow>
          let decide = (\<lambda>i reason score. create_decision now (ro_regions os 4) request i reason score (seen env 5 g))
          in case sticky_region request (seen env 0 g) (seen env 1 g) of
               Some i \<Rightarrow> Done (seen env 5 g, Inr (decide i ''sticky_session'' (Fin 1)))
             | None \<Rightarrow>
                 let rule = apply_routing_rules request (ro_rules os) (seen env 2 g)
                 in if rule \<noteq> [] then Done (seen env 5 g, Inr (decide rule ''custom_rule'' (Fin 1)))
                    else case run_policies waiting distance request os (seen env 3 g) of
                      Blocks \<Rightarrow> Blocks
                    | Panics \<Rightarrow> Panics
                    | Done policy \<Rightarrow>
                        if policy \<noteq> [] then Done (seen env 5 g, Inr (decide policy ''policy'' (Fin 1)))
                        else (case run_strategy waiting distance request os (seen env 4 g) of
                          Blocks \<Rightarrow> Blocks
                        | Panics \<Rightarrow> Panics
                        | Done (i, reason, score) \<Rightarrow>
                            if i = [] then Done (seen env 4 g, Inl ErrNoRegion)
                            else let d = decide i reason score;
                                     g = seen env 6 g;
                                     g = (if gc_enable_sticky_session (gr_config g) \<and> rr_session_id request \<noteq> []
                                          then set_sticky_session (rr_session_id request) i g else g)
                                 in Done (record_decision d (env 7 g), Inr d)))"

text \<open>A call of \<^verbatim>\<open>RouteRequest\<close> while nothing else uses the router; \<open>None\<close> is a panic.\<close>

definition route_request :: "(geo_location \<Rightarrow> xfloat) \<Rightarrow> route_orders \<Rightarrow> time \<Rightarrow> routing_request option \<Rightarrow> geo_router
    \<Rightarrow> (geo_router \<times> (routing_error + routing_decision)) option" where
  "route_request distance os now req g =
     (case route (\<lambda>k g. g) (\<lambda>k. False) distance os now req g of Done r \<Rightarrow> Some r | _ \<Rightarrow> None)"

lemma seen_alone [simp]: "seen (\<lambda>k g. g) k g = g"
  by (induction k) simp_all

lemma route_request_eq:
  "route_request distance os now req g =
     (case req of
        None \<Rightarrow> Some (g, Inl ErrNilRequest)
      | Some request \<Rightarrow>
          let decide = (\<lambda>i reason score. create_decision now (ro_regions os 4) request i reason score g)
          in case sticky_region request g g of
               Some i \<Rightarrow> Some (g, Inr (decide i ''sticky_session'' (Fin 1)))
             | None \<Rightarrow>
                 let rule = apply_routing_rules request (ro_rules os) g
                 in if rule \<noteq> [] then Some (g, Inr (decide rule ''custom_rule'' (Fin 1)))
                    else case apply_routing_policies distance request os g of
                      None \<Rightarrow> None
                    | Some policy \<Rightarrow>
                        if policy \<noteq> [] then Some (g, Inr (decide policy ''policy'' (Fin 1)))
                        else (case route_by_strategy distance request (ro_regions os 2) (ro_regions os 3) g of
                          None \<Rightarrow> None
                        | Some (i, reason, score) \<Rightarrow>
                            if i = [] then Some (g, Inl ErrNoRegion)
                            else let d = decide i reason score;
                                     g = (if gc_enable_sticky_session (gr_config g) \<and> rr_session_id request \<noteq> []
                                          then set_sticky_session (rr_session_id request) i g else g)
                                 in Some (record_decision d g, Inr d)))"
  unfolding route_request_def route_def run_policies_def run_strategy_def seen_alone
  by (cases req) (auto simp: Let_def split: option.split prod.split)

definition get_routing_decisions :: "int \<Rightarrow> geo_router \<Rightarrow> routing_decision list" where
  "get_routing_decisions limit g =
     (let n = length (gr_decisions g); k = (if limit \<le> 0 \<or> int n < limit then n else nat limit)
      in drop (n - k) (gr_decisions g))"

record routing_stats =
  gs_total_regions :: int
  gs_active_regions :: int
  gs_healthy_regions :: int
  gs_total_requests :: int
  gs_average_latency :: int
  gs_total_decisions :: int

definition get_routing_stats :: "string list \<Rightarrow> geo_router \<Rightarrow> routing_stats" where
  "get_routing_stats ks g =
     (let rs = visit ks (gr_regions g);
          ms = List.map_filter (\<lambda>(i, r). gr_metrics g i) rs;
          total = foldl (\<lambda>d me. i64 (d + me_latency me)) 0 ms
      in \<lparr>gs_total_regions = int (length rs),
          gs_active_regions = int (length (filter (\<lambda>(i, r). rg_status r = RegionActive) rs)),
          gs_healthy_regions = int (length (filter (\<lambda>(i, r). gc_min_health_score (gr_config g) \<le> rg_health_score r) rs)),
          gs_total_requests = foldl (\<lambda>n me. i64 (n + me_request_count me)) 0 ms,
          gs_average_latency = (if rs = [] then total else go_div total (int (length rs))),
          gs_total_decisions = int (length (gr_decisions g))\<rparr>)"

section \<open>The state of a router\<close>

text \<open>Regions are filed under their ids, the regions are those with metrics, and at most 1000 decisions are kept.\<close>

definition filed :: "(string \<rightharpoonup> region) \<Rightarrow> bool" where
  "filed rs \<longleftrightarrow> (\<forall>i r. rs i = Some r \<longrightarrow> rg_id r = i)"

lemma filed_empty [simp]: "filed Map.empty"
  by (simp add: filed_def)

lemma filed_delete [simp]: "filed rs \<Longrightarrow> filed (rs(i := None))"
  by (simp add: filed_def)

lemma filed_put [simp]: "filed rs \<Longrightarrow> rg_id r = i \<Longrightarrow> filed (rs(i \<mapsto> r))"
  by (simp add: filed_def)

definition router_ok :: "geo_router \<Rightarrow> bool" where
  "router_ok g \<longleftrightarrow> filed (gr_regions g)
     \<and> (\<forall>i. (gr_metrics g i = None) = (gr_regions g i = None))
     \<and> length (gr_decisions g) \<le> 1000 \<and> length (gr_queue g) \<le> 1000"

lemma new_geo_router_ok: "router_ok (new_geo_router config)"
  by (simp add: router_ok_def new_geo_router_def)

lemma record_decision_ok: "router_ok g \<Longrightarrow> router_ok (record_decision d g)"
  by (simp add: router_ok_def record_decision_def Let_def)

lemma set_sticky_session_ok [simp]: "router_ok (set_sticky_session sid i g) = router_ok g"
  by (simp add: router_ok_def set_sticky_session_def)

text \<open>What is done to the router and its regions; the last steps are those of \<^verbatim>\<open>RouteRequest\<close>.\<close>

inductive router_step :: "geo_router \<Rightarrow> geo_router \<Rightarrow> bool" where
  register: "register_region now reg g = (g', err) \<Longrightarrow> router_step g g'"
| unregister: "unregister_region i g = (g', err) \<Longrightarrow> router_step g g'"
| add_policy: "add_routing_policy now p g = (g', err) \<Longrightarrow> router_step g g'"
| remove_policy: "remove_routing_policy i g = (g', err) \<Longrightarrow> router_step g g'"
| add_rule: "add_routing_rule now r g = (g', err) \<Longrightarrow> router_step g g'"
| remove_rule: "remove_routing_rule i g = (g', err) \<Longrightarrow> router_step g g'"
| metrics: "update_region_metrics now i me g = (g', err) \<Longrightarrow> router_step g g'"
| tick: "router_step g (update_all_metrics now g)"
| clear: "router_step g (clear_sticky_sessions g)"
| region: "gr_regions g i = Some r \<Longrightarrow> rg_id r' = i \<Longrightarrow> router_step g (g\<lparr>gr_regions := (gr_regions g)(i \<mapsto> r')\<rparr>)"
| sticky: "router_step g (set_sticky_session sid i g)"
| recorded: "router_step g (record_decision d g)"

lemmas router_steps = register_region_def unregister_region_def add_routing_policy_def remove_routing_policy_def
  add_routing_rule_def remove_routing_rule_def update_region_metrics_def

lemma router_step_ok: "router_step g g' \<Longrightarrow> router_ok g \<Longrightarrow> router_ok g'"
proof (induction rule: router_step.induct)
  case recorded
  then show ?case by (simp add: record_decision_ok)
next
  case sticky
  then show ?case by simp
next
  case (tick g now)
  have "(case (gr_regions g i, gr_metrics g i) of (Some r, Some me) \<Rightarrow> Some (f r me) | (_, me) \<Rightarrow> me) = None
      \<longleftrightarrow> gr_metrics g i = None" for i and f :: "region \<Rightarrow> region_metrics \<Rightarrow> region_metrics"
    by (cases "gr_regions g i"; cases "gr_metrics g i") simp_all
  with tick show ?case
    by (simp add: router_ok_def update_all_metrics_def)
next
  case (register now reg g g' err)
  then show ?case by (cases reg) (auto simp: router_steps router_ok_def split: if_splits)
next
  case (add_policy now p g g' err)
  then show ?case by (cases p) (auto simp: router_steps router_ok_def split: if_splits)
next
  case (add_rule now r g g' err)
  then show ?case by (cases r) (auto simp: router_steps router_ok_def split: if_splits)
next
  case (region g i r r')
  then have "gr_metrics g i \<noteq> None" by (simp add: router_ok_def)
  with region show ?case by (simp add: router_ok_def)
qed (auto simp: router_steps router_ok_def clear_sticky_sessions_def split: if_splits)

lemma router_steps_ok: "router_step\<^sup>*\<^sup>* g g' \<Longrightarrow> router_ok g \<Longrightarrow> router_ok g'"
  by (induction rule: rtranclp_induct) (auto simp: router_step_ok)

lemma router_reachable_ok: "router_step\<^sup>*\<^sup>* (new_geo_router config) g \<Longrightarrow> router_ok g"
  by (erule router_steps_ok) (rule new_geo_router_ok)

lemma router_step_config: "router_step g g' \<Longrightarrow> gr_config g' = gr_config g"
  by (induction rule: router_step.induct)
    (auto simp: router_steps update_all_metrics_def clear_sticky_sessions_def set_sticky_session_def record_decision_def Let_def
      split: option.splits if_splits)

lemma router_steps_config: "router_step\<^sup>*\<^sup>* g g' \<Longrightarrow> gr_config g' = gr_config g"
  by (induction rule: rtranclp_induct) (auto simp: router_step_config)

definition interference :: "(nat \<Rightarrow> geo_router \<Rightarrow> geo_router) \<Rightarrow> bool" where
  "interference env \<longleftrightarrow> (\<forall>k g. router_step\<^sup>*\<^sup>* g (env k g))"

lemma seen_steps: "interference env \<Longrightarrow> router_step\<^sup>*\<^sup>* g (seen env k g)"
  by (induction k) (auto simp: interference_def intro: rtranclp_trans)

text \<open>A call is a run of such steps itself, with those of the others in between.\<close>

lemma route_steps:
  assumes "interference env" "route env waiting distance os now req g = Done (g', res)"
  shows "router_step\<^sup>*\<^sup>* g g'"
proof -
  note s = seen_steps [OF assms(1), of g]
  have last: "router_step\<^sup>*\<^sup>* g (record_decision d (env 7 h))" if "router_step\<^sup>*\<^sup>* g h" for d h
    using that assms(1) recorded [of "env 7 h" d] unfolding interference_def by (meson rtranclp.rtrancl_into_rtrancl rtranclp_trans)
  have set: "router_step\<^sup>*\<^sup>* g (set_sticky_session sid i (seen env 6 g))" for sid i
    using s [of 6] sticky by (rule rtranclp.rtrancl_into_rtrancl)
  show ?thesis
    using assms(2) s last set
    by (auto simp: route_def Let_def split: option.splits if_splits routing_run.splits)
qed

section \<open>The loops of the strategies\<close>

lemma least_value_loop_total: "(\<And>i. i \<in> set ids \<Longrightarrow> f i \<noteq> None) \<Longrightarrow> least_value_loop f ids best \<noteq> None"
  by (induction f ids best rule: least_value_loop.induct) (auto split: option.split)

lemma least_value_loop_result: "least_value_loop f ids best = Some (i, x) \<Longrightarrow> (i, x) = best \<or> i \<in> set ids \<and> f i = Some x"
  by (induction f ids best rule: least_value_loop.induct) (auto split: option.splits if_splits)

lemma least_value_loop_least:
  "least_value_loop f ids best = Some (i, x) \<Longrightarrow> x \<le> snd best \<and> (\<forall>j y. j \<in> set ids \<longrightarrow> f j = Some y \<longrightarrow> x \<le> y)"
proof (induction f ids best rule: least_value_loop.induct)
  case (2 f j ids best)
  then show ?case by (fastforce split: option.splits if_splits)
qed auto

lemma least_value_loop_chooses:
  assumes "\<And>i. i \<in> set ids \<Longrightarrow> \<exists>x. f i = Some x \<and> x < m" "ids \<noteq> []"
  shows "\<exists>i x. least_value_loop f ids ([], m) = Some (i, x) \<and> i \<in> set ids \<and> f i = Some x"
proof -
  obtain i x where r: "least_value_loop f ids ([], m) = Some (i, x)"
    using least_value_loop_total [of ids f "([], m)"] assms(1) by fastforce
  obtain y where "f (hd ids) = Some y" "y < m"
    using assms(1) [of "hd ids"] assms(2) by auto
  moreover have "hd ids \<in> set ids"
    using assms(2) by simp
  ultimately have "x < m"
    using least_value_loop_least [OF r] by force
  then show ?thesis
    using least_value_loop_result [OF r] r by auto
qed

lemma those_map_Some: "(\<And>i. i \<in> set xs \<Longrightarrow> f i = Some (h i)) \<Longrightarrow> those (map f xs) = Some (map h xs)"
  by (induction xs) auto

lemma foldl_best_in: "foldl (\<lambda>b s. if x_less (snd b) (snd s) then s else b) b xs \<in> insert b (set xs)"
  by (induction xs arbitrary: b) auto

lemma best_score_in: "scores \<noteq> [] \<Longrightarrow> best_score scores \<in> set scores"
  using foldl_best_in [of "hd scores" scores] by (auto simp: best_score_def)

lemma x_less_irrefl [simp]: "\<not> x_less a a"
  by (cases a) auto

lemma x_less_asym: "x_less a b \<Longrightarrow> \<not> x_less b a"
  by (cases a; cases b) auto

lemma x_ge_trans: "\<not> x_less a b \<Longrightarrow> \<not> x_less b c \<Longrightarrow> b \<noteq> NaN \<Longrightarrow> \<not> x_less a c"
  by (cases a; cases b; cases c) auto

lemma foldl_best:
  assumes "snd b \<noteq> NaN" "\<And>t. t \<in> set xs \<Longrightarrow> snd t \<noteq> NaN" "t = b \<or> t \<in> set xs"
  shows "\<not> x_less (snd (foldl (\<lambda>b s. if x_less (snd b) (snd s) then s else b) b xs)) (snd t)"
  using assms
proof (induction xs arbitrary: b t)
  case (Cons s xs)
  define b' where "b' = (if x_less (snd b) (snd s) then s else b)"
  have n: "snd b' \<noteq> NaN"
    using Cons.prems(1,2) by (simp add: b'_def)
  have ge: "\<not> x_less (snd b') (snd b)" "\<not> x_less (snd b') (snd s)"
    by (auto simp: b'_def x_less_asym)
  have IH: "\<not> x_less (snd (foldl (\<lambda>b s. if x_less (snd b) (snd s) then s else b) b' xs)) (snd u)"
    if "u = b' \<or> u \<in> set xs" for u
    using Cons.IH [OF n _ that] Cons.prems(2) by simp
  have "\<not> x_less (snd (foldl (\<lambda>b s. if x_less (snd b) (snd s) then s else b) b' xs)) (snd t)"
    using Cons.prems(3) IH [of t] x_ge_trans [OF IH [of b'] ge(1) n] x_ge_trans [OF IH [of b'] ge(2) n] by auto
  then show ?case
    by (simp add: b'_def)
qed simp

lemma best_score_best:
  assumes "\<And>s. s \<in> set scores \<Longrightarrow> snd s \<noteq> NaN" "t \<in> set scores"
  shows "\<not> x_less (snd (best_score scores)) (snd t)"
proof -
  have "hd scores \<in> set scores"
    using assms(2) by (cases scores) auto
  then show ?thesis
    unfolding best_score_def by (intro foldl_best) (use assms in auto)
qed

section \<open>A strategy finds a region that can serve\<close>

text \<open>
  What a router must not contain for that: a region without an id, a capacity of zero or less, or the largest
  latency.
\<close>

definition servable :: "geo_router \<Rightarrow> bool" where
  "servable g \<longleftrightarrow> gr_regions g [] = None
     \<and> (\<forall>i r. gr_regions g i = Some r \<longrightarrow> 0 < rg_capacity r)
     \<and> (\<forall>i me. gr_metrics g i = Some me \<longrightarrow> me_latency me < max_int64)"

definition available_regions :: "geo_router \<Rightarrow> string set" where
  "available_regions g = {i. is_region_available g i}"

lemma available_registered: "is_region_available g i \<Longrightarrow> \<exists>r. gr_regions g i = Some r"
  by (auto simp: is_region_available_def split: option.splits)

lemma available_nonempty: "servable g \<Longrightarrow> is_region_available g i \<Longrightarrow> i \<noteq> []"
  by (auto simp: servable_def dest: available_registered)

lemma set_get_available [simp]: "covers ks (gr_regions g) \<Longrightarrow> set (get_available_regions ks g) = available_regions g"
  by (auto simp: get_available_regions_def available_regions_def visit_keys covers_def dest: available_registered)

lemma get_available_sound: "i \<in> set (get_available_regions ks g) \<Longrightarrow> is_region_available g i"
  by (simp add: get_available_regions_def)

lemma i64_even: "even x \<Longrightarrow> even (i64 x)"
  by (simp add: i64_def dvd_mod)

lemma int_div_le_self: "0 \<le> (y :: int) \<Longrightarrow> 0 < c \<Longrightarrow> y div c \<le> y"
  using zdiv_mono2 [of y 1 c] by simp

lemma load_percentage_bound:
  assumes "0 < rg_capacity r"
  shows "\<exists>x. load_percentage r = Some x \<and> x < max_int64"
proof -
  define y where "y = i64 (rg_current_load r * 100)"
  have "even y"
    unfolding y_def by (rule i64_even) simp
  then have y: "y < max_int64" "- (2 ^ 63) \<le> y"
    using i64_bounds [of "rg_current_load r * 100"] unfolding y_def [symmetric] max_int64_def
    by (cases "y = 2 ^ 63 - 1"; simp)+
  have "go_div y (rg_capacity r) < max_int64 \<and> - (2 ^ 63) \<le> go_div y (rg_capacity r)"
  proof (cases "0 \<le> y")
    case True
    then have "go_div y (rg_capacity r) = y div rg_capacity r" "y div rg_capacity r \<le> y" "0 \<le> y div rg_capacity r"
      using assms by (simp_all add: go_div_nonneg int_div_le_self pos_imp_zdiv_nonneg_iff)
    then show ?thesis using y by simp
  next
    case False
    then have "go_div y (rg_capacity r) = - ((- y) div rg_capacity r)" "(- y) div rg_capacity r \<le> - y" "0 \<le> (- y) div rg_capacity r"
      using assms by (simp_all add: go_div_def int_div_le_self pos_imp_zdiv_nonneg_iff)
    then show ?thesis using y by (simp add: max_int64_def)
  qed
  then show ?thesis
    using assms i64_le [of "go_div y (rg_capacity r)"] by (auto simp: load_percentage_def y_def)
qed

text \<open>What every strategy is about: the region found can serve, and one is found when there is one.\<close>

definition finds :: "geo_router \<Rightarrow> found_route \<Rightarrow> bool" where
  "finds g rt \<longleftrightarrow> (if available_regions g = {} then fst rt = [] else fst rt \<in> available_regions g)"

lemma finds_no_route: "available_regions g = {} \<Longrightarrow> finds g no_route"
  by (simp add: finds_def no_route_def)

lemma route_first_finds: "covers ks (gr_regions g) \<Longrightarrow> finds g (route_first reason ks g)"
  unfolding finds_def set_get_available [symmetric]
  by (auto simp del: set_get_available simp: route_first_def no_route_def split: list.split)

lemma route_weighted_finds: "covers ks (gr_regions g) \<Longrightarrow> finds g (route_weighted ks g)"
  unfolding finds_def set_get_available [symmetric]
  by (auto simp del: set_get_available simp: route_weighted_def no_route_def Let_def split: list.split)

lemma route_failover_finds:
  assumes "covers ks (gr_regions g)" "covers js (gr_regions g)"
  shows "finds g (route_failover ks js g)"
proof (cases "filter (\<lambda>i. priority_of g i = 100) (get_available_regions ks g)")
  case Nil
  then show ?thesis
    unfolding finds_def set_get_available [OF assms(2), symmetric]
    by (auto simp del: set_get_available simp: route_failover_def no_route_def split: list.split)
next
  case (Cons i ids)
  then have "i \<in> available_regions g"
    using set_get_available [OF assms(1)] by (metis filter_eq_ConsD in_set_conv_decomp)
  then show ?thesis
    using Cons by (auto simp: route_failover_def finds_def)
qed

lemma route_least_load_finds:
  assumes "covers ks (gr_regions g)" "servable g"
  shows "\<exists>rt. route_least_load ks g = Some rt \<and> finds g rt"
proof (cases "get_available_regions ks g = []")
  case True
  then show ?thesis
    using set_get_available [OF assms(1)] by (simp add: route_least_load_def finds_no_route)
next
  case False
  have "\<And>i. i \<in> set (get_available_regions ks g) \<Longrightarrow> \<exists>x. Option.bind (gr_regions g i) load_percentage = Some x \<and> x < max_int64"
    using available_registered [OF get_available_sound] assms(2) load_percentage_bound
    by (force simp: servable_def)
  from least_value_loop_chooses [where f = "\<lambda>i. Option.bind (gr_regions g i) load_percentage", OF this False] obtain i x where
    r: "least_value_loop (\<lambda>i. Option.bind (gr_regions g i) load_percentage) (get_available_regions ks g) ([], max_int64) = Some (i, x)"
      "i \<in> set (get_available_regions ks g)" by blast
  then show ?thesis
    using set_get_available [OF assms(1)] available_nonempty [OF assms(2) get_available_sound [OF r(2)]]
    by (auto simp: route_least_load_def finds_def)
qed

lemma metrics_keys:
  assumes "router_ok g"
  shows "filter (is_region_available g) (map fst (visit ks (gr_metrics g))) = get_available_regions ks g"
proof -
  have "dom (gr_metrics g) = dom (gr_regions g)"
    using assms by (auto simp: router_ok_def dom_def)
  then show ?thesis
    by (simp add: get_available_regions_def visit_keys)
qed

lemma available_metrics: "router_ok g \<Longrightarrow> is_region_available g i \<Longrightarrow> \<exists>me. gr_metrics g i = Some me"
  using available_registered [of g i] by (cases "gr_metrics g i") (auto simp: router_ok_def)

lemma route_by_latency_finds:
  assumes "covers ks (gr_regions g)" "servable g" "router_ok g"
  shows "\<exists>rt. route_by_latency ks g = Some rt \<and> finds g rt"
proof (cases "get_available_regions ks g = []")
  case True
  then show ?thesis
    using set_get_available [OF assms(1)] by (simp add: route_by_latency_def metrics_keys [OF assms(3)] finds_no_route)
next
  case False
  have "\<And>i. i \<in> set (get_available_regions ks g) \<Longrightarrow> \<exists>x. map_option me_latency (gr_metrics g i) = Some x \<and> x < max_int64"
    using available_metrics [OF assms(3) get_available_sound] assms(2) by (fastforce simp: servable_def)
  from least_value_loop_chooses [where f = "\<lambda>i. map_option me_latency (gr_metrics g i)", OF this False] obtain i x where
    r: "least_value_loop (\<lambda>i. map_option me_latency (gr_metrics g i)) (get_available_regions ks g) ([], max_int64) = Some (i, x)"
      "i \<in> set (get_available_regions ks g)" by blast
  then show ?thesis
    using set_get_available [OF assms(1)] available_nonempty [OF assms(2) get_available_sound [OF r(2)]]
    by (auto simp: route_by_latency_def metrics_keys [OF assms(3)] finds_def)
qed

definition region_score :: "(geo_location \<Rightarrow> xfloat) \<Rightarrow> geo_location \<Rightarrow> geo_router \<Rightarrow> string \<Rightarrow> xfloat" where
  "region_score distance loc g i =
     calculate_region_score distance loc (gr_config g) (the (gr_regions g i)) (the (gr_metrics g i))"

lemma region_scores_all:
  assumes "router_ok g"
  shows "region_scores distance loc ks g = Some (map (\<lambda>i. (i, region_score distance loc g i)) (get_available_regions ks g))"
  unfolding region_scores_def
proof (rule those_map_Some)
  fix i assume "i \<in> set (get_available_regions ks g)"
  then obtain r me where "gr_regions g i = Some r" "gr_metrics g i = Some me"
    using available_registered available_metrics [OF assms] get_available_sound by blast
  then show "(case (gr_regions g i, gr_metrics g i) of
      (Some r, Some me) \<Rightarrow> Some (i, calculate_region_score distance loc (gr_config g) r me) | _ \<Rightarrow> None)
      = Some (i, region_score distance loc g i)"
    by (simp add: region_score_def)
qed

lemma route_by_geo_latency_finds:
  assumes "covers ks (gr_regions g)" "servable g" "router_ok g"
  shows "\<exists>rt. route_by_geo_latency distance request ks g = Some rt \<and> finds g rt"
proof (cases "rr_geo_location request")
  case None
  then show ?thesis
    using route_by_latency_finds [OF assms] by (simp add: route_by_geo_latency_def)
next
  case (Some loc)
  let ?scores = "map (\<lambda>i. (i, region_score distance loc g i)) (get_available_regions ks g)"
  show ?thesis
  proof (cases "?scores = []")
    case True
    then show ?thesis
      using Some set_get_available [OF assms(1)]
      by (simp add: route_by_geo_latency_def region_scores_all [OF assms(3)] finds_no_route)
  next
    case False
    obtain i x where b: "best_score ?scores = (i, x)"
      by fastforce
    then have "i \<in> available_regions g"
      using best_score_in [OF False] set_get_available [OF assms(1)] by auto
    then have "finds g (i, ''geo_latency'', x)"
      by (auto simp: finds_def)
    moreover have "route_by_geo_latency distance request ks g = Some (i, ''geo_latency'', x)"
      unfolding route_by_geo_latency_def Some option.case region_scores_all [OF assms(3)] if_not_P [OF False] b prod.case ..
    ultimately show ?thesis by blast
  qed
qed

lemma route_by_strategy_finds:
  assumes "covers ks (gr_regions g)" "covers js (gr_regions g)" "servable g" "router_ok g"
  shows "\<exists>rt. route_by_strategy distance request ks js g = Some rt \<and> finds g rt"
  unfolding route_by_strategy_def
  using route_by_geo_latency_finds [OF assms(1,3,4)] route_by_latency_finds [OF assms(1,3,4)]
    route_least_load_finds [OF assms(1,3)] route_weighted_finds [OF assms(1)] route_failover_finds [OF assms(1,2)]
    route_first_finds [OF assms(1)]
  by (cases "gc_default_strategy (gr_config g)") (simp_all add: route_round_robin_def route_random_def)

section \<open>What routing promises\<close>

lemma apply_routing_rules_sound:
  assumes "apply_routing_rules request ks g \<noteq> []"
  shows "\<exists>k ru. gr_rules g k = Some ru \<and> ru_enabled ru \<and> matches_conditions request (ru_conditions ru)
    \<and> ru_target_region ru = apply_routing_rules request ks g"
proof -
  from assms obtain i r where f: "find (\<lambda>(i, r). ru_enabled r \<and> matches_conditions request (ru_conditions r)) (visit ks (gr_rules g)) = Some (i, r)"
    by (auto simp: apply_routing_rules_def split: option.splits)
  then have "(i, r) \<in> set (visit ks (gr_rules g))" "ru_enabled r \<and> matches_conditions request (ru_conditions r)"
    by (auto simp: find_Some_iff in_set_conv_nth)
  then show ?thesis
    using f by (auto simp: set_visit apply_routing_rules_def)
qed

lemma sticky_region_sound: "sticky_region request g g1 = Some i \<Longrightarrow> i \<in> available_regions g1"
  by (auto simp: sticky_region_def available_regions_def split: if_splits option.splits)

lemma decision_fields [simp]:
  "rt_request_id (create_decision now ks request i reason score g) = rr_id request"
  "rt_selected_region (create_decision now ks request i reason score g) = i"
  "rt_reason (create_decision now ks request i reason score g) = reason"
  "rt_alternatives (create_decision now ks request i reason score g) = get_available_regions ks g"
  by (simp_all add: create_decision_def)

text \<open>Whatever a router contains, a region that a strategy finds can serve.\<close>

lemma find_metrics_sound: "i \<in> set (filter (is_region_available g) ids) \<Longrightarrow> is_region_available g i"
  by simp

lemma route_by_strategy_sound:
  assumes "route_by_strategy distance request ks js g = Some (i, reason, score)" "router_ok g"
  shows "i = [] \<or> i \<in> available_regions g"
proof -
  have first: "fst (route_first w ks g) = [] \<or> fst (route_first w ks g) \<in> available_regions g" for w
    using get_available_sound [of _ ks g]
    by (auto simp: route_first_def no_route_def available_regions_def split: list.split)
  have weighted: "fst (route_weighted ks g) = [] \<or> fst (route_weighted ks g) \<in> available_regions g"
    using get_available_sound [of _ ks g]
    by (auto simp: route_weighted_def no_route_def available_regions_def Let_def split: list.split)
  have failover: "fst (route_failover ks js g) = [] \<or> fst (route_failover ks js g) \<in> available_regions g"
    using get_available_sound [of _ ks g] get_available_sound [of _ js g]
    by (auto simp: route_failover_def no_route_def available_regions_def filter_eq_Cons_iff split: list.split)
  have least: "route_least_load ks g = Some rt \<Longrightarrow> fst rt = [] \<or> fst rt \<in> available_regions g" for rt
    using get_available_sound [of _ ks g]
    by (auto simp: route_least_load_def no_route_def available_regions_def dest!: least_value_loop_result split: if_splits)
  have latency: "route_by_latency ks g = Some rt \<Longrightarrow> fst rt = [] \<or> fst rt \<in> available_regions g" for rt
    by (auto simp: route_by_latency_def no_route_def available_regions_def dest!: least_value_loop_result split: if_splits)
  have geo: "route_by_geo_latency distance request ks g = Some rt \<Longrightarrow> fst rt = [] \<or> fst rt \<in> available_regions g" for rt
  proof (cases "rr_geo_location request")
    case (Some loc)
    let ?scores = "map (\<lambda>i. (i, region_score distance loc g i)) (get_available_regions ks g)"
    assume "route_by_geo_latency distance request ks g = Some rt"
    then have "rt = no_route \<or> ?scores \<noteq> [] \<and> fst rt = fst (best_score ?scores)"
      unfolding route_by_geo_latency_def Some option.case region_scores_all [OF assms(2)]
      by (auto split: if_splits prod.splits)
    then show ?thesis
      using best_score_in [of ?scores] get_available_sound [of _ ks g] by (auto simp: no_route_def available_regions_def)
  qed (use latency in \<open>simp add: route_by_geo_latency_def\<close>)
  have "fst (i, reason, score) = [] \<or> fst (i, reason, score) \<in> available_regions g"
  proof (cases "gc_default_strategy (gr_config g)")
    case RoutingRoundRobin
    with assms(1) first show ?thesis by (simp only: route_by_strategy_def routing_strategy.case option.inject route_round_robin_def) metis
  next
    case RoutingRandom
    with assms(1) first show ?thesis by (simp only: route_by_strategy_def routing_strategy.case option.inject route_random_def) metis
  next
    case RoutingWeighted
    with assms(1) weighted show ?thesis by (simp only: route_by_strategy_def routing_strategy.case option.inject)
  next
    case RoutingFailover
    with assms(1) failover show ?thesis by (simp only: route_by_strategy_def routing_strategy.case option.inject)
  qed (use assms(1) in \<open>simp_all only: route_by_strategy_def routing_strategy.case\<close>, (rule geo least latency, assumption)+)
  then show ?thesis by simp
qed

text \<open>A strategy panics only on a capacity of zero, when it looks for the least load.\<close>

lemma least_value_loop_panics: "least_value_loop f ids best = None \<Longrightarrow> \<exists>i\<in>set ids. f i = None"
  by (induction f ids best rule: least_value_loop.induct) (auto split: option.splits)

lemma route_by_strategy_panics:
  assumes "route_by_strategy distance request ks js g = None" "router_ok g"
  shows "gc_default_strategy (gr_config g) = RoutingLeastLoad
    \<and> (\<exists>i r. gr_regions g i = Some r \<and> is_region_available g i \<and> rg_capacity r = 0)"
proof -
  have latency: "route_by_latency ks g \<noteq> None"
    using least_value_loop_total [of "get_available_regions ks g" "\<lambda>i. map_option me_latency (gr_metrics g i)" "([], max_int64)"]
      available_metrics [OF assms(2) get_available_sound]
    by (fastforce simp: route_by_latency_def metrics_keys [OF assms(2)])
  moreover have "route_by_geo_latency distance request ks g \<noteq> None"
  proof (cases "rr_geo_location request")
    case (Some loc)
    then show ?thesis
      unfolding route_by_geo_latency_def Some option.case region_scores_all [OF assms(2)]
      by (simp add: no_route_def split: prod.split)
  qed (use latency in \<open>simp add: route_by_geo_latency_def\<close>)
  ultimately have ll: "gc_default_strategy (gr_config g) = RoutingLeastLoad" "route_least_load ks g = None"
    using assms(1) unfolding route_by_strategy_def by (simp_all split: routing_strategy.splits)
  then obtain i where i: "i \<in> set (get_available_regions ks g)" "Option.bind (gr_regions g i) load_percentage = None"
    by (auto simp: route_least_load_def dest: least_value_loop_panics)
  then have "is_region_available g i" by (simp add: get_available_sound)
  with available_registered [OF this] i(2) ll(1) show ?thesis by (force simp: load_percentage_def split: if_splits)
qed

lemma run_policies_cases:
  assumes "router_ok g"
  shows "case run_policies waiting distance request os g of
      Blocks \<Rightarrow> matching_policy request g \<and> (waiting 0 \<or> locks_twice request g \<and> waiting 1)
    | Panics \<Rightarrow> gc_default_strategy (gr_config g) = RoutingLeastLoad
        \<and> (\<exists>i r. gr_regions g i = Some r \<and> is_region_available g i \<and> rg_capacity r = 0)
    | Done i \<Rightarrow> i = [] \<or> i \<in> available_regions g"
proof -
  let ?matching = "find (\<lambda>(i, p). rp_enabled p \<and> matches_conditions request (rp_conditions p)) (visit (ro_policies os) (gr_policies g))"
  have m: "matching_policy request g" if found: "?matching \<noteq> None"
  proof -
    obtain i p where "(i, p) \<in> set (visit (ro_policies os) (gr_policies g))" "rp_enabled p \<and> matches_conditions request (rp_conditions p)"
      using found by (force simp: find_Some_iff in_set_conv_nth)
    then show ?thesis by (auto simp: matching_policy_def set_visit ran_def)
  qed
  have "apply_routing_policies distance request os g = Some i \<Longrightarrow> i = [] \<or> i \<in> available_regions g" for i
    by (auto simp: apply_routing_policies_def split: option.splits dest: route_by_strategy_sound [OF _ assms])
  moreover have "apply_routing_policies distance request os g = None \<Longrightarrow>
      \<exists>ks js. route_by_strategy distance request ks js g = None"
    by (auto simp: apply_routing_policies_def split: option.splits)
  ultimately show ?thesis
    using m route_by_strategy_panics [OF _ assms] unfolding run_policies_def by (auto split: option.split)
qed

lemma run_strategy_cases:
  assumes "router_ok g" "\<And>k. covers (ro_regions os k) (gr_regions g)"
  shows "case run_strategy waiting distance request os g of
      Blocks \<Rightarrow> locks_twice request g \<and> waiting 2
    | Panics \<Rightarrow> gc_default_strategy (gr_config g) = RoutingLeastLoad
        \<and> (\<exists>i r. gr_regions g i = Some r \<and> is_region_available g i \<and> rg_capacity r = 0)
    | Done (i, reason, score) \<Rightarrow> if i = [] then servable g \<longrightarrow> available_regions g = {} else i \<in> available_regions g"
proof -
  have "available_regions g = {}" if none: "route_by_strategy distance request (ro_regions os 2) (ro_regions os 3) g = Some ([], reason, score)"
    and s: "servable g" for reason score
  proof -
    have "finds g ([], reason, score)"
      using route_by_strategy_finds [OF assms(2,2) s assms(1), of distance request 2 3] none by simp
    then show ?thesis
      using available_nonempty [OF s] by (auto simp: finds_def available_regions_def split: if_splits)
  qed
  then show ?thesis
    unfolding run_strategy_def
    by (auto split: option.split dest: route_by_strategy_sound [OF _ assms(1)] route_by_strategy_panics [OF _ assms(1)])
qed

text \<open>C23: what a call of \<^verbatim>\<open>RouteRequest\<close> can come to, on a router in order (as every run from a new one leaves it)
  and whatever others do to the router between its locked parts. It blocks for ever only when a writer waits where the
  read lock is taken again: under a matching policy, or by geographic routing of a request without a location. It
  panics only in least-load routing, when a region that can serve has capacity 0. It is refused, having changed
  nothing, only when no region can serve at that moment, provided that all regions have an id, a positive capacity and
  a latency below the largest. Otherwise it is routed to a region that could serve at one moment during the
  call, unless an enabled rule whose conditions it matches names that region; the alternatives are the regions that
  can serve when the decision is made.\<close>

theorem route_request_sound:
  assumes "router_ok g" "interference env" "\<And>j k. covers (ro_regions os k) (gr_regions (seen env j g))"
  shows "case route env waiting distance os now (Some request) g of
      Blocks \<Rightarrow> (\<exists>k. waiting k) \<and> (matching_policy request (seen env 3 g) \<or> locks_twice request g)
    | Panics \<Rightarrow> gc_default_strategy (gr_config g) = RoutingLeastLoad
        \<and> (\<exists>k i r. gr_regions (seen env k g) i = Some r \<and> is_region_available (seen env k g) i \<and> rg_capacity r = 0)
    | Done (g', Inl e) \<Rightarrow> e = ErrNoRegion \<and> g' = seen env 4 g
        \<and> (servable (seen env 4 g) \<longrightarrow> available_regions (seen env 4 g) = {})
    | Done (g', Inr d) \<Rightarrow> rt_request_id d = rr_id request \<and> set (rt_alternatives d) = available_regions (seen env 5 g)
        \<and> ((\<exists>k. rt_selected_region d \<in> available_regions (seen env k g))
           \<or> rt_reason d = ''custom_rule'' \<and> (\<exists>k ru. gr_rules (seen env 2 g) k = Some ru \<and> ru_enabled ru
                \<and> matches_conditions request (ru_conditions ru) \<and> ru_target_region ru = rt_selected_region d))"
proof -
  have ok: "router_ok (seen env k g)" and conf: "gr_config (seen env k g) = gr_config g" for k
    using router_steps_ok [OF seen_steps [OF assms(2)] assms(1)] router_steps_config [OF seen_steps [OF assms(2)]] by simp_all
  have twice: "locks_twice request (seen env k g) = locks_twice request g" for k
    by (simp add: locks_twice_def conf)
  show ?thesis
  proof (cases "sticky_region request (seen env 0 g) (seen env 1 g)")
    case (Some i)
    then show ?thesis
      using sticky_region_sound [OF Some] set_get_available [OF assms(3)]
      by (simp add: route_def Let_def del: seen.simps) blast
  next
    case sticky: None
    show ?thesis
    proof (cases "apply_routing_rules request (ro_rules os) (seen env 2 g) = []")
      case False
      then show ?thesis
        using sticky apply_routing_rules_sound [OF False] assms(3) by (simp add: route_def Let_def del: seen.simps)
    next
      case rules: True
      note pol = run_policies_cases [OF ok [of 3], where waiting = waiting and distance = distance and request = request and os = os,
        unfolded twice conf]
      note str = run_strategy_cases [OF ok [of 4] assms(3), where waiting = waiting and distance = distance and request = request,
        unfolded twice conf]
      show ?thesis
      proof (cases "run_policies waiting distance request os (seen env 3 g)")
        case (Done i)
        then show ?thesis
          using sticky rules pol str assms(3)
          by (cases "i = []"; cases "run_strategy waiting distance request os (seen env 4 g)")
            (auto simp: route_def Let_def simp del: seen.simps split: if_splits)
      qed (use sticky rules pol in \<open>auto simp: route_def Let_def simp del: seen.simps\<close>)
    qed
  qed
qed

text \<open>C24: sticky sessions. When a request with a session is routed by its session or by the default strategy,
  a later request of that session goes to the same region, as long as the region can serve, the session has not
  been cleared or routed elsewhere and the configuration is the same, whatever else has changed.\<close>

theorem sticky_session_kept:
  assumes "route_request distance os now (Some request) g = Some (g', Inr d)"
    and "rt_reason d \<notin> {''custom_rule'', ''policy''}"
    and "gc_enable_sticky_session (gr_config g)" "rr_session_id request \<noteq> []"
    and "gr_config g'' = gr_config g" "gr_sessions g'' (rr_session_id request) = gr_sessions g' (rr_session_id request)"
    and "is_region_available g'' (rt_selected_region d)" "rr_session_id request' = rr_session_id request"
  shows "\<exists>d'. route_request distance os' later (Some request') g'' = Some (g'', Inr d')
    \<and> rt_selected_region d' = rt_selected_region d \<and> rt_reason d' = ''sticky_session''"
proof -
  have "gr_sessions g' (rr_session_id request) = Some (rt_selected_region d)"
  proof (cases "sticky_region request g g")
    case (Some i)
    then show ?thesis
      using assms(1,3,4) by (auto simp: route_request_eq Let_def sticky_region_def split: option.splits if_splits)
  next
    case None
    then show ?thesis
      using assms(1-4)
      by (auto simp: route_request_eq Let_def set_sticky_session_def record_decision_def split: option.splits if_splits)
  qed
  then have "sticky_region request' g'' g'' = Some (rt_selected_region d)"
    using assms(3-8) by (simp add: sticky_region_def)
  then show ?thesis
    by (simp add: route_request_eq Let_def)
qed

text \<open>By location and latency a region with the best score is chosen, as long as every score is a number.\<close>

theorem geo_latency_best:
  assumes "router_ok g" "rr_geo_location request = Some loc" "covers ks (gr_regions g)"
    and "route_by_geo_latency distance request ks g = Some (i, reason, score)" "available_regions g \<noteq> {}"
    and "\<And>j. j \<in> available_regions g \<Longrightarrow> region_score distance loc g j \<noteq> NaN"
  shows "i \<in> available_regions g \<and> score = region_score distance loc g i
    \<and> (\<forall>j. j \<in> available_regions g \<longrightarrow> \<not> x_less score (region_score distance loc g j))"
proof -
  let ?scores = "map (\<lambda>i. (i, region_score distance loc g i)) (get_available_regions ks g)"
  have avail: "set (get_available_regions ks g) = available_regions g"
    using assms(3) by simp
  then have ne: "?scores \<noteq> []"
    using assms(5) by auto
  have best: "best_score ?scores = (i, score)"
    using assms(4) unfolding route_by_geo_latency_def assms(2) option.case region_scores_all [OF assms(1)] if_not_P [OF ne]
    by (auto split: prod.splits)
  then show ?thesis
    using best_score_in [OF ne] best_score_best [of ?scores] avail assms(6) by fastforce
qed

section \<open>Examples\<close>

definition sample_router :: geo_router where
  "sample_router = fst (register_region 0 (Some (sample_region ''eu'' 1))
     (new_geo_router (Some (default_geo_routing_config\<lparr>gc_default_strategy := RoutingLeastLoad\<rparr>))))"

definition sample_route_request :: routing_request where
  "sample_route_request = \<lparr>rr_id = ''r1'', rr_geo_location = None, rr_service_type = [], rr_session_id = ''s'', rr_user_id = []\<rparr>"

definition sample_orders :: route_orders where
  "sample_orders = \<lparr>ro_rules = [], ro_policies = [], ro_regions = (\<lambda>k. [''eu''])\<rparr>"

lemma sample_router_fields:
  "gr_regions sample_router = [''eu'' \<mapsto> sample_region ''eu'' 1]"
  "gr_metrics sample_router = [''eu'' \<mapsto> \<lparr>me_region_id = ''eu'', me_latency = 0, me_load = 0, me_capacity = 10,
     me_health_score = 0, me_request_count = 0, me_last_update = 0\<rparr>]"
  "gr_config sample_router = default_geo_routing_config\<lparr>gc_default_strategy := RoutingLeastLoad\<rparr>"
  "gr_sessions sample_router = Map.empty" "gr_policies sample_router = Map.empty" "gr_rules sample_router = Map.empty"
  "gr_decisions sample_router = []" "gr_queue sample_router = []"
  by (simp_all add: sample_router_def register_region_def new_geo_router_def sample_region_def)

lemma sample_router_ok: "router_ok sample_router" "servable sample_router" "covers [''eu''] (gr_regions sample_router)"
  by (simp_all add: router_ok_def servable_def covers_def sample_router_fields sample_region_def max_int64_def)

lemma sample_available: "is_region_available sample_router i \<longleftrightarrow> i = ''eu''"
  by (simp add: is_region_available_def sample_router_fields sample_region_def default_geo_routing_config_def)

text \<open>While the request is routed, the region is drained just before the alternatives are listed.\<close>

definition sample_env :: "nat \<Rightarrow> geo_router \<Rightarrow> geo_router" where
  "sample_env k g = (if k = 5 then case gr_regions g ''eu'' of None \<Rightarrow> g
     | Some r \<Rightarrow> if rg_id r = ''eu'' then g\<lparr>gr_regions := (gr_regions g)(''eu'' \<mapsto> r\<lparr>rg_status := RegionMaintenance\<rparr>)\<rparr> else g
     else g)"

lemma sample_interference: "interference sample_env"
  unfolding interference_def
proof (intro allI)
  fix k g show "router_step\<^sup>*\<^sup>* g (sample_env k g)"
  proof (cases "k = 5 \<and> gr_regions g ''eu'' \<noteq> None \<and> rg_id (the (gr_regions g ''eu'')) = ''eu''")
    case True
    then show ?thesis by (auto simp: sample_env_def intro!: r_into_rtranclp region)
  qed (auto simp: sample_env_def split: option.split)
qed

lemma sample_seen: "k < 5 \<Longrightarrow> seen sample_env k sample_router = sample_router"
  by (induction k) (simp_all add: sample_env_def)

lemma sample_seen_regions: "gr_regions (seen sample_env k sample_router) ''eu'' \<noteq> None \<and> dom (gr_regions (seen sample_env k sample_router)) = {''eu''}"
  by (induction k) (auto simp: sample_env_def sample_router_fields split: option.splits if_splits)

theorem route_request_sound_witness:
  "\<exists>g' d. route sample_env (\<lambda>k. True) (\<lambda>loc. Fin 0) sample_orders 5 (Some sample_route_request) sample_router = Done (g', Inr d)
     \<and> rt_selected_region d = ''eu'' \<and> rt_alternatives d = []"
proof -
  have cov: "covers (ro_regions sample_orders k) (gr_regions (seen sample_env j sample_router))" for j k
    using sample_seen_regions [of j] by (simp add: sample_orders_def covers_def)
  have early: "seen sample_env 0 sample_router = sample_router" "seen sample_env 1 sample_router = sample_router"
    "seen sample_env 2 sample_router = sample_router" "seen sample_env 3 sample_router = sample_router"
    "seen sample_env 4 sample_router = sample_router"
    by (simp_all only: sample_seen)
  have parts: "sticky_region sample_route_request sample_router sample_router = None"
      "apply_routing_rules sample_route_request (ro_rules sample_orders) sample_router = []"
      "run_policies (\<lambda>k. True) (\<lambda>loc. Fin 0) sample_route_request sample_orders sample_router = Done []"
    by (simp_all add: sticky_region_def sample_router_fields apply_routing_rules_def run_policies_def apply_routing_policies_def
        sample_orders_def)
  obtain score where "run_strategy (\<lambda>k. True) (\<lambda>loc. Fin 0) sample_route_request sample_orders sample_router = Done (''eu'', ''least_load'', score)"
  proof -
    have "get_available_regions [''eu''] sample_router = [''eu'']"
      by (simp add: get_available_regions_def sample_router_fields sample_available)
    then have "\<exists>score. route_by_strategy (\<lambda>loc. Fin 0) sample_route_request [''eu''] [''eu''] sample_router = Some (''eu'', ''least_load'', score)"
      by (simp add: route_by_strategy_def route_least_load_def sample_router_fields sample_region_def load_percentage_def
          go_div_def i64_def max_int64_def)
    then show ?thesis
      using that by (auto simp: run_strategy_def locks_twice_def sample_orders_def sample_router_fields)
  qed
  with parts obtain g' d where r: "route sample_env (\<lambda>k. True) (\<lambda>loc. Fin 0) sample_orders 5 (Some sample_route_request) sample_router
      = Done (g', Inr d)" and d: "rt_selected_region d = ''eu''"
    unfolding route_def Let_def early by simp
  have "available_regions (seen sample_env 5 sample_router) = {}"
    using sample_seen_regions [of 4]
    by (auto simp: available_regions_def is_region_available_def sample_env_def early eval_nat_numeral sample_router_fields
        sample_region_def split: option.splits if_splits)
  with route_request_sound [OF sample_router_ok(1) sample_interference cov, where waiting = "\<lambda>k. True"
      and distance = "\<lambda>loc. Fin 0" and now = 5 and request = sample_route_request]
  show ?thesis using r d by simp
qed

lemma sample_routed:
  "\<exists>g' d. route_request (\<lambda>loc. Fin 0) sample_orders 5 (Some sample_route_request) sample_router = Some (g', Inr d)
     \<and> rt_selected_region d = ''eu'' \<and> rt_reason d = ''least_load''"
proof -
  have "get_available_regions [''eu''] sample_router = [''eu'']"
    by (simp add: get_available_regions_def sample_router_fields sample_available)
  then have "\<exists>score. route_by_strategy (\<lambda>loc. Fin 0) sample_route_request [''eu''] [''eu''] sample_router = Some (''eu'', ''least_load'', score)"
    by (simp add: route_by_strategy_def route_least_load_def sample_router_fields sample_region_def load_percentage_def
        go_div_def i64_def max_int64_def)
  moreover have "sticky_region sample_route_request sample_router sample_router = None"
    by (simp add: sticky_region_def sample_router_fields)
  moreover have "apply_routing_rules sample_route_request [] sample_router = []"
      "apply_routing_policies (\<lambda>loc. Fin 0) sample_route_request sample_orders sample_router = Some []"
    by (simp_all add: apply_routing_rules_def apply_routing_policies_def sample_orders_def)
  ultimately show ?thesis
    by (auto simp: route_request_eq Let_def sample_orders_def)
qed

theorem sticky_session_kept_witness:
  "\<exists>g' d d'. route_request (\<lambda>loc. Fin 0) sample_orders 5 (Some sample_route_request) sample_router = Some (g', Inr d)
     \<and> route_request (\<lambda>loc. Fin 0) sample_orders 9 (Some sample_route_request) g' = Some (g', Inr d')
     \<and> rt_selected_region d' = ''eu'' \<and> rt_reason d' = ''sticky_session''"
proof -
  obtain g' d where r: "route_request (\<lambda>loc. Fin 0) sample_orders 5 (Some sample_route_request) sample_router = Some (g', Inr d)"
    and d: "rt_selected_region d = ''eu''" "rt_reason d = ''least_load''"
    using sample_routed by blast
  have same: "gr_config g' = gr_config sample_router" "gr_regions g' = gr_regions sample_router"
    using r by (auto simp: route_request_eq Let_def set_sticky_session_def record_decision_def split: option.splits if_splits prod.splits)
  have "is_region_available g' (rt_selected_region d)"
    using sample_available [of "''eu''"] unfolding is_region_available_def same d(1) by simp
  with sticky_session_kept [OF r _ _ _ same(1) _ _ refl, where os' = sample_orders and later = 9] r d show ?thesis
    by (simp add: sample_router_fields default_geo_routing_config_def sample_route_request_def)
qed

end
