(* ===== verification/Spec2Isabelle.thy ===== *)
theory Spec2Isabelle
  imports RateLimiter Cache Executor Acl Rbac Sessions Failover LoadBalancer Quotas Migrations Policies Batch Versions
    PluginTable Permissions Csrf GeoRouting
begin

text \<open>
  A verification library for NetLLM (directory \<^verbatim>\<open>src/ai-provider\<close>), a service that answers inference requests
  for language models on behalf of many tenants. The library models the core logic of the service in
  Isabelle/HOL, one theory per source file, each definition translated from the Go function it is named
  after, and proves what makes each part correct. File names below are relative to
  \<^verbatim>\<open>src/ai-provider/internal\<close>.

  \<^bold>\<open>The program and its parts.\<close> A request passes the rate limiters and the request security, is attributed to
  a session and a tenant, is authorised, and reaches the inference engine, which answers from its cache or
  executes the request on an instance of a model:

  \<^item> \<open>RateLimiter\<close> (\<^verbatim>\<open>security/rate_limiter.go\<close>): token bucket, fixed and sliding window, leaky bucket, the
    universal limiter, the middleware over the limiter interface and the service of named limiters.
  \<^item> \<open>Csrf\<close> (\<^verbatim>\<open>security/csrf.go\<close>): the token store, the validation of requests and the middleware.
  \<^item> \<open>Sessions\<close> (\<^verbatim>\<open>auth/session.go\<close>): the in-memory session store with its index by user and the manager
    over the store interface.
  \<^item> \<open>Acl\<close>, \<open>Rbac\<close>, \<open>Policies\<close>, \<open>Permissions\<close> (\<^verbatim>\<open>authz/acl.go\<close>, \<^verbatim>\<open>rbac.go\<close>, \<^verbatim>\<open>policies.go\<close>,
    \<^verbatim>\<open>permissions.go\<close>): access control lists, roles with inheritance, policies with conditions and
    combining algorithms, and the permission catalogue with its dependencies.
  \<^item> \<open>Quotas\<close> (\<^verbatim>\<open>tenant/quotas.go\<close>): the limits of a tenant, cached over a database table.
  \<^item> \<open>Cache\<close>, \<open>Memory\<close>, \<open>Gpu\<close>, \<open>Instance\<close>, \<open>Scheduler\<close>, \<open>Executor\<close>, \<open>Batch\<close> (the files of the same names
    in \<^verbatim>\<open>inference\<close>, with \<^verbatim>\<open>types.go\<close> and \<^verbatim>\<open>errors.go\<close> in \<open>InferenceTypes\<close> and \<^verbatim>\<open>ListInstances\<close> of
    \<^verbatim>\<open>loader.go\<close> in \<open>Executor\<close>): the scheduler reserves memory from the memory and GPU managers and picks
    instances; the executor tracks requests, queues them and runs them on instances with retries; the
    batch processor runs batches through the executor.
  \<^item> \<open>Versions\<close> (\<^verbatim>\<open>models/version.go\<close>) and \<open>Migrations\<close> (\<^verbatim>\<open>operations/migration.go\<close>): the versions of a
    model and the migrations of the database.
  \<^item> \<open>Failover\<close>, \<open>LoadBalancer\<close> (\<^verbatim>\<open>ha/failover.go\<close>, \<^verbatim>\<open>ha/loadbalance.go\<close>), \<open>RegionDeployment\<close> and
    \<open>GeoRouting\<close> (\<^verbatim>\<open>multiregion/deployment.go\<close>, \<^verbatim>\<open>multiregion/routing.go\<close>): which node is active, which
    backend serves a request, how a version is brought to the regions, and which region a request goes to.
  \<^item> \<open>Plugins\<close> and \<open>PluginTable\<close> (\<^verbatim>\<open>plugins/manager.go\<close>): the life cycle of plugins over the interface of their
    database and loader, and the SQL table that provides it.

  \<open>Prelude\<close> holds what they share (64-bit integers, Go's division, time, maps with an explicit iteration
  order, the two hand-written sorts), \<open>Float64\<close> the rounding of float64 arithmetic, and \<open>GoStrings\<close> the
  functions of the package \<^verbatim>\<open>strings\<close>.

  \<^bold>\<open>How code becomes definitions.\<close> A struct is a record with the fields the operations read or write, an
  enumeration a datatype (or a string where the code accepts any string), a map a function to \<open>option\<close>, an
  error a value of a datatype on the left of a sum. A call that ends in a panic or blocks for ever is
  \<open>None\<close> (or \<open>Inl\<close> of a panic, or \<open>Blocks\<close> and \<open>Panics\<close> in \<open>Versions\<close>). The clock, generated ids, random
  draws and the order in which Go ranges over a map are arguments, so every theorem holds for each of
  their outcomes. A method that runs under one lock is one step. Where the code releases its lock in between, its
  parts are separate steps in these theories: \<open>Batch\<close> (every critical section, interleaved by \<open>batch_step\<close>),
  \<open>Executor\<close> (\<^verbatim>\<open>Execute\<close> at its \<^verbatim>\<open>select\<close>), \<open>Cache\<close> (\<^verbatim>\<open>Set\<close>, and the late writes of a \<^verbatim>\<open>Get\<close>), \<open>GeoRouting\<close>
  (\<^verbatim>\<open>RouteRequest\<close>, with what others do in between) and \<open>RegionDeployment\<close> (the deployments). These methods are
  one step although they release their lock, or hold a read lock while they write, and what is proved of them is about
  calls that do not overlap: \<^verbatim>\<open>GrantAccess\<close> and its relatives (\<open>Acl\<close>), \<^verbatim>\<open>CreateRole\<close>, \<^verbatim>\<open>UpdateRole\<close> and
  the initialization (\<open>Rbac\<close>), \<^verbatim>\<open>ValidateSession\<close> and the other calls of the session manager (\<open>Sessions\<close>),
  the validation of a request (\<open>Csrf\<close>), \<^verbatim>\<open>Install\<close> and \<^verbatim>\<open>Uninstall\<close> (\<open>Plugins\<close>), the calls of the quota manager that
  combine others, \<^verbatim>\<open>ConsumeResources\<close> first (\<open>Quotas\<close>), \<^verbatim>\<open>SelectBackend\<close> (\<open>LoadBalancer\<close>) and
  \<^verbatim>\<open>processRequest\<close> (\<open>Executor\<close>). Where an overlap breaks what is meant, it is recorded as a finding. Interfaces of the code (repositories, databases,
  session stores, limiters) are records of operations, with their documented contract as a locale:
  \<open>rate_limiter\<close>, \<open>session_backend\<close>, \<open>quota_store\<close>, \<open>migration_database\<close>, \<open>csrf_backend\<close>,
  \<open>plugin_table\<close>; \<open>rounding\<close> (what the float proofs use of
  rounding), \<open>swap_test\<close> (the hand-written sorts), \<open>reservoir\<close> (memory reservations) and \<open>simulation\<close>
  (refinement of a specification) are contracts within the development. Each is interpreted in the theory
  of the component that provides it, on the model's own definitions.

  \<^bold>\<open>What the lemmas show.\<close> Each theory first proves that every operation keeps the invariant of its
  component, then the properties on reachable states:
  limits are kept (\<open>RateLimiter\<close>, \<open>Cache\<close>, \<open>Memory\<close>, \<open>Gpu\<close>, \<open>Scheduler\<close>, \<open>Quotas\<close>, \<open>Batch\<close>);
  decisions are exactly those of a reference definition (\<open>Acl\<close>, \<open>Rbac\<close>, \<open>Policies\<close>, \<open>Permissions\<close>,
  \<open>Csrf\<close>, \<open>LoadBalancer\<close>, \<open>GeoRouting\<close>);
  indexes and hierarchies agree with what they index and stay acyclic; the priority queues refine one list
  in order of arrival; parsing and printing are inverse (\<open>Versions\<close>, \<open>Migrations\<close>, \<open>Permissions\<close>); state
  machines keep their invariants (\<open>Failover\<close>, also between the writes of \<^verbatim>\<open>ha/updates.go\<close>, \<open>Sessions\<close>, \<open>Plugins\<close>, \<open>Batch\<close>);
  a deployment ends and has reached
  the regions it says it has (\<open>RegionDeployment\<close>), and panics only for a batch size that is not positive; loops end. Where
  a limit holds only up to overlapping calls or oversized values, the theorem says by how much it can be exceeded
  (\<open>Cache\<close>, \<open>RateLimiter\<close>, \<open>Memory\<close>). Some theorems
  state what the code does where that is not what it means to do: a synchronous call of the executor never gets
  its response, a batch goroutine that outlives its batch exceeds the limit of running ones, some operations
  of the version manager take a lock that their own goroutine holds, the initialization of the default roles can make a
  cycle of roles, and a rolling update makes several nodes active.

  \<^bold>\<open>Bounds and fuel.\<close> Recursions follow the code. The retry loop of the executor counts its attempts down,
  the search for a role takes fuel and ends with more fuel than there are roles, the permissions of a role
  are collected to the code's depth \<^verbatim>\<open>MaxRoleInheritanceDepth\<close>, the upgrade path and the sifting of the
  hand-written sorts have termination proofs, and collecting the entries of an access control list, which
  may not end, is a partial function with a theorem that says when it does. Channel capacities (100 failover
  events, 1000 routing decisions, deployment events and plugin events, the executor's queue size) and the semaphore of ten
  requests of a batch are those of the code. A 64-bit integer is an unbounded one where the code cannot
  reach the end of the range in operation (the parts of a version number, for one), and wraps (\<open>i64\<close>) where it decides
  something. Two readings of the clock in one call are taken to be one where nothing depends on their
  difference (the time at which a migration was applied and that of its record, for one).

  \<^bold>\<open>Not modelled.\<close> What a driver makes of a value in a time or JSON column (a parameter of \<open>Plugins\<close>). Log output, the text of error messages, JSON and cryptographic library calls, and
  goroutines that only wait for a ticker (their tick is modelled). Go's memory model: data races are not
  executions of the models; where modelling met one it is recorded as a finding. Of the other files: the HTTP
  handlers, the Kubernetes operators, the configuration, storage and integration files are glue over
  libraries; billing, usage, analytics, audit, dashboards, workspaces and organizations are records behind
  SQL queries whose meaning lies in the database; backup, restore, maintenance, diagnostics, download and
  the model formats run external programs and file I/O; the cryptography, tokens and second factors rest on
  libraries whose guarantees are not facts about this code; health probes, rolling updates and the
  replication of regions call out to the network.
\<close>

end
